(* ===== verification/Prelude.thy ===== *)
theory Prelude
  imports Main "HOL-Library.Word"
begin

text \<open>
  Shared material of the development: the outcome type of a C++ operation that may stop the
  program, \<^verbatim>\<open>size_t\<close> arithmetic, truncating C division, and generic lemmas on lists.

  A C++ operation of the code either returns or ends the program. Results are values of
  \<open>'a res = fault + 'a\<close>: \<open>Inl\<close> of the reason (a failed \<^verbatim>\<open>assert\<close>, \<^verbatim>\<open>abort()\<close> after a
  \<^verbatim>\<open>LOG_FATAL\<close>, a thrown exception, undefined behaviour), or \<open>Inr\<close> of the result. The makefiles
  build without \<^verbatim>\<open>NDEBUG\<close>, so every \<^verbatim>\<open>assert\<close> of the source is active.
\<close>

named_theorems res_simps \<open>evaluation of the outcome monad\<close>
named_theorems sz_simps \<open>size_t arithmetic without wrap-around\<close>

section \<open>Outcomes\<close>

datatype fault =
    AssertFailed
  | FatalLog
  | Aborted
  | LengthError
  | OutOfBounds
  | NullPointer
  | UseAfterFree
  | LogicError string
  | EmptyStack
  | BadFunctionCall
  | WouldBlock
  | DivisionByZero
  | NotOwner
  | SystemError

type_synonym 'a res = "fault + 'a"

definition bindR :: "'a res \<Rightarrow> ('a \<Rightarrow> 'b res) \<Rightarrow> 'b res" where
  "bindR m f = (case m of Inl e \<Rightarrow> Inl e | Inr x \<Rightarrow> f x)"

text \<open>\<^verbatim>\<open>assert(p); k\<close>\<close>

definition assertC :: "bool \<Rightarrow> 'a res \<Rightarrow> 'a res" where
  "assertC p k = (if p then k else Inl AssertFailed)"

definition okR :: "'a res \<Rightarrow> bool" where
  "okR m = (case m of Inl _ \<Rightarrow> False | Inr _ \<Rightarrow> True)"

lemma bindR_simps [simp, res_simps]:
  "bindR (Inl e) f = Inl e"
  "bindR (Inr x) f = f x"
  by (simp_all add: bindR_def)

lemma assertC_simps [simp, res_simps]:
  "assertC True k = k"
  "assertC False k = Inl AssertFailed"
  by (simp_all add: assertC_def)

lemma okR_simps [simp, res_simps]:
  "okR (Inr x)"
  "\<not> okR (Inl e)"
  by (simp_all add: okR_def)

lemma bindR_eq_Inr [res_simps]: "bindR m f = Inr y \<longleftrightarrow> (\<exists>x. m = Inr x \<and> f x = Inr y)"
  by (cases m) auto

lemma assertC_eq_Inr [res_simps]: "assertC p k = Inr y \<longleftrightarrow> p \<and> k = Inr y"
  by (simp add: assertC_def)

lemma bindR_assoc: "bindR (bindR m f) g = bindR m (\<lambda>x. bindR (f x) g)"
  by (cases m) auto

lemma bindR_InrE [elim!]:
  assumes "bindR m f = Inr y"
  obtains x where "m = Inr x" and "f x = Inr y"
  using assms by (auto simp: bindR_eq_Inr)

lemma assertC_InrE [elim!]:
  assumes "assertC p k = Inr y"
  obtains "p" and "k = Inr y"
  using assms by (auto simp: assertC_eq_Inr)

text \<open>A list of operations run from the left, stopping at the first fault.\<close>

fun foldR :: "('x \<Rightarrow> 's \<Rightarrow> 's res) \<Rightarrow> 'x list \<Rightarrow> 's \<Rightarrow> 's res" where
  "foldR f [] s = Inr s"
| "foldR f (x # xs) s = bindR (f x s) (foldR f xs)"

lemma foldR_append: "foldR f (xs @ ys) s = bindR (foldR f xs s) (foldR f ys)"
proof (induction xs arbitrary: s)
  case (Cons x xs)
  then show ?case by (cases "f x s") simp_all
qed simp

lemma foldR_invariant:
  assumes "foldR f xs s = Inr t" and "I s"
    and "\<And>x s s'. x \<in> set xs \<Longrightarrow> I s \<Longrightarrow> f x s = Inr s' \<Longrightarrow> I s'"
  shows "I t"
  using assms
proof (induction xs arbitrary: s)
  case Nil
  then show ?case by simp
next
  case (Cons x xs)
  from Cons.prems(1) obtain s1 where s1: "f x s = Inr s1" "foldR f xs s1 = Inr t"
    by auto
  from Cons.prems(2,3) s1(1) have "I s1" by (meson list.set_intros(1))
  with Cons.IH [OF s1(2)] Cons.prems(3) show ?case by (meson list.set_intros(2))
qed

section \<open>Machine sizes\<close>

text \<open>\<^verbatim>\<open>size_t\<close> is 64 bits wide: addition and subtraction are modulo \<open>2 ^ 64\<close>.\<close>

definition size_t_mod :: nat where
  "size_t_mod = 18446744073709551616"

definition sz_add :: "nat \<Rightarrow> nat \<Rightarrow> nat" where
  "sz_add a b = (a + b) mod size_t_mod"

definition sz_sub :: "nat \<Rightarrow> nat \<Rightarrow> nat" where
  "sz_sub a b = (a + size_t_mod - b) mod size_t_mod"

lemma sz_add_exact [sz_simps]: "a + b < size_t_mod \<Longrightarrow> sz_add a b = a + b"
  by (simp add: sz_add_def)

lemma sz_sub_exact [sz_simps]: "b \<le> a \<Longrightarrow> a < size_t_mod \<Longrightarrow> sz_sub a b = a - b"
proof -
  assume "b \<le> a" "a < size_t_mod"
  then have "a + size_t_mod - b = (a - b) + size_t_mod" by simp
  then have "sz_sub a b = (a - b) mod size_t_mod" by (simp only: sz_sub_def mod_add_self2)
  also have "\<dots> = a - b" using \<open>a < size_t_mod\<close> by (intro mod_less) simp
  finally show ?thesis .
qed

lemma sz_sub_wraps: "a < b \<Longrightarrow> b \<le> size_t_mod \<Longrightarrow> sz_sub a b = a + size_t_mod - b"
  unfolding sz_sub_def by (intro mod_less) linarith

text \<open>C's \<^verbatim>\<open>/\<close> and \<^verbatim>\<open>%\<close> on signed integers truncate towards zero.\<close>

definition c_div :: "int \<Rightarrow> int \<Rightarrow> int" where
  "c_div a b = sgn a * sgn b * (\<bar>a\<bar> div \<bar>b\<bar>)"

definition c_mod :: "int \<Rightarrow> int \<Rightarrow> int" where
  "c_mod a b = a - b * c_div a b"

lemma c_div_nonneg: "0 \<le> a \<Longrightarrow> 0 < b \<Longrightarrow> c_div a b = a div b"
  by (cases "a = 0") (simp_all add: c_div_def)

lemma c_mod_nonneg: "0 \<le> a \<Longrightarrow> 0 < b \<Longrightarrow> c_mod a b = a mod b"
  by (simp add: c_mod_def c_div_nonneg minus_mult_div_eq_mod)

lemma c_div_neg: "a < 0 \<Longrightarrow> 0 < b \<Longrightarrow> c_div a b = - ((- a) div b)"
  by (simp add: c_div_def)

lemma c_div_nonpos: "a \<le> 0 \<Longrightarrow> 0 < b \<Longrightarrow> c_div a b \<le> 0"
  by (cases "a = 0") (simp_all add: c_div_nonneg c_div_neg pos_imp_zdiv_nonneg_iff)

lemma c_mod_neg: "a < 0 \<Longrightarrow> 0 < b \<Longrightarrow> c_mod a b = - ((- a) mod b)"
proof -
  assume "a < 0" "0 < b"
  then have "c_mod a b = a + b * ((- a) div b)"
    by (simp add: c_mod_def c_div_neg)
  moreover have "(- a) mod b = - a - b * ((- a) div b)"
    by (simp add: minus_mult_div_eq_mod)
  ultimately show ?thesis by simp
qed

section \<open>Overwriting part of an array\<close>

text \<open>
  \<^verbatim>\<open>std::copy(src.begin(), src.end(), arr + i)\<close> on an array of fixed size. A range that leaves the
  array is undefined behaviour.
\<close>

definition blit :: "'a list \<Rightarrow> nat \<Rightarrow> 'a list \<Rightarrow> 'a list" where
  "blit src i arr = take i arr @ src @ drop (i + length src) arr"

definition copy_into :: "'a list \<Rightarrow> nat \<Rightarrow> 'a list \<Rightarrow> 'a list res" where
  "copy_into src i arr =
     (if i + length src \<le> length arr then Inr (blit src i arr) else Inl OutOfBounds)"

text \<open>The elements of an array between two offsets, \<^verbatim>\<open>[arr + i, arr + j)\<close>.\<close>

definition segment :: "nat \<Rightarrow> nat \<Rightarrow> 'a list \<Rightarrow> 'a list" where
  "segment i j arr = take (j - i) (drop i arr)"

lemma length_blit [simp]: "i + length src \<le> length arr \<Longrightarrow> length (blit src i arr) = length arr"
  by (simp add: blit_def)

lemma length_segment [simp]: "j \<le> length arr \<Longrightarrow> length (segment i j arr) = j - i"
  by (simp add: segment_def)

lemma segment_empty [simp]: "segment i i arr = []"
  by (simp add: segment_def)

lemma segment_append: "i \<le> j \<Longrightarrow> j \<le> k \<Longrightarrow> segment i j arr @ segment j k arr = segment i k arr"
proof -
  assume "i \<le> j" "j \<le> k"
  then have "segment i k arr = take ((j - i) + (k - j)) (drop i arr)"
    by (simp add: segment_def)
  also have "\<dots> = take (j - i) (drop i arr) @ take (k - j) (drop (j - i) (drop i arr))"
    by (rule take_add)
  also have "drop (j - i) (drop i arr) = drop j arr"
    using \<open>i \<le> j\<close> by simp
  finally show ?thesis by (simp add: segment_def)
qed

lemma segment_blit_same:
  "i + length src \<le> length arr \<Longrightarrow> segment i (i + length src) (blit src i arr) = src"
  by (simp add: segment_def blit_def)

lemma segment_blit_before:
  "j \<le> i \<Longrightarrow> i + length src \<le> length arr \<Longrightarrow> segment k j (blit src i arr) = segment k j arr"
proof -
  assume "j \<le> i" "i + length src \<le> length arr"
  have "\<And>xs :: 'a list. segment k j xs = drop k (take j xs)"
    by (simp add: segment_def drop_take)
  moreover have "take j (blit src i arr) = take j arr"
    using \<open>j \<le> i\<close> \<open>i + length src \<le> length arr\<close> by (simp add: blit_def min_def)
  ultimately show ?thesis by simp
qed

lemma segment_blit_after:
  "i + length src \<le> k \<Longrightarrow> k \<le> length arr \<Longrightarrow> segment k j (blit src i arr) = segment k j arr"
  by (simp add: segment_def blit_def)

lemma segment_drop: "segment (i + n) j arr = drop n (segment i j arr)"
  by (simp add: segment_def drop_take add.commute)

lemma segment_append_right:
  "j \<le> length arr \<Longrightarrow> segment i j (arr @ ys) = segment i j arr"
  by (simp add: segment_def)

end
