(* ===== verification/Stream_Interface.thy ===== *)
theory Stream_Interface
  imports Prelude
begin

text \<open>
  The contract between a byte buffer and its clients: bytes are put at the end and consumed from
  the front, and nothing is lost, duplicated or reordered. \<open>stream_spec\<close> is the abstract stream (a
  list); the locale \<open>byte_stream\<close> states the laws a buffer promises, and \<open>run_refines\<close>
  shows once that any run of a lawful buffer is a run of the abstract stream, faults included.
\<close>

datatype 'c stream_op = Put "'c list" | Consume nat

fun stream_spec :: "'c stream_op list \<Rightarrow> 'c list \<Rightarrow> ('c list \<times> 'c list) res" where
  "stream_spec [] c = Inr ([], c)"
| "stream_spec (Put d # ops) c = stream_spec ops (c @ d)"
| "stream_spec (Consume n # ops) c =
     assertC (n \<le> length c)
       (bindR (stream_spec ops (drop n c)) (\<lambda>(out, c'). Inr (take n c @ out, c')))"

fun stream_run :: "('b \<Rightarrow> 'c list) \<Rightarrow> ('c list \<Rightarrow> 'b \<Rightarrow> 'b res) \<Rightarrow> (nat \<Rightarrow> 'b \<Rightarrow> 'b res) \<Rightarrow>
    'c stream_op list \<Rightarrow> 'b \<Rightarrow> ('c list \<times> 'b) res" where
  "stream_run content put consume [] b = Inr ([], b)"
| "stream_run content put consume (Put d # ops) b =
     bindR (put d b) (stream_run content put consume ops)"
| "stream_run content put consume (Consume n # ops) b =
     bindR (consume n b) (\<lambda>b1.
     bindR (stream_run content put consume ops b1) (\<lambda>(out, b2).
     Inr (take n (content b) @ out, b2)))"

fun put_total :: "'c stream_op list \<Rightarrow> 'c list" where
  "put_total [] = []"
| "put_total (Put d # ops) = d @ put_total ops"
| "put_total (Consume n # ops) = put_total ops"

lemma stream_spec_fifo:
  "stream_spec ops c = Inr (out, c') \<Longrightarrow> out @ c' = c @ put_total ops"
proof (induction ops arbitrary: c out)
  case Nil
  then show ?case by simp
next
  case (Cons op ops)
  show ?case
  proof (cases op)
    case (Put d)
    with Cons show ?thesis by simp
  next
    case (Consume n)
    with Cons.prems obtain out1 where
      "stream_spec ops (drop n c) = Inr (out1, c')" and out: "out = take n c @ out1"
      by auto
    then have "out1 @ c' = drop n c @ put_total ops" using Cons.IH by blast
    with out Consume show ?thesis by simp
  qed
qed

locale byte_stream =
  fixes inv :: "'b \<Rightarrow> bool"
    and content :: "'b \<Rightarrow> 'c list"
    and room :: "nat \<Rightarrow> 'b \<Rightarrow> bool"
    and put :: "'c list \<Rightarrow> 'b \<Rightarrow> 'b res"
    and consume :: "nat \<Rightarrow> 'b \<Rightarrow> 'b res"
  assumes put_ok: "inv b \<Longrightarrow> room (length d + m) b \<Longrightarrow>
      \<exists>b'. put d b = Inr b' \<and> inv b' \<and> content b' = content b @ d \<and> room m b'"
    and consume_ok: "inv b \<Longrightarrow> n \<le> length (content b) \<Longrightarrow> room m b \<Longrightarrow>
      \<exists>b'. consume n b = Inr b' \<and> inv b' \<and> content b' = drop n (content b) \<and> room m b'"
    and consume_over: "inv b \<Longrightarrow> length (content b) < n \<Longrightarrow> consume n b = Inl AssertFailed"
begin

lemma run_refines:
  assumes "inv b" and "room (length (put_total ops)) b"
  shows "case stream_spec ops (content b) of
      Inl e \<Rightarrow> stream_run content put consume ops b = Inl e
    | Inr (out, c) \<Rightarrow> \<exists>b'. stream_run content put consume ops b = Inr (out, b') \<and> inv b' \<and> content b' = c"
  using assms
proof (induction ops arbitrary: b)
  case Nil
  then show ?case by simp
next
  case (Cons op ops)
  show ?case
  proof (cases op)
    case (Put d)
    with Cons.prems put_ok [of b d "length (put_total ops)"] obtain b1 where
      b1: "put d b = Inr b1" "inv b1" "content b1 = content b @ d" "room (length (put_total ops)) b1"
      by auto
    from Cons.IH [OF b1(2,4)] b1 show ?thesis
      unfolding Put by (simp split: sum.splits prod.splits)
  next
    case (Consume n)
    show ?thesis
    proof (cases "n \<le> length (content b)")
      case True
      with Consume Cons.prems consume_ok obtain b1 where
        b1: "consume n b = Inr b1" "inv b1" "content b1 = drop n (content b)"
          "room (length (put_total ops)) b1" by force
      from Cons.IH [OF b1(2,4)] b1 True show ?thesis
        unfolding Consume by (auto split: sum.splits prod.splits)
    next
      case False
      with Cons.prems consume_over show ?thesis unfolding Consume by simp
    qed
  qed
qed

corollary run_fifo:
  assumes "inv b" and "room (length (put_total ops)) b"
    and "stream_run content put consume ops b = Inr (out, b')"
  shows "inv b'" and "out @ content b' = content b @ put_total ops"
proof -
  from run_refines [OF assms(1,2)] assms(3) obtain c where
    "stream_spec ops (content b) = Inr (out, c)" "inv b'" "content b' = c"
    by (auto split: sum.splits prod.splits)
  then show "inv b'" and "out @ content b' = content b @ put_total ops"
    by (auto dest: stream_spec_fifo)
qed

end

end
