(* ===== verification/Byte_Buffer.thy ===== *)
theory Byte_Buffer
  imports Stream_Interface
begin

text \<open>
  \<^verbatim>\<open>jiangbo::Buffer\<close> (src/reactor/Buffer.h, src/reactor/Buffer.cc): the growable byte buffer between
  a socket and the application. The record has the three data members; pointers into the vector
  are offsets from \<^verbatim>\<open>begin()\<close>. \<^verbatim>\<open>size_t\<close> differences wrap as in C++ (\<open>sz_sub\<close>), and a
  \<^verbatim>\<open>std::vector<char>\<close> longer than \<^verbatim>\<open>max_size()\<close> is a \<open>LengthError\<close>.

  The abstraction of a buffer is its readable bytes (\<open>Buffer_content\<close>); every operation is shown to
  act on them as a list operation, whichever branch (compaction, growth, scratch buffer) it takes.
\<close>

section \<open>Model\<close>

type_synonym byte = char

record Buffer =
  buffer :: "byte list"
  readerIndex :: nat
  writerIndex :: nat

definition kCheapPrepend :: nat where
  "kCheapPrepend = 8"

definition kInitialSize :: nat where
  "kInitialSize = 1024"

text \<open>\<^verbatim>\<open>std::vector<char>::max_size()\<close> is \<^verbatim>\<open>PTRDIFF_MAX\<close>; new elements are zero.\<close>

definition vector_max :: nat where
  "vector_max = 9223372036854775807"

definition vector_new :: "nat \<Rightarrow> byte list res" where
  "vector_new n = (if n \<le> vector_max then Inr (replicate n (CHR 0x00)) else Inl LengthError)"

definition vector_resize :: "nat \<Rightarrow> byte list \<Rightarrow> byte list res" where
  "vector_resize n v =
     (if n \<le> vector_max
      then Inr (take n v @ replicate (n - length v) (CHR 0x00))
      else Inl LengthError)"

definition readableBytes :: "Buffer \<Rightarrow> nat" where
  "readableBytes b = sz_sub (writerIndex b) (readerIndex b)"

definition writableBytes :: "Buffer \<Rightarrow> nat" where
  "writableBytes b = sz_sub (length (buffer b)) (writerIndex b)"

definition prependableBytes :: "Buffer \<Rightarrow> nat" where
  "prependableBytes b = readerIndex b"

definition Buffer_new :: "Buffer res" where
  "Buffer_new = bindR (vector_new (kCheapPrepend + kInitialSize)) (\<lambda>v.
     let b = \<lparr>buffer = v, readerIndex = kCheapPrepend, writerIndex = kCheapPrepend\<rparr> in
     assertC (readableBytes b = 0) (
     assertC (writableBytes b = kInitialSize) (
     assertC (prependableBytes b = kCheapPrepend) (Inr b))))"

definition Buffer_swap :: "Buffer \<Rightarrow> Buffer \<Rightarrow> Buffer \<times> Buffer" where
  "Buffer_swap this rhs =
     (this\<lparr>buffer := buffer rhs, readerIndex := readerIndex rhs, writerIndex := writerIndex rhs\<rparr>,
      rhs\<lparr>buffer := buffer this, readerIndex := readerIndex this, writerIndex := writerIndex this\<rparr>)"

text \<open>Offsets of \<^verbatim>\<open>peek()\<close> and \<^verbatim>\<open>beginWrite()\<close> from \<^verbatim>\<open>begin()\<close>.\<close>

definition peek :: "Buffer \<Rightarrow> nat" where
  "peek b = readerIndex b"

definition beginWrite :: "Buffer \<Rightarrow> nat" where
  "beginWrite b = writerIndex b"

definition retrieve :: "nat \<Rightarrow> Buffer \<Rightarrow> Buffer res" where
  "retrieve len b = assertC (len \<le> readableBytes b)
     (Inr (b\<lparr>readerIndex := sz_add (readerIndex b) len\<rparr>))"

definition retrieveUntil :: "nat \<Rightarrow> Buffer \<Rightarrow> Buffer res" where
  "retrieveUntil end_ptr b =
     assertC (peek b \<le> end_ptr) (
     assertC (end_ptr \<le> beginWrite b) (
     retrieve (end_ptr - peek b) b))"

definition retrieveAll :: "Buffer \<Rightarrow> Buffer" where
  "retrieveAll b = b\<lparr>readerIndex := kCheapPrepend, writerIndex := kCheapPrepend\<rparr>"

text \<open>\<^verbatim>\<open>std::string(ptr, n)\<close> reads \<open>n\<close> bytes; outside the vector that is undefined behaviour.\<close>

definition read_range :: "nat \<Rightarrow> nat \<Rightarrow> byte list \<Rightarrow> byte list res" where
  "read_range i n v = (if i + n \<le> length v then Inr (segment i (i + n) v) else Inl OutOfBounds)"

definition retrieveAsString :: "Buffer \<Rightarrow> (byte list \<times> Buffer) res" where
  "retrieveAsString b = bindR (read_range (peek b) (readableBytes b) (buffer b)) (\<lambda>str.
     Inr (str, retrieveAll b))"

definition makeSpace :: "nat \<Rightarrow> Buffer \<Rightarrow> Buffer res" where
  "makeSpace len b =
     (if sz_add (writableBytes b) (prependableBytes b) < sz_add len kCheapPrepend
      then bindR (vector_resize (sz_add (writerIndex b) len) (buffer b)) (\<lambda>v.
             Inr (b\<lparr>buffer := v\<rparr>))
      else assertC (kCheapPrepend < readerIndex b) (
             let readable = readableBytes b in
             bindR (read_range (readerIndex b) readable (buffer b)) (\<lambda>src.
             bindR (copy_into src kCheapPrepend (buffer b)) (\<lambda>v.
             let b' = b\<lparr>buffer := v, readerIndex := kCheapPrepend,
                        writerIndex := sz_add kCheapPrepend readable\<rparr> in
             assertC (readable = readableBytes b') (Inr b')))))"

definition ensureWritableBytes :: "nat \<Rightarrow> Buffer \<Rightarrow> Buffer res" where
  "ensureWritableBytes len b =
     bindR (if writableBytes b < len then makeSpace len b else Inr b) (\<lambda>b1.
     assertC (len \<le> writableBytes b1) (Inr b1))"

definition hasWritten :: "nat \<Rightarrow> Buffer \<Rightarrow> Buffer" where
  "hasWritten len b = b\<lparr>writerIndex := sz_add (writerIndex b) len\<rparr>"

definition Buffer_append :: "byte list \<Rightarrow> Buffer \<Rightarrow> Buffer res" where
  "Buffer_append data b =
     bindR (ensureWritableBytes (length data) b) (\<lambda>b1.
     bindR (copy_into data (beginWrite b1) (buffer b1)) (\<lambda>v.
     Inr (hasWritten (length data) (b1\<lparr>buffer := v\<rparr>))))"

definition Buffer_prepend :: "byte list \<Rightarrow> Buffer \<Rightarrow> Buffer res" where
  "Buffer_prepend data b =
     assertC (length data \<le> prependableBytes b) (
     let r = sz_sub (readerIndex b) (length data) in
     bindR (copy_into data r (buffer b)) (\<lambda>v.
     Inr (b\<lparr>buffer := v, readerIndex := r\<rparr>)))"

definition shrink :: "nat \<Rightarrow> Buffer \<Rightarrow> Buffer res" where
  "shrink reserve b =
     bindR (vector_new (sz_add (sz_add kCheapPrepend (readableBytes b)) reserve)) (\<lambda>buf.
     bindR (read_range (peek b) (readableBytes b) (buffer b)) (\<lambda>src.
     bindR (copy_into src kCheapPrepend buf) (\<lambda>v.
     Inr (b\<lparr>buffer := v\<rparr>))))"

text \<open>
  \<^verbatim>\<open>readFd\<close>: the arguments are the outcome of \<^verbatim>\<open>readv\<close>: its return value, \<^verbatim>\<open>errno\<close>, and the bytes it
  delivered, which fill the writable part of the vector first and the 64 KiB \<^verbatim>\<open>extrabuf\<close> next.
  The result is the returned count, the value stored through \<^verbatim>\<open>savedErrno\<close> (if any) and the buffer.
\<close>

definition extrabuf_size :: nat where
  "extrabuf_size = 65536"

definition readFd :: "int \<Rightarrow> int \<Rightarrow> byte list \<Rightarrow> Buffer \<Rightarrow> (int \<times> int option \<times> Buffer) res" where
  "readFd n errno data b =
     (let writable = writableBytes b in
      if n < 0 then Inr (n, Some errno, b)
      else if nat n \<le> writable
      then bindR (copy_into data (writerIndex b) (buffer b)) (\<lambda>v.
             Inr (n, None, b\<lparr>buffer := v, writerIndex := sz_add (writerIndex b) (nat n)\<rparr>))
      else bindR (copy_into (take writable data) (writerIndex b) (buffer b)) (\<lambda>v.
             let b1 = b\<lparr>buffer := v, writerIndex := length v\<rparr> in
             bindR (Buffer_append (take (nat n - writable) (drop writable data)) b1) (\<lambda>b2.
             Inr (n, None, b2))))"

section \<open>Invariant and abstraction\<close>

definition Buffer_inv :: "Buffer \<Rightarrow> bool" where
  "Buffer_inv b \<longleftrightarrow>
     readerIndex b \<le> writerIndex b \<and> writerIndex b \<le> length (buffer b) \<and>
     kCheapPrepend \<le> length (buffer b) \<and> length (buffer b) \<le> vector_max"

definition Buffer_content :: "Buffer \<Rightarrow> byte list" where
  "Buffer_content b = segment (readerIndex b) (writerIndex b) (buffer b)"

lemmas buffer_consts = kCheapPrepend_def kInitialSize_def vector_max_def

lemma Buffer_invD:
  assumes "Buffer_inv b"
  shows "readerIndex b \<le> writerIndex b" "writerIndex b \<le> length (buffer b)"
    "kCheapPrepend \<le> length (buffer b)" "length (buffer b) \<le> vector_max"
  using assms by (simp_all add: Buffer_inv_def)

lemma vector_max_less: "vector_max < size_t_mod"
  by (simp add: vector_max_def size_t_mod_def)

lemma Buffer_inv_bounds:
  assumes "Buffer_inv b"
  shows "readerIndex b < size_t_mod" "writerIndex b < size_t_mod" "length (buffer b) < size_t_mod"
  using assms vector_max_less unfolding Buffer_inv_def by linarith+

lemma readableBytes_inv: "Buffer_inv b \<Longrightarrow> readableBytes b = writerIndex b - readerIndex b"
  by (simp add: readableBytes_def sz_simps Buffer_inv_bounds Buffer_inv_def)

lemma writableBytes_inv: "Buffer_inv b \<Longrightarrow> writableBytes b = length (buffer b) - writerIndex b"
  by (simp add: writableBytes_def sz_simps Buffer_inv_bounds Buffer_inv_def)

lemma length_Buffer_content: "Buffer_inv b \<Longrightarrow> length (Buffer_content b) = readableBytes b"
  by (simp add: readableBytes_inv) (simp add: Buffer_content_def Buffer_inv_def)

lemmas buffer_sizes = readableBytes_inv writableBytes_inv length_Buffer_content prependableBytes_def

section \<open>Operations on the readable bytes\<close>

lemma Buffer_new_value:
  "Buffer_new = Inr \<lparr>buffer = replicate 1032 (CHR 0x00), readerIndex = 8, writerIndex = 8\<rparr>"
  by (simp add: Buffer_new_def vector_new_def buffer_consts readableBytes_def writableBytes_def
      prependableBytes_def sz_sub_def size_t_mod_def Let_def)

lemma Buffer_new_ok:
  "\<exists>b. Buffer_new = Inr b \<and> Buffer_inv b \<and> Buffer_content b = []"
  by (simp add: Buffer_new_value Buffer_inv_def Buffer_content_def buffer_consts)

lemma retrieve_ok:
  assumes "Buffer_inv b" and "n \<le> length (Buffer_content b)"
  shows "\<exists>b'. retrieve n b = Inr b' \<and> Buffer_inv b' \<and>
     Buffer_content b' = drop n (Buffer_content b) \<and> buffer b' = buffer b \<and>
     writerIndex b' = writerIndex b"
proof -
  from assms Buffer_invD [OF assms(1)] have n: "readerIndex b + n \<le> writerIndex b"
    by (simp add: buffer_sizes)
  then have "readerIndex b + n < size_t_mod"
    using Buffer_inv_bounds(2) [OF assms(1)] by simp
  then have "retrieve n b = Inr (b\<lparr>readerIndex := readerIndex b + n\<rparr>)"
    using assms by (simp add: retrieve_def sz_simps length_Buffer_content)
  with n assms(1) show ?thesis
    by (simp add: Buffer_inv_def Buffer_content_def segment_drop)
qed

lemma retrieve_too_much:
  "Buffer_inv b \<Longrightarrow> length (Buffer_content b) < n \<Longrightarrow> retrieve n b = Inl AssertFailed"
  by (simp add: retrieve_def length_Buffer_content)

lemma retrieveUntil_ok:
  assumes "Buffer_inv b" and "peek b \<le> p" and "p \<le> beginWrite b"
  shows "\<exists>b'. retrieveUntil p b = Inr b' \<and> Buffer_inv b' \<and>
     Buffer_content b' = drop (p - peek b) (Buffer_content b)"
proof -
  have "p - peek b \<le> length (Buffer_content b)"
    using assms by (simp add: buffer_sizes peek_def beginWrite_def)
  then show ?thesis
    using retrieve_ok [OF assms(1)] assms(2,3) by (auto simp: retrieveUntil_def)
qed

lemma retrieveAll_ok:
  "Buffer_inv b \<Longrightarrow> Buffer_inv (retrieveAll b) \<and> Buffer_content (retrieveAll b) = []"
  by (simp add: retrieveAll_def Buffer_inv_def Buffer_content_def)

lemma read_range_content:
  "Buffer_inv b \<Longrightarrow> read_range (readerIndex b) (readableBytes b) (buffer b) = Inr (Buffer_content b)"
  by (simp add: read_range_def readableBytes_inv) (simp add: Buffer_inv_def Buffer_content_def)

lemma retrieveAsString_ok:
  "Buffer_inv b \<Longrightarrow> retrieveAsString b = Inr (Buffer_content b, retrieveAll b)"
  by (simp add: retrieveAsString_def peek_def read_range_content)

text \<open>\<^verbatim>\<open>makeSpace\<close>: growing keeps the bytes where they are, compacting moves them to the front.\<close>

lemma makeSpace_grow:
  assumes inv: "Buffer_inv b"
    and small: "length (buffer b) - writerIndex b + readerIndex b < len + kCheapPrepend"
    and need: "length (buffer b) - writerIndex b < len"
    and room: "writerIndex b + len \<le> vector_max"
  shows "makeSpace len b =
    Inr (b\<lparr>buffer := buffer b @ replicate (writerIndex b + len - length (buffer b)) (CHR 0x00)\<rparr>)"
proof -
  have a: "length (buffer b) - writerIndex b + readerIndex b < size_t_mod"
    using inv vector_max_less unfolding Buffer_inv_def by linarith
  have c: "len + kCheapPrepend < size_t_mod" and d: "writerIndex b + len < size_t_mod"
    using room vector_max_less by (auto simp: buffer_consts size_t_mod_def)
  have "vector_resize (writerIndex b + len) (buffer b) =
      Inr (buffer b @ replicate (writerIndex b + len - length (buffer b)) (CHR 0x00))"
    using room need inv by (simp add: vector_resize_def Buffer_inv_def)
  then show ?thesis
    using small by (simp add: makeSpace_def writableBytes_inv [OF inv] prependableBytes_def
        sz_add_exact [OF a] sz_add_exact [OF c] sz_add_exact [OF d])
qed

lemma makeSpace_compact:
  assumes inv: "Buffer_inv b"
    and big: "len + kCheapPrepend \<le> length (buffer b) - writerIndex b + readerIndex b"
    and need: "length (buffer b) - writerIndex b < len"
  shows "makeSpace len b =
    Inr (b\<lparr>buffer := blit (Buffer_content b) kCheapPrepend (buffer b), readerIndex := kCheapPrepend,
           writerIndex := kCheapPrepend + length (Buffer_content b)\<rparr>)"
proof -
  let ?n = "length (Buffer_content b)"
  have n: "?n = writerIndex b - readerIndex b" using inv by (simp add: buffer_sizes)
  have r: "kCheapPrepend < readerIndex b" using big need by simp
  have a: "length (buffer b) - writerIndex b + readerIndex b < size_t_mod"
    using inv vector_max_less unfolding Buffer_inv_def by linarith
  have c: "len + kCheapPrepend < size_t_mod" using a big by simp
  have fit: "kCheapPrepend + ?n \<le> length (buffer b)"
    using Buffer_invD [OF inv] r n by linarith
  then have d: "kCheapPrepend + ?n < size_t_mod"
    using Buffer_inv_bounds(3) [OF inv] by simp
  have e: "kCheapPrepend < size_t_mod" using d by simp
  have rd: "readableBytes b = ?n" by (simp add: length_Buffer_content inv)
  have "copy_into (Buffer_content b) kCheapPrepend (buffer b)
      = Inr (blit (Buffer_content b) kCheapPrepend (buffer b))"
    using fit by (simp add: copy_into_def)
  moreover have "sz_sub (kCheapPrepend + ?n) kCheapPrepend = ?n"
    using d by (simp add: sz_simps)
  ultimately show ?thesis
    using big r read_range_content [OF inv]
    by (simp add: makeSpace_def writableBytes_inv [OF inv] prependableBytes_def readableBytes_def
        sz_add_exact [OF a] sz_add_exact [OF c] sz_add_exact [OF d] Let_def rd [unfolded readableBytes_def])
qed

lemma makeSpace_ok:
  assumes inv: "Buffer_inv b"
    and need: "length (buffer b) - writerIndex b < len"
    and room: "writerIndex b + len \<le> vector_max"
  shows "\<exists>b'. makeSpace len b = Inr b' \<and> Buffer_inv b' \<and> Buffer_content b' = Buffer_content b \<and>
     writerIndex b' + len \<le> length (buffer b') \<and>
     length (buffer b') \<le> max (length (buffer b)) (writerIndex b + len)"
proof (cases "length (buffer b) - writerIndex b + readerIndex b < len + kCheapPrepend")
  case True
  let ?b = "b\<lparr>buffer := buffer b @ replicate (writerIndex b + len - length (buffer b)) (CHR 0x00)\<rparr>"
  have l: "length (buffer ?b) = writerIndex b + len" using need by simp
  have "kCheapPrepend \<le> writerIndex b + len" using Buffer_invD [OF inv] need by linarith
  with l inv room have "Buffer_inv ?b" by (simp add: Buffer_inv_def)
  moreover have "Buffer_content ?b = Buffer_content b"
    using Buffer_invD [OF inv] by (simp add: Buffer_content_def segment_append_right)
  ultimately show ?thesis using makeSpace_grow [OF inv True need room] l by simp
next
  case False
  then have big: "len + kCheapPrepend \<le> length (buffer b) - writerIndex b + readerIndex b" by simp
  let ?n = "length (Buffer_content b)"
  have n: "?n = writerIndex b - readerIndex b" using inv by (simp add: buffer_sizes)
  have fit: "kCheapPrepend + ?n + len \<le> length (buffer b)"
    using Buffer_invD [OF inv] big need n by linarith
  have "segment kCheapPrepend (kCheapPrepend + ?n) (blit (Buffer_content b) kCheapPrepend (buffer b))
      = Buffer_content b"
    using fit by (intro segment_blit_same) simp
  with makeSpace_compact [OF inv big need] fit inv show ?thesis
    by (simp add: Buffer_inv_def) (simp add: Buffer_content_def)
qed

lemma ensureWritableBytes_ok:
  assumes inv: "Buffer_inv b" and room: "writerIndex b + len \<le> vector_max"
  shows "\<exists>b'. ensureWritableBytes len b = Inr b' \<and> Buffer_inv b' \<and>
     Buffer_content b' = Buffer_content b \<and> writerIndex b' + len \<le> length (buffer b') \<and>
     length (buffer b') \<le> max (length (buffer b)) (writerIndex b + len)"
proof (cases "length (buffer b) - writerIndex b < len")
  case True
  from makeSpace_ok [OF inv this room] obtain b' where
    b': "makeSpace len b = Inr b'" "Buffer_inv b'" "Buffer_content b' = Buffer_content b"
      "writerIndex b' + len \<le> length (buffer b')"
      "length (buffer b') \<le> max (length (buffer b)) (writerIndex b + len)" by auto
  then have "len \<le> length (buffer b') - writerIndex b'" by linarith
  with b' True inv show ?thesis
    by (simp add: ensureWritableBytes_def writableBytes_inv assertC_def)
next
  case False
  with inv show ?thesis
    by (auto simp: ensureWritableBytes_def writableBytes_inv Buffer_inv_def [of b])
qed

lemma write_at_end:
  assumes inv: "Buffer_inv b" and fit: "writerIndex b + length data \<le> length (buffer b)"
  defines "b' \<equiv> b\<lparr>buffer := blit data (writerIndex b) (buffer b),
                   writerIndex := writerIndex b + length data\<rparr>"
  shows "Buffer_inv b'" and "Buffer_content b' = Buffer_content b @ data"
proof -
  show "Buffer_inv b'" using inv fit by (simp add: b'_def Buffer_inv_def)
  let ?v = "blit data (writerIndex b) (buffer b)"
  have rw: "readerIndex b \<le> writerIndex b" using inv by (simp add: Buffer_inv_def)
  have "Buffer_content b' = segment (readerIndex b) (writerIndex b + length data) ?v"
    by (simp add: b'_def Buffer_content_def)
  also have "\<dots> = segment (readerIndex b) (writerIndex b) ?v @
      segment (writerIndex b) (writerIndex b + length data) ?v"
    using rw by (simp add: segment_append)
  also have "\<dots> = Buffer_content b @ data"
    using fit by (simp add: segment_blit_same segment_blit_before Buffer_content_def)
  finally show "Buffer_content b' = Buffer_content b @ data" .
qed

lemma Buffer_append_ok:
  assumes inv: "Buffer_inv b" and room: "writerIndex b + length data \<le> vector_max"
  shows "\<exists>b'. Buffer_append data b = Inr b' \<and> Buffer_inv b' \<and>
     Buffer_content b' = Buffer_content b @ data \<and>
     length (buffer b') \<le> max (length (buffer b)) (writerIndex b + length data)"
proof -
  from ensureWritableBytes_ok [OF inv room] obtain b1 where
    b1: "ensureWritableBytes (length data) b = Inr b1" "Buffer_inv b1"
      "Buffer_content b1 = Buffer_content b" "writerIndex b1 + length data \<le> length (buffer b1)"
      "length (buffer b1) \<le> max (length (buffer b)) (writerIndex b + length data)" by auto
  have "writerIndex b1 + length data < size_t_mod"
    using b1(4) Buffer_inv_bounds(3) [OF b1(2)] by simp
  with b1 write_at_end [OF b1(2,4)] show ?thesis
    by (simp add: Buffer_append_def beginWrite_def copy_into_def hasWritten_def sz_simps)
qed

lemma Buffer_prepend_ok:
  assumes inv: "Buffer_inv b" and room: "length data \<le> readerIndex b"
  shows "\<exists>b'. Buffer_prepend data b = Inr b' \<and> Buffer_inv b' \<and>
     Buffer_content b' = data @ Buffer_content b"
proof -
  let ?r = "readerIndex b - length data"
  let ?v = "blit data ?r (buffer b)"
  have s: "sz_sub (readerIndex b) (length data) = ?r"
    using room Buffer_inv_bounds(1) [OF inv] by (simp add: sz_simps)
  have fit: "?r + length data \<le> length (buffer b)"
    using Buffer_invD [OF inv] room by linarith
  then have run: "Buffer_prepend data b = Inr (b\<lparr>buffer := ?v, readerIndex := ?r\<rparr>)"
    using room by (simp add: Buffer_prepend_def prependableBytes_def s copy_into_def Let_def)
  have "segment ?r (writerIndex b) ?v = segment ?r (?r + length data) ?v @ segment (?r + length data) (writerIndex b) ?v"
    using inv room by (simp add: segment_append Buffer_inv_def)
  also have "\<dots> = data @ Buffer_content b"
    using fit room inv by (simp only: segment_blit_same segment_blit_after) (simp add: Buffer_content_def)
  finally have "Buffer_content (b\<lparr>buffer := ?v, readerIndex := ?r\<rparr>) = data @ Buffer_content b"
    by (simp add: Buffer_content_def)
  moreover have "Buffer_inv (b\<lparr>buffer := ?v, readerIndex := ?r\<rparr>)"
    using Buffer_invD [OF inv] fit by (simp add: Buffer_inv_def)
  ultimately show ?thesis using run by simp
qed

text \<open>
  Both outcomes of \<^verbatim>\<open>append\<close>: for data that fits in memory, it either succeeds or throws
  \<^verbatim>\<open>std::length_error\<close> because the vector would exceed its maximal size; no \<^verbatim>\<open>assert\<close> fires.
\<close>

lemma makeSpace_length_error:
  assumes inv: "Buffer_inv b" and len: "len \<le> vector_max" and over: "vector_max < writerIndex b + len"
    and small: "length (buffer b) - writerIndex b + readerIndex b < len + kCheapPrepend"
  shows "makeSpace len b = Inl LengthError"
proof -
  have a: "length (buffer b) - writerIndex b + readerIndex b < size_t_mod"
    using inv vector_max_less unfolding Buffer_inv_def by linarith
  have c: "len + kCheapPrepend < size_t_mod" and d: "writerIndex b + len < size_t_mod"
    using len Buffer_invD [OF inv] by (auto simp: buffer_consts size_t_mod_def)
  show ?thesis
    using small over by (simp add: makeSpace_def writableBytes_inv [OF inv] prependableBytes_def
        sz_add_exact [OF a] sz_add_exact [OF c] sz_add_exact [OF d] vector_resize_def)
qed

lemma ensureWritableBytes_cases:
  assumes inv: "Buffer_inv b" and len: "len \<le> vector_max"
  shows "ensureWritableBytes len b = Inl LengthError \<or>
    (\<exists>b'. ensureWritableBytes len b = Inr b' \<and> Buffer_inv b' \<and>
       Buffer_content b' = Buffer_content b \<and> writerIndex b' + len \<le> length (buffer b'))"
proof (cases "writerIndex b + len \<le> vector_max")
  case True
  then show ?thesis using ensureWritableBytes_ok [OF inv] by blast
next
  case False
  then have need: "length (buffer b) - writerIndex b < len"
    using Buffer_invD [OF inv] by linarith
  show ?thesis
  proof (cases "length (buffer b) - writerIndex b + readerIndex b < len + kCheapPrepend")
    case True
    with makeSpace_length_error [OF inv len] False need show ?thesis
      by (simp add: ensureWritableBytes_def writableBytes_inv [OF inv])
  next
    case big: False
    let ?n = "length (Buffer_content b)"
    let ?b = "b\<lparr>buffer := blit (Buffer_content b) kCheapPrepend (buffer b),
      readerIndex := kCheapPrepend, writerIndex := kCheapPrepend + ?n\<rparr>"
    have n: "?n = writerIndex b - readerIndex b" using inv by (simp add: buffer_sizes)
    have fit: "kCheapPrepend + ?n + len \<le> length (buffer b)"
      using Buffer_invD [OF inv] big need n by linarith
    then have i: "Buffer_inv ?b" using inv by (simp add: Buffer_inv_def)
    have "Buffer_content ?b = Buffer_content b"
      using fit by (simp add: Buffer_content_def [of ?b] segment_blit_same)
    moreover have "ensureWritableBytes len b = Inr ?b"
      using makeSpace_compact [OF inv _ need] big need fit writableBytes_inv [OF i]
      by (simp add: ensureWritableBytes_def writableBytes_inv [OF inv] assertC_def)
    ultimately show ?thesis using i fit by auto
  qed
qed

lemma Buffer_append_cases:
  assumes inv: "Buffer_inv b" and len: "length data \<le> vector_max"
  shows "Buffer_append data b = Inl LengthError \<or>
    (\<exists>b'. Buffer_append data b = Inr b' \<and> Buffer_inv b' \<and> Buffer_content b' = Buffer_content b @ data)"
proof (cases "ensureWritableBytes (length data) b")
  case (Inl e)
  with ensureWritableBytes_cases [OF inv len] show ?thesis by (simp add: Buffer_append_def)
next
  case (Inr b1)
  with ensureWritableBytes_cases [OF inv len] have
    b1: "Buffer_inv b1" "Buffer_content b1 = Buffer_content b"
      "writerIndex b1 + length data \<le> length (buffer b1)" by auto
  have "writerIndex b1 + length data < size_t_mod"
    using b1(3) Buffer_inv_bounds(3) [OF b1(1)] by simp
  with Inr b1 write_at_end [OF b1(1,3)] show ?thesis
    by (simp add: Buffer_append_def beginWrite_def copy_into_def hasWritten_def sz_simps)
qed

section \<open>Reading from a descriptor\<close>

lemma readFd_error: "n < 0 \<Longrightarrow> readFd n e data b = Inr (n, Some e, b)"
  by (simp add: readFd_def Let_def)

lemma readFd_fits:
  assumes inv: "Buffer_inv b" and fit: "writerIndex b + length data \<le> length (buffer b)"
  shows "readFd (int (length data)) e data b =
    Inr (int (length data), None, b\<lparr>buffer := blit data (writerIndex b) (buffer b),
      writerIndex := writerIndex b + length data\<rparr>)"
proof -
  have "writerIndex b + length data < size_t_mod"
    using fit Buffer_inv_bounds(3) [OF inv] by simp
  moreover have "length data \<le> length (buffer b) - writerIndex b" using fit by simp
  ultimately show ?thesis
    using fit by (simp add: readFd_def Let_def writableBytes_inv [OF inv] copy_into_def sz_simps)
qed

lemma readFd_spills:
  assumes inv: "Buffer_inv b" and over: "length (buffer b) < writerIndex b + length data"
  defines "w \<equiv> length (buffer b) - writerIndex b"
  defines "b1 \<equiv> b\<lparr>buffer := blit (take w data) (writerIndex b) (buffer b), writerIndex := length (buffer b)\<rparr>"
  shows "readFd (int (length data)) e data b =
      bindR (Buffer_append (drop w data) b1) (\<lambda>b2. Inr (int (length data), None, b2))"
    and "Buffer_inv b1" and "Buffer_content b1 = Buffer_content b @ take w data"
    and "length (buffer b1) = length (buffer b)"
proof -
  have wb: "writerIndex b \<le> length (buffer b)" using Buffer_invD [OF inv] by simp
  have lw: "length (take w data) = w" using over by (simp add: w_def)
  then have fit: "writerIndex b + length (take w data) \<le> length (buffer b)"
    using wb by (simp add: w_def)
  have b1: "b1 = b\<lparr>buffer := blit (take w data) (writerIndex b) (buffer b),
      writerIndex := writerIndex b + length (take w data)\<rparr>"
    using lw wb by (simp add: b1_def w_def)
  show "Buffer_inv b1" and "Buffer_content b1 = Buffer_content b @ take w data"
    unfolding b1 using write_at_end [OF inv fit] by simp_all
  show "length (buffer b1) = length (buffer b)" using fit by (simp add: b1_def)
  have "\<not> length data \<le> w" using over wb by (simp add: w_def)
  then show "readFd (int (length data)) e data b =
      bindR (Buffer_append (drop w data) b1) (\<lambda>b2. Inr (int (length data), None, b2))"
    using fit by (simp add: readFd_def Let_def writableBytes_inv [OF inv] w_def [symmetric]
        copy_into_def b1_def)
qed

lemma readFd_ok:
  assumes inv: "Buffer_inv b" and room: "length (buffer b) + length data \<le> vector_max"
  shows "\<exists>b'. readFd (int (length data)) e data b = Inr (int (length data), None, b') \<and>
     Buffer_inv b' \<and> Buffer_content b' = Buffer_content b @ data \<and>
     length (buffer b') \<le> length (buffer b) + length data"
proof (cases "writerIndex b + length data \<le> length (buffer b)")
  case True
  with readFd_fits [OF inv True] write_at_end [OF inv True] show ?thesis by simp
next
  case False
  then have over: "length (buffer b) < writerIndex b + length data" by simp
  let ?w = "length (buffer b) - writerIndex b"
  note sp = readFd_spills [OF inv over]
  let ?b1 = "b\<lparr>buffer := blit (take ?w data) (writerIndex b) (buffer b), writerIndex := length (buffer b)\<rparr>"
  have "writerIndex ?b1 + length (drop ?w data) \<le> vector_max" using room by simp
  from Buffer_append_ok [OF sp(2) this] obtain b2 where
    b2: "Buffer_append (drop ?w data) ?b1 = Inr b2" "Buffer_inv b2"
      "Buffer_content b2 = Buffer_content ?b1 @ drop ?w data"
      "length (buffer b2) \<le> max (length (buffer ?b1)) (writerIndex ?b1 + length (drop ?w data))"
    by blast
  have "length (buffer b2) \<le> length (buffer b) + length data"
    using b2(4) sp(4) by (simp split: if_splits)
  with b2 sp show ?thesis by simp
qed

section \<open>The stream contract\<close>

text \<open>A budget of bytes that can still be appended before \<^verbatim>\<open>std::length_error\<close>.\<close>

definition Buffer_room :: "nat \<Rightarrow> Buffer \<Rightarrow> bool" where
  "Buffer_room n b \<longleftrightarrow> length (buffer b) + n \<le> vector_max"

interpretation buf: byte_stream Buffer_inv Buffer_content Buffer_room Buffer_append retrieve
proof unfold_locales
  fix b :: Buffer and d :: "byte list" and m :: nat
  assume inv: "Buffer_inv b" and "Buffer_room (length d + m) b"
  then have room: "length (buffer b) + length d + m \<le> vector_max"
    by (simp add: Buffer_room_def)
  then have "writerIndex b + length d \<le> vector_max"
    using Buffer_invD [OF inv] by linarith
  from Buffer_append_ok [OF inv this] room Buffer_invD [OF inv]
  show "\<exists>b'. Buffer_append d b = Inr b' \<and> Buffer_inv b' \<and>
      Buffer_content b' = Buffer_content b @ d \<and> Buffer_room m b'"
    by (auto simp: Buffer_room_def)
next
  fix b n m
  assume "Buffer_inv b" "n \<le> length (Buffer_content b)" "Buffer_room m b"
  then show "\<exists>b'. retrieve n b = Inr b' \<and> Buffer_inv b' \<and>
      Buffer_content b' = drop n (Buffer_content b) \<and> Buffer_room m b'"
    using retrieve_ok [of b n] by (auto simp: Buffer_room_def)
next
  fix b n
  assume "Buffer_inv b" "length (Buffer_content b) < n"
  then show "retrieve n b = Inl AssertFailed" by (rule retrieve_too_much)
qed

section \<open>Runs of arbitrary operations\<close>

text \<open>
  Any client of the class: its public functions that change the buffer. \<open>OpSwap\<close> carries the other buffer,
  \<open>OpReadFd\<close> carries the bytes the kernel delivered, \<open>OpReadFail\<close> a
  failed \<^verbatim>\<open>readv\<close> (its negative result and \<^verbatim>\<open>errno\<close>).
\<close>

datatype buffer_op =
    OpAppend "byte list"
  | OpRetrieve nat
  | OpRetrieveUntil nat
  | OpRetrieveAll
  | OpRetrieveAsString
  | OpHasWritten nat
  | OpShrink nat
  | OpSwap Buffer
  | OpPrepend "byte list"
  | OpEnsureWritable nat
  | OpReadFd "byte list"
  | OpReadFail nat int

fun Buffer_step :: "buffer_op \<Rightarrow> Buffer \<Rightarrow> Buffer res" where
  "Buffer_step (OpAppend d) b = Buffer_append d b"
| "Buffer_step (OpRetrieve n) b = retrieve n b"
| "Buffer_step (OpRetrieveUntil p) b = retrieveUntil p b"
| "Buffer_step OpRetrieveAll b = Inr (retrieveAll b)"
| "Buffer_step OpRetrieveAsString b = bindR (retrieveAsString b) (\<lambda>(str, b'). Inr b')"
| "Buffer_step (OpHasWritten n) b = Inr (hasWritten n b)"
| "Buffer_step (OpShrink n) b = shrink n b"
| "Buffer_step (OpSwap rhs) b = Inr (fst (Buffer_swap b rhs))"
| "Buffer_step (OpPrepend d) b = Buffer_prepend d b"
| "Buffer_step (OpEnsureWritable n) b = ensureWritableBytes n b"
| "Buffer_step (OpReadFd d) b = bindR (readFd (int (length d)) 0 d b) (\<lambda>(n, e, b'). Inr b')"
| "Buffer_step (OpReadFail n e) b = bindR (readFd (- 1 - int n) e [] b) (\<lambda>(n, e, b'). Inr b')"

text \<open>An argument of the operation fits in memory; a buffer that is swapped in is well formed.\<close>

fun op_sized :: "buffer_op \<Rightarrow> bool" where
  "op_sized (OpAppend d) = (length d \<le> vector_max)"
| "op_sized (OpEnsureWritable n) = (n \<le> vector_max)"
| "op_sized (OpReadFd d) = (length d \<le> vector_max)"
| "op_sized (OpHasWritten n) = (n \<le> vector_max)"
| "op_sized (OpShrink n) = (kCheapPrepend + n \<le> vector_max)"
| "op_sized (OpSwap rhs) = Buffer_inv rhs"
| "op_sized _ = True"

text \<open>The calls whose precondition is violated, and those among them for which the class has an \<^verbatim>\<open>assert\<close>:
  \<^verbatim>\<open>hasWritten\<close> of more bytes than are writable, and \<^verbatim>\<open>shrink\<close> (which leaves the indices) of a buffer whose reader has
  advanced by more than the reserve, are not checked.\<close>

fun misuse :: "buffer_op \<Rightarrow> Buffer \<Rightarrow> bool" where
  "misuse (OpRetrieve n) b = (length (Buffer_content b) < n)"
| "misuse (OpRetrieveUntil p) b = (p < readerIndex b \<or> writerIndex b < p)"
| "misuse (OpPrepend d) b = (readerIndex b < length d)"
| "misuse (OpHasWritten n) b = (length (buffer b) < writerIndex b + n)"
| "misuse (OpShrink n) b = (kCheapPrepend + n < readerIndex b)"
| "misuse _ b = False"

fun asserted :: "buffer_op \<Rightarrow> bool" where
  "asserted (OpHasWritten n) = False"
| "asserted (OpShrink n) = False"
| "asserted _ = True"

text \<open>The calls that need a vector of more than the maximal size.\<close>

fun too_big :: "buffer_op \<Rightarrow> Buffer \<Rightarrow> bool" where
  "too_big (OpAppend d) b = (vector_max < writerIndex b + length d)"
| "too_big (OpEnsureWritable n) b = (vector_max < writerIndex b + n)"
| "too_big (OpReadFd d) b = (vector_max < writerIndex b + length d)"
| "too_big (OpShrink n) b = (vector_max < kCheapPrepend + length (Buffer_content b) + n)"
| "too_big _ b = False"

definition safe_outcome :: "buffer_op \<Rightarrow> Buffer \<Rightarrow> bool" where
  "safe_outcome op b \<longleftrightarrow>
     (if misuse op b then
        if asserted op then Buffer_step op b = Inl AssertFailed
        else \<exists>b'. Buffer_step op b = Inr b' \<and> length (buffer b') < writerIndex b'
      else (\<exists>b'. Buffer_step op b = Inr b' \<and> Buffer_inv b') \<or> too_big op b \<and> Buffer_step op b = Inl LengthError)"

lemma Buffer_append_outcome:
  assumes inv: "Buffer_inv b" and len: "length d \<le> vector_max"
  shows "(\<exists>b'. Buffer_append d b = Inr b' \<and> Buffer_inv b') \<or> vector_max < writerIndex b + length d \<and> Buffer_append d b = Inl LengthError"
  using Buffer_append_cases [OF inv len] Buffer_append_ok [OF inv, of d] by (cases "writerIndex b + length d \<le> vector_max") auto

lemma ensureWritableBytes_outcome:
  assumes inv: "Buffer_inv b" and len: "n \<le> vector_max"
  shows "(\<exists>b'. ensureWritableBytes n b = Inr b' \<and> Buffer_inv b') \<or> vector_max < writerIndex b + n \<and> ensureWritableBytes n b = Inl LengthError"
  using ensureWritableBytes_cases [OF inv len] ensureWritableBytes_ok [OF inv, of n] by (cases "writerIndex b + n \<le> vector_max") auto

lemma shrink_value:
  assumes inv: "Buffer_inv b" and room: "kCheapPrepend + length (Buffer_content b) + reserve \<le> vector_max"
  shows "shrink reserve b = Inr (b\<lparr>buffer :=
     blit (Buffer_content b) kCheapPrepend
       (replicate (kCheapPrepend + length (Buffer_content b) + reserve) (CHR 0x00))\<rparr>)"
proof -
  let ?n = "length (Buffer_content b)"
  have a: "kCheapPrepend + ?n + reserve < size_t_mod" using room vector_max_less by simp
  then have "sz_add (sz_add kCheapPrepend (readableBytes b)) reserve = kCheapPrepend + ?n + reserve"
    by (simp add: sz_simps length_Buffer_content [OF inv])
  then show ?thesis
    using room by (simp add: shrink_def vector_new_def peek_def read_range_content [OF inv] copy_into_def)
qed

lemma shrink_too_big:
  assumes inv: "Buffer_inv b" and sized: "kCheapPrepend + n \<le> vector_max"
    and over: "vector_max < kCheapPrepend + length (Buffer_content b) + n"
  shows "shrink n b = Inl LengthError"
proof -
  have "length (Buffer_content b) \<le> vector_max" using Buffer_invD [OF inv] by (simp add: length_Buffer_content [OF inv] readableBytes_inv [OF inv])
  then have a: "kCheapPrepend + length (Buffer_content b) + n < size_t_mod" and c: "kCheapPrepend + length (Buffer_content b) < size_t_mod"
    using sized by (simp_all add: buffer_consts size_t_mod_def)
  show ?thesis using over by (simp add: shrink_def length_Buffer_content [OF inv, symmetric] sz_add_exact [OF c] sz_add_exact [OF a] vector_new_def)
qed

lemma safe_outcome_shrink:
  assumes inv: "Buffer_inv b" and sized: "kCheapPrepend + n \<le> vector_max"
  shows "safe_outcome (OpShrink n) b"
proof (cases "kCheapPrepend + length (Buffer_content b) + n \<le> vector_max")
  case True
  have w: "writerIndex b = readerIndex b + length (Buffer_content b)"
    using Buffer_invD [OF inv] by (simp add: length_Buffer_content [OF inv] readableBytes_inv [OF inv])
  then have "Buffer_inv (b\<lparr>buffer := blit (Buffer_content b) kCheapPrepend
       (replicate (kCheapPrepend + length (Buffer_content b) + n) (CHR 0x00))\<rparr>) \<longleftrightarrow> readerIndex b \<le> kCheapPrepend + n"
    using True by (auto simp: Buffer_inv_def)
  then show ?thesis using shrink_value [OF inv True] w by (auto simp: safe_outcome_def)
next
  case False
  have "writerIndex b = readerIndex b + length (Buffer_content b)" "writerIndex b \<le> vector_max"
    using Buffer_invD [OF inv] by (simp_all add: length_Buffer_content [OF inv] readableBytes_inv [OF inv])
  then have "\<not> kCheapPrepend + n < readerIndex b" using False by linarith
  then show ?thesis using shrink_too_big [OF inv sized] False by (simp add: safe_outcome_def)
qed

lemma safe_outcome_hasWritten:
  assumes inv: "Buffer_inv b" and sized: "n \<le> vector_max"
  shows "safe_outcome (OpHasWritten n) b"
proof -
  have "writerIndex b + n < size_t_mod" using Buffer_invD [OF inv] sized by (simp add: buffer_consts size_t_mod_def)
  then have "hasWritten n b = b\<lparr>writerIndex := writerIndex b + n\<rparr>" by (simp add: hasWritten_def sz_add_exact)
  then show ?thesis using inv by (auto simp: safe_outcome_def Buffer_inv_def)
qed

lemma safe_outcome_readFd:
  assumes inv: "Buffer_inv b" and len: "length d \<le> vector_max"
  shows "safe_outcome (OpReadFd d) b"
proof (cases "writerIndex b + length d \<le> length (buffer b)")
  case True
  then show ?thesis
    by (simp add: safe_outcome_def readFd_fits [OF inv True] write_at_end [OF inv True])
next
  case False
  then have over: "length (buffer b) < writerIndex b + length d" by simp
  let ?w = "length (buffer b) - writerIndex b"
  let ?b1 = "b\<lparr>buffer := blit (take ?w d) (writerIndex b) (buffer b), writerIndex := length (buffer b)\<rparr>"
  note sp = readFd_spills [OF inv over]
  have "length (drop ?w d) \<le> vector_max" using len by simp
  from Buffer_append_outcome [OF sp(2) this] over show ?thesis
    by (auto simp: safe_outcome_def sp(1))
qed

lemma Buffer_step_safe:
  assumes inv: "Buffer_inv b" and sized: "op_sized op"
  shows "safe_outcome op b"
proof (cases op)
  case (OpAppend d)
  with Buffer_append_outcome [OF inv, of d] sized show ?thesis by (auto simp: safe_outcome_def)
next
  case (OpRetrieve n)
  with retrieve_ok [OF inv, of n] retrieve_too_much [OF inv, of n] show ?thesis
    by (cases "n \<le> length (Buffer_content b)") (auto simp: safe_outcome_def)
next
  case (OpRetrieveUntil p)
  show ?thesis
  proof (cases "peek b \<le> p \<and> p \<le> beginWrite b")
    case True
    with retrieveUntil_ok [OF inv, of p] OpRetrieveUntil show ?thesis
      by (auto simp: safe_outcome_def peek_def beginWrite_def)
  next
    case False
    then show ?thesis
      by (auto simp: OpRetrieveUntil safe_outcome_def retrieveUntil_def assertC_def peek_def beginWrite_def)
  qed
next
  case OpRetrieveAll
  then show ?thesis by (simp add: safe_outcome_def retrieveAll_ok [OF inv])
next
  case OpRetrieveAsString
  then show ?thesis using retrieveAsString_ok [OF inv] by (auto simp: safe_outcome_def retrieveAll_ok [OF inv])
next
  case (OpHasWritten n)
  with safe_outcome_hasWritten [OF inv] sized show ?thesis by simp
next
  case (OpShrink n)
  with safe_outcome_shrink [OF inv] sized show ?thesis by simp
next
  case (OpSwap rhs)
  then show ?thesis using sized by (simp add: safe_outcome_def Buffer_swap_def Buffer_inv_def)
next
  case (OpPrepend d)
  with Buffer_prepend_ok [OF inv, of d] show ?thesis
    by (cases "length d \<le> readerIndex b")
      (auto simp: safe_outcome_def Buffer_prepend_def prependableBytes_def)
next
  case (OpEnsureWritable n)
  with ensureWritableBytes_outcome [OF inv, of n] sized show ?thesis by (auto simp: safe_outcome_def)
next
  case (OpReadFd d)
  with safe_outcome_readFd [OF inv] sized show ?thesis by simp
next
  case (OpReadFail n e)
  with inv show ?thesis by (simp add: safe_outcome_def readFd_error)
qed

text \<open>A run keeps the invariant up to its first call that is misused or throws.\<close>

lemma Buffer_run_first_stop:
  assumes "Buffer_inv b" and "list_all op_sized ops"
  shows "(\<exists>b'. foldR Buffer_step ops b = Inr b' \<and> Buffer_inv b') \<or>
    (\<exists>pre op post b1. ops = pre @ op # post \<and> foldR Buffer_step pre b = Inr b1 \<and> Buffer_inv b1 \<and>
      (misuse op b1 \<or> Buffer_step op b1 = Inl LengthError) \<and> safe_outcome op b1)"
  using assms
proof (induction ops arbitrary: b)
  case Nil
  then show ?case by simp
next
  case (Cons op ops)
  then have out: "safe_outcome op b" by (simp add: Buffer_step_safe)
  show ?case
  proof (cases "misuse op b \<or> Buffer_step op b = Inl LengthError")
    case True
    then show ?thesis using out Cons.prems(1) by (intro disjI2 exI [of _ "[]"] exI [of _ op] exI [of _ ops] exI [of _ b]) simp
  next
    case False
    then obtain b1 where b1: "Buffer_step op b = Inr b1" "Buffer_inv b1" using out by (auto simp: safe_outcome_def)
    from Cons.IH [OF b1(2)] Cons.prems(2) consider
        b' where "foldR Buffer_step ops b1 = Inr b'" "Buffer_inv b'"
      | pre op' post b2 where "ops = pre @ op' # post" "foldR Buffer_step pre b1 = Inr b2" "Buffer_inv b2"
        "misuse op' b2 \<or> Buffer_step op' b2 = Inl LengthError" "safe_outcome op' b2" by auto
    then show ?thesis
    proof cases
      case 1
      then show ?thesis using b1(1) by simp
    next
      case (2 pre op' post b2)
      then show ?thesis using b1(1)
        by (intro disjI2 exI [of _ "op # pre"] exI [of _ op'] exI [of _ post] exI [of _ b2]) simp
    qed
  qed
qed

section \<open>Properties\<close>

text \<open>(C4) Refinement: whatever sequence of appends and retrieves a client performs, a
  \<^verbatim>\<open>Buffer\<close> behaves as the abstract byte stream: the bytes handed out and the bytes left are those
  of the list model, and an over-long retrieve fails its assertion exactly when the model's does.\<close>

theorem Buffer_refines_stream:
  assumes "Buffer_inv b" and "Buffer_room (length (put_total ops)) b"
  shows "case stream_spec ops (Buffer_content b) of
      Inl e \<Rightarrow> stream_run Buffer_content Buffer_append retrieve ops b = Inl e
    | Inr (out, c) \<Rightarrow> \<exists>b'. stream_run Buffer_content Buffer_append retrieve ops b = Inr (out, b') \<and>
        Buffer_inv b' \<and> Buffer_content b' = c"
  using assms by (rule buf.run_refines)

theorem Buffer_refines_stream_witness:
  "\<exists>b'. stream_run Buffer_content Buffer_append retrieve [Put ''abc'', Consume 2]
       \<lparr>buffer = replicate 8 (CHR 0x00), readerIndex = 8, writerIndex = 8\<rparr> = Inr (''ab'', b') \<and>
     Buffer_content b' = ''c''"
proof -
  let ?b = "\<lparr>buffer = replicate 8 (CHR 0x00), readerIndex = 8, writerIndex = 8\<rparr>"
  let ?ops = "[Put ''abc'', Consume 2]"
  have h: "Buffer_inv ?b" "Buffer_room (length (put_total ?ops)) ?b"
    by (simp_all add: Buffer_inv_def Buffer_room_def buffer_consts)
  have "stream_spec ?ops (Buffer_content ?b) = Inr (''ab'', ''c'')"
    by (simp add: Buffer_content_def)
  with Buffer_refines_stream [OF h] show ?thesis by (auto simp del: stream_run.simps)
qed



text \<open>\<^verbatim>\<open>readFd\<close> delivers every byte: when \<^verbatim>\<open>readv\<close> returned \<open>n\<close> bytes, whether they fit in the
  vector or spilled into the stack buffer, the readable bytes grow by exactly those bytes in order,
  \<open>n\<close> is returned and \<^verbatim>\<open>savedErrno\<close> is not written.\<close>

theorem readFd_delivers:
  assumes "Buffer_inv b" and "length (buffer b) + length data \<le> vector_max"
  shows "\<exists>b'. readFd (int (length data)) e data b = Inr (int (length data), None, b') \<and>
     Buffer_inv b' \<and> Buffer_content b' = Buffer_content b @ data"
  using readFd_ok [OF assms] by blast

theorem readFd_delivers_witness:
  "\<exists>b'. readFd 3 0 ''abc'' \<lparr>buffer = replicate 9 (CHR 0x00), readerIndex = 8, writerIndex = 8\<rparr>
     = Inr (3, None, b') \<and> Buffer_content b' = ''abc''"
proof -
  let ?b = "\<lparr>buffer = replicate 9 (CHR 0x00), readerIndex = 8, writerIndex = 8\<rparr>"
  have "Buffer_inv ?b" "length (buffer ?b) + length ''abc'' \<le> vector_max"
    by (simp_all add: Buffer_inv_def buffer_consts)
  from readFd_delivers [OF this, of 0] show ?thesis by (auto simp: Buffer_content_def)
qed

text \<open>\<^verbatim>\<open>prepend\<close> and \<^verbatim>\<open>retrieve\<close> are inverse: prepending a header that fits in front of the readable
  bytes succeeds, and retrieving as many bytes gives the buffer's contents back.\<close>

theorem prepend_retrieve_roundtrip:
  assumes "Buffer_inv b" and "length data \<le> prependableBytes b"
  shows "\<exists>b1 b2. Buffer_prepend data b = Inr b1 \<and> Buffer_content b1 = data @ Buffer_content b \<and>
     retrieve (length data) b1 = Inr b2 \<and> Buffer_inv b2 \<and> Buffer_content b2 = Buffer_content b"
proof -
  from Buffer_prepend_ok [of b data] assms obtain b1 where
    b1: "Buffer_prepend data b = Inr b1" "Buffer_inv b1" "Buffer_content b1 = data @ Buffer_content b"
    by (auto simp: prependableBytes_def)
  from retrieve_ok [OF b1(2), of "length data"] b1 show ?thesis by auto
qed

theorem prepend_retrieve_roundtrip_witness:
  "\<exists>b1 b2. Buffer_prepend ''len:'' \<lparr>buffer = replicate 1032 (CHR 0x00), readerIndex = 8, writerIndex = 8\<rparr>
       = Inr b1 \<and> Buffer_content b1 = ''len:'' \<and>
     retrieve (length ''len:'') b1 = Inr b2 \<and> Buffer_content b2 = []"
proof -
  let ?b = "\<lparr>buffer = replicate 1032 (CHR 0x00), readerIndex = 8, writerIndex = 8\<rparr>"
  have "Buffer_inv ?b" "length ''len:'' \<le> prependableBytes ?b"
    by (simp_all add: Buffer_inv_def buffer_consts prependableBytes_def)
  from prepend_retrieve_roundtrip [OF this] show ?thesis
    by (auto simp: Buffer_content_def [of ?b])
qed

text \<open>\<^verbatim>\<open>shrink\<close> replaces the vector but leaves both indices: with the readable bytes at the front
  (\<^verbatim>\<open>readerIndex_ == kCheapPrepend\<close>) they are kept and the capacity is exactly the requested one.\<close>

theorem shrink_at_front:
  assumes "Buffer_inv b" and "readerIndex b = kCheapPrepend"
    and "kCheapPrepend + length (Buffer_content b) + reserve \<le> vector_max"
  shows "\<exists>b'. shrink reserve b = Inr b' \<and> Buffer_inv b' \<and> Buffer_content b' = Buffer_content b \<and>
     writableBytes b' = reserve"
proof -
  let ?n = "length (Buffer_content b)"
  let ?v = "blit (Buffer_content b) kCheapPrepend (replicate (kCheapPrepend + ?n + reserve) (CHR 0x00))"
  have n: "?n = writerIndex b - readerIndex b" using assms(1) by (simp add: buffer_sizes)
  have w: "writerIndex b = kCheapPrepend + ?n"
    using n assms(2) Buffer_invD [OF assms(1)] by simp
  have i: "Buffer_inv (b\<lparr>buffer := ?v\<rparr>)" using assms w by (simp add: Buffer_inv_def)
  have "Buffer_content (b\<lparr>buffer := ?v\<rparr>) = segment kCheapPrepend (kCheapPrepend + ?n) ?v"
    using assms(2) w by (simp add: Buffer_content_def [of "b\<lparr>buffer := ?v\<rparr>"])
  also have "\<dots> = Buffer_content b" by (rule segment_blit_same) simp
  finally have "Buffer_content (b\<lparr>buffer := ?v\<rparr>) = Buffer_content b" .
  with i shrink_value [OF assms(1,3)] w show ?thesis by (simp add: writableBytes_inv)
qed

theorem shrink_at_front_witness:
  "\<exists>b'. shrink 4 \<lparr>buffer = replicate 8 (CHR 0x00) @ ''abc'', readerIndex = 8, writerIndex = 11\<rparr> = Inr b' \<and>
     Buffer_content b' = ''abc'' \<and> writableBytes b' = 4"
proof -
  let ?b = "\<lparr>buffer = replicate 8 (CHR 0x00) @ ''abc'', readerIndex = 8, writerIndex = 11\<rparr>"
  have c: "Buffer_content ?b = ''abc''" by (simp add: Buffer_content_def segment_def)
  have "Buffer_inv ?b" "readerIndex ?b = kCheapPrepend"
    "kCheapPrepend + length (Buffer_content ?b) + 4 \<le> vector_max"
    by (simp_all add: c) (simp_all add: Buffer_inv_def buffer_consts)
  from shrink_at_front [OF this] show ?thesis by (auto simp: c)
qed

text \<open>\<^verbatim>\<open>shrink\<close> after a retrieve: since the indices are not moved with the bytes, a buffer whose
  reader has advanced by more than the reserve is left with its write index beyond the new vector,
  and reading it back as a string reads out of bounds.\<close>

theorem shrink_after_retrieve:
  assumes "Buffer_inv b" and "kCheapPrepend + reserve < readerIndex b"
    and "kCheapPrepend + length (Buffer_content b) + reserve \<le> vector_max"
  shows "\<exists>b'. shrink reserve b = Inr b' \<and> length (buffer b') < writerIndex b' \<and>
     retrieveAsString b' = Inl OutOfBounds"
proof -
  let ?n = "length (Buffer_content b)"
  let ?v = "blit (Buffer_content b) kCheapPrepend (replicate (kCheapPrepend + ?n + reserve) (CHR 0x00))"
  have n: "readableBytes b = ?n" by (simp add: length_Buffer_content assms(1))
  have w: "writerIndex b = readerIndex b + ?n"
    using n Buffer_invD [OF assms(1)] by (simp add: readableBytes_inv [OF assms(1)])
  have l: "length ?v = kCheapPrepend + ?n + reserve" by simp
  have r: "readableBytes (b\<lparr>buffer := ?v\<rparr>) = ?n" using n by (simp add: readableBytes_def)
  have "retrieveAsString (b\<lparr>buffer := ?v\<rparr>) = Inl OutOfBounds"
    using assms(2) by (simp add: retrieveAsString_def read_range_def peek_def r)
  with shrink_value [OF assms(1,3)] w l assms(2) show ?thesis by simp
qed

theorem shrink_after_retrieve_witness:
  "\<exists>b'. shrink 0 \<lparr>buffer = replicate 13 (CHR 0x00) @ ''abcde'', readerIndex = 13, writerIndex = 18\<rparr> = Inr b' \<and>
     length (buffer b') < writerIndex b' \<and> retrieveAsString b' = Inl OutOfBounds"
proof -
  let ?b = "\<lparr>buffer = replicate 13 (CHR 0x00) @ ''abcde'', readerIndex = 13, writerIndex = 18\<rparr>"
  have c: "length (Buffer_content ?b) = 5" by (simp add: Buffer_content_def)
  have "Buffer_inv ?b" "kCheapPrepend + 0 < readerIndex ?b"
    "kCheapPrepend + length (Buffer_content ?b) + 0 \<le> vector_max"
    by (simp_all add: c) (simp_all add: Buffer_inv_def buffer_consts)
  from shrink_after_retrieve [OF this] show ?thesis by simp
qed

end
