(* ===== verification/Decimal.thy ===== *)
theory Decimal
  imports Prelude
begin

text \<open>
  Decimal and hexadecimal text of numbers, as \<^verbatim>\<open>printf\<close> writes them: the reference definitions that
  the hand-written conversions of the logging stream are compared with, and the \<^verbatim>\<open>printf\<close> conversions
  (\<^verbatim>\<open>%d\<close>, \<^verbatim>\<open>%4d\<close>, \<^verbatim>\<open>%06d\<close>) the code uses elsewhere.
\<close>

section \<open>Digits in a base\<close>

definition digit_char :: "nat \<Rightarrow> char" where
  "digit_char d = ''0123456789abcdef'' ! d"

definition char_digit :: "char \<Rightarrow> nat" where
  "char_digit c = (let n = of_char c :: nat in if n < 58 then n - 48 else n - 87)"

fun base_digits :: "nat \<Rightarrow> nat \<Rightarrow> string" where
  "base_digits b n =
     (if b < 2 then [] else if n < b then [digit_char n]
      else base_digits b (n div b) @ [digit_char (n mod b)])"

declare base_digits.simps [simp del]

fun base_value :: "nat \<Rightarrow> string \<Rightarrow> nat \<Rightarrow> nat" where
  "base_value b [] acc = acc"
| "base_value b (c # cs) acc = base_value b cs (acc * b + char_digit c)"

lemma char_digit_digit_char [simp]: "d < 16 \<Longrightarrow> char_digit (digit_char d) = d"
proof -
  have "list_all (\<lambda>d. char_digit (digit_char d) = d) [0..<16]" by code_simp
  then show "d < 16 \<Longrightarrow> char_digit (digit_char d) = d" by (simp add: list_all_iff)
qed

lemma base_value_append: "base_value b (xs @ ys) acc = base_value b ys (base_value b xs acc)"
  by (induction xs arbitrary: acc) simp_all

lemma base_value_base_digits:
  assumes "2 \<le> b" and "b \<le> 16"
  shows "base_value b (base_digits b n) 0 = n"
  using assms
proof (induction b n rule: base_digits.induct)
  case (1 b n)
  show ?case
  proof (cases "n < b")
    case True
    with "1.prems" show ?thesis by (subst base_digits.simps) simp
  next
    case False
    with "1" have "base_value b (base_digits b (n div b)) 0 = n div b" by simp
    moreover have "char_digit (digit_char (n mod b)) = n mod b"
    proof (rule char_digit_digit_char)
      have "n mod b < b" using "1.prems" by simp
      with "1.prems" show "n mod b < 16" by linarith
    qed
    ultimately show ?thesis
      using False "1.prems" by (subst base_digits.simps) (simp add: base_value_append)
  qed
qed

lemma base_digits_nonempty: "2 \<le> b \<Longrightarrow> base_digits b n \<noteq> []"
  by (subst base_digits.simps) simp

lemma length_base_digits:
  "2 \<le> b \<Longrightarrow> 0 < k \<Longrightarrow> n < b ^ k \<Longrightarrow> length (base_digits b n) \<le> k"
proof (induction k arbitrary: n)
  case 0
  then show ?case by simp
next
  case (Suc k)
  show ?case
  proof (cases "n < b")
    case True
    with Suc.prems show ?thesis by (subst base_digits.simps) simp
  next
    case False
    then have "0 < k" using Suc.prems by (cases k) auto
    moreover have "n div b < b ^ k"
      using Suc.prems by (simp add: less_mult_imp_div_less mult.commute)
    ultimately have "length (base_digits b (n div b)) \<le> k" using Suc by blast
    with False Suc.prems show ?thesis by (subst base_digits.simps) simp
  qed
qed

lemma base_digits_inject:
  "2 \<le> b \<Longrightarrow> b \<le> 16 \<Longrightarrow> base_digits b m = base_digits b n \<longleftrightarrow> m = n"
  by (metis base_value_base_digits)

lemma digit_char_decimal: "d < 10 \<Longrightarrow> digit_char d \<in> set ''0123456789''"
proof -
  have "list_all (\<lambda>d. digit_char d \<in> set ''0123456789'') [0..<10]" by code_simp
  then show "d < 10 \<Longrightarrow> digit_char d \<in> set ''0123456789''" by (simp add: list_all_iff del: insert_iff)
qed

lemma base_digits_decimal: "set (base_digits 10 n) \<subseteq> set ''0123456789''"
proof (induction "10 :: nat" n rule: base_digits.induct)
  case (1 n)
  show ?case
  proof (cases "n < 10")
    case True
    then show ?thesis by (subst base_digits.simps) (use digit_char_decimal in simp)
  next
    case False
    have "digit_char (n mod 10) \<in> set ''0123456789''" by (rule digit_char_decimal) simp
    with False "1" show ?thesis by (subst base_digits.simps) auto
  qed
qed

section \<open>printf conversions\<close>

abbreviation dec :: "nat \<Rightarrow> string" where
  "dec n \<equiv> base_digits 10 n"

text \<open>\<^verbatim>\<open>%d\<close>\<close>

definition fmt_d :: "int \<Rightarrow> string" where
  "fmt_d v = (if v < 0 then CHR ''-'' # dec (nat (- v)) else dec (nat v))"

text \<open>\<^verbatim>\<open>%<w>d\<close>: padded with blanks on the left.\<close>

definition fmt_wd :: "nat \<Rightarrow> int \<Rightarrow> string" where
  "fmt_wd w v = (let s = fmt_d v in replicate (w - length s) (CHR '' '') @ s)"

text \<open>\<^verbatim>\<open>%0<w>d\<close>: padded with zeros between the sign and the digits.\<close>

definition fmt_0d :: "nat \<Rightarrow> int \<Rightarrow> string" where
  "fmt_0d w v =
     (if v < 0
      then CHR ''-'' # replicate (w - 1 - length (dec (nat (- v)))) (CHR ''0'') @ dec (nat (- v))
      else replicate (w - length (dec (nat v))) (CHR ''0'') @ dec (nat v))"

text \<open>\<^verbatim>\<open>snprintf(buf, n, ...)\<close> keeps at most \<open>n - 1\<close> characters.\<close>

definition snprintf :: "nat \<Rightarrow> string \<Rightarrow> string" where
  "snprintf n s = take (n - 1) s"

text \<open>Reading a signed decimal back.\<close>

definition read_int :: "string \<Rightarrow> int" where
  "read_int s = (case s of [] \<Rightarrow> 0
     | c # cs \<Rightarrow> if c = CHR ''-'' then - int (base_value 10 cs 0) else int (base_value 10 s 0))"

lemma dec_not_minus: "dec n = c # cs \<Longrightarrow> c \<noteq> CHR ''-''"
  using base_digits_decimal [of n] by auto

lemma read_int_fmt_d [simp]: "read_int (fmt_d v) = v"
proof (cases "v < 0")
  case True
  then show ?thesis by (simp add: read_int_def fmt_d_def base_value_base_digits)
next
  case False
  obtain c cs where cs: "dec (nat v) = c # cs"
    using base_digits_nonempty [of 10 "nat v"] by (cases "dec (nat v)") auto
  have "base_value 10 (dec (nat v)) 0 = nat v" by (simp add: base_value_base_digits)
  with False cs dec_not_minus [OF cs] show ?thesis by (simp add: read_int_def fmt_d_def)
qed

lemma fmt_d_inject [simp]: "fmt_d a = fmt_d b \<longleftrightarrow> a = b"
  by (metis read_int_fmt_d)

lemma base_value_zeros [simp]: "base_value 10 (replicate k (CHR ''0'') @ s) 0 = base_value 10 s 0"
  by (induction k) (simp_all add: char_digit_def)

lemma length_fmt_0d:
  assumes "0 \<le> v" and "v < 10 ^ w" and "0 < w"
  shows "length (fmt_0d w v) = w"
proof -
  have "nat v < 10 ^ w" using assms by (simp add: nat_less_iff)
  then have "length (dec (nat v)) \<le> w" using assms by (intro length_base_digits) simp_all
  with assms show ?thesis by (simp add: fmt_0d_def)
qed

lemma base_value_fmt_0d: "0 \<le> v \<Longrightarrow> base_value 10 (fmt_0d w v) 0 = nat v"
  by (simp add: fmt_0d_def base_value_base_digits)

lemma length_fmt_wd: "length (fmt_d v) \<le> w \<Longrightarrow> length (fmt_wd w v) = w"
  by (simp add: fmt_wd_def Let_def)

lemma length_fmt_d_le:
  assumes "0 \<le> v" and "v < 10 ^ k" and "0 < k"
  shows "length (fmt_d v) \<le> k"
proof -
  have "nat v < 10 ^ k" using assms by (simp add: nat_less_iff)
  then show ?thesis using assms by (simp add: fmt_d_def length_base_digits)
qed

end
