(* ===== verification/Timestamps.thy ===== *)
theory Timestamps
  imports Complex_Main Decimal
begin

text \<open>
  \<^verbatim>\<open>jiangbo::Timestamp\<close> (src/timestamp/TimeStamp.h, TimeStamp.cc): microseconds since the epoch.
  The value is an \<open>int\<close>; \<open>in_int64\<close> says that it fits the 64-bit member. A \<^verbatim>\<open>double\<close> is the rational
  number it denotes, and \<open>rnd\<close>, a parameter, is the rounding of the machine's floating-point
  operations. \<^verbatim>\<open>gmtime_r\<close> is a parameter too.
\<close>

section \<open>Model\<close>

datatype timestamp = Timestamp (microSecondsSinceEpoch: int)

definition Timestamp_new :: timestamp where
  "Timestamp_new = Timestamp 0"

definition kMicroSecondPerSecond :: int where
  "kMicroSecondPerSecond = 1000 * 1000"

definition valid :: "timestamp \<Rightarrow> bool" where
  "valid t \<longleftrightarrow> 0 < microSecondsSinceEpoch t"

definition invaild :: timestamp where
  "invaild = Timestamp_new"

definition Timestamp_swap :: "timestamp \<Rightarrow> timestamp \<Rightarrow> timestamp \<times> timestamp" where
  "Timestamp_swap this that =
     (Timestamp (microSecondsSinceEpoch that), Timestamp (microSecondsSinceEpoch this))"

text \<open>\<^verbatim>\<open>operator<\<close> and \<^verbatim>\<open>operator==\<close> compare the microseconds; the first is the strict part of a linear order, the
  second is equality (lemma \<open>Timestamp_equal_iff\<close>).\<close>

definition Timestamp_less :: "timestamp \<Rightarrow> timestamp \<Rightarrow> bool" where
  "Timestamp_less lhs rhs \<longleftrightarrow> microSecondsSinceEpoch lhs < microSecondsSinceEpoch rhs"

definition Timestamp_equal :: "timestamp \<Rightarrow> timestamp \<Rightarrow> bool" where
  "Timestamp_equal lhs rhs \<longleftrightarrow> microSecondsSinceEpoch lhs = microSecondsSinceEpoch rhs"

declare Timestamp_less_def [simp]

instantiation timestamp :: linorder
begin

definition less_eq_timestamp :: "timestamp \<Rightarrow> timestamp \<Rightarrow> bool" where
  "less_eq_timestamp a b \<longleftrightarrow> microSecondsSinceEpoch a \<le> microSecondsSinceEpoch b"

definition less_timestamp :: "timestamp \<Rightarrow> timestamp \<Rightarrow> bool" where
  "less_timestamp lhs rhs \<longleftrightarrow> Timestamp_less lhs rhs"

instance
  by standard (auto simp: less_eq_timestamp_def less_timestamp_def intro: timestamp.expand)

end

text \<open>\<^verbatim>\<open>static_cast<int64_t>\<close> of a \<^verbatim>\<open>double\<close> truncates towards zero.\<close>

definition c_trunc :: "rat \<Rightarrow> int" where
  "c_trunc q = (if 0 \<le> q then \<lfloor>q\<rfloor> else \<lceil>q\<rceil>)"

definition timeDiffence :: "timestamp \<Rightarrow> timestamp \<Rightarrow> rat" where
  "timeDiffence high low =
     (let diff = microSecondsSinceEpoch high - microSecondsSinceEpoch low in
      of_int (c_div diff kMicroSecondPerSecond))"

definition addTime :: "(rat \<Rightarrow> rat) \<Rightarrow> timestamp \<Rightarrow> rat \<Rightarrow> timestamp" where
  "addTime rnd t seconds =
     (let delta = c_trunc (rnd (seconds * of_int kMicroSecondPerSecond)) in
      Timestamp (microSecondsSinceEpoch t + delta))"

text \<open>\<^verbatim>\<open>Timestamp::now()\<close> from the \<^verbatim>\<open>timeval\<close> that \<^verbatim>\<open>gettimeofday\<close> filled.\<close>

definition timestamp_of_timeval :: "int \<Rightarrow> int \<Rightarrow> timestamp" where
  "timestamp_of_timeval tv_sec tv_usec = Timestamp (tv_sec * kMicroSecondPerSecond + tv_usec)"

definition Timestamp_toString :: "timestamp \<Rightarrow> string" where
  "Timestamp_toString t =
     (let seconds = c_div (microSecondsSinceEpoch t) kMicroSecondPerSecond;
          microseconds = c_mod (microSecondsSinceEpoch t) kMicroSecondPerSecond in
      snprintf 31 (fmt_d seconds @ ''.'' @ fmt_0d 6 microseconds))"

record tm =
  tm_year :: int
  tm_mon :: int
  tm_mday :: int
  tm_hour :: int
  tm_min :: int
  tm_sec :: int

definition Timestamp_toFormattedString :: "(int \<Rightarrow> tm) \<Rightarrow> timestamp \<Rightarrow> string" where
  "Timestamp_toFormattedString gmtime t =
     (let seconds = c_div (microSecondsSinceEpoch t) kMicroSecondPerSecond;
          microseconds = c_mod (microSecondsSinceEpoch t) kMicroSecondPerSecond;
          tm_time = gmtime seconds in
      snprintf 64 (fmt_wd 4 (tm_year tm_time + 1900) @ fmt_0d 2 (tm_mon tm_time + 1) @
        fmt_0d 2 (tm_mday tm_time) @ '' '' @ fmt_0d 2 (tm_hour tm_time) @ '':'' @
        fmt_0d 2 (tm_min tm_time) @ '':'' @ fmt_0d 2 (tm_sec tm_time) @ ''.'' @ fmt_0d 6 microseconds))"

section \<open>Lemmas\<close>

definition in_int64 :: "int \<Rightarrow> bool" where
  "in_int64 v \<longleftrightarrow> - 9223372036854775808 \<le> v \<and> v \<le> 9223372036854775807"

lemma Timestamp_equal_iff: "Timestamp_equal lhs rhs \<longleftrightarrow> lhs = rhs"
  by (auto simp: Timestamp_equal_def intro: timestamp.expand)

lemma timestamp_less_iff [simp]: "Timestamp a < Timestamp b \<longleftrightarrow> a < b"
  by (simp add: less_timestamp_def)

lemma timestamp_le_iff [simp]: "Timestamp a \<le> Timestamp b \<longleftrightarrow> a \<le> b"
  by (simp add: less_eq_timestamp_def)

lemma c_trunc_of_int [simp]: "c_trunc (of_int n) = n"
  by (simp add: c_trunc_def)

lemma c_trunc_mono: "p \<le> q \<Longrightarrow> c_trunc p \<le> c_trunc q"
  by (auto simp: c_trunc_def floor_mono ceiling_mono)
    (meson ceiling_le_zero dual_order.trans linorder_le_cases zero_le_floor)

lemma addTime_exact:
  assumes "rnd (s * 1000000) = of_int n"
  shows "addTime rnd (Timestamp t) s = Timestamp (t + n)"
  using assms by (simp add: addTime_def kMicroSecondPerSecond_def)

lemma addTime_later:
  assumes "0 \<le> rnd (s * 1000000)"
  shows "t \<le> addTime rnd t s"
  using assms by (cases t) (simp add: addTime_def kMicroSecondPerSecond_def c_trunc_def)

section \<open>Reading a printed time back\<close>

fun split_dot :: "string \<Rightarrow> string \<times> string" where
  "split_dot [] = ([], [])"
| "split_dot (c # cs) = (if c = CHR ''.'' then ([], cs) else map_prod (Cons c) id (split_dot cs))"

definition read_time :: "string \<Rightarrow> int" where
  "read_time s = (case split_dot s of (sec, usec) \<Rightarrow>
     int (base_value 10 sec 0) * kMicroSecondPerSecond + int (base_value 10 usec 0))"

lemma split_dot_append: "CHR ''.'' \<notin> set xs \<Longrightarrow> split_dot (xs @ CHR ''.'' # ys) = (xs, ys)"
  by (induction xs) auto

lemma toString_short:
  assumes "0 \<le> us" and "in_int64 us"
  shows "Timestamp_toString (Timestamp us) =
    dec (nat (us div 1000000)) @ CHR ''.'' # fmt_0d 6 (us mod 1000000)"
proof -
  let ?s = "us div 1000000" and ?u = "us mod 1000000"
  have "?s < 10 ^ 13" using assms by (simp add: in_int64_def)
  then have "nat ?s < 10 ^ 13" using assms by (simp add: nat_less_iff)
  then have "length (dec (nat ?s)) \<le> 13" by (intro length_base_digits) simp_all
  moreover have "length (fmt_0d 6 ?u) = 6" by (intro length_fmt_0d) simp_all
  moreover have "\<not> ?s < 0" using assms by simp
  ultimately show ?thesis
    using assms by (simp add: Timestamp_toString_def kMicroSecondPerSecond_def c_div_nonneg c_mod_nonneg
        Let_def snprintf_def fmt_d_def)
qed

section \<open>Properties\<close>

text \<open>(C32) A printed timestamp determines the time: for a timestamp that is not negative, parsing
  \<^verbatim>\<open>toString()\<close> gives the exact microseconds back; nothing is cut by the 32-byte buffer.\<close>

theorem toString_roundtrip:
  assumes "0 \<le> microSecondsSinceEpoch t" and "in_int64 (microSecondsSinceEpoch t)"
  shows "read_time (Timestamp_toString t) = microSecondsSinceEpoch t"
proof -
  obtain us where t: "t = Timestamp us" by (cases t)
  have "CHR ''.'' \<notin> set (dec (nat (us div 1000000)))"
    using base_digits_decimal [of "nat (us div 1000000)"] by auto
  moreover have "0 \<le> us div 1000000" using assms by (simp add: t pos_imp_zdiv_nonneg_iff)
  ultimately show ?thesis
    using assms by (simp add: t toString_short read_time_def split_dot_append base_value_base_digits
        base_value_fmt_0d kMicroSecondPerSecond_def)
qed

theorem toString_roundtrip_witness:
  "read_time (Timestamp_toString (Timestamp 1588888888000042)) = 1588888888000042"
  using toString_roundtrip [of "Timestamp 1588888888000042"] by (simp add: in_int64_def)

text \<open>\<^verbatim>\<open>timeDiffence\<close> returns whole seconds although its type is \<^verbatim>\<open>double\<close>: the division is done on
  integers before the conversion, so the difference of two times less than a second apart is 0.\<close>

theorem timeDiffence_whole_seconds:
  assumes "low \<le> high"
  shows "timeDiffence high low =
      of_int ((microSecondsSinceEpoch high - microSecondsSinceEpoch low) div 1000000) \<and>
    (microSecondsSinceEpoch high < microSecondsSinceEpoch low + 1000000 \<longrightarrow> timeDiffence high low = 0)"
  using assms
  by (simp add: timeDiffence_def kMicroSecondPerSecond_def Let_def c_div_nonneg less_eq_timestamp_def)

theorem timeDiffence_whole_seconds_witness:
  "timeDiffence (Timestamp 2999999) (Timestamp 1000000) = 1 \<and>
   timeDiffence (Timestamp 1999999) (Timestamp 1000000) = 0"
  using timeDiffence_whole_seconds [of "Timestamp 1000000" "Timestamp 2999999"]
    timeDiffence_whole_seconds [of "Timestamp 1000000" "Timestamp 1999999"] by simp

end
