(* ===== verification/Inet_Address.thy ===== *)
theory Inet_Address
  imports Decimal
begin

unbundle bit_operations_syntax

text \<open>
  Byte order and IPv4 addresses: src/reactor/Socketops.h (the inline conversions),
  \<^verbatim>\<open>socketops::toHostPort\<close>, \<^verbatim>\<open>socketops::fromHostToPort\<close> (src/reactor/Socketops.cc) and
  \<^verbatim>\<open>InetAddress\<close> (src/reactor/InetAddress.h, InetAddress.cc). The host is little-endian, as the
  binaries of the repository (x86-64) are. \<^verbatim>\<open>inet_ntop\<close> and \<^verbatim>\<open>inet_pton\<close> are the parameters
  \<open>ntop\<close> and \<open>pton\<close>: the text of an address, and the address of a text (\<open>None\<close> when the text is not
  an address: the call then returns 0 and leaves its argument alone).
\<close>

section \<open>Byte order\<close>

text \<open>\<^verbatim>\<open>htons\<close>, \<^verbatim>\<open>htonl\<close>, \<^verbatim>\<open>htobe64\<close> and their inverses reverse the bytes.\<close>

definition bswap16 :: "16 word \<Rightarrow> 16 word" where
  "bswap16 x = push_bit 8 x OR drop_bit 8 x"

definition bswap32 :: "32 word \<Rightarrow> 32 word" where
  "bswap32 x =
     push_bit 16 (ucast (bswap16 (ucast x))) OR ucast (bswap16 (ucast (drop_bit 16 x)))"

definition bswap64 :: "64 word \<Rightarrow> 64 word" where
  "bswap64 x =
     push_bit 32 (ucast (bswap32 (ucast x))) OR ucast (bswap32 (ucast (drop_bit 32 x)))"

definition hostToNetwork64 :: "64 word \<Rightarrow> 64 word" where
  "hostToNetwork64 ip = bswap64 ip"

definition hostToNetwork32 :: "32 word \<Rightarrow> 32 word" where
  "hostToNetwork32 ip = bswap32 ip"

definition hostToNetwork16 :: "16 word \<Rightarrow> 16 word" where
  "hostToNetwork16 ip = bswap16 ip"

definition networkToHost64 :: "64 word \<Rightarrow> 64 word" where
  "networkToHost64 ip = bswap64 ip"

definition networkToHost32 :: "32 word \<Rightarrow> 32 word" where
  "networkToHost32 ip = bswap32 ip"

text \<open>The 16-bit inverse is declared with a 32-bit result.\<close>

definition networkToHost16 :: "16 word \<Rightarrow> 32 word" where
  "networkToHost16 ip = ucast (bswap16 ip)"

section \<open>Addresses\<close>

record sockaddr_in =
  sin_family :: "16 word"
  sin_port :: "16 word"
  s_addr :: "32 word"

definition AF_INET :: "16 word" where
  "AF_INET = 2"

definition sockaddr_zero :: sockaddr_in where
  "sockaddr_zero = \<lparr>sin_family = 0, sin_port = 0, s_addr = 0\<rparr>"

definition kInaddrAny :: "32 word" where
  "kInaddrAny = hostToNetwork32 0"

definition InetAddress_port :: "16 word \<Rightarrow> sockaddr_in" where
  "InetAddress_port port = sockaddr_zero\<lparr>sin_family := AF_INET, s_addr := kInaddrAny,
     sin_port := hostToNetwork16 port\<rparr>"

definition fromHostToPort :: "(string \<Rightarrow> 32 word option) \<Rightarrow> string \<Rightarrow> 16 word \<Rightarrow> sockaddr_in \<Rightarrow> sockaddr_in" where
  "fromHostToPort pton ip port addr =
     (let a = addr\<lparr>sin_family := AF_INET, sin_port := hostToNetwork16 port\<rparr> in
      case pton ip of Some v \<Rightarrow> a\<lparr>s_addr := v\<rparr> | None \<Rightarrow> a)"

definition InetAddress_ip :: "(string \<Rightarrow> 32 word option) \<Rightarrow> string \<Rightarrow> 16 word \<Rightarrow> sockaddr_in" where
  "InetAddress_ip pton ip port =
     fromHostToPort pton ip port (sockaddr_zero\<lparr>sin_family := AF_INET\<rparr>)"

definition socketops_toHostPort :: "(32 word \<Rightarrow> string) \<Rightarrow> nat \<Rightarrow> sockaddr_in \<Rightarrow> string" where
  "socketops_toHostPort ntop n addr =
     (let host = ntop (s_addr addr); port = networkToHost16 (sin_port addr) in
      snprintf n (host @ '':'' @ dec (unat port)))"

definition InetAddress_toHostPort :: "(32 word \<Rightarrow> string) \<Rightarrow> sockaddr_in \<Rightarrow> string" where
  "InetAddress_toHostPort ntop addr = socketops_toHostPort ntop 32 addr"

section \<open>Lemmas\<close>

lemma bit_bswap16: "bit (bswap16 x) n \<longleftrightarrow> n < 16 \<and> bit x (if n < 8 then n + 8 else n - 8)"
  by (auto simp: bswap16_def bit_simps add.commute dest: bit_imp_le_length)

lemma bswap16_bswap16 [simp]: "bswap16 (bswap16 x) = x"
  by (rule bit_word_eqI) (auto simp: bit_bswap16)

lemma bit_bswap32:
  "bit (bswap32 x) n \<longleftrightarrow> n < 32 \<and>
     bit x (if n < 8 then n + 24 else if n < 16 then n + 8 else if n < 24 then n - 8 else n - 24)"
  by (auto simp: bswap32_def bit_simps bit_bswap16 add.commute)

lemma bswap32_bswap32 [simp]: "bswap32 (bswap32 x) = x"
  by (rule bit_word_eqI) (auto simp: bit_bswap32)

lemma join64_low: "ucast (push_bit 32 (ucast (a :: 32 word)) OR ucast (b :: 32 word) :: 64 word) = b"
  by (rule bit_word_eqI) (auto simp: bit_simps)

lemma join64_high:
  "ucast (drop_bit 32 (push_bit 32 (ucast (a :: 32 word)) OR ucast (b :: 32 word) :: 64 word)) = a"
  by (rule bit_word_eqI) (auto simp: bit_simps dest: bit_imp_le_length)

lemma join64_split: "push_bit 32 (ucast (ucast (drop_bit 32 x) :: 32 word)) OR ucast (ucast x :: 32 word) = (x :: 64 word)"
  by (rule bit_word_eqI) (auto simp: bit_simps not_less le_iff_add)

lemma bswap64_bswap64 [simp]: "bswap64 (bswap64 x) = x"
proof -
  have low: "ucast (bswap64 x) = bswap32 (ucast (drop_bit 32 x))"
    unfolding bswap64_def by (rule join64_low)
  have high: "ucast (drop_bit 32 (bswap64 x)) = bswap32 (ucast x)"
    unfolding bswap64_def by (rule join64_high)
  show ?thesis
    by (simp only: bswap64_def [of "bswap64 x"] low high bswap32_bswap32 join64_split)
qed

lemma bswap32_0 [simp]: "bswap32 0 = 0"
  by (rule bit_word_eqI) (simp add: bit_bswap32)

lemma unat_networkToHost16: "unat (networkToHost16 (hostToNetwork16 p)) = unat p"
proof -
  have "unat p < 2 ^ 32" using unsigned_less [of p, where ?'a = nat] by simp
  then show ?thesis
    by (simp add: networkToHost16_def hostToNetwork16_def unsigned_ucast_eq take_bit_nat_eq_self)
qed

section \<open>Properties\<close>

text \<open>The byte-order conversions are inverse at every width, so a value sent in network order is
  read back unchanged.\<close>

theorem byte_order_roundtrip:
  "networkToHost16 (hostToNetwork16 a) = ucast a \<and>
   networkToHost32 (hostToNetwork32 b) = b \<and>
   networkToHost64 (hostToNetwork64 c) = c"
  by (simp add: networkToHost16_def hostToNetwork16_def networkToHost32_def hostToNetwork32_def
      networkToHost64_def hostToNetwork64_def)

text \<open>\<^verbatim>\<open>toHostPort\<close> prints the address and the port the \<^verbatim>\<open>InetAddress\<close> was made with: for an
  address text that \<^verbatim>\<open>inet_pton\<close> accepts and \<^verbatim>\<open>inet_ntop\<close> prints back in its 15 characters, the
  result is \<^verbatim>\<open>ip:port\<close>, not cut by the 32-byte buffer.\<close>

theorem toHostPort_roundtrip:
  assumes "pton ip = Some v" and "ntop v = ip" and "length ip \<le> 15"
  shows "InetAddress_toHostPort ntop (InetAddress_ip pton ip port) = ip @ '':'' @ dec (unat port)"
proof -
  have "unat port < 10 ^ 5" using unsigned_less [of port, where ?'a = nat] by simp
  then have "length (dec (unat port)) \<le> 5" by (intro length_base_digits) simp_all
  with assms show ?thesis
    by (simp add: InetAddress_toHostPort_def socketops_toHostPort_def InetAddress_ip_def
        fromHostToPort_def Let_def snprintf_def unat_networkToHost16)
qed

theorem toHostPort_roundtrip_witness:
  "InetAddress_toHostPort (\<lambda>v. if v = 0x0100007F then ''127.0.0.1'' else ''0.0.0.0'')
     (InetAddress_ip (\<lambda>s. if s = ''127.0.0.1'' then Some 0x0100007F else None) ''127.0.0.1'' 9981)
   = ''127.0.0.1'' @ '':'' @ dec 9981"
  using toHostPort_roundtrip [of "\<lambda>s. if s = ''127.0.0.1'' then Some 0x0100007F else None" "''127.0.0.1''"
      "0x0100007F" "\<lambda>v. if v = 0x0100007F then ''127.0.0.1'' else ''0.0.0.0''" 9981]
  by simp

text \<open>A text that is not an address is not reported: \<^verbatim>\<open>inet_pton\<close> answers 0 for it and only a negative
  answer is checked, so the constructor returns the wildcard address with the given port.\<close>

theorem InetAddress_bad_ip:
  assumes "pton ip = None"
  shows "InetAddress_ip pton ip port = InetAddress_port port"
  using assms
  by (simp add: InetAddress_ip_def fromHostToPort_def InetAddress_port_def kInaddrAny_def
      hostToNetwork32_def sockaddr_zero_def Let_def)

theorem InetAddress_bad_ip_witness:
  "InetAddress_ip (\<lambda>_. None) ''localhost'' 80 = InetAddress_port 80"
  by (rule InetAddress_bad_ip) simp

end
