(* ===== verification/Reactor_State.thy ===== *)
theory Reactor_State
  imports Byte_Buffer Timestamps Inet_Address
begin

text \<open>
  The state shared by the reactor's classes: the objects that are reached through pointers
  (\<^verbatim>\<open>Channel\<close>, \<^verbatim>\<open>EventLoop\<close> with its \<^verbatim>\<open>Epoller\<close> and \<^verbatim>\<open>TimerQueue\<close>, \<^verbatim>\<open>Timer\<close>) in a store from addresses to
  records, and the trace of system calls.

  The kernel is a parameter: \<open>os h c\<close> is its answer to the call \<open>c\<close> after the history \<open>h\<close> of earlier
  calls and answers. Every system call of the model goes through \<open>do_sys\<close>, which appends the call and
  its answer to the trace, so a theorem for all \<open>os\<close> covers every behaviour of the kernel, failures
  included. A \<^verbatim>\<open>boost::function\<close> bound to an object is a value of \<open>task\<close> (a task for a loop) or
  \<open>callback\<close> (an event handler of a channel) naming the method and the object.

  Log statements below \<^verbatim>\<open>FATAL\<close> have no effect on this state and are left out; \<^verbatim>\<open>LOG_FATAL\<close> ends the program
  (\<open>FatalLog\<close>). \<^verbatim>\<open>LOG_SYSFATAL\<close> expands to \<^verbatim>\<open>Logger(file, line, false)\<close>, an \<^verbatim>\<open>ERROR\<close> line: it does not stop.
\<close>

section \<open>Pointers, tasks and handlers\<close>

type_synonym ptr = nat
type_synonym tid = int

datatype close_callback =
    TcpServer_removeConnection_cb ptr
  | TcpClient_removeConnection_cb ptr
  | detail_removeConnection_cb ptr

datatype task =
    UserTask nat
  | AddTimerInLoop ptr ptr
  | SendInLoop ptr "byte list"
  | ShutdownInLoop ptr
  | ConnectDestoryed ptr
  | WriteComplete ptr
  | RemoveConnectionInLoop ptr ptr
  | AcceptorListen ptr
  | StartInLoop ptr
  | ResetChannel ptr
  | SetCloseCallBack ptr close_callback
  | RemoveConnector ptr

datatype callback =
    EventLoop_handleRead_cb ptr
  | TimerQueue_handleRead_cb ptr
  | Acceptor_handleRead_cb ptr
  | TcpConnection_handleRead_cb ptr
  | TcpConnection_handleWrite_cb ptr
  | TcpConnection_handleClose_cb ptr
  | TcpConnection_handleError_cb ptr
  | Connector_handleWrite_cb ptr
  | Connector_handleError_cb ptr
  | User_cb nat

section \<open>System calls\<close>

record timespec =
  tv_sec :: int
  tv_nsec :: int

datatype syscall =
    Sys_epoll_create
  | Sys_epoll_add int int "32 word"
  | Sys_epoll_mod int int "32 word"
  | Sys_epoll_del int int
  | Sys_epoll_wait int nat int
  | Sys_eventfd
  | Sys_timerfd_create
  | Sys_timerfd_settime int timespec
  | Sys_gettimeofday
  | Sys_read int nat
  | Sys_readv int nat
  | Sys_write int "byte list"
  | Sys_close int
  | Sys_shutdown int
  | Sys_socket
  | Sys_connect int sockaddr_in
  | Sys_bind int sockaddr_in
  | Sys_listen int
  | Sys_accept4 int
  | Sys_getsockopt_error int
  | Sys_setsockopt_reuseaddr int int
  | Sys_setsockopt_nodelay int int
  | Sys_getsockname int
  | Sys_getpeername int
  | Sys_pthread_create
  | Sys_gettid

record sysres =
  sr_ret :: int
  sr_errno :: int
  sr_data :: "byte list"
  sr_events :: "(int \<times> 32 word) list"
  sr_addr :: sockaddr_in
  sr_usec :: int
  sr_optval :: int

type_synonym history = "(syscall \<times> sysres) list"
type_synonym kernel = "history \<Rightarrow> syscall \<Rightarrow> sysres"

section \<open>Objects\<close>

record channel =
  ch_loop :: ptr
  ch_fd :: int
  ch_enableet :: bool
  ch_registered :: bool
  ch_eventHandling :: bool
  ch_events :: "32 word"
  ch_revents :: "32 word"
  ch_readCallback :: "callback option"
  ch_writeCallback :: "callback option"
  ch_errorCallback :: "callback option"
  ch_closeCallback :: "callback option"

record timer =
  ti_interval :: rat
  ti_repeat :: bool
  ti_expiration :: timestamp
  ti_callback :: task
  ti_sequence :: "64 word"

record epoller =
  ep_epfd :: int
  ep_channels :: "int \<Rightarrow> ptr option"
  ep_evsize :: nat

record timerQueue =
  tq_timerfd :: int
  tq_timerfdchannel :: ptr
  tq_timerlist :: "(timestamp \<times> ptr) list"

record eventLoop =
  el_looping :: bool
  el_quit :: bool
  el_calling :: bool
  el_wakeupfd :: int
  el_threadId :: tid
  el_epollReturnTime :: timestamp
  el_epoller :: epoller
  el_timerqueue :: timerQueue
  el_wakeupchannel :: ptr
  el_channellist :: "ptr list"
  el_pending :: "task list"

record reactor =
  trace :: history
  chans :: "ptr \<Rightarrow> channel option"
  loops :: "ptr \<Rightarrow> eventLoop option"
  timers :: "ptr \<Rightarrow> timer option"
  nextptr :: ptr
  numCreated :: "64 word"
  thisThreadEventLoop :: "tid \<Rightarrow> ptr option"

section \<open>Store and kernel access\<close>

definition deref :: "(ptr \<Rightarrow> 'a option) \<Rightarrow> ptr \<Rightarrow> 'a res" where
  "deref m p = (case m p of None \<Rightarrow> Inl UseAfterFree | Some x \<Rightarrow> Inr x)"

definition upd :: "('a \<Rightarrow> 'a) \<Rightarrow> ptr \<Rightarrow> (ptr \<Rightarrow> 'a option) \<Rightarrow> (ptr \<Rightarrow> 'a option)" where
  "upd f p m = m(p := map_option f (m p))"

definition upd_chan :: "(channel \<Rightarrow> channel) \<Rightarrow> ptr \<Rightarrow> 'z reactor_scheme \<Rightarrow> 'z reactor_scheme" where
  "upd_chan f c w = w\<lparr>chans := upd f c (chans w)\<rparr>"

definition upd_loop :: "(eventLoop \<Rightarrow> eventLoop) \<Rightarrow> ptr \<Rightarrow> 'z reactor_scheme \<Rightarrow> 'z reactor_scheme" where
  "upd_loop f l w = w\<lparr>loops := upd f l (loops w)\<rparr>"

definition upd_timer :: "(timer \<Rightarrow> timer) \<Rightarrow> ptr \<Rightarrow> 'z reactor_scheme \<Rightarrow> 'z reactor_scheme" where
  "upd_timer f t w = w\<lparr>timers := upd f t (timers w)\<rparr>"

definition do_sys :: "kernel \<Rightarrow> syscall \<Rightarrow> 'z reactor_scheme \<Rightarrow> sysres \<times> 'z reactor_scheme" where
  "do_sys os c w = (let r = os (trace w) c in (r, w\<lparr>trace := trace w @ [(c, r)]\<rparr>))"

definition Timestamp_now :: "kernel \<Rightarrow> 'z reactor_scheme \<Rightarrow> timestamp \<times> 'z reactor_scheme" where
  "Timestamp_now os w = (case do_sys os Sys_gettimeofday w of (r, w1) \<Rightarrow>
     (timestamp_of_timeval (sr_ret r) (sr_usec r), w1))"

section \<open>Lemmas\<close>

named_theorems store_simps \<open>reads of the store after an update\<close>

lemma upd_simps [simp, store_simps]:
  "upd f p m p = map_option f (m p)"
  "q \<noteq> p \<Longrightarrow> upd f p m q = m q"
  by (simp_all add: upd_def)

lemma upd_eq_None [simp]: "upd f p m q = None \<longleftrightarrow> m q = None"
  by (simp add: upd_def)

lemma deref_simps [simp]:
  "m p = Some x \<Longrightarrow> deref m p = Inr x"
  "m p = None \<Longrightarrow> deref m p = Inl UseAfterFree"
  by (simp_all add: deref_def)

lemma deref_eq_Inr [simp]: "deref m p = Inr x \<longleftrightarrow> m p = Some x"
  by (auto simp: deref_def split: option.splits)

lemma upd_chan_simps [simp, store_simps]:
  "chans (upd_chan f c w) = upd f c (chans w)"
  "loops (upd_chan f c w) = loops w"
  "timers (upd_chan f c w) = timers w"
  "trace (upd_chan f c w) = trace w"
  "nextptr (upd_chan f c w) = nextptr w"
  "numCreated (upd_chan f c w) = numCreated w"
  "thisThreadEventLoop (upd_chan f c w) = thisThreadEventLoop w"
  "reactor.more (upd_chan f c w) = reactor.more w"
  by (simp_all add: upd_chan_def)

lemma upd_loop_simps [simp, store_simps]:
  "loops (upd_loop f l w) = upd f l (loops w)"
  "chans (upd_loop f l w) = chans w"
  "timers (upd_loop f l w) = timers w"
  "trace (upd_loop f l w) = trace w"
  "nextptr (upd_loop f l w) = nextptr w"
  "numCreated (upd_loop f l w) = numCreated w"
  "thisThreadEventLoop (upd_loop f l w) = thisThreadEventLoop w"
  "reactor.more (upd_loop f l w) = reactor.more w"
  by (simp_all add: upd_loop_def)

lemma upd_timer_simps [simp, store_simps]:
  "timers (upd_timer f t w) = upd f t (timers w)"
  "chans (upd_timer f t w) = chans w"
  "loops (upd_timer f t w) = loops w"
  "trace (upd_timer f t w) = trace w"
  "nextptr (upd_timer f t w) = nextptr w"
  "numCreated (upd_timer f t w) = numCreated w"
  "thisThreadEventLoop (upd_timer f t w) = thisThreadEventLoop w"
  "reactor.more (upd_timer f t w) = reactor.more w"
  by (simp_all add: upd_timer_def)

lemma do_sys_eq [simp]:
  "do_sys os c w = (os (trace w) c, w\<lparr>trace := trace w @ [(c, os (trace w) c)]\<rparr>)"
  by (simp add: do_sys_def Let_def)

lemma Timestamp_now_snd [simp]:
  "snd (Timestamp_now os w) = w\<lparr>trace := trace w @ [(Sys_gettimeofday, os (trace w) Sys_gettimeofday)]\<rparr>"
  by (simp add: Timestamp_now_def)

end
