(* ===== verification/Event_Dispatch.thy ===== *)
theory Event_Dispatch
  imports Reactor_State
begin

unbundle bit_operations_syntax

text \<open>
  \<^verbatim>\<open>Channel\<close> (src/reactor/Channel.h, Channel.cc), \<^verbatim>\<open>Epoller\<close> (Epoller.h, Epoller.cc) and the part of
  \<^verbatim>\<open>EventLoop\<close> that connects them (\<^verbatim>\<open>assertInLoopThread\<close>, \<^verbatim>\<open>updateChannel\<close>, \<^verbatim>\<open>removeChannel\<close>).
  \<open>cur\<close> is the calling thread, \<^verbatim>\<open>CurrentThread::tid()\<close>.

  Two invariants: \<open>epoll_inv\<close>, the \<^verbatim>\<open>channels_\<close> map of every loop holds exactly the registered
  channels, and \<open>epoll_synced\<close>, the kernel's interest list (replayed from the trace) holds for every
  registered descriptor the mask the channel asks for.
\<close>

section \<open>Constants\<close>

definition EPOLLIN :: "32 word" where "EPOLLIN = 0x001"
definition EPOLLPRI :: "32 word" where "EPOLLPRI = 0x002"
definition EPOLLOUT :: "32 word" where "EPOLLOUT = 0x004"
definition EPOLLERR :: "32 word" where "EPOLLERR = 0x008"
definition EPOLLHUP :: "32 word" where "EPOLLHUP = 0x010"
definition EPOLLRDHUP :: "32 word" where "EPOLLRDHUP = 0x2000"
definition EPOLLET :: "32 word" where "EPOLLET = 0x80000000"

lemmas epoll_flags = EPOLLIN_def EPOLLPRI_def EPOLLOUT_def EPOLLERR_def EPOLLHUP_def EPOLLRDHUP_def
  EPOLLET_def

definition kNoneEvent :: "32 word" where
  "kNoneEvent = 0"

definition kReadEvent :: "32 word" where
  "kReadEvent = EPOLLIN OR EPOLLPRI OR EPOLLRDHUP"

definition kWriteEvent :: "32 word" where
  "kWriteEvent = EPOLLOUT"

section \<open>Loop thread checks\<close>

definition isInLoopThread :: "tid \<Rightarrow> eventLoop \<Rightarrow> bool" where
  "isInLoopThread cur lp \<longleftrightarrow> el_threadId lp = cur"

definition abortNotInLoopThread :: "unit res" where
  "abortNotInLoopThread = Inl FatalLog"

definition assertInLoopThread :: "tid \<Rightarrow> ptr \<Rightarrow> 'z reactor_scheme \<Rightarrow> unit res" where
  "assertInLoopThread cur l w =
     bindR (deref (loops w) l) (\<lambda>lp. if isInLoopThread cur lp then Inr () else abortNotInLoopThread)"

section \<open>Epoller\<close>

definition set_channel :: "int \<Rightarrow> ptr option \<Rightarrow> eventLoop \<Rightarrow> eventLoop" where
  "set_channel fd c lp =
     lp\<lparr>el_epoller := (el_epoller lp)\<lparr>ep_channels := (ep_channels (el_epoller lp))(fd := c)\<rparr>\<rparr>"

definition set_registered :: "bool \<Rightarrow> channel \<Rightarrow> channel" where
  "set_registered v ch = ch\<lparr>ch_registered := v\<rparr>"

definition isNoneEvent :: "channel \<Rightarrow> bool" where
  "isNoneEvent ch \<longleftrightarrow> ch_events ch = kNoneEvent"

definition kInitEventListSize :: nat where
  "kInitEventListSize = 16"

definition epollAdd :: "kernel \<Rightarrow> ptr \<Rightarrow> ptr \<Rightarrow> 'z reactor_scheme \<Rightarrow> 'z reactor_scheme res" where
  "epollAdd os l c w =
     bindR (deref (chans w) c) (\<lambda>ch.
     bindR (deref (loops w) l) (\<lambda>lp.
     if 0 < ch_events ch
     then assertC (ep_channels (el_epoller lp) (ch_fd ch) = None)
       (case do_sys os (Sys_epoll_add (ep_epfd (el_epoller lp)) (ch_fd ch) (ch_events ch)) w of (r, w1) \<Rightarrow>
          if sr_ret r = 0
          then Inr (upd_chan (set_registered True) c (upd_loop (set_channel (ch_fd ch) (Some c)) l w1))
          else Inr w1)
     else Inr w))"

definition epollMod :: "kernel \<Rightarrow> ptr \<Rightarrow> ptr \<Rightarrow> 'z reactor_scheme \<Rightarrow> 'z reactor_scheme res" where
  "epollMod os l c w =
     bindR (deref (chans w) c) (\<lambda>ch.
     bindR (deref (loops w) l) (\<lambda>lp.
     assertC (ep_channels (el_epoller lp) (ch_fd ch) = Some c)
       (case do_sys os (Sys_epoll_mod (ep_epfd (el_epoller lp)) (ch_fd ch) (ch_events ch)) w of (r, w1) \<Rightarrow>
          Inr w1)))"

definition epollDel :: "kernel \<Rightarrow> ptr \<Rightarrow> ptr \<Rightarrow> 'z reactor_scheme \<Rightarrow> 'z reactor_scheme res" where
  "epollDel os l c w =
     bindR (deref (chans w) c) (\<lambda>ch.
     bindR (deref (loops w) l) (\<lambda>lp.
     assertC (ep_channels (el_epoller lp) (ch_fd ch) = Some c) (
     assertC (isNoneEvent ch) (
     assertC (ch_registered ch)
       (case do_sys os (Sys_epoll_del (ep_epfd (el_epoller lp)) (ch_fd ch)) w of (r, w1) \<Rightarrow>
          if sr_ret r = 0
          then Inr (upd_chan (set_registered False) c (upd_loop (set_channel (ch_fd ch) None) l w1))
          else Inr w1)))))"

definition updateChannelMap :: "kernel \<Rightarrow> tid \<Rightarrow> ptr \<Rightarrow> ptr \<Rightarrow> 'z reactor_scheme \<Rightarrow> 'z reactor_scheme res" where
  "updateChannelMap os cur l c w =
     bindR (assertInLoopThread cur l w) (\<lambda>_.
     bindR (deref (chans w) c) (\<lambda>ch.
     if \<not> ch_registered ch then epollAdd os l c w else epollMod os l c w))"

definition removeChannelMap :: "kernel \<Rightarrow> tid \<Rightarrow> ptr \<Rightarrow> ptr \<Rightarrow> 'z reactor_scheme \<Rightarrow> 'z reactor_scheme res" where
  "removeChannelMap os cur l c w =
     bindR (assertInLoopThread cur l w) (\<lambda>_. epollDel os l c w)"

definition set_revents :: "32 word \<Rightarrow> channel \<Rightarrow> channel" where
  "set_revents ev ch = ch\<lparr>ch_revents := ev\<rparr>"

text \<open>The loop of \<^verbatim>\<open>fillActiveChannels\<close> over the first \<^verbatim>\<open>fdNum\<close> entries of \<^verbatim>\<open>events_\<close>.\<close>

fun fill_loop :: "ptr \<Rightarrow> (int \<times> 32 word) list \<Rightarrow> ptr list \<Rightarrow> 'z reactor_scheme \<Rightarrow> (ptr list \<times> 'z reactor_scheme) res" where
  "fill_loop l [] channelList w = Inr (channelList, w)"
| "fill_loop l ((fd, ev) # evs) channelList w =
     bindR (deref (loops w) l) (\<lambda>lp.
     case ep_channels (el_epoller lp) fd of
       None \<Rightarrow> Inl AssertFailed
     | Some c \<Rightarrow> bindR (deref (chans w) c) (\<lambda>_.
         fill_loop l evs (channelList @ [c]) (upd_chan (set_revents ev) c w)))"

definition fillActiveChannels ::
    "ptr \<Rightarrow> nat \<Rightarrow> (int \<times> 32 word) list \<Rightarrow> ptr list \<Rightarrow> 'z reactor_scheme \<Rightarrow> (ptr list \<times> 'z reactor_scheme) res" where
  "fillActiveChannels l fdNum events channelList w =
     bindR (deref (loops w) l) (\<lambda>lp.
     assertC (fdNum \<le> ep_evsize (el_epoller lp)) (fill_loop l (take fdNum events) channelList w))"

definition Epoller_epoll ::
    "kernel \<Rightarrow> tid \<Rightarrow> ptr \<Rightarrow> int \<Rightarrow> ptr list \<Rightarrow> 'z reactor_scheme \<Rightarrow> (timestamp \<times> ptr list \<times> 'z reactor_scheme) res" where
  "Epoller_epoll os cur l timeoutMs channelList w =
     bindR (assertInLoopThread cur l w) (\<lambda>_.
     bindR (deref (loops w) l) (\<lambda>lp.
     case do_sys os (Sys_epoll_wait (ep_epfd (el_epoller lp)) (ep_evsize (el_epoller lp)) timeoutMs) w of (r, w1) \<Rightarrow>
     case Timestamp_now os w1 of (now, w2) \<Rightarrow>
     if 0 < sr_ret r
     then bindR (fillActiveChannels l (nat (sr_ret r)) (sr_events r) channelList w2) (\<lambda>(chs, w3).
       Inr (now, chs,
         if nat (sr_ret r) = ep_evsize (el_epoller lp)
         then upd_loop (\<lambda>lp. lp\<lparr>el_epoller := (el_epoller lp)\<lparr>ep_evsize := ep_evsize (el_epoller lp) * 2\<rparr>\<rparr>) l w3
         else w3))
     else Inr (now, channelList, w2)))"

section \<open>EventLoop: channel registration\<close>

definition EventLoop_updateChannel ::
    "kernel \<Rightarrow> tid \<Rightarrow> ptr \<Rightarrow> ptr \<Rightarrow> 'z reactor_scheme \<Rightarrow> 'z reactor_scheme res" where
  "EventLoop_updateChannel os cur l c w =
     bindR (deref (chans w) c) (\<lambda>ch.
     assertC (ch_loop ch = l) (
     bindR (assertInLoopThread cur l w) (\<lambda>_. updateChannelMap os cur l c w)))"

definition EventLoop_removeChannel ::
    "kernel \<Rightarrow> tid \<Rightarrow> ptr \<Rightarrow> ptr \<Rightarrow> 'z reactor_scheme \<Rightarrow> 'z reactor_scheme res" where
  "EventLoop_removeChannel os cur l c w =
     bindR (deref (chans w) c) (\<lambda>ch.
     assertC (ch_loop ch = l) (
     bindR (assertInLoopThread cur l w) (\<lambda>_. removeChannelMap os cur l c w)))"

section \<open>Channel\<close>

definition Channel_init :: "ptr \<Rightarrow> int \<Rightarrow> bool \<Rightarrow> channel" where
  "Channel_init l fd enable_et =
     \<lparr>ch_loop = l, ch_fd = fd, ch_enableet = enable_et, ch_registered = False, ch_eventHandling = False,
      ch_events = 0, ch_revents = 0, ch_readCallback = None, ch_writeCallback = None,
      ch_errorCallback = None, ch_closeCallback = None\<rparr>"

definition Channel_new :: "ptr \<Rightarrow> int \<Rightarrow> bool \<Rightarrow> 'z reactor_scheme \<Rightarrow> ptr \<times> 'z reactor_scheme" where
  "Channel_new l fd enable_et w =
     (nextptr w, w\<lparr>chans := (chans w)(nextptr w := Some (Channel_init l fd enable_et)),
                   nextptr := nextptr w + 1\<rparr>)"

definition Channel_delete :: "ptr \<Rightarrow> 'z reactor_scheme \<Rightarrow> 'z reactor_scheme res" where
  "Channel_delete c w =
     bindR (deref (chans w) c) (\<lambda>ch.
     assertC (\<not> ch_eventHandling ch) (Inr (w\<lparr>chans := (chans w)(c := None)\<rparr>)))"

definition Channel_update :: "kernel \<Rightarrow> tid \<Rightarrow> ptr \<Rightarrow> 'z reactor_scheme \<Rightarrow> 'z reactor_scheme res" where
  "Channel_update os cur c w =
     bindR (deref (chans w) c) (\<lambda>ch. EventLoop_updateChannel os cur (ch_loop ch) c w)"

definition set_events :: "32 word \<Rightarrow> channel \<Rightarrow> channel" where
  "set_events ev ch = ch\<lparr>ch_events := ev\<rparr>"

definition enableReading :: "kernel \<Rightarrow> tid \<Rightarrow> ptr \<Rightarrow> 'z reactor_scheme \<Rightarrow> 'z reactor_scheme res" where
  "enableReading os cur c w =
     bindR (deref (chans w) c) (\<lambda>ch.
     let ev = ch_events ch OR kReadEvent;
         ev' = (if ch_enableet ch then ev OR EPOLLET else ev) in
     Channel_update os cur c (upd_chan (set_events ev') c w))"

definition enableWriting :: "kernel \<Rightarrow> tid \<Rightarrow> ptr \<Rightarrow> 'z reactor_scheme \<Rightarrow> 'z reactor_scheme res" where
  "enableWriting os cur c w =
     bindR (deref (chans w) c) (\<lambda>ch.
     Channel_update os cur c (upd_chan (set_events (ch_events ch OR kWriteEvent)) c w))"

definition disableWriting :: "kernel \<Rightarrow> tid \<Rightarrow> ptr \<Rightarrow> 'z reactor_scheme \<Rightarrow> 'z reactor_scheme res" where
  "disableWriting os cur c w =
     bindR (deref (chans w) c) (\<lambda>ch.
     Channel_update os cur c (upd_chan (set_events (ch_events ch AND NOT kWriteEvent)) c w))"

definition disableAll :: "kernel \<Rightarrow> tid \<Rightarrow> ptr \<Rightarrow> 'z reactor_scheme \<Rightarrow> 'z reactor_scheme res" where
  "disableAll os cur c w =
     bindR (deref (chans w) c) (\<lambda>ch.
     Channel_update os cur c (upd_chan (set_events kNoneEvent) c w))"

definition isWriting :: "channel \<Rightarrow> bool" where
  "isWriting ch \<longleftrightarrow> ch_events ch AND kWriteEvent \<noteq> 0"

definition has_flag :: "32 word \<Rightarrow> 32 word \<Rightarrow> bool" where
  "has_flag ev f \<longleftrightarrow> ev AND f \<noteq> 0"

text \<open>A callback runs only if it was set. \<open>run t f\<close> is the meaning of the bound handler \<open>f\<close>, with the
  time that \<^verbatim>\<open>readCallback_\<close> is passed; the other handlers take no argument.\<close>

definition fire :: "(callback \<Rightarrow> 'w \<Rightarrow> 'w res) \<Rightarrow> callback option \<Rightarrow> 'w \<Rightarrow> 'w res" where
  "fire run cb w = (case cb of None \<Rightarrow> Inr w | Some f \<Rightarrow> run f w)"

definition set_handling :: "bool \<Rightarrow> channel \<Rightarrow> channel" where
  "set_handling v ch = ch\<lparr>ch_eventHandling := v\<rparr>"

definition Channel_handleEvent ::
    "(timestamp \<Rightarrow> callback \<Rightarrow> 'z reactor_scheme \<Rightarrow> 'z reactor_scheme res) \<Rightarrow> timestamp \<Rightarrow> ptr \<Rightarrow>
     'z reactor_scheme \<Rightarrow> 'z reactor_scheme res" where
  "Channel_handleEvent run receiveTime c w =
     bindR (deref (chans w) c) (\<lambda>_.
     let w1 = upd_chan (set_handling True) c w in
     bindR (bindR (deref (chans w1) c) (\<lambda>ch.
       if has_flag (ch_revents ch) EPOLLRDHUP \<and> \<not> has_flag (ch_revents ch) EPOLLIN
       then fire (run receiveTime) (ch_closeCallback ch) w1 else Inr w1)) (\<lambda>w2.
     bindR (bindR (deref (chans w2) c) (\<lambda>ch.
       if has_flag (ch_revents ch) EPOLLERR
       then fire (run receiveTime) (ch_errorCallback ch) w2 else Inr w2)) (\<lambda>w3.
     bindR (bindR (deref (chans w3) c) (\<lambda>ch.
       if has_flag (ch_revents ch) (EPOLLIN OR EPOLLPRI OR EPOLLRDHUP)
       then fire (run receiveTime) (ch_readCallback ch) w3 else Inr w3)) (\<lambda>w4.
     bindR (bindR (deref (chans w4) c) (\<lambda>ch.
       if has_flag (ch_revents ch) EPOLLOUT
       then fire (run receiveTime) (ch_writeCallback ch) w4 else Inr w4)) (\<lambda>w5.
     bindR (deref (chans w5) c) (\<lambda>_.
     Inr (upd_chan (set_handling False) c w5)))))))"

section \<open>Registration invariant\<close>

definition ep_lookup :: "'z reactor_scheme \<Rightarrow> ptr \<Rightarrow> int \<Rightarrow> ptr option" where
  "ep_lookup w l fd = (case loops w l of None \<Rightarrow> None | Some lp \<Rightarrow> ep_channels (el_epoller lp) fd)"

definition chan_reg :: "'z reactor_scheme \<Rightarrow> ptr \<Rightarrow> (int \<times> ptr \<times> bool) option" where
  "chan_reg w c = map_option (\<lambda>ch. (ch_fd ch, ch_loop ch, ch_registered ch)) (chans w c)"

definition epoll_inv :: "'z reactor_scheme \<Rightarrow> bool" where
  "epoll_inv w \<longleftrightarrow> (\<forall>l fd c. ep_lookup w l fd = Some c \<longleftrightarrow> chan_reg w c = Some (fd, l, True))"

text \<open>What a call of \<^verbatim>\<open>update()\<close> and of \<^verbatim>\<open>removeChannel\<close> leaves, whatever the kernel answers.\<close>

definition after_update :: "kernel \<Rightarrow> ptr \<Rightarrow> channel \<Rightarrow> eventLoop \<Rightarrow> 'z reactor_scheme \<Rightarrow> 'z reactor_scheme" where
  "after_update os c ch lp w =
     (let epfd = ep_epfd (el_epoller lp);
          add = Sys_epoll_add epfd (ch_fd ch) (ch_events ch);
          md = Sys_epoll_mod epfd (ch_fd ch) (ch_events ch) in
      if ch_registered ch then w\<lparr>trace := trace w @ [(md, os (trace w) md)]\<rparr>
      else if ch_events ch = 0 then w
      else let w1 = w\<lparr>trace := trace w @ [(add, os (trace w) add)]\<rparr> in
        if sr_ret (os (trace w) add) = 0
        then upd_chan (set_registered True) c (upd_loop (set_channel (ch_fd ch) (Some c)) (ch_loop ch) w1)
        else w1)"

definition after_remove :: "kernel \<Rightarrow> ptr \<Rightarrow> channel \<Rightarrow> eventLoop \<Rightarrow> 'z reactor_scheme \<Rightarrow> 'z reactor_scheme" where
  "after_remove os c ch lp w =
     (let del = Sys_epoll_del (ep_epfd (el_epoller lp)) (ch_fd ch);
          w1 = w\<lparr>trace := trace w @ [(del, os (trace w) del)]\<rparr> in
      if sr_ret (os (trace w) del) = 0
      then upd_chan (set_registered False) c (upd_loop (set_channel (ch_fd ch) None) (ch_loop ch) w1)
      else w1)"

lemma word_pos_iff: "0 < (x :: 'a::len word) \<longleftrightarrow> x \<noteq> 0"
  by (simp add: word_gt_0)

lemma Channel_update_Inr_iff:
  assumes "chans w c = Some ch" and "loops w (ch_loop ch) = Some lp"
  shows "Channel_update os cur c w = Inr w' \<longleftrightarrow>
    el_threadId lp = cur \<and>
    ep_channels (el_epoller lp) (ch_fd ch) = (if ch_registered ch then Some c
      else if ch_events ch = 0 then ep_channels (el_epoller lp) (ch_fd ch) else None) \<and>
    w' = after_update os c ch lp w"
  using assms
  by (auto simp: Channel_update_def EventLoop_updateChannel_def updateChannelMap_def
      assertInLoopThread_def abortNotInLoopThread_def isInLoopThread_def epollAdd_def epollMod_def
      after_update_def Let_def word_pos_iff assertC_def)

lemma Channel_update_dead_loop:
  "chans w c = Some ch \<Longrightarrow> loops w (ch_loop ch) = None \<Longrightarrow> Channel_update os cur c w = Inl UseAfterFree"
  by (simp add: Channel_update_def EventLoop_updateChannel_def assertInLoopThread_def)

lemma Channel_update_InrE:
  assumes "Channel_update os cur c w = Inr w'"
  obtains ch lp where "chans w c = Some ch" "loops w (ch_loop ch) = Some lp" "el_threadId lp = cur"
    "ch_registered ch \<longrightarrow> ep_channels (el_epoller lp) (ch_fd ch) = Some c"
    "\<not> ch_registered ch \<longrightarrow> ch_events ch \<noteq> 0 \<longrightarrow> ep_channels (el_epoller lp) (ch_fd ch) = None"
    "w' = after_update os c ch lp w"
proof -
  obtain ch where ch: "chans w c = Some ch"
    using assms by (cases "chans w c") (auto simp: Channel_update_def)
  obtain lp where lp: "loops w (ch_loop ch) = Some lp"
    using assms Channel_update_dead_loop [OF ch] by (cases "loops w (ch_loop ch)") auto
  from assms [unfolded Channel_update_Inr_iff [OF ch lp]] show thesis
    by (intro that [OF ch lp]) (auto split: if_splits)
qed

lemma removeChannel_InrE:
  assumes "EventLoop_removeChannel os cur l c w = Inr w'"
  obtains ch lp where "chans w c = Some ch" "ch_loop ch = l" "loops w l = Some lp" "el_threadId lp = cur"
    "ep_channels (el_epoller lp) (ch_fd ch) = Some c" "ch_events ch = 0" "ch_registered ch"
    "w' = after_remove os c ch lp w"
  using assms
  by (auto simp: EventLoop_removeChannel_def removeChannelMap_def assertInLoopThread_def epollDel_def
      isInLoopThread_def abortNotInLoopThread_def isNoneEvent_def kNoneEvent_def after_remove_def Let_def
      split: if_splits)

lemma set_events_simps [simp]:
  "ch_fd (set_events ev ch) = ch_fd ch" "ch_loop (set_events ev ch) = ch_loop ch"
  "ch_registered (set_events ev ch) = ch_registered ch" "ch_events (set_events ev ch) = ev"
  "ch_revents (set_events ev ch) = ch_revents ch" "ch_eventHandling (set_events ev ch) = ch_eventHandling ch"
  "ch_enableet (set_events ev ch) = ch_enableet ch"
  by (simp_all add: set_events_def)

lemma set_registered_simps [simp]:
  "ch_fd (set_registered v ch) = ch_fd ch" "ch_loop (set_registered v ch) = ch_loop ch"
  "ch_registered (set_registered v ch) = v" "ch_events (set_registered v ch) = ch_events ch"
  "ch_revents (set_registered v ch) = ch_revents ch"
  "ch_eventHandling (set_registered v ch) = ch_eventHandling ch"
  "ch_enableet (set_registered v ch) = ch_enableet ch"
  by (simp_all add: set_registered_def)

lemma set_channel_simps [simp]:
  "ep_channels (el_epoller (set_channel fd c lp)) = (ep_channels (el_epoller lp))(fd := c)"
  "ep_epfd (el_epoller (set_channel fd c lp)) = ep_epfd (el_epoller lp)"
  "ep_evsize (el_epoller (set_channel fd c lp)) = ep_evsize (el_epoller lp)"
  "el_threadId (set_channel fd c lp) = el_threadId lp"
  "el_pending (set_channel fd c lp) = el_pending lp"
  "el_quit (set_channel fd c lp) = el_quit lp"
  "el_calling (set_channel fd c lp) = el_calling lp"
  "el_timerqueue (set_channel fd c lp) = el_timerqueue lp"
  "el_wakeupfd (set_channel fd c lp) = el_wakeupfd lp"
  by (simp_all add: set_channel_def)

lemma epoll_inv_cong:
  "ep_lookup w' = ep_lookup w \<Longrightarrow> chan_reg w' = chan_reg w \<Longrightarrow> epoll_inv w' = epoll_inv w"
  by (simp add: epoll_inv_def)

lemma chan_reg_set_events [simp]: "chan_reg (upd_chan (set_events ev) c w) = chan_reg w"
  by (rule ext) (simp add: chan_reg_def upd_def option.map_comp comp_def)

lemma ep_lookup_upd_chan [simp]: "ep_lookup (upd_chan f c w) = ep_lookup w"
  by (intro ext) (simp add: ep_lookup_def)

lemma epoll_inv_set_events [simp]: "epoll_inv (upd_chan (set_events ev) c w) = epoll_inv w"
  by (rule epoll_inv_cong) simp_all

lemma epoll_inv_trace [simp]: "epoll_inv (w\<lparr>trace := t\<rparr>) = epoll_inv w"
  by (simp add: epoll_inv_def ep_lookup_def chan_reg_def)

lemma ep_lookup_set_channel:
  "loops w l = Some lp \<Longrightarrow> ep_lookup (upd_loop (set_channel fd v) l w) l' fd' =
     (if l' = l \<and> fd' = fd then v else ep_lookup w l' fd')"
  by (simp add: ep_lookup_def upd_def)

lemma chan_reg_set_registered:
  "chans w c = Some ch \<Longrightarrow> chan_reg (upd_chan (set_registered v) c w) c' =
     (if c' = c then Some (ch_fd ch, ch_loop ch, v) else chan_reg w c')"
  by (simp add: chan_reg_def upd_def)

lemma epoll_inv_register:
  assumes "epoll_inv w" "chans w c = Some ch" "loops w (ch_loop ch) = Some lp" "\<not> ch_registered ch"
    "ep_channels (el_epoller lp) (ch_fd ch) = None"
  shows "epoll_inv (upd_chan (set_registered True) c (upd_loop (set_channel (ch_fd ch) (Some c)) (ch_loop ch) w))"
proof -
  have c: "chan_reg w c = Some (ch_fd ch, ch_loop ch, False)"
    using assms by (simp add: chan_reg_def)
  have n: "ep_lookup w (ch_loop ch) (ch_fd ch) = None"
    using assms by (simp add: ep_lookup_def)
  show ?thesis
    unfolding epoll_inv_def
  proof (intro allI)
    fix l fd c'
    have "chan_reg (upd_chan (set_registered True) c (upd_loop (set_channel (ch_fd ch) (Some c)) (ch_loop ch) w)) c'
        = (if c' = c then Some (ch_fd ch, ch_loop ch, True) else chan_reg w c')"
      using assms(2) by (simp add: chan_reg_def upd_def)
    moreover have "ep_lookup w l fd = Some c' \<longleftrightarrow> chan_reg w c' = Some (fd, l, True)"
      using assms(1) by (simp add: epoll_inv_def)
    ultimately show "(ep_lookup (upd_chan (set_registered True) c (upd_loop (set_channel (ch_fd ch) (Some c)) (ch_loop ch) w)) l fd = Some c')
        = (chan_reg (upd_chan (set_registered True) c (upd_loop (set_channel (ch_fd ch) (Some c)) (ch_loop ch) w)) c' = Some (fd, l, True))"
      using c n by (auto simp: ep_lookup_set_channel [OF assms(3)])
  qed
qed

lemma epoll_inv_unregister:
  assumes "epoll_inv w" "chans w c = Some ch" "loops w (ch_loop ch) = Some lp"
    "ep_channels (el_epoller lp) (ch_fd ch) = Some c"
  shows "epoll_inv (upd_chan (set_registered False) c (upd_loop (set_channel (ch_fd ch) None) (ch_loop ch) w))"
    (is "epoll_inv ?w'")
proof -
  have k: "ep_lookup w (ch_loop ch) (ch_fd ch) = Some c"
    using assms by (simp add: ep_lookup_def)
  show ?thesis
    unfolding epoll_inv_def
  proof (intro allI)
    fix l fd c'
    have reg: "chan_reg ?w' c' = (if c' = c then Some (ch_fd ch, ch_loop ch, False) else chan_reg w c')"
      using assms(2) by (simp add: chan_reg_def upd_def)
    have i: "ep_lookup w l fd = Some c' \<longleftrightarrow> chan_reg w c' = Some (fd, l, True)" for l fd c'
      using assms(1) by (simp add: epoll_inv_def)
    have c: "chan_reg w c = Some (ch_fd ch, ch_loop ch, True)" using k i by blast
    show "(ep_lookup ?w' l fd = Some c') = (chan_reg ?w' c' = Some (fd, l, True))"
    proof (cases "l = ch_loop ch \<and> fd = ch_fd ch")
      case True
      have "chan_reg w c' = Some (ch_fd ch, ch_loop ch, True) \<Longrightarrow> c' = c"
        using k i [of "ch_loop ch" "ch_fd ch" c'] by simp
      then show ?thesis
        using True reg by (auto simp: ep_lookup_set_channel [OF assms(3)])
    next
      case False
      then have "ep_lookup ?w' l fd = ep_lookup w l fd"
        by (auto simp: ep_lookup_set_channel [OF assms(3)])
      then show ?thesis
        using False reg c i [of l fd c'] by auto
    qed
  qed
qed

lemma epoll_inv_after_update:
  assumes "epoll_inv w" "chans w c = Some ch" "loops w (ch_loop ch) = Some lp"
    "\<not> ch_registered ch \<longrightarrow> ch_events ch \<noteq> 0 \<longrightarrow> ep_channels (el_epoller lp) (ch_fd ch) = None"
  shows "epoll_inv (after_update os c ch lp w)"
  using assms epoll_inv_register [of "w\<lparr>trace := t\<rparr>" c ch lp for t]
  by (simp add: after_update_def Let_def)

lemma epoll_inv_Channel_update:
  assumes "Channel_update os cur c w = Inr w'" and "epoll_inv w"
  shows "epoll_inv w'"
  using assms(1) by (rule Channel_update_InrE) (use assms(2) epoll_inv_after_update in blast)

lemma epoll_inv_removeChannel:
  assumes "EventLoop_removeChannel os cur l c w = Inr w'" and "epoll_inv w"
  shows "epoll_inv w'"
  using assms(1)
proof (rule removeChannel_InrE)
  fix ch lp
  assume a: "chans w c = Some ch" "ch_loop ch = l" "loops w l = Some lp"
    "ep_channels (el_epoller lp) (ch_fd ch) = Some c" "w' = after_remove os c ch lp w"
  then show "epoll_inv w'"
    using assms(2) epoll_inv_unregister [of "w\<lparr>trace := t\<rparr>" c ch lp for t]
    by (simp add: after_remove_def Let_def)
qed

section \<open>Agreement with the kernel\<close>

text \<open>
  The interest list of an epoll instance, replayed from the answered calls: a successful
  \<^verbatim>\<open>EPOLL_CTL_ADD\<close> or \<^verbatim>\<open>EPOLL_CTL_MOD\<close> sets a descriptor's mask, \<^verbatim>\<open>EPOLL_CTL_DEL\<close> removes it and closing
  the descriptor removes it too.
\<close>

fun interest_step :: "int \<Rightarrow> syscall \<times> sysres \<Rightarrow> (int \<Rightarrow> 32 word option) \<Rightarrow> (int \<Rightarrow> 32 word option)" where
  "interest_step epfd (Sys_epoll_add e fd ev, r) m = (if e = epfd \<and> sr_ret r = 0 then m(fd \<mapsto> ev) else m)"
| "interest_step epfd (Sys_epoll_mod e fd ev, r) m = (if e = epfd \<and> sr_ret r = 0 then m(fd \<mapsto> ev) else m)"
| "interest_step epfd (Sys_epoll_del e fd, r) m = (if e = epfd \<and> sr_ret r = 0 then m(fd := None) else m)"
| "interest_step epfd (Sys_close fd, r) m = (if sr_ret r = 0 then m(fd := None) else m)"
| "interest_step epfd (c, r) m = m"

definition interest :: "int \<Rightarrow> history \<Rightarrow> int \<Rightarrow> 32 word option" where
  "interest epfd h = fold (interest_step epfd) h (\<lambda>_. None)"

lemma interest_snoc [simp]: "interest epfd (h @ [x]) = interest_step epfd x (interest epfd h)"
  by (simp add: interest_def)

text \<open>The masks the program asks for: one per entry of \<^verbatim>\<open>channels_\<close>.\<close>

definition wanted :: "'z reactor_scheme \<Rightarrow> eventLoop \<Rightarrow> int \<Rightarrow> 32 word option" where
  "wanted w lp fd = (case ep_channels (el_epoller lp) fd of None \<Rightarrow> None
     | Some c \<Rightarrow> map_option ch_events (chans w c))"

definition epoll_synced :: "ptr \<Rightarrow> 'z reactor_scheme \<Rightarrow> bool" where
  "epoll_synced l w \<longleftrightarrow> (\<forall>lp. loops w l = Some lp \<longrightarrow>
     interest (ep_epfd (el_epoller lp)) (trace w) = wanted w lp)"

definition epoll_ctl_ok :: "kernel \<Rightarrow> bool" where
  "epoll_ctl_ok os \<longleftrightarrow> (\<forall>h e fd ev. sr_ret (os h (Sys_epoll_add e fd ev)) = 0 \<and>
     sr_ret (os h (Sys_epoll_mod e fd ev)) = 0 \<and> sr_ret (os h (Sys_epoll_del e fd)) = 0)"

text \<open>Changing a channel's mask and calling \<^verbatim>\<open>update()\<close> restores the agreement.\<close>

lemma other_fd:
  assumes "epoll_inv w" "loops w l = Some lp" "ep_channels (el_epoller lp) fd = Some c" "chans w c = Some ch"
  shows "ch_fd ch = fd" "ch_loop ch = l" "ch_registered ch"
proof -
  have "ep_lookup w l fd = Some c" using assms by (simp add: ep_lookup_def)
  then have "chan_reg w c = Some (fd, l, True)" using assms(1) by (simp add: epoll_inv_def)
  with assms(4) show "ch_fd ch = fd" "ch_loop ch = l" "ch_registered ch" by (simp_all add: chan_reg_def)
qed

lemma wanted_trace [simp]: "wanted (w\<lparr>trace := t\<rparr>) lp = wanted w lp"
  by (rule ext) (simp add: wanted_def split: option.split)

lemma wanted_upd_loop [simp]: "wanted (upd_loop f l w) lp = wanted w lp"
  by (rule ext) (simp add: wanted_def split: option.split)

lemma wanted_set_registered [simp]: "wanted (upd_chan (set_registered v) c w) lp = wanted w lp"
  by (rule ext) (simp add: wanted_def upd_def option.map_comp comp_def split: option.split)

lemma wanted_set_channel:
  "wanted w (set_channel fd v lp) =
     (wanted w lp)(fd := (case v of None \<Rightarrow> None | Some c \<Rightarrow> map_option ch_events (chans w c)))"
  by (rule ext) (simp add: wanted_def)

lemma wanted_set_events:
  assumes "epoll_inv w" "chans w c = Some ch" "loops w (ch_loop ch) = Some lp"
  shows "wanted (upd_chan (set_events ev) c w) lp =
    (if ep_channels (el_epoller lp) (ch_fd ch) = Some c then (wanted w lp)(ch_fd ch \<mapsto> ev) else wanted w lp)"
proof (rule ext)
  fix fd
  have "ep_channels (el_epoller lp) fd = Some c \<Longrightarrow> fd = ch_fd ch"
    using other_fd(1) [OF assms(1,3) _ assms(2)] by simp
  then show "wanted (upd_chan (set_events ev) c w) lp fd =
    (if ep_channels (el_epoller lp) (ch_fd ch) = Some c then (wanted w lp)(ch_fd ch \<mapsto> ev) else wanted w lp) fd"
    using assms(2) by (cases "ep_channels (el_epoller lp) fd") (auto simp: wanted_def upd_def)
qed

lemma epoll_synced_set_events:
  assumes inv: "epoll_inv w" and sync: "epoll_synced l w" and ok: "epoll_ctl_ok os"
    and ch: "chans w c = Some ch" and l: "ch_loop ch = l"
    and run: "Channel_update os cur c (upd_chan (set_events ev) c w) = Inr w'"
  shows "epoll_synced l w'"
  using run
proof (rule Channel_update_InrE)
  fix ch' lp
  assume a: "chans (upd_chan (set_events ev) c w) c = Some ch'"
    "loops (upd_chan (set_events ev) c w) (ch_loop ch') = Some lp"
    "ch_registered ch' \<longrightarrow> ep_channels (el_epoller lp) (ch_fd ch') = Some c"
    "\<not> ch_registered ch' \<longrightarrow> ch_events ch' \<noteq> 0 \<longrightarrow> ep_channels (el_epoller lp) (ch_fd ch') = None"
    "w' = after_update os c ch' lp (upd_chan (set_events ev) c w)"
  have ch': "ch' = set_events ev ch" using a(1) ch by simp
  have lp: "loops w l = Some lp" using a(2) l by (simp add: ch')
  have k: "interest (ep_epfd (el_epoller lp)) (trace w) = wanted w lp"
    using sync lp by (simp add: epoll_synced_def)
  have reg: "ch_registered ch \<longleftrightarrow> ep_channels (el_epoller lp) (ch_fd ch) = Some c"
    using a(3) other_fd(3) [OF inv lp _ ch] by (auto simp: ch')
  have want: "wanted (upd_chan (set_events ev) c w) lp =
      (if ch_registered ch then (wanted w lp)(ch_fd ch \<mapsto> ev) else wanted w lp)"
    using wanted_set_events [OF inv ch] lp l reg by simp
  consider "ch_registered ch" | "\<not> ch_registered ch" "ev = 0" | "\<not> ch_registered ch" "ev \<noteq> 0" by blast
  then show "epoll_synced l w'"
  proof cases
    case 1
    then show ?thesis
      using lp ok k want a(5)
      by (simp add: epoll_synced_def after_update_def ch' Let_def epoll_ctl_ok_def)
  next
    case 2
    then show ?thesis
      using lp k want a(5) by (simp add: epoll_synced_def after_update_def ch' Let_def)
  next
    case 3
    then have none: "ep_channels (el_epoller lp) (ch_fd ch) = None" using a(4) by (simp add: ch')
    let ?add = "Sys_epoll_add (ep_epfd (el_epoller lp)) (ch_fd ch) ev"
    have ret: "sr_ret (os (trace w) ?add) = 0" using ok by (simp add: epoll_ctl_ok_def)
    have w': "w' = upd_chan (set_registered True) c (upd_loop (set_channel (ch_fd ch) (Some c)) l
        (upd_chan (set_events ev) c w\<lparr>trace := trace w @ [(?add, os (trace w) ?add)]\<rparr>))"
      using 3 a(5) ret l by (simp add: after_update_def ch' Let_def)
    have "wanted w' (set_channel (ch_fd ch) (Some c) lp) = (wanted w lp)(ch_fd ch \<mapsto> ev)"
      using ch 3 want by (simp add: w' wanted_set_channel)
    moreover have "interest (ep_epfd (el_epoller lp)) (trace w') = (wanted w lp)(ch_fd ch \<mapsto> ev)"
      using ret k by (simp add: w')
    moreover have "loops w' l = Some (set_channel (ch_fd ch) (Some c) lp)"
      using lp by (simp add: w')
    ultimately show ?thesis by (simp add: epoll_synced_def)
  qed
qed


lemma epoll_synced_removeChannel:
  assumes inv: "epoll_inv w" and sync: "epoll_synced l w" and ok: "epoll_ctl_ok os"
    and run: "EventLoop_removeChannel os cur l c w = Inr w'"
  shows "epoll_synced l w'"
  using run
proof (rule removeChannel_InrE)
  fix ch lp
  assume a: "chans w c = Some ch" "ch_loop ch = l" "loops w l = Some lp" "w' = after_remove os c ch lp w"
  let ?del = "Sys_epoll_del (ep_epfd (el_epoller lp)) (ch_fd ch)"
  have ret: "sr_ret (os (trace w) ?del) = 0" using ok by (simp add: epoll_ctl_ok_def)
  have w': "w' = upd_chan (set_registered False) c (upd_loop (set_channel (ch_fd ch) None) l
      (w\<lparr>trace := trace w @ [(?del, os (trace w) ?del)]\<rparr>))"
    using a ret by (simp add: after_remove_def Let_def)
  have "interest (ep_epfd (el_epoller lp)) (trace w') = (wanted w lp)(ch_fd ch := None)"
    using sync a(3) ret by (simp add: w' epoll_synced_def)
  moreover have "wanted w' (set_channel (ch_fd ch) None lp) = (wanted w lp)(ch_fd ch := None)"
    by (simp add: w' wanted_set_channel)
  moreover have "loops w' l = Some (set_channel (ch_fd ch) None lp)" using a(3) by (simp add: w')
  ultimately show "epoll_synced l w'" by (simp add: epoll_synced_def)
qed

section \<open>Runs of channel operations\<close>

text \<open>The operations through which the rest of the program changes registrations, on one loop.\<close>

datatype chan_op =
    NewChannel int bool
  | EnableReading ptr
  | EnableWriting ptr
  | DisableWriting ptr
  | DisableAll ptr
  | RemoveChannel ptr

fun chan_op_run :: "kernel \<Rightarrow> tid \<Rightarrow> ptr \<Rightarrow> chan_op \<Rightarrow> 'z reactor_scheme \<Rightarrow> 'z reactor_scheme res" where
  "chan_op_run os cur l (NewChannel fd et) w = Inr (snd (Channel_new l fd et w))"
| "chan_op_run os cur l (EnableReading c) w = enableReading os cur c w"
| "chan_op_run os cur l (EnableWriting c) w = enableWriting os cur c w"
| "chan_op_run os cur l (DisableWriting c) w = disableWriting os cur c w"
| "chan_op_run os cur l (DisableAll c) w = disableAll os cur c w"
| "chan_op_run os cur l (RemoveChannel c) w = EventLoop_removeChannel os cur l c w"

definition fresh_ptrs :: "'z reactor_scheme \<Rightarrow> bool" where
  "fresh_ptrs w \<longleftrightarrow> (\<forall>p \<ge> nextptr w. chans w p = None)"

definition all_on_loop :: "ptr \<Rightarrow> 'z reactor_scheme \<Rightarrow> bool" where
  "all_on_loop l w \<longleftrightarrow> (\<forall>c ch. chans w c = Some ch \<longrightarrow> ch_loop ch = l)"

text \<open>Every operation that changes a mask is \<^verbatim>\<open>events_ = ev; update()\<close> for some \<open>ev\<close>.\<close>

lemma mask_op_cases:
  assumes "enableReading os cur c w = Inr w' \<or> enableWriting os cur c w = Inr w' \<or>
    disableWriting os cur c w = Inr w' \<or> disableAll os cur c w = Inr w'"
  obtains ch ev where "chans w c = Some ch" "Channel_update os cur c (upd_chan (set_events ev) c w) = Inr w'"
  using assms
  by (auto simp: enableReading_def enableWriting_def disableWriting_def disableAll_def Let_def)

lemma Channel_new_state:
  "snd (Channel_new l fd et w) = w\<lparr>chans := (chans w)(nextptr w := Some (Channel_init l fd et)), nextptr := nextptr w + 1\<rparr>"
  by (simp add: Channel_new_def)

lemma chan_reg_new:
  "chan_reg (snd (Channel_new l fd et w)) c = (if c = nextptr w then Some (fd, l, False) else chan_reg w c)"
  by (simp add: Channel_new_state chan_reg_def Channel_init_def)

lemma epoll_inv_Channel_new:
  assumes "epoll_inv w" "fresh_ptrs w"
  shows "epoll_inv (snd (Channel_new l fd et w))"
proof -
  have "chan_reg w (nextptr w) = None" using assms(2) by (simp add: fresh_ptrs_def chan_reg_def)
  moreover have "ep_lookup (snd (Channel_new l fd et w)) = ep_lookup w"
    by (intro ext) (simp add: ep_lookup_def Channel_new_state)
  ultimately show ?thesis using assms(1) by (simp add: epoll_inv_def chan_reg_new)
qed

lemma epoll_synced_Channel_new:
  assumes "epoll_inv w" "fresh_ptrs w" "epoll_synced l w"
  shows "epoll_synced l (snd (Channel_new l' fd et w))"
proof -
  have "wanted (snd (Channel_new l' fd et w)) lp = wanted w lp" if lp: "loops w l = Some lp" for lp
  proof (rule ext)
    fix fd'
    have "ep_channels (el_epoller lp) fd' \<noteq> Some (nextptr w)"
    proof
      assume "ep_channels (el_epoller lp) fd' = Some (nextptr w)"
      with lp have "ep_lookup w l fd' = Some (nextptr w)" by (simp add: ep_lookup_def)
      then have "chan_reg w (nextptr w) = Some (fd', l, True)"
        using assms(1) by (simp add: epoll_inv_def)
      then show False using assms(2) by (simp add: fresh_ptrs_def chan_reg_def)
    qed
    then show "wanted (snd (Channel_new l' fd et w)) lp fd' = wanted w lp fd'"
      by (simp add: wanted_def Channel_new_state split: option.split)
  qed
  then show ?thesis using assms(3) by (simp add: epoll_synced_def Channel_new_state)
qed

lemma after_update_frame:
  "nextptr (after_update os c ch lp w) = nextptr w"
  "chans (after_update os c ch lp w) p = None \<longleftrightarrow> chans w p = None"
  "map_option ch_loop (chans (after_update os c ch lp w) p) = map_option ch_loop (chans w p)"
  by (auto simp: after_update_def Let_def upd_def option.map_comp comp_def)

lemma after_remove_frame:
  "nextptr (after_remove os c ch lp w) = nextptr w"
  "chans (after_remove os c ch lp w) p = None \<longleftrightarrow> chans w p = None"
  "map_option ch_loop (chans (after_remove os c ch lp w) p) = map_option ch_loop (chans w p)"
  by (auto simp: after_remove_def Let_def upd_def option.map_comp comp_def)

lemma all_on_loop_alt: "all_on_loop l w \<longleftrightarrow> (\<forall>c. map_option ch_loop (chans w c) \<in> {None, Some l})"
  unfolding all_on_loop_def by (rule iff_allI) (auto split: option.splits)

definition dispatch_inv :: "ptr \<Rightarrow> 'z reactor_scheme \<Rightarrow> bool" where
  "dispatch_inv l w \<longleftrightarrow> epoll_inv w \<and> fresh_ptrs w \<and> all_on_loop l w"

lemma map_option_loop_set_events:
  "map_option ch_loop (upd (set_events ev) c m p) = map_option ch_loop (m p)"
  by (simp add: upd_def option.map_comp comp_def)

lemma dispatch_inv_set_events:
  assumes "dispatch_inv l w" "Channel_update os cur c (upd_chan (set_events ev) c w) = Inr w'"
  shows "dispatch_inv l w'"
proof -
  have "epoll_inv w'"
    using epoll_inv_Channel_update [OF assms(2)] assms(1) by (simp add: dispatch_inv_def)
  moreover obtain ch lp where "w' = after_update os c ch lp (upd_chan (set_events ev) c w)"
    using assms(2) by (rule Channel_update_InrE)
  ultimately show ?thesis
    using assms(1)
    by (simp add: dispatch_inv_def fresh_ptrs_def all_on_loop_alt after_update_frame map_option_loop_set_events)
qed

lemma dispatch_inv_removeChannel:
  assumes "dispatch_inv l w" "EventLoop_removeChannel os cur l c w = Inr w'"
  shows "dispatch_inv l w'"
proof -
  have "epoll_inv w'"
    using epoll_inv_removeChannel [OF assms(2)] assms(1) by (simp add: dispatch_inv_def)
  moreover obtain ch lp where "w' = after_remove os c ch lp w"
    using assms(2) by (rule removeChannel_InrE)
  ultimately show ?thesis
    using assms(1) by (simp add: dispatch_inv_def fresh_ptrs_def all_on_loop_alt after_remove_frame)
qed

lemma dispatch_inv_Channel_new: "dispatch_inv l w \<Longrightarrow> dispatch_inv l (snd (Channel_new l fd et w))"
  using epoll_inv_Channel_new [of w l fd et]
  by (auto simp: dispatch_inv_def fresh_ptrs_def all_on_loop_def Channel_new_state Channel_init_def)

lemma chan_op_mask:
  assumes "chan_op_run os cur l x w = Inr w'"
  obtains (new) fd et where "w' = snd (Channel_new l fd et w)"
    | (mask) c ch ev where "chans w c = Some ch" "Channel_update os cur c (upd_chan (set_events ev) c w) = Inr w'"
    | (remove) c where "EventLoop_removeChannel os cur l c w = Inr w'"
proof (cases x)
  case (NewChannel fd et)
  then show thesis using assms new [of fd et] by simp
next
  case (RemoveChannel c)
  then show thesis using assms remove by simp
next
  case (EnableReading c)
  then show thesis using assms mask by (auto intro: mask_op_cases [of os cur c w w'])
next
  case (EnableWriting c)
  then show thesis using assms mask by (auto intro: mask_op_cases [of os cur c w w'])
next
  case (DisableWriting c)
  then show thesis using assms mask by (auto intro: mask_op_cases [of os cur c w w'])
next
  case (DisableAll c)
  then show thesis using assms mask by (auto intro: mask_op_cases [of os cur c w w'])
qed

lemma chan_op_dispatch_inv:
  assumes "dispatch_inv l w" "chan_op_run os cur l x w = Inr w'"
  shows "dispatch_inv l w'"
  using assms(2)
  by (cases rule: chan_op_mask)
    (use assms(1) in \<open>auto intro: dispatch_inv_Channel_new dispatch_inv_set_events dispatch_inv_removeChannel\<close>)

lemma chan_op_synced:
  assumes "dispatch_inv l w" "epoll_synced l w" "epoll_ctl_ok os" "chan_op_run os cur l x w = Inr w'"
  shows "epoll_synced l w'"
  using assms(4)
proof (cases rule: chan_op_mask)
  case new
  then show ?thesis using assms(1,2) by (simp add: epoll_synced_Channel_new dispatch_inv_def)
next
  case (mask c ch ev)
  have "epoll_inv w" "ch_loop ch = l"
    using assms(1) mask(1) by (auto simp: dispatch_inv_def all_on_loop_def)
  then show ?thesis using epoll_synced_set_events mask assms(2,3) by blast
next
  case (remove c)
  then show ?thesis using assms(1-3) epoll_synced_removeChannel dispatch_inv_def by blast
qed

section \<open>Polling\<close>

lemma set_revents_simps [simp]:
  "ch_fd (set_revents ev ch) = ch_fd ch" "ch_loop (set_revents ev ch) = ch_loop ch"
  "ch_registered (set_revents ev ch) = ch_registered ch" "ch_events (set_revents ev ch) = ch_events ch"
  "ch_revents (set_revents ev ch) = ev" "ch_eventHandling (set_revents ev ch) = ch_eventHandling ch"
  by (simp_all add: set_revents_def)

definition deliver :: "(int \<Rightarrow> ptr option) \<Rightarrow> int \<times> 32 word \<Rightarrow> 'z reactor_scheme \<Rightarrow> 'z reactor_scheme" where
  "deliver m e w = upd_chan (set_revents (snd e)) (the (m (fst e))) w"

lemma fill_loop_delivers:
  assumes "loops w l = Some lp" and "m = ep_channels (el_epoller lp)"
    and "\<And>e. e \<in> set evs \<Longrightarrow> \<exists>c. m (fst e) = Some c \<and> chans w c \<noteq> None"
  shows "fill_loop l evs chs w = Inr (chs @ map (\<lambda>e. the (m (fst e))) evs, fold (deliver m) evs w)"
  using assms(1,3)
proof (induction evs arbitrary: chs w)
  case (Cons e evs)
  obtain fd ev where e: "e = (fd, ev)" by fastforce
  obtain c where c: "m fd = Some c" "chans w c \<noteq> None" using Cons.prems(2) [of e] e by auto
  let ?w = "upd_chan (set_revents ev) c w"
  have "fill_loop l evs (chs @ [c]) ?w = Inr ((chs @ [c]) @ map (\<lambda>e. the (m (fst e))) evs, fold (deliver m) evs ?w)"
    using Cons.prems by (intro Cons.IH) auto
  moreover have "deliver m e w = ?w" by (simp add: deliver_def e c)
  ultimately show ?case using c Cons.prems(1) assms(2) by (auto simp: e)
qed simp

lemma fold_deliver_loops [simp]: "loops (fold (deliver m) evs w) = loops w"
  by (induction evs arbitrary: w) (simp_all add: deliver_def)

lemma fold_deliver_other:
  "c \<notin> (\<lambda>e. the (m (fst e))) ` set evs \<Longrightarrow> chans (fold (deliver m) evs w) c = chans w c"
  by (induction evs arbitrary: w) (auto simp: deliver_def)

lemma fold_deliver_revents:
  assumes "distinct (map (\<lambda>e. the (m (fst e))) evs)" "e \<in> set evs"
  shows "chans (fold (deliver m) evs w) (the (m (fst e))) = map_option (set_revents (snd e)) (chans w (the (m (fst e))))"
  using assms
proof (induction evs arbitrary: w)
  case (Cons a evs)
  show ?case
  proof (cases "e = a")
    case True
    have "the (m (fst a)) \<notin> (\<lambda>e. the (m (fst e))) ` set evs" using Cons.prems(1) by simp
    then show ?thesis using True by (simp add: fold_deliver_other) (simp add: deliver_def)
  next
    case False
    then have e: "e \<in> set evs" using Cons.prems(2) by simp
    then have "the (m (fst e)) \<noteq> the (m (fst a))" using Cons.prems(1) by (force simp: image_iff)
    then show ?thesis using Cons e by (simp add: deliver_def)
  qed
qed simp

lemma registered_inj:
  assumes "epoll_inv w" "loops w l = Some lp" "m = ep_channels (el_epoller lp)" "fst ` set evs \<subseteq> dom m"
    "distinct (map fst evs)"
  shows "distinct (map (\<lambda>e. the (m (fst e))) evs)"
proof -
  have "inj_on (\<lambda>fd. the (m fd)) (dom m)"
  proof (rule inj_onI)
    fix x y assume "x \<in> dom m" "y \<in> dom m" and eq: "the (m x) = the (m y)"
    then obtain c where "m x = Some c" "m y = Some c" by auto
    then have "ep_lookup w l x = Some c" "ep_lookup w l y = Some c" using assms by (auto simp: ep_lookup_def)
    then have "chan_reg w c = Some (x, l, True)" "chan_reg w c = Some (y, l, True)"
      using assms(1) by (simp_all add: epoll_inv_def)
    then show "x = y" by simp
  qed
  then have "inj_on (\<lambda>fd. the (m fd)) (set (map fst evs))" using assms(4) by (auto intro: inj_on_subset)
  then have "distinct (map (\<lambda>fd. the (m fd)) (map fst evs))" using assms(5) by (simp only: distinct_map simp_thms)
  then show ?thesis by (simp add: comp_def)
qed

lemma wanted_dom:
  assumes "epoll_inv w" "loops w l = Some lp" "fd \<in> dom (wanted w lp)"
  shows "\<exists>c. ep_channels (el_epoller lp) fd = Some c \<and> chans w c \<noteq> None"
  using assms(3) by (auto simp: wanted_def split: option.splits)

section \<open>Registering a new channel\<close>

definition read_mask :: "channel \<Rightarrow> 32 word" where
  "read_mask ch = (if ch_enableet ch then kReadEvent OR EPOLLET else kReadEvent)"

definition listening :: "channel \<Rightarrow> channel" where
  "listening ch = set_registered True (set_events (read_mask ch) ch)"

lemma enableReading_new:
  assumes "chans w c = Some ch" "ch_events ch = 0" "\<not> ch_registered ch"
    and lp: "loops w (ch_loop ch) = Some lp" "el_threadId lp = cur" "ep_channels (el_epoller lp) (ch_fd ch) = None"
    and os: "epoll_ctl_ok os"
  shows "\<exists>r. enableReading os cur c w =
    Inr ((upd_chan listening c (upd_loop (set_channel (ch_fd ch) (Some c)) (ch_loop ch) w))\<lparr>trace :=
      trace w @ [(Sys_epoll_add (ep_epfd (el_epoller lp)) (ch_fd ch) (read_mask ch), r)]\<rparr>)"
proof -
  let ?ch = "set_events (read_mask ch) ch" and ?w = "upd_chan (set_events (read_mask ch)) c w"
  have w: "chans ?w c = Some ?ch" "loops ?w (ch_loop ?ch) = Some lp" using assms by simp_all
  have ev: "read_mask ch \<noteq> 0" by (simp add: read_mask_def kReadEvent_def epoll_flags)
  have "Channel_update os cur c ?w = Inr (after_update os c ?ch lp ?w)"
    using Channel_update_Inr_iff [OF w, of os cur] assms by simp
  moreover have "after_update os c ?ch lp ?w =
      (upd_chan listening c (upd_loop (set_channel (ch_fd ch) (Some c)) (ch_loop ch) w))\<lparr>trace :=
        trace w @ [(Sys_epoll_add (ep_epfd (el_epoller lp)) (ch_fd ch) (read_mask ch),
          os (trace w) (Sys_epoll_add (ep_epfd (el_epoller lp)) (ch_fd ch) (read_mask ch)))]\<rparr>"
    using assms(1-3) os ev
    by (cases w) (simp add: after_update_def Let_def epoll_ctl_ok_def listening_def upd_chan_def upd_loop_def upd_def)
  moreover have "enableReading os cur c w = Channel_update os cur c ?w"
    using assms(1,2) by (simp add: enableReading_def read_mask_def)
  ultimately show ?thesis by auto
qed

section \<open>Sample worlds\<close>

text \<open>
  A kernel that answers every call with the same result, and a reactor with one loop at address 0 that
  belongs to thread 7. They instantiate the parameters in the concrete checks.
\<close>

definition no_addr :: sockaddr_in where
  "no_addr = \<lparr>sin_family = 0, sin_port = 0, s_addr = 0\<rparr>"

definition answer :: "int \<Rightarrow> (int \<times> 32 word) list \<Rightarrow> sysres" where
  "answer r evs = \<lparr>sr_ret = r, sr_errno = 0, sr_data = [], sr_events = evs, sr_addr = no_addr, sr_usec = 0, sr_optval = 0\<rparr>"

definition quiet_kernel :: kernel where
  "quiet_kernel h c = answer 0 []"

definition loop0 :: eventLoop where
  "loop0 = \<lparr>el_looping = False, el_quit = False, el_calling = False, el_wakeupfd = 3, el_threadId = 7,
     el_epollReturnTime = Timestamp 0,
     el_epoller = \<lparr>ep_epfd = 4, ep_channels = (\<lambda>_. None), ep_evsize = 16\<rparr>,
     el_timerqueue = \<lparr>tq_timerfd = 5, tq_timerfdchannel = 1, tq_timerlist = []\<rparr>,
     el_wakeupchannel = 2, el_channellist = [], el_pending = []\<rparr>"

definition world0 :: reactor where
  "world0 = \<lparr>trace = [], chans = (\<lambda>_. None), loops = [0 \<mapsto> loop0], timers = (\<lambda>_. None), nextptr = 1,
     numCreated = 0, thisThreadEventLoop = [7 \<mapsto> 0]\<rparr>"

lemmas sample_defs = no_addr_def answer_def quiet_kernel_def loop0_def world0_def

lemma dispatch_inv_world0: "dispatch_inv 0 world0"
  by (simp add: dispatch_inv_def epoll_inv_def fresh_ptrs_def all_on_loop_def ep_lookup_def chan_reg_def sample_defs)

lemma epoll_synced_world0: "epoll_synced 0 world0"
  by (rule epoll_synced_def [THEN iffD2]) (auto simp: interest_def wanted_def sample_defs)

lemma quiet_kernel_ctl_ok: "epoll_ctl_ok quiet_kernel"
  by (simp add: epoll_ctl_ok_def sample_defs)

section \<open>Properties\<close>

text \<open>(C5) Any sequence of channel creations, interest changes and removals that does not stop the program
  keeps every loop's \<^verbatim>\<open>channels_\<close> map equal to the set of registered channels, whatever \<^verbatim>\<open>epoll_ctl\<close>
  answers; and if \<^verbatim>\<open>epoll_ctl\<close> succeeds, the kernel's interest list keeps holding exactly the masks
  of the registered channels.\<close>

theorem channel_ops_registered:
  assumes "dispatch_inv l w" and "foldR (chan_op_run os cur l) ops w = Inr w'"
  shows "epoll_inv w' \<and> (epoll_ctl_ok os \<and> epoll_synced l w \<longrightarrow> epoll_synced l w')"
proof (intro conjI impI)
  show "epoll_inv w'"
    using foldR_invariant [OF assms(2), of "dispatch_inv l"] assms(1) chan_op_dispatch_inv
      dispatch_inv_def by blast
  assume "epoll_ctl_ok os \<and> epoll_synced l w"
  then show "epoll_synced l w'"
    using foldR_invariant [OF assms(2), of "\<lambda>w. dispatch_inv l w \<and> epoll_synced l w"] assms(1)
      chan_op_dispatch_inv chan_op_synced by blast
qed

definition sample_ops :: "chan_op list" where
  "sample_ops = [NewChannel 9 False, EnableReading 1, EnableWriting 1, DisableAll 1, RemoveChannel 1]"

lemma sample_ops_run: "\<exists>w'. foldR (chan_op_run quiet_kernel 7 0) sample_ops world0 = Inr w' \<and> length (trace w') = 4"
  by (simp add: sample_ops_def Channel_new_def Channel_init_def enableReading_def enableWriting_def disableAll_def
      Channel_update_def EventLoop_updateChannel_def EventLoop_removeChannel_def updateChannelMap_def
      removeChannelMap_def assertInLoopThread_def isInLoopThread_def epollAdd_def epollMod_def epollDel_def
      isNoneEvent_def kNoneEvent_def kReadEvent_def kWriteEvent_def epoll_flags Let_def sample_defs
      upd_def word_pos_iff)

theorem channel_ops_registered_witness:
  "\<exists>w'. foldR (chan_op_run quiet_kernel 7 0) sample_ops world0 = Inr w' \<and> length (trace w') = 4 \<and>
     epoll_inv w' \<and> epoll_synced 0 w'"
  using sample_ops_run channel_ops_registered [OF dispatch_inv_world0, of quiet_kernel 7 sample_ops]
    epoll_synced_world0 quiet_kernel_ctl_ok by blast

text \<open>(C9) When the kernel reports at most \<^verbatim>\<open>events_.size()\<close> distinct descriptors of its interest list, as
  \<^verbatim>\<open>epoll_wait\<close> documents, \<^verbatim>\<open>Epoller::epoll\<close> returns the channels of exactly those descriptors in order and
  stores each reported mask in its channel; the lookup assertion never fails.\<close>

theorem epoll_delivers:
  assumes inv: "epoll_inv w" and sync: "epoll_synced l w" and lp: "loops w l = Some lp" and thr: "el_threadId lp = cur"
    and r: "r = os (trace w) (Sys_epoll_wait (ep_epfd (el_epoller lp)) (ep_evsize (el_epoller lp)) timeoutMs)"
    and n: "sr_ret r = int (length (sr_events r))" "length (sr_events r) \<le> ep_evsize (el_epoller lp)"
    and fds: "distinct (map fst (sr_events r))"
      "fst ` set (sr_events r) \<subseteq> dom (interest (ep_epfd (el_epoller lp)) (trace w))"
  shows "\<exists>now w'. Epoller_epoll os cur l timeoutMs [] w =
      Inr (now, map (\<lambda>e. the (ep_channels (el_epoller lp) (fst e))) (sr_events r), w') \<and>
    (\<forall>e \<in> set (sr_events r). \<exists>ch. chans w' (the (ep_channels (el_epoller lp) (fst e))) = Some ch \<and>
      ch_fd ch = fst e \<and> ch_revents ch = snd e)"
proof -
  let ?m = "ep_channels (el_epoller lp)"
  let ?w2 = "snd (Timestamp_now os (snd (do_sys os (Sys_epoll_wait (ep_epfd (el_epoller lp)) (ep_evsize (el_epoller lp)) timeoutMs) w)))"
  let ?w3 = "fold (deliver ?m) (sr_events r) ?w2"
  have want: "interest (ep_epfd (el_epoller lp)) (trace w) = wanted w lp"
    using sync lp by (simp add: epoll_synced_def)
  have reg: "\<exists>c. ?m (fst e) = Some c \<and> chans w c \<noteq> None" if "e \<in> set (sr_events r)" for e
    using wanted_dom [OF inv lp, of "fst e"] fds(2) that want by (auto simp: image_subset_iff)
  then have dist: "distinct (map (\<lambda>e. the (?m (fst e))) (sr_events r))"
    using registered_inj [OF inv lp refl _ fds(1)] by fastforce
  have fill: "fill_loop l (sr_events r) [] ?w2 = Inr (map (\<lambda>e. the (?m (fst e))) (sr_events r), ?w3)"
    using fill_loop_delivers [of ?w2 l lp ?m "sr_events r" "[]"] lp reg by simp
  have run: "\<exists>now. Epoller_epoll os cur l timeoutMs [] w = Inr (now, map (\<lambda>e. the (?m (fst e))) (sr_events r), w')"
    if w': "w' = (if sr_ret r > 0 \<and> nat (sr_ret r) = ep_evsize (el_epoller lp)
        then upd_loop (\<lambda>lp. lp\<lparr>el_epoller := (el_epoller lp)\<lparr>ep_evsize := ep_evsize (el_epoller lp) * 2\<rparr>\<rparr>) l ?w3 else ?w3)" for w'
    using lp thr n fill unfolding w'
    by (auto simp: Epoller_epoll_def assertInLoopThread_def isInLoopThread_def fillActiveChannels_def Timestamp_now_def
        r [symmetric] Let_def)
  have "\<exists>ch. chans ?w3 (the (?m (fst e))) = Some ch \<and> ch_fd ch = fst e \<and> ch_revents ch = snd e"
    if e: "e \<in> set (sr_events r)" for e
  proof -
    obtain c ch where c: "?m (fst e) = Some c" "chans w c = Some ch" using reg [OF e] by auto
    then have "ch_fd ch = fst e" using other_fd(1) [OF inv lp] by blast
    then show ?thesis using fold_deliver_revents [OF dist e, of ?w2] c by simp
  qed
  then show ?thesis using run [OF refl] by (auto split: if_splits)
qed

definition reporting_kernel :: kernel where
  "reporting_kernel h c = (case c of Sys_epoll_wait _ _ _ \<Rightarrow> answer 1 [(9, EPOLLIN)] | _ \<Rightarrow> answer 0 [])"

definition chan9 :: channel where
  "chan9 = (Channel_init 0 9 False)\<lparr>ch_registered := True, ch_events := kReadEvent,
     ch_readCallback := Some (User_cb 1), ch_closeCallback := Some (User_cb 2)\<rparr>"

definition world9 :: reactor where
  "world9 = world0\<lparr>chans := [1 \<mapsto> chan9], nextptr := 2,
     loops := [0 \<mapsto> set_channel 9 (Some 1) loop0],
     trace := [(Sys_epoll_add 4 9 kReadEvent, answer 0 [])]\<rparr>"

lemma epoll_inv_world9: "epoll_inv world9"
  by (auto simp: epoll_inv_def ep_lookup_def chan_reg_def world9_def chan9_def Channel_init_def sample_defs
      set_channel_def split: if_splits)

lemma epoll_synced_world9: "epoll_synced 0 world9"
  by (rule epoll_synced_def [THEN iffD2])
    (auto simp: interest_def wanted_def world9_def chan9_def sample_defs set_channel_def fun_eq_iff)

theorem epoll_delivers_witness:
  "\<exists>now w'. Epoller_epoll reporting_kernel 7 0 100 [] world9 = Inr (now, [1], w') \<and>
     map_option ch_revents (chans w' 1) = Some EPOLLIN"
proof -
  let ?lp = "set_channel 9 (Some 1) loop0"
  have r: "reporting_kernel (trace world9) (Sys_epoll_wait (ep_epfd (el_epoller ?lp)) (ep_evsize (el_epoller ?lp)) 100)
      = answer 1 [(9, EPOLLIN)]"
    by (simp add: reporting_kernel_def)
  have lp: "loops world9 0 = Some ?lp" "el_threadId ?lp = 7" "ep_epfd (el_epoller ?lp) = 4" "ep_evsize (el_epoller ?lp) = 16"
    "ep_channels (el_epoller ?lp) 9 = Some 1" "interest 4 (trace world9) = [9 \<mapsto> kReadEvent]"
    by (simp_all add: world9_def loop0_def set_channel_def interest_def answer_def)
  have a: "sr_ret (answer 1 [(9, EPOLLIN)]) = 1" "sr_events (answer 1 [(9, EPOLLIN)]) = [(9, EPOLLIN)]"
    by (simp_all add: answer_def)
  have "\<exists>now w'. Epoller_epoll reporting_kernel 7 0 100 [] world9 =
      Inr (now, map (\<lambda>e. the (ep_channels (el_epoller ?lp) (fst e))) (sr_events (answer 1 [(9, EPOLLIN)])), w') \<and>
    (\<forall>e \<in> set (sr_events (answer 1 [(9, EPOLLIN)])). \<exists>ch. chans w' (the (ep_channels (el_epoller ?lp) (fst e))) = Some ch \<and>
      ch_fd ch = fst e \<and> ch_revents ch = snd e)"
    by (rule epoll_delivers [where os = reporting_kernel, OF epoll_inv_world9 epoll_synced_world9 lp(1,2) r [symmetric]])
      (simp_all add: a lp(6) loop0_def)
  then show ?thesis by (force simp: a lp(5))
qed

end
