(* ===== verification/Event_Loop.thy ===== *)
theory Event_Loop
  imports Event_Dispatch
begin

text \<open>
  The task queue and the loop of \<^verbatim>\<open>EventLoop\<close> (src/reactor/EventLoop.cc): \<^verbatim>\<open>queueInLoop\<close>, \<^verbatim>\<open>runInLoop\<close>,
  \<^verbatim>\<open>wakeup\<close>, \<^verbatim>\<open>quit\<close>, \<^verbatim>\<open>handleRead\<close>, \<^verbatim>\<open>doPendingFunctions\<close> and \<^verbatim>\<open>loop\<close>.

  \<open>run_task\<close> gives the meaning of a queued task and \<open>run_cb\<close> the meaning of a channel callback; later
  theories instantiate them. \<open>cur\<close> is the calling thread. \<^verbatim>\<open>loop()\<close> may run forever: it is defined by
  \<open>partial_function (option)\<close>, and the results about it state that it returns.
\<close>

section \<open>Operations\<close>

definition kPollTimeMs :: int where
  "kPollTimeMs = 10000"

text \<open>The eight bytes of \<^verbatim>\<open>uint64_t one = 1\<close> in memory.\<close>

definition one_bytes :: "byte list" where
  "one_bytes = map char_of [1, 0, 0, 0, 0, 0, 0, 0 :: nat]"

definition wakeup :: "kernel \<Rightarrow> ptr \<Rightarrow> 'z reactor_scheme \<Rightarrow> 'z reactor_scheme res" where
  "wakeup os l w =
     bindR (deref (loops w) l) (\<lambda>lp. Inr (snd (do_sys os (Sys_write (el_wakeupfd lp) one_bytes) w)))"

definition push_pending :: "task \<Rightarrow> eventLoop \<Rightarrow> eventLoop" where
  "push_pending f lp = lp\<lparr>el_pending := el_pending lp @ [f]\<rparr>"

text \<open>The condition under which \<^verbatim>\<open>queueInLoop\<close> writes to the eventfd.\<close>

definition queue_wakes :: "bool \<Rightarrow> bool \<Rightarrow> bool" where
  "queue_wakes inLoop calling \<longleftrightarrow> inLoop \<or> calling"

definition queueInLoop :: "kernel \<Rightarrow> tid \<Rightarrow> ptr \<Rightarrow> task \<Rightarrow> 'z reactor_scheme \<Rightarrow> 'z reactor_scheme res" where
  "queueInLoop os cur l cb w =
     bindR (deref (loops w) l) (\<lambda>lp.
     let w1 = upd_loop (push_pending cb) l w in
     if queue_wakes (isInLoopThread cur lp) (el_calling lp) then wakeup os l w1 else Inr w1)"

definition runInLoop ::
    "kernel \<Rightarrow> (task \<Rightarrow> 'z reactor_scheme \<Rightarrow> 'z reactor_scheme res) \<Rightarrow> tid \<Rightarrow> ptr \<Rightarrow> task \<Rightarrow>
     'z reactor_scheme \<Rightarrow> 'z reactor_scheme res" where
  "runInLoop os run_task cur l cb w =
     bindR (deref (loops w) l) (\<lambda>lp.
     if isInLoopThread cur lp then run_task cb w else queueInLoop os cur l cb w)"

definition set_quit :: "bool \<Rightarrow> eventLoop \<Rightarrow> eventLoop" where
  "set_quit v lp = lp\<lparr>el_quit := v\<rparr>"

definition EventLoop_quit :: "kernel \<Rightarrow> tid \<Rightarrow> ptr \<Rightarrow> 'z reactor_scheme \<Rightarrow> 'z reactor_scheme res" where
  "EventLoop_quit os cur l w =
     bindR (deref (loops w) l) (\<lambda>lp.
     let w1 = upd_loop (set_quit True) l w in
     if \<not> isInLoopThread cur lp then wakeup os l w1 else Inr w1)"

definition EventLoop_handleRead :: "kernel \<Rightarrow> ptr \<Rightarrow> 'z reactor_scheme \<Rightarrow> 'z reactor_scheme res" where
  "EventLoop_handleRead os l w =
     bindR (deref (loops w) l) (\<lambda>lp. Inr (snd (do_sys os (Sys_read (el_wakeupfd lp) 8) w)))"

definition swap_pending :: "eventLoop \<Rightarrow> eventLoop" where
  "swap_pending lp = lp\<lparr>el_calling := True, el_pending := []\<rparr>"

definition end_calling :: "eventLoop \<Rightarrow> eventLoop" where
  "end_calling lp = lp\<lparr>el_calling := False\<rparr>"

definition doPendingFunctions ::
    "(task \<Rightarrow> 'z reactor_scheme \<Rightarrow> 'z reactor_scheme res) \<Rightarrow> ptr \<Rightarrow> 'z reactor_scheme \<Rightarrow> 'z reactor_scheme res" where
  "doPendingFunctions run_task l w =
     bindR (deref (loops w) l) (\<lambda>lp.
     bindR (foldR run_task (el_pending lp) (upd_loop swap_pending l w)) (\<lambda>w1.
     bindR (deref (loops w1) l) (\<lambda>_. Inr (upd_loop end_calling l w1))))"

text \<open>The body of the \<^verbatim>\<open>while\<close> of \<^verbatim>\<open>loop()\<close>.\<close>

definition loop_body ::
    "kernel \<Rightarrow> (timestamp \<Rightarrow> callback \<Rightarrow> 'z reactor_scheme \<Rightarrow> 'z reactor_scheme res) \<Rightarrow>
     (task \<Rightarrow> 'z reactor_scheme \<Rightarrow> 'z reactor_scheme res) \<Rightarrow> tid \<Rightarrow> ptr \<Rightarrow>
     'z reactor_scheme \<Rightarrow> 'z reactor_scheme res" where
  "loop_body os run_cb run_task cur l w =
     bindR (Epoller_epoll os cur l kPollTimeMs [] (upd_loop (\<lambda>lp. lp\<lparr>el_channellist := []\<rparr>) l w)) (\<lambda>(now, chs, w1).
     let w2 = upd_loop (\<lambda>lp. lp\<lparr>el_epollReturnTime := now, el_channellist := chs\<rparr>) l w1 in
     bindR (foldR (Channel_handleEvent run_cb now) chs w2) (doPendingFunctions run_task l))"

partial_function (option) while_not_quit ::
    "('z reactor_scheme \<Rightarrow> 'z reactor_scheme res) \<Rightarrow> ptr \<Rightarrow> 'z reactor_scheme \<Rightarrow> 'z reactor_scheme res option" where
  "while_not_quit body l w =
     (case loops w l of
        None \<Rightarrow> Some (Inl UseAfterFree)
      | Some lp \<Rightarrow>
          if el_quit lp then Some (Inr w)
          else (case body w of Inl e \<Rightarrow> Some (Inl e) | Inr w1 \<Rightarrow> while_not_quit body l w1))"

definition set_looping :: "bool \<Rightarrow> eventLoop \<Rightarrow> eventLoop" where
  "set_looping v lp = lp\<lparr>el_looping := v\<rparr>"

definition EventLoop_loop ::
    "kernel \<Rightarrow> (timestamp \<Rightarrow> callback \<Rightarrow> 'z reactor_scheme \<Rightarrow> 'z reactor_scheme res) \<Rightarrow>
     (task \<Rightarrow> 'z reactor_scheme \<Rightarrow> 'z reactor_scheme res) \<Rightarrow> tid \<Rightarrow> ptr \<Rightarrow>
     'z reactor_scheme \<Rightarrow> 'z reactor_scheme res option" where
  "EventLoop_loop os run_cb run_task cur l w =
     (case assertInLoopThread cur l w of
        Inl e \<Rightarrow> Some (Inl e)
      | Inr _ \<Rightarrow>
          map_option (\<lambda>r. bindR r (\<lambda>w1. bindR (deref (loops w1) l) (\<lambda>_. Inr (upd_loop (set_looping False) l w1))))
            (while_not_quit (loop_body os run_cb run_task cur l) l
              (upd_loop (set_quit False \<circ> set_looping True) l w)))"

section \<open>Lemmas\<close>

lemma push_pending_simps [simp]:
  "el_pending (push_pending f lp) = el_pending lp @ [f]" "el_threadId (push_pending f lp) = el_threadId lp"
  "el_calling (push_pending f lp) = el_calling lp" "el_wakeupfd (push_pending f lp) = el_wakeupfd lp"
  "el_quit (push_pending f lp) = el_quit lp" "el_epoller (push_pending f lp) = el_epoller lp"
  "el_timerqueue (push_pending f lp) = el_timerqueue lp" "el_looping (push_pending f lp) = el_looping lp"
  by (simp_all add: push_pending_def)

lemma swap_pending_simps [simp]:
  "el_pending (swap_pending lp) = []" "el_threadId (swap_pending lp) = el_threadId lp"
  "el_calling (swap_pending lp)" "el_wakeupfd (swap_pending lp) = el_wakeupfd lp"
  "el_quit (swap_pending lp) = el_quit lp" "el_epoller (swap_pending lp) = el_epoller lp"
  by (simp_all add: swap_pending_def)

lemma end_calling_simps [simp]:
  "el_pending (end_calling lp) = el_pending lp" "el_threadId (end_calling lp) = el_threadId lp"
  "\<not> el_calling (end_calling lp)" "el_wakeupfd (end_calling lp) = el_wakeupfd lp"
  "el_quit (end_calling lp) = el_quit lp" "el_epoller (end_calling lp) = el_epoller lp"
  by (simp_all add: end_calling_def)

lemma queueInLoop_eq:
  assumes "loops w l = Some lp"
  shows "queueInLoop os cur l f w = Inr (
    let w1 = upd_loop (push_pending f) l w; c = Sys_write (el_wakeupfd lp) one_bytes in
    if el_threadId lp = cur \<or> el_calling lp then w1\<lparr>trace := trace w @ [(c, os (trace w) c)]\<rparr> else w1)"
  using assms by (simp add: queueInLoop_def wakeup_def Let_def isInLoopThread_def queue_wakes_def)

lemma runInLoop_in_thread:
  "loops w l = Some lp \<Longrightarrow> el_threadId lp = cur \<Longrightarrow> runInLoop os run_task cur l f w = run_task f w"
  by (simp add: runInLoop_def isInLoopThread_def)

lemma runInLoop_foreign:
  "loops w l = Some lp \<Longrightarrow> el_threadId lp \<noteq> cur \<Longrightarrow> runInLoop os run_task cur l f w = queueInLoop os cur l f w"
  by (simp add: runInLoop_def isInLoopThread_def)

section \<open>Rounds of tasks\<close>

text \<open>
  A specification of the executor: in a round every waiting task runs once, in the order it was
  queued; what tasks queue while they run waits for the next round.
\<close>

fun rounds :: "(task \<Rightarrow> task list) \<Rightarrow> nat \<Rightarrow> task list \<Rightarrow> task list \<times> task list" where
  "rounds spawn 0 ts = ([], ts)"
| "rounds spawn (Suc n) ts =
     (case rounds spawn n (concat (map spawn ts)) of (executed, rest) \<Rightarrow> (ts @ executed, rest))"

fun iterate :: "nat \<Rightarrow> ('s \<Rightarrow> 's res) \<Rightarrow> 's \<Rightarrow> 's res" where
  "iterate 0 f s = Inr s"
| "iterate (Suc n) f s = bindR (f s) (iterate n f)"

text \<open>A program of tasks in which task \<open>f\<close> queues the tasks \<open>spawn f\<close>, logging what runs in \<open>executed\<close>.\<close>

record logged_reactor = reactor +
  executed :: "task list"

definition spawning :: "kernel \<Rightarrow> tid \<Rightarrow> ptr \<Rightarrow> (task \<Rightarrow> task list) \<Rightarrow> task \<Rightarrow> logged_reactor \<Rightarrow> logged_reactor res" where
  "spawning os cur l spawn f w = foldR (queueInLoop os cur l) (spawn f) (w\<lparr>executed := executed w @ [f]\<rparr>)"

lemma ran_upd_loop [simp]: "executed (upd_loop f l w) = executed w"
  by (simp add: upd_loop_def)

lemma queue_all:
  assumes "loops w l = Some lp"
  shows "\<exists>w'. foldR (queueInLoop os cur l) fs w = Inr w' \<and> executed w' = executed w \<and>
    (\<exists>lp'. loops w' l = Some lp' \<and> el_pending lp' = el_pending lp @ fs \<and> el_calling lp' = el_calling lp)"
  using assms
proof (induction fs arbitrary: w lp)
  case Nil
  then show ?case by simp
next
  case (Cons f fs)
  obtain w1 where w1: "queueInLoop os cur l f w = Inr w1" and "executed w1 = executed w" "loops w1 l = Some (push_pending f lp)"
    using queueInLoop_eq [OF Cons.prems, of os cur f] Cons.prems by (auto simp: Let_def)
  with Cons.IH [of w1 "push_pending f lp"] show ?case by auto
qed

lemma spawning_all:
  assumes "loops w l = Some lp"
  shows "\<exists>w'. foldR (spawning os cur l spawn) ts w = Inr w' \<and> executed w' = executed w @ ts \<and>
    (\<exists>lp'. loops w' l = Some lp' \<and> el_pending lp' = el_pending lp @ concat (map spawn ts))"
  using assms
proof (induction ts arbitrary: w lp)
  case Nil
  then show ?case by simp
next
  case (Cons f ts)
  have "loops (w\<lparr>executed := executed w @ [f]\<rparr>) l = Some lp" using Cons.prems by simp
  from queue_all [OF this, of os cur "spawn f"] obtain w1 lp1 where
    w1: "spawning os cur l spawn f w = Inr w1" "executed w1 = executed w @ [f]" "loops w1 l = Some lp1"
      "el_pending lp1 = el_pending lp @ spawn f"
    by (auto simp: spawning_def)
  with Cons.IH [of w1 lp1] show ?case by auto
qed

lemma round_spawning:
  assumes "loops w l = Some lp"
  shows "\<exists>w' lp'. doPendingFunctions (spawning os cur l spawn) l w = Inr w' \<and> loops w' l = Some lp' \<and>
    executed w' = executed w @ el_pending lp \<and> el_pending lp' = concat (map spawn (el_pending lp)) \<and> \<not> el_calling lp'"
proof -
  have "loops (upd_loop swap_pending l w) l = Some (swap_pending lp)" using assms by simp
  from spawning_all [OF this, of os cur spawn "el_pending lp"] assms show ?thesis
    by (auto simp: doPendingFunctions_def)
qed

text \<open>(C10) For any program of tasks that queue further tasks, \<open>n\<close> rounds of \<^verbatim>\<open>doPendingFunctions\<close> run the
  tasks the specification \<open>rounds\<close> prescribes: every task queued before a round runs in it exactly
  once and in queueing order, and tasks queued during a round are deferred to the next one, so a
  task that queues itself cannot keep a round from ending.\<close>

theorem doPendingFunctions_rounds:
  assumes "loops w l = Some lp"
  shows "\<exists>w' lp'. iterate n (doPendingFunctions (spawning os cur l spawn) l) w = Inr w' \<and>
    loops w' l = Some lp' \<and> (executed w', el_pending lp') = apfst (\<lambda>r. executed w @ r) (rounds spawn n (el_pending lp))"
  using assms
proof (induction n arbitrary: w lp)
  case 0
  then show ?case by simp
next
  case (Suc n)
  obtain w1 lp1 where r: "doPendingFunctions (spawning os cur l spawn) l w = Inr w1" "loops w1 l = Some lp1"
    "executed w1 = executed w @ el_pending lp" "el_pending lp1 = concat (map spawn (el_pending lp))"
    using round_spawning [OF Suc.prems] by blast
  show ?case using Suc.IH [OF r(2)] r by (auto simp: case_prod_beta apfst_def map_prod_def)
qed

definition logged_world0 :: logged_reactor where
  "logged_world0 = reactor.extend
     (world0\<lparr>loops := [0 \<mapsto> loop0\<lparr>el_pending := [UserTask 0, UserTask 1]\<rparr>]\<rparr>) \<lparr>executed = []\<rparr>"

theorem doPendingFunctions_rounds_witness:
  "\<exists>w' lp'. iterate 2 (doPendingFunctions (spawning quiet_kernel 7 0 (\<lambda>f. if f = UserTask 0 then [f] else [])) 0)
     logged_world0 = Inr w' \<and> loops w' 0 = Some lp' \<and>
     executed w' = [UserTask 0, UserTask 1, UserTask 0] \<and> el_pending lp' = [UserTask 0]"
proof -
  have "loops logged_world0 0 = Some (loop0\<lparr>el_pending := [UserTask 0, UserTask 1]\<rparr>)"
    by (simp add: logged_world0_def reactor.defs world0_def)
  from doPendingFunctions_rounds [OF this, of 2 quiet_kernel 7 "\<lambda>f. if f = UserTask 0 then [f] else []"]
  show ?thesis by (simp add: logged_world0_def reactor.defs world0_def numeral_2_eq_2)
qed

section \<open>The loop\<close>

lemma set_quit_simps [simp]:
  "el_quit (set_quit v lp) = v" "el_pending (set_quit v lp) = el_pending lp"
  "el_threadId (set_quit v lp) = el_threadId lp" "el_epoller (set_quit v lp) = el_epoller lp"
  "el_wakeupfd (set_quit v lp) = el_wakeupfd lp" "el_calling (set_quit v lp) = el_calling lp"
  by (simp_all add: set_quit_def)

lemma set_looping_simps [simp]:
  "el_quit (set_looping v lp) = el_quit lp" "el_pending (set_looping v lp) = el_pending lp"
  "el_threadId (set_looping v lp) = el_threadId lp" "el_epoller (set_looping v lp) = el_epoller lp"
  "el_wakeupfd (set_looping v lp) = el_wakeupfd lp" "el_looping (set_looping v lp) = v"
  by (simp_all add: set_looping_def)

lemma upd_upd: "upd f p (upd g p m) = upd (f \<circ> g) p m"
  by (rule ext) (simp add: upd_def option.map_comp)

lemma upd_loop_upd_loop: "upd_loop f l (upd_loop g l w) = upd_loop (f \<circ> g) l w"
  by (simp add: upd_loop_def upd_upd)

lemma upd_loop_trace: "upd_loop f l (w\<lparr>trace := t\<rparr>) = (upd_loop f l w)\<lparr>trace := t\<rparr>"
  by (simp add: upd_loop_def)

text \<open>\<^verbatim>\<open>loop()\<close> clears \<^verbatim>\<open>quit_\<close> when it starts, so a \<^verbatim>\<open>quit()\<close> that ran before it, in any thread, has no
  effect beyond its wake-up call: the loop then behaves as if \<^verbatim>\<open>quit()\<close> had not been called.\<close>

theorem quit_before_loop_is_lost:
  assumes "EventLoop_quit os thr l w = Inr w'"
  shows "EventLoop_loop os run_cb run_task cur l w' = EventLoop_loop os run_cb run_task cur l (w\<lparr>trace := trace w'\<rparr>)"
proof -
  obtain lp where lp: "loops w l = Some lp" using assms by (auto simp: EventLoop_quit_def)
  have w': "w' = (upd_loop (set_quit True) l w)\<lparr>trace := trace w'\<rparr>"
    using assms lp by (auto simp: EventLoop_quit_def wakeup_def Let_def split: if_splits)
  have "set_quit False \<circ> set_looping True \<circ> set_quit True = set_quit False \<circ> set_looping True"
    by (rule ext) (simp add: set_quit_def set_looping_def)
  then have "upd_loop (set_quit False \<circ> set_looping True) l w' =
      upd_loop (set_quit False \<circ> set_looping True) l (w\<lparr>trace := trace w'\<rparr>)"
    by (subst w') (simp only: upd_loop_trace upd_loop_upd_loop)
  moreover have "assertInLoopThread cur l w' = assertInLoopThread cur l (w\<lparr>trace := trace w'\<rparr>)"
    by (subst w') (simp add: assertInLoopThread_def isInLoopThread_def lp)
  ultimately show ?thesis by (simp only: EventLoop_loop_def)
qed

theorem quit_before_loop_is_lost_witness:
  "\<exists>w'. EventLoop_quit quiet_kernel 8 0 world0 = Inr w' \<and> map_option el_quit (loops w' 0) = Some True \<and>
     EventLoop_loop quiet_kernel (\<lambda>_ _. Inr) (\<lambda>_. Inr) 7 0 w' =
     EventLoop_loop quiet_kernel (\<lambda>_ _. Inr) (\<lambda>_. Inr) 7 0 (world0\<lparr>trace := trace w'\<rparr>)"
proof -
  obtain w' where "EventLoop_quit quiet_kernel 8 0 world0 = Inr w'" "map_option el_quit (loops w' 0) = Some True"
    by (auto simp: EventLoop_quit_def wakeup_def world0_def loop0_def isInLoopThread_def Let_def)
  then show ?thesis using quit_before_loop_is_lost [of quiet_kernel 8 0 world0 w'] by blast
qed

section \<open>Waking the loop\<close>

text \<open>
  The loop thread and any number of other threads as interleaved steps. \<open>wk_wakes\<close> counts threads that
  have queued a task and are about to call \<^verbatim>\<open>wakeup()\<close>; \<open>wk_counter\<close> is the eventfd counter that
  \<^verbatim>\<open>epoll_wait\<close> watches. The condition of \<^verbatim>\<open>queueInLoop\<close> is the parameter \<open>cond\<close>, so that the condition of
  the code and the one its comment describes can be compared.
\<close>

datatype loop_phase = Polling | Handling | Calling "task list"

record wakeup_state =
  wk_pending :: "task list"
  wk_wakes :: nat
  wk_counter :: nat
  wk_phase :: loop_phase

definition wk_init :: wakeup_state where
  "wk_init = \<lparr>wk_pending = [], wk_wakes = 0, wk_counter = 0, wk_phase = Polling\<rparr>"

definition is_calling :: "loop_phase \<Rightarrow> bool" where
  "is_calling ph \<longleftrightarrow> (case ph of Calling _ \<Rightarrow> True | _ \<Rightarrow> False)"

inductive wk_step :: "(bool \<Rightarrow> bool \<Rightarrow> bool) \<Rightarrow> wakeup_state \<Rightarrow> wakeup_state \<Rightarrow> bool" for cond where
  foreign_queue: "wk_step cond s (s\<lparr>wk_pending := wk_pending s @ [f],
     wk_wakes := wk_wakes s + of_bool (cond False (is_calling (wk_phase s)))\<rparr>)"
| loop_queue: "wk_phase s \<noteq> Polling \<Longrightarrow> wk_step cond s (s\<lparr>wk_pending := wk_pending s @ [f],
     wk_counter := wk_counter s + of_bool (cond True (is_calling (wk_phase s)))\<rparr>)"
| do_wakeup: "0 < wk_wakes s \<Longrightarrow> wk_step cond s (s\<lparr>wk_wakes := wk_wakes s - 1, wk_counter := wk_counter s + 1\<rparr>)"
| poll_ready: "wk_phase s = Polling \<Longrightarrow> 0 < wk_counter s \<Longrightarrow> wk_step cond s (s\<lparr>wk_counter := 0, wk_phase := Handling\<rparr>)"
| poll_other: "wk_phase s = Polling \<Longrightarrow> wk_counter s = 0 \<Longrightarrow> wk_step cond s (s\<lparr>wk_phase := Handling\<rparr>)"
| swap: "wk_phase s = Handling \<Longrightarrow> wk_step cond s (s\<lparr>wk_phase := Calling (wk_pending s), wk_pending := []\<rparr>)"
| call: "wk_phase s = Calling (f # fs) \<Longrightarrow> wk_step cond s (s\<lparr>wk_phase := Calling fs\<rparr>)"
| end_call: "wk_phase s = Calling [] \<Longrightarrow> wk_step cond s (s\<lparr>wk_phase := Polling\<rparr>)"

abbreviation wk_reachable :: "(bool \<Rightarrow> bool \<Rightarrow> bool) \<Rightarrow> wakeup_state \<Rightarrow> bool" where
  "wk_reachable cond \<equiv> (wk_step cond)\<^sup>*\<^sup>* wk_init"

text \<open>A task waits while the loop sleeps in \<^verbatim>\<open>epoll_wait\<close> and nothing is going to wake it.\<close>

definition asleep_with_work :: "wakeup_state \<Rightarrow> bool" where
  "asleep_with_work s \<longleftrightarrow> wk_phase s = Polling \<and> wk_pending s \<noteq> [] \<and> wk_counter s = 0 \<and> wk_wakes s = 0"

definition wk_inv :: "wakeup_state \<Rightarrow> bool" where
  "wk_inv s \<longleftrightarrow> (wk_phase s = Polling \<or> is_calling (wk_phase s) \<longrightarrow> wk_pending s \<noteq> [] \<longrightarrow> 0 < wk_counter s + wk_wakes s)"

lemma wk_inv_step:
  assumes "wk_step cond s s'" "wk_inv s" and "\<And>c. cond False c" "cond True True"
  shows "wk_inv s'"
  using assms by (induction rule: wk_step.induct) (auto simp: wk_inv_def is_calling_def split: loop_phase.splits)

lemma wk_inv_reachable:
  assumes "wk_reachable cond s" and "\<And>c. cond False c" "cond True True"
  shows "wk_inv s"
  using assms(1)
proof (induction rule: rtranclp_induct)
  case base
  then show ?case by (simp add: wk_inv_def wk_init_def)
next
  case (step y z)
  then show ?case using wk_inv_step assms(2,3) by blast
qed

lemma foreign_then_asleep:
  assumes "\<not> cond False False"
  shows "wk_reachable cond (wk_init\<lparr>wk_pending := [f]\<rparr>)"
proof -
  have "wk_step cond wk_init (wk_init\<lparr>wk_pending := [f]\<rparr>)"
    using wk_step.foreign_queue [of cond wk_init f] assms by (simp add: wk_init_def is_calling_def)
  then show ?thesis by (rule r_into_rtranclp)
qed

text \<open>(C26) With the condition of the code, \<^verbatim>\<open>isInLoopThread() || callingdoPendingFunctions_\<close>, a task queued by
  another thread while the loop polls leaves the loop asleep with work; with the condition its comment
  describes (wake when not in the loop thread, or while pending tasks run) no reachable
  interleaving does.\<close>

theorem foreign_task_sleeps:
  "(\<exists>s. wk_reachable queue_wakes s \<and> asleep_with_work s) \<and>
   (\<forall>s. wk_reachable (\<lambda>inLoop calling. \<not> inLoop \<or> calling) s \<longrightarrow> \<not> asleep_with_work s)"
proof (intro conjI allI impI)
  have "asleep_with_work (wk_init\<lparr>wk_pending := [UserTask 0]\<rparr>)"
    by (simp add: asleep_with_work_def wk_init_def)
  then show "\<exists>s. wk_reachable queue_wakes s \<and> asleep_with_work s"
    using foreign_then_asleep [of queue_wakes "UserTask 0"] by (auto simp: queue_wakes_def)
  fix s assume "wk_reachable (\<lambda>inLoop calling. \<not> inLoop \<or> calling) s"
  then have "wk_inv s" by (rule wk_inv_reachable) auto
  then show "\<not> asleep_with_work s" by (auto simp: wk_inv_def asleep_with_work_def)
qed

theorem foreign_task_sleeps_witness:
  "wk_reachable (\<lambda>inLoop calling. \<not> inLoop \<or> calling) wk_init \<and> \<not> asleep_with_work wk_init"
  using foreign_task_sleeps by blast

text \<open>\<^verbatim>\<open>queueInLoop\<close> always appends the task; it writes to the eventfd exactly when the caller is the loop's
  own thread or tasks are being run. In particular a call from another thread to an idle loop makes
  no system call at all.\<close>

theorem queueInLoop_wakes_iff:
  assumes "loops w l = Some lp"
  shows "\<exists>w'. queueInLoop os cur l f w = Inr w' \<and> loops w' l = Some (push_pending f lp) \<and>
    chans w' = chans w \<and>
    trace w' = trace w @ (if el_threadId lp = cur \<or> el_calling lp
      then [(Sys_write (el_wakeupfd lp) one_bytes, os (trace w) (Sys_write (el_wakeupfd lp) one_bytes))] else [])"
  using assms by (simp add: queueInLoop_eq Let_def)

theorem queueInLoop_wakes_iff_witness:
  "\<exists>w'. queueInLoop quiet_kernel 8 0 (UserTask 1) world0 = Inr w' \<and> trace w' = [] \<and>
     map_option el_pending (loops w' 0) = Some [UserTask 1]"
proof -
  have lp: "loops world0 0 = Some loop0" "el_threadId loop0 \<noteq> 8" "\<not> el_calling loop0" "trace world0 = []" "el_pending loop0 = []"
    by (simp_all add: world0_def loop0_def)
  show ?thesis using queueInLoop_wakes_iff [OF lp(1), of quiet_kernel 8 "UserTask 1"] lp(2-5) by auto
qed

end
