(* ===== verification/Atomic.thy ===== *)
theory Atomic
  imports Prelude
begin

text \<open>
  \<^verbatim>\<open>AtomicIntegerT\<close> (src/thread/Atomic.h). Each operation is one atomic step on the stored word, which wraps
  around at its width; it returns the result and the new stored value.
\<close>

section \<open>Operations\<close>

definition atomic_new :: "'a::len word" where
  "atomic_new = 0"

definition compare_and_swap :: "'a::len word \<Rightarrow> 'a word \<Rightarrow> 'a word \<Rightarrow> 'a word \<times> 'a word" where
  "compare_and_swap old new v = (v, if v = old then new else v)"

definition atomic_get :: "'a::len word \<Rightarrow> 'a word \<times> 'a word" where
  "atomic_get v = compare_and_swap 0 0 v"

definition getAndAdd :: "'a::len word \<Rightarrow> 'a word \<Rightarrow> 'a word \<times> 'a word" where
  "getAndAdd x v = (v, v + x)"

definition addAndGet :: "'a::len word \<Rightarrow> 'a word \<Rightarrow> 'a word \<times> 'a word" where
  "addAndGet x v = (case getAndAdd x v of (r, v') \<Rightarrow> (r + x, v'))"

definition incrementAndGet :: "'a::len word \<Rightarrow> 'a word \<times> 'a word" where
  "incrementAndGet v = addAndGet 1 v"

definition atomic_add :: "'a::len word \<Rightarrow> 'a word \<Rightarrow> 'a word" where
  "atomic_add x v = snd (getAndAdd x v)"

definition increment :: "'a::len word \<Rightarrow> 'a word" where
  "increment v = snd (incrementAndGet v)"

definition decrement :: "'a::len word \<Rightarrow> 'a word" where
  "decrement v = snd (getAndAdd (- 1) v)"

definition decrementAndGet :: "'a::len word \<Rightarrow> 'a word \<times> 'a word" where
  "decrementAndGet v = getAndAdd (- 1) v"

definition getAndSet :: "'a::len word \<Rightarrow> 'a word \<Rightarrow> 'a word \<times> 'a word" where
  "getAndSet newValue v = (v, newValue)"

lemmas atomic_defs = atomic_new_def compare_and_swap_def atomic_get_def getAndAdd_def addAndGet_def
  incrementAndGet_def atomic_add_def increment_def decrement_def decrementAndGet_def getAndSet_def

lemma incrementAndGet_eq [simp]: "incrementAndGet v = (v + 1, v + 1)"
  by (simp add: atomic_defs)

section \<open>Sequences of calls\<close>

text \<open>
  The results of \<open>n\<close> calls of \<^verbatim>\<open>incrementAndGet\<close> in the order the steps take effect. Which thread makes
  which call does not matter: every interleaving is such a sequence.
\<close>

fun tickets :: "nat \<Rightarrow> 'a::len word \<Rightarrow> 'a word list \<times> 'a word" where
  "tickets 0 v = ([], v)"
| "tickets (Suc n) v = (case incrementAndGet v of (r, v1) \<Rightarrow>
     case tickets n v1 of (rs, v2) \<Rightarrow> (r # rs, v2))"

lemma tickets_eq: "tickets n v = (map (\<lambda>i. v + of_nat i) [1..<n + 1], v + of_nat n)"
proof (induction n arbitrary: v)
  case (Suc n)
  have "[1..<Suc n + 1] = 1 # map Suc [1..<n + 1]"
    by (simp add: map_Suc_upt upt_conv_Cons)
  then show ?case by (simp add: Suc.IH comp_def add.assoc)
qed simp

lemma of_nat_inj_bound:
  "i < 2 ^ LENGTH('a) \<Longrightarrow> j < 2 ^ LENGTH('a) \<Longrightarrow> (of_nat i :: 'a::len word) = of_nat j \<longleftrightarrow> i = j"
  by (simp add: word_of_nat_eq_iff take_bit_nat_eq_self)

text \<open>Fewer than \<open>2 ^ w\<close> calls of \<^verbatim>\<open>incrementAndGet\<close> on a \<open>w\<close>-bit counter, by any threads in any order,
  return pairwise different values, the last of which is the counter's value: the sequence numbers
  of timers are unique.\<close>

theorem incrementAndGet_unique:
  assumes "n < 2 ^ LENGTH('a::len)"
  shows "distinct (fst (tickets n (v :: 'a word))) \<and> length (fst (tickets n v)) = n \<and>
    snd (tickets n v) = v + of_nat n"
proof -
  have "inj_on (\<lambda>i. v + of_nat i) {1..<n + 1}"
    using assms by (intro inj_onI) (auto simp: of_nat_inj_bound)
  then show ?thesis by (simp add: tickets_eq distinct_map del: upt_Suc)
qed

theorem incrementAndGet_unique_witness:
  "distinct (fst (tickets 5 (254 :: 8 word))) \<and> length (fst (tickets 5 (254 :: 8 word))) = 5 \<and>
   snd (tickets 5 (254 :: 8 word)) = 3"
  using incrementAndGet_unique [of 5 "254 :: 8 word"] by simp

text \<open>\<^verbatim>\<open>incrementAndGet\<close> and \<^verbatim>\<open>addAndGet\<close> return the new value, but \<^verbatim>\<open>decrementAndGet\<close> returns the value before the
  decrement, which is never the value it leaves in the counter.\<close>

theorem decrementAndGet_returns_old:
  "fst (addAndGet x v) = snd (addAndGet x v) \<and> fst (incrementAndGet v) = snd (incrementAndGet v) \<and>
   fst (decrementAndGet v) = v \<and> fst (decrementAndGet v) \<noteq> snd (decrementAndGet v) \<and>
   decrement v = v - 1" for v :: "'a::len word"
  by (simp add: atomic_defs)

end
