(* ===== verification/Timer_Queue.thy ===== *)
theory Timer_Queue
  imports Event_Loop Atomic "HOL-Library.Product_Lexorder"
begin

text \<open>
  \<^verbatim>\<open>Timer\<close> (src/reactor/Timer.h, Timer.cc), \<^verbatim>\<open>TimerQueue\<close> (TimerQueue.cc), the timer interface of \<^verbatim>\<open>EventLoop\<close>
  (\<^verbatim>\<open>runAt\<close>, \<^verbatim>\<open>runAfter\<close>, \<^verbatim>\<open>runEvery\<close>) and its constructor and destructor.

  \<^verbatim>\<open>std::set<pair<Timestamp, Timer *>>\<close> is a sorted list without duplicates, ordered lexicographically.
  An interval is a \<^verbatim>\<open>double\<close>, here a rational; \<open>rnd\<close> is the rounding of the multiplication in \<^verbatim>\<open>addTime\<close>.
\<close>

section \<open>Timer\<close>

definition Timer_new :: "task \<Rightarrow> timestamp \<Rightarrow> rat \<Rightarrow> 'z reactor_scheme \<Rightarrow> ptr \<times> 'z reactor_scheme" where
  "Timer_new cb when interval w =
     (case incrementAndGet (numCreated w) of (sequence, created) \<Rightarrow>
      (nextptr w, w\<lparr>timers := (timers w)(nextptr w \<mapsto>
           \<lparr>ti_interval = interval, ti_repeat = (0 < interval), ti_expiration = when, ti_callback = cb,
            ti_sequence = sequence\<rparr>),
         nextptr := nextptr w + 1, numCreated := created\<rparr>))"

definition Timer_restart :: "(rat \<Rightarrow> rat) \<Rightarrow> timestamp \<Rightarrow> timer \<Rightarrow> timer" where
  "Timer_restart rnd now ti =
     (if ti_repeat ti then ti\<lparr>ti_expiration := addTime rnd now (ti_interval ti)\<rparr>
      else ti\<lparr>ti_expiration := invaild\<rparr>)"

definition Timer_run :: "(task \<Rightarrow> 'z reactor_scheme \<Rightarrow> 'z reactor_scheme res) \<Rightarrow> ptr \<Rightarrow> 'z reactor_scheme \<Rightarrow> 'z reactor_scheme res" where
  "Timer_run run_task t w = bindR (deref (timers w) t) (\<lambda>ti. run_task (ti_callback ti) w)"

section \<open>timerfd\<close>

definition createtimerfd :: "kernel \<Rightarrow> 'z reactor_scheme \<Rightarrow> int \<times> 'z reactor_scheme" where
  "createtimerfd os w = (case do_sys os Sys_timerfd_create w of (r, w1) \<Rightarrow> (sr_ret r, w1))"

definition howMachTimeFromNow :: "kernel \<Rightarrow> timestamp \<Rightarrow> 'z reactor_scheme \<Rightarrow> timespec \<times> 'z reactor_scheme" where
  "howMachTimeFromNow os when w =
     (case Timestamp_now os w of (now, w1) \<Rightarrow>
      let d = microSecondsSinceEpoch when - microSecondsSinceEpoch now;
          microSecond = (if d < 100 then 100 else d) in
      (\<lparr>tv_sec = c_div microSecond kMicroSecondPerSecond,
        tv_nsec = c_mod microSecond kMicroSecondPerSecond * 1000\<rparr>, w1))"

definition readTimerfd :: "kernel \<Rightarrow> int \<Rightarrow> 'z reactor_scheme \<Rightarrow> 'z reactor_scheme" where
  "readTimerfd os timerfd w = snd (do_sys os (Sys_read timerfd 8) w)"

definition resetTimerfd :: "kernel \<Rightarrow> int \<Rightarrow> timestamp \<Rightarrow> 'z reactor_scheme \<Rightarrow> 'z reactor_scheme" where
  "resetTimerfd os timerfd expiration w =
     (case howMachTimeFromNow os expiration w of (ts, w1) \<Rightarrow> snd (do_sys os (Sys_timerfd_settime timerfd ts) w1))"

section \<open>TimerQueue\<close>

definition set_timerlist :: "(timestamp \<times> ptr) list \<Rightarrow> eventLoop \<Rightarrow> eventLoop" where
  "set_timerlist ts lp = lp\<lparr>el_timerqueue := (el_timerqueue lp)\<lparr>tq_timerlist := ts\<rparr>\<rparr>"

definition TimerQueue_insert :: "ptr \<Rightarrow> ptr \<Rightarrow> 'z reactor_scheme \<Rightarrow> (bool \<times> 'z reactor_scheme) res" where
  "TimerQueue_insert l t w =
     bindR (deref (loops w) l) (\<lambda>lp.
     bindR (deref (timers w) t) (\<lambda>ti.
     let ts = tq_timerlist (el_timerqueue lp); when = ti_expiration ti;
         earlyestChange = (ts = [] \<or> when < fst (hd ts)) in
     assertC ((when, t) \<notin> set ts)
       (Inr (earlyestChange, upd_loop (set_timerlist (insort (when, t) ts)) l w))))"

definition addTimerInLoop :: "kernel \<Rightarrow> tid \<Rightarrow> ptr \<Rightarrow> ptr \<Rightarrow> 'z reactor_scheme \<Rightarrow> 'z reactor_scheme res" where
  "addTimerInLoop os cur l t w =
     bindR (assertInLoopThread cur l w) (\<lambda>_.
     bindR (TimerQueue_insert l t w) (\<lambda>(earlyestChange, w1).
     if earlyestChange
     then bindR (deref (loops w1) l) (\<lambda>lp.
       bindR (deref (timers w1) t) (\<lambda>ti.
       Inr (resetTimerfd os (tq_timerfd (el_timerqueue lp)) (ti_expiration ti) w1)))
     else Inr w1))"

definition addTimer ::
    "kernel \<Rightarrow> tid \<Rightarrow> ptr \<Rightarrow> task \<Rightarrow> timestamp \<Rightarrow> rat \<Rightarrow> 'z reactor_scheme \<Rightarrow> ((ptr \<times> 64 word) \<times> 'z reactor_scheme) res" where
  "addTimer os cur l cb when interval w =
     (case Timer_new cb when interval w of (t, w1) \<Rightarrow>
      bindR (runInLoop os (\<lambda>_. addTimerInLoop os cur l t) cur l (AddTimerInLoop l t) w1) (\<lambda>w2.
      bindR (deref (timers w2) t) (\<lambda>ti. Inr ((t, ti_sequence ti), w2))))"

definition UINTPTR_MAX :: nat where
  "UINTPTR_MAX = 18446744073709551615"

definition getexpiration :: "ptr \<Rightarrow> timestamp \<Rightarrow> 'z reactor_scheme \<Rightarrow> ((timestamp \<times> ptr) list \<times> 'z reactor_scheme) res" where
  "getexpiration l now w =
     bindR (deref (loops w) l) (\<lambda>lp.
     let sentry = (now, UINTPTR_MAX); ts = tq_timerlist (el_timerqueue lp);
         expirated = takeWhile (\<lambda>e. e < sentry) ts; rest = dropWhile (\<lambda>e. e < sentry) ts in
     assertC (rest = [] \<or> now < fst (hd rest))
       (Inr (expirated, upd_loop (set_timerlist rest) l w)))"

definition Timer_delete :: "ptr \<Rightarrow> 'z reactor_scheme \<Rightarrow> 'z reactor_scheme" where
  "Timer_delete t w = w\<lparr>timers := (timers w)(t := None)\<rparr>"

definition reset_one :: "(rat \<Rightarrow> rat) \<Rightarrow> ptr \<Rightarrow> timestamp \<Rightarrow> (timestamp \<times> ptr) \<Rightarrow> 'z reactor_scheme \<Rightarrow> 'z reactor_scheme res" where
  "reset_one rnd l now e w =
     bindR (deref (timers w) (snd e)) (\<lambda>ti.
     if ti_repeat ti
     then bindR (TimerQueue_insert l (snd e) (upd_timer (Timer_restart rnd now) (snd e) w)) (\<lambda>(_, w1). Inr w1)
     else Inr (Timer_delete (snd e) w))"

definition TimerQueue_reset ::
    "(rat \<Rightarrow> rat) \<Rightarrow> kernel \<Rightarrow> ptr \<Rightarrow> (timestamp \<times> ptr) list \<Rightarrow> timestamp \<Rightarrow> 'z reactor_scheme \<Rightarrow> 'z reactor_scheme res" where
  "TimerQueue_reset rnd os l expirated now w =
     bindR (foldR (reset_one rnd l now) expirated w) (\<lambda>w1.
     bindR (deref (loops w1) l) (\<lambda>lp.
     let ts = tq_timerlist (el_timerqueue lp);
         nextExpire = (if ts \<noteq> [] then fst (hd ts) else Timestamp_new) in
     if valid nextExpire then Inr (resetTimerfd os (tq_timerfd (el_timerqueue lp)) nextExpire w1) else Inr w1))"

definition TimerQueue_handleRead ::
    "(rat \<Rightarrow> rat) \<Rightarrow> kernel \<Rightarrow> (task \<Rightarrow> 'z reactor_scheme \<Rightarrow> 'z reactor_scheme res) \<Rightarrow> tid \<Rightarrow> ptr \<Rightarrow>
     'z reactor_scheme \<Rightarrow> 'z reactor_scheme res" where
  "TimerQueue_handleRead rnd os run_task cur l w =
     bindR (assertInLoopThread cur l w) (\<lambda>_.
     case Timestamp_now os w of (now, w1) \<Rightarrow>
     bindR (deref (loops w1) l) (\<lambda>lp.
     bindR (getexpiration l now (readTimerfd os (tq_timerfd (el_timerqueue lp)) w1)) (\<lambda>(expirated, w2).
     bindR (foldR (Timer_run run_task) (map snd expirated) w2) (\<lambda>w3.
     TimerQueue_reset rnd os l expirated now w3))))"

section \<open>Timer interface of the loop\<close>

definition runAt :: "kernel \<Rightarrow> tid \<Rightarrow> ptr \<Rightarrow> timestamp \<Rightarrow> task \<Rightarrow> 'z reactor_scheme \<Rightarrow> ((ptr \<times> 64 word) \<times> 'z reactor_scheme) res" where
  "runAt os cur l time cb w = addTimer os cur l cb time 0 w"

definition runAfter ::
    "(rat \<Rightarrow> rat) \<Rightarrow> kernel \<Rightarrow> tid \<Rightarrow> ptr \<Rightarrow> rat \<Rightarrow> task \<Rightarrow> 'z reactor_scheme \<Rightarrow> ((ptr \<times> 64 word) \<times> 'z reactor_scheme) res" where
  "runAfter rnd os cur l delay cb w =
     (case Timestamp_now os w of (now, w1) \<Rightarrow> runAt os cur l (addTime rnd now delay) cb w1)"

definition runEvery ::
    "(rat \<Rightarrow> rat) \<Rightarrow> kernel \<Rightarrow> tid \<Rightarrow> ptr \<Rightarrow> rat \<Rightarrow> task \<Rightarrow> 'z reactor_scheme \<Rightarrow> ((ptr \<times> 64 word) \<times> 'z reactor_scheme) res" where
  "runEvery rnd os cur l interval cb w =
     (case Timestamp_now os w of (now, w1) \<Rightarrow> addTimer os cur l cb (addTime rnd now interval) interval w1)"

section \<open>Construction and destruction\<close>

definition TimerQueue_new :: "kernel \<Rightarrow> tid \<Rightarrow> ptr \<Rightarrow> 'z reactor_scheme \<Rightarrow> 'z reactor_scheme res" where
  "TimerQueue_new os cur l w =
     (case createtimerfd os w of (timerfd, w1) \<Rightarrow>
      case Channel_new l timerfd False w1 of (c, w2) \<Rightarrow>
      let w3 = upd_loop (\<lambda>lp. lp\<lparr>el_timerqueue :=
                 \<lparr>tq_timerfd = timerfd, tq_timerfdchannel = c, tq_timerlist = []\<rparr>\<rparr>) l w2;
          w4 = upd_chan (\<lambda>ch. ch\<lparr>ch_readCallback := Some (TimerQueue_handleRead_cb l)\<rparr>) c w3 in
      enableReading os cur c w4)"

definition eventfd_create :: "kernel \<Rightarrow> 'z reactor_scheme \<Rightarrow> (int \<times> 'z reactor_scheme) res" where
  "eventfd_create os w =
     (case do_sys os Sys_eventfd w of (r, w1) \<Rightarrow>
      if sr_ret r < 0 then Inl Aborted else Inr (sr_ret r, w1))"

text \<open>The \<^verbatim>\<open>Epoller\<close> constructor; a failed \<^verbatim>\<open>epoll_create\<close> is only logged.\<close>

definition Epoller_new :: "kernel \<Rightarrow> 'z reactor_scheme \<Rightarrow> epoller \<times> 'z reactor_scheme" where
  "Epoller_new os w =
     (case do_sys os Sys_epoll_create w of (r, w1) \<Rightarrow>
      (\<lparr>ep_epfd = sr_ret r, ep_channels = (\<lambda>_. None), ep_evsize = kInitEventListSize\<rparr>, w1))"

definition EventLoop_new :: "kernel \<Rightarrow> tid \<Rightarrow> 'z reactor_scheme \<Rightarrow> (ptr \<times> 'z reactor_scheme) res" where
  "EventLoop_new os cur w =
     bindR (eventfd_create os w) (\<lambda>(wakeupfd, w1).
     case Epoller_new os w1 of (ep, w2) \<Rightarrow>
     let l = nextptr w2;
         w3 = w2\<lparr>nextptr := l + 1, loops := (loops w2)(l \<mapsto>
           \<lparr>el_looping = False, el_quit = False, el_calling = False, el_wakeupfd = wakeupfd, el_threadId = cur,
            el_epollReturnTime = Timestamp_new, el_epoller = ep,
            el_timerqueue = \<lparr>tq_timerfd = 0, tq_timerfdchannel = 0, tq_timerlist = []\<rparr>,
            el_wakeupchannel = 0, el_channellist = [], el_pending = []\<rparr>)\<rparr> in
     bindR (TimerQueue_new os cur l w3) (\<lambda>w4.
     case Channel_new l wakeupfd False w4 of (c, w5) \<Rightarrow>
     let w6 = upd_loop (\<lambda>lp. lp\<lparr>el_wakeupchannel := c\<rparr>) l w5 in
     if thisThreadEventLoop w6 cur \<noteq> None then Inl FatalLog
     else
       let w7 = w6\<lparr>thisThreadEventLoop := (thisThreadEventLoop w6)(cur \<mapsto> l)\<rparr>;
           w8 = upd_chan (\<lambda>ch. ch\<lparr>ch_readCallback := Some (EventLoop_handleRead_cb l)\<rparr>) c w7 in
       bindR (enableReading os cur c w8) (\<lambda>w9. Inr (l, w9))))"

definition TimerQueue_delete :: "kernel \<Rightarrow> ptr \<Rightarrow> 'z reactor_scheme \<Rightarrow> 'z reactor_scheme res" where
  "TimerQueue_delete os l w =
     bindR (deref (loops w) l) (\<lambda>lp.
     let tq = el_timerqueue lp in
     case do_sys os (Sys_close (tq_timerfd tq)) w of (_, w1) \<Rightarrow>
     bindR (foldR (\<lambda>e w. bindR (deref (timers w) (snd e)) (\<lambda>_. Inr (Timer_delete (snd e) w))) (tq_timerlist tq) w1)
       (Channel_delete (tq_timerfdchannel tq)))"

definition EventLoop_delete :: "kernel \<Rightarrow> tid \<Rightarrow> ptr \<Rightarrow> 'z reactor_scheme \<Rightarrow> 'z reactor_scheme res" where
  "EventLoop_delete os cur l w =
     bindR (deref (loops w) l) (\<lambda>lp.
     assertC (\<not> el_looping lp)
       (case do_sys os (Sys_close (el_wakeupfd lp)) w of (_, w1) \<Rightarrow>
        let w2 = w1\<lparr>thisThreadEventLoop := (thisThreadEventLoop w1)(cur := None)\<rparr> in
        bindR (Channel_delete (el_wakeupchannel lp) w2) (\<lambda>w3.
        bindR (TimerQueue_delete os l w3) (\<lambda>w4.
        Inr (w4\<lparr>loops := (loops w4)(l := None)\<rparr>)))))"

section \<open>Sorted timer lists\<close>

lemma takeWhile_dropWhile_sorted:
  assumes "sorted xs" and "\<And>x y. P y \<Longrightarrow> x \<le> y \<Longrightarrow> P x"
  shows "takeWhile P xs = filter P xs" "dropWhile P xs = filter (\<lambda>x. \<not> P x) xs"
proof -
  show "takeWhile P xs = filter P xs" using assms
  proof (induction xs)
    case (Cons x xs)
    have "filter P xs = []" if "\<not> P x" using Cons.prems that by (auto simp: filter_empty_conv)
    then show ?case using Cons by auto
  qed simp
  show "dropWhile P xs = filter (\<lambda>x. \<not> P x) xs" using assms
  proof (induction xs)
    case (Cons x xs)
    have "filter (\<lambda>x. \<not> P x) xs = xs" if "\<not> P x" using Cons.prems that by (auto simp: filter_id_conv)
    then show ?case using Cons by auto
  qed simp
qed

text \<open>
  The class invariant of \<^verbatim>\<open>TimerQueue\<close>: the set is sorted, no timer occurs twice, and each entry's time
  is the expiration of a live timer whose address is below the sentry.
\<close>

definition timers_ok :: "(timestamp \<times> ptr) list \<Rightarrow> (ptr \<Rightarrow> timer option) \<Rightarrow> bool" where
  "timers_ok ts m \<longleftrightarrow> sorted ts \<and> distinct (map snd ts) \<and>
     list_all (\<lambda>e. snd e < UINTPTR_MAX \<and> map_option ti_expiration (m (snd e)) = Some (fst e)) ts"

definition tq_list :: "ptr \<Rightarrow> 'z reactor_scheme \<Rightarrow> (timestamp \<times> ptr) list" where
  "tq_list l w = (case loops w l of None \<Rightarrow> [] | Some lp \<Rightarrow> tq_timerlist (el_timerqueue lp))"

definition tq_inv :: "ptr \<Rightarrow> 'z reactor_scheme \<Rightarrow> bool" where
  "tq_inv l w \<longleftrightarrow> loops w l \<noteq> None \<and> timers_ok (tq_list l w) (timers w)"

lemma set_timerlist_simps [simp]:
  "tq_timerlist (el_timerqueue (set_timerlist ts lp)) = ts"
  "tq_timerfd (el_timerqueue (set_timerlist ts lp)) = tq_timerfd (el_timerqueue lp)"
  "el_threadId (set_timerlist ts lp) = el_threadId lp" "el_pending (set_timerlist ts lp) = el_pending lp"
  "el_epoller (set_timerlist ts lp) = el_epoller lp" "el_quit (set_timerlist ts lp) = el_quit lp"
  by (simp_all add: set_timerlist_def)

lemma tq_list_simps [simp]:
  "loops w l \<noteq> None \<Longrightarrow> tq_list l (upd_loop (set_timerlist ts) l w) = ts"
  "tq_list l (upd_timer f t w) = tq_list l w"
  "tq_list l (upd_chan g c w) = tq_list l w"
  "tq_list l (w\<lparr>trace := h\<rparr>) = tq_list l w"
  "tq_list l (Timer_delete t w) = tq_list l w"
  by (auto simp: tq_list_def Timer_delete_def)

lemma expired_iff: "snd e < UINTPTR_MAX \<Longrightarrow> e < (now :: timestamp, UINTPTR_MAX) \<longleftrightarrow> fst e \<le> now"
  by (cases e) (auto simp: less_prod_simp intro: less_imp_le)

lemma getexpiration_eq:
  assumes "tq_inv l w"
  shows "getexpiration l now w = Inr (filter (\<lambda>e. fst e \<le> now) (tq_list l w),
    upd_loop (set_timerlist (filter (\<lambda>e. now < fst e) (tq_list l w))) l w)"
proof -
  let ?ts = "tq_list l w"
  let ?P = "\<lambda>e. e < (now, UINTPTR_MAX)"
  have ts: "sorted ?ts" "\<And>e. e \<in> set ?ts \<Longrightarrow> snd e < UINTPTR_MAX"
    using assms by (auto simp: tq_inv_def timers_ok_def list_all_iff)
  obtain lp where lp: "loops w l = Some lp" "tq_timerlist (el_timerqueue lp) = ?ts"
    using assms by (auto simp: tq_inv_def tq_list_def)
  have tw: "takeWhile ?P ?ts = filter (\<lambda>e. fst e \<le> now) ?ts"
    using takeWhile_dropWhile_sorted(1) [OF ts(1), of ?P] ts(2) by (auto simp: expired_iff cong: filter_cong)
  have dw: "dropWhile ?P ?ts = filter (\<lambda>e. now < fst e) ?ts"
    using takeWhile_dropWhile_sorted(2) [OF ts(1), of ?P] ts(2) by (auto simp: expired_iff not_le cong: filter_cong)
  have "filter (\<lambda>e. now < fst e) ?ts = [] \<or> now < fst (hd (filter (\<lambda>e. now < fst e) ?ts))"
    using hd_in_set [of "filter (\<lambda>e. now < fst e) ?ts"] by auto
  then show ?thesis using lp tw dw by (simp add: getexpiration_def Let_def del: dropWhile_eq_Nil_conv)
qed

lemma timers_ok_filter: "timers_ok ts m \<Longrightarrow> timers_ok (filter P ts) m"
  using sorted_filter [of "\<lambda>x. x" ts P] by (auto simp: timers_ok_def list_all_iff distinct_map_filter)

lemma timers_ok_insort:
  assumes "timers_ok ts m" "m t = Some ti" "t \<notin> snd ` set ts" "t < UINTPTR_MAX"
  shows "timers_ok (insort (ti_expiration ti, t) ts) m"
proof -
  have "distinct (map snd (insort e ts)) \<longleftrightarrow> snd e \<notin> snd ` set ts \<and> distinct (map snd ts)" for e :: "timestamp \<times> ptr"
    by (induction ts) (auto simp: set_insort_key)
  then show ?thesis using assms by (auto simp: timers_ok_def list_all_iff set_insort_key sorted_insort)
qed

lemma timers_ok_other: "timers_ok ts m \<Longrightarrow> t \<notin> snd ` set ts \<Longrightarrow> timers_ok ts (m(t := x))"
  by (auto simp: timers_ok_def list_all_iff image_iff)

lemma TimerQueue_insert_ok:
  assumes "tq_inv l w" "timers w t = Some ti" "t \<notin> snd ` set (tq_list l w)"
  shows "TimerQueue_insert l t w = Inr (tq_list l w = [] \<or> ti_expiration ti < fst (hd (tq_list l w)),
    upd_loop (set_timerlist (insort (ti_expiration ti, t) (tq_list l w))) l w)"
proof -
  obtain lp where "loops w l = Some lp" "tq_timerlist (el_timerqueue lp) = tq_list l w"
    using assms(1) by (auto simp: tq_inv_def tq_list_def)
  moreover have "(ti_expiration ti, t) \<notin> set (tq_list l w)" using assms(3) by force
  ultimately show ?thesis using assms(2) by (simp add: TimerQueue_insert_def Let_def)
qed

lemma tq_inv_insert:
  assumes "tq_inv l w" "timers w t = Some ti" "t \<notin> snd ` set (tq_list l w)" "t < UINTPTR_MAX"
  shows "tq_inv l (upd_loop (set_timerlist (insort (ti_expiration ti, t) (tq_list l w))) l w)"
  using assms timers_ok_insort by (auto simp: tq_inv_def)

lemma tq_inv_trace [simp]: "tq_inv l (w\<lparr>trace := h\<rparr>) = tq_inv l w"
  by (simp add: tq_inv_def)

lemma resetTimerfd_state:
  "\<exists>h. resetTimerfd os fd e w = w\<lparr>trace := h\<rparr>" "\<exists>h. readTimerfd os fd w = w\<lparr>trace := h\<rparr>"
  by (auto simp: resetTimerfd_def howMachTimeFromNow_def Timestamp_now_def readTimerfd_def Let_def)

text \<open>The timers that were taken out of the set by \<^verbatim>\<open>getexpiration\<close> and still have to be reset.\<close>

definition detached :: "ptr \<Rightarrow> ptr list \<Rightarrow> 'z reactor_scheme \<Rightarrow> bool" where
  "detached l ps w \<longleftrightarrow> distinct ps \<and>
     list_all (\<lambda>p. p < UINTPTR_MAX \<and> timers w p \<noteq> None \<and> p \<notin> snd ` set (tq_list l w)) ps"

lemma detached_trace [simp]: "detached l ps (w\<lparr>trace := h\<rparr>) = detached l ps w"
  by (simp add: detached_def)

text \<open>What \<^verbatim>\<open>reset\<close> does with one expired timer.\<close>

lemma reset_one_ok:
  assumes "tq_inv l w" "detached l (p # ps) w" "timers w p = Some ti"
  obtains w' where "reset_one rnd l now (t, p) w = Inr w'" "tq_inv l w'" "detached l ps w'"
    "set (tq_list l w') = set (tq_list l w) \<union> (if ti_repeat ti then {(addTime rnd now (ti_interval ti), p)} else {})"
    "timers w' p = (if ti_repeat ti then Some (Timer_restart rnd now ti) else None)"
    "\<And>q. q \<noteq> p \<Longrightarrow> timers w' q = timers w q"
proof (cases "ti_repeat ti")
  case True
  let ?w1 = "upd_timer (Timer_restart rnd now) p w"
  have p: "p \<notin> snd ` set (tq_list l w)" "p < UINTPTR_MAX" "p \<notin> set ps" using assms(2) by (simp_all add: detached_def)
  have inv1: "tq_inv l ?w1"
    using assms(1) p(1) timers_ok_other [of "tq_list l w" "timers w" p "map_option (Timer_restart rnd now) (timers w p)"]
    by (simp add: tq_inv_def upd_def)
  have e: "ti_expiration (Timer_restart rnd now ti) = addTime rnd now (ti_interval ti)"
    using True by (simp add: Timer_restart_def)
  let ?w2 = "upd_loop (set_timerlist (insort (addTime rnd now (ti_interval ti), p) (tq_list l w))) l ?w1"
  have t1: "timers ?w1 p = Some (Timer_restart rnd now ti)" using assms(3) by simp
  have list2: "tq_list l ?w2 = insort (addTime rnd now (ti_interval ti), p) (tq_list l w)"
    using assms(1) by (simp add: tq_inv_def)
  show thesis
  proof (rule that [of ?w2])
    show "reset_one rnd l now (t, p) w = Inr ?w2"
      using TimerQueue_insert_ok [OF inv1 t1] p(1) assms(3) True by (simp add: reset_one_def e)
    show "tq_inv l ?w2" using tq_inv_insert [OF inv1 t1] p by (simp add: e)
    show "detached l ps ?w2"
      unfolding detached_def list2 using assms(2) p(3) by (auto simp: detached_def list_all_iff set_insort_key)
    show "set (tq_list l ?w2) = set (tq_list l w) \<union> (if ti_repeat ti then {(addTime rnd now (ti_interval ti), p)} else {})"
      using True unfolding list2 by (simp add: set_insort_key)
  qed (use True assms(3) in auto)
next
  case False
  show thesis
  proof (rule that [of "Timer_delete p w"])
    show "reset_one rnd l now (t, p) w = Inr (Timer_delete p w)" using False assms(3) by (simp add: reset_one_def)
    show "tq_inv l (Timer_delete p w)"
      using assms(1,2) timers_ok_other [of "tq_list l w" "timers w" p None]
      by (simp add: tq_inv_def detached_def) (simp add: Timer_delete_def)
    show "detached l ps (Timer_delete p w)"
      using assms(2) by (auto simp: detached_def list_all_iff Timer_delete_def tq_list_def)
    show "set (tq_list l (Timer_delete p w)) = set (tq_list l w) \<union> (if ti_repeat ti then {(addTime rnd now (ti_interval ti), p)} else {})"
      using False by simp
  qed (use False in \<open>auto simp: Timer_delete_def\<close>)
qed

text \<open>What \<^verbatim>\<open>reset\<close> promises of the expired timers \<open>ps\<close>.\<close>

definition reset_post :: "(rat \<Rightarrow> rat) \<Rightarrow> timestamp \<Rightarrow> ptr \<Rightarrow> ptr set \<Rightarrow> 'z reactor_scheme \<Rightarrow> 'z reactor_scheme \<Rightarrow> bool" where
  "reset_post rnd now l ps w w' \<longleftrightarrow> tq_inv l w' \<and> set (tq_list l w) \<subseteq> set (tq_list l w') \<and>
    (\<forall>q. q \<notin> ps \<longrightarrow> timers w' q = timers w q \<and> (q \<in> snd ` set (tq_list l w') \<longrightarrow> q \<in> snd ` set (tq_list l w))) \<and>
    (\<forall>p \<in> ps. \<forall>ti. timers w p = Some ti \<longrightarrow>
      (if ti_repeat ti then (addTime rnd now (ti_interval ti), p) \<in> set (tq_list l w')
       else timers w' p = None \<and> p \<notin> snd ` set (tq_list l w')))"

lemma reset_postD:
  assumes "reset_post rnd now l ps w w'"
  shows "tq_inv l w'" "set (tq_list l w) \<subseteq> set (tq_list l w')"
    "\<And>q. q \<notin> ps \<Longrightarrow> timers w' q = timers w q"
    "\<And>q. q \<notin> ps \<Longrightarrow> q \<in> snd ` set (tq_list l w') \<Longrightarrow> q \<in> snd ` set (tq_list l w)"
    "\<And>p ti. p \<in> ps \<Longrightarrow> timers w p = Some ti \<Longrightarrow>
      (if ti_repeat ti then (addTime rnd now (ti_interval ti), p) \<in> set (tq_list l w')
       else timers w' p = None \<and> p \<notin> snd ` set (tq_list l w'))"
  using assms by (simp_all add: reset_post_def)

lemma reset_post_trace: "reset_post rnd now l ps w (w'\<lparr>trace := h\<rparr>) = reset_post rnd now l ps w w'"
  by (simp add: reset_post_def)

lemma reset_all_ok:
  assumes "tq_inv l w" "detached l (map snd es) w"
  shows "\<exists>w'. foldR (reset_one rnd l now) es w = Inr w' \<and> reset_post rnd now l (snd ` set es) w w'"
  using assms
proof (induction es arbitrary: w)
  case Nil
  then show ?case by (simp add: reset_post_def)
next
  case (Cons e es)
  obtain t p where e: "e = (t, p)" by fastforce
  obtain ti where ti: "timers w p = Some ti" using Cons.prems(2) by (auto simp: e detached_def)
  have nin: "p \<notin> snd ` set es" "p \<notin> snd ` set (tq_list l w)" using Cons.prems(2) by (auto simp: e detached_def)
  obtain w1 where w1: "reset_one rnd l now e w = Inr w1" "tq_inv l w1" "detached l (map snd es) w1"
    "set (tq_list l w1) = set (tq_list l w) \<union> (if ti_repeat ti then {(addTime rnd now (ti_interval ti), p)} else {})"
    "timers w1 p = (if ti_repeat ti then Some (Timer_restart rnd now ti) else None)"
    "\<And>q. q \<noteq> p \<Longrightarrow> timers w1 q = timers w q"
    using reset_one_ok [OF Cons.prems(1) _ ti, of "map snd es" rnd now t] Cons.prems(2) unfolding e by auto
  obtain w2 where w2: "foldR (reset_one rnd l now) es w1 = Inr w2" and post: "reset_post rnd now l (snd ` set es) w1 w2"
    using Cons.IH [OF w1(2,3)] by blast
  note d = reset_postD [OF post]
  have head: "if ti_repeat ti then (addTime rnd now (ti_interval ti), p) \<in> set (tq_list l w2)
      else timers w2 p = None \<and> p \<notin> snd ` set (tq_list l w2)"
  proof (cases "ti_repeat ti")
    case True
    then show ?thesis using w1(4) d(2) by auto
  next
    case False
    then have "p \<notin> snd ` set (tq_list l w1)" "timers w1 p = None" using w1(4,5) nin(2) by simp_all
    then have "timers w2 p = None" "p \<notin> snd ` set (tq_list l w2)" using d(3,4) [OF nin(1)] by auto
    then show ?thesis using False by simp
  qed
  have tl1: "snd ` set (tq_list l w1) \<subseteq> insert p (snd ` set (tq_list l w))"
    using w1(4) by (cases "ti_repeat ti") auto
  have frame: "timers w2 q = timers w q \<and> (q \<in> snd ` set (tq_list l w2) \<longrightarrow> q \<in> snd ` set (tq_list l w))"
    if "q \<notin> snd ` set (e # es)" for q
  proof -
    have q: "q \<notin> snd ` set es" "q \<noteq> p" using that by (auto simp: e)
    have "timers w2 q = timers w q" using d(3) [OF q(1)] w1(6) [OF q(2)] by simp
    moreover have "q \<in> snd ` set (tq_list l w)" if "q \<in> snd ` set (tq_list l w2)"
      using subsetD [OF tl1 d(4) [OF q(1) that]] q(2) by simp
    ultimately show ?thesis by simp
  qed
  have tail: "if ti_repeat ti' then (addTime rnd now (ti_interval ti'), q) \<in> set (tq_list l w2)
      else timers w2 q = None \<and> q \<notin> snd ` set (tq_list l w2)"
    if "q \<in> snd ` set (e # es)" "timers w q = Some ti'" for q ti'
  proof (cases "q = p")
    case True
    then have "ti' = ti" using ti that(2) by simp
    then show ?thesis using head True by (simp only:)
  next
    case False
    then have "q \<in> snd ` set es" "timers w1 q = Some ti'" using that w1(6) by (auto simp: e)
    then show ?thesis by (rule d(5))
  qed
  have "set (tq_list l w) \<subseteq> set (tq_list l w2)" using w1(4) d(2) by blast
  then have "reset_post rnd now l (snd ` set (e # es)) w w2"
    unfolding reset_post_def using d(1) frame tail by blast
  moreover have "foldR (reset_one rnd l now) (e # es) w = Inr w2" using w1(1) w2 by simp
  ultimately show ?case by blast
qed

text \<open>A timer callback may add timers, but keeps those that exist.\<close>

definition keeps_timers :: "(task \<Rightarrow> 'z reactor_scheme \<Rightarrow> 'z reactor_scheme res) \<Rightarrow> ptr \<Rightarrow> bool" where
  "keeps_timers run l \<longleftrightarrow> (\<forall>f w ps. tq_inv l w \<longrightarrow> detached l ps w \<longrightarrow>
     (\<exists>w'. run f w = Inr w' \<and> tq_inv l w' \<and> detached l ps w' \<and> set (tq_list l w) \<subseteq> set (tq_list l w') \<and>
       (\<forall>p \<in> set ps. timers w' p = timers w p)))"

lemma Timer_run_all:
  assumes keep: "keeps_timers run l" and "tq_inv l w" "detached l ps w" "set qs \<subseteq> set ps"
  shows "\<exists>w'. foldR (Timer_run run) qs w = Inr w' \<and> tq_inv l w' \<and> detached l ps w' \<and>
    set (tq_list l w) \<subseteq> set (tq_list l w') \<and> (\<forall>p \<in> set ps. timers w' p = timers w p)"
  using assms(2-)
proof (induction qs arbitrary: w)
  case Nil
  then show ?case by auto
next
  case (Cons q qs)
  obtain ti where ti: "timers w q = Some ti" using Cons.prems(2,3) by (auto simp: detached_def list_all_iff)
  obtain w1 where w1: "run (ti_callback ti) w = Inr w1" "tq_inv l w1" "detached l ps w1"
    "set (tq_list l w) \<subseteq> set (tq_list l w1)" "\<forall>p \<in> set ps. timers w1 p = timers w p"
    using keep Cons.prems(1,2) unfolding keeps_timers_def by blast
  obtain w2 where "foldR (Timer_run run) qs w1 = Inr w2" "tq_inv l w2" "detached l ps w2"
    "set (tq_list l w1) \<subseteq> set (tq_list l w2)" "\<forall>p \<in> set ps. timers w2 p = timers w1 p"
    using Cons.IH [OF w1(2,3)] Cons.prems(3) by auto
  moreover have "Timer_run run q w = Inr w1" using ti w1(1) by (simp add: Timer_run_def)
  ultimately show ?case using w1(4,5) by auto
qed

lemma detached_expired:
  assumes "tq_inv l w"
  shows "tq_inv l (upd_loop (set_timerlist (filter (\<lambda>e. now < fst e) (tq_list l w))) l w)"
    and "detached l (map snd (filter (\<lambda>e. fst e \<le> now) (tq_list l w)))
      (upd_loop (set_timerlist (filter (\<lambda>e. now < fst e) (tq_list l w))) l w)"
proof -
  have w: "loops w l \<noteq> None" "timers_ok (tq_list l w) (timers w)" using assms by (simp_all add: tq_inv_def)
  then have d: "distinct (map snd (tq_list l w))"
    and a: "\<And>e. e \<in> set (tq_list l w) \<Longrightarrow> snd e < UINTPTR_MAX \<and> timers w (snd e) \<noteq> None"
    by (auto simp: timers_ok_def list_all_iff)
  have inj: "e = e'" if "e \<in> set (tq_list l w)" "e' \<in> set (tq_list l w)" "snd e = snd e'" for e e'
    using d that by (auto simp: distinct_map inj_on_def)
  show "tq_inv l (upd_loop (set_timerlist (filter (\<lambda>e. now < fst e) (tq_list l w))) l w)"
    using w timers_ok_filter [OF w(2)] unfolding tq_inv_def tq_list_simps(1) [OF w(1)] by simp
  show "detached l (map snd (filter (\<lambda>e. fst e \<le> now) (tq_list l w)))
      (upd_loop (set_timerlist (filter (\<lambda>e. now < fst e) (tq_list l w))) l w)"
    unfolding detached_def tq_list_simps(1) [OF w(1)]
    using a d inj by (force simp: list_all_iff distinct_map_filter)
qed

section \<open>Properties\<close>

text \<open>(C31) The time \<^verbatim>\<open>resetTimerfd\<close> arms the timer with is a normalised \<^verbatim>\<open>timespec\<close> of at least 100 microseconds:
  it is the distance to the expiration, or 100 microseconds if that is past or nearer. It is never
  zero, which would disarm the timer.\<close>

theorem howMachTimeFromNow_bounds:
  "let now = fst (Timestamp_now os w); ts = fst (howMachTimeFromNow os when w) in
     0 \<le> tv_sec ts \<and> 0 \<le> tv_nsec ts \<and> tv_nsec ts < 1000000000 \<and> (1000 :: int) dvd tv_nsec ts \<and>
     tv_sec ts * 1000000 + tv_nsec ts div 1000 =
       max 100 (microSecondsSinceEpoch when - microSecondsSinceEpoch now)"
proof -
  define d where "d = max 100 (microSecondsSinceEpoch when - microSecondsSinceEpoch (fst (Timestamp_now os w)))"
  have d: "100 \<le> d" by (simp add: d_def)
  have "fst (howMachTimeFromNow os when w) = \<lparr>tv_sec = c_div d 1000000, tv_nsec = c_mod d 1000000 * 1000\<rparr>"
    by (simp add: howMachTimeFromNow_def case_prod_beta Let_def d_def max_def kMicroSecondPerSecond_def not_le)
  moreover have "c_div d 1000000 = d div 1000000" "c_mod d 1000000 = d mod 1000000"
    using d by (simp_all add: c_div_nonneg c_mod_nonneg)
  ultimately show ?thesis using d unfolding d_def [symmetric] Let_def by (simp add: pos_imp_zdiv_nonneg_iff)
qed

text \<open>\<^verbatim>\<open>getexpiration\<close> on a well-formed queue never fails its assertion, returns exactly the entries due at
  \<open>now\<close> in order of expiration, and leaves exactly the later ones.\<close>

theorem getexpiration_splits:
  assumes "tq_inv l w"
  shows "\<exists>w'. getexpiration l now w = Inr (filter (\<lambda>e. fst e \<le> now) (tq_list l w), w') \<and> tq_inv l w' \<and>
    tq_list l w' = filter (\<lambda>e. now < fst e) (tq_list l w) \<and> timers w' = timers w"
proof -
  have "loops w l \<noteq> None" using assms by (simp add: tq_inv_def)
  then show ?thesis using getexpiration_eq [OF assms] detached_expired(1) [OF assms] by simp
qed

definition sample_timer :: "rat \<Rightarrow> timestamp \<Rightarrow> timer" where
  "sample_timer i t = \<lparr>ti_interval = i, ti_repeat = (0 < i), ti_expiration = t, ti_callback = UserTask 0, ti_sequence = 1\<rparr>"

definition timer_world :: reactor where
  "timer_world = world0\<lparr>timers := [11 \<mapsto> sample_timer 0 (Timestamp 50), 12 \<mapsto> sample_timer 1 (Timestamp 60)],
     loops := [0 \<mapsto> set_timerlist [(Timestamp 50, 11), (Timestamp 60, 12)] loop0]\<rparr>"

lemma timer_world_simps:
  "tq_list 0 timer_world = [(Timestamp 50, 11), (Timestamp 60, 12)]"
  "loops timer_world 0 = Some (set_timerlist [(Timestamp 50, 11), (Timestamp 60, 12)] loop0)"
  "timers timer_world 11 = Some (sample_timer 0 (Timestamp 50))" "timers timer_world 12 = Some (sample_timer 1 (Timestamp 60))"
  "trace timer_world = []"
  by (simp_all add: tq_list_def timer_world_def world0_def)

lemma tq_inv_timer_world: "tq_inv 0 timer_world"
  by (simp add: tq_inv_def timers_ok_def timer_world_simps UINTPTR_MAX_def sample_timer_def
      less_eq_timestamp_def less_timestamp_def less_eq_prod_def)

theorem getexpiration_splits_witness:
  "\<exists>w'. getexpiration 0 (Timestamp 55) timer_world = Inr ([(Timestamp 50, 11)], w') \<and>
     tq_list 0 w' = [(Timestamp 60, 12)]"
  using getexpiration_splits [OF tq_inv_timer_world, of "Timestamp 55"]
  by (auto simp: timer_world_simps less_eq_timestamp_def less_timestamp_def)

text \<open>Adding a timer in the loop thread keeps the queue well formed, inserts the timer's entry, and arms the
  timerfd for it exactly when it became the earliest one.\<close>

theorem addTimerInLoop_arms:
  assumes inv: "tq_inv l w" and lp: "loops w l = Some lp" "el_threadId lp = cur"
    and t: "timers w t = Some ti" "t \<notin> snd ` set (tq_list l w)" "t < UINTPTR_MAX"
  shows "\<exists>w'. addTimerInLoop os cur l t w = Inr w' \<and> tq_inv l w' \<and>
    tq_list l w' = insort (ti_expiration ti, t) (tq_list l w) \<and>
    (if tq_list l w = [] \<or> ti_expiration ti < fst (hd (tq_list l w))
     then \<exists>ts r g. trace w' = trace w @ [g, (Sys_timerfd_settime (tq_timerfd (el_timerqueue lp)) ts, r)] \<and>
       ts = fst (howMachTimeFromNow os (ti_expiration ti) w)
     else trace w' = trace w)"
proof -
  let ?w1 = "upd_loop (set_timerlist (insort (ti_expiration ti, t) (tq_list l w))) l w"
  have inv1: "tq_inv l ?w1" by (rule tq_inv_insert [OF inv t])
  have list1: "tq_list l ?w1 = insort (ti_expiration ti, t) (tq_list l w)" using lp by simp
  have run: "addTimerInLoop os cur l t w =
      (if tq_list l w = [] \<or> ti_expiration ti < fst (hd (tq_list l w))
       then Inr (resetTimerfd os (tq_timerfd (el_timerqueue lp)) (ti_expiration ti) ?w1) else Inr ?w1)"
    using TimerQueue_insert_ok [OF inv t(1,2)] lp t(1)
    by (simp add: addTimerInLoop_def assertInLoopThread_def isInLoopThread_def)
  have now: "fst (howMachTimeFromNow os e ?w1) = fst (howMachTimeFromNow os e w)" for e
    by (simp add: howMachTimeFromNow_def Timestamp_now_def Let_def)
  obtain g ts r where reset: "resetTimerfd os (tq_timerfd (el_timerqueue lp)) (ti_expiration ti) ?w1 =
      ?w1\<lparr>trace := trace w @ [g, (Sys_timerfd_settime (tq_timerfd (el_timerqueue lp)) ts, r)]\<rparr>"
    "ts = fst (howMachTimeFromNow os (ti_expiration ti) w)"
    unfolding now [symmetric]
    by (auto simp: resetTimerfd_def howMachTimeFromNow_def Timestamp_now_def Let_def)
  show ?thesis using run reset inv1 list1 by (cases "tq_list l w = [] \<or> ti_expiration ti < fst (hd (tq_list l w))") auto
qed

theorem addTimerInLoop_arms_witness:
  "\<exists>w'. addTimerInLoop quiet_kernel 7 0 13 (timer_world\<lparr>timers := (timers timer_world)(13 \<mapsto> sample_timer 0 (Timestamp 40))\<rparr>) = Inr w' \<and>
     tq_list 0 w' = [(Timestamp 40, 13), (Timestamp 50, 11), (Timestamp 60, 12)] \<and> length (trace w') = 2"
proof -
  let ?w = "timer_world\<lparr>timers := (timers timer_world)(13 \<mapsto> sample_timer 0 (Timestamp 40))\<rparr>"
  have list: "tq_list 0 ?w = [(Timestamp 50, 11), (Timestamp 60, 12)]" using timer_world_simps(1) by (simp add: tq_list_def)
  have "tq_inv 0 ?w"
    using tq_inv_timer_world timers_ok_other [of "tq_list 0 timer_world" "timers timer_world" 13 "Some (sample_timer 0 (Timestamp 40))"] list
    by (simp add: tq_inv_def timer_world_simps)
  from addTimerInLoop_arms [OF this, of "set_timerlist [(Timestamp 50, 11), (Timestamp 60, 12)] loop0" 7 13
      "sample_timer 0 (Timestamp 40)" quiet_kernel]
  show ?thesis unfolding list
    by (simp add: timer_world_simps loop0_def UINTPTR_MAX_def sample_timer_def less_timestamp_def less_eq_timestamp_def
        less_eq_prod_def) auto
qed

lemma handleRead_run:
  assumes inv: "tq_inv l w" and lp: "loops w l = Some lp" "el_threadId lp = cur"
    and keep: "keeps_timers run l" and now: "now = fst (Timestamp_now os w)"
  obtains w' w3 where "TimerQueue_handleRead rnd os run cur l w = Inr w'"
    "reset_post rnd now l (snd ` set (filter (\<lambda>e. fst e \<le> now) (tq_list l w))) w3 w'"
    "set (filter (\<lambda>e. now < fst e) (tq_list l w)) \<subseteq> set (tq_list l w3)"
    "\<And>p. p \<in> snd ` set (filter (\<lambda>e. fst e \<le> now) (tq_list l w)) \<Longrightarrow> timers w3 p = timers w p"
proof -
  let ?es = "filter (\<lambda>e. fst e \<le> now) (tq_list l w)"
  obtain h where h: "readTimerfd os (tq_timerfd (el_timerqueue lp)) (snd (Timestamp_now os w)) = w\<lparr>trace := h\<rparr>"
    using resetTimerfd_state(2) by (simp add: readTimerfd_def)
  let ?w2 = "upd_loop (set_timerlist (filter (\<lambda>e. now < fst e) (tq_list l w))) l (w\<lparr>trace := h\<rparr>)"
  have inv2: "tq_inv l ?w2" and det2: "detached l (map snd ?es) ?w2"
    using detached_expired [of l "w\<lparr>trace := h\<rparr>" now] inv by simp_all
  have list2: "tq_list l ?w2 = filter (\<lambda>e. now < fst e) (tq_list l w)" using lp by simp
  obtain w3 where w3: "foldR (Timer_run run) (map snd ?es) ?w2 = Inr w3" "tq_inv l w3" "detached l (map snd ?es) w3"
      "set (tq_list l ?w2) \<subseteq> set (tq_list l w3)" "\<forall>p \<in> set (map snd ?es). timers w3 p = timers ?w2 p"
    using Timer_run_all [OF keep inv2 det2 subset_refl] by blast
  obtain w4 where w4: "foldR (reset_one rnd l now) ?es w3 = Inr w4" "reset_post rnd now l (snd ` set ?es) w3 w4"
    using reset_all_ok [OF w3(2,3), of rnd now] by blast
  obtain lp4 where lp4: "loops w4 l = Some lp4" using reset_postD(1) [OF w4(2)] by (auto simp: tq_inv_def)
  have get: "getexpiration l now (w\<lparr>trace := h\<rparr>) = Inr (?es, ?w2)"
    using getexpiration_eq [of l "w\<lparr>trace := h\<rparr>" now] inv by simp
  obtain h' where res: "TimerQueue_reset rnd os l ?es now w3 = Inr (w4\<lparr>trace := h'\<rparr>)"
  proof -
    let ?n = "if tq_timerlist (el_timerqueue lp4) \<noteq> [] then fst (hd (tq_timerlist (el_timerqueue lp4))) else Timestamp_new"
    obtain h1 where "resetTimerfd os (tq_timerfd (el_timerqueue lp4)) ?n w4 = w4\<lparr>trace := h1\<rparr>"
      using resetTimerfd_state(1) by blast
    then have "TimerQueue_reset rnd os l ?es now w3 = Inr (w4\<lparr>trace := (if valid ?n then h1 else trace w4)\<rparr>)"
      using w4(1) lp4 by (simp add: TimerQueue_reset_def Let_def)
    then show thesis by (rule that)
  qed
  have "TimerQueue_handleRead rnd os run cur l w = Inr (w4\<lparr>trace := h'\<rparr>)"
    using lp h get w3(1) res unfolding now
    by (simp add: TimerQueue_handleRead_def assertInLoopThread_def isInLoopThread_def case_prod_beta)
  moreover have "reset_post rnd now l (snd ` set ?es) w3 (w4\<lparr>trace := h'\<rparr>)"
    using w4(2) by (simp only: reset_post_trace)
  moreover have "set (filter (\<lambda>e. now < fst e) (tq_list l w)) \<subseteq> set (tq_list l w3)" using w3(4) unfolding list2 .
  moreover have "timers w3 p = timers w p" if "p \<in> snd ` set ?es" for p using w3(5) that by auto
  ultimately show thesis by (rule that)
qed

text \<open>(C7) When the timerfd becomes readable, \<^verbatim>\<open>TimerQueue::handleRead\<close> returns for every timer program whose
  callbacks keep existing timers: the queue stays well formed, entries that were not due stay, each due
  one-shot timer is deleted and gone from the set, and each due periodic timer is in the set again at
  \<open>now\<close> plus its interval, which lies strictly in the future if the interval is at least a
  microsecond.\<close>

theorem handleRead_reschedules:
  assumes inv: "tq_inv l w" and lp: "loops w l = Some lp" "el_threadId lp = cur"
    and keep: "keeps_timers run l" and now: "now = fst (Timestamp_now os w)"
  shows "\<exists>w'. TimerQueue_handleRead rnd os run cur l w = Inr w' \<and> tq_inv l w' \<and>
    {e \<in> set (tq_list l w). now < fst e} \<subseteq> set (tq_list l w') \<and>
    (\<forall>(t, p) \<in> set (tq_list l w). \<forall>ti. t \<le> now \<longrightarrow> timers w p = Some ti \<longrightarrow>
      (if ti_repeat ti
       then (addTime rnd now (ti_interval ti), p) \<in> set (tq_list l w') \<and>
         (1 \<le> rnd (ti_interval ti * 1000000) \<longrightarrow> now < addTime rnd now (ti_interval ti))
       else timers w' p = None \<and> p \<notin> snd ` set (tq_list l w')))"
proof -
  obtain w' w3 where run: "TimerQueue_handleRead rnd os run cur l w = Inr w'"
    and post: "reset_post rnd now l (snd ` set (filter (\<lambda>e. fst e \<le> now) (tq_list l w))) w3 w'"
    and later: "set (filter (\<lambda>e. now < fst e) (tq_list l w)) \<subseteq> set (tq_list l w3)"
    and same: "\<And>p. p \<in> snd ` set (filter (\<lambda>e. fst e \<le> now) (tq_list l w)) \<Longrightarrow> timers w3 p = timers w p"
    using handleRead_run [OF assms, of rnd] by blast
  note d = reset_postD [OF post]
  have fut: "1 \<le> rnd (i * 1000000) \<Longrightarrow> now < addTime rnd now i" for i
    by (cases now) (simp add: addTime_def kMicroSecondPerSecond_def c_trunc_def less_timestamp_def)
  have due: "p \<in> snd ` set (filter (\<lambda>e. fst e \<le> now) (tq_list l w))" if "(t, p) \<in> set (tq_list l w)" "t \<le> now" for t p
    using that by force
  have "{e \<in> set (tq_list l w). now < fst e} \<subseteq> set (tq_list l w')" using later d(2) by auto
  moreover have "if ti_repeat ti
       then (addTime rnd now (ti_interval ti), p) \<in> set (tq_list l w') \<and>
         (1 \<le> rnd (ti_interval ti * 1000000) \<longrightarrow> now < addTime rnd now (ti_interval ti))
       else timers w' p = None \<and> p \<notin> snd ` set (tq_list l w')"
    if "(t, p) \<in> set (tq_list l w)" "t \<le> now" "timers w p = Some ti" for t p ti
    using d(5) [OF due [OF that(1,2)], of ti] same [OF due [OF that(1,2)]] that(3) fut [of "ti_interval ti"]
    by (cases "ti_repeat ti") simp_all
  ultimately show ?thesis using run d(1) by blast
qed

theorem handleRead_reschedules_witness:
  "\<exists>w'. TimerQueue_handleRead id (\<lambda>h c. (answer 0 [])\<lparr>sr_usec := 70\<rparr>) (\<lambda>_. Inr) 7 0 timer_world = Inr w' \<and>
     tq_inv 0 w' \<and> timers w' 11 = None \<and> (Timestamp 1000070, 12) \<in> set (tq_list 0 w')"
proof -
  let ?os = "\<lambda>h c. (answer 0 [])\<lparr>sr_usec := 70\<rparr>"
  have keep: "keeps_timers (\<lambda>_. Inr) 0" by (simp add: keeps_timers_def)
  have now: "Timestamp 70 = fst (Timestamp_now ?os timer_world)"
    by (simp add: Timestamp_now_def timestamp_of_timeval_def answer_def)
  have thr: "el_threadId (set_timerlist [(Timestamp 50, 11), (Timestamp 60, 12)] loop0) = 7" by (simp add: loop0_def)
  from handleRead_reschedules [OF tq_inv_timer_world timer_world_simps(2) thr keep now, of id]
  show ?thesis
    by (auto simp: timer_world_simps sample_timer_def less_eq_timestamp_def addTime_exact)
qed

end
