(* ===== verification/Sockets.thy ===== *)
theory Sockets
  imports Timer_Queue
begin

text \<open>
  The socket wrappers: \<^verbatim>\<open>socketops\<close> (src/reactor/Socketops.cc) and \<^verbatim>\<open>Socket\<close> (Socket.h, Socket.cc). Each is a
  system call through \<open>do_sys\<close>. The \<^verbatim>\<open>...OrDie\<close> functions report a failure with \<^verbatim>\<open>LOG_SYSFATAL\<close>, which
  only logs, so they return normally. A \<^verbatim>\<open>Socket\<close> owns nothing but its descriptor and is modelled by it.
\<close>

section \<open>socketops\<close>

definition createNonblockingOrDie :: "kernel \<Rightarrow> 'z reactor_scheme \<Rightarrow> int \<times> 'z reactor_scheme" where
  "createNonblockingOrDie os w = (case do_sys os Sys_socket w of (r, w1) \<Rightarrow> (sr_ret r, w1))"

text \<open>\<^verbatim>\<open>connect\<close> with the \<^verbatim>\<open>errno\<close> it leaves.\<close>

definition socketops_connect :: "kernel \<Rightarrow> int \<Rightarrow> sockaddr_in \<Rightarrow> 'z reactor_scheme \<Rightarrow> (int \<times> int) \<times> 'z reactor_scheme" where
  "socketops_connect os sockfd addr w = (case do_sys os (Sys_connect sockfd addr) w of (r, w1) \<Rightarrow> ((sr_ret r, sr_errno r), w1))"

definition bindOrDie :: "kernel \<Rightarrow> int \<Rightarrow> sockaddr_in \<Rightarrow> 'z reactor_scheme \<Rightarrow> 'z reactor_scheme" where
  "bindOrDie os sockfd addr w = snd (do_sys os (Sys_bind sockfd addr) w)"

definition listenOrDie :: "kernel \<Rightarrow> int \<Rightarrow> 'z reactor_scheme \<Rightarrow> 'z reactor_scheme" where
  "listenOrDie os sockfd w = snd (do_sys os (Sys_listen sockfd) w)"

text \<open>\<^verbatim>\<open>accept\<close> into a zeroed address; every branch of the \<^verbatim>\<open>switch\<close> over \<^verbatim>\<open>errno\<close> leaves it as it is.\<close>

definition socketops_accept :: "kernel \<Rightarrow> int \<Rightarrow> 'z reactor_scheme \<Rightarrow> (int \<times> sockaddr_in) \<times> 'z reactor_scheme" where
  "socketops_accept os listenfd w = (case do_sys os (Sys_accept4 listenfd) w of (r, w1) \<Rightarrow>
     ((sr_ret r, if sr_ret r < 0 then sockaddr_zero else sr_addr r), w1))"

definition closefd :: "kernel \<Rightarrow> int \<Rightarrow> 'z reactor_scheme \<Rightarrow> 'z reactor_scheme" where
  "closefd os fd w = snd (do_sys os (Sys_close fd) w)"

definition socketops_shutdownWrite :: "kernel \<Rightarrow> int \<Rightarrow> 'z reactor_scheme \<Rightarrow> 'z reactor_scheme" where
  "socketops_shutdownWrite os sockfd w = snd (do_sys os (Sys_shutdown sockfd) w)"

definition getLocalAddr :: "kernel \<Rightarrow> int \<Rightarrow> 'z reactor_scheme \<Rightarrow> sockaddr_in \<times> 'z reactor_scheme" where
  "getLocalAddr os sockfd w = (case do_sys os (Sys_getsockname sockfd) w of (r, w1) \<Rightarrow>
     (if sr_ret r < 0 then sockaddr_zero else sr_addr r, w1))"

definition getPeerAddr :: "kernel \<Rightarrow> int \<Rightarrow> 'z reactor_scheme \<Rightarrow> sockaddr_in \<times> 'z reactor_scheme" where
  "getPeerAddr os sockfd w = (case do_sys os (Sys_getpeername sockfd) w of (r, w1) \<Rightarrow>
     (if sr_ret r < 0 then sockaddr_zero else sr_addr r, w1))"

definition getSocketError :: "kernel \<Rightarrow> int \<Rightarrow> 'z reactor_scheme \<Rightarrow> int \<times> 'z reactor_scheme" where
  "getSocketError os sockfd w = (case do_sys os (Sys_getsockopt_error sockfd) w of (r, w1) \<Rightarrow>
     (if sr_ret r < 0 then sr_errno r else sr_optval r, w1))"

definition isSelfConnect :: "kernel \<Rightarrow> int \<Rightarrow> 'z reactor_scheme \<Rightarrow> bool \<times> 'z reactor_scheme" where
  "isSelfConnect os sockfd w =
     (case getLocalAddr os sockfd w of (localaddr, w1) \<Rightarrow>
      case getPeerAddr os sockfd w1 of (peeraddr, w2) \<Rightarrow>
      (sin_port localaddr = sin_port peeraddr \<and> s_addr localaddr = s_addr peeraddr, w2))"

section \<open>Socket\<close>

definition Socket_delete :: "kernel \<Rightarrow> int \<Rightarrow> 'z reactor_scheme \<Rightarrow> 'z reactor_scheme" where
  "Socket_delete os sockfd w = closefd os sockfd w"

definition bindAddress :: "kernel \<Rightarrow> int \<Rightarrow> sockaddr_in \<Rightarrow> 'z reactor_scheme \<Rightarrow> 'z reactor_scheme" where
  "bindAddress os sockfd localaddr w = bindOrDie os sockfd localaddr w"

definition Socket_listen :: "kernel \<Rightarrow> int \<Rightarrow> 'z reactor_scheme \<Rightarrow> 'z reactor_scheme" where
  "Socket_listen os sockfd w = listenOrDie os sockfd w"

definition Socket_accept :: "kernel \<Rightarrow> int \<Rightarrow> 'z reactor_scheme \<Rightarrow> (int \<times> sockaddr_in) \<times> 'z reactor_scheme" where
  "Socket_accept os sockfd w = socketops_accept os sockfd w"

definition setReuseAddr :: "kernel \<Rightarrow> int \<Rightarrow> bool \<Rightarrow> 'z reactor_scheme \<Rightarrow> 'z reactor_scheme" where
  "setReuseAddr os sockfd on w = snd (do_sys os (Sys_setsockopt_reuseaddr sockfd (if on then 1 else 0)) w)"

definition Socket_shutdownWrite :: "kernel \<Rightarrow> int \<Rightarrow> 'z reactor_scheme \<Rightarrow> 'z reactor_scheme" where
  "Socket_shutdownWrite os sockfd w = socketops_shutdownWrite os sockfd w"

definition Socket_setTcpNoDelay :: "kernel \<Rightarrow> int \<Rightarrow> bool \<Rightarrow> 'z reactor_scheme \<Rightarrow> 'z reactor_scheme" where
  "Socket_setTcpNoDelay os sockfd on w = snd (do_sys os (Sys_setsockopt_nodelay sockfd (if on then 1 else 0)) w)"

lemmas sockets_defs = createNonblockingOrDie_def socketops_connect_def bindOrDie_def listenOrDie_def
  socketops_accept_def closefd_def socketops_shutdownWrite_def getLocalAddr_def getPeerAddr_def getSocketError_def
  isSelfConnect_def Socket_delete_def bindAddress_def Socket_listen_def Socket_accept_def setReuseAddr_def
  Socket_shutdownWrite_def Socket_setTcpNoDelay_def

end
