(* ===== verification/Tcp_Connection.thy ===== *)
theory Tcp_Connection
  imports Sockets
begin

text \<open>
  \<^verbatim>\<open>TcpConnection\<close> (src/reactor/TcpConnection.h, TcpConnection.cc) and the store of the networking objects.

  The reactor's state is extended by one map per class. The callbacks a user installs are numbers;
  \<open>ub\<close>, a record of functions, gives their meaning and that of the close callback, which \<^verbatim>\<open>TcpServer\<close> and
  \<^verbatim>\<open>TcpClient\<close> install. Calling an empty \<^verbatim>\<open>boost::function\<close> throws (\<open>BadFunctionCall\<close>).
\<close>

section \<open>Objects\<close>

datatype conn_state = kConnecting | kConnected | kDisconnecting | kDisConnected

record tcpConnection =
  tc_loop :: ptr
  tc_state :: conn_state
  tc_name :: string
  tc_sockfd :: int
  tc_channel :: ptr
  tc_localAddr :: sockaddr_in
  tc_peerAddr :: sockaddr_in
  tc_connectionCallback :: "nat option"
  tc_messageCallback :: "nat option"
  tc_writeCompleteCallback :: "nat option"
  tc_closeCallback :: "close_callback option"
  tc_inputBuffer :: Buffer
  tc_outputBuffer :: Buffer

record acceptor =
  ac_loop :: ptr
  ac_sockfd :: int
  ac_channel :: ptr
  ac_newConnectionCallback :: "ptr option"
  ac_listenning :: bool

datatype connector_state = Connector_kDisconnected | Connector_kConnecting | Connector_kConnected

record connector =
  co_loop :: ptr
  co_serverAddr :: sockaddr_in
  co_connect :: bool
  co_state :: connector_state
  co_channel :: "ptr option"
  co_newConnectionCallback :: "ptr option"
  co_retryDelayMs :: int
  co_timerId :: "(ptr \<times> 64 word) option"

record eventLoopThread =
  et_loop :: "ptr option"
  et_existing :: bool
  et_started :: bool
  et_joined :: bool
  et_finished :: bool
  et_tid :: tid

record eventLoopThreadPool =
  tp_baseLoop :: ptr
  tp_started :: bool
  tp_numThreads :: int
  tp_next :: int
  tp_threads :: "ptr list"
  tp_loops :: "ptr list"

record tcpServer =
  sv_loop :: ptr
  sv_started :: bool
  sv_nextConnfd :: int
  sv_name :: string
  sv_acceptor :: ptr
  sv_threadPool :: eventLoopThreadPool
  sv_connectionCallback :: "nat option"
  sv_messageCallback :: "nat option"
  sv_connections :: "string \<Rightarrow> ptr option"

record tcpClient =
  cl_loop :: ptr
  cl_connector :: ptr
  cl_connectionCallback :: "nat option"
  cl_messageCallback :: "nat option"
  cl_writeCompleteCallback :: "nat option"
  cl_retry :: bool
  cl_connect :: bool
  cl_nextConnId :: int
  cl_connection :: "ptr option"

record net = reactor +
  conns :: "ptr \<Rightarrow> tcpConnection option"
  acceptors :: "ptr \<Rightarrow> acceptor option"
  connectors :: "ptr \<Rightarrow> connector option"
  servers :: "ptr \<Rightarrow> tcpServer option"
  clients :: "ptr \<Rightarrow> tcpClient option"
  elthreads :: "ptr \<Rightarrow> eventLoopThread option"

record 'w callbacks =
  on_connection :: "nat \<Rightarrow> ptr \<Rightarrow> 'w \<Rightarrow> 'w res"
  on_message :: "nat \<Rightarrow> ptr \<Rightarrow> timestamp \<Rightarrow> 'w \<Rightarrow> 'w res"
  on_write_complete :: "nat \<Rightarrow> ptr \<Rightarrow> 'w \<Rightarrow> 'w res"
  on_close :: "close_callback \<Rightarrow> ptr \<Rightarrow> 'w \<Rightarrow> 'w res"

definition upd_conn :: "(tcpConnection \<Rightarrow> tcpConnection) \<Rightarrow> ptr \<Rightarrow> 'z net_scheme \<Rightarrow> 'z net_scheme" where
  "upd_conn f c w = w\<lparr>conns := upd f c (conns w)\<rparr>"

definition call_fun :: "'f option \<Rightarrow> ('f \<Rightarrow> 'w \<Rightarrow> 'w res) \<Rightarrow> 'w \<Rightarrow> 'w res" where
  "call_fun cb run w = (case cb of None \<Rightarrow> Inl BadFunctionCall | Some f \<Rightarrow> run f w)"

section \<open>Construction\<close>

text \<open>
  The initialiser \<^verbatim>\<open>peerAddr_(peerAddr_)\<close> copies the member onto itself, so the peer address is whatever
  the fresh memory held: \<open>garbage\<close>. The argument \<open>peerAddr\<close> is not used.
\<close>

definition TcpConnection_new ::
    "sockaddr_in \<Rightarrow> ptr \<Rightarrow> string \<Rightarrow> int \<Rightarrow> sockaddr_in \<Rightarrow> sockaddr_in \<Rightarrow> 'z net_scheme \<Rightarrow> (ptr \<times> 'z net_scheme) res" where
  "TcpConnection_new garbage l name sockfd localAddr peerAddr w =
     bindR Buffer_new (\<lambda>inb.
     bindR Buffer_new (\<lambda>outb.
     case Channel_new l sockfd False w of (ch, w1) \<Rightarrow>
     let c = nextptr w1;
         w2 = upd_chan (\<lambda>x. x\<lparr>ch_readCallback := Some (TcpConnection_handleRead_cb c),
                              ch_closeCallback := Some (TcpConnection_handleClose_cb c),
                              ch_writeCallback := Some (TcpConnection_handleWrite_cb c),
                              ch_errorCallback := Some (TcpConnection_handleError_cb c)\<rparr>) ch w1 in
     Inr (c, w2\<lparr>nextptr := c + 1, conns := (conns w2)(c \<mapsto>
       \<lparr>tc_loop = l, tc_state = kConnecting, tc_name = name, tc_sockfd = sockfd, tc_channel = ch,
        tc_localAddr = localAddr, tc_peerAddr = garbage, tc_connectionCallback = None,
        tc_messageCallback = None, tc_writeCompleteCallback = None, tc_closeCallback = None,
        tc_inputBuffer = inb, tc_outputBuffer = outb\<rparr>)\<rparr>)))"

text \<open>The destructor, with the members it destroys: the channel and then the socket, which is closed.\<close>

definition TcpConnection_delete :: "kernel \<Rightarrow> ptr \<Rightarrow> 'z net_scheme \<Rightarrow> 'z net_scheme res" where
  "TcpConnection_delete os c w =
     bindR (deref (conns w) c) (\<lambda>tc.
     bindR (Channel_delete (tc_channel tc) w) (\<lambda>w1.
     Inr (Socket_delete os (tc_sockfd tc) (w1\<lparr>conns := (conns w1)(c := None)\<rparr>))))"

definition setConnectionCallBack :: "nat option \<Rightarrow> ptr \<Rightarrow> 'z net_scheme \<Rightarrow> 'z net_scheme" where
  "setConnectionCallBack cb = upd_conn (\<lambda>tc. tc\<lparr>tc_connectionCallback := cb\<rparr>)"

definition setMessageConnectionCallBack :: "nat option \<Rightarrow> ptr \<Rightarrow> 'z net_scheme \<Rightarrow> 'z net_scheme" where
  "setMessageConnectionCallBack cb = upd_conn (\<lambda>tc. tc\<lparr>tc_messageCallback := cb\<rparr>)"

definition setWriteCompeleteCallback :: "nat option \<Rightarrow> ptr \<Rightarrow> 'z net_scheme \<Rightarrow> 'z net_scheme" where
  "setWriteCompeleteCallback cb = upd_conn (\<lambda>tc. tc\<lparr>tc_writeCompleteCallback := cb\<rparr>)"

definition setCloseCallBack :: "close_callback option \<Rightarrow> ptr \<Rightarrow> 'z net_scheme \<Rightarrow> 'z net_scheme" where
  "setCloseCallBack cb = upd_conn (\<lambda>tc. tc\<lparr>tc_closeCallback := cb\<rparr>)"

definition connected :: "tcpConnection \<Rightarrow> bool" where
  "connected tc \<longleftrightarrow> tc_state tc = kConnected"

definition setState :: "conn_state \<Rightarrow> tcpConnection \<Rightarrow> tcpConnection" where
  "setState s tc = tc\<lparr>tc_state := s\<rparr>"

section \<open>Sending\<close>

text \<open>The first half of \<^verbatim>\<open>sendInLoop\<close>: the direct write, giving \<^verbatim>\<open>nwrote\<close>.\<close>

definition direct_write :: "kernel \<Rightarrow> tid \<Rightarrow> ptr \<Rightarrow> byte list \<Rightarrow> 'z net_scheme \<Rightarrow> (int \<times> 'z net_scheme) res" where
  "direct_write os cur c message w =
     bindR (deref (conns w) c) (\<lambda>tc.
     bindR (deref (chans w) (tc_channel tc)) (\<lambda>ch.
     if \<not> isWriting ch \<and> readableBytes (tc_outputBuffer tc) \<noteq> 0
     then case do_sys os (Sys_write (ch_fd ch) message) w of (r, w1) \<Rightarrow>
       if 0 \<le> sr_ret r
       then if nat (sr_ret r) < length message then Inr (sr_ret r, w1)
         else if tc_writeCompleteCallback tc \<noteq> None
         then bindR (queueInLoop os cur (tc_loop tc) (WriteComplete c) w1) (\<lambda>w2. Inr (sr_ret r, w2))
         else Inr (sr_ret r, w1)
       else Inr (0, w1)
     else Inr (0, w)))"

definition sendInLoop :: "kernel \<Rightarrow> tid \<Rightarrow> ptr \<Rightarrow> byte list \<Rightarrow> 'z net_scheme \<Rightarrow> 'z net_scheme res" where
  "sendInLoop os cur c message w =
     bindR (deref (conns w) c) (\<lambda>tc.
     bindR (assertInLoopThread cur (tc_loop tc) w) (\<lambda>_.
     bindR (direct_write os cur c message w) (\<lambda>(nwrote, w1).
     assertC (0 \<le> nwrote) (
     if nat nwrote < length message
     then bindR (deref (conns w1) c) (\<lambda>tc1.
       bindR (Buffer_append (drop (nat nwrote) message) (tc_outputBuffer tc1)) (\<lambda>b.
       let w2 = upd_conn (\<lambda>tc. tc\<lparr>tc_outputBuffer := b\<rparr>) c w1 in
       bindR (deref (chans w2) (tc_channel tc1)) (\<lambda>ch.
       if \<not> isWriting ch then enableWriting os cur (tc_channel tc1) w2 else Inr w2)))
     else Inr w1))))"

definition TcpConnection_send :: "kernel \<Rightarrow> tid \<Rightarrow> ptr \<Rightarrow> byte list \<Rightarrow> 'z net_scheme \<Rightarrow> 'z net_scheme res" where
  "TcpConnection_send os cur c message w =
     bindR (deref (conns w) c) (\<lambda>tc.
     if tc_state tc = kConnected
     then bindR (deref (loops w) (tc_loop tc)) (\<lambda>lp.
       if isInLoopThread cur lp then sendInLoop os cur c message w
       else runInLoop os (\<lambda>_. sendInLoop os cur c message) cur (tc_loop tc) (SendInLoop c message) w)
     else Inr w)"

section \<open>Shutdown\<close>

definition shutdownInLoop :: "kernel \<Rightarrow> tid \<Rightarrow> ptr \<Rightarrow> 'z net_scheme \<Rightarrow> 'z net_scheme res" where
  "shutdownInLoop os cur c w =
     bindR (deref (conns w) c) (\<lambda>tc.
     bindR (assertInLoopThread cur (tc_loop tc) w) (\<lambda>_.
     bindR (deref (chans w) (tc_channel tc)) (\<lambda>ch.
     if \<not> isWriting ch then Inr (Socket_shutdownWrite os (tc_sockfd tc) w) else Inr w)))"

definition TcpConnection_shutdown :: "kernel \<Rightarrow> tid \<Rightarrow> ptr \<Rightarrow> 'z net_scheme \<Rightarrow> 'z net_scheme res" where
  "TcpConnection_shutdown os cur c w =
     bindR (deref (conns w) c) (\<lambda>tc.
     if tc_state tc = kConnected
     then runInLoop os (\<lambda>_. shutdownInLoop os cur c) cur (tc_loop tc) (ShutdownInLoop c)
       (upd_conn (setState kDisconnecting) c w)
     else Inr w)"

definition TcpConnection_setTcpNoDelay :: "kernel \<Rightarrow> ptr \<Rightarrow> bool \<Rightarrow> 'z net_scheme \<Rightarrow> 'z net_scheme res" where
  "TcpConnection_setTcpNoDelay os c on w =
     bindR (deref (conns w) c) (\<lambda>tc. Inr (Socket_setTcpNoDelay os (tc_sockfd tc) on w))"

section \<open>Event handlers\<close>

definition connectEstablished ::
    "'z net_scheme callbacks \<Rightarrow> kernel \<Rightarrow> tid \<Rightarrow> ptr \<Rightarrow> 'z net_scheme \<Rightarrow> 'z net_scheme res" where
  "connectEstablished ub os cur c w =
     bindR (deref (conns w) c) (\<lambda>tc.
     bindR (assertInLoopThread cur (tc_loop tc) w) (\<lambda>_.
     assertC (tc_state tc = kConnecting) (
     bindR (enableReading os cur (tc_channel tc) w) (\<lambda>w1.
     call_fun (tc_connectionCallback tc) (\<lambda>f. on_connection ub f c) (upd_conn (setState kConnected) c w1)))))"

definition TcpConnection_handleClose ::
    "'z net_scheme callbacks \<Rightarrow> kernel \<Rightarrow> tid \<Rightarrow> ptr \<Rightarrow> 'z net_scheme \<Rightarrow> 'z net_scheme res" where
  "TcpConnection_handleClose ub os cur c w =
     bindR (deref (conns w) c) (\<lambda>tc.
     bindR (assertInLoopThread cur (tc_loop tc) w) (\<lambda>_.
     assertC (tc_state tc = kConnected \<or> tc_state tc = kDisconnecting) (
     bindR (disableAll os cur (tc_channel tc) w) (\<lambda>w1.
     call_fun (tc_closeCallback tc) (\<lambda>f. on_close ub f c) w1))))"

definition TcpConnection_handleError :: "kernel \<Rightarrow> ptr \<Rightarrow> 'z net_scheme \<Rightarrow> 'z net_scheme res" where
  "TcpConnection_handleError os c w =
     bindR (deref (conns w) c) (\<lambda>tc.
     bindR (deref (chans w) (tc_channel tc)) (\<lambda>ch. Inr (snd (getSocketError os (ch_fd ch) w))))"

definition TcpConnection_handleRead ::
    "'z net_scheme callbacks \<Rightarrow> kernel \<Rightarrow> tid \<Rightarrow> ptr \<Rightarrow> timestamp \<Rightarrow> 'z net_scheme \<Rightarrow> 'z net_scheme res" where
  "TcpConnection_handleRead ub os cur c receiveTime w =
     bindR (deref (conns w) c) (\<lambda>tc.
     bindR (deref (chans w) (tc_channel tc)) (\<lambda>ch.
     case do_sys os (Sys_readv (ch_fd ch) (writableBytes (tc_inputBuffer tc) + extrabuf_size)) w of (r, w1) \<Rightarrow>
     bindR (readFd (sr_ret r) (sr_errno r) (sr_data r) (tc_inputBuffer tc)) (\<lambda>(n, _, b).
     let w2 = upd_conn (\<lambda>tc. tc\<lparr>tc_inputBuffer := b\<rparr>) c w1 in
     if 0 < n then call_fun (tc_messageCallback tc) (\<lambda>f. on_message ub f c receiveTime) w2
     else if n = 0 then TcpConnection_handleClose ub os cur c w2
     else TcpConnection_handleError os c w2)))"

definition TcpConnection_handleWrite :: "kernel \<Rightarrow> tid \<Rightarrow> ptr \<Rightarrow> 'z net_scheme \<Rightarrow> 'z net_scheme res" where
  "TcpConnection_handleWrite os cur c w =
     bindR (deref (conns w) c) (\<lambda>tc.
     bindR (assertInLoopThread cur (tc_loop tc) w) (\<lambda>_.
     bindR (deref (chans w) (tc_channel tc)) (\<lambda>ch.
     if isWriting ch
     then bindR (read_range (peek (tc_outputBuffer tc)) (readableBytes (tc_outputBuffer tc))
         (buffer (tc_outputBuffer tc))) (\<lambda>data.
       case do_sys os (Sys_write (ch_fd ch) data) w of (r, w1) \<Rightarrow>
       if 0 < sr_ret r
       then bindR (retrieve (nat (sr_ret r)) (tc_outputBuffer tc)) (\<lambda>b.
         let w2 = upd_conn (\<lambda>tc. tc\<lparr>tc_outputBuffer := b\<rparr>) c w1 in
         if readableBytes b = 0
         then bindR (disableWriting os cur (tc_channel tc) w2) (\<lambda>w3.
           bindR (if tc_writeCompleteCallback tc \<noteq> None then queueInLoop os cur (tc_loop tc) (WriteComplete c) w3 else Inr w3) (\<lambda>w4.
           if tc_state tc = kDisconnecting then shutdownInLoop os cur c w4 else Inr w4))
         else Inr w2)
       else Inr w1)
     else Inr w)))"

definition connectDestoryed ::
    "'z net_scheme callbacks \<Rightarrow> kernel \<Rightarrow> tid \<Rightarrow> ptr \<Rightarrow> 'z net_scheme \<Rightarrow> 'z net_scheme res" where
  "connectDestoryed ub os cur c w =
     bindR (deref (conns w) c) (\<lambda>tc.
     bindR (assertInLoopThread cur (tc_loop tc) w) (\<lambda>_.
     assertC (tc_state tc = kConnected \<or> tc_state tc = kDisconnecting) (
     bindR (disableAll os cur (tc_channel tc) (upd_conn (setState kDisConnected) c w)) (\<lambda>w1.
     bindR (call_fun (tc_connectionCallback tc) (\<lambda>f. on_connection ub f c) w1) (\<lambda>w2.
     EventLoop_removeChannel os cur (tc_loop tc) (tc_channel tc) w2)))))"

section \<open>The outgoing byte stream\<close>

text \<open>The bytes the kernel took from \<^verbatim>\<open>write\<close> calls on a descriptor.\<close>

fun accepted :: "int \<Rightarrow> syscall \<times> sysres \<Rightarrow> byte list" where
  "accepted fd (Sys_write fd' d, r) = (if fd' = fd then take (nat (sr_ret r)) d else [])"
| "accepted fd (c, r) = []"

definition written :: "int \<Rightarrow> history \<Rightarrow> byte list" where
  "written fd h = concat (map (accepted fd) h)"

definition was_shut :: "int \<Rightarrow> history \<Rightarrow> bool" where
  "was_shut fd h \<longleftrightarrow> Sys_shutdown fd \<in> fst ` set h"

lemma written_append [simp]: "written fd (h @ h') = written fd h @ written fd h'"
  by (simp add: written_def)

lemma written_single [simp]: "written fd [x] = accepted fd x" "written fd [] = []"
  by (simp_all add: written_def)

lemma was_shut_append [simp]: "was_shut fd (h @ h') \<longleftrightarrow> was_shut fd h \<or> was_shut fd h'"
  by (auto simp: was_shut_def)

lemma was_shut_single [simp]: "was_shut fd [x] \<longleftrightarrow> fst x = Sys_shutdown fd" "\<not> was_shut fd []"
  by (auto simp: was_shut_def)

text \<open>What the connection's operations read of the loop and the channel.\<close>

definition loop_view :: "ptr \<Rightarrow> 'z reactor_scheme \<Rightarrow> (tid \<times> int) option" where
  "loop_view l w = map_option (\<lambda>lp. (el_threadId lp, el_wakeupfd lp)) (loops w l)"

definition chan_ev :: "ptr \<Rightarrow> 'z reactor_scheme \<Rightarrow> (int \<times> ptr \<times> 32 word) option" where
  "chan_ev p w = map_option (\<lambda>ch. (ch_fd ch, ch_loop ch, ch_events ch)) (chans w p)"

lemma conns_simps [simp]:
  "conns (upd_chan f p w) = conns w" "conns (upd_loop g l w) = conns w" "conns (upd_timer h t w) = conns w"
  "conns (upd_conn k c w) = upd k c (conns w)"
  by (simp_all add: upd_chan_def upd_loop_def upd_timer_def upd_conn_def)

lemma upd_conn_frame [simp]:
  "chans (upd_conn f c w) = chans w" "loops (upd_conn f c w) = loops w" "trace (upd_conn f c w) = trace w"
  "timers (upd_conn f c w) = timers w" "nextptr (upd_conn f c w) = nextptr w"
  "loop_view l (upd_conn f c w) = loop_view l w" "chan_ev p (upd_conn f c w) = chan_ev p w"
  by (simp_all add: upd_conn_def loop_view_def chan_ev_def)

lemma views_trace [simp]:
  "loop_view l (w\<lparr>trace := h\<rparr>) = loop_view l w" "chan_ev p (w\<lparr>trace := h\<rparr>) = chan_ev p w"
  by (simp_all add: loop_view_def chan_ev_def)

lemma views_chan [simp]:
  "loop_view l (upd_chan f p w) = loop_view l w" "chan_ev p (upd_loop g l w) = chan_ev p w"
  by (simp_all add: loop_view_def chan_ev_def)

text \<open>The effect of \<^verbatim>\<open>events_ = ev; update()\<close> on what connections see.\<close>

lemma Channel_update_views:
  assumes "Channel_update os cur p (upd_chan (set_events ev) p w) = Inr w'" "chan_ev p w = Some (fd, l, ev0)"
  shows "conns w' = conns w" "chan_ev p w' = Some (fd, l, ev)" "\<And>l. loop_view l w' = loop_view l w"
    "written n (trace w') = written n (trace w)" "was_shut n (trace w') = was_shut n (trace w)"
    "\<And>q. q \<noteq> p \<Longrightarrow> chans w' q = chans w q"
proof -
  obtain ch lp where c: "chans (upd_chan (set_events ev) p w) p = Some ch"
      "loops (upd_chan (set_events ev) p w) (ch_loop ch) = Some lp"
    and w': "w' = after_update os p ch lp (upd_chan (set_events ev) p w)"
    using assms(1) by (rule Channel_update_InrE)
  obtain ch0 where ch0: "chans w p = Some ch0" "ch_fd ch0 = fd" "ch_loop ch0 = l"
    using assms(2) by (auto simp: chan_ev_def)
  have ch: "ch = set_events ev ch0" using c(1) ch0 by simp
  show "conns w' = conns w" "written n (trace w') = written n (trace w)" "was_shut n (trace w') = was_shut n (trace w)"
    "\<And>q. q \<noteq> p \<Longrightarrow> chans w' q = chans w q"
    by (simp_all add: w' after_update_def Let_def)
  show "chan_ev p w' = Some (fd, l, ev)"
    using ch0 by (simp add: w' ch after_update_def Let_def chan_ev_def)
  show "loop_view l' w' = loop_view l' w" for l'
    using ch0 c(2) by (auto simp: w' ch after_update_def Let_def loop_view_def upd_def)
qed

lemma writing_flag:
  "(ev OR kWriteEvent) AND kWriteEvent \<noteq> 0" "(ev AND NOT kWriteEvent) AND kWriteEvent = 0"
  "kNoneEvent AND kWriteEvent = 0"
proof -
  have "(ev OR kWriteEvent) AND kWriteEvent = kWriteEvent"
    by (rule bit_eqI) (auto simp: bit_and_iff bit_or_iff)
  then show "(ev OR kWriteEvent) AND kWriteEvent \<noteq> 0" by (simp add: kWriteEvent_def EPOLLOUT_def)
  show "(ev AND NOT kWriteEvent) AND kWriteEvent = 0"
    by (simp add: and.assoc)
  show "kNoneEvent AND kWriteEvent = 0" by (simp add: kNoneEvent_def)
qed

text \<open>
  The invariant of an open connection: its channel serves its descriptor on its loop, and the
  channel asks for \<^verbatim>\<open>EPOLLOUT\<close> exactly while unsent bytes are buffered.
\<close>

definition conn_ok :: "ptr \<Rightarrow> 'z net_scheme \<Rightarrow> bool" where
  "conn_ok c w \<longleftrightarrow> (\<exists>tc ev thr wk. conns w c = Some tc \<and>
     chan_ev (tc_channel tc) w = Some (tc_sockfd tc, tc_loop tc, ev) \<and>
     loop_view (tc_loop tc) w = Some (thr, wk) \<and> wk \<noteq> tc_sockfd tc \<and> Buffer_inv (tc_outputBuffer tc) \<and>
     (ev AND kWriteEvent \<noteq> 0 \<longleftrightarrow> Buffer_content (tc_outputBuffer tc) \<noteq> []))"

lemma conn_okI:
  "conns w c = Some tc \<Longrightarrow> chan_ev (tc_channel tc) w = Some (tc_sockfd tc, tc_loop tc, ev) \<Longrightarrow>
   loop_view (tc_loop tc) w = Some (thr, wk) \<Longrightarrow> wk \<noteq> tc_sockfd tc \<Longrightarrow> Buffer_inv (tc_outputBuffer tc) \<Longrightarrow>
   (ev AND kWriteEvent \<noteq> 0 \<longleftrightarrow> Buffer_content (tc_outputBuffer tc) \<noteq> []) \<Longrightarrow> conn_ok c w"
  unfolding conn_ok_def by blast

text \<open>Everything handed to the connection so far: what the kernel took, then what is still buffered.\<close>

definition conn_stream :: "ptr \<Rightarrow> 'z net_scheme \<Rightarrow> byte list" where
  "conn_stream c w = (case conns w c of None \<Rightarrow> []
     | Some tc \<Rightarrow> written (tc_sockfd tc) (trace w) @ Buffer_content (tc_outputBuffer tc))"

lemma conn_stream_eq:
  "conns w c = Some tc \<Longrightarrow> conn_stream c w = written (tc_sockfd tc) (trace w) @ Buffer_content (tc_outputBuffer tc)"
  by (simp add: conn_stream_def)

lemma chan_ev_Some: "chan_ev p w = Some (fd, l, ev) \<longleftrightarrow> (\<exists>ch. chans w p = Some ch \<and> ch_fd ch = fd \<and> ch_loop ch = l \<and> ch_events ch = ev)"
  by (auto simp: chan_ev_def)

lemma loop_view_Some: "loop_view l w = Some (thr, wk) \<longleftrightarrow> (\<exists>lp. loops w l = Some lp \<and> el_threadId lp = thr \<and> el_wakeupfd lp = wk)"
  by (auto simp: loop_view_def)

lemma enableWriting_views:
  assumes "enableWriting os cur p w = Inr w'" "chan_ev p w = Some (fd, l, ev)"
  shows "Channel_update os cur p (upd_chan (set_events (ev OR kWriteEvent)) p w) = Inr w'"
  using assms by (auto simp: enableWriting_def chan_ev_Some)

lemma disableWriting_views:
  assumes "disableWriting os cur p w = Inr w'" "chan_ev p w = Some (fd, l, ev)"
  shows "Channel_update os cur p (upd_chan (set_events (ev AND NOT kWriteEvent)) p w) = Inr w'"
  using assms by (auto simp: disableWriting_def chan_ev_Some)

lemma readable_zero_iff: "Buffer_inv b \<Longrightarrow> readableBytes b = 0 \<longleftrightarrow> Buffer_content b = []"
  by (metis length_0_conv length_Buffer_content)

text \<open>In an invariant state the direct write of \<^verbatim>\<open>sendInLoop\<close> never happens.\<close>

lemma direct_write_skipped:
  assumes "conn_ok c w"
  shows "direct_write os cur c m w = Inr (0, w)"
proof -
  obtain tc ch where tc: "conns w c = Some tc" "chans w (tc_channel tc) = Some ch" "Buffer_inv (tc_outputBuffer tc)"
    and ev: "isWriting ch \<longleftrightarrow> Buffer_content (tc_outputBuffer tc) \<noteq> []"
    using assms by (auto simp: conn_ok_def chan_ev_Some isWriting_def)
  have "\<not> (\<not> isWriting ch \<and> readableBytes (tc_outputBuffer tc) \<noteq> 0)"
    unfolding ev readable_zero_iff [OF tc(3)] by blast
  then show ?thesis
    by (simp only: direct_write_def deref_simps(1) [of "conns w", OF tc(1)] deref_simps(1) [of "chans w", OF tc(2)]
        bindR_simps if_False)
qed

text \<open>What sending does not change.\<close>

definition conn_frame :: "ptr \<Rightarrow> 'z net_scheme \<Rightarrow> 'z net_scheme \<Rightarrow> bool" where
  "conn_frame c w w' \<longleftrightarrow> (\<forall>l. loop_view l w' = loop_view l w) \<and>
     map_option (\<lambda>tc. (tc_state tc, tc_sockfd tc, tc_loop tc)) (conns w' c) =
     map_option (\<lambda>tc. (tc_state tc, tc_sockfd tc, tc_loop tc)) (conns w c)"

lemma sendInLoop_stream:
  assumes ok: "conn_ok c w" and run: "sendInLoop os cur c m w = Inr w'" and len: "length m \<le> vector_max"
  shows "conn_ok c w'" "conn_stream c w' = conn_stream c w @ m"
    "written n (trace w') = written n (trace w)" "was_shut n (trace w') = was_shut n (trace w)"
    "conn_frame c w w'"
proof -
  obtain tc ev thr wk where tc: "conns w c = Some tc"
      "chan_ev (tc_channel tc) w = Some (tc_sockfd tc, tc_loop tc, ev)"
      "loop_view (tc_loop tc) w = Some (thr, wk)" "wk \<noteq> tc_sockfd tc" "Buffer_inv (tc_outputBuffer tc)"
      "ev AND kWriteEvent \<noteq> 0 \<longleftrightarrow> Buffer_content (tc_outputBuffer tc) \<noteq> []"
    using ok by (auto simp: conn_ok_def)
  obtain ch where ch: "chans w (tc_channel tc) = Some ch" "isWriting ch \<longleftrightarrow> ev AND kWriteEvent \<noteq> 0"
    using tc(2) by (auto simp: chan_ev_Some isWriting_def)
  have "conn_ok c w' \<and> conn_stream c w' = conn_stream c w @ m \<and> written n (trace w') = written n (trace w) \<and>
      was_shut n (trace w') = was_shut n (trace w) \<and> conn_frame c w w'"
  proof (cases "m = []")
    case True
    then have "w' = w" using run tc(1) by (auto simp: sendInLoop_def direct_write_skipped [OF ok])
    then show "conn_ok c w' \<and> conn_stream c w' = conn_stream c w @ m \<and> written n (trace w') = written n (trace w) \<and>
      was_shut n (trace w') = was_shut n (trace w) \<and> conn_frame c w w'"
      using ok True by (simp add: conn_frame_def)
  next
    case False
    obtain b where b: "Buffer_append m (tc_outputBuffer tc) = Inr b"
      and en: "(if \<not> isWriting ch then enableWriting os cur (tc_channel tc) (upd_conn (\<lambda>tc. tc\<lparr>tc_outputBuffer := b\<rparr>) c w)
        else Inr (upd_conn (\<lambda>tc. tc\<lparr>tc_outputBuffer := b\<rparr>) c w)) = Inr w'"
      using run tc(1) ch(1) False by (auto simp: sendInLoop_def direct_write_skipped [OF ok] Let_def)
    let ?w2 = "upd_conn (\<lambda>tc. tc\<lparr>tc_outputBuffer := b\<rparr>) c w"
    have bok: "Buffer_inv b" "Buffer_content b = Buffer_content (tc_outputBuffer tc) @ m"
      using Buffer_append_cases [OF tc(5) len] b by auto
    obtain ev' where v: "conns w' = conns ?w2" "chan_ev (tc_channel tc) w' = Some (tc_sockfd tc, tc_loop tc, ev')"
        "ev' AND kWriteEvent \<noteq> 0" "\<And>l. loop_view l w' = loop_view l w"
        "\<And>n. written n (trace w') = written n (trace w)" "\<And>n. was_shut n (trace w') = was_shut n (trace w)"
    proof (cases "isWriting ch")
      case True
      then have "w' = ?w2" using en by simp
      then show thesis using True tc(2,3) ch(2) by (intro that [of ev]) simp_all
    next
      case False
      then have "Channel_update os cur (tc_channel tc) (upd_chan (set_events (ev OR kWriteEvent)) (tc_channel tc) ?w2) = Inr w'"
        using en tc(2) by (intro enableWriting_views) auto
      from Channel_update_views [OF this, of "tc_sockfd tc" "tc_loop tc" ev] show thesis
        using that [of "ev OR kWriteEvent"] tc(2,3) writing_flag(1) by simp
    qed
    have "conns w' c = Some (tc\<lparr>tc_outputBuffer := b\<rparr>)" using v(1) tc(1) by simp
    then show "conn_ok c w' \<and> conn_stream c w' = conn_stream c w @ m \<and> written n (trace w') = written n (trace w) \<and>
      was_shut n (trace w') = was_shut n (trace w) \<and> conn_frame c w w'"
      using v bok tc(1,3,4) False by (auto simp: conn_ok_def conn_stream_def conn_frame_def)
  qed
  then show "conn_ok c w'" "conn_stream c w' = conn_stream c w @ m"
    "written n (trace w') = written n (trace w)" "was_shut n (trace w') = was_shut n (trace w)"
    "conn_frame c w w'"
    by simp_all
qed

text \<open>Two states that agree on what the connections see, apart from \<^verbatim>\<open>shutdown\<close> calls.\<close>

definition same_net :: "int \<Rightarrow> 'z net_scheme \<Rightarrow> 'z net_scheme \<Rightarrow> bool" where
  "same_net fd w w' \<longleftrightarrow> conns w' = conns w \<and> (\<forall>p. chan_ev p w' = chan_ev p w) \<and> (\<forall>l. loop_view l w' = loop_view l w) \<and>
     written fd (trace w') = written fd (trace w)"

lemma same_net_refl [simp]: "same_net fd w w"
  by (simp add: same_net_def)

lemma same_net_trans: "same_net fd w w1 \<Longrightarrow> same_net fd w1 w2 \<Longrightarrow> same_net fd w w2"
  by (simp add: same_net_def)

lemma queueInLoop_same:
  assumes "queueInLoop os cur l f w = Inr w'" "loop_view l w = Some (thr, wk)" "wk \<noteq> fd"
  shows "same_net fd w w'" "was_shut n (trace w') = was_shut n (trace w)"
proof -
  obtain lp where lp: "loops w l = Some lp" "el_wakeupfd lp = wk" using assms(2) by (auto simp: loop_view_Some)
  have w': "w' = (let w1 = upd_loop (push_pending f) l w; c = Sys_write wk one_bytes in
    if el_threadId lp = cur \<or> el_calling lp then w1\<lparr>trace := trace w @ [(c, os (trace w) c)]\<rparr> else w1)"
    using assms(1) queueInLoop_eq [OF lp(1)] lp(2) by simp
  have v: "loop_view l' (upd_loop (push_pending f) l w) = loop_view l' w" for l'
    by (simp add: loop_view_def upd_def option.map_comp comp_def)
  show "same_net fd w w'" "was_shut n (trace w') = was_shut n (trace w)"
    using v assms(3) by (simp_all add: w' Let_def same_net_def)
qed

lemma shutdownInLoop_same:
  assumes "shutdownInLoop os cur c w = Inr w'" "conns w c = Some tc"
    "chan_ev (tc_channel tc) w = Some (fd, l, ev)"
  shows "same_net n w w'" "was_shut n (trace w') \<longleftrightarrow> was_shut n (trace w) \<or> (n = tc_sockfd tc \<and> ev AND kWriteEvent = 0)"
proof -
  obtain ch where ch: "chans w (tc_channel tc) = Some ch" "ch_events ch = ev" using assms(3) by (auto simp: chan_ev_Some)
  have "w' = (if ev AND kWriteEvent = 0 then Socket_shutdownWrite os (tc_sockfd tc) w else w)"
    using assms(1,2) ch by (auto simp: shutdownInLoop_def isWriting_def)
  then show "same_net n w w'" "was_shut n (trace w') \<longleftrightarrow> was_shut n (trace w) \<or> (n = tc_sockfd tc \<and> ev AND kWriteEvent = 0)"
    by (auto simp: sockets_defs same_net_def)
qed

text \<open>A kernel that never reports more bytes written than it was given.\<close>

definition write_ok :: "kernel \<Rightarrow> bool" where
  "write_ok os \<longleftrightarrow> (\<forall>h fd d. sr_ret (os h (Sys_write fd d)) \<le> int (length d))"

text \<open>The end of \<^verbatim>\<open>handleWrite\<close>, after the buffer has been drained.\<close>

lemma handleWrite_drained:
  assumes tc: "conns w c = Some tc" "chan_ev (tc_channel tc) w = Some (tc_sockfd tc, tc_loop tc, ev)"
      "loop_view (tc_loop tc) w = Some (thr, wk)" "wk \<noteq> tc_sockfd tc"
    and run: "bindR (disableWriting os cur (tc_channel tc) w) (\<lambda>w3.
      bindR (if wc then queueInLoop os cur (tc_loop tc) f w3 else Inr w3) (\<lambda>w4.
      if st then shutdownInLoop os cur c w4 else Inr w4)) = Inr w'"
  obtains ev' where "conns w' = conns w" "chan_ev (tc_channel tc) w' = Some (tc_sockfd tc, tc_loop tc, ev')"
    "ev' AND kWriteEvent = 0" "\<And>l. loop_view l w' = loop_view l w"
    "written (tc_sockfd tc) (trace w') = written (tc_sockfd tc) (trace w)"
    "was_shut (tc_sockfd tc) (trace w') \<longleftrightarrow> was_shut (tc_sockfd tc) (trace w) \<or> st"
proof -
  let ?fd = "tc_sockfd tc"
  obtain w3 w4 where w3: "disableWriting os cur (tc_channel tc) w = Inr w3"
    and w4: "(if wc then queueInLoop os cur (tc_loop tc) f w3 else Inr w3) = Inr w4"
    and w5: "(if st then shutdownInLoop os cur c w4 else Inr w4) = Inr w'"
    using run by auto
  let ?ev = "ev AND NOT kWriteEvent"
  note u = Channel_update_views [OF disableWriting_views [OF w3 tc(2)] tc(2)]
  have q: "same_net ?fd w3 w4" "was_shut ?fd (trace w4) = was_shut ?fd (trace w3)"
    using w4 queueInLoop_same [of os cur "tc_loop tc" f w3 w4 thr wk ?fd] tc(3,4) u(3) by (auto split: if_splits)
  have s: "conns w4 c = Some tc" "chan_ev (tc_channel tc) w4 = Some (?fd, tc_loop tc, ?ev)"
    using q(1) u(1,2) tc(1) by (simp_all add: same_net_def)
  have r: "same_net ?fd w4 w'" "was_shut ?fd (trace w') \<longleftrightarrow> was_shut ?fd (trace w4) \<or> st"
  proof (atomize (full), cases st)
    case True
    then have "shutdownInLoop os cur c w4 = Inr w'" using w5 by (simp only: if_True)
    from shutdownInLoop_same [OF this s] True
    show "same_net ?fd w4 w' \<and> (was_shut ?fd (trace w') \<longleftrightarrow> was_shut ?fd (trace w4) \<or> st)"
      using writing_flag(2) by blast
  next
    case False
    then have "w' = w4" using w5 by simp
    then show "same_net ?fd w4 w' \<and> (was_shut ?fd (trace w') \<longleftrightarrow> was_shut ?fd (trace w4) \<or> st)"
      using False by simp
  qed
  have sn: "same_net ?fd w3 w'" by (rule same_net_trans [OF q(1) r(1)])
  show thesis
  proof (rule that [of ?ev])
    show "conns w' = conns w" "chan_ev (tc_channel tc) w' = Some (tc_sockfd tc, tc_loop tc, ?ev)"
      "\<And>l. loop_view l w' = loop_view l w" "written ?fd (trace w') = written ?fd (trace w)"
      using sn u(1-4) by (simp_all add: same_net_def)
    show "was_shut ?fd (trace w') \<longleftrightarrow> was_shut ?fd (trace w) \<or> st" using r(2) q(2) u(5) by simp
  qed (rule writing_flag(2))
qed

lemma handleWrite_stream:
  assumes ok: "conn_ok c w" and w_ok: "write_ok os" and tc: "conns w c = Some tc"
    and run: "TcpConnection_handleWrite os cur c w = Inr w'"
  obtains tc' where "conn_ok c w'" "conn_stream c w' = conn_stream c w" "conns w' c = Some tc'"
    "tc_state tc' = tc_state tc" "tc_sockfd tc' = tc_sockfd tc" "tc_loop tc' = tc_loop tc"
    "\<And>l. loop_view l w' = loop_view l w"
    "was_shut (tc_sockfd tc) (trace w') \<longleftrightarrow> was_shut (tc_sockfd tc) (trace w) \<or>
      (Buffer_content (tc_outputBuffer tc) \<noteq> [] \<and> Buffer_content (tc_outputBuffer tc') = [] \<and> tc_state tc = kDisconnecting)"
proof -
  let ?fd = "tc_sockfd tc" and ?out = "Buffer_content (tc_outputBuffer tc)"
  obtain ev thr wk where v: "chan_ev (tc_channel tc) w = Some (?fd, tc_loop tc, ev)"
      "loop_view (tc_loop tc) w = Some (thr, wk)" "wk \<noteq> ?fd" "Buffer_inv (tc_outputBuffer tc)"
      "ev AND kWriteEvent \<noteq> 0 \<longleftrightarrow> ?out \<noteq> []"
    using ok tc by (auto simp: conn_ok_def)
  obtain ch where ch: "chans w (tc_channel tc) = Some ch" "ch_fd ch = ?fd" "isWriting ch \<longleftrightarrow> ?out \<noteq> []"
    using v(1,5) by (auto simp: chan_ev_Some isWriting_def)
  let ?r = "os (trace w) (Sys_write ?fd ?out)"
  let ?w1 = "w\<lparr>trace := trace w @ [(Sys_write ?fd ?out, ?r)]\<rparr>"
  have rd: "read_range (peek (tc_outputBuffer tc)) (readableBytes (tc_outputBuffer tc)) (buffer (tc_outputBuffer tc)) = Inr ?out"
    using read_range_content [OF v(4)] by (simp add: peek_def)
  consider (idle) "?out = []" | (fail) "?out \<noteq> []" "sr_ret ?r \<le> 0" | (some) "?out \<noteq> []" "0 < sr_ret ?r" by fastforce
  then show thesis
  proof cases
    case idle
    then have "w' = w" using run tc ch by (auto simp: TcpConnection_handleWrite_def)
    then show thesis using that [of tc] ok tc idle by simp
  next
    case fail
    then have "w' = ?w1" using run tc ch rd by (auto simp: TcpConnection_handleWrite_def)
    moreover have "conn_ok c ?w1" using ok by (simp add: conn_ok_def)
    ultimately show thesis using that [of tc] tc fail by (simp add: conn_stream_def)
  next
    case some
    let ?n = "nat (sr_ret ?r)"
    have n: "?n \<le> length ?out" using w_ok by (simp add: write_ok_def nat_le_iff)
    obtain b where b: "retrieve ?n (tc_outputBuffer tc) = Inr b" "Buffer_inv b" "Buffer_content b = drop ?n ?out"
      using retrieve_ok [OF v(4) n] by blast
    let ?tc' = "tc\<lparr>tc_outputBuffer := b\<rparr>"
    let ?w2 = "upd_conn (\<lambda>tc. tc\<lparr>tc_outputBuffer := b\<rparr>) c ?w1"
    have c2: "conns ?w2 c = Some ?tc'" using tc by simp
    have stream: "conn_stream c w = written ?fd (trace ?w2) @ Buffer_content b"
      using tc b(3) by (simp add: conn_stream_def)
    show thesis
    proof (cases "Buffer_content b = []")
      case False
      then have "w' = ?w2"
        using run tc ch rd some b readable_zero_iff [OF b(2)] by (auto simp: TcpConnection_handleWrite_def Let_def)
      moreover have "conn_ok c ?w2" by (rule conn_okI [OF c2]) (use v b(2) some False in simp_all)
      moreover have "conn_stream c ?w2 = conn_stream c w" unfolding stream conn_stream_eq [OF c2] by simp
      ultimately show thesis using that [of ?tc'] c2 some False by simp
    next
      case True
      then have z: "readableBytes b = 0" using readable_zero_iff [OF b(2)] by simp
      have run2: "bindR (disableWriting os cur (tc_channel ?tc') ?w2) (\<lambda>w3.
          bindR (if tc_writeCompleteCallback tc \<noteq> None then queueInLoop os cur (tc_loop ?tc') (WriteComplete c) w3 else Inr w3) (\<lambda>w4.
          if tc_state tc = kDisconnecting then shutdownInLoop os cur c w4 else Inr w4)) = Inr w'"
        using run tc ch rd some b(1) z by (auto simp: TcpConnection_handleWrite_def Let_def)
      have v2: "chan_ev (tc_channel ?tc') ?w2 = Some (tc_sockfd ?tc', tc_loop ?tc', ev)"
        "loop_view (tc_loop ?tc') ?w2 = Some (thr, wk)" "wk \<noteq> tc_sockfd ?tc'"
        using v by simp_all
      obtain ev' where e': "conns w' = conns ?w2" "chan_ev (tc_channel ?tc') w' = Some (tc_sockfd ?tc', tc_loop ?tc', ev')"
          "ev' AND kWriteEvent = 0" "\<And>l. loop_view l w' = loop_view l ?w2"
          "written (tc_sockfd ?tc') (trace w') = written (tc_sockfd ?tc') (trace ?w2)"
          "was_shut (tc_sockfd ?tc') (trace w') \<longleftrightarrow> was_shut (tc_sockfd ?tc') (trace ?w2) \<or> tc_state tc = kDisconnecting"
        using handleWrite_drained [OF c2 v2 run2] by blast
      then have e: "chan_ev (tc_channel tc) w' = Some (?fd, tc_loop tc, ev')"
          "written ?fd (trace w') = written ?fd (trace ?w2)"
          "was_shut ?fd (trace w') \<longleftrightarrow> was_shut ?fd (trace ?w2) \<or> tc_state tc = kDisconnecting"
        by simp_all
      have c': "conns w' c = Some ?tc'" using e'(1) c2 by simp
      have "conn_ok c w'" by (rule conn_okI [OF c']) (use e e' v b(2) True in simp_all)
      moreover have "conn_stream c w' = conn_stream c w"
        unfolding stream conn_stream_eq [OF c'] using e(2) by simp
      ultimately show thesis using that [of ?tc'] e(3) e'(4) c' some True by simp
    qed
  qed
qed

section \<open>Runs of a connection\<close>

text \<open>What happens to an open connection's output in its loop thread.\<close>

datatype conn_op = DoSend "byte list" | DoWritable | DoShutdown

fun conn_step :: "kernel \<Rightarrow> tid \<Rightarrow> ptr \<Rightarrow> conn_op \<Rightarrow> 'z net_scheme \<Rightarrow> 'z net_scheme res" where
  "conn_step os cur c (DoSend m) w = TcpConnection_send os cur c m w"
| "conn_step os cur c DoWritable w = TcpConnection_handleWrite os cur c w"
| "conn_step os cur c DoShutdown w = TcpConnection_shutdown os cur c w"

text \<open>The data a connection takes: what is sent before the first \<^verbatim>\<open>shutdown()\<close>.\<close>

fun taken :: "conn_op list \<Rightarrow> byte list" where
  "taken [] = []"
| "taken (DoSend m # ops) = m @ taken ops"
| "taken (DoWritable # ops) = taken ops"
| "taken (DoShutdown # ops) = []"

fun op_fits :: "conn_op \<Rightarrow> bool" where
  "op_fits (DoSend m) \<longleftrightarrow> length m \<le> vector_max"
| "op_fits _ \<longleftrightarrow> True"

text \<open>
  The invariant of a run in thread \<open>cur\<close>: \<open>st\<close> is the state, and the write side of the socket was shut
  only after the stream was closed by the program and everything had been written.
\<close>

definition run_inv :: "tid \<Rightarrow> ptr \<Rightarrow> conn_state \<Rightarrow> 'z net_scheme \<Rightarrow> bool" where
  "run_inv cur c st w \<longleftrightarrow> conn_ok c w \<and> (\<exists>tc wk. conns w c = Some tc \<and> tc_state tc = st \<and>
     loop_view (tc_loop tc) w = Some (cur, wk) \<and>
     (was_shut (tc_sockfd tc) (trace w) \<longrightarrow> st \<noteq> kConnected \<and> Buffer_content (tc_outputBuffer tc) = []))"

lemma run_invE:
  assumes "run_inv cur c st w"
  obtains tc wk lp where "conn_ok c w" "conns w c = Some tc" "tc_state tc = st" "loop_view (tc_loop tc) w = Some (cur, wk)"
    "loops w (tc_loop tc) = Some lp" "el_threadId lp = cur"
    "was_shut (tc_sockfd tc) (trace w) \<Longrightarrow> st \<noteq> kConnected \<and> Buffer_content (tc_outputBuffer tc) = []"
  using assms by (auto simp: run_inv_def loop_view_Some)

lemma run_send_ignored:
  "conns w c = Some tc \<Longrightarrow> tc_state tc \<noteq> kConnected \<Longrightarrow> TcpConnection_send os cur c m w = Inr w"
  by (simp add: TcpConnection_send_def)

lemma run_send:
  assumes inv: "run_inv cur c st w" and run: "TcpConnection_send os cur c m w = Inr w'" and len: "length m \<le> vector_max"
  shows "run_inv cur c st w' \<and> conn_stream c w' = conn_stream c w @ (if st = kConnected then m else [])"
  using inv
proof (rule run_invE)
  fix tc wk lp
  assume tc: "conn_ok c w" "conns w c = Some tc" "tc_state tc = st" "loop_view (tc_loop tc) w = Some (cur, wk)"
    "loops w (tc_loop tc) = Some lp" "el_threadId lp = cur"
    "was_shut (tc_sockfd tc) (trace w) \<Longrightarrow> st \<noteq> kConnected \<and> Buffer_content (tc_outputBuffer tc) = []"
  show ?thesis
  proof (cases "st = kConnected")
    case False
    then show ?thesis using run_send_ignored [OF tc(2)] tc(3) run inv by simp
  next
    case True
    then have s: "sendInLoop os cur c m w = Inr w'"
      using run tc(2,3,5,6) by (simp add: TcpConnection_send_def isInLoopThread_def)
    note r = sendInLoop_stream [OF tc(1) s len]
    obtain tc' where tc': "conns w' c = Some tc'" "tc_state tc' = st"
      and same: "tc_sockfd tc' = tc_sockfd tc" "tc_loop tc' = tc_loop tc" "loop_view (tc_loop tc) w' = loop_view (tc_loop tc) w"
      using r(5) tc(2,3) by (auto simp: conn_frame_def)
    have "run_inv cur c st w'"
      unfolding run_inv_def using r(1) r(4) [of "tc_sockfd tc"] tc' same tc(4,7) True by auto
    then show ?thesis using r(2) True by simp
  qed
qed

lemma run_writable:
  assumes inv: "run_inv cur c st w" and w_ok: "write_ok os" and run: "TcpConnection_handleWrite os cur c w = Inr w'"
  shows "run_inv cur c st w' \<and> conn_stream c w' = conn_stream c w"
  using inv
proof (rule run_invE)
  fix tc wk lp
  assume tc: "conn_ok c w" "conns w c = Some tc" "tc_state tc = st" "loop_view (tc_loop tc) w = Some (cur, wk)"
    "was_shut (tc_sockfd tc) (trace w) \<Longrightarrow> st \<noteq> kConnected \<and> Buffer_content (tc_outputBuffer tc) = []"
  obtain tc' where r: "conn_ok c w'" "conn_stream c w' = conn_stream c w" "conns w' c = Some tc'"
    "tc_state tc' = tc_state tc" "tc_sockfd tc' = tc_sockfd tc" "tc_loop tc' = tc_loop tc"
    "\<And>l. loop_view l w' = loop_view l w"
    "was_shut (tc_sockfd tc) (trace w') \<longleftrightarrow> was_shut (tc_sockfd tc) (trace w) \<or>
      (Buffer_content (tc_outputBuffer tc) \<noteq> [] \<and> Buffer_content (tc_outputBuffer tc') = [] \<and> tc_state tc = kDisconnecting)"
    using handleWrite_stream [OF tc(1) w_ok tc(2) run] by blast
  have shut: "st \<noteq> kConnected \<and> Buffer_content (tc_outputBuffer tc') = []" if "was_shut (tc_sockfd tc') (trace w')"
  proof -
    have "was_shut (tc_sockfd tc) (trace w')" using that r(5) by simp
    then consider "was_shut (tc_sockfd tc) (trace w)" | "Buffer_content (tc_outputBuffer tc') = []" "tc_state tc = kDisconnecting"
      using r(8) by blast
    then show ?thesis
    proof cases
      case 1
      then have old: "st \<noteq> kConnected" "Buffer_content (tc_outputBuffer tc) = []" using tc(5) by simp_all
      have "w' = w"
        using run tc(1,2) old(2) by (auto simp: TcpConnection_handleWrite_def conn_ok_def chan_ev_Some isWriting_def)
      then show ?thesis using r(3) tc(2) old by simp
    next
      case 2
      then show ?thesis using tc(3) by simp
    qed
  qed
  then have "run_inv cur c st w'"
    unfolding run_inv_def using r(1,3,4,6,7) tc(3,4) by auto
  then show ?thesis using r(2) by simp
qed

lemma run_shutdown:
  assumes inv: "run_inv cur c st w" and run: "TcpConnection_shutdown os cur c w = Inr w'"
  shows "run_inv cur c (if st = kConnected then kDisconnecting else st) w' \<and> conn_stream c w' = conn_stream c w"
  using inv
proof (rule run_invE)
  fix tc wk lp
  assume tc: "conn_ok c w" "conns w c = Some tc" "tc_state tc = st" "loop_view (tc_loop tc) w = Some (cur, wk)"
    "loops w (tc_loop tc) = Some lp" "el_threadId lp = cur"
    "was_shut (tc_sockfd tc) (trace w) \<Longrightarrow> st \<noteq> kConnected \<and> Buffer_content (tc_outputBuffer tc) = []"
  show ?thesis
  proof (cases "st = kConnected")
    case False
    then show ?thesis using run tc(2,3) inv by (auto simp: TcpConnection_shutdown_def)
  next
    case True
    let ?w1 = "upd_conn (setState kDisconnecting) c w" and ?tc1 = "setState kDisconnecting tc"
    have c1: "conns ?w1 c = Some ?tc1" using tc(2) by simp
    have tc1: "tc_sockfd ?tc1 = tc_sockfd tc" "tc_loop ?tc1 = tc_loop tc" "tc_channel ?tc1 = tc_channel tc"
      "tc_outputBuffer ?tc1 = tc_outputBuffer tc" "tc_state ?tc1 = kDisconnecting"
      by (simp_all add: setState_def)
    obtain ev thr wk' where v: "chan_ev (tc_channel tc) w = Some (tc_sockfd tc, tc_loop tc, ev)"
        "loop_view (tc_loop tc) w = Some (thr, wk')" "wk' \<noteq> tc_sockfd tc" "Buffer_inv (tc_outputBuffer tc)"
        "ev AND kWriteEvent \<noteq> 0 \<longleftrightarrow> Buffer_content (tc_outputBuffer tc) \<noteq> []"
      using tc(1,2) by (auto simp: conn_ok_def)
    have s: "shutdownInLoop os cur c ?w1 = Inr w'"
      using run tc(2,3,5,6) True by (simp add: TcpConnection_shutdown_def runInLoop_in_thread)
    have v1: "chan_ev (tc_channel ?tc1) ?w1 = Some (tc_sockfd tc, tc_loop tc, ev)" using v(1) tc1 by simp
    note r = shutdownInLoop_same [OF s c1 v1, of "tc_sockfd tc"]
    have c': "conns w' c = Some ?tc1" "chan_ev (tc_channel tc) w' = Some (tc_sockfd tc, tc_loop tc, ev)"
      "loop_view (tc_loop tc) w' = loop_view (tc_loop tc) w" "written (tc_sockfd tc) (trace w') = written (tc_sockfd tc) (trace w)"
      using r(1) c1 v(1) by (simp_all add: same_net_def)
    have "conn_ok c w'" by (rule conn_okI [OF c'(1)]) (use c' v tc1 in simp_all)
    moreover have "was_shut (tc_sockfd tc) (trace w') \<longrightarrow> Buffer_content (tc_outputBuffer tc) = []"
      using r(2) tc(7) True tc1(1) v(5) by auto
    ultimately have "run_inv cur c kDisconnecting w'"
      unfolding run_inv_def using c' tc1 tc(4) by auto
    then show ?thesis using conn_stream_eq [OF c'(1)] conn_stream_eq [OF tc(2)] c'(4) tc1 True by simp
  qed
qed

lemma run_step:
  assumes "run_inv cur c st w" "write_ok os" "op_fits x" "conn_step os cur c x w = Inr w'"
  shows "run_inv cur c (if x = DoShutdown \<and> st = kConnected then kDisconnecting else st) w' \<and>
    conn_stream c w' = conn_stream c w @ (case x of DoSend m \<Rightarrow> if st = kConnected then m else [] | _ \<Rightarrow> [])"
  using assms by (cases x) (auto dest: run_send run_writable run_shutdown)

lemma run_closed:
  assumes "run_inv cur c kDisconnecting w" "write_ok os" "list_all op_fits ops" "foldR (conn_step os cur c) ops w = Inr w'"
  shows "run_inv cur c kDisconnecting w' \<and> conn_stream c w' = conn_stream c w"
  using assms
proof (induction ops arbitrary: w)
  case (Cons x ops)
  obtain w1 where w1: "conn_step os cur c x w = Inr w1" "foldR (conn_step os cur c) ops w1 = Inr w'" using Cons.prems(4) by auto
  have "run_inv cur c kDisconnecting w1 \<and> conn_stream c w1 = conn_stream c w"
    using run_step [OF Cons.prems(1,2) _ w1(1)] Cons.prems(3) by (auto split: conn_op.splits)
  then show ?case using Cons.IH [OF _ Cons.prems(2) _ w1(2)] Cons.prems(3) by simp
qed simp

section \<open>Runs do not fail\<close>

text \<open>A registered channel on a live loop, and room for \<open>m\<close> more bytes in the output buffer.\<close>

definition live :: "nat \<Rightarrow> ptr \<Rightarrow> 'z net_scheme \<Rightarrow> bool" where
  "live m c w \<longleftrightarrow> epoll_inv w \<and> (\<exists>tc ch. conns w c = Some tc \<and> chans w (tc_channel tc) = Some ch \<and> ch_registered ch \<and>
     Buffer_room m (tc_outputBuffer tc))"

lemma liveI:
  "epoll_inv w \<Longrightarrow> conns w c = Some tc \<Longrightarrow> chans w (tc_channel tc) = Some ch \<Longrightarrow> ch_registered ch \<Longrightarrow>
   Buffer_room m (tc_outputBuffer tc) \<Longrightarrow> live m c w"
  unfolding live_def by blast

lemma Channel_update_registered:
  assumes "epoll_inv w" "chans w p = Some ch" "ch_registered ch" "loop_view (ch_loop ch) w = Some (cur, wk)"
  obtains w' where "Channel_update os cur p (upd_chan (set_events ev) p w) = Inr w'" "epoll_inv w'"
    "conns w' = conns w" "chans w' p = Some (set_events ev ch)" "loops w' = loops w"
proof -
  obtain lp where lp: "loops w (ch_loop ch) = Some lp" "el_threadId lp = cur" using assms(4) by (auto simp: loop_view_Some)
  let ?w = "upd_chan (set_events ev) p w" and ?ch = "set_events ev ch"
  have "chan_reg w p = Some (ch_fd ch, ch_loop ch, True)" using assms(2,3) by (simp add: chan_reg_def)
  then have "ep_lookup w (ch_loop ch) (ch_fd ch) = Some p" using assms(1) by (simp add: epoll_inv_def)
  then have "ep_channels (el_epoller lp) (ch_fd ch) = Some p" using lp(1) by (simp add: ep_lookup_def)
  then have "Channel_update os cur p ?w = Inr (after_update os p ?ch lp ?w)"
    using Channel_update_Inr_iff [of ?w p ?ch lp os cur "after_update os p ?ch lp ?w"] assms(2,3) lp by simp
  moreover have "after_update os p ?ch lp ?w = ?w\<lparr>trace := trace w @
      [(Sys_epoll_mod (ep_epfd (el_epoller lp)) (ch_fd ch) ev, os (trace w) (Sys_epoll_mod (ep_epfd (el_epoller lp)) (ch_fd ch) ev))]\<rparr>"
    using assms(3) by (simp add: after_update_def Let_def)
  ultimately show thesis using that assms(1,2) by simp
qed

lemma queueInLoop_total:
  assumes "loop_view l w = Some (thr, wk)"
  obtains w' where "queueInLoop os cur l f w = Inr w'" "conns w' = conns w" "chans w' = chans w" "epoll_inv w' = epoll_inv w"
    "loop_view l w' = loop_view l w"
proof -
  obtain lp where lp: "loops w l = Some lp" using assms by (auto simp: loop_view_Some)
  have "epoll_inv (upd_loop (push_pending f) l w) = epoll_inv w"
    by (rule epoll_inv_cong) (auto simp: fun_eq_iff ep_lookup_def chan_reg_def upd_def split: option.splits)
  then show thesis
    using that queueInLoop_eq [OF lp] lp by (auto simp: Let_def loop_view_def upd_def split: if_splits)
qed

lemma send_total:
  assumes inv: "run_inv cur c st w" and live: "live (length m + k) c w" and len: "length m \<le> vector_max"
  obtains w' where "TcpConnection_send os cur c m w = Inr w'" "live k c w'"
  using inv
proof (rule run_invE)
  fix tc wk lp
  assume tc: "conn_ok c w" "conns w c = Some tc" "tc_state tc = st" "loop_view (tc_loop tc) w = Some (cur, wk)"
    "loops w (tc_loop tc) = Some lp" "el_threadId lp = cur"
  obtain ch where ch: "epoll_inv w" "chans w (tc_channel tc) = Some ch" "ch_registered ch" "Buffer_room (length m + k) (tc_outputBuffer tc)"
    using live tc(2) by (auto simp: live_def)
  have l: "ch_loop ch = tc_loop tc" and inv_b: "Buffer_inv (tc_outputBuffer tc)"
    using tc(1,2) ch(2) by (auto simp: conn_ok_def chan_ev_Some)
  obtain b where b: "Buffer_append m (tc_outputBuffer tc) = Inr b" "Buffer_room k b"
    using buf.put_ok [OF inv_b ch(4)] by blast
  have room: "Buffer_room k (tc_outputBuffer tc)" using ch(4) by (simp add: Buffer_room_def)
  let ?w2 = "upd_conn (\<lambda>tc. tc\<lparr>tc_outputBuffer := b\<rparr>) c w"
  have e2: "epoll_inv ?w2" using ch(1) by (simp add: epoll_inv_def ep_lookup_def chan_reg_def)
  show thesis
  proof (cases "st = kConnected \<and> m \<noteq> []")
    case False
    then have "TcpConnection_send os cur c m w = Inr w"
      using tc by (auto simp: TcpConnection_send_def isInLoopThread_def sendInLoop_def direct_write_skipped [OF tc(1)] assertInLoopThread_def)
    moreover have "live k c w" using ch room tc(2) by (auto simp: live_def)
    ultimately show thesis by (rule that)
  next
    case True
    then have send: "TcpConnection_send os cur c m w =
        (if \<not> isWriting ch then enableWriting os cur (tc_channel tc) ?w2 else Inr ?w2)"
      using tc ch(2) b(1)
      by (simp add: TcpConnection_send_def isInLoopThread_def sendInLoop_def direct_write_skipped [OF tc(1)] assertInLoopThread_def Let_def)
    show thesis
    proof (cases "isWriting ch")
      case True
      have "live k c ?w2" using e2 ch(2,3) tc(2) b(2) by (simp add: live_def)
      with True send that show thesis by simp
    next
      case False
      have c2: "chans ?w2 (tc_channel tc) = Some ch" using ch(2) by simp
      have l2: "loop_view (ch_loop ch) ?w2 = Some (cur, wk)" using tc(4) l by simp
      obtain w' where w': "Channel_update os cur (tc_channel tc) (upd_chan (set_events (ch_events ch OR kWriteEvent)) (tc_channel tc) ?w2) = Inr w'"
          "epoll_inv w'" "conns w' = conns ?w2" "chans w' (tc_channel tc) = Some (set_events (ch_events ch OR kWriteEvent) ch)"
        by (rule Channel_update_registered [OF e2 c2 ch(3) l2])
      have "TcpConnection_send os cur c m w = Inr w'" using False send w'(1) c2 by (simp add: enableWriting_def)
      moreover have "live k c w'" using w' ch(3) tc(2) b(2) by (simp add: live_def)
      ultimately show thesis by (rule that)
    qed
  qed
qed

lemma shutdownInLoop_total:
  assumes "conns w c = Some tc" "chans w (tc_channel tc) = Some ch" "loop_view (tc_loop tc) w = Some (cur, wk)"
  obtains w' where "shutdownInLoop os cur c w = Inr w'" "conns w' = conns w" "chans w' = chans w" "epoll_inv w' = epoll_inv w"
proof -
  obtain lp where "loops w (tc_loop tc) = Some lp" "el_threadId lp = cur" using assms(3) by (auto simp: loop_view_Some)
  then have "shutdownInLoop os cur c w = Inr (if \<not> isWriting ch then Socket_shutdownWrite os (tc_sockfd tc) w else w)"
    using assms by (simp add: shutdownInLoop_def assertInLoopThread_def isInLoopThread_def)
  then show thesis using that by (simp add: sockets_defs)
qed

lemma handleWrite_total:
  assumes inv: "run_inv cur c st w" and live: "live k c w" and w_ok: "write_ok os"
  obtains w' where "TcpConnection_handleWrite os cur c w = Inr w'" "live k c w'"
  using inv
proof (rule run_invE)
  fix tc wk lp
  assume tc: "conn_ok c w" "conns w c = Some tc" "tc_state tc = st" "loop_view (tc_loop tc) w = Some (cur, wk)"
    "loops w (tc_loop tc) = Some lp" "el_threadId lp = cur"
  obtain ch where ch: "epoll_inv w" "chans w (tc_channel tc) = Some ch" "ch_registered ch" "Buffer_room k (tc_outputBuffer tc)"
    using live tc(2) by (auto simp: live_def)
  have l: "ch_loop ch = tc_loop tc" and inv_b: "Buffer_inv (tc_outputBuffer tc)"
    using tc(1,2) ch(2) by (auto simp: conn_ok_def chan_ev_Some)
  let ?out = "Buffer_content (tc_outputBuffer tc)"
  have rd: "read_range (peek (tc_outputBuffer tc)) (readableBytes (tc_outputBuffer tc)) (buffer (tc_outputBuffer tc)) = Inr ?out"
    using read_range_content [OF inv_b] by (simp add: peek_def)
  have thr: "assertInLoopThread cur (tc_loop tc) w = Inr ()" using tc(5,6) by (simp add: assertInLoopThread_def isInLoopThread_def)
  let ?r = "os (trace w) (Sys_write (ch_fd ch) ?out)"
  let ?w1 = "w\<lparr>trace := trace w @ [(Sys_write (ch_fd ch) ?out, ?r)]\<rparr>"
  consider (idle) "\<not> isWriting ch" | (fail) "isWriting ch" "\<not> 0 < sr_ret ?r" | (some) "isWriting ch" "0 < sr_ret ?r" by fastforce
  then show thesis
  proof cases
    case idle
    then show thesis using that [of w] live tc(2) ch(2) thr by (simp add: TcpConnection_handleWrite_def)
  next
    case fail
    have "live k c ?w1" using ch tc(2) by (simp add: live_def)
    then show thesis using that [of ?w1] tc(2) ch(2) thr fail rd by (simp add: TcpConnection_handleWrite_def)
  next
    case some
    let ?n = "nat (sr_ret ?r)"
    have n: "?n \<le> length ?out" using w_ok by (simp add: write_ok_def nat_le_iff)
    obtain b where b: "retrieve ?n (tc_outputBuffer tc) = Inr b" "Buffer_inv b" "Buffer_room k b"
      using buf.consume_ok [OF inv_b n ch(4)] by blast
    let ?w2 = "upd_conn (\<lambda>tc. tc\<lparr>tc_outputBuffer := b\<rparr>) c ?w1" and ?tc' = "tc\<lparr>tc_outputBuffer := b\<rparr>"
    have e2: "epoll_inv ?w2" using ch(1) by (simp add: epoll_inv_def ep_lookup_def chan_reg_def)
    have c2: "conns ?w2 c = Some ?tc'" using tc(2) by simp
    define drained where "drained = bindR (disableWriting os cur (tc_channel tc) ?w2) (\<lambda>w3.
           bindR (if tc_writeCompleteCallback tc \<noteq> None then queueInLoop os cur (tc_loop tc) (WriteComplete c) w3 else Inr w3) (\<lambda>w4.
           if tc_state tc = kDisconnecting then shutdownInLoop os cur c w4 else Inr w4))"
    have run: "TcpConnection_handleWrite os cur c w = (if readableBytes b = 0 then drained else Inr ?w2)"
      using tc(2) ch(2) thr some rd b(1) by (simp add: TcpConnection_handleWrite_def Let_def drained_def)
    have h2: "chans ?w2 (tc_channel tc) = Some ch" using ch(2) by simp
    have l2: "loop_view (ch_loop ch) ?w2 = Some (cur, wk)" using tc(4) l by simp
    let ?ev = "ch_events ch AND NOT kWriteEvent"
    obtain w3 where u: "Channel_update os cur (tc_channel tc) (upd_chan (set_events ?ev) (tc_channel tc) ?w2) = Inr w3"
        "epoll_inv w3" "conns w3 = conns ?w2" "chans w3 (tc_channel tc) = Some (set_events ?ev ch)" "loops w3 = loops ?w2"
      by (rule Channel_update_registered [OF e2 h2 ch(3) l2])
    have w3: "disableWriting os cur (tc_channel tc) ?w2 = Inr w3" using u(1) h2 by (simp add: disableWriting_def)
    have l3: "loop_view (tc_loop tc) w3 = Some (cur, wk)" using u(5) tc(4) by (simp add: loop_view_def)
    obtain w4 where w4: "(if tc_writeCompleteCallback tc \<noteq> None then queueInLoop os cur (tc_loop tc) (WriteComplete c) w3 else Inr w3) = Inr w4"
        "conns w4 = conns w3" "chans w4 = chans w3" "epoll_inv w4" "loop_view (tc_loop tc) w4 = Some (cur, wk)"
    proof (cases "tc_writeCompleteCallback tc")
      case None
      then show thesis using that [of w3] u(2) l3 by simp
    next
      case (Some f)
      obtain w4 where "queueInLoop os cur (tc_loop tc) (WriteComplete c) w3 = Inr w4" "conns w4 = conns w3" "chans w4 = chans w3"
          "epoll_inv w4 = epoll_inv w3" "loop_view (tc_loop tc) w4 = loop_view (tc_loop tc) w3"
        by (rule queueInLoop_total [OF l3])
      then show thesis using that [of w4] u(2) l3 Some by simp
    qed
    have c4: "conns w4 c = Some ?tc'" using w4(2) u(3) c2 by simp
    have h4: "chans w4 (tc_channel ?tc') = Some (set_events ?ev ch)" using w4(3) u(4) by simp
    have l4: "loop_view (tc_loop ?tc') w4 = Some (cur, wk)" using w4(5) by simp
    obtain w5 where w5: "(if tc_state tc = kDisconnecting then shutdownInLoop os cur c w4 else Inr w4) = Inr w5"
        "conns w5 = conns w4" "chans w5 = chans w4" "epoll_inv w5"
    proof (cases "tc_state tc = kDisconnecting")
      case True
      obtain w5 where "shutdownInLoop os cur c w4 = Inr w5" "conns w5 = conns w4" "chans w5 = chans w4" "epoll_inv w5 = epoll_inv w4"
        by (rule shutdownInLoop_total [OF c4 h4 l4])
      then show thesis using that [of w5] w4(4) True by simp
    qed (use that [of w4] w4(4) in simp)
    have d: "drained = Inr w5" using w3 w4(1) w5(1) by (simp add: drained_def)
    have "live k c w5" using w5 c4 h4 b(3) ch(3) by (simp add: live_def)
    moreover have "live k c ?w2" by (rule liveI [OF e2 c2]) (use h2 b(3) ch(3) in simp_all)
    ultimately show thesis using run d that [of w5] that [of ?w2] by (cases "readableBytes b = 0") simp_all
  qed
qed

lemma shutdown_total:
  assumes inv: "run_inv cur c st w" and live: "live k c w"
  obtains w' where "TcpConnection_shutdown os cur c w = Inr w'" "live k c w'"
  using inv
proof (rule run_invE)
  fix tc wk lp
  assume tc: "conns w c = Some tc" "tc_state tc = st" "loop_view (tc_loop tc) w = Some (cur, wk)"
    "loops w (tc_loop tc) = Some lp" "el_threadId lp = cur"
  obtain ch where ch: "epoll_inv w" "chans w (tc_channel tc) = Some ch" "ch_registered ch" "Buffer_room k (tc_outputBuffer tc)"
    using live tc(1) by (auto simp: live_def)
  let ?w1 = "upd_conn (setState kDisconnecting) c w" and ?tc1 = "setState kDisconnecting tc"
  have tc1: "tc_channel ?tc1 = tc_channel tc" "tc_loop ?tc1 = tc_loop tc" "tc_outputBuffer ?tc1 = tc_outputBuffer tc"
    by (simp_all add: setState_def)
  show thesis
  proof (cases "st = kConnected")
    case False
    then show thesis using that [of w] live tc(1,2) by (simp add: TcpConnection_shutdown_def)
  next
    case True
    have c1: "conns ?w1 c = Some ?tc1" using tc(1) by simp
    have h1: "chans ?w1 (tc_channel ?tc1) = Some ch" using ch(2) tc1 by simp
    have l1: "loop_view (tc_loop ?tc1) ?w1 = Some (cur, wk)" using tc(3) tc1 by simp
    obtain w' where w': "shutdownInLoop os cur c ?w1 = Inr w'" "conns w' = conns ?w1" "chans w' = chans ?w1" "epoll_inv w' = epoll_inv ?w1"
      by (rule shutdownInLoop_total [OF c1 h1 l1])
    have "epoll_inv ?w1" using ch(1) by (simp add: epoll_inv_def ep_lookup_def chan_reg_def)
    then have "epoll_inv w'" using w'(4) by simp
    moreover have "conns w' c = Some ?tc1" using w'(2) c1 by simp
    ultimately have "live k c w'" by (rule liveI) (use w'(3) h1 ch(3,4) tc1 in simp_all)
    moreover have "TcpConnection_shutdown os cur c w = Inr w'"
      using w'(1) tc True by (simp add: TcpConnection_shutdown_def runInLoop_in_thread)
    ultimately show thesis using that by blast
  qed
qed

text \<open>The bytes a run may add to the buffer.\<close>

fun demand :: "conn_op list \<Rightarrow> nat" where
  "demand [] = 0"
| "demand (DoSend m # ops) = length m + demand ops"
| "demand (_ # ops) = demand ops"

lemma step_total:
  assumes "run_inv cur c st w" "live (demand (x # ops)) c w" "write_ok os" "op_fits x"
  obtains w' where "conn_step os cur c x w = Inr w'" "live (demand ops) c w'"
proof (cases x)
  case (DoSend m)
  then show thesis using send_total [of cur c st w m "demand ops" os] assms that by auto
next
  case DoWritable
  then show thesis using handleWrite_total [of cur c st w "demand ops" os] assms that by auto
next
  case DoShutdown
  then show thesis using shutdown_total [of cur c st w "demand ops" os] assms that by auto
qed

lemma run_total:
  assumes "run_inv cur c st w" "live (demand ops) c w" "write_ok os" "list_all op_fits ops"
  shows "\<exists>w'. foldR (conn_step os cur c) ops w = Inr w'"
  using assms
proof (induction ops arbitrary: w st)
  case (Cons x ops)
  have x: "op_fits x" "list_all op_fits ops" using Cons.prems(4) by simp_all
  obtain w1 where w1: "conn_step os cur c x w = Inr w1" "live (demand ops) c w1"
    by (rule step_total [OF Cons.prems(1-3) x(1)])
  show ?case using Cons.IH [OF _ w1(2) Cons.prems(3) x(2)] run_step [OF Cons.prems(1,3) x(1) w1(1)] w1(1) by auto
qed simp

lemma run_stream:
  assumes "run_inv cur c kConnected w" and "write_ok os" and "list_all op_fits ops"
    and "foldR (conn_step os cur c) ops w = Inr w'"
  shows "conn_stream c w' = conn_stream c w @ taken ops \<and>
    run_inv cur c (if DoShutdown \<in> set ops then kDisconnecting else kConnected) w'"
  using assms
proof (induction ops arbitrary: w)
  case (Cons x ops)
  obtain w1 where w1: "conn_step os cur c x w = Inr w1" "foldR (conn_step os cur c) ops w1 = Inr w'" using Cons.prems(4) by auto
  have x: "op_fits x" and ops: "list_all op_fits ops" using Cons.prems(3) by simp_all
  note step = run_step [OF Cons.prems(1,2) x w1(1)]
  show ?case
  proof (cases "x = DoShutdown")
    case True
    then have "run_inv cur c kDisconnecting w1" "conn_stream c w1 = conn_stream c w" using step by auto
    then show ?thesis using run_closed [OF _ Cons.prems(2) ops w1(2)] True by simp
  next
    case False
    then have w1': "run_inv cur c kConnected w1" using step by auto
    have "conn_stream c w1 @ taken ops = conn_stream c w @ taken (x # ops)"
      using step False by (cases x) auto
    then show ?thesis using Cons.IH [OF w1' Cons.prems(2) ops w1(2)] False by simp
  qed
qed simp

text \<open>(C2) For every kernel that never reports more bytes than it was given, and every sequence of \<^verbatim>\<open>send\<close>,
  writability events and \<^verbatim>\<open>shutdown\<close> on an open registered connection in its loop thread that fits the
  output buffer, no operation fails, and the bytes the kernel has taken followed by the buffered ones are
  exactly the bytes sent before the first \<^verbatim>\<open>shutdown\<close>: nothing is lost, duplicated or reordered. The channel
  waits for \<^verbatim>\<open>EPOLLOUT\<close> exactly while bytes are buffered, and the socket's write side is shut only when the
  stream was closed and everything had been written (\<open>run_inv\<close>).\<close>

theorem connection_stream:
  assumes "run_inv cur c kConnected w" and "live (demand ops) c w" and "write_ok os" and "list_all op_fits ops"
  shows "\<exists>w'. foldR (conn_step os cur c) ops w = Inr w' \<and> conn_stream c w' = conn_stream c w @ taken ops \<and>
    run_inv cur c (if DoShutdown \<in> set ops then kDisconnecting else kConnected) w'"
  using run_total [OF assms(1-4)] run_stream [OF assms(1,3,4)] by blast

text \<open>A connection at address 20 on descriptor 9, established in the loop of thread 7.\<close>

definition empty_buffer :: Buffer where
  "empty_buffer = \<lparr>buffer = replicate 1032 (CHR 0x00), readerIndex = 8, writerIndex = 8\<rparr>"

definition conn20 :: tcpConnection where
  "conn20 = \<lparr>tc_loop = 0, tc_state = kConnected, tc_name = ''c'', tc_sockfd = 9, tc_channel = 1,
     tc_localAddr = no_addr, tc_peerAddr = no_addr, tc_connectionCallback = Some 1, tc_messageCallback = Some 2,
     tc_writeCompleteCallback = None, tc_closeCallback = Some (TcpServer_removeConnection_cb 30),
     tc_inputBuffer = empty_buffer, tc_outputBuffer = empty_buffer\<rparr>"

definition conn_world :: net where
  "conn_world = reactor.extend (world9\<lparr>nextptr := 40\<rparr>)
     \<lparr>conns = [20 \<mapsto> conn20], acceptors = (\<lambda>_. None), connectors = (\<lambda>_. None), servers = (\<lambda>_. None),
      clients = (\<lambda>_. None), elthreads = (\<lambda>_. None)\<rparr>"

definition taking_kernel :: kernel where
  "taking_kernel h c = (case c of Sys_write _ d \<Rightarrow> answer (if length d > 2 then 2 else int (length d)) [] | _ \<Rightarrow> answer 0 [])"

lemma conn_world_simps:
  "conns conn_world 20 = Some conn20" "chans conn_world 1 = Some chan9" "loops conn_world 0 = Some (set_channel 9 (Some 1) loop0)"
  "trace conn_world = [(Sys_epoll_add 4 9 kReadEvent, answer 0 [])]"
  by (simp_all add: conn_world_def reactor.defs world9_def world0_def)

lemma empty_buffer_ok: "Buffer_inv empty_buffer" "Buffer_content empty_buffer = []"
  by (simp_all add: empty_buffer_def Buffer_inv_def Buffer_content_def buffer_consts)

lemma run_inv_conn_world: "run_inv 7 20 kConnected conn_world"
proof -
  have ev: "chan_ev (tc_channel conn20) conn_world = Some (tc_sockfd conn20, tc_loop conn20, kReadEvent)"
    by (simp add: chan_ev_def conn_world_simps conn20_def chan9_def Channel_init_def del: One_nat_def)
  have lv: "loop_view (tc_loop conn20) conn_world = Some (7, 3)"
    by (simp add: loop_view_def conn_world_simps conn20_def) (simp add: loop0_def set_channel_def)
  have "kReadEvent AND kWriteEvent = 0"
    by (simp add: kReadEvent_def kWriteEvent_def epoll_flags)
  then have "conn_ok 20 conn_world"
    using conn_okI [OF conn_world_simps(1) ev lv] empty_buffer_ok by (simp add: conn20_def)
  then show ?thesis
    using lv by (auto simp: run_inv_def conn_world_simps was_shut_def conn20_def)
qed

lemma taking_kernel_ok: "write_ok taking_kernel"
  by (simp add: write_ok_def taking_kernel_def answer_def)

definition hello_ops :: "conn_op list" where
  "hello_ops = [DoSend ''abc'', DoWritable, DoShutdown, DoSend ''x'', DoWritable]"

lemma epoll_inv_conn_world: "epoll_inv conn_world"
  using epoll_inv_world9
  by (simp add: epoll_inv_def ep_lookup_def chan_reg_def conn_world_def reactor.defs)

lemma live_conn_world: "k \<le> 1000 \<Longrightarrow> live k 20 conn_world"
  by (rule liveI [where ch = chan9, OF epoll_inv_conn_world conn_world_simps(1)])
    (simp_all add: conn_world_simps conn20_def chan9_def Buffer_room_def empty_buffer_def vector_max_def
      Channel_init_def del: One_nat_def)

theorem connection_stream_witness:
  "\<exists>w'. foldR (conn_step taking_kernel 7 20) hello_ops conn_world = Inr w' \<and> conn_stream 20 w' = ''abc'' \<and>
     run_inv 7 20 kDisconnecting w'"
proof -
  have fits: "list_all op_fits hello_ops" by (simp add: hello_ops_def vector_max_def)
  have s: "conn_stream 20 conn_world = []"
    using conn_stream_eq [OF conn_world_simps(1)] empty_buffer_ok by (simp add: conn_world_simps conn20_def)
  from connection_stream [OF run_inv_conn_world live_conn_world taking_kernel_ok fits] s show ?thesis by (auto simp: hello_ops_def)
qed

text \<open>(C30) \<^verbatim>\<open>send\<close> on an open connection whose invariant holds never calls \<^verbatim>\<open>write\<close>, although \<^verbatim>\<open>sendInLoop\<close> has
  a direct-write path for an idle connection: its test asks for unsent bytes where it should ask for
  none, so every message waits for the next writability event.\<close>

theorem send_never_writes:
  assumes "run_inv cur c kConnected w" and "TcpConnection_send os cur c m w = Inr w'" and "length m \<le> vector_max"
  shows "written fd (trace w') = written fd (trace w) \<and>
    (m \<noteq> [] \<longrightarrow> (\<exists>tc ev. conns w' c = Some tc \<and> chan_ev (tc_channel tc) w' = Some (tc_sockfd tc, tc_loop tc, ev) \<and>
      ev AND kWriteEvent \<noteq> 0))"
proof -
  obtain tc wk lp where tc: "conn_ok c w" "conns w c = Some tc" "tc_state tc = kConnected"
      "loops w (tc_loop tc) = Some lp" "el_threadId lp = cur"
    using assms(1) by (rule run_invE)
  have s: "sendInLoop os cur c m w = Inr w'"
    using assms(2) tc(2-5) by (simp add: TcpConnection_send_def isInLoopThread_def)
  note r = sendInLoop_stream [OF tc(1) s assms(3)]
  obtain tc' ev where tc': "conns w' c = Some tc'" "chan_ev (tc_channel tc') w' = Some (tc_sockfd tc', tc_loop tc', ev)"
      "ev AND kWriteEvent \<noteq> 0 \<longleftrightarrow> Buffer_content (tc_outputBuffer tc') \<noteq> []"
    using r(1) by (auto simp: conn_ok_def)
  have "Buffer_content (tc_outputBuffer tc') \<noteq> []" if "m \<noteq> []"
  proof
    assume e: "Buffer_content (tc_outputBuffer tc') = []"
    have sock: "tc_sockfd tc' = tc_sockfd tc" using r(5) tc(2) tc'(1) by (simp add: conn_frame_def)
    have "written (tc_sockfd tc) (trace w') = written (tc_sockfd tc) (trace w) @ Buffer_content (tc_outputBuffer tc) @ m"
      using r(2) conn_stream_eq [OF tc'(1)] conn_stream_eq [OF tc(2)] e sock by simp
    with r(3) [of "tc_sockfd tc"] that show False by simp
  qed
  then show ?thesis using r(3) tc' by blast
qed

theorem send_never_writes_witness:
  "\<exists>w'. TcpConnection_send taking_kernel 7 20 ''hi'' conn_world = Inr w' \<and> written 9 (trace w') = []"
proof -
  obtain w' where w': "TcpConnection_send taking_kernel 7 20 ''hi'' conn_world = Inr w'"
    using send_total [OF run_inv_conn_world, of "''hi''" 0 taking_kernel] live_conn_world [of "length ''hi'' + 0"]
    by (auto simp: vector_max_def)
  then show ?thesis
    using send_never_writes [OF run_inv_conn_world w', of 9] by (simp add: vector_max_def conn_world_simps)
qed

text \<open>When a connection still has unsent bytes but no longer waits for writability, which is the state
  \<^verbatim>\<open>handleClose\<close> leaves behind with the state still \<^verbatim>\<open>kConnected\<close>, a further \<^verbatim>\<open>send\<close> writes its message to the
  socket at once, in front of the older buffered bytes.\<close>

theorem send_overtakes:
  assumes tc: "conns w c = Some tc" "tc_state tc = kConnected" and ch: "chans w (tc_channel tc) = Some ch" "ch_fd ch = tc_sockfd tc"
    and idle: "ch_events ch = kNoneEvent" and lp: "loops w (tc_loop tc) = Some lp" "el_threadId lp = cur" "el_wakeupfd lp \<noteq> tc_sockfd tc"
    and buf: "Buffer_inv (tc_outputBuffer tc)" "Buffer_content (tc_outputBuffer tc) \<noteq> []"
    and full: "sr_ret (os (trace w) (Sys_write (tc_sockfd tc) m)) = int (length m)"
  shows "\<exists>w'. TcpConnection_send os cur c m w = Inr w' \<and>
    written (tc_sockfd tc) (trace w') = written (tc_sockfd tc) (trace w) @ m \<and> conns w' c = Some tc"
proof -
  let ?c = "Sys_write (tc_sockfd tc) m"
  let ?w1 = "w\<lparr>trace := trace w @ [(?c, os (trace w) ?c)]\<rparr>"
  have wr: "\<not> isWriting ch" using idle by (simp add: isWriting_def writing_flag(3))
  have rd: "readableBytes (tc_outputBuffer tc) \<noteq> 0" using readable_zero_iff [OF buf(1)] buf(2) by simp
  have lv: "loop_view (tc_loop tc) w = Some (cur, el_wakeupfd lp)" using lp by (simp add: loop_view_Some)
  define q where "q = (if tc_writeCompleteCallback tc \<noteq> None
      then queueInLoop os cur (tc_loop tc) (WriteComplete c) ?w1 else Inr ?w1)"
  have d: "direct_write os cur c m w = bindR q (\<lambda>w2. Inr (int (length m), w2))"
    using tc ch wr rd full by (simp add: direct_write_def q_def)
  obtain w2 where w2: "q = Inr w2" "conns w2 = conns w" "written (tc_sockfd tc) (trace w2) = written (tc_sockfd tc) (trace w) @ m"
  proof (cases "tc_writeCompleteCallback tc")
    case None
    then show thesis using that [of ?w1] full by (simp add: q_def)
  next
    case (Some f)
    have lv1: "loop_view (tc_loop tc) ?w1 = Some (cur, el_wakeupfd lp)" using lv by simp
    obtain w2 where w2: "queueInLoop os cur (tc_loop tc) (WriteComplete c) ?w1 = Inr w2" "conns w2 = conns ?w1"
      by (rule queueInLoop_total [OF lv1])
    show thesis using that [of w2] Some w2 queueInLoop_same(1) [OF w2(1) lv1 lp(3)] full
      by (simp add: q_def same_net_def)
  qed
  have "TcpConnection_send os cur c m w = Inr w2"
    using tc lp d w2(1) by (simp add: TcpConnection_send_def isInLoopThread_def sendInLoop_def assertInLoopThread_def)
  then show ?thesis using w2 tc by simp
qed

definition full_buffer :: Buffer where
  "full_buffer = \<lparr>buffer = replicate 8 (CHR 0x00) @ ''old''@ replicate 8 (CHR 0x00), readerIndex = 8, writerIndex = 11\<rparr>"

definition closing_world :: net where
  "closing_world = conn_world\<lparr>conns := [20 \<mapsto> conn20\<lparr>tc_outputBuffer := full_buffer\<rparr>],
     chans := [1 \<mapsto> chan9\<lparr>ch_events := kNoneEvent\<rparr>]\<rparr>"

theorem send_overtakes_witness:
  "\<exists>w'. TcpConnection_send taking_kernel 7 20 ''hi'' closing_world = Inr w' \<and> written 9 (trace w') = ''hi'' \<and>
     map_option (\<lambda>tc. Buffer_content (tc_outputBuffer tc)) (conns w' 20) = Some ''old''"
proof -
  let ?tc = "conn20\<lparr>tc_outputBuffer := full_buffer\<rparr>"
  have b: "Buffer_inv full_buffer" "Buffer_content full_buffer = ''old''"
    by (simp_all add: full_buffer_def Buffer_inv_def Buffer_content_def buffer_consts segment_def)
  have l: "loops closing_world 0 = Some (set_channel 9 (Some 1) loop0)" "el_threadId (set_channel 9 (Some 1) loop0) = 7"
      "el_wakeupfd (set_channel 9 (Some 1) loop0) = 3"
    by (simp_all add: closing_world_def conn_world_simps loop0_def)
  have t: "tc_state ?tc = kConnected" "tc_channel ?tc = 1" "tc_loop ?tc = 0" "tc_sockfd ?tc = 9" "tc_outputBuffer ?tc = full_buffer"
    by (simp_all add: conn20_def)
  have c: "conns closing_world 20 = Some ?tc" "chans closing_world (tc_channel ?tc) = Some (chan9\<lparr>ch_events := kNoneEvent\<rparr>)"
    by (simp_all add: closing_world_def t(2) del: One_nat_def)
  have "ch_fd (chan9\<lparr>ch_events := kNoneEvent\<rparr>) = 9" by (simp add: chan9_def Channel_init_def)
  moreover have "sr_ret (taking_kernel h (Sys_write 9 ''hi'')) = int (length ''hi'')" for h
    by (simp add: taking_kernel_def answer_def)
  moreover have "written 9 (trace closing_world) = []" by (simp add: closing_world_def conn_world_simps)
  ultimately show ?thesis
    using send_overtakes [OF c(1) t(1) c(2), of "set_channel 9 (Some 1) loop0" 7 taking_kernel "''hi''"] l b
    by (simp add: t(3-5) del: One_nat_def) auto
qed

section \<open>Reading and the end of a connection\<close>

lemma disableAll_views:
  assumes "disableAll os cur p w = Inr w'" "chan_ev p w = Some (fd, l, ev)"
  shows "Channel_update os cur p (upd_chan (set_events kNoneEvent) p w) = Inr w'"
  using assms by (auto simp: disableAll_def chan_ev_Some)

text \<open>A readable connection: a positive \<^verbatim>\<open>readv\<close> result appends exactly the received bytes to the input buffer
  and then runs the message callback; end of file closes, and an error only reads \<^verbatim>\<open>SO_ERROR\<close>, with the
  input buffer as it was.\<close>

theorem handleRead_cases:
  assumes tc: "conns w c = Some tc" and ch: "chans w (tc_channel tc) = Some ch" and inv: "Buffer_inv (tc_inputBuffer tc)"
    and r: "r = os (trace w) (Sys_readv (ch_fd ch) (writableBytes (tc_inputBuffer tc) + extrabuf_size))"
    and dat: "0 \<le> sr_ret r \<Longrightarrow> length (sr_data r) = nat (sr_ret r)"
    and fit: "length (buffer (tc_inputBuffer tc)) + length (sr_data r) \<le> vector_max"
    and w1: "w1 = w\<lparr>trace := trace w @ [(Sys_readv (ch_fd ch) (writableBytes (tc_inputBuffer tc) + extrabuf_size), r)]\<rparr>"
  shows "\<exists>b. Buffer_inv b \<and> Buffer_content b = Buffer_content (tc_inputBuffer tc) @ (if 0 < sr_ret r then sr_data r else []) \<and>
    TcpConnection_handleRead ub os cur c t w =
      (let w2 = upd_conn (\<lambda>tc. tc\<lparr>tc_inputBuffer := b\<rparr>) c w1 in
       if 0 < sr_ret r then call_fun (tc_messageCallback tc) (\<lambda>f. on_message ub f c t) w2
       else if sr_ret r = 0 then TcpConnection_handleClose ub os cur c w2
       else Inr (snd (getSocketError os (ch_fd ch) w2)))"
proof -
  have run: "TcpConnection_handleRead ub os cur c t w =
      bindR (readFd (sr_ret r) (sr_errno r) (sr_data r) (tc_inputBuffer tc)) (\<lambda>(n, _, b).
       let w2 = upd_conn (\<lambda>tc. tc\<lparr>tc_inputBuffer := b\<rparr>) c w1 in
       if 0 < n then call_fun (tc_messageCallback tc) (\<lambda>f. on_message ub f c t) w2
       else if n = 0 then TcpConnection_handleClose ub os cur c w2
       else TcpConnection_handleError os c w2)"
    using tc ch by (simp add: TcpConnection_handleRead_def r w1 Let_def)
  have err: "TcpConnection_handleError os c (upd_conn (\<lambda>tc. tc\<lparr>tc_inputBuffer := b\<rparr>) c w1) =
      Inr (snd (getSocketError os (ch_fd ch) (upd_conn (\<lambda>tc. tc\<lparr>tc_inputBuffer := b\<rparr>) c w1)))" for b
    using tc ch by (simp add: TcpConnection_handleError_def w1)
  obtain e b where rd: "readFd (sr_ret r) (sr_errno r) (sr_data r) (tc_inputBuffer tc) = Inr (sr_ret r, e, b)"
    "Buffer_inv b" "Buffer_content b = Buffer_content (tc_inputBuffer tc) @ (if 0 < sr_ret r then sr_data r else [])"
  proof (cases "sr_ret r < 0")
    case True
    then show thesis using that [of "Some (sr_errno r)" "tc_inputBuffer tc"] inv readFd_error by simp
  next
    case False
    then have n: "sr_ret r = int (length (sr_data r))" using dat by simp
    then show thesis
      using readFd_ok [OF inv fit, of "sr_errno r"] that by auto
  qed
  show ?thesis
    by (rule exI [of _ b]) (use rd run err in \<open>simp add: Let_def\<close>)
qed

definition data_kernel :: kernel where
  "data_kernel h c = (case c of Sys_readv _ _ \<Rightarrow> (answer 3 [])\<lparr>sr_data := ''abc''\<rparr> | _ \<Rightarrow> answer 0 [])"

definition counting_callbacks :: "net callbacks" where
  "counting_callbacks = \<lparr>on_connection = (\<lambda>_ _ w. Inr (w\<lparr>numCreated := numCreated w + 1\<rparr>)),
     on_message = (\<lambda>_ _ _ w. Inr (w\<lparr>numCreated := numCreated w + 1\<rparr>)),
     on_write_complete = (\<lambda>_ _. Inr), on_close = (\<lambda>_ _. Inr)\<rparr>"

theorem handleRead_cases_witness:
  "\<exists>w'. TcpConnection_handleRead counting_callbacks data_kernel 7 20 (Timestamp 1) conn_world = Inr w' \<and>
     map_option (\<lambda>tc. Buffer_content (tc_inputBuffer tc)) (conns w' 20) = Some ''abc'' \<and>
     numCreated w' = numCreated conn_world + 1"
proof -
  have ch: "chans conn_world (tc_channel conn20) = Some chan9" by (simp add: conn_world_simps conn20_def del: One_nat_def)
  have inv: "Buffer_inv (tc_inputBuffer conn20)" "Buffer_content (tc_inputBuffer conn20) = []"
    using empty_buffer_ok by (simp_all add: conn20_def)
  let ?r = "(answer 3 [])\<lparr>sr_data := ''abc''\<rparr>"
  have r: "?r = data_kernel (trace conn_world) (Sys_readv (ch_fd chan9) (writableBytes (tc_inputBuffer conn20) + extrabuf_size))"
    by (simp add: data_kernel_def)
  have rr: "sr_ret ?r = 3" "sr_data ?r = ''abc''" by (simp_all add: answer_def)
  have d: "0 \<le> sr_ret ?r \<Longrightarrow> length (sr_data ?r) = nat (sr_ret ?r)"
    and f: "length (buffer (tc_inputBuffer conn20)) + length (sr_data ?r) \<le> vector_max"
    unfolding rr by (simp_all add: conn20_def empty_buffer_def vector_max_def)
  from handleRead_cases [where os = data_kernel, OF conn_world_simps(1) ch inv(1) r d f refl, of counting_callbacks 7 "Timestamp 1"]
  obtain b where b: "Buffer_content b = ''abc''" "TcpConnection_handleRead counting_callbacks data_kernel 7 20 (Timestamp 1) conn_world =
      call_fun (tc_messageCallback conn20) (\<lambda>f. on_message counting_callbacks f 20 (Timestamp 1))
        (upd_conn (\<lambda>tc. tc\<lparr>tc_inputBuffer := b\<rparr>) 20 (conn_world\<lparr>trace := trace conn_world @
          [(Sys_readv (ch_fd chan9) (writableBytes (tc_inputBuffer conn20) + extrabuf_size), ?r)]\<rparr>))"
    unfolding rr inv(2) by (auto simp: Let_def)
  then show ?thesis
    by (simp add: call_fun_def counting_callbacks_def conn20_def conn_world_simps) (simp add: upd_conn_def conn_world_simps)
qed

text \<open>\<^verbatim>\<open>connectDestoryed\<close> ends the connection: it leaves the state \<^verbatim>\<open>kDisConnected\<close> and the channel without
  interest, and from then on \<^verbatim>\<open>send\<close> and \<^verbatim>\<open>shutdown\<close> do nothing while a second \<^verbatim>\<open>handleClose\<close> or
  \<^verbatim>\<open>connectDestoryed\<close> fails its assertion, if the user's connection callback leaves the connection as it is.\<close>

theorem connectDestoryed_final:
  assumes run: "connectDestoryed ub os cur c w = Inr w'" and tc: "conns w c = Some tc"
    and ev: "chan_ev (tc_channel tc) w = Some (fd, tc_loop tc, ev)"
    and cb: "\<And>f v v'. on_connection ub f c v = Inr v' \<Longrightarrow> conns v' = conns v \<and> loops v' = loops v"
  shows "conns w' c = Some (setState kDisConnected tc) \<and>
    TcpConnection_send os cur c m w' = Inr w' \<and> TcpConnection_shutdown os cur c w' = Inr w' \<and>
    TcpConnection_handleClose ub os cur c w' = Inl AssertFailed \<and> connectDestoryed ub os cur c w' = Inl AssertFailed"
proof -
  let ?w1 = "upd_conn (setState kDisConnected) c w"
  obtain w2 w3 where w2: "disableAll os cur (tc_channel tc) ?w1 = Inr w2"
    and w3: "call_fun (tc_connectionCallback tc) (\<lambda>f. on_connection ub f c) w2 = Inr w3"
    and w4: "EventLoop_removeChannel os cur (tc_loop tc) (tc_channel tc) w3 = Inr w'"
    using run tc by (auto simp: connectDestoryed_def)
  have ev1: "chan_ev (tc_channel tc) ?w1 = Some (fd, tc_loop tc, ev)" using ev by simp
  note u = Channel_update_views [OF disableAll_views [OF w2 ev1] ev1]
  have w3': "conns w3 = conns w2 \<and> loops w3 = loops w2"
    using w3 cb by (auto simp: call_fun_def split: option.splits)
  obtain ch lp where r: "chans w3 (tc_channel tc) = Some ch" "ch_loop ch = tc_loop tc" "loops w3 (tc_loop tc) = Some lp"
      "el_threadId lp = cur" and w': "w' = after_remove os (tc_channel tc) ch lp w3"
    using w4 by (rule removeChannel_InrE)
  have c': "conns w' = conns w3" "loop_view (tc_loop tc) w' = loop_view (tc_loop tc) w3"
    using r by (auto simp: w' after_remove_def Let_def loop_view_def)
  then have "conns w' c = Some (setState kDisConnected tc)" using w3' u(1) tc by simp
  moreover have "assertInLoopThread cur (tc_loop tc) w' = Inr ()"
  proof -
    have "loop_view (tc_loop tc) w' = Some (cur, el_wakeupfd lp)" using c'(2) r by (simp add: loop_view_Some)
    then obtain lp' where "loops w' (tc_loop tc) = Some lp'" "el_threadId lp' = cur" by (auto simp: loop_view_Some)
    then show ?thesis by (simp add: assertInLoopThread_def isInLoopThread_def)
  qed
  ultimately show ?thesis
    by (simp add: TcpConnection_send_def TcpConnection_shutdown_def TcpConnection_handleClose_def connectDestoryed_def setState_def)
qed

lemma destroy_run: "\<exists>w'. connectDestoryed counting_callbacks quiet_kernel 7 20 conn_world = Inr w'"
  by (simp add: connectDestoryed_def counting_callbacks_def call_fun_def disableAll_def Channel_update_def
      EventLoop_updateChannel_def EventLoop_removeChannel_def updateChannelMap_def removeChannelMap_def
      assertInLoopThread_def isInLoopThread_def epollMod_def epollDel_def isNoneEvent_def kNoneEvent_def Let_def
      conn_world_simps [unfolded One_nat_def] conn20_def set_channel_def loop0_def chan9_def Channel_init_def upd_def quiet_kernel_def answer_def
      set_events_def upd_conn_def upd_chan_def upd_loop_def)

theorem connectDestoryed_final_witness:
  "\<exists>w'. connectDestoryed counting_callbacks quiet_kernel 7 20 conn_world = Inr w' \<and>
     conns w' 20 = Some (setState kDisConnected conn20) \<and>
     TcpConnection_handleClose counting_callbacks quiet_kernel 7 20 w' = Inl AssertFailed"
proof -
  obtain w' where w': "connectDestoryed counting_callbacks quiet_kernel 7 20 conn_world = Inr w'" using destroy_run by blast
  have ev: "chan_ev (tc_channel conn20) conn_world = Some (9, tc_loop conn20, kReadEvent)"
    by (simp add: chan_ev_def conn_world_simps conn20_def chan9_def Channel_init_def del: One_nat_def)
  have cb: "conns v' = conns v \<and> loops v' = loops v" if "on_connection counting_callbacks f 20 v = Inr v'" for f v v'
    using that by (auto simp: counting_callbacks_def)
  have "conns w' 20 = Some (setState kDisConnected conn20) \<and>
    TcpConnection_send quiet_kernel 7 20 [] w' = Inr w' \<and> TcpConnection_shutdown quiet_kernel 7 20 w' = Inr w' \<and>
    TcpConnection_handleClose counting_callbacks quiet_kernel 7 20 w' = Inl AssertFailed \<and>
    connectDestoryed counting_callbacks quiet_kernel 7 20 w' = Inl AssertFailed"
    by (rule connectDestoryed_final [OF w' conn_world_simps(1) ev]) (rule cb)
  then show ?thesis using w' by blast
qed

text \<open>The constructor never stores the peer address it is given: two calls that differ only in it
  build the same connection, whose \<^verbatim>\<open>peerAddress()\<close> is the former content of its memory.\<close>

theorem peer_address_lost:
  "TcpConnection_new garbage l name sockfd localAddr peerAddr w = TcpConnection_new garbage l name sockfd localAddr peerAddr' w \<and>
   (\<exists>c w' tc. TcpConnection_new garbage l name sockfd localAddr peerAddr w = Inr (c, w') \<and> conns w' c = Some tc \<and>
      tc_peerAddr tc = garbage \<and> tc_localAddr tc = localAddr \<and> tc_state tc = kConnecting)"
proof -
  obtain b where b: "Buffer_new = Inr b" using Buffer_new_ok by blast
  show ?thesis unfolding TcpConnection_new_def b bindR_simps by (simp add: Channel_new_def Let_def)
qed

end
