(* ===== verification/Connecting.thy ===== *)
theory Connecting
  imports Tcp_Connection
begin

text \<open>
  \<^verbatim>\<open>Acceptor\<close> (src/reactor/Acceptor.cc) and \<^verbatim>\<open>Connector\<close> (Connector.h, Connector.cc). \<open>new_conn\<close> is the meaning of
  their new-connection callback, applied to the object that installed it.
\<close>

section \<open>Acceptor\<close>

definition upd_acceptor :: "(acceptor \<Rightarrow> acceptor) \<Rightarrow> ptr \<Rightarrow> 'z net_scheme \<Rightarrow> 'z net_scheme" where
  "upd_acceptor f a w = w\<lparr>acceptors := upd f a (acceptors w)\<rparr>"

definition Acceptor_new :: "kernel \<Rightarrow> ptr \<Rightarrow> sockaddr_in \<Rightarrow> 'z net_scheme \<Rightarrow> ptr \<times> 'z net_scheme" where
  "Acceptor_new os l listenAddr w =
     (case createNonblockingOrDie os w of (fd, w1) \<Rightarrow>
      case Channel_new l fd False w1 of (ch, w2) \<Rightarrow>
      let a = nextptr w2;
          w3 = setReuseAddr os fd True w2;
          w4 = bindAddress os fd listenAddr w3;
          w5 = upd_chan (\<lambda>c. c\<lparr>ch_readCallback := Some (Acceptor_handleRead_cb a)\<rparr>) ch w4 in
      (a, w5\<lparr>nextptr := a + 1, acceptors := (acceptors w5)(a \<mapsto>
        \<lparr>ac_loop = l, ac_sockfd = fd, ac_channel = ch, ac_newConnectionCallback = None, ac_listenning = False\<rparr>)\<rparr>))"

definition Acceptor_setNewConnectionCallBack :: "ptr \<Rightarrow> ptr \<Rightarrow> 'z net_scheme \<Rightarrow> 'z net_scheme" where
  "Acceptor_setNewConnectionCallBack cb = upd_acceptor (\<lambda>ac. ac\<lparr>ac_newConnectionCallback := Some cb\<rparr>)"

definition Acceptor_listen :: "kernel \<Rightarrow> tid \<Rightarrow> ptr \<Rightarrow> 'z net_scheme \<Rightarrow> 'z net_scheme res" where
  "Acceptor_listen os cur a w =
     bindR (deref (acceptors w) a) (\<lambda>ac.
     bindR (assertInLoopThread cur (ac_loop ac) w) (\<lambda>_.
     bindR (enableReading os cur (ac_channel ac) w) (\<lambda>w1.
     Inr (listenOrDie os (ac_sockfd ac) (upd_acceptor (\<lambda>ac. ac\<lparr>ac_listenning := True\<rparr>) a w1)))))"

definition Acceptor_handleRead ::
    "(ptr \<Rightarrow> int \<Rightarrow> sockaddr_in \<Rightarrow> 'z net_scheme \<Rightarrow> 'z net_scheme res) \<Rightarrow> kernel \<Rightarrow> tid \<Rightarrow> ptr \<Rightarrow>
     'z net_scheme \<Rightarrow> 'z net_scheme res" where
  "Acceptor_handleRead new_conn os cur a w =
     bindR (deref (acceptors w) a) (\<lambda>ac.
     bindR (assertInLoopThread cur (ac_loop ac) w) (\<lambda>_.
     case Socket_accept os (ac_sockfd ac) w of ((connfd, addr), w1) \<Rightarrow>
     if 0 \<le> connfd
     then case ac_newConnectionCallback ac of
         Some s \<Rightarrow> new_conn s connfd addr w1
       | None \<Rightarrow> Inr (closefd os connfd w1)
     else Inr w1))"

section \<open>Connector\<close>

definition EPERM :: int where "EPERM = 1"
definition EINTR :: int where "EINTR = 4"
definition EBADF :: int where "EBADF = 9"
definition EAGAIN :: int where "EAGAIN = 11"
definition EACCES :: int where "EACCES = 13"
definition EFAULT :: int where "EFAULT = 14"
definition ENOTSOCK :: int where "ENOTSOCK = 88"
definition EAFNOSUPPORT :: int where "EAFNOSUPPORT = 97"
definition EADDRINUSE :: int where "EADDRINUSE = 98"
definition EADDRNOTAVAIL :: int where "EADDRNOTAVAIL = 99"
definition ENETUNREACH :: int where "ENETUNREACH = 101"
definition EISCONN :: int where "EISCONN = 106"
definition ECONNREFUSED :: int where "ECONNREFUSED = 111"
definition EALREADY :: int where "EALREADY = 114"
definition EINPROGRESS :: int where "EINPROGRESS = 115"

lemmas errno_defs = EPERM_def EINTR_def EBADF_def EAGAIN_def EACCES_def EFAULT_def ENOTSOCK_def EAFNOSUPPORT_def
  EADDRINUSE_def EADDRNOTAVAIL_def ENETUNREACH_def EISCONN_def ECONNREFUSED_def EALREADY_def EINPROGRESS_def

definition kMaxRetryDelayMs :: int where "kMaxRetryDelayMs = 30000"
definition kInitRetryDalayMs :: int where "kInitRetryDalayMs = 500"

definition next_delay :: "int \<Rightarrow> int" where
  "next_delay d = min (d * 2) kMaxRetryDelayMs"

definition upd_connector :: "(connector \<Rightarrow> connector) \<Rightarrow> ptr \<Rightarrow> 'z net_scheme \<Rightarrow> 'z net_scheme" where
  "upd_connector f k w = w\<lparr>connectors := upd f k (connectors w)\<rparr>"

definition Connector_setState :: "connector_state \<Rightarrow> connector \<Rightarrow> connector" where
  "Connector_setState s co = co\<lparr>co_state := s\<rparr>"

definition Connector_new :: "ptr \<Rightarrow> sockaddr_in \<Rightarrow> 'z net_scheme \<Rightarrow> ptr \<times> 'z net_scheme" where
  "Connector_new l serverAddr w =
     (nextptr w, w\<lparr>nextptr := nextptr w + 1, connectors := (connectors w)(nextptr w \<mapsto>
       \<lparr>co_loop = l, co_serverAddr = serverAddr, co_connect = False, co_state = Connector_kDisconnected,
        co_channel = None, co_newConnectionCallback = None, co_retryDelayMs = kInitRetryDalayMs, co_timerId = None\<rparr>)\<rparr>)"

definition Connector_delete :: "ptr \<Rightarrow> 'z net_scheme \<Rightarrow> 'z net_scheme res" where
  "Connector_delete k w =
     bindR (deref (connectors w) k) (\<lambda>co.
     assertC (co_channel co = None) (Inr (w\<lparr>connectors := (connectors w)(k := None)\<rparr>)))"

definition Connector_setNewConnectionCallBack :: "ptr \<Rightarrow> ptr \<Rightarrow> 'z net_scheme \<Rightarrow> 'z net_scheme" where
  "Connector_setNewConnectionCallBack cb = upd_connector (\<lambda>co. co\<lparr>co_newConnectionCallback := Some cb\<rparr>)"

definition Connector_connecting :: "kernel \<Rightarrow> tid \<Rightarrow> ptr \<Rightarrow> int \<Rightarrow> 'z net_scheme \<Rightarrow> 'z net_scheme res" where
  "Connector_connecting os cur k sockfd w =
     bindR (deref (connectors w) k) (\<lambda>co.
     assertC (co_channel co = None)
       (case Channel_new (co_loop co) sockfd True (upd_connector (Connector_setState Connector_kConnecting) k w) of (ch, w1) \<Rightarrow>
        let w2 = upd_chan (\<lambda>c. c\<lparr>ch_writeCallback := Some (Connector_handleWrite_cb k),
                                 ch_errorCallback := Some (Connector_handleError_cb k)\<rparr>) ch
                   (upd_connector (\<lambda>co. co\<lparr>co_channel := Some ch\<rparr>) k w1) in
        enableWriting os cur ch w2))"

definition Connector_retry ::
    "(rat \<Rightarrow> rat) \<Rightarrow> kernel \<Rightarrow> tid \<Rightarrow> ptr \<Rightarrow> int \<Rightarrow> 'z net_scheme \<Rightarrow> 'z net_scheme res" where
  "Connector_retry rnd os cur k sockfd w =
     (let w1 = upd_connector (Connector_setState Connector_kDisconnected) k (closefd os sockfd w) in
      bindR (deref (connectors w1) k) (\<lambda>co.
      if co_connect co
      then bindR (runAfter rnd os cur (co_loop co) (rnd (of_int (co_retryDelayMs co) / 1000)) (StartInLoop k) w1) (\<lambda>(tid, w2).
        Inr (upd_connector (\<lambda>co. co\<lparr>co_timerId := Some tid,
          co_retryDelayMs := next_delay (co_retryDelayMs co)\<rparr>) k w2))
      else Inr w1))"

definition Connector_connect :: "(rat \<Rightarrow> rat) \<Rightarrow> kernel \<Rightarrow> tid \<Rightarrow> ptr \<Rightarrow> 'z net_scheme \<Rightarrow> 'z net_scheme res" where
  "Connector_connect rnd os cur k w =
     bindR (deref (connectors w) k) (\<lambda>co.
     case createNonblockingOrDie os w of (sockfd, w1) \<Rightarrow>
     case socketops_connect os sockfd (co_serverAddr co) w1 of ((ret, errno), w2) \<Rightarrow>
     let savedErrno = (if ret = 0 then 0 else errno) in
     if savedErrno \<in> {0, EINPROGRESS, EINTR, EISCONN} then Connector_connecting os cur k sockfd w2
     else if savedErrno \<in> {EAGAIN, EADDRINUSE, EADDRNOTAVAIL, ECONNREFUSED, ENETUNREACH}
     then Connector_retry rnd os cur k sockfd w2
     else Inr (closefd os sockfd w2))"

definition startInLoop :: "(rat \<Rightarrow> rat) \<Rightarrow> kernel \<Rightarrow> tid \<Rightarrow> ptr \<Rightarrow> 'z net_scheme \<Rightarrow> 'z net_scheme res" where
  "startInLoop rnd os cur k w =
     bindR (deref (connectors w) k) (\<lambda>co.
     bindR (assertInLoopThread cur (co_loop co) w) (\<lambda>_.
     assertC (co_state co = Connector_kDisconnected)
       (if co_connect co then Connector_connect rnd os cur k w else Inr w)))"

definition Connector_start :: "(rat \<Rightarrow> rat) \<Rightarrow> kernel \<Rightarrow> tid \<Rightarrow> ptr \<Rightarrow> 'z net_scheme \<Rightarrow> 'z net_scheme res" where
  "Connector_start rnd os cur k w =
     bindR (deref (connectors w) k) (\<lambda>co.
     runInLoop os (\<lambda>_. startInLoop rnd os cur k) cur (co_loop co) (StartInLoop k)
       (upd_connector (\<lambda>co. co\<lparr>co_connect := True\<rparr>) k w))"

definition Connector_restart :: "(rat \<Rightarrow> rat) \<Rightarrow> kernel \<Rightarrow> tid \<Rightarrow> ptr \<Rightarrow> 'z net_scheme \<Rightarrow> 'z net_scheme res" where
  "Connector_restart rnd os cur k w =
     bindR (deref (connectors w) k) (\<lambda>co.
     bindR (assertInLoopThread cur (co_loop co) w) (\<lambda>_.
     startInLoop rnd os cur k (upd_connector (\<lambda>co. co\<lparr>co_state := Connector_kDisconnected,
       co_retryDelayMs := kInitRetryDalayMs, co_connect := True\<rparr>) k w)))"

definition Connector_stop :: "ptr \<Rightarrow> 'z net_scheme \<Rightarrow> 'z net_scheme" where
  "Connector_stop k = upd_connector (\<lambda>co. co\<lparr>co_connect := False\<rparr>) k"

definition removeAndResetChannel :: "kernel \<Rightarrow> tid \<Rightarrow> ptr \<Rightarrow> 'z net_scheme \<Rightarrow> (int \<times> 'z net_scheme) res" where
  "removeAndResetChannel os cur k w =
     bindR (deref (connectors w) k) (\<lambda>co.
     case co_channel co of None \<Rightarrow> Inl NullPointer | Some ch \<Rightarrow>
     bindR (disableAll os cur ch w) (\<lambda>w1.
     bindR (EventLoop_removeChannel os cur (co_loop co) ch w1) (\<lambda>w2.
     bindR (deref (chans w2) ch) (\<lambda>c.
     bindR (queueInLoop os cur (co_loop co) (ResetChannel k) w2) (\<lambda>w3.
     Inr (ch_fd c, w3))))))"

definition resetChannel :: "ptr \<Rightarrow> 'z net_scheme \<Rightarrow> 'z net_scheme res" where
  "resetChannel k w =
     bindR (deref (connectors w) k) (\<lambda>co.
     case co_channel co of None \<Rightarrow> Inr w | Some ch \<Rightarrow>
     bindR (Channel_delete ch w) (\<lambda>w1. Inr (upd_connector (\<lambda>co. co\<lparr>co_channel := None\<rparr>) k w1)))"

definition Connector_handleWrite ::
    "(rat \<Rightarrow> rat) \<Rightarrow> (ptr \<Rightarrow> int \<Rightarrow> 'z net_scheme \<Rightarrow> 'z net_scheme res) \<Rightarrow> kernel \<Rightarrow> tid \<Rightarrow> ptr \<Rightarrow>
     'z net_scheme \<Rightarrow> 'z net_scheme res" where
  "Connector_handleWrite rnd new_conn os cur k w =
     bindR (deref (connectors w) k) (\<lambda>co.
     if co_state co = Connector_kConnecting
     then bindR (removeAndResetChannel os cur k w) (\<lambda>(sockfd, w1).
       case getSocketError os sockfd w1 of (err, w2) \<Rightarrow>
       if err \<noteq> 0 then Connector_retry rnd os cur k sockfd w2
       else case isSelfConnect os sockfd w2 of (self, w3) \<Rightarrow>
       if self then Connector_retry rnd os cur k sockfd w3
       else let w4 = upd_connector (Connector_setState Connector_kConnected) k w3 in
         if co_connect co then call_fun (co_newConnectionCallback co) (\<lambda>cl. new_conn cl sockfd) w4
         else Inr (closefd os sockfd w4))
     else assertC (co_state co = Connector_kDisconnected) (Inr w))"

definition Connector_handleError ::
    "(rat \<Rightarrow> rat) \<Rightarrow> kernel \<Rightarrow> tid \<Rightarrow> ptr \<Rightarrow> 'z net_scheme \<Rightarrow> 'z net_scheme res" where
  "Connector_handleError rnd os cur k w =
     bindR (deref (connectors w) k) (\<lambda>co.
     assertC (co_state co = Connector_kConnecting) (
     bindR (removeAndResetChannel os cur k w) (\<lambda>(sockfd, w1).
     Connector_retry rnd os cur k sockfd (snd (getSocketError os sockfd w1)))))"

section \<open>Frames\<close>

text \<open>The calls made between two states.\<close>

definition calls_since :: "'z reactor_scheme \<Rightarrow> 'z reactor_scheme \<Rightarrow> syscall set" where
  "calls_since w w' = fst ` set (drop (length (trace w)) (trace w'))"

definition extends :: "'z net_scheme \<Rightarrow> 'z net_scheme \<Rightarrow> bool" where
  "extends w w' \<longleftrightarrow> (\<exists>h. trace w' = trace w @ h) \<and> connectors w' = connectors w \<and> conns w' = conns w \<and>
     clients w' = clients w \<and> servers w' = servers w \<and> acceptors w' = acceptors w"

lemma extends_refl [simp]: "extends w w"
  by (simp add: extends_def)

lemma extends_trans: "extends w w1 \<Longrightarrow> extends w1 w2 \<Longrightarrow> extends w w2"
  by (auto simp: extends_def)

lemma net_frame [simp]:
  "connectors (upd_chan f p w) = connectors w" "connectors (upd_loop g l w) = connectors w"
  "clients (upd_chan f p w) = clients w" "clients (upd_loop g l w) = clients w"
  "servers (upd_chan f p w) = servers w" "servers (upd_loop g l w) = servers w"
  "acceptors (upd_chan f p w) = acceptors w" "acceptors (upd_loop g l w) = acceptors w"
  "elthreads (upd_chan f p w) = elthreads w" "elthreads (upd_loop g l w) = elthreads w"
  by (simp_all add: upd_chan_def upd_loop_def)

lemma upd_connector_frame [simp]:
  "connectors (upd_connector f k w) = upd f k (connectors w)" "trace (upd_connector f k w) = trace w"
  "chans (upd_connector f k w) = chans w" "loops (upd_connector f k w) = loops w" "timers (upd_connector f k w) = timers w"
  "nextptr (upd_connector f k w) = nextptr w" "conns (upd_connector f k w) = conns w"
  "clients (upd_connector f k w) = clients w" "servers (upd_connector f k w) = servers w"
  "acceptors (upd_connector f k w) = acceptors w"
  by (simp_all add: upd_connector_def)

lemma addTimer_in_thread:
  assumes "loops w l = Some lp" "el_threadId lp = cur" "addTimer os cur l cb when interval w = Inr ((t, s), w')"
  shows "extends w w'" "t = nextptr w" "loops w' l \<noteq> None"
    "\<exists>ti. timers w' t = Some ti \<and> ti_callback ti = cb \<and> ti_expiration ti = when \<and> ti_interval ti = interval \<and> (ti_repeat ti \<longleftrightarrow> 0 < interval)"
proof -
  obtain w1 where w1: "Timer_new cb when interval w = (nextptr w, w1)" by (simp add: Timer_new_def)
  have n: "loops w1 l = Some lp" "trace w1 = trace w" "extends w w1"
    "\<exists>ti. timers w1 (nextptr w) = Some ti \<and> ti_callback ti = cb \<and> ti_expiration ti = when \<and> ti_interval ti = interval \<and>
       (ti_repeat ti \<longleftrightarrow> 0 < interval)"
    using w1 assms(1) by (auto simp: Timer_new_def extends_def)
  have run: "bindR (addTimerInLoop os cur l (nextptr w) w1) (\<lambda>w2. bindR (deref (timers w2) (nextptr w)) (\<lambda>ti. Inr ((nextptr w, ti_sequence ti), w2)))
      = Inr ((t, s), w')"
    using assms(3) runInLoop_in_thread [OF n(1) assms(2), of os "\<lambda>_. addTimerInLoop os cur l (nextptr w)" "AddTimerInLoop l (nextptr w)"]
    by (simp add: addTimer_def w1)
  then have add: "addTimerInLoop os cur l (nextptr w) w1 = Inr w'" and t: "t = nextptr w" by auto
  obtain b w2 where ins: "TimerQueue_insert l (nextptr w) w1 = Inr (b, w2)"
    and last: "(if b then bindR (deref (loops w2) l) (\<lambda>lp. bindR (deref (timers w2) (nextptr w)) (\<lambda>ti.
      Inr (resetTimerfd os (tq_timerfd (el_timerqueue lp)) (ti_expiration ti) w2))) else Inr w2) = Inr w'"
    using add by (auto simp: addTimerInLoop_def)
  have w2: "extends w1 w2" "timers w2 = timers w1" "loops w2 l \<noteq> None"
    using ins n(1) by (auto simp: TimerQueue_insert_def Let_def extends_def)
  have w': "extends w2 w'" "timers w' = timers w2" "loops w' = loops w2"
    using last by (auto simp: resetTimerfd_def howMachTimeFromNow_def Timestamp_now_def Let_def extends_def split: if_splits)
  show "extends w w'" using n(3) w2(1) w'(1) extends_trans by blast
  show "t = nextptr w" by (rule t)
  show "loops w' l \<noteq> None" using w' w2 by simp
  show "\<exists>ti. timers w' t = Some ti \<and> ti_callback ti = cb \<and> ti_expiration ti = when \<and> ti_interval ti = interval \<and> (ti_repeat ti \<longleftrightarrow> 0 < interval)"
    using n(4) w2(2) w'(2) t by simp
qed

lemma runAfter_in_thread:
  assumes "loops w l = Some lp" "el_threadId lp = cur" "runAfter rnd os cur l d cb w = Inr ((t, s), w')"
  shows "extends w w'"
    "\<exists>ti now. timers w' t = Some ti \<and> ti_callback ti = cb \<and> ti_expiration ti = addTime rnd now d \<and> \<not> ti_repeat ti"
proof -
  let ?w1 = "snd (Timestamp_now os w)" and ?now = "fst (Timestamp_now os w)"
  have e: "extends w ?w1" and l: "loops ?w1 l = Some lp" using assms(1) by (simp_all add: extends_def)
  have run: "addTimer os cur l cb (addTime rnd ?now d) 0 ?w1 = Inr ((t, s), w')"
    using assms(3) by (simp add: runAfter_def runAt_def case_prod_beta)
  note a = addTimer_in_thread [OF l assms(2) run]
  show "extends w w'" using e a(1) extends_trans by blast
  show "\<exists>ti now. timers w' t = Some ti \<and> ti_callback ti = cb \<and> ti_expiration ti = addTime rnd now d \<and> \<not> ti_repeat ti"
    using a(4) by auto
qed

lemma retry_result:
  assumes run: "Connector_retry rnd os cur k fd w = Inr w'" and co: "connectors w k = Some co"
    and lp: "loops w (co_loop co) = Some lp" "el_threadId lp = cur"
  shows "\<exists>co'. connectors w' k = Some co' \<and> co_state co' = Connector_kDisconnected \<and> co_channel co' = co_channel co \<and>
    co_connect co' = co_connect co \<and> co_retryDelayMs co' = (if co_connect co then next_delay (co_retryDelayMs co) else co_retryDelayMs co) \<and>
    (co_connect co \<longrightarrow> (\<exists>t s ti now. co_timerId co' = Some (t, s) \<and> timers w' t = Some ti \<and> ti_callback ti = StartInLoop k \<and>
       ti_expiration ti = addTime rnd now (rnd (of_int (co_retryDelayMs co) / 1000)) \<and> \<not> ti_repeat ti))"
    "Sys_close fd \<in> calls_since w w' \<and> (\<exists>h. trace w' = trace w @ h)"
proof -
  let ?w1 = "upd_connector (Connector_setState Connector_kDisconnected) k (closefd os fd w)"
  have w1: "connectors ?w1 k = Some (Connector_setState Connector_kDisconnected co)"
    "loops ?w1 (co_loop co) = Some lp" "trace ?w1 = trace w @ [(Sys_close fd, os (trace w) (Sys_close fd))]"
    using co lp by (simp_all add: closefd_def)
  have "(\<exists>co'. connectors w' k = Some co' \<and> co_state co' = Connector_kDisconnected \<and> co_channel co' = co_channel co \<and>
    co_connect co' = co_connect co \<and> co_retryDelayMs co' = (if co_connect co then next_delay (co_retryDelayMs co) else co_retryDelayMs co) \<and>
    (co_connect co \<longrightarrow> (\<exists>t s ti now. co_timerId co' = Some (t, s) \<and> timers w' t = Some ti \<and> ti_callback ti = StartInLoop k \<and>
       ti_expiration ti = addTime rnd now (rnd (of_int (co_retryDelayMs co) / 1000)) \<and> \<not> ti_repeat ti))) \<and>
    (\<exists>h. trace w' = trace ?w1 @ h)"
  proof (cases "co_connect co")
    case False
    then have "w' = ?w1" using run w1(1) by (simp add: Connector_retry_def Let_def Connector_setState_def)
    then have "connectors w' k = Some (Connector_setState Connector_kDisconnected co)" "trace w' = trace ?w1"
      using w1(1) by (simp_all only:)
    then show ?thesis using False by (simp add: Connector_setState_def)
  next
    case True
    then obtain t s w2 where r: "runAfter rnd os cur (co_loop co) (rnd (of_int (co_retryDelayMs co) / 1000)) (StartInLoop k) ?w1 = Inr ((t, s), w2)"
      and w': "w' = upd_connector (\<lambda>co'. co'\<lparr>co_timerId := Some (t, s), co_retryDelayMs := next_delay (co_retryDelayMs co')\<rparr>) k w2"
      using run w1(1) by (auto simp: Connector_retry_def Let_def Connector_setState_def)
    note a = runAfter_in_thread [OF w1(2) lp(2) r]
    then have c2: "connectors w2 k = Some (Connector_setState Connector_kDisconnected co)" using w1(1) by (simp add: extends_def)
    show ?thesis
      using a(2) c2 True a(1) by (auto simp: w' extends_def Connector_setState_def)
  qed
  then show "\<exists>co'. connectors w' k = Some co' \<and> co_state co' = Connector_kDisconnected \<and> co_channel co' = co_channel co \<and>
    co_connect co' = co_connect co \<and> co_retryDelayMs co' = (if co_connect co then next_delay (co_retryDelayMs co) else co_retryDelayMs co) \<and>
    (co_connect co \<longrightarrow> (\<exists>t s ti now. co_timerId co' = Some (t, s) \<and> timers w' t = Some ti \<and> ti_callback ti = StartInLoop k \<and>
       ti_expiration ti = addTime rnd now (rnd (of_int (co_retryDelayMs co) / 1000)) \<and> \<not> ti_repeat ti))"
    "Sys_close fd \<in> calls_since w w' \<and> (\<exists>h. trace w' = trace w @ h)"
    using w1(3) by (auto simp: calls_since_def)
qed

lemma next_delay_iterate: "(next_delay ^^ n) kInitRetryDalayMs = min (500 * 2 ^ n) 30000"
  by (induction n) (auto simp: next_delay_def kInitRetryDalayMs_def kMaxRetryDelayMs_def)

text \<open>A failed attempt in the loop thread closes its socket, returns to \<^verbatim>\<open>kDisconnected\<close> and, unless stopped,
  schedules one new attempt after the current delay and doubles the delay: before the attempt number
  \<open>n + 1\<close> it is 500 ms times \<open>2 ^ n\<close>, but never more than 30 seconds.\<close>

theorem retry_backoff:
  assumes run: "Connector_retry rnd os cur k fd w = Inr w'" and co: "connectors w k = Some co"
    and lp: "loops w (co_loop co) = Some lp" "el_threadId lp = cur"
    and n: "co_connect co" "co_retryDelayMs co = (next_delay ^^ n) kInitRetryDalayMs"
  shows "\<exists>co' t s ti now. connectors w' k = Some co' \<and> co_state co' = Connector_kDisconnected \<and>
    co_retryDelayMs co = min (500 * 2 ^ n) 30000 \<and> co_retryDelayMs co' = (next_delay ^^ Suc n) kInitRetryDalayMs \<and>
    co_timerId co' = Some (t, s) \<and> timers w' t = Some ti \<and> ti_callback ti = StartInLoop k \<and>
    ti_expiration ti = addTime rnd now (rnd (of_int (co_retryDelayMs co) / 1000)) \<and> Sys_close fd \<in> calls_since w w'"
  using retry_result [OF run co lp] n next_delay_iterate by auto

definition connector50 :: connector where
  "connector50 = \<lparr>co_loop = 0, co_serverAddr = no_addr, co_connect = True, co_state = Connector_kDisconnected,
     co_channel = None, co_newConnectionCallback = Some 60, co_retryDelayMs = 500, co_timerId = None\<rparr>"

definition client_world :: net where
  "client_world = conn_world\<lparr>connectors := [50 \<mapsto> connector50], nextptr := 70\<rparr>"

lemma client_world_simps:
  "connectors client_world 50 = Some connector50" "loops client_world 0 = Some (set_channel 9 (Some 1) loop0)"
  "chans client_world = chans conn_world" "trace client_world = trace conn_world" "timers client_world = timers conn_world"
  "nextptr client_world = 70"
  by (simp_all add: client_world_def conn_world_simps)

lemma retry_run: "\<exists>w'. Connector_retry id quiet_kernel 7 50 8 client_world = Inr w'"
  by (simp add: Connector_retry_def runAfter_def runAt_def addTimer_def Timer_new_def Let_def Timestamp_now_def
      runInLoop_def isInLoopThread_def addTimerInLoop_def assertInLoopThread_def TimerQueue_insert_def
      client_world_simps closefd_def Connector_setState_def connector50_def resetTimerfd_def howMachTimeFromNow_def
      set_channel_def loop0_def upd_connector_def upd_def)

theorem retry_backoff_witness:
  "\<exists>w' co'. Connector_retry id quiet_kernel 7 50 8 client_world = Inr w' \<and> connectors w' 50 = Some co' \<and>
     co_retryDelayMs co' = 1000 \<and> Sys_close 8 \<in> calls_since client_world w'"
proof -
  obtain w' where w': "Connector_retry id quiet_kernel 7 50 8 client_world = Inr w'" using retry_run by blast
  have l: "loops client_world (co_loop connector50) = Some (set_channel 9 (Some 1) loop0)" "el_threadId (set_channel 9 (Some 1) loop0) = 7"
    "co_connect connector50" "co_retryDelayMs connector50 = (next_delay ^^ 0) kInitRetryDalayMs"
    by (simp_all add: client_world_simps connector50_def loop0_def kInitRetryDalayMs_def)
  have "(next_delay ^^ Suc 0) kInitRetryDalayMs = 1000" by (simp add: next_delay_def kInitRetryDalayMs_def kMaxRetryDelayMs_def)
  then show ?thesis using retry_backoff [OF w' client_world_simps(1) l] w' by auto
qed

section \<open>Connecting\<close>

text \<open>Descriptor \<open>fd\<close> is watched with the mask \<open>ev\<close>: its channel \<open>p\<close> is registered, in the map of its loop and in the
  kernel's interest list.\<close>

definition watched :: "ptr \<Rightarrow> ptr \<Rightarrow> int \<Rightarrow> 32 word \<Rightarrow> 'z reactor_scheme \<Rightarrow> bool" where
  "watched l p fd ev w \<longleftrightarrow> chan_reg w p = Some (fd, l, True) \<and> ep_lookup w l fd = Some p \<and>
     map_option ch_events (chans w p) = Some ev \<and>
     (\<exists>lp. loops w l = Some lp \<and> interest (ep_epfd (el_epoller lp)) (trace w) fd = Some ev)"

lemma after_update_watched:
  assumes ch: "chans w p = Some ch" "\<not> ch_registered ch" "ch_events ch \<noteq> 0" and lp: "loops w (ch_loop ch) = Some lp"
    and w': "w' = after_update os p ch lp w"
  shows "\<exists>r. trace w' = trace w @ [(Sys_epoll_add (ep_epfd (el_epoller lp)) (ch_fd ch) (ch_events ch), r)] \<and>
    (if sr_ret r = 0 then watched (ch_loop ch) p (ch_fd ch) (ch_events ch) w' else chans w' = chans w \<and> loops w' = loops w)"
proof -
  let ?add = "Sys_epoll_add (ep_epfd (el_epoller lp)) (ch_fd ch) (ch_events ch)"
  have "if sr_ret (os (trace w) ?add) = 0 then watched (ch_loop ch) p (ch_fd ch) (ch_events ch) w' else chans w' = chans w \<and> loops w' = loops w"
    using ch lp by (simp add: w' after_update_def Let_def watched_def chan_reg_def ep_lookup_def)
  moreover have "trace w' = trace w @ [(?add, os (trace w) ?add)]" using ch by (simp add: w' after_update_def Let_def)
  ultimately show ?thesis by blast
qed

lemma connecting_result:
  assumes run: "Connector_connecting os cur k fd w = Inr w'" and co: "connectors w k = Some co"
  shows "co_channel co = None" "connectors w' k = Some (co\<lparr>co_state := Connector_kConnecting, co_channel := Some (nextptr w)\<rparr>)"
    "\<exists>ch. chans w' (nextptr w) = Some ch \<and> ch_fd ch = fd \<and> ch_events ch = kWriteEvent"
    "Sys_close fd \<notin> calls_since w w' \<and> (\<exists>h. trace w' = trace w @ h)"
    "\<exists>lp r. loops w (co_loop co) = Some lp \<and>
       trace w' = trace w @ [(Sys_epoll_add (ep_epfd (el_epoller lp)) fd kWriteEvent, r)] \<and>
       (if sr_ret r = 0 then watched (co_loop co) (nextptr w) fd kWriteEvent w'
        else chan_reg w' (nextptr w) = Some (fd, co_loop co, False) \<and> loops w' = loops w)"
    "\<exists>ch. chans w' (nextptr w) = Some ch \<and> ch_writeCallback ch = Some (Connector_handleWrite_cb k) \<and>
       ch_errorCallback ch = Some (Connector_handleError_cb k)"
proof -
  let ?w1 = "upd_connector (Connector_setState Connector_kConnecting) k w"
  let ?w2 = "upd_chan (\<lambda>c. c\<lparr>ch_writeCallback := Some (Connector_handleWrite_cb k), ch_errorCallback := Some (Connector_handleError_cb k)\<rparr>)
     (nextptr w) (upd_connector (\<lambda>co. co\<lparr>co_channel := Some (nextptr w)\<rparr>) k (snd (Channel_new (co_loop co) fd True ?w1)))"
  have none: "co_channel co = None" and en: "enableWriting os cur (nextptr w) ?w2 = Inr w'"
    using run co by (auto simp: Connector_connecting_def Channel_new_def Let_def)
  have c2: "connectors ?w2 k = Some (co\<lparr>co_state := Connector_kConnecting, co_channel := Some (nextptr w)\<rparr>)"
    using co by (simp add: Channel_new_def Connector_setState_def)
  have ev: "chan_ev (nextptr w) ?w2 = Some (fd, co_loop co, 0)"
    by (simp add: chan_ev_def Channel_new_def Channel_init_def)
  have u: "Channel_update os cur (nextptr w) (upd_chan (set_events (0 OR kWriteEvent)) (nextptr w) ?w2) = Inr w'"
    by (rule enableWriting_views [OF en ev])
  obtain ch lp where "w' = after_update os (nextptr w) ch lp (upd_chan (set_events (0 OR kWriteEvent)) (nextptr w) ?w2)"
    using u by (rule Channel_update_InrE)
  then have c': "connectors w' = connectors ?w2" "Sys_close fd \<notin> calls_since w w' \<and> (\<exists>h. trace w' = trace w @ h)"
    by (auto simp: after_update_def Let_def calls_since_def Channel_new_def)
  show "co_channel co = None" by (rule none)
  show "connectors w' k = Some (co\<lparr>co_state := Connector_kConnecting, co_channel := Some (nextptr w)\<rparr>)"
    using c' c2 by simp
  show "\<exists>ch. chans w' (nextptr w) = Some ch \<and> ch_fd ch = fd \<and> ch_events ch = kWriteEvent"
    using Channel_update_views(2) [OF u ev] by (auto simp: chan_ev_Some)
  show "Sys_close fd \<notin> calls_since w w' \<and> (\<exists>h. trace w' = trace w @ h)" by (rule c'(2))
  let ?w3 = "upd_chan (set_events (0 OR kWriteEvent)) (nextptr w) ?w2"
  let ?ch = "set_events kWriteEvent (Channel_init (co_loop co) fd True\<lparr>ch_writeCallback := Some (Connector_handleWrite_cb k),
    ch_errorCallback := Some (Connector_handleError_cb k)\<rparr>)"
  have ch3: "chans ?w3 (nextptr w) = Some ?ch" "trace ?w3 = trace w" "loops ?w3 = loops w"
    by (simp_all add: Channel_new_def upd_def)
  have init: "\<not> ch_registered ?ch" "ch_events ?ch = kWriteEvent" "ch_fd ?ch = fd" "ch_loop ?ch = co_loop co" "kWriteEvent \<noteq> 0"
    by (simp_all add: Channel_init_def kWriteEvent_def epoll_flags)
  obtain ch' lp3 where u3: "chans ?w3 (nextptr w) = Some ch'" "loops ?w3 (ch_loop ch') = Some lp3"
    "w' = after_update os (nextptr w) ch' lp3 ?w3"
    using u by (rule Channel_update_InrE)
  have "ch' = ?ch" using u3(1) unfolding ch3(1) by (simp only: option.inject)
  then have up: "loops ?w3 (co_loop co) = Some lp3" "w' = after_update os (nextptr w) ?ch lp3 ?w3"
    using u3(2,3) init(4) by (simp_all only:)
  from after_update_watched [OF ch3(1) init(1) _ _ up(2)] up(1) init ch3
  show "\<exists>lp r. loops w (co_loop co) = Some lp \<and>
       trace w' = trace w @ [(Sys_epoll_add (ep_epfd (el_epoller lp)) fd kWriteEvent, r)] \<and>
       (if sr_ret r = 0 then watched (co_loop co) (nextptr w) fd kWriteEvent w'
        else chan_reg w' (nextptr w) = Some (fd, co_loop co, False) \<and> loops w' = loops w)"
    by (auto simp: chan_reg_def)
  show "\<exists>ch. chans w' (nextptr w) = Some ch \<and> ch_writeCallback ch = Some (Connector_handleWrite_cb k) \<and>
       ch_errorCallback ch = Some (Connector_handleError_cb k)"
    using ch3(1) by (auto simp: up(2) after_update_def Let_def set_events_def set_registered_def)
qed

text \<open>(C19) One connection attempt, whatever \<^verbatim>\<open>connect\<close> answers: either the connector is \<^verbatim>\<open>kConnecting\<close> and the new
  socket, still open, has a channel with the connector's write and error handlers, for which the last call asked
  \<^verbatim>\<open>epoll_ctl\<close> to watch writability; where the kernel agreed, the channel is registered, in the loop's map and in the
  kernel's interest list (\<open>watched\<close>), and where it refused the channel is not registered, which the code only logs.
  Or the connector stays \<^verbatim>\<open>kDisconnected\<close> without a channel and the socket has been closed: no descriptor is leaked.\<close>

theorem connect_outcome:
  assumes run: "startInLoop rnd os cur k w = Inr w'" and co: "connectors w k = Some co" "co_connect co" "co_channel co = None"
    and fd: "fd = sr_ret (os (trace w) Sys_socket)"
  shows "\<exists>co'. connectors w' k = Some co' \<and>
    (co_state co' = Connector_kConnecting \<and> Sys_close fd \<notin> calls_since w w' \<and>
       (\<exists>p ch lp h r. co_channel co' = Some p \<and> chans w' p = Some ch \<and> ch_fd ch = fd \<and> ch_events ch = kWriteEvent \<and>
         ch_writeCallback ch = Some (Connector_handleWrite_cb k) \<and> ch_errorCallback ch = Some (Connector_handleError_cb k) \<and>
         loops w (co_loop co) = Some lp \<and> trace w' = h @ [(Sys_epoll_add (ep_epfd (el_epoller lp)) fd kWriteEvent, r)] \<and>
         (if sr_ret r = 0 then watched (co_loop co) p fd kWriteEvent w'
          else \<not> ch_registered ch \<and> ep_lookup w' (co_loop co) = ep_lookup w (co_loop co)))
     \<or> co_state co' = Connector_kDisconnected \<and> co_channel co' = None \<and> Sys_close fd \<in> calls_since w w')"
proof -
  obtain lp where lp: "loops w (co_loop co) = Some lp" "el_threadId lp = cur" "co_state co = Connector_kDisconnected"
    and conn: "Connector_connect rnd os cur k w = Inr w'"
    using run co by (auto simp: startInLoop_def assertInLoopThread_def isInLoopThread_def abortNotInLoopThread_def split: if_splits)
  let ?w1 = "w\<lparr>trace := trace w @ [(Sys_socket, os (trace w) Sys_socket)]\<rparr>"
  let ?c = "Sys_connect fd (co_serverAddr co)"
  let ?r = "os (trace ?w1) ?c"
  let ?w2 = "?w1\<lparr>trace := trace ?w1 @ [(?c, ?r)]\<rparr>"
  let ?e = "if sr_ret ?r = 0 then 0 else sr_errno ?r"
  have c2: "connectors ?w2 k = Some co" "loops ?w2 (co_loop co) = Some lp" using co lp by simp_all
  have since: "calls_since w w' = {Sys_socket, ?c} \<union> calls_since ?w2 w'" if "\<exists>h. trace w' = trace ?w2 @ h"
    using that by (auto simp: calls_since_def)
  have cases: "(if ?e \<in> {0, EINPROGRESS, EINTR, EISCONN} then Connector_connecting os cur k fd ?w2
     else if ?e \<in> {EAGAIN, EADDRINUSE, EADDRNOTAVAIL, ECONNREFUSED, ENETUNREACH} then Connector_retry rnd os cur k fd ?w2
     else Inr (closefd os fd ?w2)) = Inr w'"
    using conn co(1) unfolding Connector_connect_def createNonblockingOrDie_def socketops_connect_def
    by (simp add: fd [symmetric] Let_def)
  consider (go) "Connector_connecting os cur k fd ?w2 = Inr w'" | (retry) "Connector_retry rnd os cur k fd ?w2 = Inr w'"
    | (fail) "closefd os fd ?w2 = w'"
    using cases by (auto split: if_splits)
  then show ?thesis
  proof cases
    case go
    note r = connecting_result [OF go c2(1)]
    have open_fd: "Sys_close fd \<notin> calls_since w w'" using since r(4) by blast
    have n2: "nextptr ?w2 = nextptr w" "loops ?w2 = loops w" by simp_all
    obtain lp' h r' where add: "loops w (co_loop co) = Some lp'" "trace w' = h @ [(Sys_epoll_add (ep_epfd (el_epoller lp')) fd kWriteEvent, r')]"
      and kernel: "if sr_ret r' = 0 then watched (co_loop co) (nextptr w) fd kWriteEvent w'
        else chan_reg w' (nextptr w) = Some (fd, co_loop co, False) \<and> loops w' = loops w"
      using r(5) [unfolded n2] by metis
    obtain ch where ch: "chans w' (nextptr w) = Some ch" "ch_fd ch = fd" "ch_events ch = kWriteEvent"
      "ch_writeCallback ch = Some (Connector_handleWrite_cb k)" "ch_errorCallback ch = Some (Connector_handleError_cb k)"
      using r(3,6) [unfolded n2] by auto
    have "if sr_ret r' = 0 then watched (co_loop co) (nextptr w) fd kWriteEvent w'
        else \<not> ch_registered ch \<and> ep_lookup w' (co_loop co) = ep_lookup w (co_loop co)"
      using kernel ch(1) by (auto simp: chan_reg_def ep_lookup_def fun_eq_iff split: if_splits)
    then show ?thesis using open_fd r(2) [unfolded n2] ch add
      by (intro exI [of _ "co\<lparr>co_state := Connector_kConnecting, co_channel := Some (nextptr w)\<rparr>"] conjI disjI1 exI [of _ "nextptr w"]
          exI [of _ ch] exI [of _ lp'] exI [of _ h] exI [of _ r']) simp_all
  next
    case retry
    note r = retry_result [OF retry c2(1,2) lp(2)]
    have "Sys_close fd \<in> calls_since w w'" using since r(2) by blast
    then show ?thesis using r(1) co(3) by auto
  next
    case fail
    then have "connectors w' k = Some co" "Sys_close fd \<in> calls_since w w'"
      using c2(1) by (auto simp: closefd_def calls_since_def)
    then show ?thesis using lp(3) co(3) by auto
  qed
qed

lemma start_run: "\<exists>w'. startInLoop id quiet_kernel 7 50 client_world = Inr w'"
  by (simp add: startInLoop_def Connector_connect_def Connector_connecting_def createNonblockingOrDie_def
      socketops_connect_def Channel_new_def Channel_init_def enableWriting_def Channel_update_def EventLoop_updateChannel_def
      updateChannelMap_def assertInLoopThread_def isInLoopThread_def epollAdd_def Let_def
      client_world_simps connector50_def quiet_kernel_def answer_def upd_connector_def upd_def
      Connector_setState_def set_events_def upd_chan_def set_channel_def loop0_def kWriteEvent_def epoll_flags word_pos_iff)

theorem connect_outcome_witness:
  "\<exists>w' co'. startInLoop id quiet_kernel 7 50 client_world = Inr w' \<and> connectors w' 50 = Some co' \<and>
     co_state co' \<noteq> Connector_kConnected"
proof -
  obtain w' where w': "startInLoop id quiet_kernel 7 50 client_world = Inr w'" using start_run by blast
  have c: "co_connect connector50" "co_channel connector50 = None" by (simp_all add: connector50_def)
  show ?thesis
    using connect_outcome [OF w' client_world_simps(1) c refl] w' by (auto intro!: exI [of _ w'])
qed

end
