(* ===== verification/Tcp_Server.thy ===== *)
theory Tcp_Server
  imports Connecting
begin

text \<open>
  \<^verbatim>\<open>EventLoopThread\<close>, \<^verbatim>\<open>EventLoopThreadPool\<close>, \<^verbatim>\<open>TcpServer\<close> and \<^verbatim>\<open>TcpClient\<close> (src/reactor), and the meaning of all
  queued tasks and channel callbacks.

  \<^verbatim>\<open>startLoop\<close> waits until the new thread has published its loop, so its result is that of running
  \<^verbatim>\<open>ThreadFunc\<close> up to that point in the new thread (theory \<open>Loop_Thread\<close> has the two threads and their handshake); the thread number is the kernel's answer to \<^verbatim>\<open>gettid\<close>.
  A \<^verbatim>\<open>join\<close> of a thread whose \<^verbatim>\<open>loop()\<close> has not returned blocks (\<open>WouldBlock\<close>).
\<close>

section \<open>EventLoopThread\<close>

definition upd_elthread :: "(eventLoopThread \<Rightarrow> eventLoopThread) \<Rightarrow> ptr \<Rightarrow> 'z net_scheme \<Rightarrow> 'z net_scheme" where
  "upd_elthread f t w = w\<lparr>elthreads := upd f t (elthreads w)\<rparr>"

definition EventLoopThread_new :: "'z net_scheme \<Rightarrow> ptr \<times> 'z net_scheme" where
  "EventLoopThread_new w =
     (nextptr w, w\<lparr>nextptr := nextptr w + 1, elthreads := (elthreads w)(nextptr w \<mapsto>
       \<lparr>et_loop = None, et_existing = False, et_started = False, et_joined = False, et_finished = False, et_tid = 0\<rparr>)\<rparr>)"

definition EventLoopThread_startLoop :: "kernel \<Rightarrow> ptr \<Rightarrow> 'z net_scheme \<Rightarrow> (ptr \<times> 'z net_scheme) res" where
  "EventLoopThread_startLoop os t w =
     bindR (deref (elthreads w) t) (\<lambda>et.
     assertC (\<not> et_started et)
       (case do_sys os Sys_pthread_create (upd_elthread (\<lambda>et. et\<lparr>et_started := True\<rparr>) t w) of (r, w1) \<Rightarrow>
        if sr_ret r \<noteq> 0 then Inl Aborted
        else case do_sys os Sys_gettid w1 of (g, w2) \<Rightarrow>
        bindR (EventLoop_new os (sr_ret g) w2) (\<lambda>(l, w3).
        Inr (l, upd_elthread (\<lambda>et. et\<lparr>et_loop := Some l, et_tid := sr_ret g\<rparr>) t w3))))"

text \<open>The end of \<^verbatim>\<open>ThreadFunc\<close>, when \<^verbatim>\<open>loop()\<close> has returned: the loop, a local object, is destroyed.\<close>

definition ThreadFunc_return :: "kernel \<Rightarrow> ptr \<Rightarrow> 'z net_scheme \<Rightarrow> 'z net_scheme res" where
  "ThreadFunc_return os t w =
     bindR (deref (elthreads w) t) (\<lambda>et.
     case et_loop et of None \<Rightarrow> Inl NullPointer | Some l \<Rightarrow>
     bindR (EventLoop_delete os (et_tid et) l w) (\<lambda>w1.
     Inr (upd_elthread (\<lambda>et. et\<lparr>et_finished := True\<rparr>) t w1)))"

definition EventLoopThread_delete :: "kernel \<Rightarrow> tid \<Rightarrow> ptr \<Rightarrow> 'z net_scheme \<Rightarrow> 'z net_scheme res" where
  "EventLoopThread_delete os cur t w =
     bindR (deref (elthreads w) t) (\<lambda>et.
     assertC (et_started et) (
     assertC (\<not> et_joined et) (
     if \<not> et_finished et then Inl WouldBlock
     else let w1 = upd_elthread (\<lambda>et. et\<lparr>et_existing := True, et_joined := True\<rparr>) t w in
       case et_loop et of None \<Rightarrow> Inl NullPointer | Some l \<Rightarrow>
       bindR (EventLoop_quit os cur l w1) (\<lambda>w2. Inr (w2\<lparr>elthreads := (elthreads w2)(t := None)\<rparr>)))))"

section \<open>EventLoopThreadPool\<close>

definition EventLoopThreadPool_new :: "ptr \<Rightarrow> eventLoopThreadPool" where
  "EventLoopThreadPool_new baseloop =
     \<lparr>tp_baseLoop = baseloop, tp_started = False, tp_numThreads = 0, tp_next = 0, tp_threads = [], tp_loops = []\<rparr>"

definition Pool_setThreadNum :: "int \<Rightarrow> eventLoopThreadPool \<Rightarrow> eventLoopThreadPool" where
  "Pool_setThreadNum n tp = tp\<lparr>tp_numThreads := n\<rparr>"

fun pool_start_loop :: "kernel \<Rightarrow> nat \<Rightarrow> eventLoopThreadPool \<Rightarrow> 'z net_scheme \<Rightarrow> (eventLoopThreadPool \<times> 'z net_scheme) res" where
  "pool_start_loop os 0 tp w = Inr (tp, w)"
| "pool_start_loop os (Suc n) tp w =
     (case EventLoopThread_new w of (t, w1) \<Rightarrow>
      bindR (EventLoopThread_startLoop os t w1) (\<lambda>(l, w2).
      pool_start_loop os n (tp\<lparr>tp_threads := tp_threads tp @ [t], tp_loops := tp_loops tp @ [l]\<rparr>) w2))"

definition Pool_start :: "kernel \<Rightarrow> tid \<Rightarrow> eventLoopThreadPool \<Rightarrow> 'z net_scheme \<Rightarrow> (eventLoopThreadPool \<times> 'z net_scheme) res" where
  "Pool_start os cur tp w =
     assertC (\<not> tp_started tp) (
     bindR (assertInLoopThread cur (tp_baseLoop tp) w) (\<lambda>_.
     pool_start_loop os (nat (tp_numThreads tp)) (tp\<lparr>tp_started := True\<rparr>) w))"

definition getNextLoop :: "tid \<Rightarrow> eventLoopThreadPool \<Rightarrow> 'z net_scheme \<Rightarrow> (ptr \<times> eventLoopThreadPool) res" where
  "getNextLoop cur tp w =
     bindR (assertInLoopThread cur (tp_baseLoop tp) w) (\<lambda>_.
     if tp_loops tp \<noteq> []
     then if tp_next tp < 0 \<or> int (length (tp_loops tp)) \<le> tp_next tp then Inl OutOfBounds
       else let next = tp_next tp + 1 in
         Inr (tp_loops tp ! nat (tp_next tp), tp\<lparr>tp_next := (if int (length (tp_loops tp)) \<le> next then 0 else next)\<rparr>)
     else Inr (tp_baseLoop tp, tp))"

section \<open>TcpServer\<close>

definition upd_server :: "(tcpServer \<Rightarrow> tcpServer) \<Rightarrow> ptr \<Rightarrow> 'z net_scheme \<Rightarrow> 'z net_scheme" where
  "upd_server f s w = w\<lparr>servers := upd f s (servers w)\<rparr>"

definition TcpServer_new :: "(32 word \<Rightarrow> string) \<Rightarrow> kernel \<Rightarrow> ptr \<Rightarrow> sockaddr_in \<Rightarrow> 'z net_scheme \<Rightarrow> ptr \<times> 'z net_scheme" where
  "TcpServer_new ntop os l listenaddr w =
     (case Acceptor_new os l listenaddr w of (a, w1) \<Rightarrow>
      let s = nextptr w1 in
      (s, Acceptor_setNewConnectionCallBack s a (w1\<lparr>nextptr := s + 1, servers := (servers w1)(s \<mapsto>
        \<lparr>sv_loop = l, sv_started = False, sv_nextConnfd = 1, sv_name = InetAddress_toHostPort ntop listenaddr,
         sv_acceptor = a, sv_threadPool = EventLoopThreadPool_new l, sv_connectionCallback = None,
         sv_messageCallback = None, sv_connections = (\<lambda>_. None)\<rparr>)\<rparr>)))"

definition TcpServer_setThreadNum :: "int \<Rightarrow> ptr \<Rightarrow> 'z net_scheme \<Rightarrow> 'z net_scheme res" where
  "TcpServer_setThreadNum numThreads s w =
     assertC (0 \<le> numThreads) (
     bindR (deref (servers w) s) (\<lambda>_.
     Inr (upd_server (\<lambda>sv. sv\<lparr>sv_threadPool := Pool_setThreadNum numThreads (sv_threadPool sv)\<rparr>) s w)))"

definition TcpServer_setConnectionCallBack :: "nat \<Rightarrow> ptr \<Rightarrow> 'z net_scheme \<Rightarrow> 'z net_scheme" where
  "TcpServer_setConnectionCallBack cb = upd_server (\<lambda>sv. sv\<lparr>sv_connectionCallback := Some cb\<rparr>)"

definition TcpServer_setMessageCallBack :: "nat \<Rightarrow> ptr \<Rightarrow> 'z net_scheme \<Rightarrow> 'z net_scheme" where
  "TcpServer_setMessageCallBack cb = upd_server (\<lambda>sv. sv\<lparr>sv_messageCallback := Some cb\<rparr>)"

definition TcpServer_start :: "kernel \<Rightarrow> tid \<Rightarrow> ptr \<Rightarrow> 'z net_scheme \<Rightarrow> 'z net_scheme res" where
  "TcpServer_start os cur s w =
     bindR (deref (servers w) s) (\<lambda>sv.
     bindR (if \<not> sv_started sv
       then bindR (Pool_start os cur (sv_threadPool sv) w) (\<lambda>(tp, w1).
         Inr (upd_server (\<lambda>sv. sv\<lparr>sv_started := True, sv_threadPool := tp\<rparr>) s w1))
       else Inr w) (\<lambda>w2.
     bindR (deref (acceptors w2) (sv_acceptor sv)) (\<lambda>ac.
     if \<not> ac_listenning ac
     then runInLoop os (\<lambda>_. Acceptor_listen os cur (sv_acceptor sv)) cur (sv_loop sv) (AcceptorListen (sv_acceptor sv)) w2
     else Inr w2)))"

definition TcpServer_newConnection ::
    "sockaddr_in \<Rightarrow> 'z net_scheme callbacks \<Rightarrow> kernel \<Rightarrow> tid \<Rightarrow> ptr \<Rightarrow> int \<Rightarrow> sockaddr_in \<Rightarrow> 'z net_scheme \<Rightarrow> 'z net_scheme res" where
  "TcpServer_newConnection garbage ub os cur s sockfd peeraddr w =
     bindR (deref (servers w) s) (\<lambda>sv.
     bindR (assertInLoopThread cur (sv_loop sv) w) (\<lambda>_.
     let buf = snprintf 32 (''#'' @ fmt_d (sv_nextConnfd sv));
         connName = sv_name sv @ buf in
     case getLocalAddr os sockfd w of (localaddr, w1) \<Rightarrow>
     bindR (getNextLoop cur (sv_threadPool sv) w1) (\<lambda>(ioLoop, tp).
     bindR (TcpConnection_new garbage ioLoop connName sockfd localaddr peeraddr w1) (\<lambda>(c, w2).
     let w3 = upd_server (\<lambda>sv. sv\<lparr>sv_nextConnfd := sv_nextConnfd sv + 1, sv_threadPool := tp,
                sv_connections := (sv_connections sv)(connName \<mapsto> c)\<rparr>) s w2;
         w4 = setConnectionCallBack (sv_connectionCallback sv) c w3;
         w5 = setMessageConnectionCallBack (sv_messageCallback sv) c w4;
         w6 = setCloseCallBack (Some (TcpServer_removeConnection_cb s)) c w5 in
     connectEstablished ub os cur c w6))))"

definition removeConnectionInLoop :: "kernel \<Rightarrow> tid \<Rightarrow> ptr \<Rightarrow> ptr \<Rightarrow> 'z net_scheme \<Rightarrow> 'z net_scheme res" where
  "removeConnectionInLoop os cur s c w =
     bindR (deref (servers w) s) (\<lambda>sv.
     bindR (assertInLoopThread cur (sv_loop sv) w) (\<lambda>_.
     bindR (deref (conns w) c) (\<lambda>tc.
     assertC (sv_connections sv (tc_name tc) \<noteq> None)
       (queueInLoop os cur (tc_loop tc) (ConnectDestoryed c)
         (upd_server (\<lambda>sv. sv\<lparr>sv_connections := (sv_connections sv)(tc_name tc := None)\<rparr>) s w)))))"

definition TcpServer_removeConnection :: "kernel \<Rightarrow> tid \<Rightarrow> ptr \<Rightarrow> ptr \<Rightarrow> 'z net_scheme \<Rightarrow> 'z net_scheme res" where
  "TcpServer_removeConnection os cur s c w =
     bindR (deref (servers w) s) (\<lambda>sv.
     runInLoop os (\<lambda>_. removeConnectionInLoop os cur s c) cur (sv_loop sv) (RemoveConnectionInLoop s c) w)"

section \<open>TcpClient\<close>

definition upd_client :: "(tcpClient \<Rightarrow> tcpClient) \<Rightarrow> ptr \<Rightarrow> 'z net_scheme \<Rightarrow> 'z net_scheme" where
  "upd_client f cl w = w\<lparr>clients := upd f cl (clients w)\<rparr>"

definition detail_removeConnection :: "kernel \<Rightarrow> tid \<Rightarrow> ptr \<Rightarrow> ptr \<Rightarrow> 'z net_scheme \<Rightarrow> 'z net_scheme res" where
  "detail_removeConnection os cur l c w = queueInLoop os cur l (ConnectDestoryed c) w"

definition TcpClient_new :: "ptr \<Rightarrow> sockaddr_in \<Rightarrow> 'z net_scheme \<Rightarrow> ptr \<times> 'z net_scheme" where
  "TcpClient_new l serverAddr w =
     (case Connector_new l serverAddr w of (k, w1) \<Rightarrow>
      let cl = nextptr w1 in
      (cl, Connector_setNewConnectionCallBack cl k (w1\<lparr>nextptr := cl + 1, clients := (clients w1)(cl \<mapsto>
        \<lparr>cl_loop = l, cl_connector = k, cl_connectionCallback = None, cl_messageCallback = None,
         cl_writeCompleteCallback = None, cl_retry = False, cl_connect = True, cl_nextConnId = 1,
         cl_connection = None\<rparr>)\<rparr>)))"

definition TcpClient_delete :: "(rat \<Rightarrow> rat) \<Rightarrow> kernel \<Rightarrow> tid \<Rightarrow> ptr \<Rightarrow> 'z net_scheme \<Rightarrow> 'z net_scheme res" where
  "TcpClient_delete rnd os cur cl w =
     bindR (deref (clients w) cl) (\<lambda>x.
     bindR (case cl_connection x of
         Some c \<Rightarrow> (let cb = detail_removeConnection_cb (cl_loop x) in
           runInLoop os (\<lambda>_ w. Inr (setCloseCallBack (Some cb) c w)) cur (cl_loop x) (SetCloseCallBack c cb) w)
       | None \<Rightarrow> bindR (runAfter rnd os cur (cl_loop x) 1 (RemoveConnector (cl_connector x)) (Connector_stop (cl_connector x) w))
           (\<lambda>(_, w1). Inr w1)) (\<lambda>w2.
     Inr (w2\<lparr>clients := (clients w2)(cl := None)\<rparr>)))"

definition TcpClient_connect :: "(rat \<Rightarrow> rat) \<Rightarrow> kernel \<Rightarrow> tid \<Rightarrow> ptr \<Rightarrow> 'z net_scheme \<Rightarrow> 'z net_scheme res" where
  "TcpClient_connect rnd os cur cl w =
     bindR (deref (clients w) cl) (\<lambda>x.
     Connector_start rnd os cur (cl_connector x) (upd_client (\<lambda>x. x\<lparr>cl_connect := True\<rparr>) cl w))"

definition TcpClient_disconnect :: "kernel \<Rightarrow> tid \<Rightarrow> ptr \<Rightarrow> 'z net_scheme \<Rightarrow> 'z net_scheme res" where
  "TcpClient_disconnect os cur cl w =
     bindR (deref (clients w) cl) (\<lambda>x.
     let w1 = upd_client (\<lambda>x. x\<lparr>cl_connect := False\<rparr>) cl w in
     case cl_connection x of None \<Rightarrow> Inr w1 | Some c \<Rightarrow> TcpConnection_shutdown os cur c w1)"

definition TcpClient_stop :: "ptr \<Rightarrow> 'z net_scheme \<Rightarrow> 'z net_scheme res" where
  "TcpClient_stop cl w =
     bindR (deref (clients w) cl) (\<lambda>x.
     Inr (Connector_stop (cl_connector x) (upd_client (\<lambda>x. x\<lparr>cl_connect := False\<rparr>) cl w)))"

definition TcpClient_enableRetry :: "ptr \<Rightarrow> 'z net_scheme \<Rightarrow> 'z net_scheme" where
  "TcpClient_enableRetry = upd_client (\<lambda>x. x\<lparr>cl_retry := True\<rparr>)"

definition TcpClient_connection :: "ptr \<Rightarrow> 'z net_scheme \<Rightarrow> ptr option res" where
  "TcpClient_connection cl w = bindR (deref (clients w) cl) (\<lambda>x. Inr (cl_connection x))"

definition TcpClient_setConnectionCallback :: "nat \<Rightarrow> ptr \<Rightarrow> 'z net_scheme \<Rightarrow> 'z net_scheme" where
  "TcpClient_setConnectionCallback cb = upd_client (\<lambda>x. x\<lparr>cl_connectionCallback := Some cb\<rparr>)"

definition TcpClient_setMessageCallback :: "nat \<Rightarrow> ptr \<Rightarrow> 'z net_scheme \<Rightarrow> 'z net_scheme" where
  "TcpClient_setMessageCallback cb = upd_client (\<lambda>x. x\<lparr>cl_messageCallback := Some cb\<rparr>)"

definition TcpClient_setWriteCompleteCallback :: "nat \<Rightarrow> ptr \<Rightarrow> 'z net_scheme \<Rightarrow> 'z net_scheme" where
  "TcpClient_setWriteCompleteCallback cb = upd_client (\<lambda>x. x\<lparr>cl_writeCompleteCallback := Some cb\<rparr>)"

definition TcpClient_newConnection ::
    "sockaddr_in \<Rightarrow> (32 word \<Rightarrow> string) \<Rightarrow> 'z net_scheme callbacks \<Rightarrow> kernel \<Rightarrow> tid \<Rightarrow> ptr \<Rightarrow> int \<Rightarrow>
     'z net_scheme \<Rightarrow> 'z net_scheme res" where
  "TcpClient_newConnection garbage ntop ub os cur cl sockfd w =
     bindR (deref (clients w) cl) (\<lambda>x.
     bindR (assertInLoopThread cur (cl_loop x) w) (\<lambda>_.
     case getPeerAddr os sockfd w of (peerAddr, w1) \<Rightarrow>
     let connName = snprintf 32 ('':'' @ InetAddress_toHostPort ntop peerAddr @ ''#'' @ fmt_d (cl_nextConnId x)) in
     case getLocalAddr os sockfd w1 of (localAddr, w2) \<Rightarrow>
     bindR (TcpConnection_new garbage (cl_loop x) connName sockfd localAddr peerAddr w2) (\<lambda>(c, w3).
     let w4 = setConnectionCallBack (cl_connectionCallback x) c w3;
         w5 = setMessageConnectionCallBack (cl_messageCallback x) c w4;
         w6 = setWriteCompeleteCallback (cl_writeCompleteCallback x) c w5;
         w7 = setCloseCallBack (Some (TcpClient_removeConnection_cb cl)) c w6;
         w8 = upd_client (\<lambda>x. x\<lparr>cl_nextConnId := cl_nextConnId x + 1, cl_connection := Some c\<rparr>) cl w7 in
     connectEstablished ub os cur c w8)))"

definition TcpClient_removeConnection ::
    "(rat \<Rightarrow> rat) \<Rightarrow> kernel \<Rightarrow> tid \<Rightarrow> ptr \<Rightarrow> ptr \<Rightarrow> 'z net_scheme \<Rightarrow> 'z net_scheme res" where
  "TcpClient_removeConnection rnd os cur cl c w =
     bindR (deref (clients w) cl) (\<lambda>x.
     bindR (assertInLoopThread cur (cl_loop x) w) (\<lambda>_.
     bindR (deref (conns w) c) (\<lambda>tc.
     assertC (cl_loop x = tc_loop tc) (
     assertC (cl_connection x = Some c) (
     bindR (queueInLoop os cur (cl_loop x) (ConnectDestoryed c) (upd_client (\<lambda>x. x\<lparr>cl_connection := None\<rparr>) cl w)) (\<lambda>w1.
     if cl_retry x \<and> cl_connect x then Connector_restart rnd os cur (cl_connector x) w1 else Inr w1))))))"

section \<open>The meaning of tasks and handlers\<close>

definition close_dispatch :: "(rat \<Rightarrow> rat) \<Rightarrow> kernel \<Rightarrow> tid \<Rightarrow> close_callback \<Rightarrow> ptr \<Rightarrow> 'z net_scheme \<Rightarrow> 'z net_scheme res" where
  "close_dispatch rnd os cur cb c =
     (case cb of
        TcpServer_removeConnection_cb s \<Rightarrow> TcpServer_removeConnection os cur s c
      | TcpClient_removeConnection_cb cl \<Rightarrow> TcpClient_removeConnection rnd os cur cl c
      | detail_removeConnection_cb l \<Rightarrow> detail_removeConnection os cur l c)"

text \<open>\<open>user_task\<close> gives the meaning of the tasks of the application.\<close>

definition run_task ::
    "(rat \<Rightarrow> rat) \<Rightarrow> 'z net_scheme callbacks \<Rightarrow> (nat \<Rightarrow> 'z net_scheme \<Rightarrow> 'z net_scheme res) \<Rightarrow> kernel \<Rightarrow> tid \<Rightarrow>
     task \<Rightarrow> 'z net_scheme \<Rightarrow> 'z net_scheme res" where
  "run_task rnd ub user_task os cur f w =
     (case f of
        UserTask n \<Rightarrow> user_task n w
      | AddTimerInLoop l t \<Rightarrow> addTimerInLoop os cur l t w
      | SendInLoop c m \<Rightarrow> sendInLoop os cur c m w
      | ShutdownInLoop c \<Rightarrow> shutdownInLoop os cur c w
      | ConnectDestoryed c \<Rightarrow> connectDestoryed ub os cur c w
      | WriteComplete c \<Rightarrow> bindR (deref (conns w) c) (\<lambda>tc. call_fun (tc_writeCompleteCallback tc) (\<lambda>g. on_write_complete ub g c) w)
      | RemoveConnectionInLoop s c \<Rightarrow> removeConnectionInLoop os cur s c w
      | AcceptorListen a \<Rightarrow> Acceptor_listen os cur a w
      | StartInLoop k \<Rightarrow> startInLoop rnd os cur k w
      | ResetChannel k \<Rightarrow> resetChannel k w
      | SetCloseCallBack c cb \<Rightarrow> Inr (setCloseCallBack (Some cb) c w)
      | RemoveConnector k \<Rightarrow> Inr w)"

definition run_callback ::
    "sockaddr_in \<Rightarrow> (32 word \<Rightarrow> string) \<Rightarrow> (rat \<Rightarrow> rat) \<Rightarrow> 'z net_scheme callbacks \<Rightarrow>
     (nat \<Rightarrow> 'z net_scheme \<Rightarrow> 'z net_scheme res) \<Rightarrow> kernel \<Rightarrow> tid \<Rightarrow> timestamp \<Rightarrow> callback \<Rightarrow>
     'z net_scheme \<Rightarrow> 'z net_scheme res" where
  "run_callback garbage ntop rnd ub user_task os cur t f w =
     (case f of
        EventLoop_handleRead_cb l \<Rightarrow> EventLoop_handleRead os l w
      | TimerQueue_handleRead_cb l \<Rightarrow> TimerQueue_handleRead rnd os (run_task rnd ub user_task os cur) cur l w
      | Acceptor_handleRead_cb a \<Rightarrow> Acceptor_handleRead (TcpServer_newConnection garbage ub os cur) os cur a w
      | TcpConnection_handleRead_cb c \<Rightarrow> TcpConnection_handleRead ub os cur c t w
      | TcpConnection_handleWrite_cb c \<Rightarrow> TcpConnection_handleWrite os cur c w
      | TcpConnection_handleClose_cb c \<Rightarrow> TcpConnection_handleClose ub os cur c w
      | TcpConnection_handleError_cb c \<Rightarrow> TcpConnection_handleError os c w
      | Connector_handleWrite_cb k \<Rightarrow> Connector_handleWrite rnd (TcpClient_newConnection garbage ntop ub os cur) os cur k w
      | Connector_handleError_cb k \<Rightarrow> Connector_handleError rnd os cur k w
      | User_cb n \<Rightarrow> user_task n w)"

text \<open>One iteration of a loop of the whole program.\<close>

definition program_iteration ::
    "sockaddr_in \<Rightarrow> (32 word \<Rightarrow> string) \<Rightarrow> (rat \<Rightarrow> rat) \<Rightarrow> 'z net_scheme callbacks \<Rightarrow>
     (nat \<Rightarrow> 'z net_scheme \<Rightarrow> 'z net_scheme res) \<Rightarrow> kernel \<Rightarrow> tid \<Rightarrow> ptr \<Rightarrow> 'z net_scheme \<Rightarrow> 'z net_scheme res" where
  "program_iteration garbage ntop rnd ub user_task os cur l =
     loop_body os (run_callback garbage ntop rnd ub user_task os cur) (run_task rnd ub user_task os cur) cur l"

section \<open>Thread pool\<close>

fun next_loops :: "tid \<Rightarrow> nat \<Rightarrow> eventLoopThreadPool \<Rightarrow> 'z net_scheme \<Rightarrow> (ptr list \<times> eventLoopThreadPool) res" where
  "next_loops cur 0 tp w = Inr ([], tp)"
| "next_loops cur (Suc n) tp w =
     bindR (getNextLoop cur tp w) (\<lambda>(l, tp1). bindR (next_loops cur n tp1 w) (\<lambda>(ls, tp2). Inr (l # ls, tp2)))"

lemma getNextLoop_ok:
  assumes "assertInLoopThread cur (tp_baseLoop tp) w = Inr ()" and "tp_loops tp \<noteq> []"
    and "tp_next tp = int i" "i < length (tp_loops tp)"
  shows "getNextLoop cur tp w = Inr (tp_loops tp ! i, tp\<lparr>tp_next := int ((i + 1) mod length (tp_loops tp))\<rparr>)"
proof -
  have "(i + 1) mod length (tp_loops tp) = (if length (tp_loops tp) \<le> i + 1 then 0 else i + 1)"
    using assms(4) by (cases "i + 1 = length (tp_loops tp)") auto
  then show ?thesis using assms by (cases "length (tp_loops tp) \<le> i + 1") (simp_all add: getNextLoop_def Let_def)
qed

text \<open>The thread pool hands out its loops round robin, starting from its counter, and never indexes outside
  the vector; without io threads it hands out the base loop. Only the base loop's thread may ask.\<close>

theorem next_loops_round_robin:
  assumes "assertInLoopThread cur (tp_baseLoop tp) w = Inr ()"
    and "tp_next tp = int i" "i < length (tp_loops tp) \<or> tp_loops tp = []"
  shows "next_loops cur n tp w =
    (if tp_loops tp = [] then Inr (replicate n (tp_baseLoop tp), tp)
     else Inr (map (\<lambda>k. tp_loops tp ! ((i + k) mod length (tp_loops tp))) [0..<n],
       tp\<lparr>tp_next := int ((i + n) mod length (tp_loops tp))\<rparr>))"
proof (cases "tp_loops tp = []")
  case True
  then have "getNextLoop cur tp w = Inr (tp_baseLoop tp, tp)" using assms(1) by (simp add: getNextLoop_def)
  then have "next_loops cur n tp w = Inr (replicate n (tp_baseLoop tp), tp)" by (induction n) simp_all
  then show ?thesis using True by simp
next
  case False
  then have "i < length (tp_loops tp)" using assms(3) by simp
  with False assms(1,2) have "next_loops cur n tp w = Inr (map (\<lambda>k. tp_loops tp ! ((i + k) mod length (tp_loops tp))) [0..<n],
       tp\<lparr>tp_next := int ((i + n) mod length (tp_loops tp))\<rparr>)"
  proof (induction n arbitrary: tp i)
    case 0
    then show ?case by simp
  next
    case (Suc n)
    let ?len = "length (tp_loops tp)" and ?i = "(i + 1) mod length (tp_loops tp)"
    let ?tp = "tp\<lparr>tp_next := int ?i\<rparr>"
    have "next_loops cur n ?tp w = Inr (map (\<lambda>k. tp_loops ?tp ! ((?i + k) mod length (tp_loops ?tp))) [0..<n],
       ?tp\<lparr>tp_next := int ((?i + n) mod length (tp_loops ?tp))\<rparr>)"
      by (rule Suc.IH) (use Suc.prems in simp_all)
    moreover have "(?i + k) mod ?len = (i + Suc k) mod ?len" for k by (simp add: mod_add_left_eq)
    moreover have "map (\<lambda>k. tp_loops tp ! ((i + k) mod ?len)) [0..<Suc n] =
        tp_loops tp ! i # map (\<lambda>k. tp_loops tp ! ((i + Suc k) mod ?len)) [0..<n]"
      using Suc.prems(4) by (simp only: upt_conv_Cons map_Suc_upt [symmetric] zero_less_Suc) (simp add: comp_def)
    ultimately show ?case
      using getNextLoop_ok [OF Suc.prems(2,1,3,4)] by simp
  qed
  then show ?thesis using False by simp
qed

definition pool3 :: eventLoopThreadPool where
  "pool3 = (EventLoopThreadPool_new 0)\<lparr>tp_loops := [101, 102, 103]\<rparr>"

lemma conn_world_thread: "assertInLoopThread 7 0 conn_world = Inr ()"
  by (simp add: assertInLoopThread_def isInLoopThread_def conn_world_simps loop0_def)

theorem next_loops_round_robin_witness:
  "next_loops 7 5 pool3 conn_world = Inr ([101, 102, 103, 101, 102], pool3\<lparr>tp_next := 2\<rparr>)"
proof -
  have p: "assertInLoopThread 7 (tp_baseLoop pool3) conn_world = Inr ()" "tp_next pool3 = int 0"
      "0 < length (tp_loops pool3) \<or> tp_loops pool3 = []" "tp_loops pool3 = [101, 102, 103]"
    using conn_world_thread by (simp_all add: pool3_def EventLoopThreadPool_new_def)
  have "[0..<5] = [0, 1, 2, 3, 4 :: nat]" by (simp add: upt_rec)
  then show ?thesis using next_loops_round_robin [OF p(1-3), of 5] by (simp add: p(4))
qed

section \<open>Destroying an io thread\<close>

text \<open>The destructor of a started \<^verbatim>\<open>EventLoopThread\<close> never completes: it joins before it asks the loop to quit,
  so it blocks while the loop runs, and once \<^verbatim>\<open>ThreadFunc\<close> has returned, the loop it then calls \<^verbatim>\<open>quit()\<close>
  on no longer exists. If the thread was never started, \<^verbatim>\<open>join\<close>'s assertion fails.\<close>

theorem EventLoopThread_delete_fails:
  assumes "elthreads w t = Some et" and "et_loop et = Some l" and "ThreadFunc_return os t w = Inr w1"
    and "et_started et" "\<not> et_joined et" "\<not> et_finished et"
  shows "EventLoopThread_delete os cur t w = Inl WouldBlock \<and>
    EventLoopThread_delete os cur t w1 = Inl UseAfterFree \<and>
    (\<forall>w et. elthreads w t = Some et \<and> \<not> et_started et \<longrightarrow> EventLoopThread_delete os cur t w = Inl AssertFailed)"
proof -
  obtain w2 where w2: "EventLoop_delete os (et_tid et) l w = Inr w2"
    and w1: "w1 = upd_elthread (\<lambda>et. et\<lparr>et_finished := True\<rparr>) t w2"
    using assms(1-3) by (auto simp: ThreadFunc_return_def)
  have "elthreads w2 = elthreads w \<and> loops w2 l = None"
    using w2 by (auto simp: EventLoop_delete_def TimerQueue_delete_def Channel_delete_def Let_def
        dest!: foldR_invariant [where I = "\<lambda>v. elthreads v = elthreads w"] simp: Timer_delete_def)
  then have "elthreads w1 t = Some (et\<lparr>et_finished := True\<rparr>)" "loops w1 l = None"
    using assms(1) by (simp_all add: w1 upd_elthread_def)
  then show ?thesis
    using assms(1,2,4-6) by (auto simp: EventLoopThread_delete_def EventLoop_quit_def upd_elthread_def Let_def)
qed

definition thread_world :: net where
  "thread_world = conn_world\<lparr>loops := [0 \<mapsto> set_channel 9 (Some 1) loop0, 80 \<mapsto> loop0\<lparr>el_wakeupchannel := 81,
       el_timerqueue := \<lparr>tq_timerfd = 5, tq_timerfdchannel = 82, tq_timerlist = []\<rparr>\<rparr>],
     chans := [81 \<mapsto> Channel_init 80 3 False, 82 \<mapsto> Channel_init 80 5 False],
     elthreads := [90 \<mapsto> \<lparr>et_loop = Some 80, et_existing = False, et_started = True, et_joined = False,
       et_finished = False, et_tid = 7\<rparr>]\<rparr>"

lemma thread_returns: "\<exists>w1. ThreadFunc_return quiet_kernel 90 thread_world = Inr w1"
  by (simp add: ThreadFunc_return_def thread_world_def EventLoop_delete_def TimerQueue_delete_def Channel_delete_def
      Channel_init_def loop0_def Let_def)

theorem EventLoopThread_delete_fails_witness:
  "\<exists>w1. ThreadFunc_return quiet_kernel 90 thread_world = Inr w1 \<and>
     EventLoopThread_delete quiet_kernel 1 90 thread_world = Inl WouldBlock \<and>
     EventLoopThread_delete quiet_kernel 1 90 w1 = Inl UseAfterFree"
proof -
  obtain w1 where w1: "ThreadFunc_return quiet_kernel 90 thread_world = Inr w1" using thread_returns by blast
  let ?et = "\<lparr>et_loop = Some 80, et_existing = False, et_started = True, et_joined = False, et_finished = False, et_tid = 7\<rparr>"
  have et: "elthreads thread_world 90 = Some ?et" "et_loop ?et = Some 80" "et_started ?et" "\<not> et_joined ?et" "\<not> et_finished ?et"
    by (simp_all add: thread_world_def)
  show ?thesis using EventLoopThread_delete_fails [OF et(1,2) w1 et(3-5), of 1] w1 by blast
qed

section \<open>TcpServer\<close>

lemma net_frame_server [simp]:
  "servers (upd_server f s w) = upd f s (servers w)" "conns (upd_server f s w) = conns w"
  "loops (upd_server f s w) = loops w" "chans (upd_server f s w) = chans w" "trace (upd_server f s w) = trace w"
  "servers (upd_conn g c w) = servers w" "elthreads (upd_server f s w) = elthreads w"
  by (simp_all add: upd_server_def upd_conn_def)

lemma set_callbacks_simps [simp]:
  "loops (setConnectionCallBack cb1 c w) = loops w" "loops (setMessageConnectionCallBack cb2 c w) = loops w"
  "loops (setCloseCallBack cb3 c w) = loops w"
  by (simp_all add: setConnectionCallBack_def setMessageConnectionCallBack_def setCloseCallBack_def)

text \<open>(C28) A server with io threads cannot accept: \<^verbatim>\<open>newConnection\<close> runs \<^verbatim>\<open>connectEstablished\<close> in the base loop's
  thread instead of queueing it to the connection's loop, so when \<^verbatim>\<open>getNextLoop\<close> yields the loop of
  another thread, the first connection stops the program with the fatal thread check.\<close>

theorem io_threads_abort:
  assumes sv: "servers w s = Some sv" and base: "assertInLoopThread cur (sv_loop sv) w = Inr ()" "tp_baseLoop (sv_threadPool sv) = sv_loop sv"
    and pool: "tp_loops (sv_threadPool sv) \<noteq> []" "tp_next (sv_threadPool sv) = int i" "i < length (tp_loops (sv_threadPool sv))"
    and io: "loops w (tp_loops (sv_threadPool sv) ! i) = Some lp" "el_threadId lp \<noteq> cur"
  shows "TcpServer_newConnection garbage ub os cur s sockfd peeraddr w = Inl FatalLog"
proof -
  let ?l = "tp_loops (sv_threadPool sv) ! i"
  obtain addr w1 where w1: "getLocalAddr os sockfd w = (addr, w1)" "loops w1 = loops w"
    by (simp add: getLocalAddr_def)
  have "assertInLoopThread cur (tp_baseLoop (sv_threadPool sv)) w1 = Inr ()"
    using base w1(2) by (simp add: assertInLoopThread_def)
  then have nl: "getNextLoop cur (sv_threadPool sv) w1 =
      Inr (?l, (sv_threadPool sv)\<lparr>tp_next := int ((i + 1) mod length (tp_loops (sv_threadPool sv)))\<rparr>)"
    by (rule getNextLoop_ok [OF _ pool])
  obtain b where b: "Buffer_new = Inr b" using Buffer_new_ok by blast
  show ?thesis
    using sv base(1) w1 nl io
    by (simp add: TcpServer_newConnection_def TcpConnection_new_def b Channel_new_def Let_def connectEstablished_def
        setConnectionCallBack_def setMessageConnectionCallBack_def setCloseCallBack_def assertInLoopThread_def
        isInLoopThread_def abortNotInLoopThread_def)
qed

definition server30 :: tcpServer where
  "server30 = \<lparr>sv_loop = 0, sv_started = True, sv_nextConnfd = 1, sv_name = ''s'', sv_acceptor = 31,
     sv_threadPool = EventLoopThreadPool_new 0, sv_connectionCallback = Some 1, sv_messageCallback = Some 2,
     sv_connections = [''c'' \<mapsto> 20]\<rparr>"

definition server_world :: "ptr list \<Rightarrow> net" where
  "server_world ls = conn_world\<lparr>servers := [30 \<mapsto> server30\<lparr>sv_threadPool := (EventLoopThreadPool_new 0)\<lparr>tp_loops := ls\<rparr>\<rparr>],
     loops := [0 \<mapsto> set_channel 9 (Some 1) loop0, 80 \<mapsto> loop0\<lparr>el_threadId := 8\<rparr>]\<rparr>"

lemma server_world_simps:
  "servers (server_world ls) 30 = Some (server30\<lparr>sv_threadPool := (EventLoopThreadPool_new 0)\<lparr>tp_loops := ls\<rparr>\<rparr>)"
  "loops (server_world ls) 0 = Some (set_channel 9 (Some 1) loop0)" "loops (server_world ls) 80 = Some (loop0\<lparr>el_threadId := 8\<rparr>)"
  "assertInLoopThread 7 0 (server_world ls) = Inr ()" "conns (server_world ls) 20 = Some conn20"
  "chans (server_world ls) = chans conn_world" "nextptr (server_world ls) = 40"
  by (simp_all add: server_world_def assertInLoopThread_def isInLoopThread_def loop0_def conn_world_simps)
    (simp add: conn_world_def reactor.defs)

theorem io_threads_abort_witness:
  "TcpServer_newConnection no_addr counting_callbacks quiet_kernel 7 30 11 no_addr (server_world [80]) = Inl FatalLog"
  using io_threads_abort [OF server_world_simps(1) [of "[80]"], of 7 0 "loop0\<lparr>el_threadId := 8\<rparr>" no_addr counting_callbacks quiet_kernel 11 no_addr]
  by (simp add: server_world_simps server30_def EventLoopThreadPool_new_def)

text \<open>The state in which \<^verbatim>\<open>newConnection\<close> calls the connection callback, in a server without io threads.\<close>

definition accepted_conn ::
    "sockaddr_in \<Rightarrow> ptr \<Rightarrow> tcpServer \<Rightarrow> int \<Rightarrow> ptr \<Rightarrow> sockaddr_in \<Rightarrow> Buffer \<Rightarrow> tcpConnection" where
  "accepted_conn garbage s sv fd p localAddr b =
     \<lparr>tc_loop = sv_loop sv, tc_state = kConnected, tc_name = sv_name sv @ snprintf 32 (''#'' @ fmt_d (sv_nextConnfd sv)),
      tc_sockfd = fd, tc_channel = p, tc_localAddr = localAddr, tc_peerAddr = garbage,
      tc_connectionCallback = sv_connectionCallback sv, tc_messageCallback = sv_messageCallback sv,
      tc_writeCompleteCallback = None, tc_closeCallback = Some (TcpServer_removeConnection_cb s),
      tc_inputBuffer = b, tc_outputBuffer = b\<rparr>"

definition conn_channel :: "ptr \<Rightarrow> int \<Rightarrow> ptr \<Rightarrow> channel" where
  "conn_channel l fd c = listening ((Channel_init l fd False)\<lparr>ch_readCallback := Some (TcpConnection_handleRead_cb c),
     ch_closeCallback := Some (TcpConnection_handleClose_cb c), ch_writeCallback := Some (TcpConnection_handleWrite_cb c),
     ch_errorCallback := Some (TcpConnection_handleError_cb c)\<rparr>)"

definition count_conn :: "ptr \<Rightarrow> tcpServer \<Rightarrow> tcpServer" where
  "count_conn c sv = sv\<lparr>sv_nextConnfd := sv_nextConnfd sv + 1,
     sv_connections := (sv_connections sv)(sv_name sv @ snprintf 32 (''#'' @ fmt_d (sv_nextConnfd sv)) \<mapsto> c)\<rparr>"

lemma conn_channel_simps [simp]:
  "ch_fd (conn_channel l fd c) = fd" "ch_loop (conn_channel l fd c) = l" "ch_registered (conn_channel l fd c)"
  "ch_events (conn_channel l fd c) = kReadEvent" "ch_revents (conn_channel l fd c) = 0"
  "ch_readCallback (conn_channel l fd c) = Some (TcpConnection_handleRead_cb c)"
  "ch_writeCallback (conn_channel l fd c) = Some (TcpConnection_handleWrite_cb c)"
  by (simp_all add: conn_channel_def listening_def read_mask_def Channel_init_def set_registered_def set_events_def)

lemma newConnection_state:
  assumes sv: "servers w s = Some sv" and lp: "loops w (sv_loop sv) = Some lp" "el_threadId lp = cur"
    and pool: "tp_loops (sv_threadPool sv) = []" "tp_baseLoop (sv_threadPool sv) = sv_loop sv"
    and fd: "ep_channels (el_epoller lp) sockfd = None" and os: "epoll_ctl_ok os" and b: "Buffer_new = Inr b"
  shows "\<exists>addr r1 r2. TcpServer_newConnection garbage ub os cur s sockfd peeraddr w =
      call_fun (sv_connectionCallback sv) (\<lambda>f. on_connection ub f (nextptr w + 1))
        (w\<lparr>trace := trace w @ [(Sys_getsockname sockfd, r1), (Sys_epoll_add (ep_epfd (el_epoller lp)) sockfd kReadEvent, r2)],
           nextptr := nextptr w + 2, chans := (chans w)(nextptr w \<mapsto> conn_channel (sv_loop sv) sockfd (nextptr w + 1)),
           loops := (loops w)(sv_loop sv \<mapsto> set_channel sockfd (Some (nextptr w)) lp),
           conns := (conns w)(nextptr w + 1 \<mapsto> accepted_conn garbage s sv sockfd (nextptr w) addr b),
           servers := (servers w)(s \<mapsto> count_conn (nextptr w + 1) sv)\<rparr>)"
proof -
  let ?l = "sv_loop sv" and ?p = "nextptr w" and ?c = "nextptr w + 1" and ?q = "Sys_getsockname sockfd"
  let ?name = "sv_name sv @ snprintf 32 (''#'' @ fmt_d (sv_nextConnfd sv))"
  let ?h1 = "trace w @ [(?q, os (trace w) ?q)]"
  obtain addr where w1: "getLocalAddr os sockfd w = (addr, w\<lparr>trace := ?h1\<rparr>)" by (simp add: getLocalAddr_def)
  have thr: "assertInLoopThread cur ?l v = Inr ()" if "loops v = loops w" for v :: "'a net_scheme"
    using that lp by (simp add: assertInLoopThread_def isInLoopThread_def)
  have nl: "getNextLoop cur (sv_threadPool sv) (w\<lparr>trace := ?h1\<rparr>) = Inr (?l, sv_threadPool sv)"
    using thr [of "w\<lparr>trace := ?h1\<rparr>"] pool by (simp add: getNextLoop_def)
  let ?tc = "setState kConnecting (accepted_conn garbage s sv sockfd ?p addr b)"
  let ?ch = "(Channel_init ?l sockfd False)\<lparr>ch_readCallback := Some (TcpConnection_handleRead_cb ?c),
     ch_closeCallback := Some (TcpConnection_handleClose_cb ?c), ch_writeCallback := Some (TcpConnection_handleWrite_cb ?c),
     ch_errorCallback := Some (TcpConnection_handleError_cb ?c)\<rparr>"
  let ?w6 = "w\<lparr>trace := ?h1, nextptr := ?p + 2, chans := (chans w)(?p \<mapsto> ?ch), conns := (conns w)(?c \<mapsto> ?tc),
    servers := (servers w)(s \<mapsto> count_conn ?c sv)\<rparr>"
  have run: "TcpServer_newConnection garbage ub os cur s sockfd peeraddr w = connectEstablished ub os cur ?c ?w6"
    using sv thr [OF refl] w1 nl
    by (cases w) (simp add: TcpServer_newConnection_def Let_def TcpConnection_new_def b Channel_new_def upd_chan_def upd_def
      setConnectionCallBack_def setMessageConnectionCallBack_def setCloseCallBack_def upd_conn_def upd_server_def
      count_conn_def accepted_conn_def setState_def)
  have w6: "chans ?w6 ?p = Some ?ch" "loops ?w6 (ch_loop ?ch) = Some lp" by (simp_all add: lp(1) Channel_init_def)
  let ?w7 = "(upd_chan listening ?p (upd_loop (set_channel sockfd (Some ?p)) ?l ?w6))"
  obtain r where en: "enableReading os cur ?p ?w6 =
      Inr (?w7\<lparr>trace := ?h1 @ [(Sys_epoll_add (ep_epfd (el_epoller lp)) sockfd kReadEvent, r)]\<rparr>)"
    using enableReading_new [OF w6(1) _ _ w6(2) lp(2) _ os] fd by (auto simp: Channel_init_def read_mask_def)
  have tc: "conns ?w6 ?c = Some ?tc" "tc_loop ?tc = ?l" "tc_state ?tc = kConnecting" "tc_channel ?tc = ?p"
    "tc_connectionCallback ?tc = sv_connectionCallback sv" "setState kConnected ?tc = accepted_conn garbage s sv sockfd ?p addr b"
    by (simp_all add: accepted_conn_def setState_def)
  have est: "connectEstablished ub os cur ?c ?w6 =
      call_fun (sv_connectionCallback sv) (\<lambda>f. on_connection ub f ?c) (upd_conn (setState kConnected) ?c
        (?w7\<lparr>trace := ?h1 @ [(Sys_epoll_add (ep_epfd (el_epoller lp)) sockfd kReadEvent, r)]\<rparr>))"
    unfolding connectEstablished_def using tc thr [of ?w6] en by simp
  have eq: "upd_conn (setState kConnected) ?c
        (?w7\<lparr>trace := ?h1 @ [(Sys_epoll_add (ep_epfd (el_epoller lp)) sockfd kReadEvent, r)]\<rparr>) =
      w\<lparr>trace := trace w @ [(?q, os (trace w) ?q), (Sys_epoll_add (ep_epfd (el_epoller lp)) sockfd kReadEvent, r)],
           nextptr := ?p + 2, chans := (chans w)(?p \<mapsto> conn_channel ?l sockfd ?c),
           loops := (loops w)(?l \<mapsto> set_channel sockfd (Some ?p) lp),
           conns := (conns w)(?c \<mapsto> accepted_conn garbage s sv sockfd ?p addr b),
           servers := (servers w)(s \<mapsto> count_conn ?c sv)\<rparr>"
    using lp(1) tc(6) by (cases w) (simp add: upd_conn_def upd_chan_def upd_loop_def upd_def conn_channel_def)
  show ?thesis by (intro exI, rule trans [OF run], rule trans [OF est], simp only: eq)
qed

text \<open>(C22) In a server without io threads a new connection is registered under the server's name and the next
  number, its channel waits for input, its state is \<^verbatim>\<open>kConnected\<close> with empty buffers and the server's
  callbacks, and only then the connection callback runs; for every kernel whose \<^verbatim>\<open>epoll_ctl\<close> succeeds.\<close>

theorem newConnection_single_thread:
  assumes sv: "servers w s = Some sv" and lp: "loops w (sv_loop sv) = Some lp" "el_threadId lp = cur"
    and pool: "tp_loops (sv_threadPool sv) = []" "tp_baseLoop (sv_threadPool sv) = sv_loop sv"
    and fd: "ep_channels (el_epoller lp) sockfd = None" and os: "epoll_ctl_ok os"
  shows "\<exists>c w1 tc sv1 ch. TcpServer_newConnection garbage ub os cur s sockfd peeraddr w =
      call_fun (sv_connectionCallback sv) (\<lambda>f. on_connection ub f c) w1 \<and>
    servers w1 s = Some sv1 \<and> sv_connections sv1 (sv_name sv @ snprintf 32 (''#'' @ fmt_d (sv_nextConnfd sv))) = Some c \<and>
    sv_nextConnfd sv1 = sv_nextConnfd sv + 1 \<and>
    conns w1 c = Some tc \<and> tc_state tc = kConnected \<and> tc_sockfd tc = sockfd \<and> tc_loop tc = sv_loop sv \<and>
    tc_messageCallback tc = sv_messageCallback sv \<and> tc_closeCallback tc = Some (TcpServer_removeConnection_cb s) \<and>
    Buffer_content (tc_inputBuffer tc) = [] \<and> Buffer_content (tc_outputBuffer tc) = [] \<and>
    chans w1 (tc_channel tc) = Some ch \<and> ch_registered ch \<and> ch_fd ch = sockfd \<and> ch_events ch = kReadEvent"
proof -
  obtain b where b: "Buffer_new = Inr b" "Buffer_content b = []" using Buffer_new_ok by blast
  let ?c = "nextptr w + 1"
  from newConnection_state [OF assms b(1), of garbage ub peeraddr] obtain addr h w1 where
    run: "TcpServer_newConnection garbage ub os cur s sockfd peeraddr w = call_fun (sv_connectionCallback sv) (\<lambda>f. on_connection ub f ?c) w1"
    and w1: "w1 = w\<lparr>trace := h, nextptr := nextptr w + 2, chans := (chans w)(nextptr w \<mapsto> conn_channel (sv_loop sv) sockfd ?c),
       loops := (loops w)(sv_loop sv \<mapsto> set_channel sockfd (Some (nextptr w)) lp),
       conns := (conns w)(?c \<mapsto> accepted_conn garbage s sv sockfd (nextptr w) addr b), servers := (servers w)(s \<mapsto> count_conn ?c sv)\<rparr>"
    by blast
  show ?thesis
    by (rule exI [of _ ?c], rule exI [of _ w1], rule exI [of _ "accepted_conn garbage s sv sockfd (nextptr w) addr b"],
      rule exI [of _ "count_conn ?c sv"], rule exI [of _ "conn_channel (sv_loop sv) sockfd ?c"])
      (simp add: run w1 b(2) accepted_conn_def count_conn_def)
qed

theorem newConnection_single_thread_witness:
  "\<exists>w' sv. TcpServer_newConnection no_addr counting_callbacks quiet_kernel 7 30 11 no_addr (server_world []) = Inr w' \<and>
     servers w' 30 = Some sv \<and> sv_connections sv ''s#1'' \<noteq> None"
proof -
  let ?sv = "server30\<lparr>sv_threadPool := (EventLoopThreadPool_new 0)\<lparr>tp_loops := []\<rparr>\<rparr>"
  have sv: "sv_loop ?sv = 0" "tp_loops (sv_threadPool ?sv) = []" "tp_baseLoop (sv_threadPool ?sv) = sv_loop ?sv"
    "sv_connectionCallback ?sv = Some 1" "sv_name ?sv = ''s''" "sv_nextConnfd ?sv = 1"
    by (simp_all add: server30_def EventLoopThreadPool_new_def)
  have lp: "loops (server_world []) (sv_loop ?sv) = Some (set_channel 9 (Some 1) loop0)"
      "el_threadId (set_channel 9 (Some 1) loop0) = 7" "ep_channels (el_epoller (set_channel 9 (Some 1) loop0)) 11 = None"
    by (simp_all add: sv server_world_simps loop0_def)
  have n: "snprintf 32 (''#'' @ fmt_d 1) = ''#1''" by code_simp
  from newConnection_single_thread [OF server_world_simps(1) lp(1,2) sv(2,3) lp(3) quiet_kernel_ctl_ok, of no_addr counting_callbacks no_addr]
  show ?thesis
    unfolding sv n by (auto simp: call_fun_def counting_callbacks_def)
qed

text \<open>Removing a connection in the server's thread takes it out of the map and queues its end on its loop;
  removing the same connection again, which a second \<^verbatim>\<open>handleClose\<close> before the queued task does, fails the
  assertion that exactly one entry was erased.\<close>

theorem removeConnection_once:
  assumes sv: "servers w s = Some sv" and lp: "loops w (sv_loop sv) = Some lp" "el_threadId lp = cur"
    and tc: "conns w c = Some tc" "sv_connections sv (tc_name tc) = Some c" "tc_loop tc = sv_loop sv"
  shows "\<exists>w1 sv1. TcpServer_removeConnection os cur s c w = Inr w1 \<and> servers w1 s = Some sv1 \<and>
    sv_connections sv1 = (sv_connections sv)(tc_name tc := None) \<and>
    map_option el_pending (loops w1 (sv_loop sv)) = Some (el_pending lp @ [ConnectDestoryed c]) \<and>
    TcpServer_removeConnection os cur s c w1 = Inl AssertFailed"
proof -
  let ?w0 = "upd_server (\<lambda>sv. sv\<lparr>sv_connections := (sv_connections sv)(tc_name tc := None)\<rparr>) s w"
  let ?sv1 = "sv\<lparr>sv_connections := (sv_connections sv)(tc_name tc := None)\<rparr>"
  have thr: "assertInLoopThread cur (sv_loop sv) w = Inr ()"
    using lp by (simp add: assertInLoopThread_def isInLoopThread_def)
  have run: "TcpServer_removeConnection os cur s c w = queueInLoop os cur (sv_loop sv) (ConnectDestoryed c) ?w0"
    using sv lp tc thr
    by (simp add: TcpServer_removeConnection_def removeConnectionInLoop_def runInLoop_in_thread)
  have l0: "loops ?w0 (sv_loop sv) = Some lp" using lp by simp
  obtain w1 where w1: "queueInLoop os cur (sv_loop sv) (ConnectDestoryed c) ?w0 = Inr w1" "servers w1 = servers ?w0"
      "conns w1 = conns w" "loops w1 (sv_loop sv) = Some (push_pending (ConnectDestoryed c) lp)"
    using queueInLoop_eq [OF l0, of os cur "ConnectDestoryed c"] lp(2) l0 by (simp add: Let_def)
  have sv1: "servers w1 s = Some ?sv1" using w1(2) sv by simp
  have "assertInLoopThread cur (sv_loop sv) w1 = Inr ()"
    using w1(4) lp(2) by (simp add: assertInLoopThread_def isInLoopThread_def)
  then have "removeConnectionInLoop os cur s c w1 = Inl AssertFailed"
    using sv1 w1(3) tc(1) by (simp add: removeConnectionInLoop_def)
  then have "TcpServer_removeConnection os cur s c w1 = Inl AssertFailed"
    using sv1 w1(4) lp(2) by (simp add: TcpServer_removeConnection_def runInLoop_in_thread)
  then show ?thesis using run w1 sv1 by auto
qed

theorem removeConnection_once_witness:
  "\<exists>w1. TcpServer_removeConnection quiet_kernel 7 30 20 (server_world []) = Inr w1 \<and>
     TcpServer_removeConnection quiet_kernel 7 30 20 w1 = Inl AssertFailed"
proof -
  let ?sv = "server30\<lparr>sv_threadPool := (EventLoopThreadPool_new 0)\<lparr>tp_loops := []\<rparr>\<rparr>"
  have sv: "sv_loop ?sv = 0" "sv_connections ?sv (tc_name conn20) = Some 20" "tc_loop conn20 = sv_loop ?sv"
    by (simp_all add: server30_def conn20_def)
  have lp: "loops (server_world []) (sv_loop ?sv) = Some (set_channel 9 (Some 1) loop0)" "el_threadId (set_channel 9 (Some 1) loop0) = 7"
    by (simp_all add: sv server_world_simps loop0_def)
  show ?thesis
    using removeConnection_once [OF server_world_simps(1) lp server_world_simps(5) sv(2,3), of quiet_kernel] by blast
qed

end
