(* ===== verification/Wait_Notify.thy ===== *)
theory Wait_Notify
  imports Prelude
begin

text \<open>
  The condition-variable protocol of \<^verbatim>\<open>BlockingQueue\<close> (src/thread/BlockingQueue.cc) and \<^verbatim>\<open>TaskQueue\<close>
  (src/reactor/taskQueue.cc) as a step relation over any number of threads: locking, the evaluation of
  the predicate, falling asleep (which releases the mutex), waking (also spuriously), pushing and
  notifying are separate steps that interleave freely. The parameters say whether \<^verbatim>\<open>put\<close> holds the mutex
  while it pushes, which element \<^verbatim>\<open>take\<close> hands out and what it leaves in the queue.
\<close>

section \<open>Model\<close>

datatype 'v pc =
    Idle
  | Checking \<comment> \<open>holds the mutex, about to evaluate the predicate of \<^verbatim>\<open>wait\<close>\<close>
  | Drowsy \<comment> \<open>holds the mutex, has found the queue empty\<close>
  | Asleep
  | Woken \<comment> \<open>notified, has to lock the mutex again\<close>
  | Pushing 'v \<comment> \<open>holds the mutex\<close>
  | Pushed \<comment> \<open>about to notify\<close>

record 'v wn =
  wn_queue :: "'v list"
  wn_owner :: "nat option"
  wn_pc :: "nat \<Rightarrow> 'v pc"
  wn_put :: "'v list"
  wn_taken :: "'v list"

definition wn_start :: "'v wn" where
  "wn_start = \<lparr>wn_queue = [], wn_owner = None, wn_pc = (\<lambda>_. Idle), wn_put = [], wn_taken = []\<rparr>"

definition goto :: "nat \<Rightarrow> 'v pc \<Rightarrow> 'v wn \<Rightarrow> 'v wn" where
  "goto t p s = s\<lparr>wn_pc := (wn_pc s)(t := p)\<rparr>"

definition set_owner :: "nat option \<Rightarrow> 'v wn \<Rightarrow> 'v wn" where
  "set_owner ot s = s\<lparr>wn_owner := ot\<rparr>"

definition push_item :: "'v \<Rightarrow> 'v wn \<Rightarrow> 'v wn" where
  "push_item x s = s\<lparr>wn_queue := wn_queue s @ [x], wn_put := wn_put s @ [x]\<rparr>"

definition take_item :: "('v list \<Rightarrow> 'v) \<Rightarrow> ('v list \<Rightarrow> 'v list) \<Rightarrow> 'v wn \<Rightarrow> 'v wn" where
  "take_item which rest s = s\<lparr>wn_queue := rest (wn_queue s), wn_taken := wn_taken s @ [which (wn_queue s)]\<rparr>"

inductive wn_step :: "bool \<Rightarrow> ('v list \<Rightarrow> 'v) \<Rightarrow> ('v list \<Rightarrow> 'v list) \<Rightarrow> 'v wn \<Rightarrow> 'v wn \<Rightarrow> bool"
  for locks :: bool and which :: "'v list \<Rightarrow> 'v" and rest :: "'v list \<Rightarrow> 'v list" where
  take_lock: "wn_pc s t = Idle \<Longrightarrow> wn_owner s = None \<Longrightarrow>
     wn_step locks which rest s (goto t Checking (set_owner (Some t) s))"
| take_check: "wn_pc s t = Checking \<Longrightarrow> wn_queue s = [] \<Longrightarrow> wn_step locks which rest s (goto t Drowsy s)"
| take_sleep: "wn_pc s t = Drowsy \<Longrightarrow> wn_step locks which rest s (goto t Asleep (set_owner None s))"
| take_relock: "wn_pc s t = Woken \<Longrightarrow> wn_owner s = None \<Longrightarrow>
     wn_step locks which rest s (goto t Checking (set_owner (Some t) s))"
| take_item: "wn_pc s t = Checking \<Longrightarrow> wn_queue s \<noteq> [] \<Longrightarrow>
     wn_step locks which rest s (goto t Idle (set_owner None (take_item which rest s)))"
| spurious: "wn_pc s t = Asleep \<Longrightarrow> wn_step locks which rest s (goto t Woken s)"
| put_lock: "locks \<Longrightarrow> wn_pc s t = Idle \<Longrightarrow> wn_owner s = None \<Longrightarrow>
     wn_step locks which rest s (goto t (Pushing x) (set_owner (Some t) s))"
| put_push: "wn_pc s t = Pushing x \<Longrightarrow>
     wn_step locks which rest s (goto t Pushed (set_owner None (push_item x s)))"
| put_unlocked: "\<not> locks \<Longrightarrow> wn_pc s t = Idle \<Longrightarrow> wn_step locks which rest s (goto t Pushed (push_item x s))"
| notify_one: "wn_pc s t = Pushed \<Longrightarrow> wn_pc s u = Asleep \<Longrightarrow>
     wn_step locks which rest s (goto t Idle (goto u Woken s))"
| notify_none: "wn_pc s t = Pushed \<Longrightarrow> \<forall>u. wn_pc s u \<noteq> Asleep \<Longrightarrow> wn_step locks which rest s (goto t Idle s)"

text \<open>\<^verbatim>\<open>BlockingQueue\<close>: put locks, take removes the front.\<close>

definition BlockingQueue_step :: "'v wn \<Rightarrow> 'v wn \<Rightarrow> bool" where
  "BlockingQueue_step = wn_step True hd tl"

text \<open>\<^verbatim>\<open>TaskQueue\<close>: put does not lock, take copies the last element.\<close>

definition TaskQueue_step :: "'v wn \<Rightarrow> 'v wn \<Rightarrow> bool" where
  "TaskQueue_step = wn_step False last (\<lambda>q. q)"

inductive reach :: "('s \<Rightarrow> 's \<Rightarrow> bool) \<Rightarrow> 's \<Rightarrow> 's \<Rightarrow> bool" for step :: "'s \<Rightarrow> 's \<Rightarrow> bool" where
  reach_refl: "reach step s s"
| reach_step: "reach step s t \<Longrightarrow> step t u \<Longrightarrow> reach step s u"

lemma reach_invariant:
  assumes "reach step s t" and "I s" and "\<And>s t. I s \<Longrightarrow> step s t \<Longrightarrow> I t"
  shows "I t"
  using assms by (induction rule: reach.induct) blast+

lemma reach_by: "reach step s t \<Longrightarrow> step t u' \<Longrightarrow> u' = u \<Longrightarrow> reach step s u"
  by (auto intro: reach_step)

lemma reach_trans: "reach step t u \<Longrightarrow> reach step s t \<Longrightarrow> reach step s u"
  by (induction rule: reach.induct) (auto intro: reach.intros)

text \<open>\<open>counted_run step wakes n k s t\<close>: \<open>n\<close> steps from \<open>s\<close> to \<open>t\<close>, \<open>k\<close> of them spurious wake-ups. A rank that every other
  step decreases, and that a spurious wake-up raises by three at most, bounds the number of steps.\<close>

inductive counted_run :: "('s \<Rightarrow> 's \<Rightarrow> bool) \<Rightarrow> ('s \<Rightarrow> 's \<Rightarrow> bool) \<Rightarrow> nat \<Rightarrow> nat \<Rightarrow> 's \<Rightarrow> 's \<Rightarrow> bool"
  for step :: "'s \<Rightarrow> 's \<Rightarrow> bool" and wakes :: "'s \<Rightarrow> 's \<Rightarrow> bool" where
  run_none: "counted_run step wakes 0 0 s s"
| run_step: "counted_run step wakes n k s t \<Longrightarrow> step t u \<Longrightarrow> counted_run step wakes (Suc n) k s u"
| run_spurious: "counted_run step wakes n k s t \<Longrightarrow> wakes t u \<Longrightarrow> counted_run step wakes (Suc n) (Suc k) s u"

lemma counted_run_bound:
  fixes rank :: "'s \<Rightarrow> nat"
  assumes "counted_run step wakes n k s t" and "I s"
    and step: "\<And>s t. I s \<Longrightarrow> step s t \<Longrightarrow> I t \<and> rank t < rank s"
    and wakes: "\<And>s t. I s \<Longrightarrow> wakes s t \<Longrightarrow> I t \<and> rank t \<le> rank s + 3"
  shows "I t \<and> n + rank t \<le> rank s + 4 * k"
  using assms(1,2)
proof (induction rule: counted_run.induct)
  case (run_step n k s t u)
  then show ?case using step [of t u] by simp
next
  case (run_spurious n k s t u)
  then show ?case using wakes [of t u] by simp
qed simp

inductive_cases wn_stepE: "wn_step locks which rest s s'"

section \<open>The invariant of a locking put\<close>

text \<open>Threads that will look at the queue or notify somebody who does.\<close>

definition awake :: "'v wn \<Rightarrow> nat set" where
  "awake s = {t. wn_pc s t \<in> {Woken, Checking, Pushed}}"

definition holds_lock :: "'v pc \<Rightarrow> bool" where
  "holds_lock p \<longleftrightarrow> p = Checking \<or> p = Drowsy \<or> (\<exists>x. p = Pushing x)"

lemma holds_lock_simps [simp]:
  "holds_lock Checking" "holds_lock Drowsy" "holds_lock (Pushing x)"
  "\<not> holds_lock Idle" "\<not> holds_lock Asleep" "\<not> holds_lock Woken" "\<not> holds_lock Pushed"
  by (simp_all add: holds_lock_def)

text \<open>A mutex is held by exactly the thread whose program counter says so.\<close>

definition excl :: "('p \<Rightarrow> bool) \<Rightarrow> nat option \<Rightarrow> (nat \<Rightarrow> 'p) \<Rightarrow> bool" where
  "excl holds owner f \<longleftrightarrow> (\<forall>t. holds (f t) \<longleftrightarrow> owner = Some t)"

lemma excl_stay: "excl h own f \<Longrightarrow> h p = h (f t) \<Longrightarrow> excl h own (f(t := p))"
  by (simp add: excl_def)

lemma excl_acquire: "excl h None f \<Longrightarrow> h p \<Longrightarrow> excl h (Some t) (f(t := p))"
  by (auto simp: excl_def)

lemma excl_release: "excl h own f \<Longrightarrow> h (f t) \<Longrightarrow> \<not> h p \<Longrightarrow> excl h None (f(t := p))"
  by (auto simp: excl_def)

lemma excl_alone: "excl h own f \<Longrightarrow> h (f t) \<Longrightarrow> h (f u) \<Longrightarrow> t = u"
  by (auto simp: excl_def)

text \<open>What threads keep for themselves.\<close>

definition apart :: "('p \<Rightarrow> nat option) \<Rightarrow> (nat \<Rightarrow> 'p) \<Rightarrow> bool" where
  "apart own f \<longleftrightarrow> (\<forall>t u n. own (f t) = Some n \<and> own (f u) = Some n \<longrightarrow> t = u)"

lemma apart_keep: "apart own f \<Longrightarrow> own p = own (f t) \<or> own p = None \<Longrightarrow> apart own (f(t := p))"
  unfolding apart_def fun_upd_apply by (metis option.distinct(1))

lemma apart_new: "apart own f \<Longrightarrow> own p = Some n \<Longrightarrow> (\<And>u. own (f u) \<noteq> Some n) \<Longrightarrow> apart own (f(t := p))"
  by (auto simp: apart_def)

definition exclusive :: "'v wn \<Rightarrow> bool" where
  "exclusive s \<longleftrightarrow> excl holds_lock (wn_owner s) (wn_pc s)"

definition wn_inv :: "'v wn \<Rightarrow> bool" where
  "wn_inv s \<longleftrightarrow> finite {t. wn_pc s t \<noteq> Idle} \<and>
     exclusive s \<and>
     (\<forall>t. wn_pc s t = Drowsy \<longrightarrow> wn_queue s = []) \<and>
     ((\<exists>t. wn_pc s t = Asleep) \<longrightarrow> length (wn_queue s) \<le> card (awake s)) \<and>
     wn_put s = wn_taken s @ wn_queue s"

lemmas wn_updates = goto_def set_owner_def push_item_def take_item_def

lemma wn_inv_start: "wn_inv wn_start"
  by (simp add: wn_inv_def wn_start_def exclusive_def excl_def)

lemma finite_awake: "finite {t. wn_pc s t \<noteq> Idle} \<Longrightarrow> finite (awake s)"
  by (rule finite_subset [of _ "{t. wn_pc s t \<noteq> Idle}"]) (auto simp: awake_def)

lemma awake_goto: "awake (goto t p s) = (if p \<in> {Woken, Checking, Pushed} then insert t (awake s) else awake s - {t})"
  by (auto simp: awake_def goto_def)

lemma awake_others [simp]:
  "awake (set_owner ot s) = awake s" "awake (push_item x s) = awake s" "awake (take_item w r s) = awake s"
  by (simp_all add: awake_def wn_updates)

lemma finite_goto: "finite {t. wn_pc s t \<noteq> Idle} \<Longrightarrow> finite {t. wn_pc (goto u p s) t \<noteq> Idle}"
  by (rule finite_subset [of _ "insert u {t. wn_pc s t \<noteq> Idle}"]) (auto simp: goto_def)

lemma exclusive_data [simp]:
  "exclusive (push_item x s) = exclusive s" "exclusive (take_item w r s) = exclusive s"
  "wn_pc (push_item x s) = wn_pc s" "wn_pc (take_item w r s) = wn_pc s" "wn_pc (set_owner ot s) = wn_pc s"
  by (simp_all add: exclusive_def wn_updates)

lemma exclusive_stay: "exclusive s \<Longrightarrow> holds_lock p = holds_lock (wn_pc s t) \<Longrightarrow> exclusive (goto t p s)"
  by (simp add: exclusive_def goto_def excl_stay)

lemma exclusive_acquire: "exclusive s \<Longrightarrow> wn_owner s = None \<Longrightarrow> holds_lock p \<Longrightarrow> exclusive (goto t p (set_owner (Some t) s))"
  by (simp add: exclusive_def goto_def set_owner_def excl_acquire)

lemma exclusive_release:
  "exclusive s \<Longrightarrow> holds_lock (wn_pc s t) \<Longrightarrow> \<not> holds_lock p \<Longrightarrow> exclusive (goto t p (set_owner None s))"
  by (simp add: exclusive_def goto_def set_owner_def excl_release)

lemma exclusive_step: "BlockingQueue_step s s' \<Longrightarrow> exclusive s \<Longrightarrow> exclusive s'"
  unfolding BlockingQueue_step_def
proof (induction rule: wn_step.induct)
  case (notify_one s t u)
  then have "t \<noteq> u" by auto
  then have "wn_pc (goto u Woken s) t = Pushed" using notify_one by (simp add: goto_def)
  then show ?case using notify_one by (simp add: exclusive_stay)
qed (simp_all add: exclusive_acquire exclusive_release exclusive_stay)

lemma exclusive_alone: "exclusive s \<Longrightarrow> holds_lock (wn_pc s t) \<Longrightarrow> holds_lock (wn_pc s u) \<Longrightarrow> t = u"
  unfolding exclusive_def by (rule excl_alone)

lemma drowsy_step:
  assumes "BlockingQueue_step s s'" and "exclusive s" and drowsy: "\<And>t. wn_pc s t = Drowsy \<Longrightarrow> wn_queue s = []"
    and "wn_pc s' u = Drowsy"
  shows "wn_queue s' = []"
  using assms(1,4) unfolding BlockingQueue_step_def
proof (cases rule: wn_step.cases)
  case (put_push t x)
  then have "wn_pc s u = Drowsy" "t \<noteq> u" using assms(4) by (auto simp: wn_updates split: if_splits)
  then show ?thesis using exclusive_alone [OF assms(2), of t u] put_push by simp
next
  case (take_item t)
  then have "wn_pc s u = Drowsy" using assms(4) by (auto simp: wn_updates split: if_splits)
  then show ?thesis using drowsy [of u] take_item by simp
qed (auto simp: wn_updates dest: drowsy split: if_splits)

lemma finite_step:
  "BlockingQueue_step s s' \<Longrightarrow> finite {t. wn_pc s t \<noteq> Idle} \<Longrightarrow> finite {t. wn_pc s' t \<noteq> Idle}"
  unfolding BlockingQueue_step_def
  by (erule wn_step.cases) (auto intro!: finite_goto)

lemma log_step:
  "BlockingQueue_step s s' \<Longrightarrow> wn_put s = wn_taken s @ wn_queue s \<Longrightarrow> wn_put s' = wn_taken s' @ wn_queue s'"
  unfolding BlockingQueue_step_def by (erule wn_step.cases) (auto simp: wn_updates)

lemma queue_goto: "wn_queue (goto t p s) = wn_queue s" "wn_queue (set_owner ot s) = wn_queue s"
  by (simp_all add: wn_updates)

lemma asleep_goto: "wn_pc (goto t p s) u = Asleep \<longleftrightarrow> (if u = t then p = Asleep else wn_pc s u = Asleep)"
  by (simp add: goto_def)

lemma in_awake: "t \<in> awake s \<longleftrightarrow> wn_pc s t \<in> {Woken, Checking, Pushed}"
  by (simp add: awake_def)

lemma count_step:
  assumes "BlockingQueue_step s s'" and fa: "finite (awake s)" and drowsy: "\<And>t. wn_pc s t = Drowsy \<Longrightarrow> wn_queue s = []"
    and count: "\<And>t. wn_pc s t = Asleep \<Longrightarrow> length (wn_queue s) \<le> card (awake s)" and "wn_pc s' u = Asleep"
  shows "length (wn_queue s') \<le> card (awake s')"
proof -
  have more: "length (wn_queue s) \<le> card (insert t (awake s))" if "wn_pc s u = Asleep" for t
    by (rule le_trans [OF count [OF that] card_insert_le])
  show ?thesis
  using assms(1,5) unfolding BlockingQueue_step_def
proof (cases rule: wn_step.cases)
  case (take_item t)
  then have "wn_pc s u = Asleep" "t \<in> awake s" using assms(5) by (auto simp: wn_updates awake_def split: if_splits)
  moreover have "awake s' = awake s - {t}" using take_item by (simp add: awake_goto)
  moreover have "length (wn_queue s') = length (wn_queue s) - 1" using take_item by (simp add: wn_updates)
  ultimately show ?thesis using count [of u] fa by (simp add: card_Diff_singleton)
next
  case (put_push t x)
  then have "wn_pc s u = Asleep" "t \<notin> awake s" using assms(5) by (auto simp: wn_updates awake_def split: if_splits)
  with count [of u] put_push fa show ?thesis by (simp add: awake_goto) (simp add: wn_updates)
next
  case (notify_one t v)
  then have "t \<in> awake s" "v \<notin> awake s" "t \<noteq> v" by (auto simp: awake_def)
  moreover have "length (wn_queue s) \<le> card (awake s)" using notify_one count by blast
  ultimately show ?thesis using notify_one fa by (simp add: awake_goto card_insert_if) (simp add: wn_updates)
next
  case (notify_none t)
  then show ?thesis using assms(5) by (auto simp: goto_def split: if_splits)
next
  case (take_sleep t)
  then show ?thesis using drowsy [of t] by (simp add: wn_updates)
next
  case (take_check t)
  then show ?thesis by (simp add: wn_updates)
next
  case (take_lock t)
  then show ?thesis using assms(5) more [of t] count [of u]
    by (simp add: queue_goto awake_goto asleep_goto split: if_splits) 
next
  case (take_relock t)
  then show ?thesis using assms(5) more [of t] count [of u]
    by (simp add: queue_goto awake_goto asleep_goto split: if_splits) 
next
  case (spurious t)
  then show ?thesis using assms(5) more [of t] count [of u]
    by (simp add: queue_goto awake_goto asleep_goto split: if_splits) 
next
  case (put_lock t x)
  then show ?thesis using assms(5) more [of t] count [of u]
    by (simp add: queue_goto awake_goto asleep_goto split: if_splits) (simp add: in_awake)
qed simp_all
qed

lemma wn_inv_step: "wn_inv s \<Longrightarrow> BlockingQueue_step s s' \<Longrightarrow> wn_inv s'"
  using exclusive_step [of s s'] drowsy_step [of s s'] finite_step [of s s'] log_step [of s s'] count_step [of s s']
  by (auto simp: wn_inv_def finite_awake)

lemma wn_inv_reach: "reach BlockingQueue_step wn_start s \<Longrightarrow> wn_inv s"
  by (rule reach_invariant [where I = wn_inv, OF _ wn_inv_start wn_inv_step])

section \<open>Properties\<close>

text \<open>Thread 1 finds the queue empty while it holds the mutex; thread 2 pushes and notifies before it sleeps.\<close>

lemma TaskQueue_loses_wakeup:
  "\<exists>s. reach TaskQueue_step wn_start s \<and> wn_pc s 1 = Asleep \<and> wn_queue s = [x] \<and> (\<forall>t. t \<noteq> 1 \<longrightarrow> wn_pc s t = Idle)"
proof -
  let ?s1 = "goto 1 Checking (set_owner (Some 1) (wn_start :: 'a wn))"
  let ?s2 = "goto 1 Drowsy ?s1"
  let ?s3 = "goto 2 Pushed (push_item x ?s2)"
  let ?s4 = "goto 2 Idle ?s3"
  let ?s5 = "goto 1 Asleep (set_owner None ?s4)"
  have go: "reach TaskQueue_step wn_start s'" if "reach TaskQueue_step wn_start s" "wn_step False last (\<lambda>q. q) s s'" for s s' :: "'a wn"
    using reach_step [OF that(1), of s'] that(2) by (simp add: TaskQueue_step_def)
  have "reach TaskQueue_step wn_start ?s1"
    by (rule go, rule reach_refl, rule wn_step.take_lock) (simp_all add: wn_start_def)
  then have "reach TaskQueue_step wn_start ?s2"
    by (rule go, intro wn_step.take_check) (simp_all add: wn_start_def wn_updates)
  then have "reach TaskQueue_step wn_start ?s3"
    by (rule go, intro wn_step.put_unlocked) (simp_all add: wn_start_def wn_updates)
  then have "reach TaskQueue_step wn_start ?s4"
    by (rule go, intro wn_step.notify_none) (simp_all add: wn_start_def wn_updates)
  then have "reach TaskQueue_step wn_start ?s5"
    by (rule go, intro wn_step.take_sleep) (simp_all add: wn_start_def wn_updates)
  then show ?thesis by (rule exI [of _ ?s5, OF conjI]) (simp add: wn_start_def wn_updates)
qed

text \<open>(C11) No wake-up is lost in a \<^verbatim>\<open>BlockingQueue\<close>: in every reachable interleaving of any number of producers and
  consumers, with spurious wake-ups, at most one thread holds the mutex, the values taken and those
  still queued are the values put in order, and while a consumer sleeps each queued value has a thread
  that is awake to take it or about to notify, so nobody sleeps in a quiescent queue with work. In \<^verbatim>\<open>TaskQueue\<close>, whose \<^verbatim>\<open>put\<close> does not lock, a consumer
  can sleep for good next to a task when every other thread has finished.\<close>

theorem no_lost_wakeup:
  "(\<forall>s. reach BlockingQueue_step wn_start s \<longrightarrow>
      (\<forall>t u. holds_lock (wn_pc s t) \<and> holds_lock (wn_pc s u) \<longrightarrow> t = u) \<and>
      wn_put s = wn_taken s @ wn_queue s \<and>
      ((\<exists>u. wn_pc s u = Asleep) \<longrightarrow> length (wn_queue s) \<le> card (awake s)) \<and>
      ((\<forall>t. wn_pc s t \<in> {Idle, Asleep}) \<longrightarrow> wn_queue s = [] \<or> (\<forall>t. wn_pc s t = Idle))) \<and>
   (\<exists>s. reach TaskQueue_step wn_start s \<and> wn_pc s 1 = Asleep \<and> wn_queue s = [x] \<and> (\<forall>t. t \<noteq> 1 \<longrightarrow> wn_pc s t = Idle))"
proof (intro conjI allI impI TaskQueue_loses_wakeup)
  fix s :: "'a wn"
  assume r: "reach BlockingQueue_step wn_start s"
  have inv: "wn_inv s" by (rule wn_inv_reach [OF r])
  show "holds_lock (wn_pc s t) \<and> holds_lock (wn_pc s u) \<Longrightarrow> t = u" for t u
    using inv exclusive_alone unfolding wn_inv_def by blast
  show "wn_put s = wn_taken s @ wn_queue s" using inv by (simp add: wn_inv_def)
  show count: "\<exists>u. wn_pc s u = Asleep \<Longrightarrow> length (wn_queue s) \<le> card (awake s)" using inv by (simp add: wn_inv_def)
  assume q: "\<forall>t. wn_pc s t \<in> {Idle, Asleep}"
  have "wn_pc s t \<notin> {Woken, Checking, Pushed}" for t using q [rule_format, of t] by auto
  then have "awake s = {}" by (simp add: awake_def)
  with count q show "wn_queue s = [] \<or> (\<forall>t. wn_pc s t = Idle)" by fastforce
qed

theorem no_lost_wakeup_witness:
  "\<exists>s. reach BlockingQueue_step wn_start s \<and> wn_pc s 1 = Asleep \<and> wn_queue s = [5 :: nat] \<and> 1 \<le> card (awake s)"
proof -
  let ?s1 = "goto 1 Checking (set_owner (Some 1) (wn_start :: nat wn))"
  let ?s2 = "goto 1 Drowsy ?s1"
  let ?s3 = "goto 1 Asleep (set_owner None ?s2)"
  let ?s4 = "goto 2 (Pushing 5) (set_owner (Some 2) ?s3)"
  let ?s5 = "goto 2 Pushed (set_owner None (push_item 5 ?s4))"
  have go: "reach BlockingQueue_step wn_start s'" if "reach BlockingQueue_step wn_start s" "wn_step True hd tl s s'" for s s' :: "nat wn"
    using reach_step [OF that(1), of s'] that(2) by (simp add: BlockingQueue_step_def)
  have "reach BlockingQueue_step wn_start ?s1"
    by (rule go, rule reach_refl, rule wn_step.take_lock) (simp_all add: wn_start_def)
  then have "reach BlockingQueue_step wn_start ?s2"
    by (rule go, intro wn_step.take_check) (simp_all add: wn_start_def wn_updates)
  then have "reach BlockingQueue_step wn_start ?s3"
    by (rule go, intro wn_step.take_sleep) (simp_all add: wn_start_def wn_updates)
  then have "reach BlockingQueue_step wn_start ?s4"
    by (rule go, intro wn_step.put_lock) (simp_all add: wn_start_def wn_updates)
  then have r: "reach BlockingQueue_step wn_start ?s5"
    by (rule go, intro wn_step.put_push) (simp_all add: wn_start_def wn_updates)
  have s: "wn_pc ?s5 1 = Asleep" "wn_queue ?s5 = [5]" by (simp add: wn_start_def wn_updates, simp add: wn_start_def wn_updates)
  from no_lost_wakeup [THEN conjunct1, rule_format, OF r] have "length (wn_queue ?s5) \<le> card (awake ?s5)"
    using s(1) by blast
  then have "1 \<le> card (awake ?s5)" unfolding s(2) by simp
  with r s show ?thesis by blast
qed

end
