(* ===== verification/Loop_Thread.thy ===== *)
theory Loop_Thread
  imports Wait_Notify
begin

text \<open>
  The two threads of an \<^verbatim>\<open>EventLoopThread\<close> (src/reactor/EventLoopThread.cc) as a step relation: the thread
  that calls \<^verbatim>\<open>startLoop\<close> and later the destructor, and the new thread that runs \<^verbatim>\<open>ThreadFunc\<close>. Locking, the
  test of \<^verbatim>\<open>loop_\<close>, falling asleep (which releases the mutex), waking (also spuriously), publishing the loop
  and notifying are separate steps. \<open>EventLoopThread_startLoop\<close> of theory \<open>Tcp_Server\<close> takes the call as one
  operation with the published loop as its result; the theorems here are the reason why it may.

  \<^verbatim>\<open>loop()\<close> clears \<^verbatim>\<open>quit_\<close> when it starts and returns when it finds \<^verbatim>\<open>quit_\<close> set (EventLoop.cc); here that
  is all of it that matters. A loop whose address was handed out can be asked to quit by any thread.
\<close>

section \<open>Model\<close>

datatype party = Starter | Worker

datatype starter_pc =
    S_new
  | S_started \<comment> \<open>\<^verbatim>\<open>thread_.start()\<close> has returned\<close>
  | S_checking \<comment> \<open>holds the mutex, about to test \<^verbatim>\<open>loop_ == NULL\<close>\<close>
  | S_drowsy \<comment> \<open>holds the mutex, about to wait\<close>
  | S_asleep
  | S_woken \<comment> \<open>has to lock the mutex again\<close>
  | S_leaving \<comment> \<open>has left the block, about to return \<^verbatim>\<open>loop_\<close>\<close>
  | S_done "nat option" \<comment> \<open>\<^verbatim>\<open>startLoop\<close> has returned this pointer\<close>
  | S_joining \<comment> \<open>in the destructor, at \<^verbatim>\<open>thread_.join()\<close>\<close>
  | S_joined \<comment> \<open>in the destructor, about to call \<^verbatim>\<open>loop_->quit()\<close>\<close>
  | S_destroyed
  | S_failed fault

datatype worker_pc =
    W_none
  | W_created \<comment> \<open>constructs its local \<^verbatim>\<open>EventLoop\<close>\<close>
  | W_ready nat \<comment> \<open>about to lock; the loop lives at this address\<close>
  | W_locked nat
  | W_assigned nat \<comment> \<open>about to notify\<close>
  | W_notified nat \<comment> \<open>about to leave the block\<close>
  | W_calling nat \<comment> \<open>about to enter \<^verbatim>\<open>loop_->loop()\<close>\<close>
  | W_looping nat
  | W_ended nat \<comment> \<open>\<^verbatim>\<open>ThreadFunc\<close> has returned, the loop is destroyed\<close>

record loop_thread =
  lt_loop :: "nat option"
  lt_existing :: bool
  lt_mutex :: "party option"
  lt_quit :: bool
  lt_starter :: starter_pc
  lt_worker :: worker_pc

definition lt_start :: loop_thread where
  "lt_start = \<lparr>lt_loop = None, lt_existing = False, lt_mutex = None, lt_quit = False,
     lt_starter = S_new, lt_worker = W_none\<rparr>"

text \<open>The thread that calls \<^verbatim>\<open>startLoop\<close>.\<close>

inductive startLoop_step :: "loop_thread \<Rightarrow> loop_thread \<Rightarrow> bool" where
  thread_start: "lt_starter s = S_new \<Longrightarrow> startLoop_step s (s\<lparr>lt_starter := S_started, lt_worker := W_created\<rparr>)"
| create_fails: "lt_starter s = S_new \<Longrightarrow> startLoop_step s (s\<lparr>lt_starter := S_failed Aborted\<rparr>)"
| start_lock: "lt_starter s = S_started \<Longrightarrow> lt_mutex s = None \<Longrightarrow>
     startLoop_step s (s\<lparr>lt_starter := S_checking, lt_mutex := Some Starter\<rparr>)"
| loop_null: "lt_starter s = S_checking \<Longrightarrow> lt_loop s = None \<Longrightarrow> startLoop_step s (s\<lparr>lt_starter := S_drowsy\<rparr>)"
| cond_wait: "lt_starter s = S_drowsy \<Longrightarrow> startLoop_step s (s\<lparr>lt_starter := S_asleep, lt_mutex := None\<rparr>)"
| relock: "lt_starter s = S_woken \<Longrightarrow> lt_mutex s = None \<Longrightarrow>
     startLoop_step s (s\<lparr>lt_starter := S_checking, lt_mutex := Some Starter\<rparr>)"
| loop_set: "lt_starter s = S_checking \<Longrightarrow> lt_loop s = Some l \<Longrightarrow>
     startLoop_step s (s\<lparr>lt_starter := S_leaving, lt_mutex := None\<rparr>)"
| return_loop: "lt_starter s = S_leaving \<Longrightarrow> startLoop_step s (s\<lparr>lt_starter := S_done (lt_loop s)\<rparr>)"
| start_again: "lt_starter s = S_done r \<Longrightarrow> startLoop_step s (s\<lparr>lt_starter := S_failed AssertFailed\<rparr>)"

inductive ThreadFunc_step :: "loop_thread \<Rightarrow> loop_thread \<Rightarrow> bool" where
  construct_loop: "lt_worker s = W_created \<Longrightarrow> ThreadFunc_step s (s\<lparr>lt_worker := W_ready l, lt_quit := False\<rparr>)"
| func_lock: "lt_worker s = W_ready l \<Longrightarrow> lt_mutex s = None \<Longrightarrow>
     ThreadFunc_step s (s\<lparr>lt_worker := W_locked l, lt_mutex := Some Worker\<rparr>)"
| publish: "lt_worker s = W_locked l \<Longrightarrow> ThreadFunc_step s (s\<lparr>lt_worker := W_assigned l, lt_loop := Some l\<rparr>)"
| notify: "lt_worker s = W_assigned l \<Longrightarrow>
     ThreadFunc_step s (s\<lparr>lt_worker := W_notified l,
       lt_starter := if lt_starter s = S_asleep then S_woken else lt_starter s\<rparr>)"
| func_unlock: "lt_worker s = W_notified l \<Longrightarrow> ThreadFunc_step s (s\<lparr>lt_worker := W_calling l, lt_mutex := None\<rparr>)"
| enter_loop: "lt_worker s = W_calling l \<Longrightarrow> ThreadFunc_step s (s\<lparr>lt_worker := W_looping l, lt_quit := False\<rparr>)"
| leave_loop: "lt_worker s = W_looping l \<Longrightarrow> lt_quit s \<Longrightarrow> ThreadFunc_step s (s\<lparr>lt_worker := W_ended l\<rparr>)"

text \<open>The destructor; \<^verbatim>\<open>join\<close> asserts that the thread was started and waits for the end of \<^verbatim>\<open>ThreadFunc\<close>.\<close>

definition loop_alive :: "nat \<Rightarrow> loop_thread \<Rightarrow> bool" where
  "loop_alive l s \<longleftrightarrow> lt_worker s \<in> {W_ready l, W_locked l, W_assigned l, W_notified l, W_calling l, W_looping l}"

inductive loop_thread_dtor_step :: "loop_thread \<Rightarrow> loop_thread \<Rightarrow> bool" where
  dtor_new: "lt_starter s = S_new \<Longrightarrow>
     loop_thread_dtor_step s (s\<lparr>lt_starter := S_failed AssertFailed, lt_existing := True\<rparr>)"
| dtor_join: "lt_starter s = S_done r \<Longrightarrow>
     loop_thread_dtor_step s (s\<lparr>lt_starter := S_joining, lt_existing := True\<rparr>)"
| join_returns: "lt_starter s = S_joining \<Longrightarrow> lt_worker s = W_ended l \<Longrightarrow>
     loop_thread_dtor_step s (s\<lparr>lt_starter := S_joined\<rparr>)"
| quit_null: "lt_starter s = S_joined \<Longrightarrow> lt_loop s = None \<Longrightarrow>
     loop_thread_dtor_step s (s\<lparr>lt_starter := S_failed NullPointer\<rparr>)"
| quit_dead: "lt_starter s = S_joined \<Longrightarrow> lt_loop s = Some l \<Longrightarrow> \<not> loop_alive l s \<Longrightarrow>
     loop_thread_dtor_step s (s\<lparr>lt_starter := S_failed UseAfterFree\<rparr>)"
| quit_alive: "lt_starter s = S_joined \<Longrightarrow> lt_loop s = Some l \<Longrightarrow> loop_alive l s \<Longrightarrow>
     loop_thread_dtor_step s (s\<lparr>lt_starter := S_destroyed, lt_quit := True\<rparr>)"

definition spurious_wakeup :: "loop_thread \<Rightarrow> loop_thread \<Rightarrow> bool" where
  "spurious_wakeup s t \<longleftrightarrow> lt_starter s = S_asleep \<and> t = s\<lparr>lt_starter := S_woken\<rparr>"

text \<open>\<^verbatim>\<open>quit()\<close> called by a thread that was given the pointer.\<close>

definition user_quit :: "loop_thread \<Rightarrow> loop_thread \<Rightarrow> bool" where
  "user_quit s t \<longleftrightarrow> (lt_starter s = S_joining \<or> (\<exists>r. lt_starter s = S_done r)) \<and>
     (\<exists>l. lt_loop s = Some l \<and> loop_alive l s) \<and> t = s\<lparr>lt_quit := True\<rparr>"

definition lt_step :: "loop_thread \<Rightarrow> loop_thread \<Rightarrow> bool" where
  "lt_step s t \<longleftrightarrow> startLoop_step s t \<or> ThreadFunc_step s t \<or> loop_thread_dtor_step s t \<or>
     spurious_wakeup s t \<or> user_quit s t"

inductive_cases startLoop_stepE: "startLoop_step s t"
inductive_cases ThreadFunc_stepE: "ThreadFunc_step s t"
inductive_cases loop_thread_dtor_stepE: "loop_thread_dtor_step s t"

section \<open>The invariant\<close>

fun worker_holds :: "worker_pc \<Rightarrow> bool" where
  "worker_holds (W_locked l) = True"
| "worker_holds (W_assigned l) = True"
| "worker_holds (W_notified l) = True"
| "worker_holds _ = False"

text \<open>The pointer the worker has published.\<close>

fun published :: "worker_pc \<Rightarrow> nat option" where
  "published (W_assigned l) = Some l"
| "published (W_notified l) = Some l"
| "published (W_calling l) = Some l"
| "published (W_looping l) = Some l"
| "published (W_ended l) = Some l"
| "published _ = None"

text \<open>The notification is still to come.\<close>

fun will_notify :: "worker_pc \<Rightarrow> bool" where
  "will_notify W_created = True"
| "will_notify (W_ready l) = True"
| "will_notify (W_locked l) = True"
| "will_notify (W_assigned l) = True"
| "will_notify _ = False"

definition lt_inv :: "loop_thread \<Rightarrow> bool" where
  "lt_inv s \<longleftrightarrow>
     (lt_mutex s = Some Starter \<longleftrightarrow> lt_starter s = S_checking \<or> lt_starter s = S_drowsy) \<and>
     (lt_mutex s = Some Worker \<longleftrightarrow> worker_holds (lt_worker s)) \<and>
     lt_loop s = published (lt_worker s) \<and>
     (lt_starter s = S_new \<longrightarrow> lt_worker s = W_none) \<and>
     (lt_worker s = W_none \<longrightarrow> lt_starter s = S_new \<or> (\<exists>e. lt_starter s = S_failed e)) \<and>
     (lt_starter s = S_drowsy \<longrightarrow> lt_loop s = None) \<and>
     (lt_starter s = S_asleep \<longrightarrow> will_notify (lt_worker s)) \<and>
     (lt_starter s \<in> {S_leaving, S_joining, S_joined} \<longrightarrow> lt_loop s \<noteq> None) \<and>
     (\<forall>r. lt_starter s = S_done r \<longrightarrow> r \<noteq> None \<and> lt_loop s = r) \<and>
     (lt_starter s = S_joined \<longrightarrow> (\<exists>l. lt_worker s = W_ended l)) \<and>
     lt_starter s \<noteq> S_destroyed"

lemma lt_invD:
  assumes "lt_inv s"
  shows "lt_mutex s = Some Starter \<Longrightarrow> lt_starter s = S_checking \<or> lt_starter s = S_drowsy"
    and "lt_mutex s = Some Worker \<Longrightarrow> worker_holds (lt_worker s)"
    and "lt_loop s = published (lt_worker s)"
    and "lt_starter s = S_asleep \<Longrightarrow> will_notify (lt_worker s)"
    and "lt_starter s = S_done r \<Longrightarrow> \<exists>l. r = Some l \<and> lt_loop s = Some l"
    and "lt_starter s = S_joined \<Longrightarrow> \<exists>l. lt_worker s = W_ended l"
    and "lt_starter s \<noteq> S_destroyed"
  using assms unfolding lt_inv_def by (blast | metis option.exhaust)+

lemma lt_inv_start: "lt_inv lt_start"
  by (simp add: lt_inv_def lt_start_def)

lemma lt_inv_startLoop: "startLoop_step s t \<Longrightarrow> lt_inv s \<Longrightarrow> lt_inv t"
  by (erule startLoop_stepE; cases "lt_worker s"; clarsimp simp: lt_inv_def; fastforce?)

lemma lt_inv_ThreadFunc: "ThreadFunc_step s t \<Longrightarrow> lt_inv s \<Longrightarrow> lt_inv t"
  by (erule ThreadFunc_stepE; cases "lt_starter s"; clarsimp simp: lt_inv_def; fastforce?)

lemma lt_inv_dtor: "loop_thread_dtor_step s t \<Longrightarrow> lt_inv s \<Longrightarrow> lt_inv t"
  by (erule loop_thread_dtor_stepE; cases "lt_worker s"; clarsimp simp: lt_inv_def loop_alive_def; fastforce?)

lemma lt_inv_spurious: "spurious_wakeup s t \<Longrightarrow> lt_inv s \<Longrightarrow> lt_inv t"
  by (auto simp: lt_inv_def spurious_wakeup_def)

lemma lt_inv_quit: "user_quit s t \<Longrightarrow> lt_inv s \<Longrightarrow> lt_inv t"
  by (simp add: lt_inv_def user_quit_def) (elim conjE; simp)

lemma lt_inv_step: "lt_inv s \<Longrightarrow> lt_step s t \<Longrightarrow> lt_inv t"
  unfolding lt_step_def
  using lt_inv_startLoop lt_inv_ThreadFunc lt_inv_dtor lt_inv_spurious lt_inv_quit by blast

lemma lt_inv_reach: "reach lt_step lt_start s \<Longrightarrow> lt_inv s"
  using reach_invariant [of lt_step lt_start s lt_inv] lt_inv_start lt_inv_step by blast

section \<open>Progress\<close>

definition in_startLoop :: "loop_thread \<Rightarrow> bool" where
  "in_startLoop s \<longleftrightarrow> lt_starter s \<in> {S_started, S_checking, S_drowsy, S_asleep, S_woken, S_leaving}"

fun starter_rank :: "starter_pc \<Rightarrow> nat" where
  "starter_rank S_started = 6"
| "starter_rank S_woken = 6"
| "starter_rank S_checking = 5"
| "starter_rank S_drowsy = 4"
| "starter_rank S_asleep = 3"
| "starter_rank S_leaving = 1"
| "starter_rank _ = 0"

fun worker_rank :: "worker_pc \<Rightarrow> nat" where
  "worker_rank W_created = 7"
| "worker_rank (W_ready l) = 6"
| "worker_rank (W_locked l) = 5"
| "worker_rank (W_assigned l) = 4"
| "worker_rank (W_notified l) = 3"
| "worker_rank (W_calling l) = 2"
| "worker_rank (W_looping l) = 1"
| "worker_rank _ = 0"

text \<open>A notification wakes the starter (3 to 6) and costs the worker one state, so the worker weighs more.\<close>

definition lt_rank :: "loop_thread \<Rightarrow> nat" where
  "lt_rank s = starter_rank (lt_starter s) + 4 * worker_rank (lt_worker s)"

lemma lt_rank_le: "lt_rank s \<le> 34"
proof -
  have "starter_rank (lt_starter s) \<le> 6" by (cases "lt_starter s") simp_all
  moreover have "worker_rank (lt_worker s) \<le> 7" by (cases "lt_worker s") simp_all
  ultimately show ?thesis by (simp add: lt_rank_def)
qed

lemma in_startLoop_not [simp]:
  "lt_starter s = S_new \<Longrightarrow> \<not> in_startLoop s"
  "lt_starter s = S_done r \<Longrightarrow> \<not> in_startLoop s"
  "lt_starter s = S_joining \<Longrightarrow> \<not> in_startLoop s"
  "lt_starter s = S_joined \<Longrightarrow> \<not> in_startLoop s"
  by (simp_all add: in_startLoop_def)

text \<open>The destructor and \<^verbatim>\<open>quit()\<close> come after \<^verbatim>\<open>startLoop\<close>.\<close>

lemma step_in_startLoop:
  assumes "in_startLoop s" and "lt_step s t"
  shows "startLoop_step s t \<or> ThreadFunc_step s t \<or> spurious_wakeup s t"
proof -
  have "\<not> loop_thread_dtor_step s t"
  proof
    assume "loop_thread_dtor_step s t"
    then show False by (rule loop_thread_dtor_stepE) (use assms(1) in simp_all)
  qed
  moreover have "\<not> user_quit s t"
  proof
    assume "user_quit s t"
    then show False using assms(1) unfolding user_quit_def by (elim conjE disjE exE) simp_all
  qed
  ultimately show ?thesis using assms(2) by (simp add: lt_step_def)
qed

lemma lt_rank_step:
  assumes "in_startLoop s" and "lt_step s t" and "\<not> spurious_wakeup s t"
  shows "lt_rank t < lt_rank s"
  using step_in_startLoop [OF assms(1,2)]
proof (elim disjE)
    assume "startLoop_step s t"
    then show ?thesis by (rule startLoop_stepE) (use assms(1) in \<open>simp_all add: lt_rank_def in_startLoop_def\<close>)
  next
    assume "ThreadFunc_step s t"
    then show ?thesis by (rule ThreadFunc_stepE) (simp_all add: lt_rank_def)
qed (simp add: assms(3))

lemma lt_rank_spurious: "spurious_wakeup s t \<Longrightarrow> lt_rank t = lt_rank s + 3"
  by (auto simp: spurious_wakeup_def lt_rank_def)

lemma mutex_cases: "lt_mutex s = None \<or> lt_mutex s = Some Starter \<or> lt_mutex s = Some Worker"
  by (metis not_None_eq party.exhaust)

lemma worker_proceeds:
  assumes "lt_inv s" and "worker_holds (lt_worker s) \<or> will_notify (lt_worker s) \<and> lt_mutex s = None"
  shows "\<exists>t. ThreadFunc_step s t"
  using assms(2) by (cases "lt_worker s") (auto intro: ThreadFunc_step.intros)

lemma startLoop_not_stuck:
  assumes "lt_inv s" and "in_startLoop s"
  shows "\<exists>t. startLoop_step s t \<or> ThreadFunc_step s t"
proof (cases "lt_mutex s = Some Worker")
  case True
  then show ?thesis using worker_proceeds [OF assms(1)] lt_invD(2) [OF assms(1)] by blast
next
  case False
  then have free: "lt_mutex s = None" if "lt_starter s \<in> {S_started, S_woken, S_asleep}"
    using mutex_cases [of s] lt_invD(1) [OF assms(1)] that by fastforce
  from assms(2) consider "lt_starter s = S_started" | "lt_starter s = S_checking" | "lt_starter s = S_drowsy"
    | "lt_starter s = S_asleep" | "lt_starter s = S_woken" | "lt_starter s = S_leaving"
    by (auto simp: in_startLoop_def)
  then show ?thesis
  proof cases
    case 1
    then show ?thesis using start_lock [OF 1 free] by auto
  next
    case 2
    then show ?thesis by (cases "lt_loop s") (blast intro: loop_null loop_set)+
  next
    case 3
    then show ?thesis by (blast intro: cond_wait)
  next
    case 4
    then have "will_notify (lt_worker s)" "lt_mutex s = None" using lt_invD(4) [OF assms(1)] free by simp_all
    then show ?thesis using worker_proceeds [OF assms(1)] by blast
  next
    case 5
    then show ?thesis using relock [OF 5 free] by auto
  next
    case 6
    then show ?thesis by (blast intro: return_loop)
  qed
qed

text \<open>\<open>startLoop_run n k s t\<close>: \<open>n\<close> steps from \<open>s\<close> to \<open>t\<close>, \<open>k\<close> of them spurious wake-ups, all inside \<^verbatim>\<open>startLoop\<close>.\<close>

definition startLoop_run :: "nat \<Rightarrow> nat \<Rightarrow> loop_thread \<Rightarrow> loop_thread \<Rightarrow> bool" where
  "startLoop_run = counted_run (\<lambda>t u. in_startLoop t \<and> lt_step t u \<and> \<not> spurious_wakeup t u)
     (\<lambda>t u. in_startLoop t \<and> spurious_wakeup t u)"

lemma startLoop_run_bound: "startLoop_run n k s t \<Longrightarrow> lt_inv s \<Longrightarrow> lt_inv t \<and> n + lt_rank t \<le> lt_rank s + 4 * k"
  unfolding startLoop_run_def
  by (erule counted_run_bound) (auto dest: lt_inv_step lt_inv_spurious lt_rank_step lt_rank_spurious)

lemma startLoop_exit:
  assumes "in_startLoop s" and "lt_step s t" and "\<not> in_startLoop t"
  shows "\<exists>r. lt_starter t = S_done r"
  using step_in_startLoop [OF assms(1,2)]
proof (elim disjE)
  assume "startLoop_step s t"
  then show ?thesis by (rule startLoop_stepE) (use assms(1,3) in \<open>simp_all add: in_startLoop_def\<close>)
next
  assume "ThreadFunc_step s t"
  then have "in_startLoop t" by (rule ThreadFunc_stepE) (use assms(1) in \<open>auto simp: in_startLoop_def\<close>)
  then show ?thesis using assms(3) by simp
next
  assume "spurious_wakeup s t"
  then show ?thesis using assms(3) by (simp add: spurious_wakeup_def in_startLoop_def)
qed

lemma startLoop_run_exit:
  assumes "startLoop_run n k s t" and "lt_inv s" and "in_startLoop s" and "\<not> in_startLoop t"
  shows "\<exists>l. lt_starter t = S_done (Some l)"
proof -
  have "\<exists>r. lt_starter t = S_done r"
    using assms(1) unfolding startLoop_run_def
  proof cases
    case (run_step n t')
    then show ?thesis using startLoop_exit assms(4) by blast
  next
    case (run_spurious n k t')
    then show ?thesis using assms(4) by (auto simp: in_startLoop_def spurious_wakeup_def)
  qed (use assms(3,4) in simp)
  then show ?thesis using lt_invD(5) [OF startLoop_run_bound [OF assms(1,2), THEN conjunct1]] by blast
qed

section \<open>Properties\<close>

text \<open>(C14) The handshake of \<^verbatim>\<open>startLoop\<close> and \<^verbatim>\<open>ThreadFunc\<close>. In every reachable state: a pointer that \<^verbatim>\<open>startLoop\<close> has
  returned is that of the loop the new thread has constructed and published, never null; while \<^verbatim>\<open>startLoop\<close>
  runs one of the two threads can go on without a spurious wake-up, so no wake-up is lost; a run inside
  \<^verbatim>\<open>startLoop\<close> with \<open>k\<close> spurious wake-ups has at most \<open>34 + 4 * k\<close> steps, and it can only end by returning
  the loop. The destructor never completes: if the join returns at all, the loop it then calls \<^verbatim>\<open>quit()\<close> on
  is destroyed.\<close>

theorem startLoop_handshake:
  assumes "reach lt_step lt_start s"
  shows "(\<forall>r. lt_starter s = S_done r \<longrightarrow> (\<exists>l. r = Some l \<and> published (lt_worker s) = Some l)) \<and>
    (in_startLoop s \<longrightarrow> (\<exists>t. startLoop_step s t \<or> ThreadFunc_step s t)) \<and>
    (\<forall>n k t. startLoop_run n k s t \<longrightarrow> n \<le> 34 + 4 * k) \<and>
    (\<forall>n k t. in_startLoop s \<and> startLoop_run n k s t \<and> \<not> in_startLoop t \<longrightarrow> (\<exists>l. lt_starter t = S_done (Some l))) \<and>
    lt_starter s \<noteq> S_destroyed \<and>
    (\<forall>t. lt_starter s = S_joined \<and> loop_thread_dtor_step s t \<longrightarrow> lt_starter t = S_failed UseAfterFree)"
proof -
  have inv: "lt_inv s" using assms by (rule lt_inv_reach)
  have "n \<le> 34 + 4 * k" if "startLoop_run n k s t" for n k t
    using startLoop_run_bound [OF that inv] lt_rank_le [of s] by linarith
  moreover have "lt_starter t = S_failed UseAfterFree" if "lt_starter s = S_joined" "loop_thread_dtor_step s t" for t
    using that(2)
  proof cases
    case (quit_null)
    then show ?thesis using lt_invD(3,6) [OF inv] that(1) by auto
  next
    case (quit_alive l)
    then show ?thesis using lt_invD(6) [OF inv that(1)] by (auto simp: loop_alive_def)
  qed (simp_all add: that(1))
  moreover have "\<exists>l. r = Some l \<and> published (lt_worker s) = Some l" if "lt_starter s = S_done r" for r
    using lt_invD(3,5) [OF inv] that by metis
  moreover have "lt_starter s \<noteq> S_destroyed" using inv by (rule lt_invD(7))
  ultimately show ?thesis using startLoop_not_stuck [OF inv] startLoop_run_exit [OF _ inv] by blast
qed

text \<open>The starter finds no loop and sleeps; the new thread publishes loop 5 and wakes it.\<close>

definition lt_awaited :: loop_thread where
  "lt_awaited = \<lparr>lt_loop = Some 5, lt_existing = False, lt_mutex = None, lt_quit = False,
     lt_starter = S_done (Some 5), lt_worker = W_calling 5\<rparr>"

lemma lt_stepI: "startLoop_step s t \<Longrightarrow> lt_step s t" "ThreadFunc_step s t \<Longrightarrow> lt_step s t"
  "loop_thread_dtor_step s t \<Longrightarrow> lt_step s t" "user_quit s t \<Longrightarrow> lt_step s t"
  by (simp_all add: lt_step_def)

lemma reach_awaited: "reach lt_step lt_start lt_awaited"
  unfolding lt_awaited_def lt_start_def
  apply (rule reach_by, rule reach_by, rule reach_by, rule reach_by, rule reach_by, rule reach_by)
  apply (rule reach_by, rule reach_by, rule reach_by, rule reach_by, rule reach_by, rule reach_by, rule reach_refl)
  apply (rule lt_stepI(1), rule thread_start, simp, simp)
  apply (rule lt_stepI(1), rule start_lock, simp, simp, simp)
  apply (rule lt_stepI(1), rule loop_null, simp, simp, simp)
  apply (rule lt_stepI(1), rule cond_wait, simp, simp)
  apply (rule lt_stepI(2), rule construct_loop [where l = 5], simp, simp)
  apply (rule lt_stepI(2), rule func_lock, simp, simp, simp)
  apply (rule lt_stepI(2), rule publish, simp, simp)
  apply (rule lt_stepI(2), rule notify, simp, simp)
  apply (rule lt_stepI(2), rule func_unlock, simp, simp)
  apply (rule lt_stepI(1), rule relock, simp, simp, simp)
  apply (rule lt_stepI(1), rule loop_set, simp, simp, simp)
  apply (rule lt_stepI(1), rule return_loop, simp, simp)
  done

theorem startLoop_handshake_witness:
  "\<exists>l. lt_starter lt_awaited = S_done (Some l) \<and> published (lt_worker lt_awaited) = Some l"
  using startLoop_handshake [OF reach_awaited] by (auto simp: lt_awaited_def)

text \<open>A \<^verbatim>\<open>quit()\<close> right after \<^verbatim>\<open>startLoop\<close> may fall before the new thread enters \<^verbatim>\<open>loop()\<close>, which clears the
  flag: the destructor then waits for a thread that only another \<^verbatim>\<open>quit()\<close> can stop.\<close>

theorem quit_after_startLoop_can_be_lost:
  "\<exists>s t u. reach lt_step lt_start s \<and> user_quit s t \<and> lt_quit t \<and> reach lt_step t u \<and>
     lt_starter u = S_joining \<and> lt_existing u \<and> (\<forall>v. lt_step u v \<longrightarrow> user_quit u v)"
proof -
  let ?t = "lt_awaited\<lparr>lt_quit := True\<rparr>"
  let ?u = "lt_awaited\<lparr>lt_worker := W_looping 5, lt_starter := S_joining, lt_existing := True\<rparr>"
  have quit: "user_quit lt_awaited ?t" by (simp add: user_quit_def lt_awaited_def loop_alive_def)
  have hang: "user_quit ?u v" if "lt_step ?u v" for v
    using that unfolding lt_step_def
    by (auto simp: spurious_wakeup_def lt_awaited_def elim: startLoop_stepE ThreadFunc_stepE loop_thread_dtor_stepE)
  have "reach lt_step ?t ?u"
    apply (rule reach_by, rule reach_by, rule reach_refl)
    apply (rule lt_stepI(2), rule enter_loop [where l = 5], simp add: lt_awaited_def, simp)
    apply (rule lt_stepI(3), rule dtor_join, simp add: lt_awaited_def, simp add: lt_awaited_def)
    done
  then show ?thesis using reach_awaited quit hang
    by (intro exI [of _ lt_awaited] exI [of _ ?t] exI [of _ ?u]) simp
qed

end
