(* ===== verification/Output_Frame.thy ===== *)
theory Output_Frame
  imports Tcp_Server
begin

text \<open>
  What sending, draining and closing the output of a connection leaves alone, as an interface: a view \<open>E\<close>
  of the state that does not look at channels, loops, output buffers and the system calls of output is
  the same before and after each of these operations. Clients interpret the locale on what they need.
\<close>

fun output_call :: "syscall \<Rightarrow> bool" where
  "output_call (Sys_write fd d) = True"
| "output_call (Sys_shutdown fd) = True"
| "output_call (Sys_epoll_add e fd ev) = True"
| "output_call (Sys_epoll_mod e fd ev) = True"
| "output_call _ = False"

locale output_view =
  fixes E :: "'z net_scheme \<Rightarrow> 'x"
  assumes view_chan: "E (upd_chan f p w) = E w"
    and view_loop: "E (upd_loop g l w) = E w"
    and view_output: "E (upd_conn (\<lambda>tc. tc\<lparr>tc_outputBuffer := b\<rparr>) c w) = E w"
    and view_sys: "output_call k \<Longrightarrow> E (w\<lparr>trace := trace w @ [(k, r)]\<rparr>) = E w"
begin

lemmas view_simps = view_chan view_loop view_output view_sys

lemma view_Channel_update: "Channel_update os cur p w = Inr w' \<Longrightarrow> E w' = E w"
  by (erule Channel_update_InrE) (simp add: after_update_def Let_def view_simps)

lemma view_writing:
  "enableWriting os cur p w = Inr w' \<Longrightarrow> E w' = E w"
  "disableWriting os cur p w = Inr w' \<Longrightarrow> E w' = E w"
  by (auto simp: enableWriting_def disableWriting_def view_chan dest!: view_Channel_update)

lemma view_queueInLoop: "queueInLoop os cur l f w = Inr w' \<Longrightarrow> E w' = E w"
proof -
  assume run: "queueInLoop os cur l f w = Inr w'"
  then obtain lp where lp: "loops w l = Some lp" by (auto simp: queueInLoop_def)
  have "E ((upd_loop (push_pending f) l w)\<lparr>trace := trace w @ [(Sys_write fd d, r)]\<rparr>) = E w" for fd d r
    using view_sys [of "Sys_write fd d" "upd_loop (push_pending f) l w" r] by (simp add: view_loop)
  then show ?thesis using run queueInLoop_eq [OF lp, of os cur f] by (auto simp: Let_def view_loop split: if_splits)
qed

lemma view_direct_write: "direct_write os cur c m w = Inr (n, w') \<Longrightarrow> E w' = E w"
  by (auto simp: direct_write_def view_sys split: if_splits dest!: view_queueInLoop)

lemma view_sendInLoop: "sendInLoop os cur c m w = Inr w' \<Longrightarrow> E w' = E w"
  by (auto simp: sendInLoop_def Let_def view_output split: if_splits dest!: view_direct_write view_writing(1))

lemma view_send: "TcpConnection_send os cur c m w = Inr w' \<Longrightarrow> E w' = E w"
  by (auto simp: TcpConnection_send_def runInLoop_def split: if_splits dest!: view_sendInLoop view_queueInLoop)

lemma view_shutdownInLoop: "shutdownInLoop os cur c w = Inr w' \<Longrightarrow> E w' = E w"
  by (auto simp: shutdownInLoop_def sockets_defs view_sys split: if_splits)

lemma view_handleWrite: "TcpConnection_handleWrite os cur c w = Inr w' \<Longrightarrow> E w' = E w"
  by (auto simp: TcpConnection_handleWrite_def Let_def view_simps split: if_splits
      dest!: view_writing(2) view_shutdownInLoop view_queueInLoop)

end

end
