(* ===== verification/Echo_Server.thy ===== *)
theory Echo_Server
  imports Output_Frame
begin

text \<open>
  The echo server (src/example/echo.cc, echo.h, EchoMain.cc) and the handlers of the ping-pong server
  (pingpong_server.cc), which do the same: user callbacks on top of \<^verbatim>\<open>TcpServer\<close> and \<^verbatim>\<open>TcpConnection\<close>. The
  callbacks are installed under the numbers 0 and 1. The \<^verbatim>\<open>Buffer *\<close> that the message callback gets is the
  connection's input buffer. Log lines have no effect on the state. The property composes the kernel's
  events, the dispatcher \<open>run_callback\<close>, the connection's handlers, both buffers and the user's code.
\<close>

section \<open>Model\<close>

definition EchoServer_new :: "(32 word \<Rightarrow> string) \<Rightarrow> kernel \<Rightarrow> ptr \<Rightarrow> sockaddr_in \<Rightarrow> 'z net_scheme \<Rightarrow> ptr \<times> 'z net_scheme" where
  "EchoServer_new ntop os l listenAddr w =
     (case TcpServer_new ntop os l listenAddr w of (s, w1) \<Rightarrow>
        (s, TcpServer_setMessageCallBack 1 s (TcpServer_setConnectionCallBack 0 s w1)))"

definition EchoServer_start :: "kernel \<Rightarrow> tid \<Rightarrow> ptr \<Rightarrow> 'z net_scheme \<Rightarrow> 'z net_scheme res" where
  "EchoServer_start os cur s w = TcpServer_start os cur s w"

definition EchoServer_onConnection :: "ptr \<Rightarrow> 'z net_scheme \<Rightarrow> 'z net_scheme res" where
  "EchoServer_onConnection c w = bindR (deref (conns w) c) (\<lambda>_. Inr w)"

definition EchoServer_onMessage :: "kernel \<Rightarrow> tid \<Rightarrow> ptr \<Rightarrow> timestamp \<Rightarrow> 'z net_scheme \<Rightarrow> 'z net_scheme res" where
  "EchoServer_onMessage os cur c time w =
     bindR (deref (conns w) c) (\<lambda>tc.
     bindR (retrieveAsString (tc_inputBuffer tc)) (\<lambda>(msg, buf).
     TcpConnection_send os cur c msg (upd_conn (\<lambda>tc. tc\<lparr>tc_inputBuffer := buf\<rparr>) c w)))"

text \<open>The callbacks of the ping-pong server, and its \<^verbatim>\<open>main\<close> with the arguments read, up to the call of \<^verbatim>\<open>loop()\<close>.\<close>

definition pingpong_onConnection :: "kernel \<Rightarrow> ptr \<Rightarrow> 'z net_scheme \<Rightarrow> 'z net_scheme res" where
  "pingpong_onConnection os c w = TcpConnection_setTcpNoDelay os c True w"

definition pingpong_onMessage :: "kernel \<Rightarrow> tid \<Rightarrow> ptr \<Rightarrow> timestamp \<Rightarrow> 'z net_scheme \<Rightarrow> 'z net_scheme res" where
  "pingpong_onMessage os cur c time w =
     bindR (deref (conns w) c) (\<lambda>tc.
     bindR (retrieveAsString (tc_inputBuffer tc)) (\<lambda>(msg, buf).
     TcpConnection_send os cur c msg (upd_conn (\<lambda>tc. tc\<lparr>tc_inputBuffer := buf\<rparr>) c w)))"

definition pingpong_server_main ::
    "(32 word \<Rightarrow> string) \<Rightarrow> (string \<Rightarrow> 32 word option) \<Rightarrow> kernel \<Rightarrow> tid \<Rightarrow> string \<Rightarrow> int \<Rightarrow> int \<Rightarrow> 'z net_scheme \<Rightarrow> (ptr \<times> 'z net_scheme) res" where
  "pingpong_server_main ntop pton os cur ip port threadCount w =
     bindR (EventLoop_new os cur w) (\<lambda>(l, w1).
     case TcpServer_new ntop os l (InetAddress_ip pton ip (word_of_int port)) w1 of (s, w2) \<Rightarrow>
     let w3 = TcpServer_setMessageCallBack 1 s (TcpServer_setConnectionCallBack 0 s w2) in
     bindR (if threadCount > 1 then TcpServer_setThreadNum threadCount s w3 else Inr w3) (\<lambda>w4.
     bindR (TcpServer_start os cur s w4) (\<lambda>w5. Inr (l, w5))))"

text \<open>What is shown of the echo server's messages holds of the ping-pong server's.\<close>

lemma pingpong_onMessage_eq: "pingpong_onMessage = EchoServer_onMessage"
  by (intro ext) (simp add: pingpong_onMessage_def EchoServer_onMessage_def)

definition echo_callbacks :: "(rat \<Rightarrow> rat) \<Rightarrow> kernel \<Rightarrow> tid \<Rightarrow> 'z net_scheme callbacks" where
  "echo_callbacks rnd os cur = \<lparr>on_connection = (\<lambda>_ c. EchoServer_onConnection c),
     on_message = (\<lambda>_ c t. EchoServer_onMessage os cur c t), on_write_complete = (\<lambda>_ _ _. Inl BadFunctionCall),
     on_close = close_dispatch rnd os cur\<rparr>"

definition pingpong_server_callbacks :: "(rat \<Rightarrow> rat) \<Rightarrow> kernel \<Rightarrow> tid \<Rightarrow> 'z net_scheme callbacks" where
  "pingpong_server_callbacks rnd os cur = \<lparr>on_connection = (\<lambda>_ c. pingpong_onConnection os c),
     on_message = (\<lambda>_ c t. pingpong_onMessage os cur c t), on_write_complete = (\<lambda>_ _ _. Inl BadFunctionCall),
     on_close = close_dispatch rnd os cur\<rparr>"

text \<open>\<^verbatim>\<open>main\<close> up to the call of \<^verbatim>\<open>loop()\<close>; the port is 9981.\<close>

definition echo_main :: "(32 word \<Rightarrow> string) \<Rightarrow> kernel \<Rightarrow> tid \<Rightarrow> 'z net_scheme \<Rightarrow> (ptr \<times> 'z net_scheme) res" where
  "echo_main ntop os cur w =
     bindR (EventLoop_new os cur w) (\<lambda>(l, w1).
     case EchoServer_new ntop os l (InetAddress_port 9981) w1 of (s, w2) \<Rightarrow>
     bindR (EchoServer_start os cur s w2) (\<lambda>w3. Inr (l, w3)))"

text \<open>The events a connection gets from its channel.\<close>

datatype conn_event = Readable timestamp | Writable

definition echo_event ::
    "sockaddr_in \<Rightarrow> (32 word \<Rightarrow> string) \<Rightarrow> (rat \<Rightarrow> rat) \<Rightarrow> kernel \<Rightarrow> tid \<Rightarrow> ptr \<Rightarrow> conn_event \<Rightarrow> 'z net_scheme \<Rightarrow> 'z net_scheme res" where
  "echo_event garbage ntop rnd os cur c e w =
     (let run = run_callback garbage ntop rnd (echo_callbacks rnd os cur) (\<lambda>_. Inr) os cur in
      case e of
        Readable t \<Rightarrow> run t (TcpConnection_handleRead_cb c) w
      | Writable \<Rightarrow> run Timestamp_new (TcpConnection_handleWrite_cb c) w)"

section \<open>Received bytes\<close>

fun delivered :: "int \<Rightarrow> syscall \<times> sysres \<Rightarrow> byte list" where
  "delivered fd (Sys_readv fd' n, r) = (if fd' = fd \<and> 0 < sr_ret r then sr_data r else [])"
| "delivered fd (c, r) = []"

definition received :: "int \<Rightarrow> history \<Rightarrow> byte list" where
  "received fd h = concat (map (delivered fd) h)"

lemma received_append [simp]: "received fd (h @ h') = received fd h @ received fd h'"
  by (simp add: received_def)

lemma received_Cons [simp]: "received fd (x # h) = delivered fd x @ received fd h" "received fd [] = []"
  by (simp_all add: received_def)

text \<open>The number of reads that delivered something.\<close>

definition reads_of :: "int \<Rightarrow> history \<Rightarrow> nat" where
  "reads_of fd h = length (filter (\<lambda>x. delivered fd x \<noteq> []) h)"

lemma reads_of_simps [simp]:
  "reads_of fd (h @ h') = reads_of fd h + reads_of fd h'" "reads_of fd [] = 0"
  "reads_of fd (x # h) = (if delivered fd x \<noteq> [] then 1 else 0) + reads_of fd h"
  by (simp_all add: reads_of_def)

text \<open>What output operations leave alone.\<close>

definition in_view :: "ptr \<Rightarrow> 'z net_scheme \<Rightarrow> (Buffer \<times> nat option \<times> ptr \<times> int) option" where
  "in_view c w = map_option (\<lambda>tc. (tc_inputBuffer tc, tc_messageCallback tc, tc_channel tc, tc_sockfd tc)) (conns w c)"

definition in_frame :: "ptr \<Rightarrow> 'z net_scheme \<Rightarrow> 'z net_scheme \<Rightarrow> bool" where
  "in_frame c w w' \<longleftrightarrow> in_view c w' = in_view c w \<and> (\<forall>fd. received fd (trace w') = received fd (trace w))"

lemma in_frame_refl [simp]: "in_frame c w w"
  by (simp add: in_frame_def)

lemma in_frame_trans: "in_frame c w w1 \<Longrightarrow> in_frame c w1 w2 \<Longrightarrow> in_frame c w w2"
  by (simp add: in_frame_def)

lemma delivered_output: "output_call k \<Longrightarrow> delivered fd (k, r) = []"
  by (cases k) simp_all

text \<open>These are views that the output operations leave alone.\<close>

interpretation inputs: output_view "in_view c" for c
  by unfold_locales (simp_all add: in_view_def upd_def option.map_comp comp_def)

interpretation reads: output_view "\<lambda>w. received fd (trace w)" for fd
  by unfold_locales (simp_all add: delivered_output)

interpretation read_count: output_view "\<lambda>w. reads_of fd (trace w)" for fd
  by unfold_locales (simp_all add: delivered_output)

lemma send_frame: "TcpConnection_send os cur c m w = Inr w' \<Longrightarrow> in_frame c w w'"
  by (simp add: in_frame_def inputs.view_send reads.view_send)

lemma handleWrite_frame: "TcpConnection_handleWrite os cur c w = Inr w' \<Longrightarrow> in_frame c w w'"
  by (simp add: in_frame_def inputs.view_handleWrite reads.view_handleWrite)

section \<open>Echoing\<close>

text \<open>
  A kernel whose \<^verbatim>\<open>readv\<close> delivers as many bytes as it reports, at most \<open>k\<close> at a time, and does not report
  the end of the stream.
\<close>

definition read_ok :: "nat \<Rightarrow> kernel \<Rightarrow> bool" where
  "read_ok k os \<longleftrightarrow> (\<forall>h fd n. let r = os h (Sys_readv fd n) in
     sr_ret r \<noteq> 0 \<and> (0 \<le> sr_ret r \<longrightarrow> length (sr_data r) = nat (sr_ret r)) \<and> length (sr_data r) \<le> k)"

text \<open>
  An echoing connection: open, its message callback installed, nothing left in the input buffer, room
  for \<open>m\<close> more bytes in both buffers, and \<open>pre\<close> and then everything received has been handed to the output.
\<close>

definition echoing :: "tid \<Rightarrow> ptr \<Rightarrow> byte list \<Rightarrow> nat \<Rightarrow> 'z net_scheme \<Rightarrow> bool" where
  "echoing cur c pre m w \<longleftrightarrow> run_inv cur c kConnected w \<and> live m c w \<and>
     (\<exists>tc. conns w c = Some tc \<and> tc_messageCallback tc \<noteq> None \<and> Buffer_inv (tc_inputBuffer tc) \<and>
        Buffer_content (tc_inputBuffer tc) = [] \<and> Buffer_room m (tc_inputBuffer tc) \<and>
        conn_stream c w = pre @ received (tc_sockfd tc) (trace w))"

definition with_input :: "ptr \<Rightarrow> Buffer \<Rightarrow> 'z net_scheme \<Rightarrow> 'z net_scheme" where
  "with_input c b w = upd_conn (\<lambda>tc. tc\<lparr>tc_inputBuffer := b\<rparr>) c w"

lemma with_input_simps [simp]:
  "conns (with_input c b w) c = map_option (\<lambda>tc. tc\<lparr>tc_inputBuffer := b\<rparr>) (conns w c)"
  "chans (with_input c b w) = chans w" "loops (with_input c b w) = loops w" "trace (with_input c b w) = trace w"
  "epoll_inv (with_input c b w) = epoll_inv w"
  "loop_view l (with_input c b w) = loop_view l w" "chan_ev p (with_input c b w) = chan_ev p w"
  by (simp_all add: with_input_def upd_def epoll_inv_def ep_lookup_def chan_reg_def)

lemma run_inv_with_input: "run_inv cur c st w \<Longrightarrow> run_inv cur c st (with_input c b w)"
  by (auto simp: run_inv_def conn_ok_def)

text \<open>System calls that neither read, write nor shut the connection.\<close>

definition quiet_calls :: "history \<Rightarrow> bool" where
  "quiet_calls h \<longleftrightarrow> (\<forall>fd. written fd h = [] \<and> \<not> was_shut fd h)"

lemma quiet_trace:
  assumes "quiet_calls h"
  shows "run_inv cur c st w \<Longrightarrow> run_inv cur c st (w\<lparr>trace := trace w @ h\<rparr>)"
    and "live m c w \<Longrightarrow> live m c (w\<lparr>trace := trace w @ h\<rparr>)"
    and "conn_stream c (w\<lparr>trace := trace w @ h\<rparr>) = conn_stream c w"
proof -
  show "run_inv cur c st (w\<lparr>trace := trace w @ h\<rparr>)" if "run_inv cur c st w"
    using that assms by (auto simp: run_inv_def conn_ok_def quiet_calls_def)
  show "live m c (w\<lparr>trace := trace w @ h\<rparr>)" if "live m c w" using that by (auto simp: live_def)
  show "conn_stream c (w\<lparr>trace := trace w @ h\<rparr>) = conn_stream c w"
    using assms by (cases "conns w c") (simp_all add: conn_stream_def quiet_calls_def)
qed

lemma quiet_readv [simp]: "quiet_calls [(Sys_readv fd n, r)]"
  by (simp add: quiet_calls_def)

lemma live_with_input: "live m c w \<Longrightarrow> live m c (with_input c b w)"
  by (auto simp: live_def)

lemma conn_stream_with_input [simp]: "conn_stream c (with_input c b w) = conn_stream c w"
  by (simp add: conn_stream_def split: option.split)

lemma live_room: "live (k + m) c w \<Longrightarrow> live m c w"
  by (auto simp: live_def Buffer_room_def)

text \<open>The state in which a message callback that has taken \<open>d\<close> out of the input buffer sends it.\<close>

definition ready_to_send :: "tid \<Rightarrow> ptr \<Rightarrow> byte list \<Rightarrow> nat \<Rightarrow> byte list \<Rightarrow> 'z net_scheme \<Rightarrow> bool" where
  "ready_to_send cur c pre m d w \<longleftrightarrow> run_inv cur c kConnected w \<and> live (length d + m) c w \<and> length d \<le> vector_max \<and>
     (\<exists>tc. conns w c = Some tc \<and> tc_messageCallback tc \<noteq> None \<and> Buffer_inv (tc_inputBuffer tc) \<and>
        Buffer_content (tc_inputBuffer tc) = [] \<and> Buffer_room m (tc_inputBuffer tc) \<and>
        conn_stream c w @ d = pre @ received (tc_sockfd tc) (trace w))"

lemma echoing_send:
  assumes "ready_to_send cur c pre m d w"
  shows "\<exists>w'. TcpConnection_send os cur c d w = Inr w' \<and> echoing cur c pre m w'"
proof -
  obtain tc where inv: "run_inv cur c kConnected w" "live (length d + m) c w" "length d \<le> vector_max"
    and tc: "conns w c = Some tc" "tc_messageCallback tc \<noteq> None" "Buffer_inv (tc_inputBuffer tc)"
      "Buffer_content (tc_inputBuffer tc) = []" "Buffer_room m (tc_inputBuffer tc)"
    and stream: "conn_stream c w @ d = pre @ received (tc_sockfd tc) (trace w)"
    using assms by (auto simp: ready_to_send_def)
  obtain w' where w': "TcpConnection_send os cur c d w = Inr w'" "live m c w'"
    by (rule send_total [OF inv])
  note s = run_send [OF inv(1) w'(1) inv(3)] and f = send_frame [OF w'(1)]
  obtain tc' where tc': "conns w' c = Some tc'" "tc_inputBuffer tc' = tc_inputBuffer tc"
    "tc_messageCallback tc' = tc_messageCallback tc" "tc_sockfd tc' = tc_sockfd tc"
    using f tc(1) by (auto simp: in_frame_def in_view_def)
  have "conn_stream c w' = pre @ received (tc_sockfd tc') (trace w')" using s f stream tc'(4) by (simp add: in_frame_def)
  then have "echoing cur c pre m w'" unfolding echoing_def using s w'(2) tc' tc by auto
  with w'(1) show ?thesis by blast
qed

text \<open>
  A readable event, for any message callback: either nothing was read, or the callback is called in a
  state \<open>w2\<close> whose input buffer holds the new bytes, and is ready to send them once it has taken them out.
\<close>

lemma readable_cases:
  assumes echo: "echoing cur c pre (k + m) w" and read: "read_ok k os" and k: "k \<le> vector_max"
  obtains
    (idle) b h w' where "\<And>ub t. TcpConnection_handleRead ub os cur c t w = Inr w'" "w' = with_input c b (w\<lparr>trace := h\<rparr>)"
      "echoing cur c pre m w'" "\<And>fd. received fd h = received fd (trace w)" "\<And>fd. reads_of fd h = reads_of fd (trace w)"
  | (message) tc f d b b' h w' where
      "\<And>ub t. TcpConnection_handleRead ub os cur c t w = on_message ub f c t w'" "w' = with_input c b (w\<lparr>trace := h\<rparr>)"
      "conns w' c = Some tc" "tc_messageCallback tc = Some f" "retrieveAsString (tc_inputBuffer tc) = Inr (d, b')"
      "readableBytes (tc_inputBuffer tc) = length d" "ready_to_send cur c pre m d (with_input c b' w')"
      "received (tc_sockfd tc) h = received (tc_sockfd tc) (trace w) @ d"
      "reads_of (tc_sockfd tc) h = reads_of (tc_sockfd tc) (trace w) + 1"
proof -
  obtain tc where inv: "run_inv cur c kConnected w" "live (k + m) c w" and tc: "conns w c = Some tc" "tc_messageCallback tc \<noteq> None"
      "Buffer_inv (tc_inputBuffer tc)" "Buffer_content (tc_inputBuffer tc) = []" "Buffer_room (k + m) (tc_inputBuffer tc)"
    and stream: "conn_stream c w = pre @ received (tc_sockfd tc) (trace w)"
    using echo by (auto simp: echoing_def)
  obtain ch where ch: "chans w (tc_channel tc) = Some ch" "ch_fd ch = tc_sockfd tc"
    using inv(1) tc(1) by (auto simp: run_inv_def conn_ok_def chan_ev_Some)
  let ?call = "Sys_readv (tc_sockfd tc) (writableBytes (tc_inputBuffer tc) + extrabuf_size)"
  let ?r = "os (trace w) ?call" and ?w1 = "w\<lparr>trace := trace w @ [(?call, os (trace w) ?call)]\<rparr>"
  have r: "sr_ret ?r \<noteq> 0" "0 \<le> sr_ret ?r \<Longrightarrow> length (sr_data ?r) = nat (sr_ret ?r)" "length (sr_data ?r) \<le> k"
    using read by (simp_all add: read_ok_def Let_def)
  have inv1: "run_inv cur c kConnected ?w1" "live (k + m) c ?w1" "conn_stream c ?w1 = conn_stream c w"
    using quiet_trace [OF quiet_readv] inv by blast+
  show thesis
  proof (cases "0 < sr_ret ?r")
    case True
    let ?d = "sr_data ?r"
    have n: "sr_ret ?r = int (length ?d)" using r(2) True by simp
    then have nonempty: "?d \<noteq> []" using True by auto
    have "length (buffer (tc_inputBuffer tc)) + length ?d \<le> vector_max" using tc(5) r(3) by (simp add: Buffer_room_def)
    from readFd_ok [OF tc(3) this, of "sr_errno ?r"] n obtain b where
      b: "readFd (sr_ret ?r) (sr_errno ?r) ?d (tc_inputBuffer tc) = Inr (sr_ret ?r, None, b)" "Buffer_inv b"
        "Buffer_content b = ?d" "length (buffer b) \<le> length (buffer (tc_inputBuffer tc)) + length ?d"
      using tc(4) by auto
    obtain f where f: "tc_messageCallback tc = Some f" using tc(2) by auto
    let ?w2 = "with_input c b ?w1" and ?w3 = "with_input c (retrieveAll b) (with_input c b ?w1)"
    have "Buffer_room m (retrieveAll b)" using b(4) tc(5) r(3) by (simp add: Buffer_room_def retrieveAll_def)
    moreover have "live (length ?d + m) c ?w3"
    proof -
      have "live ((k - length ?d) + (length ?d + m)) c ?w3" using inv1(2) r(3) by (intro live_with_input) simp
      then show ?thesis by (rule live_room)
    qed
    moreover have "run_inv cur c kConnected ?w3" by (intro run_inv_with_input inv1)
    moreover have "conn_stream c ?w3 @ ?d = pre @ received (tc_sockfd tc) (trace ?w3)" using stream inv1(3) True by simp
    moreover have "length ?d \<le> vector_max" using r(3) k by simp
    ultimately have "ready_to_send cur c pre m ?d ?w3"
      unfolding ready_to_send_def using tc b(2) retrieveAll_ok [OF b(2)] by simp
    then show thesis
      by (intro message [of f ?w2 b _ "tc\<lparr>tc_inputBuffer := b\<rparr>" ?d "retrieveAll b"])
        (use tc(1) ch b f True nonempty in \<open>auto simp: TcpConnection_handleRead_def Let_def call_fun_def with_input_def
          retrieveAsString_ok simp flip: length_Buffer_content\<close>)
  next
    case False
    then have neg: "sr_ret ?r < 0" using r(1) by simp
    let ?w2 = "with_input c (tc_inputBuffer tc) ?w1"
    let ?q = "[(Sys_getsockopt_error (tc_sockfd tc), os (trace ?w2) (Sys_getsockopt_error (tc_sockfd tc)))]"
    let ?w3 = "?w2\<lparr>trace := trace ?w2 @ ?q\<rparr>"
    have q: "quiet_calls ?q" by (simp add: quiet_calls_def)
    have run: "TcpConnection_handleRead ub os cur c t w = Inr ?w3" for ub t
      using tc(1) ch neg readFd_error [OF neg]
      by (simp add: TcpConnection_handleRead_def Let_def TcpConnection_handleError_def with_input_def getSocketError_def)
    have "run_inv cur c kConnected ?w3" by (intro quiet_trace(1) [OF q] run_inv_with_input inv1)
    moreover have "live m c ?w3" by (intro quiet_trace(2) [OF q] live_with_input live_room [OF inv1(2)])
    moreover have "conn_stream c ?w3 = pre @ received (tc_sockfd tc) (trace ?w3)"
      using quiet_trace(3) [OF q, of c ?w2] inv1(3) stream neg by simp
    moreover have "conns ?w3 c = Some tc" using tc(1) by simp
    moreover have "Buffer_room m (tc_inputBuffer tc)" using tc(5) by (simp add: Buffer_room_def)
    ultimately have e: "echoing cur c pre m ?w3" unfolding echoing_def using tc by blast
    have w3: "?w3 = with_input c (tc_inputBuffer tc) (w\<lparr>trace := trace ?w3\<rparr>)" by (simp add: with_input_def upd_conn_def)
    have "received fd (trace ?w3) = received fd (trace w)" "reads_of fd (trace ?w3) = reads_of fd (trace w)" for fd
      using neg by simp_all
    then show thesis by (rule idle [OF run w3 e])
  qed
qed

text \<open>Nothing that concerns connections depends on what programs keep for themselves.\<close>

definition same_reactor :: "'z net_scheme \<Rightarrow> 'z net_scheme \<Rightarrow> bool" where
  "same_reactor w w' \<longleftrightarrow> conns w' = conns w \<and> chans w' = chans w \<and> loops w' = loops w \<and> trace w' = trace w"

lemma same_reactor_views:
  assumes "same_reactor w w'"
  shows "loop_view l w' = loop_view l w" "chan_ev p w' = chan_ev p w" "epoll_inv w' = epoll_inv w" "conn_stream c w' = conn_stream c w"
  using assms
  by (simp_all add: same_reactor_def loop_view_def chan_ev_def epoll_inv_def ep_lookup_def chan_reg_def conn_stream_def
      split: option.split)

lemma same_reactor_invs:
  assumes "same_reactor w w'"
  shows "run_inv cur c st w' = run_inv cur c st w" "live k c w' = live k c w"
    "echoing cur c pre m w' = echoing cur c pre m w" "ready_to_send cur c pre m d w' = ready_to_send cur c pre m d w"
proof -
  note v = same_reactor_views [OF assms]
  have f: "conns w' = conns w" "chans w' = chans w" "trace w' = trace w" using assms by (simp_all add: same_reactor_def)
  have "conn_ok c w' = conn_ok c w" by (simp add: conn_ok_def v f)
  then show r: "run_inv cur c st w' = run_inv cur c st w" for st by (simp add: run_inv_def v f)
  show l: "live k c w' = live k c w" for k by (simp add: live_def v f)
  show "echoing cur c pre m w' = echoing cur c pre m w" "ready_to_send cur c pre m d w' = ready_to_send cur c pre m d w"
    by (simp_all add: echoing_def ready_to_send_def r l v f)
qed

lemma message_readable:
  assumes "echoing cur c pre (k + m) w" and "read_ok k os" and "k \<le> vector_max"
    and msg: "\<And>f. on_message ub f c t = EchoServer_onMessage os cur c t"
  shows "\<exists>w'. TcpConnection_handleRead ub os cur c t w = Inr w' \<and> echoing cur c pre m w'"
  using assms(1-3)
proof (cases rule: readable_cases)
  case (message tc f d b b' h w')
  then show ?thesis using echoing_send [OF message(7)]
    by (auto simp: msg EchoServer_onMessage_def with_input_def)
qed auto

lemma echo_readable:
  assumes "echoing cur c pre (k + m) w" and "read_ok k os" and "k \<le> vector_max"
  shows "\<exists>w'. TcpConnection_handleRead (echo_callbacks rnd os cur) os cur c t w = Inr w' \<and> echoing cur c pre m w'"
  by (rule message_readable [OF assms]) (simp add: echo_callbacks_def)

lemma echo_writable:
  assumes echo: "echoing cur c pre (k + m) w" and "write_ok os"
  shows "\<exists>w'. TcpConnection_handleWrite os cur c w = Inr w' \<and> echoing cur c pre m w'"
proof -
  obtain tc where inv: "run_inv cur c kConnected w" "live (k + m) c w" and tc: "conns w c = Some tc" "tc_messageCallback tc \<noteq> None"
      "Buffer_inv (tc_inputBuffer tc)" "Buffer_content (tc_inputBuffer tc) = []" "Buffer_room (k + m) (tc_inputBuffer tc)"
    and stream: "conn_stream c w = pre @ received (tc_sockfd tc) (trace w)"
    using echo by (auto simp: echoing_def)
  obtain w' where w': "TcpConnection_handleWrite os cur c w = Inr w'" "live (k + m) c w'"
    by (rule handleWrite_total [OF inv assms(2)])
  note s = run_writable [OF inv(1) assms(2) w'(1)]
  have f: "in_frame c w w'" by (rule handleWrite_frame [OF w'(1)])
  obtain tc' where tc': "conns w' c = Some tc'" "tc_inputBuffer tc' = tc_inputBuffer tc"
    "tc_messageCallback tc' = tc_messageCallback tc" "tc_sockfd tc' = tc_sockfd tc"
    using f tc(1) by (auto simp: in_frame_def in_view_def)
  have "conn_stream c w' = pre @ received (tc_sockfd tc') (trace w')" using s f stream tc'(4) by (simp add: in_frame_def)
  moreover have "Buffer_room m (tc_inputBuffer tc')" using tc(5) tc'(2) by (simp add: Buffer_room_def)
  ultimately have "echoing cur c pre m w'" unfolding echoing_def using s live_room [OF w'(2)] tc' tc by auto
  with w'(1) show ?thesis by blast
qed

lemma echo_run:
  assumes "echoing cur c pre (length es * k + m) w" and "read_ok k os" and "write_ok os" and "k \<le> vector_max"
  shows "\<exists>w'. foldR (echo_event garbage ntop rnd os cur c) es w = Inr w' \<and> echoing cur c pre m w'"
  using assms(1)
proof (induction es arbitrary: w)
  case (Cons e es)
  have w: "echoing cur c pre (k + (length es * k + m)) w" using Cons.prems by (simp add: add.assoc)
  have "\<exists>w1. echo_event garbage ntop rnd os cur c e w = Inr w1 \<and> echoing cur c pre (length es * k + m) w1"
  proof (cases e)
    case (Readable t)
    with echo_readable [OF w assms(2,4)] show ?thesis by (simp add: echo_event_def run_callback_def Let_def)
  next
    case Writable
    with echo_writable [OF w assms(3)] show ?thesis by (simp add: echo_event_def run_callback_def Let_def)
  qed
  then show ?case using Cons.IH by auto
qed simp

section \<open>Properties\<close>

text \<open>The echo server sends back what it receives: for every kernel, and every sequence of readability and
  writability events on an established connection that fits its buffers, the program's dispatcher and
  the handlers never fail, and at each point the bytes written to the socket followed by those waiting in
  the output buffer are exactly the bytes received, in order; nothing stays in the input buffer. The
  kernel may deliver and take any number of bytes at a time, or fail; it reports no more than it was
  given and does not close the connection.\<close>

theorem echo_sends_back:
  assumes "run_inv cur c kConnected w" and "live (length es * k) c w"
    and tc: "conns w c = Some tc" "tc_messageCallback tc \<noteq> None" "Buffer_inv (tc_inputBuffer tc)"
      "Buffer_content (tc_inputBuffer tc) = []" "Buffer_room (length es * k) (tc_inputBuffer tc)"
    and start: "conn_stream c w = received (tc_sockfd tc) (trace w)"
    and os: "read_ok k os" "write_ok os" and k: "k \<le> vector_max"
  shows "\<exists>w' tc'. foldR (echo_event garbage ntop rnd os cur c) es w = Inr w' \<and> conns w' c = Some tc' \<and>
    written (tc_sockfd tc') (trace w') @ Buffer_content (tc_outputBuffer tc') = received (tc_sockfd tc') (trace w') \<and>
    Buffer_content (tc_inputBuffer tc') = []"
proof -
  have "echoing cur c [] (length es * k + 0) w" using assms(1-8) by (auto simp: echoing_def)
  from echo_run [OF this os k] obtain w' where
    w': "foldR (echo_event garbage ntop rnd os cur c) es w = Inr w'" "echoing cur c [] 0 w'" by blast
  then obtain tc' where "conns w' c = Some tc'" "Buffer_content (tc_inputBuffer tc') = []"
    "conn_stream c w' = received (tc_sockfd tc') (trace w')" by (auto simp: echoing_def)
  with w'(1) conn_stream_eq [of w' c tc'] show ?thesis by auto
qed

text \<open>Each read delivers three bytes, each write takes two.\<close>

definition echo_kernel :: kernel where
  "echo_kernel h c = (case c of
       Sys_readv _ _ \<Rightarrow> (answer 3 [])\<lparr>sr_data := ''abc''\<rparr>
     | Sys_write _ d \<Rightarrow> answer (if length d > 2 then 2 else int (length d)) []
     | _ \<Rightarrow> answer 0 [])"

theorem echo_sends_back_witness:
  "\<exists>w' tc'. foldR (echo_event no_addr (\<lambda>_. []) (\<lambda>x. x) echo_kernel 7 20) [Readable Timestamp_new, Writable, Readable Timestamp_new, Writable] conn_world = Inr w' \<and>
     conns w' 20 = Some tc' \<and>
     written (tc_sockfd tc') (trace w') @ Buffer_content (tc_outputBuffer tc') = received (tc_sockfd tc') (trace w')"
proof -
  let ?es = "[Readable Timestamp_new, Writable, Readable Timestamp_new, Writable]"
  have io: "read_ok 3 echo_kernel" "write_ok echo_kernel" by (simp_all add: read_ok_def write_ok_def echo_kernel_def answer_def)
  have live: "live (length ?es * 3) 20 conn_world" by (rule live_conn_world) simp
  have stream: "conn_stream 20 conn_world = received (tc_sockfd conn20) (trace conn_world)"
    by (simp add: conn_stream_def conn_world_simps) (simp add: conn20_def empty_buffer_ok)
  have tc: "tc_messageCallback conn20 \<noteq> None" "tc_inputBuffer conn20 = empty_buffer" by (simp_all add: conn20_def)
  have room: "Buffer_room (length ?es * 3) empty_buffer" by (simp add: Buffer_room_def empty_buffer_def vector_max_def)
  have k: "3 \<le> vector_max" by (simp add: vector_max_def)
  from echo_sends_back [OF run_inv_conn_world live conn_world_simps(1) tc(1) _ _ _ stream io k, unfolded tc(2),
      OF empty_buffer_ok room, of no_addr "\<lambda>_. []" "\<lambda>x. x"]
  show ?thesis by blast
qed

end
