(* ===== verification/Connection_Close.thy ===== *)
theory Connection_Close
  imports Echo_Server
begin

text \<open>
  The end of a server's connection, across \<^verbatim>\<open>Channel\<close>, \<^verbatim>\<open>TcpConnection\<close>, \<^verbatim>\<open>TcpServer\<close>, \<^verbatim>\<open>EventLoop\<close> and
  \<^verbatim>\<open>Epoller\<close>: the peer closes, the read handler sees the end of the stream, \<^verbatim>\<open>handleClose\<close> and
  \<^verbatim>\<open>removeConnection\<close> run, the queued \<^verbatim>\<open>connectDestoryed\<close> is executed by \<^verbatim>\<open>doPendingFunctions\<close>, and with
  the last \<^verbatim>\<open>shared_ptr\<close>, the one bound in that task, the connection is destroyed.
\<close>

section \<open>Totality\<close>

text \<open>A registered channel in its loop's thread: the conditions under which its operations succeed.\<close>

definition channel_live :: "tid \<Rightarrow> ptr \<Rightarrow> channel \<Rightarrow> eventLoop \<Rightarrow> 'z reactor_scheme \<Rightarrow> bool" where
  "channel_live cur p ch lp w \<longleftrightarrow> chans w p = Some ch \<and> loops w (ch_loop ch) = Some lp \<and> el_threadId lp = cur \<and>
     ch_registered ch \<and> ep_channels (el_epoller lp) (ch_fd ch) = Some p"

definition sys_after :: "kernel \<Rightarrow> syscall \<Rightarrow> 'z reactor_scheme \<Rightarrow> 'z reactor_scheme" where
  "sys_after os c w = w\<lparr>trace := trace w @ [(c, os (trace w) c)]\<rparr>"

lemma sys_after_simps [simp]:
  "chans (sys_after os c w) = chans w" "loops (sys_after os c w) = loops w" "timers (sys_after os c w) = timers w"
  "trace (sys_after os c w) = trace w @ [(c, os (trace w) c)]" "epoll_inv (sys_after os c w) = epoll_inv w"
  by (simp_all add: sys_after_def)

lemma sys_after_net [simp]: "conns (sys_after os c w) = conns w" "servers (sys_after os c w) = servers w"
  by (simp_all add: sys_after_def)

lemma disableAll_live:
  assumes "channel_live cur p ch lp w"
  shows "disableAll os cur p w = Inr (sys_after os (Sys_epoll_mod (ep_epfd (el_epoller lp)) (ch_fd ch) kNoneEvent)
    (upd_chan (set_events kNoneEvent) p w))"
proof -
  let ?ch = "set_events kNoneEvent ch" and ?w = "upd_chan (set_events kNoneEvent) p w"
  have "chans ?w p = Some ?ch" "loops ?w (ch_loop ?ch) = Some lp"
    using assms by (simp_all add: channel_live_def)
  then have "Channel_update os cur p ?w = Inr (after_update os p ?ch lp ?w)"
    using assms Channel_update_Inr_iff [of ?w p ?ch lp os cur "after_update os p ?ch lp ?w"] by (simp add: channel_live_def)
  then show ?thesis using assms by (simp add: disableAll_def channel_live_def after_update_def sys_after_def Let_def)
qed

lemma removeChannel_live:
  assumes "channel_live cur p ch lp w" and "ch_events ch = kNoneEvent"
  shows "EventLoop_removeChannel os cur (ch_loop ch) p w = Inr (after_remove os p ch lp w)"
  using assms
  by (simp add: EventLoop_removeChannel_def removeChannelMap_def assertInLoopThread_def epollDel_def
      isInLoopThread_def isNoneEvent_def after_remove_def Let_def channel_live_def)

lemma queueInLoop_live:
  assumes "loops w l = Some lp" and "el_threadId lp = cur"
  shows "queueInLoop os cur l f w = Inr (sys_after os (Sys_write (el_wakeupfd lp) one_bytes) (upd_loop (push_pending f) l w))"
  using queueInLoop_eq [OF assms(1), of os cur f] assms(2) by (simp add: Let_def sys_after_def)

section \<open>A served connection\<close>

text \<open>An open connection that the server has in its map, registered with the server's own loop.\<close>

definition served :: "tid \<Rightarrow> ptr \<Rightarrow> ptr \<Rightarrow> tcpServer \<Rightarrow> tcpConnection \<Rightarrow> channel \<Rightarrow> eventLoop \<Rightarrow> 'z net_scheme \<Rightarrow> bool" where
  "served cur s c sv tc ch lp w \<longleftrightarrow> servers w s = Some sv \<and> conns w c = Some tc \<and>
     sv_connections sv (tc_name tc) = Some c \<and> tc_loop tc = sv_loop sv \<and> (tc_state tc = kConnected \<or> tc_state tc = kDisconnecting) \<and>
     tc_closeCallback tc = Some (TcpServer_removeConnection_cb s) \<and>
     channel_live cur (tc_channel tc) ch lp w \<and> ch_loop ch = tc_loop tc \<and> ch_fd ch = tc_sockfd tc"

definition without :: "tcpConnection \<Rightarrow> tcpServer \<Rightarrow> tcpServer" where
  "without tc sv = sv\<lparr>sv_connections := (sv_connections sv)(tc_name tc := None)\<rparr>"

lemma without_fun: "without tc = (\<lambda>sv. sv\<lparr>sv_connections := (sv_connections sv)(tc_name tc := None)\<rparr>)"
  by (rule ext) (simp add: without_def)

text \<open>\<^verbatim>\<open>handleClose\<close> stops all events, takes the connection out of the map and queues its end.\<close>

lemma handleClose_served:
  assumes "served cur s c sv tc ch lp w"
  shows "\<exists>w'. TcpConnection_handleClose (echo_callbacks rnd os cur) os cur c w = Inr w' \<and>
    conns w' = conns w \<and> servers w' = (servers w)(s \<mapsto> without tc sv) \<and>
    chans w' = upd (set_events kNoneEvent) (tc_channel tc) (chans w) \<and>
    loops w' = (loops w)(tc_loop tc \<mapsto> push_pending (ConnectDestoryed c) lp)"
proof -
  let ?l = "tc_loop tc" and ?p = "tc_channel tc"
  have live: "channel_live cur ?p ch lp w" and lp: "loops w ?l = Some lp" "el_threadId lp = cur" "sv_loop sv = ?l"
    using assms by (auto simp: served_def channel_live_def)
  have thr: "assertInLoopThread cur ?l v = Inr ()" if "loops v ?l = Some lp" for v :: "'a net_scheme"
    using that lp by (simp add: assertInLoopThread_def isInLoopThread_def)
  let ?w1 = "sys_after os (Sys_epoll_mod (ep_epfd (el_epoller lp)) (ch_fd ch) kNoneEvent) (upd_chan (set_events kNoneEvent) ?p w)"
  let ?w2 = "upd_server (without tc) s ?w1"
  have l1: "loops ?w1 ?l = Some lp" "loops ?w2 ?l = Some lp" using lp by simp_all
  have "TcpConnection_handleClose (echo_callbacks rnd os cur) os cur c w = TcpServer_removeConnection os cur s c ?w1"
    using assms thr [OF lp(1)] disableAll_live [OF live]
    by (auto simp: TcpConnection_handleClose_def served_def call_fun_def echo_callbacks_def close_dispatch_def)
  also have "\<dots> = removeConnectionInLoop os cur s c ?w1"
    using assms lp l1(1) by (simp add: TcpServer_removeConnection_def served_def runInLoop_in_thread)
  also have "\<dots> = queueInLoop os cur ?l (ConnectDestoryed c) ?w2"
    using assms lp thr [OF l1(1)] by (simp add: removeConnectionInLoop_def served_def without_fun)
  finally show ?thesis
    using queueInLoop_live [OF l1(2) lp(2)] lp assms
    by (auto simp: served_def upd_def fun_eq_iff)
qed

text \<open>The loop's round of tasks ends the connection: \<^verbatim>\<open>connectDestoryed\<close> unregisters its channel.\<close>

lemma connectDestoryed_live:
  assumes tc: "conns w c = Some tc" "tc_state tc = kConnected \<or> tc_state tc = kDisconnecting" "tc_connectionCallback tc = Some n"
    and live: "channel_live cur (tc_channel tc) ch lp w" "ch_loop ch = tc_loop tc" "ch_fd ch = tc_sockfd tc" and os: "epoll_ctl_ok os"
  shows "\<exists>w'. connectDestoryed (echo_callbacks rnd os cur) os cur c w = Inr w' \<and>
    conns w' = (conns w)(c \<mapsto> setState kDisConnected tc) \<and> servers w' = servers w \<and>
    chans w' = (chans w)(tc_channel tc \<mapsto> set_registered False (set_events kNoneEvent ch)) \<and>
    loops w' = (loops w)(tc_loop tc \<mapsto> set_channel (tc_sockfd tc) None lp)"
proof -
  let ?p = "tc_channel tc" and ?w1 = "upd_conn (setState kDisConnected) c w"
  have thr: "assertInLoopThread cur (tc_loop tc) w = Inr ()"
    using live by (simp add: channel_live_def assertInLoopThread_def isInLoopThread_def)
  have live1: "channel_live cur ?p ch lp ?w1" using live(1) by (simp add: channel_live_def)
  note dis = disableAll_live [OF live1, of os]
  let ?w2 = "sys_after os (Sys_epoll_mod (ep_epfd (el_epoller lp)) (ch_fd ch) kNoneEvent) (upd_chan (set_events kNoneEvent) ?p ?w1)"
  have live2: "channel_live cur ?p (set_events kNoneEvent ch) lp ?w2"
    using live(1) by (simp add: channel_live_def)
  note rem = removeChannel_live [OF live2, of os]
  have cb: "EchoServer_onConnection c ?w2 = Inr ?w2" using tc(1) by (simp add: EchoServer_onConnection_def)
  have run: "connectDestoryed (echo_callbacks rnd os cur) os cur c w =
      Inr (after_remove os ?p (set_events kNoneEvent ch) lp ?w2)"
    using tc thr dis rem cb live(2) by (auto simp: connectDestoryed_def call_fun_def echo_callbacks_def)
  have "servers (after_remove os ?p (set_events kNoneEvent ch) lp ?w2) = servers w"
    by (simp add: after_remove_def Let_def upd_chan_def upd_loop_def)
  then show ?thesis
    unfolding run using os live tc(1)
    by (simp add: after_remove_def Let_def epoll_ctl_ok_def channel_live_def upd_def fun_eq_iff)
qed

lemma doPending_close:
  assumes tc: "conns w c = Some tc" "tc_state tc = kConnected \<or> tc_state tc = kDisconnecting" "tc_connectionCallback tc = Some n"
    and live: "channel_live cur (tc_channel tc) ch lp w" "ch_loop ch = tc_loop tc" "ch_fd ch = tc_sockfd tc" and os: "epoll_ctl_ok os"
    and pending: "el_pending lp = [ConnectDestoryed c]"
  shows "\<exists>w'. doPendingFunctions (run_task rnd (echo_callbacks rnd os cur) (\<lambda>_. Inr) os cur) (tc_loop tc) w = Inr w' \<and>
    conns w' = (conns w)(c \<mapsto> setState kDisConnected tc) \<and> servers w' = servers w \<and>
    chans w' = (chans w)(tc_channel tc \<mapsto> set_registered False (set_events kNoneEvent ch)) \<and>
    loops w' = (loops w)(tc_loop tc \<mapsto> end_calling (set_channel (tc_sockfd tc) None (swap_pending lp)))"
proof -
  let ?l = "tc_loop tc" and ?w1 = "upd_loop swap_pending (tc_loop tc) w"
  have lp: "loops w ?l = Some lp" using live by (simp add: channel_live_def)
  have live1: "channel_live cur (tc_channel tc) ch (swap_pending lp) ?w1"
    using live by (auto simp: channel_live_def)
  have tc1: "conns ?w1 c = Some tc" using tc(1) by simp
  obtain w2 where w2: "connectDestoryed (echo_callbacks rnd os cur) os cur c ?w1 = Inr w2"
    "conns w2 = (conns ?w1)(c \<mapsto> setState kDisConnected tc)" "servers w2 = servers ?w1"
    "chans w2 = (chans ?w1)(tc_channel tc \<mapsto> set_registered False (set_events kNoneEvent ch))"
    "loops w2 = (loops ?w1)(?l \<mapsto> set_channel (tc_sockfd tc) None (swap_pending lp))"
    using connectDestoryed_live [OF tc1 tc(2,3) live1 live(2,3) os, of rnd] by blast
  have "doPendingFunctions (run_task rnd (echo_callbacks rnd os cur) (\<lambda>_. Inr) os cur) ?l w = Inr (upd_loop end_calling ?l w2)"
    using lp pending w2(1,5) by (simp add: doPendingFunctions_def run_task_def)
  then show ?thesis using w2(2-5) lp by (auto simp: upd_loop_def upd_def fun_eq_iff)
qed

section \<open>The event that closes\<close>

lemma has_flag_read: "has_flag ev EPOLLIN \<Longrightarrow> has_flag ev (EPOLLIN OR EPOLLPRI OR EPOLLRDHUP)"
proof -
  have "ev AND EPOLLIN = (ev AND (EPOLLIN OR EPOLLPRI OR EPOLLRDHUP)) AND EPOLLIN"
    by (rule bit_eqI) (auto simp: bit_and_iff bit_or_iff)
  then show "has_flag ev EPOLLIN \<Longrightarrow> has_flag ev (EPOLLIN OR EPOLLPRI OR EPOLLRDHUP)"
    unfolding has_flag_def by (metis and_zero_eq and.commute)
qed

definition run_echo ::
    "sockaddr_in \<Rightarrow> (32 word \<Rightarrow> string) \<Rightarrow> (rat \<Rightarrow> rat) \<Rightarrow> kernel \<Rightarrow> tid \<Rightarrow> timestamp \<Rightarrow> callback \<Rightarrow> 'z net_scheme \<Rightarrow> 'z net_scheme res" where
  "run_echo garbage ntop rnd os cur = run_callback garbage ntop rnd (echo_callbacks rnd os cur) (\<lambda>_. Inr) os cur"

definition peer_closed :: "kernel \<Rightarrow> tcpConnection \<Rightarrow> 'z net_scheme \<Rightarrow> bool" where
  "peer_closed os tc w \<longleftrightarrow> (let r = os (trace w) (Sys_readv (tc_sockfd tc) (writableBytes (tc_inputBuffer tc) + extrabuf_size)) in
     sr_ret r = 0 \<and> sr_data r = [])"

lemma readFd_eof:
  assumes "Buffer_inv b"
  obtains b' where "readFd 0 e [] b = Inr (0, None, b')" "Buffer_inv b'" "Buffer_content b' = Buffer_content b"
  using readFd_ok [OF assms, of "[]" e] assms by (auto simp: Buffer_inv_def)

lemma handleRead_closed:
  assumes sv: "served cur s c sv tc ch lp w" and eof: "peer_closed os tc w"
    and buf: "Buffer_inv (tc_inputBuffer tc)"
  shows "\<exists>w' b. TcpConnection_handleRead (echo_callbacks rnd os cur) os cur c t w = Inr w' \<and>
    conns w' = (conns w)(c \<mapsto> tc\<lparr>tc_inputBuffer := b\<rparr>) \<and> servers w' = (servers w)(s \<mapsto> without tc sv) \<and>
    chans w' = upd (set_events kNoneEvent) (tc_channel tc) (chans w) \<and>
    loops w' = (loops w)(tc_loop tc \<mapsto> push_pending (ConnectDestoryed c) lp)"
proof -
  let ?call = "Sys_readv (tc_sockfd tc) (writableBytes (tc_inputBuffer tc) + extrabuf_size)"
  obtain b where b: "readFd 0 (sr_errno (os (trace w) ?call)) [] (tc_inputBuffer tc) = Inr (0, None, b)"
    using readFd_eof [OF buf] by blast
  let ?w2 = "with_input c b (sys_after os ?call w)"
  have tc: "conns w c = Some tc" "chans w (tc_channel tc) = Some ch" "ch_fd ch = tc_sockfd tc"
    using sv by (auto simp: served_def channel_live_def)
  have run: "TcpConnection_handleRead (echo_callbacks rnd os cur) os cur c t w =
      TcpConnection_handleClose (echo_callbacks rnd os cur) os cur c ?w2"
    using tc b eof
    by (auto simp: TcpConnection_handleRead_def Let_def peer_closed_def with_input_def sys_after_def)
  have "served cur s c sv (tc\<lparr>tc_inputBuffer := b\<rparr>) ch lp ?w2"
    using sv by (auto simp: served_def channel_live_def with_input_def)
  from handleClose_served [OF this, of rnd os] show ?thesis
    unfolding run using tc(1) by (auto simp: with_input_def upd_def without_def fun_eq_iff intro!: exI [of _ b])
qed

text \<open>Writability reported together with the end of the stream is ignored, as the channel asks for nothing.\<close>

lemma handleWrite_after_close:
  assumes "conns w c = Some tc" and "loops w (tc_loop tc) = Some lp" "el_threadId lp = cur"
    and "chans w (tc_channel tc) = Some ch" "ch_events ch = kNoneEvent"
  shows "TcpConnection_handleWrite os cur c w = Inr w"
  using assms writing_flag(3)
  by (simp add: TcpConnection_handleWrite_def assertInLoopThread_def isInLoopThread_def isWriting_def)

lemma set_handling_simps [simp]:
  "ch_fd (set_handling v ch) = ch_fd ch" "ch_loop (set_handling v ch) = ch_loop ch" "ch_registered (set_handling v ch) = ch_registered ch"
  "ch_events (set_handling v ch) = ch_events ch" "ch_revents (set_handling v ch) = ch_revents ch" "ch_eventHandling (set_handling v ch) = v"
  "ch_readCallback (set_handling v ch) = ch_readCallback ch" "ch_writeCallback (set_handling v ch) = ch_writeCallback ch"
  "ch_readCallback (set_events e ch) = ch_readCallback ch" "ch_writeCallback (set_events e ch) = ch_writeCallback ch"
  by (simp_all add: set_handling_def set_events_def)

lemma handleEvent_closed:
  assumes sv: "served cur s c sv tc ch lp w" and eof: "peer_closed os tc w"
    and buf: "Buffer_inv (tc_inputBuffer tc)"
    and ev: "has_flag (ch_revents ch) EPOLLIN" "\<not> has_flag (ch_revents ch) EPOLLERR"
    and cb: "ch_readCallback ch = Some (TcpConnection_handleRead_cb c)" "ch_writeCallback ch = Some (TcpConnection_handleWrite_cb c)"
  shows "\<exists>w' b ch'. Channel_handleEvent (run_echo garbage ntop rnd os cur) t (tc_channel tc) w = Inr w' \<and>
    conns w' = (conns w)(c \<mapsto> tc\<lparr>tc_inputBuffer := b\<rparr>) \<and> servers w' = (servers w)(s \<mapsto> without tc sv) \<and>
    chans w' = (chans w)(tc_channel tc \<mapsto> ch') \<and> ch' = set_handling False (set_events kNoneEvent (set_handling True ch)) \<and>
    loops w' = (loops w)(tc_loop tc \<mapsto> push_pending (ConnectDestoryed c) lp)"
proof -
  let ?p = "tc_channel tc" and ?ch = "set_handling True ch" and ?w1 = "upd_chan (set_handling True) (tc_channel tc) w"
  have ch: "chans w ?p = Some ch" using sv by (simp add: served_def channel_live_def)
  have sv1: "servers ?w1 = servers w" by (simp add: upd_chan_def)
  have "served cur s c sv tc ?ch lp ?w1" using sv sv1 by (auto simp: served_def channel_live_def)
  moreover have "peer_closed os tc ?w1" using eof by (simp add: peer_closed_def)
  ultimately obtain w2 b where w2: "TcpConnection_handleRead (echo_callbacks rnd os cur) os cur c t ?w1 = Inr w2"
    "conns w2 = (conns w)(c \<mapsto> tc\<lparr>tc_inputBuffer := b\<rparr>)" "servers w2 = (servers w)(s \<mapsto> without tc sv)"
    "chans w2 = upd (set_events kNoneEvent) ?p (upd (set_handling True) ?p (chans w))"
    "loops w2 = (loops w)(tc_loop tc \<mapsto> push_pending (ConnectDestoryed c) lp)"
    using handleRead_closed [of cur s c sv tc ?ch lp ?w1 os rnd t] buf sv1 by auto
  have p2: "chans w2 ?p = Some (set_events kNoneEvent ?ch)" using w2(4) ch by simp
  have wr: "TcpConnection_handleWrite os cur c w2 = Inr w2"
    by (rule handleWrite_after_close [of _ _ "tc\<lparr>tc_inputBuffer := b\<rparr>" "push_pending (ConnectDestoryed c) lp" _ "set_events kNoneEvent ?ch"])
      (use w2 p2 sv in \<open>auto simp: served_def channel_live_def\<close>)
  have "Channel_handleEvent (run_echo garbage ntop rnd os cur) t ?p w = Inr (upd_chan (set_handling False) ?p w2)"
    using ch ev cb w2(1) p2 wr has_flag_read [OF ev(1)]
    by (simp add: Channel_handleEvent_def Let_def fire_def run_echo_def run_callback_def)
  moreover have "servers (upd_chan (set_handling False) ?p w2) = servers w2" by (simp add: upd_chan_def)
  ultimately show ?thesis using w2 ch by (auto simp: upd_def fun_eq_iff intro!: exI [of _ b])
qed

section \<open>Property\<close>

text \<open>Unregistering keeps the agreement of the loop's map with the channels.\<close>

lemma epoll_inv_closed:
  assumes inv: "epoll_inv w" and live: "channel_live cur p ch lp w"
    and chans: "chans w' = (chans w)(p \<mapsto> ch')" "ch_fd ch' = ch_fd ch" "ch_loop ch' = ch_loop ch" "\<not> ch_registered ch'"
    and loops: "loops w' = (loops w)(ch_loop ch \<mapsto> lp')" "ep_channels (el_epoller lp') = (ep_channels (el_epoller lp))(ch_fd ch := None)"
  shows "epoll_inv w'"
proof -
  let ?v = "upd_chan (set_registered False) p (upd_loop (set_channel (ch_fd ch) None) (ch_loop ch) w)"
  have "epoll_inv ?v"
    using live inv epoll_inv_unregister [of w p ch lp] by (simp add: channel_live_def)
  moreover have "chan_reg w' = chan_reg ?v"
    using live chans by (auto simp: fun_eq_iff chan_reg_def upd_def channel_live_def)
  moreover have "ep_lookup w' = ep_lookup ?v"
    using live loops by (auto simp: fun_eq_iff ep_lookup_def upd_def channel_live_def)
  ultimately show ?thesis using epoll_inv_cong by blast
qed

lemma epoll_inv_forget:
  assumes inv: "epoll_inv w" and ch: "chans w p = Some ch" "\<not> ch_registered ch"
    and w': "chans w' = (chans w)(p := None)" "loops w' = loops w"
  shows "epoll_inv w'"
  unfolding epoll_inv_def
proof (intro allI)
  fix l fd c
  have "ep_lookup w' l fd = ep_lookup w l fd" using w'(2) by (simp add: ep_lookup_def)
  moreover have "ep_lookup w l fd = Some c \<longleftrightarrow> chan_reg w c = Some (fd, l, True)" using inv by (simp add: epoll_inv_def)
  moreover have "chan_reg w' c = Some (fd, l, True) \<longleftrightarrow> chan_reg w c = Some (fd, l, True)"
    using ch w'(1) by (auto simp: chan_reg_def)
  ultimately show "(ep_lookup w' l fd = Some c) = (chan_reg w' c = Some (fd, l, True))" by simp
qed

text \<open>(C3) The life of a connection ends in order. When the peer of an open connection of the echo server has
  closed, the dispatch of the readability event takes the connection out of the server's map, leaves its
  channel without events and queues exactly one task; the loop's round of tasks then brings it to
  \<^verbatim>\<open>kDisConnected\<close> and unregisters its channel; the destructor that follows succeeds and closes the
  descriptor. No step fails, no other connection, channel or server entry is touched, and the maps of the
  pollers agree with the channels at the end; for every kernel whose \<^verbatim>\<open>epoll_ctl\<close> succeeds.\<close>

theorem closed_connection_is_destroyed:
  assumes sv: "served cur s c sv tc ch lp w" and inv: "epoll_inv w"
    and start: "tc_connectionCallback tc = Some n" "Buffer_inv (tc_inputBuffer tc)" "el_pending lp = []"
    and ev: "has_flag (ch_revents ch) EPOLLIN" "\<not> has_flag (ch_revents ch) EPOLLERR"
    and cb: "ch_readCallback ch = Some (TcpConnection_handleRead_cb c)" "ch_writeCallback ch = Some (TcpConnection_handleWrite_cb c)"
    and os: "peer_closed os tc w" "epoll_ctl_ok os"
  shows "\<exists>w1 w2 w3. Channel_handleEvent (run_echo garbage ntop rnd os cur) t (tc_channel tc) w = Inr w1 \<and>
    servers w1 = (servers w)(s \<mapsto> without tc sv) \<and>
    map_option el_pending (loops w1 (tc_loop tc)) = Some [ConnectDestoryed c] \<and>
    doPendingFunctions (run_task rnd (echo_callbacks rnd os cur) (\<lambda>_. Inr) os cur) (tc_loop tc) w1 = Inr w2 \<and>
    map_option tc_state (conns w2 c) = Some kDisConnected \<and> ep_lookup w2 (tc_loop tc) (tc_sockfd tc) = None \<and> epoll_inv w2 \<and>
    TcpConnection_delete os c w2 = Inr w3 \<and>
    trace w3 = trace w2 @ [(Sys_close (tc_sockfd tc), os (trace w2) (Sys_close (tc_sockfd tc)))] \<and>
    conns w3 = (conns w)(c := None) \<and> chans w3 = (chans w)(tc_channel tc := None) \<and>
    servers w3 = (servers w)(s \<mapsto> without tc sv) \<and> epoll_inv w3"
proof -
  let ?l = "tc_loop tc" and ?p = "tc_channel tc" and ?lp1 = "push_pending (ConnectDestoryed c) lp"
  let ?ch1 = "set_handling False (set_events kNoneEvent (set_handling True ch))"
  have live: "channel_live cur ?p ch lp w" "ch_loop ch = ?l" "ch_fd ch = tc_sockfd tc"
    and st: "tc_state tc = kConnected \<or> tc_state tc = kDisconnecting"
    using sv by (auto simp: served_def)
  obtain w1 b where w1: "Channel_handleEvent (run_echo garbage ntop rnd os cur) t ?p w = Inr w1"
    "conns w1 = (conns w)(c \<mapsto> tc\<lparr>tc_inputBuffer := b\<rparr>)" "servers w1 = (servers w)(s \<mapsto> without tc sv)"
    "chans w1 = (chans w)(?p \<mapsto> ?ch1)" "loops w1 = (loops w)(?l \<mapsto> ?lp1)"
    using handleEvent_closed [OF sv os(1) start(2) ev cb] by blast
  let ?tc1 = "tc\<lparr>tc_inputBuffer := b\<rparr>"
  have live1: "channel_live cur (tc_channel ?tc1) ?ch1 ?lp1 w1" "ch_loop ?ch1 = tc_loop ?tc1" "ch_fd ?ch1 = tc_sockfd ?tc1"
    using live w1(4,5) by (simp_all add: channel_live_def)
  have tc1: "conns w1 c = Some ?tc1" "tc_state ?tc1 = kConnected \<or> tc_state ?tc1 = kDisconnecting" "tc_connectionCallback ?tc1 = Some n"
    "el_pending ?lp1 = [ConnectDestoryed c]"
    using w1(2) st start by simp_all
  let ?ch2 = "set_registered False (set_events kNoneEvent ?ch1)"
  let ?lp2 = "end_calling (set_channel (tc_sockfd tc) None (swap_pending ?lp1))"
  obtain w2 where w2: "doPendingFunctions (run_task rnd (echo_callbacks rnd os cur) (\<lambda>_. Inr) os cur) ?l w1 = Inr w2"
    "conns w2 = (conns w1)(c \<mapsto> setState kDisConnected ?tc1)" "servers w2 = servers w1"
    "chans w2 = (chans w1)(?p \<mapsto> ?ch2)" "loops w2 = (loops w1)(?l \<mapsto> ?lp2)"
    using doPending_close [OF tc1(1-3) live1 os(2) tc1(4), of rnd] by auto
  have inv2: "epoll_inv w2"
    by (rule epoll_inv_closed [OF inv live(1), where ch' = ?ch2 and lp' = ?lp2])
      (use w1(4,5) w2(4,5) live in simp_all)
  let ?w2 = "w2\<lparr>chans := (chans w2)(?p := None), conns := (conns w2)(c := None)\<rparr>"
  let ?w3 = "sys_after os (Sys_close (tc_sockfd tc)) ?w2"
  have del: "TcpConnection_delete os c w2 = Inr ?w3"
    using w2(2,4) by (simp add: TcpConnection_delete_def Channel_delete_def Socket_delete_def closefd_def setState_def sys_after_def)
  have "epoll_inv ?w3"
    by (rule epoll_inv_forget [OF inv2, of ?p ?ch2]) (use w2(4) in simp_all)
  moreover have "ep_lookup w2 ?l (tc_sockfd tc) = None" using w2(5) by (simp add: ep_lookup_def)
  ultimately show ?thesis
    using w1 w2 inv2 del tc1(4)
    by (intro exI [of _ w1] exI [of _ w2] exI [of _ ?w3]) (simp add: setState_def)
qed

text \<open>The sample server, its connection's channel as \<^verbatim>\<open>TcpConnection\<close> installs it, reported readable.\<close>

definition closing_channel :: channel where
  "closing_channel = chan9\<lparr>ch_readCallback := Some (TcpConnection_handleRead_cb 20),
     ch_writeCallback := Some (TcpConnection_handleWrite_cb 20), ch_revents := EPOLLIN OR EPOLLRDHUP\<rparr>"

definition closing_world :: net where
  "closing_world = (server_world [])\<lparr>chans := [1 \<mapsto> closing_channel]\<rparr>"

lemma closing_world_simps:
  "servers closing_world = servers (server_world [])" "conns closing_world = conns (server_world [])"
  "loops closing_world = loops (server_world [])" "chans closing_world 1 = Some closing_channel"
  by (simp_all add: closing_world_def del: One_nat_def)

lemma epoll_inv_closing_world: "epoll_inv closing_world"
  unfolding epoll_inv_def
  by (auto simp: closing_world_def server_world_def ep_lookup_def chan_reg_def closing_channel_def chan9_def
      Channel_init_def loop0_def set_channel_def split: if_splits)

lemma served_closing_world:
  "served 7 30 20 (server30\<lparr>sv_threadPool := (EventLoopThreadPool_new 0)\<lparr>tp_loops := []\<rparr>\<rparr>) conn20 closing_channel
     (set_channel 9 (Some 1) loop0) closing_world"
  unfolding served_def channel_live_def closing_world_simps
  using server_world_simps(1,2,5) [of "[]"] closing_world_simps(4)
  by (simp add: conn20_def closing_channel_def chan9_def Channel_init_def server30_def del: One_nat_def) (simp add: loop0_def)

theorem closed_connection_is_destroyed_witness:
  "\<exists>w1 w2 w3. Channel_handleEvent (run_echo no_addr (\<lambda>_. []) (\<lambda>x. x) quiet_kernel 7) Timestamp_new 1 closing_world = Inr w1 \<and>
     doPendingFunctions (run_task (\<lambda>x. x) (echo_callbacks (\<lambda>x. x) quiet_kernel 7) (\<lambda>_. Inr) quiet_kernel 7) 0 w1 = Inr w2 \<and>
     TcpConnection_delete quiet_kernel 20 w2 = Inr w3 \<and> conns w3 20 = None \<and> chans w3 1 = None \<and> epoll_inv w3"
proof -
  let ?lp = "set_channel 9 (Some 1) loop0"
  have tc: "tc_connectionCallback conn20 = Some 1" "Buffer_inv (tc_inputBuffer conn20)" "el_pending ?lp = []"
      "tc_channel conn20 = 1" "tc_loop conn20 = 0"
    using empty_buffer_ok by (simp_all add: conn20_def loop0_def)
  have ev: "has_flag (ch_revents closing_channel) EPOLLIN" "\<not> has_flag (ch_revents closing_channel) EPOLLERR"
    by (simp_all add: closing_channel_def has_flag_def epoll_flags)
  have cb: "ch_readCallback closing_channel = Some (TcpConnection_handleRead_cb 20)"
      "ch_writeCallback closing_channel = Some (TcpConnection_handleWrite_cb 20)"
    by (simp_all add: closing_channel_def)
  have eof: "peer_closed quiet_kernel conn20 closing_world" by (simp add: peer_closed_def quiet_kernel_def answer_def)
  from closed_connection_is_destroyed [OF served_closing_world epoll_inv_closing_world tc(1-3) ev cb eof quiet_kernel_ctl_ok,
      of no_addr "\<lambda>_. []" "\<lambda>x. x" Timestamp_new, unfolded tc(4,5)]
  obtain w1 w2 w3 where "Channel_handleEvent (run_echo no_addr (\<lambda>_. []) (\<lambda>x. x) quiet_kernel 7) Timestamp_new 1 closing_world = Inr w1"
    "doPendingFunctions (run_task (\<lambda>x. x) (echo_callbacks (\<lambda>x. x) quiet_kernel 7) (\<lambda>_. Inr) quiet_kernel 7) 0 w1 = Inr w2"
    "TcpConnection_delete quiet_kernel 20 w2 = Inr w3" "conns w3 = (conns closing_world)(20 := None)"
    "chans w3 = (chans closing_world)(1 := None)" "epoll_inv w3" by blast
  then show ?thesis by (intro exI [of _ w1] exI [of _ w2] exI [of _ w3]) (simp del: One_nat_def)
qed

end
