(* ===== verification/Pingpong_Client.thy ===== *)
theory Pingpong_Client
  imports Echo_Server Atomic
begin

text \<open>
  The ping-pong client (src/example/pingpong_client.cc): a \<^verbatim>\<open>Client\<close> opens a number of \<^verbatim>\<open>Session\<close>s, each
  with a \<^verbatim>\<open>TcpClient\<close>; a session sends the client's block when it is connected and sends back all it
  receives, counting bytes and messages. After a timeout every session is stopped, and the last one to
  disconnect prints the totals and ends the loop.

  Sessions and clients extend the store of the networking objects. The callbacks a session installs are
  numbered by its address, and so is the timeout task of a client. The \<^verbatim>\<open>int64_t\<close> counters are 64-bit
  words, as \<^verbatim>\<open>+=\<close> with a \<^verbatim>\<open>size_t\<close> computes in unsigned arithmetic. Printed lines are kept in \<open>printed\<close>; the
  two quotients are kept as their operands. The name given to a \<^verbatim>\<open>Session\<close> is not used by the code.
\<close>

section \<open>Model\<close>

record session =
  se_client :: ptr
  se_owner :: ptr
  se_bytesRead :: "64 word"
  se_bytesWritten :: "64 word"
  se_messagesRead :: "64 word"

record pp_client =
  pc_loop :: ptr
  pc_threadPool :: eventLoopThreadPool
  pc_sessionCount :: int
  pc_timeout :: int
  pc_sessions :: "ptr list"
  pc_message :: "byte list"
  pc_numConnected :: "32 word"

datatype printed_line =
    All_connected
  | All_disconnected
  | Total_bytes_read "64 word"
  | Total_messages_read "64 word"
  | Average_message_size "64 word" "64 word"
  | Throughput "64 word" int
  | Stop

record pingpong = net +
  sessions :: "ptr \<Rightarrow> session option"
  pp_clients :: "ptr \<Rightarrow> pp_client option"
  printed :: "printed_line list"

definition upd_session :: "(session \<Rightarrow> session) \<Rightarrow> ptr \<Rightarrow> 'z pingpong_scheme \<Rightarrow> 'z pingpong_scheme" where
  "upd_session f s w = w\<lparr>sessions := upd f s (sessions w)\<rparr>"

definition upd_pp :: "(pp_client \<Rightarrow> pp_client) \<Rightarrow> ptr \<Rightarrow> 'z pingpong_scheme \<Rightarrow> 'z pingpong_scheme" where
  "upd_pp f a w = w\<lparr>pp_clients := upd f a (pp_clients w)\<rparr>"

definition print_line :: "printed_line \<Rightarrow> 'z pingpong_scheme \<Rightarrow> 'z pingpong_scheme" where
  "print_line x w = w\<lparr>printed := printed w @ [x]\<rparr>"

subsection \<open>Session\<close>

definition Session_new :: "ptr \<Rightarrow> sockaddr_in \<Rightarrow> ptr \<Rightarrow> 'z pingpong_scheme \<Rightarrow> ptr \<times> 'z pingpong_scheme" where
  "Session_new l serverAddr owner w =
     (case TcpClient_new l serverAddr w of (cl, w1) \<Rightarrow>
      let s = nextptr w1;
          w2 = w1\<lparr>nextptr := s + 1, sessions := (sessions w1)(s \<mapsto>
            \<lparr>se_client = cl, se_owner = owner, se_bytesRead = 0, se_bytesWritten = 0, se_messagesRead = 0\<rparr>)\<rparr> in
      (s, TcpClient_setMessageCallback s cl (TcpClient_setConnectionCallback s cl w2)))"

definition Session_start :: "(rat \<Rightarrow> rat) \<Rightarrow> kernel \<Rightarrow> tid \<Rightarrow> ptr \<Rightarrow> 'z pingpong_scheme \<Rightarrow> 'z pingpong_scheme res" where
  "Session_start rnd os cur s w = bindR (deref (sessions w) s) (\<lambda>x. TcpClient_connect rnd os cur (se_client x) w)"

definition Session_stop :: "kernel \<Rightarrow> tid \<Rightarrow> ptr \<Rightarrow> 'z pingpong_scheme \<Rightarrow> 'z pingpong_scheme res" where
  "Session_stop os cur s w = bindR (deref (sessions w) s) (\<lambda>x. TcpClient_disconnect os cur (se_client x) w)"

definition count_message :: "nat \<Rightarrow> session \<Rightarrow> session" where
  "count_message n x = x\<lparr>se_messagesRead := se_messagesRead x + 1,
     se_bytesRead := se_bytesRead x + word_of_nat n, se_bytesWritten := se_bytesWritten x + word_of_nat n\<rparr>"

definition Session_onMessage :: "kernel \<Rightarrow> tid \<Rightarrow> ptr \<Rightarrow> ptr \<Rightarrow> timestamp \<Rightarrow> 'z pingpong_scheme \<Rightarrow> 'z pingpong_scheme res" where
  "Session_onMessage os cur s c time w =
     bindR (deref (sessions w) s) (\<lambda>_.
     bindR (deref (conns w) c) (\<lambda>tc.
     let w1 = upd_session (count_message (readableBytes (tc_inputBuffer tc))) s w in
     bindR (retrieveAsString (tc_inputBuffer tc)) (\<lambda>(msg, buf).
     TcpConnection_send os cur c msg (upd_conn (\<lambda>tc. tc\<lparr>tc_inputBuffer := buf\<rparr>) c w1))))"

subsection \<open>Client\<close>

definition Client_onConnect :: "ptr \<Rightarrow> 'z pingpong_scheme \<Rightarrow> 'z pingpong_scheme res" where
  "Client_onConnect a w =
     bindR (deref (pp_clients w) a) (\<lambda>x.
     case incrementAndGet (pc_numConnected x) of (r, v) \<Rightarrow>
     let w1 = upd_pp (\<lambda>x. x\<lparr>pc_numConnected := v\<rparr>) a w in
     Inr (if sint r = pc_sessionCount x then print_line All_connected w1 else w1))"

fun session_totals :: "ptr list \<Rightarrow> 64 word \<times> 64 word \<Rightarrow> 'z pingpong_scheme \<Rightarrow> (64 word \<times> 64 word) res" where
  "session_totals [] t w = Inr t"
| "session_totals (s # ss) (bytes, messages) w =
     bindR (deref (sessions w) s) (\<lambda>x. session_totals ss (bytes + se_bytesRead x, messages + se_messagesRead x) w)"

definition Client_onDisconnect :: "kernel \<Rightarrow> tid \<Rightarrow> ptr \<Rightarrow> 'z pingpong_scheme \<Rightarrow> 'z pingpong_scheme res" where
  "Client_onDisconnect os cur a w =
     bindR (deref (pp_clients w) a) (\<lambda>x.
     let w1 = upd_pp (\<lambda>x. x\<lparr>pc_numConnected := decrement (pc_numConnected x)\<rparr>) a w in
     case atomic_get (decrement (pc_numConnected x)) of (r, v) \<Rightarrow>
     let w2 = upd_pp (\<lambda>x. x\<lparr>pc_numConnected := v\<rparr>) a w1 in
     if sint r = 0
     then let w3 = print_line All_disconnected w2 in
       bindR (session_totals (pc_sessions x) (0, 0) w3) (\<lambda>(bytes, messages).
       EventLoop_quit os cur (pc_loop x)
         (print_line (Throughput bytes (pc_timeout x)) (print_line (Average_message_size bytes messages)
           (print_line (Total_messages_read messages) (print_line (Total_bytes_read bytes) w3)))))
     else Inr w2)"

definition Client_handleTimeout :: "kernel \<Rightarrow> tid \<Rightarrow> ptr \<Rightarrow> 'z pingpong_scheme \<Rightarrow> 'z pingpong_scheme res" where
  "Client_handleTimeout os cur a w =
     bindR (deref (pp_clients w) a) (\<lambda>x. foldR (Session_stop os cur) (pc_sessions x) (print_line Stop w))"

definition Session_onConnection :: "kernel \<Rightarrow> tid \<Rightarrow> ptr \<Rightarrow> ptr \<Rightarrow> 'z pingpong_scheme \<Rightarrow> 'z pingpong_scheme res" where
  "Session_onConnection os cur s c w =
     bindR (deref (sessions w) s) (\<lambda>x.
     bindR (deref (conns w) c) (\<lambda>tc.
     if connected tc
     then bindR (TcpConnection_setTcpNoDelay os c True w) (\<lambda>w1.
       bindR (deref (pp_clients w1) (se_owner x)) (\<lambda>own.
       bindR (TcpConnection_send os cur c (pc_message own) w1) (Client_onConnect (se_owner x))))
     else Client_onDisconnect os cur (se_owner x) w))"

text \<open>The block: \<^verbatim>\<open>static_cast<char>(i % 128)\<close> for every index.\<close>

definition block_message :: "int \<Rightarrow> byte list" where
  "block_message blockSize = map (\<lambda>i. char_of (i mod 128)) [0..<nat blockSize]"

text \<open>The loop of the constructor over the sessions.\<close>

fun start_sessions ::
    "(rat \<Rightarrow> rat) \<Rightarrow> kernel \<Rightarrow> tid \<Rightarrow> sockaddr_in \<Rightarrow> ptr \<Rightarrow> nat \<Rightarrow> 'z pingpong_scheme \<Rightarrow> 'z pingpong_scheme res" where
  "start_sessions rnd os cur serverAddr a 0 w = Inr w"
| "start_sessions rnd os cur serverAddr a (Suc n) w =
     bindR (deref (pp_clients w) a) (\<lambda>x.
     bindR (getNextLoop cur (pc_threadPool x) w) (\<lambda>(l, tp).
     case Session_new l serverAddr a (upd_pp (\<lambda>x. x\<lparr>pc_threadPool := tp\<rparr>) a w) of (s, w1) \<Rightarrow>
     bindR (Session_start rnd os cur s w1) (\<lambda>w2.
     start_sessions rnd os cur serverAddr a n (upd_pp (\<lambda>x. x\<lparr>pc_sessions := pc_sessions x @ [s]\<rparr>) a w2))))"

definition Client_new ::
    "(rat \<Rightarrow> rat) \<Rightarrow> kernel \<Rightarrow> tid \<Rightarrow> ptr \<Rightarrow> sockaddr_in \<Rightarrow> int \<Rightarrow> int \<Rightarrow> int \<Rightarrow> int \<Rightarrow> 'z pingpong_scheme \<Rightarrow> (ptr \<times> 'z pingpong_scheme) res" where
  "Client_new rnd os cur l serverAddr blockSize sessionCount timeout threadCount w =
     (let a = nextptr w; tp0 = EventLoopThreadPool_new l;
          w1 = w\<lparr>nextptr := a + 1, pp_clients := (pp_clients w)(a \<mapsto>
            \<lparr>pc_loop = l, pc_threadPool = tp0, pc_sessionCount = sessionCount, pc_timeout = timeout,
             pc_sessions = [], pc_message = [], pc_numConnected = atomic_new\<rparr>)\<rparr> in
      bindR (runAfter rnd os cur l (of_int timeout) (UserTask a) w1) (\<lambda>(_, w2).
      bindR (Pool_start os cur (if threadCount > 1 then Pool_setThreadNum threadCount tp0 else tp0) w2) (\<lambda>(tp, w3).
      bindR (start_sessions rnd os cur serverAddr a (nat sessionCount)
          (upd_pp (\<lambda>x. x\<lparr>pc_threadPool := tp, pc_message := block_message blockSize\<rparr>) a w3)) (\<lambda>w4.
      Inr (a, w4)))))"

definition pingpong_callbacks :: "(rat \<Rightarrow> rat) \<Rightarrow> kernel \<Rightarrow> tid \<Rightarrow> 'z pingpong_scheme callbacks" where
  "pingpong_callbacks rnd os cur = \<lparr>on_connection = Session_onConnection os cur,
     on_message = Session_onMessage os cur, on_write_complete = (\<lambda>_ _ _. Inl BadFunctionCall),
     on_close = close_dispatch rnd os cur\<rparr>"

definition pingpong_event ::
    "sockaddr_in \<Rightarrow> (32 word \<Rightarrow> string) \<Rightarrow> (rat \<Rightarrow> rat) \<Rightarrow> kernel \<Rightarrow> tid \<Rightarrow> ptr \<Rightarrow> conn_event \<Rightarrow> 'z pingpong_scheme \<Rightarrow> 'z pingpong_scheme res" where
  "pingpong_event garbage ntop rnd os cur c e w =
     (let run = run_callback garbage ntop rnd (pingpong_callbacks rnd os cur) (Client_handleTimeout os cur) os cur in
      case e of
        Readable t \<Rightarrow> run t (TcpConnection_handleRead_cb c) w
      | Writable \<Rightarrow> run Timestamp_new (TcpConnection_handleWrite_cb c) w)"

text \<open>\<^verbatim>\<open>main\<close> with its arguments read, up to the call of \<^verbatim>\<open>loop()\<close>.\<close>

definition pingpong_main ::
    "(rat \<Rightarrow> rat) \<Rightarrow> kernel \<Rightarrow> tid \<Rightarrow> (string \<Rightarrow> 32 word option) \<Rightarrow> string \<Rightarrow> int \<Rightarrow> int \<Rightarrow> int \<Rightarrow> int \<Rightarrow> int \<Rightarrow>
     'z pingpong_scheme \<Rightarrow> (ptr \<times> ptr \<times> 'z pingpong_scheme) res" where
  "pingpong_main rnd os cur pton ip port threadCount blockSize sessionCount timeout w =
     bindR (EventLoop_new os cur w) (\<lambda>(l, w1).
     bindR (Client_new rnd os cur l (InetAddress_ip pton ip (word_of_int port)) blockSize sessionCount timeout threadCount w1)
       (\<lambda>(a, w2). Inr (l, a, w2)))"

section \<open>Frames\<close>

lemma session_frame [simp]:
  "conns (upd_session f s w) = conns w" "chans (upd_session f s w) = chans w" "loops (upd_session f s w) = loops w"
  "trace (upd_session f s w) = trace w" "sessions (upd_session f s w) = upd f s (sessions w)"
  "conns (upd_pp g a w) = conns w" "chans (upd_pp g a w) = chans w" "loops (upd_pp g a w) = loops w"
  "trace (upd_pp g a w) = trace w" "sessions (upd_pp g a w) = sessions w" "pp_clients (upd_pp g a w) = upd g a (pp_clients w)"
  "conns (print_line x w) = conns w" "loops (print_line x w) = loops w" "trace (print_line x w) = trace w"
  "sessions (print_line x w) = sessions w" "pp_clients (print_line x w) = pp_clients w"
  "printed (print_line x w) = printed w @ [x]" "printed (upd_pp g a w) = printed w"
  "sessions (upd_conn k c w) = sessions w" "sessions (with_input c b w) = sessions w"
  by (simp_all add: upd_session_def upd_pp_def print_line_def upd_conn_def with_input_def)

interpretation counters: output_view "sessions :: 'z pingpong_scheme \<Rightarrow> _"
  by unfold_locales (simp_all add: upd_chan_def upd_loop_def upd_conn_def)

interpretation owners: output_view "pp_clients :: 'z pingpong_scheme \<Rightarrow> _"
  by unfold_locales (simp_all add: upd_chan_def upd_loop_def upd_conn_def)

lemma same_reactor_updates [simp]:
  "same_reactor w (upd_session f s w)" "same_reactor w (upd_pp g a w)" "same_reactor w (print_line x w)"
  by (simp_all add: same_reactor_def) (simp add: print_line_def)

lemmas same_reactor_simps [simp] =
  same_reactor_updates(1) [THEN same_reactor_invs(1)] same_reactor_updates(1) [THEN same_reactor_invs(4)]
  same_reactor_updates(2) [THEN same_reactor_invs(3)] same_reactor_updates(3) [THEN same_reactor_invs(3)]

section \<open>A session's traffic\<close>

text \<open>
  A session on an open connection: what the connection owes after the block \<open>pre\<close> is what was received,
  and the counters agree with the reads.
\<close>

definition playing :: "tid \<Rightarrow> ptr \<Rightarrow> ptr \<Rightarrow> byte list \<Rightarrow> nat \<Rightarrow> 'z pingpong_scheme \<Rightarrow> bool" where
  "playing cur s c pre m w \<longleftrightarrow> echoing cur c pre m w \<and>
     (\<exists>tc x. conns w c = Some tc \<and> tc_messageCallback tc = Some s \<and> sessions w s = Some x \<and>
        se_messagesRead x = word_of_nat (reads_of (tc_sockfd tc) (trace w)) \<and>
        se_bytesRead x = word_of_nat (length (received (tc_sockfd tc) (trace w))) \<and> se_bytesWritten x = se_bytesRead x)"

lemma playing_readable:
  assumes play: "playing cur s c pre (k + m) w" and io: "read_ok k os" "k \<le> vector_max"
  shows "\<exists>w'. TcpConnection_handleRead (pingpong_callbacks rnd os cur) os cur c t w = Inr w' \<and> playing cur s c pre m w'"
proof -
  obtain tc x where echo: "echoing cur c pre (k + m) w" and tc: "conns w c = Some tc" "tc_messageCallback tc = Some s"
    and x: "sessions w s = Some x" "se_messagesRead x = word_of_nat (reads_of (tc_sockfd tc) (trace w))"
      "se_bytesRead x = word_of_nat (length (received (tc_sockfd tc) (trace w)))" "se_bytesWritten x = se_bytesRead x"
    using play by (auto simp: playing_def)
  show ?thesis
    using echo io
  proof (cases rule: readable_cases)
    case (idle b h w')
    have "conns w' c = Some (tc\<lparr>tc_inputBuffer := b\<rparr>)" "sessions w' = sessions w" "trace w' = h"
      using idle(2) tc(1) by simp_all
    then have "playing cur s c pre m w'" using idle(3-5) tc(2) x by (auto simp: playing_def)
    then show ?thesis using idle(1) by blast
  next
    case (message tc' f d b b' h w')
    have tc': "tc' = tc\<lparr>tc_inputBuffer := b\<rparr>" and w': "sessions w' = sessions w" "trace w' = h"
      using message(2,3) tc(1) by simp_all
    let ?w2 = "with_input c b' (upd_session (count_message (length d)) s w')"
    have comm: "?w2 = upd_session (count_message (length d)) s (with_input c b' w')"
      by (simp add: with_input_def upd_session_def upd_conn_def)
    have ready: "ready_to_send cur c pre m d ?w2" unfolding comm using message(7) by simp
    then obtain w3 where w3: "TcpConnection_send os cur c d ?w2 = Inr w3" "echoing cur c pre m w3"
      using echoing_send by blast
    have run: "TcpConnection_handleRead (pingpong_callbacks rnd os cur) os cur c t w = Inr w3"
      using message(1,3-6) tc' tc(2) x(1) w' w3(1)
      by (simp add: pingpong_callbacks_def Session_onMessage_def Let_def with_input_def)
    have s3: "sessions w3 s = Some (count_message (length d) x)" using counters.view_send [OF w3(1)] x(1) w' by simp
    have v: "in_frame c ?w2 w3" "reads_of fd (trace w3) = reads_of fd (trace ?w2)" for fd
      using send_frame [OF w3(1)] read_count.view_send [OF w3(1)] by blast+
    obtain tc3 where tc3: "conns w3 c = Some tc3" "tc_messageCallback tc3 = Some s" "tc_sockfd tc3 = tc_sockfd tc"
      using v(1) message(3) tc' tc(2) by (auto simp: in_frame_def in_view_def)
    have r: "received (tc_sockfd tc) (trace w3) = received (tc_sockfd tc) (trace w) @ d"
      "reads_of (tc_sockfd tc) (trace w3) = reads_of (tc_sockfd tc) (trace w) + 1"
      using v message(8,9) w' tc' by (simp_all add: in_frame_def)
    have "playing cur s c pre m w3"
      unfolding playing_def using w3(2) tc3 s3 r x(2-4) by (auto simp: count_message_def)
    then show ?thesis using run by blast
  qed
qed

lemma playing_writable:
  assumes play: "playing cur s c pre (k + m) w" and "write_ok os"
  shows "\<exists>w'. TcpConnection_handleWrite os cur c w = Inr w' \<and> playing cur s c pre m w'"
proof -
  obtain w' where w': "TcpConnection_handleWrite os cur c w = Inr w'" "echoing cur c pre m w'"
    using echo_writable [of cur c pre k m w os] play assms(2) by (auto simp: playing_def)
  have "sessions w' = sessions w" "in_frame c w w'" "reads_of fd (trace w') = reads_of fd (trace w)" for fd
    using counters.view_handleWrite [OF w'(1)] handleWrite_frame [OF w'(1)] read_count.view_handleWrite [OF w'(1)] by blast+
  then have "playing cur s c pre m w'"
    using play w'(2) by (auto simp: playing_def in_frame_def in_view_def)
  with w'(1) show ?thesis by blast
qed

lemma playing_run:
  assumes "playing cur s c pre (length es * k + m) w" and "read_ok k os" "write_ok os" "k \<le> vector_max"
  shows "\<exists>w'. foldR (pingpong_event garbage ntop rnd os cur c) es w = Inr w' \<and> playing cur s c pre m w'"
  using assms(1)
proof (induction es arbitrary: w)
  case (Cons e es)
  have w: "playing cur s c pre (k + (length es * k + m)) w" using Cons.prems by (simp add: add.assoc)
  have "\<exists>w1. pingpong_event garbage ntop rnd os cur c e w = Inr w1 \<and> playing cur s c pre (length es * k + m) w1"
  proof (cases e)
    case (Readable t)
    with playing_readable [OF w assms(2,4)] show ?thesis by (simp add: pingpong_event_def run_callback_def Let_def)
  next
    case Writable
    with playing_writable [OF w assms(3)] show ?thesis by (simp add: pingpong_event_def run_callback_def Let_def)
  qed
  then show ?case using Cons.IH by auto
qed simp

text \<open>The connection callback sends the block.\<close>

lemma playing_connected:
  assumes ready: "ready_to_send cur c (pc_message own) m (pc_message own) w"
    and tc: "conns w c = Some tc" "tc_messageCallback tc = Some s" "tc_state tc = kConnected"
      "received (tc_sockfd tc) (trace w) = []" "reads_of (tc_sockfd tc) (trace w) = 0"
    and x: "sessions w s = Some x" "se_bytesRead x = 0" "se_bytesWritten x = 0" "se_messagesRead x = 0"
    and own: "pp_clients w (se_owner x) = Some own"
  shows "\<exists>w'. Session_onConnection os cur s c w = Inr w' \<and> playing cur s c (pc_message own) m w'"
proof -
  let ?call = "Sys_setsockopt_nodelay (tc_sockfd tc) 1"
  let ?w1 = "w\<lparr>trace := trace w @ [(?call, os (trace w) ?call)]\<rparr>"
  have q: "quiet_calls [(?call, r)]" for r by (simp add: quiet_calls_def)
  have "ready_to_send cur c (pc_message own) m (pc_message own) ?w1"
    using ready quiet_trace [OF q, where w = w] tc(1) by (auto simp: ready_to_send_def)
  then obtain w2 where w2: "TcpConnection_send os cur c (pc_message own) ?w1 = Inr w2" "echoing cur c (pc_message own) m w2"
    using echoing_send by blast
  have p2: "pp_clients w2 = pp_clients w" "sessions w2 = sessions w"
    using owners.view_send [OF w2(1)] counters.view_send [OF w2(1)] by simp_all
  have f2: "in_frame c ?w1 w2" "reads_of fd (trace w2) = reads_of fd (trace ?w1)" for fd
    using send_frame [OF w2(1)] read_count.view_send [OF w2(1)] by blast+
  obtain tc2 where tc2: "conns w2 c = Some tc2" "tc_messageCallback tc2 = Some s" "tc_sockfd tc2 = tc_sockfd tc"
    using f2(1) tc(1,2) by (auto simp: in_frame_def in_view_def)
  have r2: "received (tc_sockfd tc) (trace w2) = []" "reads_of (tc_sockfd tc) (trace w2) = 0"
    using f2 tc(4,5) by (simp_all add: in_frame_def)
  obtain w3 where w3: "Client_onConnect (se_owner x) w2 = Inr w3" "conns w3 = conns w2" "trace w3 = trace w2"
      "sessions w3 = sessions w2" "echoing cur c (pc_message own) m w3"
    using own p2 w2(2) by (auto simp: Client_onConnect_def Let_def)
  have "Session_onConnection os cur s c w = Inr w3"
    using tc(1,3) x(1) own w2(1) w3(1)
    by (simp add: Session_onConnection_def TcpConnection_setTcpNoDelay_def Socket_setTcpNoDelay_def connected_def)
  moreover have "playing cur s c (pc_message own) m w3"
    unfolding playing_def using w3 tc2 r2 p2 x by auto
  ultimately show ?thesis by blast
qed

section \<open>The end of the benchmark\<close>

lemma session_totals_ok:
  "\<forall>s\<in>set ss. sessions w s \<noteq> None \<Longrightarrow> session_totals ss (b, n) w =
     Inr (b + sum_list (map (\<lambda>s. se_bytesRead (the (sessions w s))) ss),
          n + sum_list (map (\<lambda>s. se_messagesRead (the (sessions w s))) ss))"
  by (induction ss arbitrary: b n) (auto simp: add.assoc)

text \<open>The last session to disconnect prints the totals of all sessions and ends the loop; the others print nothing.\<close>

theorem onDisconnect_totals:
  assumes a: "pp_clients w a = Some x" and ss: "\<forall>s\<in>set (pc_sessions x). sessions w s \<noteq> None"
    and lp: "loops w (pc_loop x) = Some lp" "el_threadId lp = cur"
  shows "\<exists>w'. Client_onDisconnect os cur a w = Inr w' \<and>
    (let B = sum_list (map (\<lambda>s. se_bytesRead (the (sessions w s))) (pc_sessions x));
         M = sum_list (map (\<lambda>s. se_messagesRead (the (sessions w s))) (pc_sessions x)) in
     if pc_numConnected x = 1
     then printed w' = printed w @ [All_disconnected, Total_bytes_read B, Total_messages_read M,
            Average_message_size B M, Throughput B (pc_timeout x)] \<and> map_option el_quit (loops w' (pc_loop x)) = Some True
     else printed w' = printed w \<and> loops w' = loops w)"
proof -
  have q: "printed (upd_loop f l v) = printed v" for f l and v :: "'a pingpong_scheme" by (simp add: upd_loop_def)
  have z: "sint v = 0 \<longleftrightarrow> v = 0" for v :: "32 word" by (metis signed_0 signed_word_eqI)
  show ?thesis
    using a ss lp session_totals_ok [OF ss]
    by (auto simp: Client_onDisconnect_def Let_def atomic_defs z EventLoop_quit_def isInLoopThread_def q session_totals_ok)
qed

text \<open>
  \<^verbatim>\<open>onDisconnect\<close> decrements the counter and reads it in two atomic steps. Two sessions whose loops run in
  different threads can interleave them, and then both find zero and both print the totals.
\<close>

datatype disconnect_pc = D_start | D_decremented | D_done

record disconnects =
  di_count :: "32 word"
  di_pc :: "nat \<Rightarrow> disconnect_pc"
  di_printed :: "nat list"

definition onDisconnect_step :: "nat \<Rightarrow> disconnects \<Rightarrow> disconnects" where
  "onDisconnect_step t d = (case di_pc d t of
       D_start \<Rightarrow> d\<lparr>di_count := decrement (di_count d), di_pc := (di_pc d)(t := D_decremented)\<rparr>
     | D_decremented \<Rightarrow> (case atomic_get (di_count d) of (r, v) \<Rightarrow>
         d\<lparr>di_count := v, di_pc := (di_pc d)(t := D_done), di_printed := (if r = 0 then di_printed d @ [t] else di_printed d)\<rparr>)
     | D_done \<Rightarrow> d)"

definition connected_pair :: disconnects where
  "connected_pair = \<lparr>di_count = 2, di_pc = (\<lambda>_. D_start), di_printed = []\<rparr>"

theorem totals_printed_twice:
  "di_printed (fold onDisconnect_step [0, 0, 1, 1] connected_pair) = [1]"
  "di_printed (fold onDisconnect_step [0, 1, 0, 1] connected_pair) = [0, 1]"
  by (simp_all add: onDisconnect_step_def connected_pair_def atomic_defs)

section \<open>Property\<close>

text \<open>(C34) A session plays ping-pong, from the connection callback on: it sends the client's block once, and then,
  for every kernel and every sequence of readability and writability events that fits the buffers, no
  handler fails, the bytes written to the socket followed by those waiting are the block followed by all
  bytes received, in order, and the counters of bytes and messages are those of the reads that delivered
  something (modulo \<open>2 ^ 64\<close>).\<close>

theorem pingpong_session:
  assumes ready: "ready_to_send cur c (pc_message own) (length es * k) (pc_message own) w"
    and tc: "conns w c = Some tc" "tc_messageCallback tc = Some s" "tc_state tc = kConnected"
      "received (tc_sockfd tc) (trace w) = []" "reads_of (tc_sockfd tc) (trace w) = 0"
    and x: "sessions w s = Some x" "se_bytesRead x = 0" "se_bytesWritten x = 0" "se_messagesRead x = 0"
    and own: "pp_clients w (se_owner x) = Some own"
    and io: "read_ok k os" "write_ok os" "k \<le> vector_max"
  shows "\<exists>w1 w2 tc2 x2. Session_onConnection os cur s c w = Inr w1 \<and>
    foldR (pingpong_event garbage ntop rnd os cur c) es w1 = Inr w2 \<and> conns w2 c = Some tc2 \<and> sessions w2 s = Some x2 \<and>
    written (tc_sockfd tc2) (trace w2) @ Buffer_content (tc_outputBuffer tc2) =
      pc_message own @ received (tc_sockfd tc2) (trace w2) \<and>
    se_bytesRead x2 = word_of_nat (length (received (tc_sockfd tc2) (trace w2))) \<and> se_bytesWritten x2 = se_bytesRead x2 \<and>
    se_messagesRead x2 = word_of_nat (reads_of (tc_sockfd tc2) (trace w2))"
proof -
  obtain w1 where w1: "Session_onConnection os cur s c w = Inr w1" "playing cur s c (pc_message own) (length es * k + 0) w1"
    using playing_connected [OF ready tc x own] by auto
  from playing_run [OF w1(2) io] obtain w2 where
    w2: "foldR (pingpong_event garbage ntop rnd os cur c) es w1 = Inr w2" "playing cur s c (pc_message own) 0 w2" by blast
  then obtain tc2 x2 where "conns w2 c = Some tc2" "sessions w2 s = Some x2"
      "conn_stream c w2 = pc_message own @ received (tc_sockfd tc2) (trace w2)"
      "se_bytesRead x2 = word_of_nat (length (received (tc_sockfd tc2) (trace w2)))" "se_bytesWritten x2 = se_bytesRead x2"
      "se_messagesRead x2 = word_of_nat (reads_of (tc_sockfd tc2) (trace w2))"
    by (auto simp: playing_def echoing_def)
  with w1(1) w2(1) conn_stream_eq [of w2 c tc2] show ?thesis by auto
qed

definition session50 :: session where
  "session50 = \<lparr>se_client = 51, se_owner = 52, se_bytesRead = 0, se_bytesWritten = 0, se_messagesRead = 0\<rparr>"

definition client52 :: pp_client where
  "client52 = \<lparr>pc_loop = 0, pc_threadPool = EventLoopThreadPool_new 0, pc_sessionCount = 1, pc_timeout = 10,
     pc_sessions = [50], pc_message = block_message 5, pc_numConnected = 0\<rparr>"

definition pingpong_world :: pingpong where
  "pingpong_world = net.extend (conn_world\<lparr>conns := [20 \<mapsto> conn20\<lparr>tc_messageCallback := Some 50\<rparr>]\<rparr>)
     \<lparr>sessions = [50 \<mapsto> session50], pp_clients = [52 \<mapsto> client52], printed = []\<rparr>"

lemma pingpong_world_simps:
  "conns pingpong_world 20 = Some (conn20\<lparr>tc_messageCallback := Some 50\<rparr>)" "chans pingpong_world = chans conn_world"
  "loops pingpong_world = loops conn_world" "trace pingpong_world = trace conn_world"
  "sessions pingpong_world 50 = Some session50" "pp_clients pingpong_world (se_owner session50) = Some client52"
  by (simp_all add: pingpong_world_def net.defs session50_def)

lemma conn20_simps [simp]:
  "tc_channel conn20 = 1" "tc_sockfd conn20 = 9" "tc_loop conn20 = 0" "tc_state conn20 = kConnected"
  "tc_inputBuffer conn20 = empty_buffer" "tc_outputBuffer conn20 = empty_buffer"
  by (simp_all add: conn20_def)

lemma pingpong_world_views:
  "loop_view l pingpong_world = loop_view l conn_world" "chan_ev p pingpong_world = chan_ev p conn_world"
  "epoll_inv pingpong_world"
  using epoll_inv_conn_world
  by (simp_all add: loop_view_def chan_ev_def pingpong_world_simps epoll_inv_def ep_lookup_def chan_reg_def)

lemma run_inv_pingpong_world: "run_inv 7 20 kConnected pingpong_world"
  using run_inv_conn_world
  by (auto simp: run_inv_def conn_ok_def pingpong_world_simps pingpong_world_views conn_world_simps simp del: One_nat_def)

lemma ready_pingpong_world:
  assumes "length d \<le> 100" and "m \<le> 100"
  shows "ready_to_send 7 20 d m d pingpong_world"
proof -
  have "live (length d + m) 20 conn_world" by (rule live_conn_world) (use assms in simp)
  then have "live (length d + m) 20 pingpong_world"
    using pingpong_world_views(3)
    by (auto simp: live_def pingpong_world_simps conn_world_simps simp del: One_nat_def)
  moreover have "conn_stream 20 pingpong_world = []" "received 9 (trace pingpong_world) = []"
    by (simp_all add: conn_stream_def pingpong_world_simps conn_world_simps empty_buffer_ok)
  moreover have "Buffer_room m empty_buffer" "length d \<le> vector_max"
    using assms by (simp_all add: Buffer_room_def empty_buffer_def vector_max_def)
  ultimately show ?thesis
    using run_inv_pingpong_world empty_buffer_ok by (simp add: ready_to_send_def pingpong_world_simps)
qed

theorem pingpong_session_witness:
  "\<exists>w1 w2 tc2 x2. Session_onConnection echo_kernel 7 50 20 pingpong_world = Inr w1 \<and>
     foldR (pingpong_event no_addr (\<lambda>_. []) (\<lambda>x. x) echo_kernel 7 20) [Writable, Readable Timestamp_new, Writable] w1 = Inr w2 \<and>
     conns w2 20 = Some tc2 \<and> sessions w2 50 = Some x2 \<and>
     written (tc_sockfd tc2) (trace w2) @ Buffer_content (tc_outputBuffer tc2) =
       block_message 5 @ received (tc_sockfd tc2) (trace w2)"
proof -
  let ?es = "[Writable, Readable Timestamp_new, Writable]" and ?tc = "conn20\<lparr>tc_messageCallback := Some 50\<rparr>"
  have own: "pc_message client52 = block_message 5" by (simp add: client52_def)
  have "ready_to_send 7 20 (block_message 5) (length ?es * 3) (block_message 5) pingpong_world"
    by (rule ready_pingpong_world) (simp_all add: block_message_def)
  then have ready: "ready_to_send 7 20 (pc_message client52) (length ?es * 3) (pc_message client52) pingpong_world" by (simp add: own)
  have tc: "tc_messageCallback ?tc = Some 50" "tc_state ?tc = kConnected" "received (tc_sockfd ?tc) (trace pingpong_world) = []"
      "reads_of (tc_sockfd ?tc) (trace pingpong_world) = 0"
    by (simp_all add: pingpong_world_simps conn_world_simps)
  have x: "se_bytesRead session50 = 0" "se_bytesWritten session50 = 0" "se_messagesRead session50 = 0"
    by (simp_all add: session50_def)
  have io: "read_ok 3 echo_kernel" "write_ok echo_kernel" "3 \<le> vector_max"
    by (simp_all add: read_ok_def write_ok_def echo_kernel_def answer_def vector_max_def)
  from pingpong_session [OF ready pingpong_world_simps(1) tc pingpong_world_simps(5) x pingpong_world_simps(6) io,
      of no_addr "\<lambda>_. []" "\<lambda>x. x", unfolded own]
  show ?thesis by blast
qed

end
