(* ===== verification/Pingpong_Bench.thy ===== *)
theory Pingpong_Bench
  imports Prelude
begin

text \<open>
  The ping-pong benchmark (src/example/pingpong_bench.cc): a ring of socket pairs in which a read on one
  pair writes a byte to the next. Its global variables are a record; the descriptors that got a byte by
  \<^verbatim>\<open>send\<close> are kept in \<open>be_sent\<close>. What the system does is an argument: the options \<^verbatim>\<open>getopt\<close> finds, the socket
  pairs, the clock, and for every iteration of the loop the callbacks it runs, each with the result of
  its \<^verbatim>\<open>recv\<close>. \<^verbatim>\<open>int\<close> values are integers; an index outside the vector \<^verbatim>\<open>g_pipes\<close> is the fault \<open>OutOfBounds\<close>.
\<close>

section \<open>Model\<close>

record bench =
  g_pipes :: "int list"
  g_channels :: "int list" \<comment> \<open>the descriptor of each channel\<close>
  be_bound :: "(int \<times> int) list" \<comment> \<open>the arguments bound to each channel's read callback\<close>
  numPipes :: int
  numActive :: int
  numWrites :: int
  g_reads :: int
  g_writes :: int
  g_fired :: int
  be_quit :: bool
  be_sent :: "int list"

definition pipe_at :: "int \<Rightarrow> bench \<Rightarrow> int res" where
  "pipe_at i b = (if 0 \<le> i \<and> i < int (length (g_pipes b)) then Inr (g_pipes b ! nat i) else Inl OutOfBounds)"

definition send_byte :: "int \<Rightarrow> bench \<Rightarrow> bench res" where
  "send_byte i b = bindR (pipe_at i b) (\<lambda>fd. Inr (b\<lparr>be_sent := be_sent b @ [fd]\<rparr>))"

definition account_write :: "bench \<Rightarrow> bench" where
  "account_write b = b\<lparr>g_writes := g_writes b - 1, g_fired := g_fired b - 1\<rparr>"

definition quit_if_done :: "bench \<Rightarrow> bench" where
  "quit_if_done b = (if g_fired b = g_reads b then b\<lparr>be_quit := True\<rparr> else b)"

definition readCallback :: "int \<Rightarrow> int \<Rightarrow> int \<Rightarrow> bench \<Rightarrow> bench res" where
  "readCallback received fd idx b =
     (let b1 = b\<lparr>g_reads := g_reads b + received\<rparr> in
      bindR (if 0 < g_writes b1
        then let widx = (if numPipes b1 \<le> idx + 1 then idx + 1 - numPipes b1 else idx + 1) in
          bindR (send_byte (2 * widx + 1) b1) (\<lambda>b2. Inr (account_write b2))
        else Inr b1) (\<lambda>b3. Inr (quit_if_done b3)))"

text \<open>\<^verbatim>\<open>loop()\<close> over the iterations that have events, each a channel with the result of its \<^verbatim>\<open>recv\<close>; with no more events and no \<^verbatim>\<open>quit\<close> it waits on.\<close>

definition bench_event :: "int \<times> nat \<Rightarrow> bench \<Rightarrow> bench res" where
  "bench_event = (\<lambda>(received, i) b.
     if i < length (be_bound b) then case be_bound b ! i of (fd, idx) \<Rightarrow> readCallback received fd idx b else Inr b)"

fun bench_loop :: "(int \<times> nat) list list \<Rightarrow> bench \<Rightarrow> bench res" where
  "bench_loop [] b = (if be_quit b then Inr b else Inl WouldBlock)"
| "bench_loop (evs # rest) b =
     (if be_quit b then Inr b
      else bindR (foldR bench_event evs b) (bench_loop rest))"

definition bind_callbacks :: "bench \<Rightarrow> bench res" where
  "bind_callbacks b =
     (if numPipes b \<le> int (length (g_channels b))
      then Inr (b\<lparr>be_bound := zip (g_channels b) [0..numPipes b - 1] @ drop (nat (numPipes b)) (be_bound b)\<rparr>)
      else Inl OutOfBounds)"

definition readOnce :: "int \<Rightarrow> int \<Rightarrow> int \<Rightarrow> (int \<times> nat) list list \<Rightarrow> bench \<Rightarrow> ((int \<times> int) \<times> bench) res" where
  "readOnce beforeInit beforeLoop end_time iterations b =
     bindR (bind_callbacks b) (\<lambda>b0.
      if numActive b0 = 0 then Inl DivisionByZero
      else let space = c_div (numPipes b0) (numActive b0) * 2 in
        bindR (foldR (\<lambda>i. send_byte (i * space + 1)) [0..numPipes b0 - 1] b0) (\<lambda>b1.
        bindR (bench_loop iterations (b1\<lparr>g_fired := numActive b1, g_reads := 0, g_writes := numWrites b1, be_quit := False\<rparr>)) (\<lambda>b2.
        Inr ((signed_take_bit 31 (end_time - beforeInit), signed_take_bit 31 (end_time - beforeLoop)), b2))))"

text \<open>What \<^verbatim>\<open>getopt\<close> returns for \<^verbatim>\<open>"n:a:w:"\<close>: an option with the number \<^verbatim>\<open>atoi\<close> reads in its argument, or \<^verbatim>\<open>'?'\<close>. After
  the last one it returns -1.\<close>

datatype option_found = Opt_n int | Opt_a int | Opt_w int | Opt_unknown

text \<open>The loop over the options; \<open>Inl\<close> is the exit code of a return from \<^verbatim>\<open>main\<close>. It compares with 1 instead
  of -1, and the cases \<^verbatim>\<open>'a'\<close> and \<^verbatim>\<open>'w'\<close> fall through.\<close>

fun read_options :: "option_found list \<Rightarrow> bench \<Rightarrow> int + bench" where
  "read_options (Opt_n v # opts) b = read_options opts (b\<lparr>numPipes := v\<rparr>)"
| "read_options (Opt_a v # opts) b = Inl 1"
| "read_options (Opt_w v # opts) b = Inl 1"
| "read_options (Opt_unknown # opts) b = Inl 1"
| "read_options [] b = Inl 1"

fun open_pairs :: "nat \<Rightarrow> (nat \<Rightarrow> (int \<times> int) option) \<Rightarrow> int list option" where
  "open_pairs 0 pairs = Some []"
| "open_pairs (Suc n) pairs = (case (open_pairs n pairs, pairs n) of
     (Some fds, Some (p, q)) \<Rightarrow> Some (fds @ [p, q]) | _ \<Rightarrow> None)"

text \<open>The 25 rounds; \<open>rounds\<close> gives the clock and the events of each.\<close>

fun bench_rounds :: "(int \<times> int \<times> int \<times> (int \<times> nat) list list) list \<Rightarrow> bench \<Rightarrow> ((int \<times> int) list \<times> bench) res" where
  "bench_rounds [] b = Inr ([], b)"
| "bench_rounds ((t0, t1, t2, its) # rest) b =
     bindR (readOnce t0 t1 t2 its b) (\<lambda>(t, b1). bindR (bench_rounds rest b1) (\<lambda>(ts, b2). Inr (t # ts, b2)))"

definition bench_start :: bench where
  "bench_start = \<lparr>g_pipes = [], g_channels = [], be_bound = [], numPipes = 100, numActive = 1, numWrites = 100, g_reads = 0, g_writes = 0,
     g_fired = 0, be_quit = False, be_sent = []\<rparr>"

text \<open>A channel for the first descriptor of every pair.\<close>

fun make_channels :: "nat \<Rightarrow> int list \<Rightarrow> int list" where
  "make_channels 0 fds = []"
| "make_channels (Suc n) fds = make_channels n fds @ [fds ! (2 * n)]"

text \<open>\<^verbatim>\<open>main\<close>: the exit code and the times it prints.\<close>

definition bench_main ::
    "option_found list \<Rightarrow> (nat \<Rightarrow> (int \<times> int) option) \<Rightarrow> (int \<times> int \<times> int \<times> (int \<times> nat) list list) list \<Rightarrow> (int \<times> (int \<times> int) list) res" where
  "bench_main opts pairs rounds =
     (case read_options opts bench_start of
        Inl code \<Rightarrow> Inr (code, [])
      | Inr b \<Rightarrow>
          if numPipes b < 0 then Inl LengthError
          else (case open_pairs (nat (numPipes b)) pairs of
              None \<Rightarrow> Inr (1, [])
            | Some fds \<Rightarrow> bindR (bench_rounds (take 25 rounds) (b\<lparr>g_pipes := fds,
                g_channels := make_channels (nat (numPipes b)) fds\<rparr>)) (\<lambda>(ts, _). Inr (0, ts))))"

section \<open>Lemmas\<close>

lemma read_options_exit: "read_options opts b = Inl 1"
  by (induction opts b rule: read_options.induct) simp_all

lemma send_byte_out: "\<not> (0 \<le> i \<and> i < int (length (g_pipes b))) \<Longrightarrow> send_byte i b = Inl OutOfBounds"
  by (auto simp: send_byte_def pipe_at_def)

lemma send_byte_keeps: "send_byte i b = Inr b' \<Longrightarrow> \<exists>s. b' = b\<lparr>be_sent := s\<rparr>"
  by (auto simp: send_byte_def)

lemma foldR_send_keeps: "foldR (\<lambda>i. send_byte (g i)) js b = Inr b' \<Longrightarrow> \<exists>s. b' = b\<lparr>be_sent := s\<rparr>"
proof (induction js arbitrary: b)
  case Nil
  then show ?case by (metis Inr_inject bench.surjective bench.update_convs(11) foldR.simps(1))
next
  case (Cons i js)
  then obtain b1 where "send_byte (g i) b = Inr b1" "foldR (\<lambda>i. send_byte (g i)) js b1 = Inr b'" by auto
  then show ?case using Cons.IH [of b1] send_byte_keeps by fastforce
qed

text \<open>A byte for every pair, \<^verbatim>\<open>space\<close> places apart, needs \<^verbatim>\<open>space\<close> times as many places.\<close>

lemma foldR_send_out:
  assumes "i \<in> set js" and "\<not> (0 \<le> g i \<and> g i < int (length (g_pipes b)))"
  shows "foldR (\<lambda>i. send_byte (g i)) js b = Inl OutOfBounds"
  using assms
proof (induction js arbitrary: b)
  case (Cons j js)
  show ?case
  proof (cases "send_byte (g j) b")
    case (Inl e)
    then have "e = OutOfBounds" by (auto simp: send_byte_def pipe_at_def split: if_splits)
    then show ?thesis using Inl by simp
  next
    case (Inr b1)
    then have "i \<noteq> j" using Cons.prems(2) send_byte_out by auto
    then show ?thesis using Cons.IH [of b1] Cons.prems Inr send_byte_keeps [OF Inr] by auto
  qed
qed simp

text \<open>With one byte per read, the gap between \<^verbatim>\<open>g_fired\<close> and \<^verbatim>\<open>g_reads\<close> shrinks by two while writes are left
  and by one after that.\<close>

definition gap_odd :: "bench \<Rightarrow> bool" where
  "gap_odd b \<longleftrightarrow> \<not> be_quit b \<and> (odd (g_fired b - g_reads b) \<and> g_fired b - g_reads b \<le> 2 * g_writes b \<or> g_fired b < g_reads b)"

lemma readCallback_gap:
  assumes "gap_odd b" and "readCallback 1 fd idx b = Inr b'" and "0 \<le> g_writes b"
  shows "gap_odd b' \<and> 0 \<le> g_writes b'"
proof (cases "0 < g_writes b")
  case True
  let ?b1 = "b\<lparr>g_reads := g_reads b + 1\<rparr>"
  obtain i b2 where b2: "send_byte i ?b1 = Inr b2" "b' = quit_if_done (account_write b2)"
    using assms(2) True by (auto simp: readCallback_def Let_def)
  obtain s where "b2 = ?b1\<lparr>be_sent := s\<rparr>" using send_byte_keeps [OF b2(1)] by blast
  then show ?thesis using assms(1) True b2(2)
    by (auto simp: gap_odd_def account_write_def quit_if_done_def split: if_splits)
next
  case False
  then have "b' = quit_if_done (b\<lparr>g_reads := g_reads b + 1\<rparr>)" using assms(2) by (auto simp: readCallback_def Let_def)
  then show ?thesis using assms(1,3) False by (auto simp: gap_odd_def quit_if_done_def split: if_splits)
qed

lemma readCallbacks_gap:
  assumes "foldR bench_event evs b = Inr b'" and "gap_odd b" "0 \<le> g_writes b"
    and "\<forall>(received, i)\<in>set evs. received = 1"
  shows "gap_odd b' \<and> 0 \<le> g_writes b'"
proof (rule foldR_invariant [OF assms(1), where I = "\<lambda>b. gap_odd b \<and> 0 \<le> g_writes b"])
  show "gap_odd b \<and> 0 \<le> g_writes b" using assms(2,3) by simp
next
  fix e c c'
  assume "e \<in> set evs" and c: "gap_odd c \<and> 0 \<le> g_writes c" and run: "bench_event e c = Inr c'"
  then obtain i where e: "e = (1, i)" using assms(4) by auto
  show "gap_odd c' \<and> 0 \<le> g_writes c'"
  proof (cases "i < length (be_bound c)")
    case True
    then show ?thesis using run c e readCallback_gap [of c "fst (be_bound c ! i)" "snd (be_bound c ! i)" c']
      by (simp add: bench_event_def split: prod.splits)
  qed (use run c e in \<open>simp add: bench_event_def\<close>)
qed

lemma bench_loop_waits:
  assumes "gap_odd b" "0 \<le> g_writes b" and "\<forall>evs\<in>set its. \<forall>(received, i)\<in>set evs. received = 1"
  shows "bench_loop its b \<noteq> Inr b'"
  using assms
proof (induction its arbitrary: b)
  case Nil
  then show ?case by (simp add: gap_odd_def)
next
  case (Cons evs its)
  have q: "\<not> be_quit b" using Cons.prems(1) by (simp add: gap_odd_def)
  show ?case
  proof (cases "foldR bench_event evs b")
    case (Inr b1)
    then have "gap_odd b1 \<and> 0 \<le> g_writes b1" using readCallbacks_gap [OF Inr] Cons.prems by simp
    then show ?thesis using Cons.IH [of b1] Cons.prems(3) q Inr by simp
  qed (simp add: q)
qed

section \<open>Property\<close>

text \<open>(C29) The benchmark never measures anything. Whatever the arguments, \<^verbatim>\<open>main\<close> leaves its option loop only with
  exit code 1 (it waits for 1 where \<^verbatim>\<open>getopt\<close> ends with -1), so it never reaches \<^verbatim>\<open>readOnce\<close>. If it did: with vectors
  of the sizes \<^verbatim>\<open>main\<close> gives them, at least one active pair and at least twice as many pairs as active ones,
  \<^verbatim>\<open>readOnce\<close> leaves the vector of the pipes, since it writes to every pair instead of every active one. And in a
  round whose reads deliver one byte each, with an odd number of active pairs that is at most twice the
  number of writes, the loop is never asked to quit, because \<^verbatim>\<open>g_fired\<close> counts down while \<^verbatim>\<open>g_reads\<close> counts up.\<close>

theorem bench_never_measures:
  "bench_main opts pairs rounds = Inr (1, []) \<and>
    (int (length (g_pipes b)) = 2 * numPipes b \<and> int (length (g_channels b)) = numPipes b \<and>
      0 < numActive b \<and> 2 * numActive b \<le> numPipes b \<longrightarrow> readOnce t0 t1 t2 its b = Inl OutOfBounds) \<and>
    (0 < numActive b \<and> odd (numActive b) \<and> numActive b \<le> 2 * numWrites b \<and>
      (\<forall>evs\<in>set its. \<forall>(received, i)\<in>set evs. received = 1) \<longrightarrow>
      (\<forall>b'. bench_loop its (b\<lparr>g_fired := numActive b, g_reads := 0, g_writes := numWrites b, be_quit := False\<rparr>) \<noteq> Inr b'))"
proof (intro conjI impI allI)
  show "bench_main opts pairs rounds = Inr (1, [])" by (simp add: bench_main_def read_options_exit)
next
  assume "int (length (g_pipes b)) = 2 * numPipes b \<and> int (length (g_channels b)) = numPipes b \<and>
      0 < numActive b \<and> 2 * numActive b \<le> numPipes b"
  then have pipes: "int (length (g_pipes b)) = 2 * numPipes b" "int (length (g_channels b)) = numPipes b"
    and active: "0 < numActive b" "2 * numActive b \<le> numPipes b" by simp_all
  let ?space = "c_div (numPipes b) (numActive b) * 2" and ?i = "numPipes b - 1"
  have "2 \<le> numPipes b div numActive b" using zdiv_mono1 [of "2 * numActive b" "numPipes b" "numActive b"] active by simp
  then have sp: "4 \<le> ?space" using active by (simp add: c_div_nonneg)
  have n: "2 \<le> numPipes b" using active by linarith
  obtain last where last: "last = ?i * ?space" by simp
  have "?i * 4 \<le> last" unfolding last using sp n by (intro mult_left_mono) simp_all
  then have "4 * numPipes b - 4 \<le> last" by (simp add: algebra_simps)
  then have "2 * numPipes b \<le> last + 1" using n by linarith
  then have "int (length (g_pipes b)) \<le> last + 1" using pipes(1) by simp
  then have "int (length (g_pipes b)) \<le> ?i * ?space + 1" by (simp only: last)
  then have "foldR (\<lambda>i. send_byte (i * ?space + 1)) [0..?i] (b\<lparr>be_bound := cb\<rparr>) = Inl OutOfBounds" for cb
    by (intro foldR_send_out [of ?i]) (use n in simp_all)
  then show "readOnce t0 t1 t2 its b = Inl OutOfBounds"
    using active(1) pipes(2) by (simp add: readOnce_def bind_callbacks_def Let_def)
next
  fix b'
  assume "0 < numActive b \<and> odd (numActive b) \<and> numActive b \<le> 2 * numWrites b \<and>
      (\<forall>evs\<in>set its. \<forall>(received, i)\<in>set evs. received = 1)"
  then have active: "0 < numActive b" and counts: "odd (numActive b)" "numActive b \<le> 2 * numWrites b"
    and reads: "\<forall>evs\<in>set its. \<forall>(received, i)\<in>set evs. received = 1" by simp_all
  show "bench_loop its (b\<lparr>g_fired := numActive b, g_reads := 0, g_writes := numWrites b, be_quit := False\<rparr>) \<noteq> Inr b'"
    by (rule bench_loop_waits [OF _ _ reads]) (use active counts in \<open>simp_all add: gap_odd_def\<close>)
qed

text \<open>The default numbers.\<close>

theorem bench_never_measures_witness:
  "bench_main [Opt_n 50, Opt_w 3] (\<lambda>_. None) [] = Inr (1, []) \<and>
   readOnce 0 1 2 [[(1, 0)], [(1, 1)]] (bench_start\<lparr>g_pipes := replicate 200 7, g_channels := replicate 100 7\<rparr>) = Inl OutOfBounds \<and>
   (\<forall>b'. bench_loop [[(1, 0)], [(1, 1)]] (bench_start\<lparr>g_pipes := replicate 200 7, g_channels := replicate 100 7,
      g_fired := 1, g_reads := 0, g_writes := 100, be_quit := False\<rparr>) \<noteq> Inr b')"
proof -
  let ?b = "bench_start\<lparr>g_pipes := replicate 200 7, g_channels := replicate 100 7\<rparr>"
  have n: "numPipes ?b = 100" "numActive ?b = 1" "numWrites ?b = 100" "length (g_pipes ?b) = 200" "length (g_channels ?b) = 100"
    by (simp_all add: bench_start_def)
  show ?thesis using bench_never_measures [where b = ?b and its = "[[(1, 0)], [(1, 1)]]"] unfolding n by simp
qed

end
