(* ===== verification/Log_Stream.thy ===== *)
theory Log_Stream
  imports Decimal Timestamps
begin

text \<open>
  \<^verbatim>\<open>FixedBuffer\<close>, \<^verbatim>\<open>LoggingStream\<close>, \<^verbatim>\<open>T\<close> and \<^verbatim>\<open>Fmt\<close> (src/logging/LoggingStream.h, LoggingStream.cc): the stack
  buffer of a log line and the operators that format values into it. The buffer's array is a list of
  bytes and \<^verbatim>\<open>cur_\<close> an offset; a write outside the array is the fault \<open>OutOfBounds\<close>. The text of a
  \<^verbatim>\<open>double\<close> under \<^verbatim>\<open>%.12g\<close> is an argument. Abstractly a stream is the text written so far and the room
  left, and every operator appends its text as a whole or not at all (\<open>put_spec\<close>).
\<close>

type_synonym octet = char

abbreviation NUL :: octet where
  "NUL \<equiv> CHR 0x00"

section \<open>FixedBuffer\<close>

record fixedBuffer =
  fb_data :: "octet list"
  fb_cur :: nat

definition kMinBufferSize :: nat where
  "kMinBufferSize = 4000"

definition kMaxBufferSize :: nat where
  "kMaxBufferSize = 4000 * 1000"

text \<open>The constructor leaves the array as it is in memory.\<close>

definition FixedBuffer_new :: "octet list \<Rightarrow> fixedBuffer" where
  "FixedBuffer_new memory = \<lparr>fb_data = memory, fb_cur = 0\<rparr>"

definition FixedBuffer_avail :: "fixedBuffer \<Rightarrow> int" where
  "FixedBuffer_avail b = int (length (fb_data b)) - int (fb_cur b)"

definition FixedBuffer_length :: "fixedBuffer \<Rightarrow> int" where
  "FixedBuffer_length b = int (fb_cur b)"

text \<open>\<^verbatim>\<open>memcpy(cur_, buf, len)\<close> with a negative \<^verbatim>\<open>len\<close> copies almost the whole address space.\<close>

definition FixedBuffer_append :: "octet list \<Rightarrow> int \<Rightarrow> fixedBuffer \<Rightarrow> fixedBuffer res" where
  "FixedBuffer_append buf len b =
     (if FixedBuffer_avail b > len
      then if len < 0 \<or> int (length buf) < len then Inl OutOfBounds
        else bindR (copy_into (take (nat len) buf) (fb_cur b) (fb_data b)) (\<lambda>d.
          Inr \<lparr>fb_data = d, fb_cur = fb_cur b + nat len\<rparr>)
      else Inr b)"

text \<open>\<^verbatim>\<open>add\<close> moves the end without a check; leaving the array is undefined behaviour.\<close>

definition FixedBuffer_add :: "int \<Rightarrow> fixedBuffer \<Rightarrow> fixedBuffer res" where
  "FixedBuffer_add len b =
     (let cur = int (fb_cur b) + len in
      if 0 \<le> cur \<and> cur \<le> int (length (fb_data b)) then Inr (b\<lparr>fb_cur := nat cur\<rparr>) else Inl OutOfBounds)"

definition FixedBuffer_reset :: "fixedBuffer \<Rightarrow> fixedBuffer" where
  "FixedBuffer_reset b = b\<lparr>fb_cur := 0\<rparr>"

definition FixedBuffer_bzero :: "fixedBuffer \<Rightarrow> fixedBuffer" where
  "FixedBuffer_bzero b = b\<lparr>fb_data := replicate (length (fb_data b)) NUL\<rparr>"

definition FixedBuffer_tostring :: "fixedBuffer \<Rightarrow> octet list" where
  "FixedBuffer_tostring b = take (fb_cur b) (fb_data b)"

section \<open>Conversion of integers\<close>

definition digits :: string where
  "digits = ''9876543210123456789''"

text \<open>\<^verbatim>\<open>zero[lsd]\<close>, where \<^verbatim>\<open>zero\<close> points at the middle of \<^verbatim>\<open>digits\<close>.\<close>

definition zero_at :: "int \<Rightarrow> char" where
  "zero_at lsd = digits ! nat (9 + lsd)"

definition digitsHex :: string where
  "digitsHex = ''0123456789abcdef''"

text \<open>The \<^verbatim>\<open>do\<close> loop: the digits from the least significant one. The remainder of a negative number is
  negative or zero.\<close>

function convert_loop :: "int \<Rightarrow> string \<Rightarrow> string" where
  "convert_loop i p =
     (let lsd = c_mod i 10; i' = c_div i 10; p' = p @ [zero_at lsd] in
      if i' \<noteq> 0 then convert_loop i' p' else p')"
  by auto

termination
proof (relation "measure (\<lambda>(i, p). nat \<bar>i\<bar>)")
  fix i lsd i' :: int and p p' :: string
  assume "i' = c_div i 10" "i' \<noteq> 0"
  then have "\<bar>i'\<bar> < \<bar>i\<bar>" by (cases "i < 0") (auto simp: c_div_neg c_div_nonneg)
  then show "((i', p'), i, p) \<in> measure (\<lambda>(i, p). nat \<bar>i\<bar>)" by simp
qed simp

declare convert_loop.simps [simp del]

text \<open>The characters \<^verbatim>\<open>convert\<close> leaves in front of the terminating zero; their number is its result.\<close>

definition convert :: "int \<Rightarrow> string" where
  "convert v = rev (convert_loop v [] @ (if v < 0 then ''-'' else []))"

function convertHex_loop :: "nat \<Rightarrow> string \<Rightarrow> string" where
  "convertHex_loop i p =
     (let lsd = i mod 16; i' = i div 16; p' = p @ [digitsHex ! lsd] in
      if i' \<noteq> 0 then convertHex_loop i' p' else p')"
  by auto

termination
  by (relation "measure fst") auto

declare convertHex_loop.simps [simp del]

definition convertHex :: "64 word \<Rightarrow> string" where
  "convertHex value = rev (convertHex_loop (unat value) [])"

section \<open>LoggingStream\<close>

definition kMaxNumericSize :: int where
  "kMaxNumericSize = 32"

definition LoggingStream_new :: "octet list \<Rightarrow> fixedBuffer" where
  "LoggingStream_new memory = FixedBuffer_bzero (FixedBuffer_new memory)"

text \<open>A formatter writes its text and a terminating zero at \<^verbatim>\<open>current()\<close> and adds the text's length.\<close>

definition write_current :: "string \<Rightarrow> fixedBuffer \<Rightarrow> fixedBuffer res" where
  "write_current s b =
     bindR (copy_into (s @ [NUL]) (fb_cur b) (fb_data b)) (\<lambda>d. FixedBuffer_add (int (length s)) (b\<lparr>fb_data := d\<rparr>))"

definition formatInteger :: "int \<Rightarrow> fixedBuffer \<Rightarrow> fixedBuffer res" where
  "formatInteger v b =
     (if FixedBuffer_avail b \<ge> kMaxNumericSize then write_current (convert v) b else Inr b)"

definition put_bool :: "bool \<Rightarrow> fixedBuffer \<Rightarrow> fixedBuffer res" where
  "put_bool v = FixedBuffer_append (if v then ''1'' else ''0'') 1"

definition put_char :: "char \<Rightarrow> fixedBuffer \<Rightarrow> fixedBuffer res" where
  "put_char v = FixedBuffer_append [v] 1"

definition put_int :: "32 word \<Rightarrow> fixedBuffer \<Rightarrow> fixedBuffer res" where
  "put_int v = formatInteger (sint v)"

definition put_unsigned_int :: "32 word \<Rightarrow> fixedBuffer \<Rightarrow> fixedBuffer res" where
  "put_unsigned_int v = formatInteger (uint v)"

definition put_short :: "16 word \<Rightarrow> fixedBuffer \<Rightarrow> fixedBuffer res" where
  "put_short v = put_int (scast v)"

definition put_unsigned_short :: "16 word \<Rightarrow> fixedBuffer \<Rightarrow> fixedBuffer res" where
  "put_unsigned_short v = put_unsigned_int (ucast v)"

definition put_long :: "64 word \<Rightarrow> fixedBuffer \<Rightarrow> fixedBuffer res" where
  "put_long v = formatInteger (sint v)"

definition put_unsigned_long :: "64 word \<Rightarrow> fixedBuffer \<Rightarrow> fixedBuffer res" where
  "put_unsigned_long v = formatInteger (uint v)"

definition put_long_long :: "64 word \<Rightarrow> fixedBuffer \<Rightarrow> fixedBuffer res" where
  "put_long_long v = formatInteger (sint v)"

definition put_pointer :: "64 word \<Rightarrow> fixedBuffer \<Rightarrow> fixedBuffer res" where
  "put_pointer p b =
     (if FixedBuffer_avail b \<ge> kMaxNumericSize then write_current (''0x'' @ convertHex p) b else Inr b)"

text \<open>\<^verbatim>\<open>snprintf\<close> cuts the text but returns its whole length.\<close>

definition put_double :: "string \<Rightarrow> fixedBuffer \<Rightarrow> fixedBuffer res" where
  "put_double g12 b =
     (if FixedBuffer_avail b \<ge> kMaxNumericSize
      then bindR (copy_into (snprintf (nat kMaxNumericSize) g12 @ [NUL]) (fb_cur b) (fb_data b)) (\<lambda>d.
        FixedBuffer_add (int (length g12)) (b\<lparr>fb_data := d\<rparr>))
      else Inr b)"

text \<open>A length of type \<^verbatim>\<open>size_t\<close> passed as an \<^verbatim>\<open>int\<close>.\<close>

definition as_int :: "nat \<Rightarrow> int" where
  "as_int n = sint (of_nat n :: 32 word)"

definition put_string :: "string \<Rightarrow> fixedBuffer \<Rightarrow> fixedBuffer res" where
  "put_string str = FixedBuffer_append str (as_int (length str))"

text \<open>A C string ends at its first zero.\<close>

definition c_str :: "octet list \<Rightarrow> string" where
  "c_str buf = takeWhile (\<lambda>c. c \<noteq> NUL) buf"

definition put_c_string :: "octet list \<Rightarrow> fixedBuffer \<Rightarrow> fixedBuffer res" where
  "put_c_string buf = put_string (c_str buf)"

text \<open>\<^verbatim>\<open>T(str, len)\<close> checks the length it is given.\<close>

definition T_new :: "octet list \<Rightarrow> nat \<Rightarrow> (string \<times> nat) res" where
  "T_new str len = assertC (length (c_str str) = len) (Inr (c_str str, len))"

definition put_T :: "string \<times> nat \<Rightarrow> fixedBuffer \<Rightarrow> fixedBuffer res" where
  "put_T v = FixedBuffer_append (fst v) (as_int (snd v))"

text \<open>\<^verbatim>\<open>Fmt(fmt, val)\<close>, given the text that \<^verbatim>\<open>snprintf\<close> formats.\<close>

definition Fmt_new :: "string \<Rightarrow> (octet list \<times> nat) res" where
  "Fmt_new text = assertC (length text < 32) (Inr (snprintf 32 text @ [NUL], length text))"

definition put_Fmt :: "octet list \<times> nat \<Rightarrow> fixedBuffer \<Rightarrow> fixedBuffer res" where
  "put_Fmt f = FixedBuffer_append (fst f) (int (snd f))"

text \<open>One \<^verbatim>\<open><<\<close> of a log statement; a \<^verbatim>\<open>double\<close> is given by its \<^verbatim>\<open>%.12g\<close> text.\<close>

datatype log_item =
    Bool bool
  | Char char
  | Short "16 word"
  | UnsignedShort "16 word"
  | SignedInt "32 word"
  | UnsignedInt "32 word"
  | Long "64 word"
  | UnsignedLong "64 word"
  | LongLong "64 word"
  | Double string
  | CString "octet list"
  | StdString string
  | Pointer "64 word"

fun put :: "log_item \<Rightarrow> fixedBuffer \<Rightarrow> fixedBuffer res" where
  "put (Bool v) = put_bool v"
| "put (Char v) = put_char v"
| "put (Short v) = put_short v"
| "put (UnsignedShort v) = put_unsigned_short v"
| "put (SignedInt v) = put_int v"
| "put (UnsignedInt v) = put_unsigned_int v"
| "put (Long v) = put_long v"
| "put (UnsignedLong v) = put_unsigned_long v"
| "put (LongLong v) = put_long_long v"
| "put (Double g12) = put_double g12"
| "put (CString buf) = put_c_string buf"
| "put (StdString str) = put_string str"
| "put (Pointer p) = put_pointer p"

section \<open>What the operators mean\<close>

fun item_text :: "log_item \<Rightarrow> string" where
  "item_text (Bool v) = (if v then ''1'' else ''0'')"
| "item_text (Char v) = [v]"
| "item_text (Short v) = fmt_d (sint v)"
| "item_text (UnsignedShort v) = fmt_d (uint v)"
| "item_text (SignedInt v) = fmt_d (sint v)"
| "item_text (UnsignedInt v) = fmt_d (uint v)"
| "item_text (Long v) = fmt_d (sint v)"
| "item_text (UnsignedLong v) = fmt_d (uint v)"
| "item_text (LongLong v) = fmt_d (sint v)"
| "item_text (Double g12) = g12"
| "item_text (CString buf) = c_str buf"
| "item_text (StdString str) = str"
| "item_text (Pointer p) = ''0x'' @ base_digits 16 (unat p)"

text \<open>A number, a pointer and a \<^verbatim>\<open>double\<close> need 32 free bytes whatever their text; other items need one byte more
  than their text. Without the room, the item is dropped.\<close>

fun item_room :: "log_item \<Rightarrow> nat" where
  "item_room (Bool v) = 2"
| "item_room (Char v) = 2"
| "item_room (CString buf) = length (c_str buf) + 1"
| "item_room (StdString str) = length str + 1"
| "item_room _ = 32"

definition put_spec :: "nat \<Rightarrow> log_item \<Rightarrow> string \<Rightarrow> string" where
  "put_spec cap it t = (if length t + item_room it \<le> cap then t @ item_text it else t)"

text \<open>Strings an \<^verbatim>\<open>int\<close> can measure, and \<^verbatim>\<open>%.12g\<close> texts of at most 31 characters (19 suffice).\<close>

fun item_ok :: "log_item \<Rightarrow> bool" where
  "item_ok (Double g12) \<longleftrightarrow> length g12 < 32"
| "item_ok (CString buf) \<longleftrightarrow> length (c_str buf) < 2147483648"
| "item_ok (StdString str) \<longleftrightarrow> length str < 2147483648"
| "item_ok _ \<longleftrightarrow> True"

definition fb_inv :: "fixedBuffer \<Rightarrow> bool" where
  "fb_inv b \<longleftrightarrow> fb_cur b < length (fb_data b)"

section \<open>The digits of convert\<close>

lemma zero_at_digit: "\<bar>d\<bar> < 10 \<Longrightarrow> zero_at d = digit_char (nat \<bar>d\<bar>)"
proof -
  assume "\<bar>d\<bar> < 10"
  have "list_all (\<lambda>d. zero_at d = digit_char (nat \<bar>d\<bar>)) [-9..9]" by code_simp
  then have "\<forall>d \<in> set [-9..9]. zero_at d = digit_char (nat \<bar>d\<bar>)" by (simp only: list_all_iff)
  moreover have "d \<in> set [-9..9]" using \<open>\<bar>d\<bar> < 10\<close> by (simp only: set_upto atLeastAtMost_iff) linarith
  ultimately show ?thesis by blast
qed

lemma abs_c_mod: "0 < b \<Longrightarrow> \<bar>c_mod a b\<bar> = \<bar>a\<bar> mod b"
  by (cases "a < 0") (simp_all add: c_mod_neg c_mod_nonneg)

lemma abs_c_div: "0 < b \<Longrightarrow> \<bar>c_div a b\<bar> = \<bar>a\<bar> div b"
  by (cases "a < 0") (simp_all add: c_div_neg c_div_nonneg pos_imp_zdiv_nonneg_iff)

lemma convert_loop_digits: "convert_loop i p = p @ rev (dec (nat \<bar>i\<bar>))"
proof (induction i p rule: convert_loop.induct)
  case (1 i p)
  have m: "zero_at (c_mod i 10) = digit_char (nat \<bar>i\<bar> mod 10)"
    by (simp add: zero_at_digit abs_c_mod nat_mod_distrib)
  have d: "nat \<bar>c_div i 10\<bar> = nat \<bar>i\<bar> div 10" by (simp add: abs_c_div nat_div_distrib)
  show ?case
  proof (cases "c_div i 10 = 0")
    case True
    then have "nat \<bar>i\<bar> < 10" using d by simp
    then show ?thesis using True m by (subst convert_loop.simps, subst base_digits.simps) (simp add: Let_def)
  next
    case False
    then have "nat \<bar>c_div i 10\<bar> \<noteq> 0" by simp
    then have "\<not> nat \<bar>i\<bar> < 10" unfolding d by simp
    then have "dec (nat \<bar>i\<bar>) = dec (nat \<bar>i\<bar> div 10) @ [digit_char (nat \<bar>i\<bar> mod 10)]"
      by (subst base_digits.simps) simp
    moreover have "convert_loop i p = convert_loop (c_div i 10) (p @ [zero_at (c_mod i 10)])"
      using False by (subst convert_loop.simps) (simp add: Let_def)
    ultimately show ?thesis using 1 [OF refl refl refl False] by (simp add: d m)
  qed
qed

lemma convert_eq: "convert v = fmt_d v"
  by (simp add: convert_def convert_loop_digits fmt_d_def)

lemma convertHex_loop_digits: "convertHex_loop i p = p @ rev (base_digits 16 i)"
proof (induction i p rule: convertHex_loop.induct)
  case (1 i p)
  have m: "digitsHex ! (i mod 16) = digit_char (i mod 16)" by (simp add: digitsHex_def digit_char_def)
  show ?case
  proof (cases "i < 16")
    case True
    then show ?thesis using m by (subst convertHex_loop.simps, subst base_digits.simps) (simp add: Let_def)
  next
    case False
    then have n: "i div 16 \<noteq> 0" by simp
    have "convertHex_loop i p = convertHex_loop (i div 16) (p @ [digitsHex ! (i mod 16)])"
      using n by (subst convertHex_loop.simps) (simp add: Let_def)
    moreover have "base_digits 16 i = base_digits 16 (i div 16) @ [digit_char (i mod 16)]"
      using False by (subst base_digits.simps) simp
    ultimately show ?thesis using 1 [OF refl refl refl n] by (simp add: m)
  qed
qed

lemma convertHex_eq: "convertHex p = base_digits 16 (unat p)"
  by (simp add: convertHex_def convertHex_loop_digits)

section \<open>Every operator appends its text or nothing\<close>

text \<open>The buffer after an item of text \<open>t\<close> that was kept if \<open>fits\<close>.\<close>

definition put_result :: "fixedBuffer \<Rightarrow> string \<Rightarrow> bool \<Rightarrow> fixedBuffer \<Rightarrow> bool" where
  "put_result b t fits b' \<longleftrightarrow> fb_inv b' \<and> length (fb_data b') = length (fb_data b) \<and>
     FixedBuffer_tostring b' = FixedBuffer_tostring b @ (if fits then t else [])"

lemma length_tostring [simp]: "fb_inv b \<Longrightarrow> length (FixedBuffer_tostring b) = fb_cur b"
  by (simp add: FixedBuffer_tostring_def fb_inv_def)

lemma take_blit: "i + length t \<le> length d \<Longrightarrow> take (i + length t) (blit (t @ u) i d) = take i d @ t"
  by (cases t) (simp_all add: blit_def)

lemma append_result:
  assumes "fb_inv b"
  shows "\<exists>b'. FixedBuffer_append s (int (length s)) b = Inr b' \<and>
    put_result b s (fb_cur b + (length s + 1) \<le> length (fb_data b)) b'"
proof (cases "fb_cur b + length s < length (fb_data b)")
  case True
  have "take (fb_cur b + length s) (blit s (fb_cur b) (fb_data b)) = take (fb_cur b) (fb_data b) @ s"
    using take_blit [of "fb_cur b" s "fb_data b" "[]"] True by simp
  with True show ?thesis
    by (simp add: FixedBuffer_append_def FixedBuffer_avail_def copy_into_def put_result_def fb_inv_def FixedBuffer_tostring_def)
next
  case False
  with assms show ?thesis
    by (simp add: FixedBuffer_append_def FixedBuffer_avail_def put_result_def)
qed

lemma write_current_result:
  assumes "fb_inv b" and "length s < 32" and "fb_cur b + 32 \<le> length (fb_data b)"
  shows "\<exists>b'. write_current s b = Inr b' \<and> put_result b s True b'"
proof -
  let ?d = "blit (s @ [NUL]) (fb_cur b) (fb_data b)"
  have "take (fb_cur b + length s) ?d = take (fb_cur b) (fb_data b) @ s"
    using take_blit [of "fb_cur b" s "fb_data b" "[NUL]"] assms by simp
  with assms show ?thesis
    by (simp add: write_current_def copy_into_def FixedBuffer_add_def put_result_def fb_inv_def
        FixedBuffer_tostring_def nat_add_distrib)
qed

lemma numeric_result:
  assumes "fb_inv b" and "length s < 32"
  shows "\<exists>b'. (if FixedBuffer_avail b \<ge> kMaxNumericSize then write_current s b else Inr b) = Inr b' \<and>
    put_result b s (fb_cur b + 32 \<le> length (fb_data b)) b'"
proof (cases "fb_cur b + 32 \<le> length (fb_data b)")
  case True
  then show ?thesis using write_current_result [OF assms True]
    by (simp add: FixedBuffer_avail_def kMaxNumericSize_def)
next
  case False
  then show ?thesis using assms(1)
    by (simp add: FixedBuffer_avail_def kMaxNumericSize_def put_result_def)
qed

lemma length_fmt_d_64:
  assumes "\<bar>v\<bar> < 100000000000000000000"
  shows "length (fmt_d v) < 32"
proof -
  have "length (fmt_d v) \<le> 1 + length (dec (nat \<bar>v\<bar>))" by (simp add: fmt_d_def)
  also have "length (dec (nat \<bar>v\<bar>)) \<le> 20" using assms by (intro length_base_digits) (simp_all add: nat_less_iff)
  finally show ?thesis by simp
qed

lemma formatInteger_result:
  assumes "fb_inv b" and "\<bar>v\<bar> < 100000000000000000000"
  shows "\<exists>b'. formatInteger v b = Inr b' \<and> put_result b (fmt_d v) (fb_cur b + 32 \<le> length (fb_data b)) b'"
  unfolding formatInteger_def convert_eq by (rule numeric_result [OF assms(1) length_fmt_d_64 [OF assms(2)]])

lemma abs_sint_bound: "LENGTH('a) \<le> 64 \<Longrightarrow> \<bar>sint (w :: 'a::len word)\<bar> < 100000000000000000000"
proof -
  assume "LENGTH('a) \<le> 64"
  then have "(2 :: int) ^ (LENGTH('a) - 1) \<le> 2 ^ 63" by (intro power_increasing) simp_all
  moreover have "- (2 ^ (LENGTH('a) - 1)) \<le> sint w" "sint w < 2 ^ (LENGTH('a) - 1)"
    using sint_greater_eq [of w] sint_less [of w] by simp_all
  ultimately show ?thesis by simp
qed

lemma uint_bound: "LENGTH('a) \<le> 64 \<Longrightarrow> uint (w :: 'a::len word) < 100000000000000000000"
proof -
  assume "LENGTH('a) \<le> 64"
  then have "(2 :: int) ^ LENGTH('a) \<le> 2 ^ 64" by (intro power_increasing) simp_all
  moreover have "uint w < 2 ^ LENGTH('a)" by simp
  ultimately have "uint w < 2 ^ 64" by (rule order.strict_trans2 [rotated])
  then show ?thesis by simp
qed

lemma as_int_small: "n < 2147483648 \<Longrightarrow> as_int n = int n"
  by (simp add: as_int_def signed_of_nat signed_take_bit_int_eq_self)

lemma length_hex: "length (base_digits 16 (unat (p :: 64 word))) \<le> 16"
  using unsigned_less [of p, where ?'a = nat] by (intro length_base_digits) simp_all

lemma put_double_result:
  assumes "fb_inv b" and "length g12 < 32"
  shows "\<exists>b'. put_double g12 b = Inr b' \<and> put_result b g12 (fb_cur b + 32 \<le> length (fb_data b)) b'"
proof -
  have "snprintf (nat kMaxNumericSize) g12 = g12" using assms(2) by (simp add: snprintf_def kMaxNumericSize_def)
  then have "put_double g12 b = (if FixedBuffer_avail b \<ge> kMaxNumericSize then write_current g12 b else Inr b)"
    by (simp add: put_double_def write_current_def)
  then show ?thesis using numeric_result [OF assms] by simp
qed

lemma put_pointer_result:
  assumes "fb_inv b"
  shows "\<exists>b'. put_pointer p b = Inr b' \<and>
    put_result b (''0x'' @ base_digits 16 (unat p)) (fb_cur b + 32 \<le> length (fb_data b)) b'"
proof -
  have "length (''0x'' @ base_digits 16 (unat p)) < 32" using length_hex [of p] by simp
  from numeric_result [OF assms this] show ?thesis unfolding put_pointer_def convertHex_eq .
qed

lemma put_string_result:
  assumes "fb_inv b" and "length s < 2147483648"
  shows "\<exists>b'. put_string s b = Inr b' \<and> put_result b s (fb_cur b + (length s + 1) \<le> length (fb_data b)) b'"
  using append_result [OF assms(1), of s] assms(2) by (simp add: put_string_def as_int_small)

lemmas put_results = append_result formatInteger_result put_double_result put_pointer_result put_string_result

lemma sint_scast16 [simp]: "sint (scast (v :: 16 word) :: 32 word) = sint v"
proof (rule bit_eqI)
  show "bit (sint (scast v :: 32 word)) n = bit (sint v) n" for n
    by (cases "n = 15"; cases "n < 15") (auto simp: bit_sint_iff bit_signed_iff min_def dest: bit_imp_le_length)
qed

lemma uint_ucast16 [simp]: "uint (ucast (v :: 16 word) :: 32 word) = uint v"
proof -
  have "uint v < 2 ^ 16" using unsigned_less [of v, where ?'a = int] by simp
  then have "uint v < 2 ^ 32" by simp
  then show ?thesis by (simp add: unsigned_ucast_eq take_bit_int_eq_self)
qed

lemmas put_integers = put_int_def put_unsigned_int_def put_short_def put_unsigned_short_def put_long_def
  put_unsigned_long_def put_long_long_def

lemma put_item:
  assumes "fb_inv b" and "item_ok it"
  shows "\<exists>b'. put it b = Inr b' \<and> put_result b (item_text it) (fb_cur b + item_room it \<le> length (fb_data b)) b'"
proof (cases it)
  case (Bool v)
  with append_result [OF assms(1), of "if v then ''1'' else ''0''"] show ?thesis
    by (cases v) (simp_all add: put_bool_def)
next
  case (Char c)
  with append_result [OF assms(1), of "[c]"] show ?thesis by (simp add: put_char_def)
next
  case (CString buf)
  with put_string_result [OF assms(1), of "c_str buf"] assms(2) show ?thesis by (simp add: put_c_string_def)
qed (use assms put_string_result put_double_result put_pointer_result in
     \<open>simp_all add: put_integers formatInteger_result abs_sint_bound uint_bound\<close>)

lemma length_item_text: "item_ok it \<Longrightarrow> length (item_text it) \<le> item_room it"
proof (cases it)
  case (Pointer p)
  then show ?thesis using length_hex [of p] by simp
qed (simp_all add: less_imp_le length_fmt_d_64 abs_sint_bound uint_bound)

lemma puts_refine:
  assumes "fb_inv b" and "list_all item_ok items"
  shows "\<exists>b'. foldR put items b = Inr b' \<and> fb_inv b' \<and> length (fb_data b') = length (fb_data b) \<and>
    FixedBuffer_tostring b' = fold (put_spec (length (fb_data b))) items (FixedBuffer_tostring b)"
  using assms
proof (induction items arbitrary: b)
  case (Cons it items)
  obtain b1 where b1: "put it b = Inr b1"
      "put_result b (item_text it) (fb_cur b + item_room it \<le> length (fb_data b)) b1"
    using put_item [OF Cons.prems(1)] Cons.prems(2) by auto
  then have "fb_inv b1" "length (fb_data b1) = length (fb_data b)"
      "FixedBuffer_tostring b1 = put_spec (length (fb_data b)) it (FixedBuffer_tostring b)"
    using Cons.prems(1) by (simp_all add: put_result_def put_spec_def)
  with Cons.IH [of b1] Cons.prems(2) b1(1) show ?case by simp
qed simp

lemma put_spec_all:
  assumes "length t + sum_list (map item_room items) \<le> cap" and "list_all item_ok items"
  shows "fold (put_spec cap) items t = t @ concat (map item_text items)"
  using assms
proof (induction items arbitrary: t)
  case (Cons it items)
  then have "length (t @ item_text it) + sum_list (map item_room items) \<le> cap"
    using length_item_text [of it] by simp
  with Cons show ?case by (simp add: put_spec_def)
qed simp

section \<open>Properties\<close>

text \<open>(C33) \<^verbatim>\<open>convert\<close>, which reads the digits off a table centred at zero so that the negative remainders of C
  need no case, writes the decimal text of every integer, including the most negative one;
  \<^verbatim>\<open>convertHex\<close> writes the hexadecimal text of an address.\<close>

theorem convert_decimal:
  "convert v = fmt_d v \<and> read_int (convert v) = v \<and>
   convertHex p = base_digits 16 (unat p) \<and> base_value 16 (convertHex p) 0 = unat p"
  by (simp add: convert_eq convertHex_eq base_value_base_digits)

text \<open>(C21) Any sequence of \<^verbatim>\<open><<\<close> on a log stream stays inside the buffer and appends each item's text
  completely or not at all: a number is dropped if fewer than 32 bytes are free, a string if it would
  not leave one byte free. If there is room for all items, the buffer holds exactly their texts.\<close>

theorem logstream_refines:
  assumes "fb_inv b" and "list_all item_ok items"
  shows "\<exists>b'. foldR put items b = Inr b' \<and> fb_inv b' \<and> length (fb_data b') = length (fb_data b) \<and>
    FixedBuffer_tostring b' = fold (put_spec (length (fb_data b))) items (FixedBuffer_tostring b) \<and>
    (fb_cur b + sum_list (map item_room items) \<le> length (fb_data b) \<longrightarrow>
      FixedBuffer_tostring b' = FixedBuffer_tostring b @ concat (map item_text items))"
  using puts_refine [OF assms] put_spec_all [of "FixedBuffer_tostring b" items "length (fb_data b)"] assms by auto

theorem logstream_refines_witness:
  "\<exists>b'. foldR put [CString ''n='', SignedInt (- 7), Bool True, UnsignedLong 18] (LoggingStream_new (replicate 36 NUL)) = Inr b' \<and>
     FixedBuffer_tostring b' = ''n=-71''"
proof -
  let ?items = "[CString ''n='', SignedInt (- 7), Bool True, UnsignedLong 18]"
  let ?b = "LoggingStream_new (replicate 36 NUL)"
  have b: "fb_inv ?b" "length (fb_data ?b) = 36" "FixedBuffer_tostring ?b = []"
    by (simp_all add: LoggingStream_new_def FixedBuffer_new_def FixedBuffer_bzero_def fb_inv_def FixedBuffer_tostring_def)
  have "dec 7 = ''7''" "dec 18 = ''18''" by (simp_all add: base_digits.simps digit_char_def)
  then have "fold (put_spec 36) ?items [] = ''n=-71''" by (simp add: put_spec_def fmt_d_def c_str_def)
  with logstream_refines [of ?b ?items] b show ?thesis by (auto simp: c_str_def)
qed

end
