(* ===== verification/Logger.thy ===== *)
theory Logger
  imports Log_Stream
begin

text \<open>
  \<^verbatim>\<open>Logger\<close> (src/logging/Logging.h, Logging.cc): the log statement macros, the layout of a line and the
  thread's cache of the formatted second. A statement constructs a \<^verbatim>\<open>Logger\<close>, formats its items into the
  stream and ends with the destructor, which outputs the line. The global and thread-local variables
  are a record; the calls of the output and flush functions and of \<^verbatim>\<open>abort()\<close> are events in order, so a
  process has ended when its last event is \<open>Abort_call\<close>. The clock, \<^verbatim>\<open>gmtime_r\<close>, the thread id, \<^verbatim>\<open>errno\<close>,
  \<^verbatim>\<open>strerror_r\<close> and the uninitialised stack bytes of the buffer are parameters (\<open>log_env\<close>).
\<close>

section \<open>Model\<close>

datatype logLevel = TRACE | DEBUG | INFO | WARN | ERROR | FATAL | NUM_LOG_LEVELS

fun level_index :: "logLevel \<Rightarrow> nat" where
  "level_index TRACE = 0"
| "level_index DEBUG = 1"
| "level_index INFO = 2"
| "level_index WARN = 3"
| "level_index ERROR = 4"
| "level_index FATAL = 5"
| "level_index NUM_LOG_LEVELS = 6"

lemma level_index_inject [simp]: "level_index a = level_index b \<longleftrightarrow> a = b"
  by (cases a; cases b; simp)

text \<open>The enumerators are compared as integers.\<close>

instantiation logLevel :: linorder
begin

definition less_eq_logLevel :: "logLevel \<Rightarrow> logLevel \<Rightarrow> bool" where
  "less_eq_logLevel a b \<longleftrightarrow> level_index a \<le> level_index b"

definition less_logLevel :: "logLevel \<Rightarrow> logLevel \<Rightarrow> bool" where
  "less_logLevel a b \<longleftrightarrow> level_index a < level_index b"

instance
  by standard (auto simp: less_eq_logLevel_def less_logLevel_def)

end

datatype log_event =
    Fwrite_stdout "octet list"
  | Fflush_stdout
  | User_output nat "octet list"
  | User_flush nat
  | Abort_call

record logging =
  lg_level :: logLevel
  lg_output :: "nat option"
  lg_flush :: "nat option"
  lg_lastSecond :: int
  lg_time :: "octet list"
  lg_events :: "log_event list"

record log_env =
  le_now :: timestamp
  le_gmtime :: "int \<Rightarrow> tm"
  le_tid :: int
  le_errno :: "32 word"
  le_strerror :: "32 word \<Rightarrow> octet list"
  le_memory :: "octet list"

record loggerImpl =
  im_time :: timestamp
  im_stream :: fixedBuffer
  im_level :: logLevel
  im_line :: "32 word"
  im_fullname :: string
  im_basename :: string

definition initLogLevel :: "bool \<Rightarrow> logLevel" where
  "initLogLevel env_set = (if env_set then TRACE else DEBUG)"

definition LogLevelname :: "string list" where
  "LogLevelname = [''[TRACE] '', ''[DEBUG] '', ''[INFO ] '', ''[WARN ] '', ''[ERROR] '', ''[FATAL] '']"

text \<open>The state at program start and in a new thread.\<close>

definition logging_start :: "bool \<Rightarrow> logging" where
  "logging_start env_set = \<lparr>lg_level = initLogLevel env_set, lg_output = None, lg_flush = None,
     lg_lastSecond = 0, lg_time = replicate 32 NUL, lg_events = []\<rparr>"

definition defaultOutput :: "octet list \<Rightarrow> log_event" where
  "defaultOutput msg = Fwrite_stdout msg"

definition defaultFlush :: log_event where
  "defaultFlush = Fflush_stdout"

definition call_output :: "octet list \<Rightarrow> logging \<Rightarrow> logging" where
  "call_output msg st = st\<lparr>lg_events := lg_events st @
     [case lg_output st of None \<Rightarrow> defaultOutput msg | Some f \<Rightarrow> User_output f msg]\<rparr>"

definition call_flush :: "logging \<Rightarrow> logging" where
  "call_flush st = st\<lparr>lg_events := lg_events st @
     [case lg_flush st of None \<Rightarrow> defaultFlush | Some f \<Rightarrow> User_flush f]\<rparr>"

definition Logger_logLevel :: "logging \<Rightarrow> logLevel" where
  "Logger_logLevel st = lg_level st"

definition setLogLevel :: "logLevel \<Rightarrow> logging \<Rightarrow> logging" where
  "setLogLevel level st = st\<lparr>lg_level := level\<rparr>"

definition setOutput :: "nat \<Rightarrow> logging \<Rightarrow> logging" where
  "setOutput out st = st\<lparr>lg_output := Some out\<rparr>"

definition setFlush :: "nat \<Rightarrow> logging \<Rightarrow> logging" where
  "setFlush flush st = st\<lparr>lg_flush := Some flush\<rparr>"

definition time_text :: "tm \<Rightarrow> string" where
  "time_text t = ''['' @ fmt_wd 4 (tm_year t + 1900) @ fmt_0d 2 (tm_mon t + 1) @ fmt_0d 2 (tm_mday t) @ ''] ['' @
     fmt_0d 2 (tm_hour t) @ '':'' @ fmt_0d 2 (tm_min t) @ '':'' @ fmt_0d 2 (tm_sec t)"

text \<open>The part of \<^verbatim>\<open>formatTime\<close> that fills the cache \<^verbatim>\<open>t_time\<close> when the second has changed.\<close>

definition refresh_time :: "log_env \<Rightarrow> int \<Rightarrow> logging \<Rightarrow> logging res" where
  "refresh_time env seconds st =
     (if seconds \<noteq> lg_lastSecond st
      then let text = time_text (le_gmtime env seconds) in
        bindR (copy_into (snprintf 32 text @ [NUL]) 0 (lg_time st)) (\<lambda>buf.
        assertC (length text = 20) (Inr (st\<lparr>lg_lastSecond := seconds, lg_time := buf\<rparr>)))
      else Inr st)"

definition formatTime :: "log_env \<Rightarrow> loggerImpl \<Rightarrow> logging \<Rightarrow> (loggerImpl \<times> logging) res" where
  "formatTime env im st =
     (let us = microSecondsSinceEpoch (im_time im);
          seconds = c_div us 1000000; microseconds = c_mod us 1000000 in
      bindR (refresh_time env seconds st) (\<lambda>st1.
      bindR (Fmt_new (''.'' @ fmt_0d 6 microseconds @ ''Z] '')) (\<lambda>us.
      assertC (snd us = 10) (
      bindR (T_new (fst us) 10) (\<lambda>temp.
      bindR (T_new (lg_time st1) 20) (\<lambda>t1.
      bindR (put_T t1 (im_stream im)) (\<lambda>b1.
      bindR (T_new (fst us) 10) (\<lambda>t2.
      bindR (put_T t2 b1) (\<lambda>b2. Inr (im\<lparr>im_stream := b2\<rparr>, st1))))))))))"

text \<open>\<^verbatim>\<open>strrchr(fullname_, '/')\<close>, one further, or the whole name.\<close>

definition basename :: "string \<Rightarrow> string" where
  "basename file = rev (takeWhile (\<lambda>c. c \<noteq> CHR ''/'') (rev file))"

definition Impl_new :: "log_env \<Rightarrow> logLevel \<Rightarrow> 32 word \<Rightarrow> string \<Rightarrow> 32 word \<Rightarrow> logging \<Rightarrow> (loggerImpl \<times> logging) res" where
  "Impl_new env level savedErrno file line st =
     (let im = \<lparr>im_time = le_now env, im_stream = LoggingStream_new (le_memory env), im_level = level,
                im_line = line, im_fullname = file, im_basename = basename file\<rparr> in
      bindR (formatTime env im st) (\<lambda>(im1, st1).
      bindR (Fmt_new (''['' @ fmt_wd 6 (le_tid env) @ ''] '')) (\<lambda>tid.
      assertC (snd tid = 9) (
      bindR (T_new (fst tid) 9) (\<lambda>t.
      bindR (put_T t (im_stream im1)) (\<lambda>b1.
      if length LogLevelname \<le> level_index level then Inl OutOfBounds else
      bindR (T_new (LogLevelname ! level_index level @ [NUL]) 8) (\<lambda>name.
      bindR (put_T name b1) (\<lambda>b2.
      bindR (if savedErrno \<noteq> 0
             then foldR put [CString (le_strerror env savedErrno), CString '' (errno='', SignedInt savedErrno, CString '') ''] b2
             else Inr b2) (\<lambda>b3.
      Inr (im1\<lparr>im_stream := b3\<rparr>, st1)))))))))) "

definition finish :: "loggerImpl \<Rightarrow> loggerImpl res" where
  "finish im =
     bindR (foldR put [CString ''-'', CString (im_basename im), CString '':'', SignedInt (im_line im), CString ''\<newline>'']
       (im_stream im)) (\<lambda>b. Inr (im\<lparr>im_stream := b\<rparr>))"

definition Logger_new :: "string \<Rightarrow> 32 word \<Rightarrow> log_env \<Rightarrow> logging \<Rightarrow> (loggerImpl \<times> logging) res" where
  "Logger_new file line env = Impl_new env INFO 0 file line"

definition Logger_new_func ::
    "string \<Rightarrow> 32 word \<Rightarrow> logLevel \<Rightarrow> string \<Rightarrow> log_env \<Rightarrow> logging \<Rightarrow> (loggerImpl \<times> logging) res" where
  "Logger_new_func file line level func env st =
     bindR (Impl_new env level 0 file line st) (\<lambda>(im, st1).
     bindR (foldR put [CString func, Char (CHR '' '')] (im_stream im)) (\<lambda>b. Inr (im\<lparr>im_stream := b\<rparr>, st1)))"

definition Logger_new_level :: "string \<Rightarrow> 32 word \<Rightarrow> logLevel \<Rightarrow> log_env \<Rightarrow> logging \<Rightarrow> (loggerImpl \<times> logging) res" where
  "Logger_new_level file line level env = Impl_new env level 0 file line"

definition Logger_new_errno :: "string \<Rightarrow> 32 word \<Rightarrow> bool \<Rightarrow> log_env \<Rightarrow> logging \<Rightarrow> (loggerImpl \<times> logging) res" where
  "Logger_new_errno file line toAbort env =
     Impl_new env (if toAbort then FATAL else ERROR) (le_errno env) file line"

definition Logger_delete :: "loggerImpl \<Rightarrow> logging \<Rightarrow> logging res" where
  "Logger_delete im st =
     bindR (finish im) (\<lambda>im1.
     let st1 = call_output (FixedBuffer_tostring (im_stream im1)) st in
     if im_level im1 = FATAL
     then let st2 = call_flush st1 in Inr (st2\<lparr>lg_events := lg_events st2 @ [Abort_call]\<rparr>)
     else Inr st1)"

text \<open>\<^verbatim>\<open>Logger(...).stream() << item1 << ...;\<close>\<close>

definition log_statement ::
    "(log_env \<Rightarrow> logging \<Rightarrow> (loggerImpl \<times> logging) res) \<Rightarrow> log_item list \<Rightarrow> log_env \<Rightarrow> logging \<Rightarrow> logging res" where
  "log_statement ctor items env st =
     bindR (ctor env st) (\<lambda>(im, st1).
     bindR (foldR put items (im_stream im)) (\<lambda>b. Logger_delete (im\<lparr>im_stream := b\<rparr>) st1))"

definition LOG_TRACE :: "string \<Rightarrow> 32 word \<Rightarrow> string \<Rightarrow> log_item list \<Rightarrow> log_env \<Rightarrow> logging \<Rightarrow> logging res" where
  "LOG_TRACE file line func items env st =
     (if Logger_logLevel st \<le> TRACE then log_statement (Logger_new_func file line TRACE func) items env st else Inr st)"

definition LOG_DEBUG :: "string \<Rightarrow> 32 word \<Rightarrow> string \<Rightarrow> log_item list \<Rightarrow> log_env \<Rightarrow> logging \<Rightarrow> logging res" where
  "LOG_DEBUG file line func items env st =
     (if Logger_logLevel st \<le> DEBUG then log_statement (Logger_new_func file line DEBUG func) items env st else Inr st)"

definition LOG_INFO :: "string \<Rightarrow> 32 word \<Rightarrow> log_item list \<Rightarrow> log_env \<Rightarrow> logging \<Rightarrow> logging res" where
  "LOG_INFO file line items env st =
     (if Logger_logLevel st \<le> INFO then log_statement (Logger_new file line) items env st else Inr st)"

definition LOG_WARN :: "string \<Rightarrow> 32 word \<Rightarrow> log_item list \<Rightarrow> log_env \<Rightarrow> logging \<Rightarrow> logging res" where
  "LOG_WARN file line = log_statement (Logger_new_level file line WARN)"

definition LOG_ERROR :: "string \<Rightarrow> 32 word \<Rightarrow> log_item list \<Rightarrow> log_env \<Rightarrow> logging \<Rightarrow> logging res" where
  "LOG_ERROR file line = log_statement (Logger_new_level file line ERROR)"

definition LOG_FATAL :: "string \<Rightarrow> 32 word \<Rightarrow> log_item list \<Rightarrow> log_env \<Rightarrow> logging \<Rightarrow> logging res" where
  "LOG_FATAL file line = log_statement (Logger_new_level file line FATAL)"

definition LOG_SYSERR :: "string \<Rightarrow> 32 word \<Rightarrow> log_item list \<Rightarrow> log_env \<Rightarrow> logging \<Rightarrow> logging res" where
  "LOG_SYSERR file line = log_statement (Logger_new_errno file line False)"

definition LOG_SYSFATAL :: "string \<Rightarrow> 32 word \<Rightarrow> log_item list \<Rightarrow> log_env \<Rightarrow> logging \<Rightarrow> logging res" where
  "LOG_SYSFATAL file line = log_statement (Logger_new_errno file line False)"

section \<open>The layout of a line\<close>

definition micros_text :: "timestamp \<Rightarrow> string" where
  "micros_text t = ''.'' @ fmt_0d 6 (c_mod (microSecondsSinceEpoch t) 1000000) @ ''Z] ''"

definition tid_text :: "int \<Rightarrow> string" where
  "tid_text tid = ''['' @ fmt_wd 6 tid @ ''] ''"

definition header_text :: "log_env \<Rightarrow> logLevel \<Rightarrow> string" where
  "header_text env level =
     time_text (le_gmtime env (microSecondsSinceEpoch (le_now env) div 1000000)) @ micros_text (le_now env) @
     tid_text (le_tid env) @ LogLevelname ! level_index level"

definition errno_items :: "log_env \<Rightarrow> 32 word \<Rightarrow> log_item list" where
  "errno_items env e =
     (if e \<noteq> 0 then [CString (le_strerror env e), CString '' (errno='', SignedInt e, CString '') ''] else [])"

definition trailer_items :: "string \<Rightarrow> 32 word \<Rightarrow> log_item list" where
  "trailer_items file line =
     [CString ''-'', CString (basename file), CString '':'', SignedInt line, CString ''\<newline>'']"

text \<open>A \<^verbatim>\<open>struct tm\<close> of a four-digit year.\<close>

definition tm_ok :: "tm \<Rightarrow> bool" where
  "tm_ok t \<longleftrightarrow> 1000 \<le> tm_year t + 1900 \<and> tm_year t + 1900 \<le> 9999 \<and> 0 \<le> tm_mon t \<and> tm_mon t < 12 \<and>
     0 \<le> tm_mday t \<and> tm_mday t < 100 \<and> 0 \<le> tm_hour t \<and> tm_hour t < 100 \<and> 0 \<le> tm_min t \<and> tm_min t < 100 \<and>
     0 \<le> tm_sec t \<and> tm_sec t < 100"

definition clock_ok :: "log_env \<Rightarrow> bool" where
  "clock_ok env \<longleftrightarrow> 1000000 \<le> microSecondsSinceEpoch (le_now env) \<and>
     tm_ok (le_gmtime env (microSecondsSinceEpoch (le_now env) div 1000000)) \<and> length (le_memory env) = kMinBufferSize"

definition env_ok :: "log_env \<Rightarrow> bool" where
  "env_ok env \<longleftrightarrow> clock_ok env \<and> 0 \<le> le_tid env \<and> le_tid env < 1000000 \<and>
     (\<forall>e. length (c_str (le_strerror env e)) < 2147483648)"

text \<open>The cache holds the text of the second it was filled in, or nothing yet.\<close>

definition cache_ok :: "(int \<Rightarrow> tm) \<Rightarrow> logging \<Rightarrow> bool" where
  "cache_ok gmtime st \<longleftrightarrow> length (lg_time st) = 32 \<and>
     (lg_lastSecond st \<noteq> 0 \<longrightarrow> c_str (lg_time st) = time_text (gmtime (lg_lastSecond st)))"

lemma c_str_append: "NUL \<notin> set s \<Longrightarrow> c_str (s @ NUL # r) = s"
  by (simp add: c_str_def takeWhile_append)

lemma c_str_NUL [simp]: "NUL \<notin> set s \<Longrightarrow> c_str (s @ [NUL]) = s"
  by (rule c_str_append)

lemma c_str_id [simp]: "NUL \<notin> set s \<Longrightarrow> c_str s = s"
  by (simp add: c_str_def takeWhile_eq_all_conv) auto

lemma T_new_ok: "c_str buf = s \<Longrightarrow> length s = n \<Longrightarrow> T_new buf n = Inr (s, n)"
  by (simp add: T_new_def)

lemma put_T_eq: "length s = n \<Longrightarrow> put_T (s, n) = put (StdString s)"
  by (auto simp: put_T_def put_string_def fun_eq_iff)

lemma fmt_d_no_NUL [simp]: "NUL \<notin> set (fmt_d v)"
  using base_digits_decimal [of "nat v"] base_digits_decimal [of "nat (- v)"] by (auto simp: fmt_d_def)

lemma fmt_0d_no_NUL [simp]: "NUL \<notin> set (fmt_0d w v)"
  using base_digits_decimal [of "nat v"] base_digits_decimal [of "nat (- v)"] by (auto simp: fmt_0d_def)

lemma fmt_wd_no_NUL [simp]: "NUL \<notin> set (fmt_wd w v)"
  by (simp add: fmt_wd_def Let_def)

lemma time_text_NUL [simp]: "NUL \<notin> set (time_text t)"
  by (simp add: time_text_def)

lemma micros_text_NUL [simp]: "NUL \<notin> set (micros_text t)"
  by (simp add: micros_text_def)

lemma tid_text_NUL [simp]: "NUL \<notin> set (tid_text t)"
  by (simp add: tid_text_def)

lemma length_time_text: "tm_ok t \<Longrightarrow> length (time_text t) = 20"
proof -
  assume t: "tm_ok t"
  have "length (fmt_d (tm_year t + 1900)) \<le> 4" using t by (intro length_fmt_d_le) (simp_all add: tm_ok_def)
  then have "length (fmt_wd 4 (tm_year t + 1900)) = 4" by (rule length_fmt_wd)
  with t show ?thesis by (simp add: time_text_def tm_ok_def length_fmt_0d)
qed

lemma length_micros_text: "0 \<le> microSecondsSinceEpoch t \<Longrightarrow> length (micros_text t) = 10"
  by (simp add: micros_text_def c_mod_nonneg length_fmt_0d)

lemma length_tid_text: "0 \<le> tid \<Longrightarrow> tid < 1000000 \<Longrightarrow> length (tid_text tid) = 9"
  using length_fmt_wd [OF length_fmt_d_le [of tid 6]] by (simp add: tid_text_def)

lemma length_level_name: "level \<noteq> NUM_LOG_LEVELS \<Longrightarrow> length (LogLevelname ! level_index level) = 8"
  by (cases level) (simp_all add: LogLevelname_def)

lemma level_name_NUL: "level \<noteq> NUM_LOG_LEVELS \<Longrightarrow> NUL \<notin> set (LogLevelname ! level_index level)"
  by (cases level) (simp_all add: LogLevelname_def)

lemma level_name_index: "length LogLevelname \<le> level_index level \<longleftrightarrow> level = NUM_LOG_LEVELS"
  by (cases level) (simp_all add: LogLevelname_def)

lemma refresh_time_ok:
  assumes "cache_ok gm st" and "le_gmtime env = gm" and "0 < seconds" and "tm_ok (gm seconds)"
  shows "\<exists>buf. refresh_time env seconds st = Inr (st\<lparr>lg_lastSecond := seconds, lg_time := buf\<rparr>) \<and>
    c_str buf = time_text (gm seconds) \<and> length buf = 32"
proof (cases "seconds = lg_lastSecond st")
  case True
  then have "refresh_time env seconds st = Inr (st\<lparr>lg_lastSecond := seconds, lg_time := lg_time st\<rparr>)"
    by (simp add: refresh_time_def)
  with True assms show ?thesis by (intro exI [of _ "lg_time st"]) (simp add: cache_ok_def)
next
  case False
  let ?t = "time_text (gm seconds)"
  have n: "length ?t = 20" by (rule length_time_text [OF assms(4)])
  then have "copy_into (snprintf 32 ?t @ [NUL]) 0 (lg_time st) = Inr (?t @ NUL # drop 21 (lg_time st))"
    using assms(1) by (simp add: copy_into_def snprintf_def blit_def cache_ok_def)
  moreover have "length (?t @ NUL # drop 21 (lg_time st)) = 32" using n assms(1) by (simp add: cache_ok_def)
  ultimately show ?thesis using False assms(2) n
    by (intro exI [of _ "?t @ NUL # drop 21 (lg_time st)"]) (simp add: refresh_time_def Let_def c_str_append)
qed

lemma Fmt_new_ok: "length t < 32 \<Longrightarrow> Fmt_new t = Inr (t @ [NUL], length t)"
  by (simp add: Fmt_new_def snprintf_def)

text \<open>The state after a statement's constructor: only the cache may have changed.\<close>

definition refreshed :: "log_env \<Rightarrow> logging \<Rightarrow> logging \<Rightarrow> bool" where
  "refreshed env st st1 \<longleftrightarrow> cache_ok (le_gmtime env) st1 \<and>
     (\<exists>s buf. st1 = st\<lparr>lg_lastSecond := s, lg_time := buf\<rparr>)"

definition header_items :: "log_env \<Rightarrow> logLevel \<Rightarrow> log_item list" where
  "header_items env level = map StdString
     [time_text (le_gmtime env (microSecondsSinceEpoch (le_now env) div 1000000)), micros_text (le_now env),
      tid_text (le_tid env), LogLevelname ! level_index level]"

lemma formatTime_ok:
  assumes "clock_ok env" and "cache_ok (le_gmtime env) st" and "im_time im = le_now env"
  shows "\<exists>st1. refreshed env st st1 \<and> formatTime env im st =
    bindR (foldR put (map StdString [time_text (le_gmtime env (microSecondsSinceEpoch (le_now env) div 1000000)),
      micros_text (le_now env)]) (im_stream im)) (\<lambda>b. Inr (im\<lparr>im_stream := b\<rparr>, st1))"
proof -
  let ?us = "microSecondsSinceEpoch (le_now env)" and ?s = "microSecondsSinceEpoch (le_now env) div 1000000"
  have us: "0 \<le> ?us" "0 < ?s" "tm_ok (le_gmtime env ?s)"
    using assms(1) pos_imp_zdiv_pos_iff [of 1000000 ?us] by (simp_all add: clock_ok_def)
  obtain buf where b: "refresh_time env ?s st = Inr (st\<lparr>lg_lastSecond := ?s, lg_time := buf\<rparr>)"
      "c_str buf = time_text (le_gmtime env ?s)" "length buf = 32"
    using refresh_time_ok [OF assms(2) refl us(2,3)] by blast
  have m: "length (micros_text (le_now env)) = 10" by (rule length_micros_text [OF us(1)])
  have f: "Fmt_new (''.'' @ fmt_0d 6 (c_mod ?us 1000000) @ ''Z] '') = Inr (micros_text (le_now env) @ [NUL], 10)"
    using Fmt_new_ok [of "micros_text (le_now env)"] m by (simp add: micros_text_def)
  have t: "T_new buf 20 = Inr (time_text (le_gmtime env ?s), 20)"
    by (rule T_new_ok) (simp_all add: b(2) length_time_text us(3))
  have u: "T_new (micros_text (le_now env) @ [NUL]) 10 = Inr (micros_text (le_now env), 10)"
    by (rule T_new_ok) (simp_all add: m)
  have "refreshed env st (st\<lparr>lg_lastSecond := ?s, lg_time := buf\<rparr>)"
    using b us(2) unfolding refreshed_def cache_ok_def by auto
  moreover have "formatTime env im st = bindR (put_T (time_text (le_gmtime env ?s), 20) (im_stream im)) (\<lambda>b1.
      bindR (put_T (micros_text (le_now env), 10) b1) (\<lambda>b2.
        Inr (im\<lparr>im_stream := b2\<rparr>, st\<lparr>lg_lastSecond := ?s, lg_time := buf\<rparr>)))"
    unfolding formatTime_def Let_def assms(3) f using us(1) by (simp add: c_div_nonneg b(1) t u)
  ultimately show ?thesis
    by (auto simp: put_T_eq m length_time_text us(3) bindR_assoc intro!: exI)
qed

lemma Impl_new_ok:
  assumes "clock_ok env" and "cache_ok (le_gmtime env) st" and "level \<noteq> NUM_LOG_LEVELS"
    and "0 \<le> le_tid env" "le_tid env < 1000000"
  shows "\<exists>st1. refreshed env st st1 \<and> Impl_new env level e file line st =
    bindR (foldR put (header_items env level @ errno_items env e) (LoggingStream_new (le_memory env))) (\<lambda>b.
      Inr (\<lparr>im_time = le_now env, im_stream = b, im_level = level, im_line = line, im_fullname = file,
        im_basename = basename file\<rparr>, st1))"
proof -
  let ?im = "\<lparr>im_time = le_now env, im_stream = LoggingStream_new (le_memory env), im_level = level,
     im_line = line, im_fullname = file, im_basename = basename file\<rparr>"
  obtain st1 where st1: "refreshed env st st1" "formatTime env ?im st =
      bindR (foldR put (map StdString [time_text (le_gmtime env (microSecondsSinceEpoch (le_now env) div 1000000)),
        micros_text (le_now env)]) (im_stream ?im)) (\<lambda>b. Inr (?im\<lparr>im_stream := b\<rparr>, st1))"
    using formatTime_ok [OF assms(1,2), of ?im] by auto
  have n: "length (tid_text (le_tid env)) = 9" by (rule length_tid_text [OF assms(4,5)])
  have f: "Fmt_new (''['' @ fmt_wd 6 (le_tid env) @ ''] '') = Inr (tid_text (le_tid env) @ [NUL], 9)"
    using Fmt_new_ok [of "tid_text (le_tid env)"] n by (simp add: tid_text_def)
  have t: "T_new (tid_text (le_tid env) @ [NUL]) 9 = Inr (tid_text (le_tid env), 9)"
    by (rule T_new_ok) (simp_all add: n)
  have u: "T_new (LogLevelname ! level_index level @ [NUL]) 8 = Inr (LogLevelname ! level_index level, 8)"
    by (rule T_new_ok) (simp_all add: assms(3) level_name_NUL length_level_name)
  have "Impl_new env level e file line st =
    bindR (foldR put (header_items env level @ errno_items env e) (LoggingStream_new (le_memory env))) (\<lambda>b.
      Inr (?im\<lparr>im_stream := b\<rparr>, st1))"
    unfolding Impl_new_def Let_def st1(2) f header_items_def errno_items_def
    using assms(3) by (simp add: bindR_assoc foldR_append t u put_T_eq n length_level_name level_name_index del: put.simps)
  with st1(1) show ?thesis by auto
qed

section \<open>The log statements\<close>

datatype statement =
  Trace string | Debug string | Info | Warn | Error | Fatal | Syserr | Sysfatal

fun LOG :: "statement \<Rightarrow> string \<Rightarrow> 32 word \<Rightarrow> log_item list \<Rightarrow> log_env \<Rightarrow> logging \<Rightarrow> logging res" where
  "LOG (Trace func) file line = LOG_TRACE file line func"
| "LOG (Debug func) file line = LOG_DEBUG file line func"
| "LOG Info file line = LOG_INFO file line"
| "LOG Warn file line = LOG_WARN file line"
| "LOG Error file line = LOG_ERROR file line"
| "LOG Fatal file line = LOG_FATAL file line"
| "LOG Syserr file line = LOG_SYSERR file line"
| "LOG Sysfatal file line = LOG_SYSFATAL file line"

fun statement_level :: "statement \<Rightarrow> logLevel" where
  "statement_level (Trace _) = TRACE"
| "statement_level (Debug _) = DEBUG"
| "statement_level Info = INFO"
| "statement_level Warn = WARN"
| "statement_level Fatal = FATAL"
| "statement_level _ = ERROR"

text \<open>Only the three lowest levels can be switched off.\<close>

definition enabled :: "statement \<Rightarrow> logging \<Rightarrow> bool" where
  "enabled s st \<longleftrightarrow> lg_level st \<le> statement_level s \<or> statement_level s \<in> {WARN, ERROR, FATAL}"

fun own_items :: "statement \<Rightarrow> log_env \<Rightarrow> log_item list" where
  "own_items (Trace func) env = [CString func, Char (CHR '' '')]"
| "own_items (Debug func) env = [CString func, Char (CHR '' '')]"
| "own_items Syserr env = errno_items env (le_errno env)"
| "own_items Sysfatal env = errno_items env (le_errno env)"
| "own_items _ env = []"

text \<open>The events of a line.\<close>

definition emitted :: "logging \<Rightarrow> logLevel \<Rightarrow> string \<Rightarrow> log_event list" where
  "emitted st level text = (case lg_output st of None \<Rightarrow> Fwrite_stdout text | Some f \<Rightarrow> User_output f text) #
     (if level = FATAL then [case lg_flush st of None \<Rightarrow> Fflush_stdout | Some f \<Rightarrow> User_flush f, Abort_call] else [])"

definition log_level_ctor :: "statement \<Rightarrow> string \<Rightarrow> 32 word \<Rightarrow> log_env \<Rightarrow> logging \<Rightarrow> (loggerImpl \<times> logging) res" where
  "log_level_ctor s file line = (case s of
       Trace func \<Rightarrow> Logger_new_func file line TRACE func
     | Debug func \<Rightarrow> Logger_new_func file line DEBUG func
     | Info \<Rightarrow> Logger_new file line
     | Syserr \<Rightarrow> Logger_new_errno file line False
     | Sysfatal \<Rightarrow> Logger_new_errno file line False
     | _ \<Rightarrow> Logger_new_level file line (statement_level s))"

lemmas LOG_defs = LOG_TRACE_def LOG_DEBUG_def LOG_INFO_def LOG_WARN_def LOG_ERROR_def LOG_FATAL_def
  LOG_SYSERR_def LOG_SYSFATAL_def Logger_logLevel_def

lemmas ctor_defs = Logger_new_def Logger_new_func_def Logger_new_level_def Logger_new_errno_def

lemma LOG_eq: "LOG s file line items env st =
    (if enabled s st then log_statement (log_level_ctor s file line) items env st else Inr st)"
  by (cases s) (simp_all add: LOG_defs enabled_def log_level_ctor_def)

lemma statement_level_range: "statement_level s \<noteq> NUM_LOG_LEVELS"
  by (cases s) simp_all

lemma ctor_ok:
  assumes "clock_ok env" and "cache_ok (le_gmtime env) st" and "0 \<le> le_tid env" "le_tid env < 1000000"
  shows "\<exists>st1. refreshed env st st1 \<and> log_level_ctor s file line env st =
    bindR (foldR put (header_items env (statement_level s) @ own_items s env) (LoggingStream_new (le_memory env))) (\<lambda>b.
      Inr (\<lparr>im_time = le_now env, im_stream = b, im_level = statement_level s, im_line = line, im_fullname = file,
        im_basename = basename file\<rparr>, st1))"
proof -
  have ok: "\<exists>st1. refreshed env st st1 \<and> Impl_new env (statement_level s) e file line st =
    bindR (foldR put (header_items env (statement_level s) @ errno_items env e) (LoggingStream_new (le_memory env))) (\<lambda>b.
      Inr (\<lparr>im_time = le_now env, im_stream = b, im_level = statement_level s, im_line = line, im_fullname = file,
        im_basename = basename file\<rparr>, st1))" for e
    by (rule Impl_new_ok [OF assms(1,2) statement_level_range assms(3,4)])
  have no_errno: "errno_items env 0 = []" by (simp add: errno_items_def)
  obtain st1 where st1: "refreshed env st st1" "Impl_new env (statement_level s) 0 file line st =
    bindR (foldR put (header_items env (statement_level s)) (LoggingStream_new (le_memory env))) (\<lambda>b.
      Inr (\<lparr>im_time = le_now env, im_stream = b, im_level = statement_level s, im_line = line, im_fullname = file,
        im_basename = basename file\<rparr>, st1))"
    using ok [of 0] by (auto simp: no_errno)
  obtain st2 where st2: "refreshed env st st2" "Impl_new env (statement_level s) (le_errno env) file line st =
    bindR (foldR put (header_items env (statement_level s) @ errno_items env (le_errno env)) (LoggingStream_new (le_memory env))) (\<lambda>b.
      Inr (\<lparr>im_time = le_now env, im_stream = b, im_level = statement_level s, im_line = line, im_fullname = file,
        im_basename = basename file\<rparr>, st2))"
    using ok by blast
  show ?thesis
  proof (cases "s \<in> {Syserr, Sysfatal}")
    case True
    with st2 show ?thesis by (intro exI [of _ st2]) (auto simp: log_level_ctor_def ctor_defs)
  next
    case False
    with st1 show ?thesis
      by (intro exI [of _ st1], cases s) (simp_all add: log_level_ctor_def ctor_defs foldR_append bindR_assoc)
  qed
qed

lemma finish_eq: "finish im = bindR (foldR put (trailer_items (im_fullname im) (im_line im)) (im_stream im)) (\<lambda>b.
    Inr (im\<lparr>im_stream := b\<rparr>))" if "im_basename im = basename (im_fullname im)"
  by (simp add: finish_def trailer_items_def that)

lemma Logger_delete_events:
  assumes "Logger_delete im st = Inr st'"
  shows "\<exists>b. finish im = Inr (im\<lparr>im_stream := b\<rparr>) \<and>
    st' = st\<lparr>lg_events := lg_events st @ emitted st (im_level im) (FixedBuffer_tostring b)\<rparr>"
  using assms
  by (auto simp: Logger_delete_def finish_def bindR_eq_Inr Let_def call_output_def call_flush_def emitted_def
      defaultOutput_def defaultFlush_def split: if_splits option.splits)

lemma Logger_delete_ok:
  assumes "finish im = Inr (im\<lparr>im_stream := b\<rparr>)"
  shows "Logger_delete im st =
    Inr (st\<lparr>lg_events := lg_events st @ emitted st (im_level im) (FixedBuffer_tostring b)\<rparr>)"
  using assms
  by (simp add: Logger_delete_def Let_def call_output_def call_flush_def emitted_def defaultOutput_def defaultFlush_def
      cong: option.case_cong)

text \<open>The line a statement outputs, what does not fit into the 4000 bytes of the buffer left out.\<close>

definition line_text :: "log_env \<Rightarrow> statement \<Rightarrow> log_item list \<Rightarrow> string \<Rightarrow> 32 word \<Rightarrow> string" where
  "line_text env s items file line =
     fold (put_spec kMinBufferSize) (own_items s env @ items @ trailer_items file line) (header_text env (statement_level s))"

definition items_ok :: "log_env \<Rightarrow> statement \<Rightarrow> log_item list \<Rightarrow> string \<Rightarrow> bool" where
  "items_ok env s items file \<longleftrightarrow> list_all item_ok (own_items s env @ items) \<and> length file < 2147483648 \<and> NUL \<notin> set file"

lemma length_header:
  assumes "clock_ok env" and "0 \<le> le_tid env" "le_tid env < 1000000"
  shows "length (header_text env (statement_level s)) = 47"
  using assms by (simp add: header_text_def length_time_text length_micros_text length_tid_text length_level_name
      statement_level_range clock_ok_def)

lemma header_items_text:
  assumes "clock_ok env" and "0 \<le> le_tid env" "le_tid env < 1000000"
  shows "fold (put_spec kMinBufferSize) (header_items env (statement_level s)) [] = header_text env (statement_level s)"
    and "list_all item_ok (header_items env (statement_level s))"
proof -
  have len: "length (time_text (le_gmtime env (microSecondsSinceEpoch (le_now env) div 1000000))) = 20"
      "length (micros_text (le_now env)) = 10" "length (tid_text (le_tid env)) = 9"
      "length (LogLevelname ! level_index (statement_level s)) = 8"
    using assms by (simp_all add: length_time_text length_micros_text length_tid_text length_level_name
        statement_level_range clock_ok_def)
  show ok: "list_all item_ok (header_items env (statement_level s))" by (simp add: header_items_def len)
  have "length [] + sum_list (map item_room (header_items env (statement_level s))) \<le> kMinBufferSize"
    by (simp add: header_items_def len kMinBufferSize_def)
  from put_spec_all [OF this ok]
  show "fold (put_spec kMinBufferSize) (header_items env (statement_level s)) [] = header_text env (statement_level s)"
    by (simp add: header_items_def header_text_def)
qed

lemma basename_ok: "NUL \<notin> set file \<Longrightarrow> NUL \<notin> set (basename file)" "length (basename file) \<le> length file"
  by (auto simp: basename_def dest: set_takeWhileD) (metis length_rev length_takeWhile_le)

lemma trailer_ok: "length file < 2147483648 \<Longrightarrow> NUL \<notin> set file \<Longrightarrow> list_all item_ok (trailer_items file line)"
  using basename_ok [of "file"] by (simp add: trailer_items_def)

lemma log_statement_ok:
  assumes "clock_ok env" and "cache_ok (le_gmtime env) st" and "0 \<le> le_tid env" "le_tid env < 1000000"
    and "items_ok env s items file"
  shows "\<exists>st'. log_statement (log_level_ctor s file line) items env st = Inr st' \<and> cache_ok (le_gmtime env) st' \<and>
    lg_level st' = lg_level st \<and> lg_output st' = lg_output st \<and>
    lg_events st' = lg_events st @ emitted st (statement_level s) (line_text env s items file line)"
proof -
  let ?h = "header_items env (statement_level s)" and ?o = "own_items s env" and ?t = "trailer_items file line"
  let ?im = "\<lambda>b. \<lparr>im_time = le_now env, im_stream = b, im_level = statement_level s, im_line = line, im_fullname = file,
        im_basename = basename file\<rparr>"
  have ok: "list_all item_ok (?h @ ?o @ items @ ?t)"
    using assms(5) header_items_text(2) [OF assms(1,3,4)] trailer_ok by (simp add: items_ok_def)
  have fresh: "fb_inv (LoggingStream_new (le_memory env))" "length (fb_data (LoggingStream_new (le_memory env))) = kMinBufferSize"
      "FixedBuffer_tostring (LoggingStream_new (le_memory env)) = []"
    using assms(1) by (simp_all add: clock_ok_def LoggingStream_new_def FixedBuffer_bzero_def FixedBuffer_new_def fb_inv_def
        FixedBuffer_tostring_def kMinBufferSize_def)
  obtain b where b: "foldR put (?h @ ?o @ items @ ?t) (LoggingStream_new (le_memory env)) = Inr b"
      "FixedBuffer_tostring b = line_text env s items file line"
    using puts_refine [OF fresh(1) ok] fresh(2,3) header_items_text(1) [OF assms(1,3,4)]
    by (auto simp: line_text_def)
  obtain b1 b2 where b1: "foldR put (?h @ ?o) (LoggingStream_new (le_memory env)) = Inr b1" "foldR put items b1 = Inr b2"
      "foldR put ?t b2 = Inr b"
    using b(1) by (auto simp: foldR_append)
  obtain st1 where st1: "refreshed env st st1" "log_level_ctor s file line env st = Inr (?im b1, st1)"
    using ctor_ok [OF assms(1,2,3,4), of s "file" line] b1(1) by auto
  have "finish (?im b2) = Inr ((?im b2)\<lparr>im_stream := b\<rparr>)" using b1(3) by (simp add: finish_eq)
  from Logger_delete_ok [OF this, of st1] st1 b1(2) b(2)
  have "log_statement (log_level_ctor s file line) items env st =
      Inr (st1\<lparr>lg_events := lg_events st1 @ emitted st1 (statement_level s) (line_text env s items file line)\<rparr>)"
    by (simp add: log_statement_def)
  moreover have "cache_ok (le_gmtime env) st1" "lg_level st1 = lg_level st" "lg_output st1 = lg_output st" "lg_events st1 = lg_events st"
      "emitted st1 = emitted st"
    using st1(1) by (auto simp: refreshed_def emitted_def fun_eq_iff)
  ultimately show ?thesis by (simp add: cache_ok_def)
qed

section \<open>Which statements abort\<close>

lemma refresh_time_frame: "refresh_time env sec st = Inr st' \<Longrightarrow> \<exists>x y. st' = st\<lparr>lg_lastSecond := x, lg_time := y\<rparr>"
  by (cases st) (auto simp: refresh_time_def Let_def split: if_splits)

lemma Impl_new_frame:
  assumes "Impl_new env level e file line st = Inr (im, st')"
  shows "lg_events st' = lg_events st \<and> im_level im = level"
proof -
  obtain im1 where f: "formatTime env \<lparr>im_time = le_now env, im_stream = LoggingStream_new (le_memory env), im_level = level,
      im_line = line, im_fullname = file, im_basename = basename file\<rparr> st = Inr (im1, st')" and l: "im_level im = im_level im1"
    using assms by (auto simp: Impl_new_def Let_def split: if_splits)
  then show ?thesis by (auto simp: formatTime_def Let_def dest!: refresh_time_frame)
qed

lemma ctor_frame:
  assumes "log_level_ctor s file line env st = Inr (im, st')"
  shows "lg_events st' = lg_events st \<and> im_level im = statement_level s"
  using assms by (cases s) (auto simp: log_level_ctor_def ctor_defs dest!: Impl_new_frame)

lemma log_statement_events:
  assumes "log_statement (log_level_ctor s file line) items env st = Inr st'"
  shows "\<exists>st1 text. lg_events st' = lg_events st @ emitted st1 (statement_level s) text"
proof -
  obtain im st1 b where c: "log_level_ctor s file line env st = Inr (im, st1)"
      and d: "Logger_delete (im\<lparr>im_stream := b\<rparr>) st1 = Inr st'"
    using assms by (auto simp: log_statement_def)
  obtain ba where "st' = st1\<lparr>lg_events := lg_events st1 @ emitted st1 (im_level im) (FixedBuffer_tostring ba)\<rparr>"
    using Logger_delete_events [OF d] by auto
  then have "lg_events st' = lg_events st @ emitted st1 (statement_level s) (FixedBuffer_tostring ba)"
    using ctor_frame [OF c] by simp
  then show ?thesis by blast
qed

lemma emitted_aborts: "Abort_call \<in> set (emitted st level text) \<longleftrightarrow> level = FATAL"
  by (simp add: emitted_def split: option.split)

section \<open>Thread ids of more than six digits\<close>

lemma length_base_digits_ge: "2 \<le> b \<Longrightarrow> b ^ k \<le> n \<Longrightarrow> k < length (base_digits b n)"
proof (induction k arbitrary: n)
  case 0
  then show ?case using base_digits_nonempty [of b n] by simp
next
  case (Suc k)
  have "b * b ^ k \<le> n" using Suc.prems by simp
  then have "b ^ k \<le> n div b" using Suc.prems(1) by (simp add: less_eq_div_iff_mult_less_eq mult.commute)
  then have "k < length (base_digits b (n div b))" by (rule Suc.IH [OF Suc.prems(1)])
  moreover have "\<not> n < b"
  proof
    assume "n < b"
    moreover have "b * 1 \<le> b * b ^ k" using Suc.prems(1) by (intro mult_le_mono2) simp
    ultimately show False using \<open>b * b ^ k \<le> n\<close> by simp
  qed
  ultimately show ?case using Suc.prems(1) by (subst base_digits.simps) simp
qed

lemma length_wide_tid:
  assumes "1000000 \<le> tid"
  shows "9 < length (tid_text tid)"
proof -
  have "(10 :: nat) ^ 6 \<le> nat tid" using assms by simp
  from length_base_digits_ge [OF _ this] have "6 < length (dec (nat tid))" by simp
  then show ?thesis using assms by (simp add: tid_text_def fmt_wd_def fmt_d_def)
qed

lemma Impl_new_wide_tid:
  assumes "clock_ok env" and "cache_ok (le_gmtime env) st" and "1000000 \<le> le_tid env"
  shows "Impl_new env level e file line st = Inl AssertFailed"
proof -
  let ?im = "\<lparr>im_time = le_now env, im_stream = LoggingStream_new (le_memory env), im_level = level,
     im_line = line, im_fullname = file, im_basename = basename file\<rparr>"
  have fresh: "fb_inv (LoggingStream_new (le_memory env))"
    using assms(1) by (simp add: clock_ok_def LoggingStream_new_def FixedBuffer_bzero_def FixedBuffer_new_def fb_inv_def
        kMinBufferSize_def)
  have us: "0 \<le> microSecondsSinceEpoch (le_now env)" "tm_ok (le_gmtime env (microSecondsSinceEpoch (le_now env) div 1000000))"
    using assms(1) by (simp_all add: clock_ok_def)
  have "list_all item_ok (map StdString [time_text (le_gmtime env (microSecondsSinceEpoch (le_now env) div 1000000)),
        micros_text (le_now env)])"
    by (simp add: length_time_text [OF us(2)] length_micros_text [OF us(1)])
  from puts_refine [OF fresh this] obtain b where
    "foldR put (map StdString [time_text (le_gmtime env (microSecondsSinceEpoch (le_now env) div 1000000)),
        micros_text (le_now env)]) (im_stream ?im) = Inr b"
    by auto
  with formatTime_ok [OF assms(1,2), of ?im] obtain st1 where f: "formatTime env ?im st = Inr (?im\<lparr>im_stream := b\<rparr>, st1)"
    by auto
  have "bindR (Fmt_new (tid_text (le_tid env))) (\<lambda>tid. assertC (snd tid = 9) (k tid)) = Inl AssertFailed"
    for k :: "octet list \<times> nat \<Rightarrow> (loggerImpl \<times> logging) res"
    using length_wide_tid [OF assms(3)] by (cases "length (tid_text (le_tid env)) < 32") (simp_all add: Fmt_new_def)
  then show ?thesis
    unfolding Impl_new_def Let_def f by (simp add: tid_text_def)
qed

section \<open>Properties\<close>

definition sample_tm :: tm where
  "sample_tm = \<lparr>tm_year = 120, tm_mon = 4, tm_mday = 7, tm_hour = 22, tm_min = 1, tm_sec = 28\<rparr>"

definition sample_env :: "int \<Rightarrow> log_env" where
  "sample_env tid = \<lparr>le_now = Timestamp 1588888888000042, le_gmtime = (\<lambda>_. sample_tm), le_tid = tid,
     le_errno = 0, le_strerror = (\<lambda>_. ''error''), le_memory = replicate 4000 (CHR ''x'')\<rparr>"

lemma sample_env_ok: "clock_ok (sample_env tid)" "env_ok (sample_env 4242)" "cache_ok (le_gmtime (sample_env tid)) (logging_start b)"
  by (simp_all add: clock_ok_def env_ok_def sample_env_def sample_tm_def tm_ok_def kMinBufferSize_def c_str_def
      cache_ok_def logging_start_def)

lemma sample_enabled: "enabled Warn st" "enabled Sysfatal st" "enabled Fatal st"
  by (simp_all add: enabled_def)

text \<open>(C25) A log statement that is switched off has no effect. One that is not outputs exactly one line, made of
  the time, the thread id and the level in 47 fixed columns, the items, and the file's base name and
  line number; a \<^verbatim>\<open>FATAL\<close> line is followed by a flush and \<^verbatim>\<open>abort()\<close>. Items that do not fit into 4000
  bytes are left out; if all fit, the line ends with its newline. The thread's time cache stays
  correct, so a line shows its own time whatever was logged before.\<close>

theorem log_line_layout:
  assumes "env_ok env" and "cache_ok (le_gmtime env) st" and "items_ok env s items file"
  shows "(\<not> enabled s st \<longrightarrow> LOG s file line items env st = Inr st) \<and>
    (enabled s st \<longrightarrow> (\<exists>st'. LOG s file line items env st = Inr st' \<and> cache_ok (le_gmtime env) st' \<and>
       lg_events st' = lg_events st @ emitted st (statement_level s) (line_text env s items file line))) \<and>
    (47 + sum_list (map item_room (own_items s env @ items @ trailer_items file line)) \<le> 4000 \<longrightarrow>
       line_text env s items file line = header_text env (statement_level s) @
         concat (map item_text (own_items s env @ items)) @ ''-'' @ basename file @ '':'' @ fmt_d (sint line) @ ''\<newline>'')"
proof (intro conjI impI)
  have env: "clock_ok env" "0 \<le> le_tid env" "le_tid env < 1000000" using assms(1) by (simp_all add: env_ok_def)
  show "\<not> enabled s st \<Longrightarrow> LOG s file line items env st = Inr st" by (simp add: LOG_eq)
  show "enabled s st \<Longrightarrow> \<exists>st'. LOG s file line items env st = Inr st' \<and> cache_ok (le_gmtime env) st' \<and>
       lg_events st' = lg_events st @ emitted st (statement_level s) (line_text env s items file line)"
    using log_statement_ok [OF env(1) assms(2) env(2,3) assms(3), of line] by (auto simp: LOG_eq)
  assume room: "47 + sum_list (map item_room (own_items s env @ items @ trailer_items file line)) \<le> 4000"
  have "NUL \<notin> set (basename file)" using assms(3) basename_ok(1) by (simp add: items_ok_def)
  then have t: "concat (map item_text (trailer_items file line)) = ''-'' @ basename file @ '':'' @ fmt_d (sint line) @ ''\<newline>''"
    by (simp add: trailer_items_def)
  have "list_all item_ok (own_items s env @ items @ trailer_items file line)"
    using assms(3) trailer_ok by (simp add: items_ok_def)
  with room have "fold (put_spec 4000) (own_items s env @ items @ trailer_items file line) (header_text env (statement_level s)) =
      header_text env (statement_level s) @ concat (map item_text (own_items s env @ items @ trailer_items file line))"
    by (intro put_spec_all) (simp_all add: length_header [OF env])
  then show "line_text env s items file line = header_text env (statement_level s) @
         concat (map item_text (own_items s env @ items)) @ ''-'' @ basename file @ '':'' @ fmt_d (sint line) @ ''\<newline>''"
    unfolding line_text_def kMinBufferSize_def by (simp only: map_append concat_append t append_assoc)
qed

theorem log_line_layout_witness:
  "\<exists>st'. LOG Warn ''src/a.cc'' 12 [CString ''hi''] (sample_env 4242) (logging_start False) = Inr st' \<and>
     lg_events st' = [Fwrite_stdout ''[20200507] [22:01:28.000042Z] [  4242] [WARN ] hi-a.cc:12\<newline>'']"
proof -
  let ?env = "sample_env 4242"
  have d: "dec 2020 = ''2020''" "dec 5 = ''5''" "dec 7 = ''7''" "dec 22 = ''22''" "dec 1 = ''1''" "dec 28 = ''28''"
      "dec 42 = ''42''" "dec 4242 = ''4242''" "dec 12 = ''12''" "dec (Suc 0) = ''1''"
    by (simp_all add: base_digits.simps digit_char_def)
  have r: "replicate 4 c = [c, c, c, c]" "replicate 2 c = [c, c]" for c :: char by (simp_all add: numeral_eq_Suc)
  have h: "header_text ?env WARN = ''[20200507] [22:01:28.000042Z] [  4242] [WARN ] ''"
    by (simp add: header_text_def time_text_def micros_text_def tid_text_def LogLevelname_def sample_env_def sample_tm_def
        fmt_wd_def fmt_d_def fmt_0d_def d r c_mod_nonneg)
  have "items_ok ?env Warn [CString ''hi''] ''src/a.cc''" by (simp add: items_ok_def c_str_def)
  from log_line_layout [OF sample_env_ok(2) sample_env_ok(3) [of _ False] this, where line = 12] sample_enabled(1) h d
  show ?thesis by (auto simp: trailer_items_def basename_def c_str_def emitted_def logging_start_def fmt_d_def)
qed

text \<open>A statement that completes appends its events, and \<^verbatim>\<open>abort()\<close> is among them exactly for \<^verbatim>\<open>LOG_FATAL\<close>.
  In particular \<^verbatim>\<open>LOG_SYSFATAL\<close>, whose macro passes \<^verbatim>\<open>false\<close> as \<^verbatim>\<open>toAbort\<close>, is the same as \<^verbatim>\<open>LOG_SYSERR\<close> and
  never ends the program.\<close>

theorem only_fatal_aborts:
  assumes "LOG s file line items env st = Inr st'"
  shows "(\<exists>evs. lg_events st' = lg_events st @ evs \<and> (Abort_call \<in> set evs \<longleftrightarrow> s = Fatal)) \<and>
    LOG Sysfatal file line items env st = LOG Syserr file line items env st"
proof
  show "\<exists>evs. lg_events st' = lg_events st @ evs \<and> (Abort_call \<in> set evs \<longleftrightarrow> s = Fatal)"
  proof (cases "enabled s st")
    case True
    then obtain st1 t where "lg_events st' = lg_events st @ emitted st1 (statement_level s) t"
      using assms log_statement_events by (fastforce simp: LOG_eq)
    moreover have "statement_level s = FATAL \<longleftrightarrow> s = Fatal" by (cases s) simp_all
    ultimately show ?thesis by (simp add: emitted_aborts)
  next
    case False
    then have "st' = st" "s \<noteq> Fatal" using assms by (auto simp: LOG_eq enabled_def)
    then show ?thesis by simp
  qed
qed (simp add: LOG_SYSFATAL_def LOG_SYSERR_def)

theorem only_fatal_aborts_witness:
  "\<exists>st'. LOG Sysfatal ''a.cc'' 1 [] (sample_env 4242) (logging_start False) = Inr st' \<and> Abort_call \<notin> set (lg_events st')"
proof -
  have "items_ok (sample_env 4242) Sysfatal [] ''a.cc''" by (simp add: items_ok_def errno_items_def sample_env_def)
  from log_statement_ok [OF sample_env_ok(1) sample_env_ok(3) [of _ False] _ _ this, where line = 1]
  obtain st' where st': "LOG Sysfatal ''a.cc'' 1 [] (sample_env 4242) (logging_start False) = Inr st'"
    unfolding LOG_eq using sample_enabled(2) by (auto simp: sample_env_def)
  from only_fatal_aborts [OF st'] st' show ?thesis by (auto simp: logging_start_def)
qed

text \<open>The constructor asserts that the printed thread id is nine characters long. On a system whose thread
  ids reach seven digits, as 64-bit Linux allows, every log statement that is not switched off stops
  the program.\<close>

theorem wide_tid_asserts:
  assumes "clock_ok env" and "cache_ok (le_gmtime env) st" and "1000000 \<le> le_tid env" and "enabled s st"
  shows "LOG s file line items env st = Inl AssertFailed"
  unfolding LOG_eq log_statement_def log_level_ctor_def ctor_defs
  using assms(4) by (cases s) (simp_all add: Impl_new_wide_tid [OF assms(1-3)])

theorem wide_tid_asserts_witness:
  "LOG Warn ''a.cc'' 1 [] (sample_env 4194303) (logging_start False) = Inl AssertFailed"
  by (rule wide_tid_asserts [OF sample_env_ok(1,3) _ sample_enabled(1)]) (simp add: sample_env_def)

end
