(* ===== verification/Log_File.thy ===== *)
theory Log_File
  imports Logger
begin

text \<open>
  \<^verbatim>\<open>LogFile\<close> and \<^verbatim>\<open>LogFile::File\<close> (src/logging/LogFile.h, LogFile.cc): a log file that is replaced when it has
  grown too long or a new day has begun. The calls of the C library are kept in a history with their
  results; the parameter \<open>io\<close> answers each call from the history before it. \<^verbatim>\<open>fwrite_unlocked\<close> reports at
  most the number of bytes it was given, as the C standard says (\<open>do_fwrite\<close>). \<^verbatim>\<open>gmtime_r\<close> is a parameter.
\<close>

section \<open>The C library\<close>

datatype file_call =
    Fopen string
  | Setbuffer int
  | Fwrite int "octet list"
  | Fflush int
  | Fclose int
  | Ferror int
  | Fprintf_stderr
  | Time
  | Getpid

type_synonym file_history = "(file_call \<times> int) list"

type_synonym stdio = "file_history \<Rightarrow> file_call \<Rightarrow> int"

record File =
  f_fp :: int
  f_writtenBytes :: nat

record logFile =
  lf_basename :: string
  lf_rollSize :: nat
  lf_flushInterval :: int
  lf_count :: int
  lf_mutex :: "bool option"
  lf_startOfPeriod :: int
  lf_lastRoll :: int
  lf_lastFlush :: int
  lf_file :: "File option"

definition file_io :: "stdio \<Rightarrow> file_call \<Rightarrow> file_history \<Rightarrow> int \<times> file_history" where
  "file_io io c h = (io h c, h @ [(c, io h c)])"

definition do_fwrite :: "stdio \<Rightarrow> int \<Rightarrow> octet list \<Rightarrow> file_history \<Rightarrow> nat \<times> file_history" where
  "do_fwrite io fp d h =
     (let r = min (nat (io h (Fwrite fp d))) (length d) in (r, h @ [(Fwrite fp d, int r)]))"

section \<open>File\<close>

text \<open>\<^verbatim>\<open>setbuffer\<close> on the null pointer of a failed \<^verbatim>\<open>fopen\<close> is undefined.\<close>

definition File_new :: "stdio \<Rightarrow> string \<Rightarrow> file_history \<Rightarrow> (File \<times> file_history) res" where
  "File_new io filename h =
     (case file_io io (Fopen filename) h of (fp, h1) \<Rightarrow>
      if fp = 0 then Inl NullPointer
      else case file_io io (Setbuffer fp) h1 of (_, h2) \<Rightarrow> Inr (\<lparr>f_fp = fp, f_writtenBytes = 0\<rparr>, h2))"

definition File_delete :: "stdio \<Rightarrow> File \<Rightarrow> file_history \<Rightarrow> file_history" where
  "File_delete io f h = snd (file_io io (Fclose (f_fp f)) h)"

text \<open>The loop over the bytes \<^verbatim>\<open>logline + n\<close> that remain.\<close>

function File_append_loop :: "stdio \<Rightarrow> int \<Rightarrow> octet list \<Rightarrow> file_history \<Rightarrow> file_history" where
  "File_append_loop io fp rest h =
     (if rest = [] then h
      else case do_fwrite io fp rest h of (x, h1) \<Rightarrow>
        if x = 0
        then (case file_io io (Ferror fp) h1 of (err, h2) \<Rightarrow>
          if err \<noteq> 0 then snd (file_io io Fprintf_stderr h2) else h2)
        else File_append_loop io fp (drop x rest) h1)"
  by auto

termination
  by (relation "measure (\<lambda>(io, fp, rest, h). length rest)") auto

declare File_append_loop.simps [simp del]

definition File_append :: "stdio \<Rightarrow> octet list \<Rightarrow> File \<Rightarrow> file_history \<Rightarrow> File \<times> file_history" where
  "File_append io logline f h =
     (case do_fwrite io (f_fp f) logline h of (n, h1) \<Rightarrow>
       (f\<lparr>f_writtenBytes := sz_add (f_writtenBytes f) (length logline)\<rparr>,
        File_append_loop io (f_fp f) (drop n logline) h1))"

definition File_flush :: "stdio \<Rightarrow> File \<Rightarrow> file_history \<Rightarrow> file_history" where
  "File_flush io f h = snd (file_io io (Fflush (f_fp f)) h)"

section \<open>LogFile\<close>

definition kCheckTimeRoll :: int where
  "kCheckTimeRoll = 1024"

definition kRollPerSeconds :: int where
  "kRollPerSeconds = 60 * 60 * 24"

text \<open>\<^verbatim>\<open>strftime\<close> with the format \<^verbatim>\<open>".%Y%m%d-%H%M%S"\<close>\<close>

definition strftime_name :: "tm \<Rightarrow> string" where
  "strftime_name t = ''.'' @ fmt_d (tm_year t + 1900) @ fmt_0d 2 (tm_mon t + 1) @ fmt_0d 2 (tm_mday t) @ ''-'' @
     fmt_0d 2 (tm_hour t) @ fmt_0d 2 (tm_min t) @ fmt_0d 2 (tm_sec t)"

definition getLogFileName ::
    "stdio \<Rightarrow> (int \<Rightarrow> tm) \<Rightarrow> string \<Rightarrow> file_history \<Rightarrow> string \<times> int \<times> file_history" where
  "getLogFileName io gmtime base h =
     (case file_io io Time h of (now, h1) \<Rightarrow>
      case file_io io Getpid h1 of (pid, h2) \<Rightarrow>
       (base @ strftime_name (gmtime now) @ snprintf 32 (''.'' @ fmt_d pid) @ ''.log'', now, h2))"

definition rollFile :: "stdio \<Rightarrow> (int \<Rightarrow> tm) \<Rightarrow> logFile \<times> file_history \<Rightarrow> (logFile \<times> file_history) res" where
  "rollFile io gmtime = (\<lambda>(lf, h).
     case getLogFileName io gmtime (lf_basename lf) h of (filename, now, h1) \<Rightarrow>
     let start = c_div now kRollPerSeconds * kRollPerSeconds in
     if now > lf_lastRoll lf
     then bindR (File_new io filename h1) (\<lambda>(f, h2).
       Inr (lf\<lparr>lf_lastRoll := now, lf_lastFlush := now, lf_startOfPeriod := start, lf_file := Some f\<rparr>,
            case lf_file lf of None \<Rightarrow> h2 | Some old \<Rightarrow> File_delete io old h2))
     else Inr (lf, h1))"

definition LogFile_new ::
    "stdio \<Rightarrow> (int \<Rightarrow> tm) \<Rightarrow> string \<Rightarrow> nat \<Rightarrow> bool \<Rightarrow> int \<Rightarrow> file_history \<Rightarrow> (logFile \<times> file_history) res" where
  "LogFile_new io gmtime base rollSize threadSafe flushInterval h =
     assertC (CHR ''/'' \<notin> set base)
       (rollFile io gmtime (\<lparr>lf_basename = base, lf_rollSize = rollSize, lf_flushInterval = flushInterval, lf_count = 0,
          lf_mutex = (if threadSafe then Some False else None), lf_startOfPeriod = 0, lf_lastRoll = 0,
          lf_lastFlush = 0, lf_file = None\<rparr>, h))"

definition LogFile_delete :: "stdio \<Rightarrow> logFile \<Rightarrow> file_history \<Rightarrow> file_history" where
  "LogFile_delete io lf h = (case lf_file lf of None \<Rightarrow> h | Some f \<Rightarrow> File_delete io f h)"

text \<open>The part of \<^verbatim>\<open>append_unlocked\<close> after the write.\<close>

definition check_roll :: "stdio \<Rightarrow> (int \<Rightarrow> tm) \<Rightarrow> File \<Rightarrow> logFile \<times> file_history \<Rightarrow> (logFile \<times> file_history) res" where
  "check_roll io gmtime f = (\<lambda>(lf, h).
     if f_writtenBytes f > lf_rollSize lf then rollFile io gmtime (lf, h)
     else if lf_count lf > kCheckTimeRoll
     then (case file_io io Time h of (now, h1) \<Rightarrow>
       let thisPeriod = c_div now kRollPerSeconds * kRollPerSeconds; lf1 = lf\<lparr>lf_count := 0\<rparr> in
       if thisPeriod \<noteq> lf_startOfPeriod lf then rollFile io gmtime (lf1, h1)
       else if now - lf_lastFlush lf > lf_flushInterval lf
       then Inr (lf1\<lparr>lf_lastFlush := now\<rparr>, File_flush io f h1)
       else Inr (lf1, h1))
     else Inr (lf\<lparr>lf_count := lf_count lf + 1\<rparr>, h))"

definition append_unlocked ::
    "stdio \<Rightarrow> (int \<Rightarrow> tm) \<Rightarrow> octet list \<Rightarrow> int \<Rightarrow> logFile \<times> file_history \<Rightarrow> (logFile \<times> file_history) res" where
  "append_unlocked io gmtime logline len = (\<lambda>(lf, h).
     case lf_file lf of None \<Rightarrow> Inl NullPointer | Some f \<Rightarrow>
     if len < 0 \<or> int (length logline) < len then Inl OutOfBounds
     else case File_append io (take (nat len) logline) f h of (f1, h1) \<Rightarrow>
       check_roll io gmtime f1 (lf\<lparr>lf_file := Some f1\<rparr>, h1))"

text \<open>\<^verbatim>\<open>std::lock_guard\<close> around an operation: locking a mutex that is held never returns.\<close>

definition guarded :: "(logFile \<times> file_history \<Rightarrow> (logFile \<times> file_history) res) \<Rightarrow> logFile \<times> file_history \<Rightarrow> (logFile \<times> file_history) res" where
  "guarded op = (\<lambda>(lf, h). case lf_mutex lf of
       None \<Rightarrow> op (lf, h)
     | Some True \<Rightarrow> Inl WouldBlock
     | Some False \<Rightarrow> bindR (op (lf\<lparr>lf_mutex := Some True\<rparr>, h)) (\<lambda>(lf1, h1). Inr (lf1\<lparr>lf_mutex := Some False\<rparr>, h1)))"

definition LogFile_append ::
    "stdio \<Rightarrow> (int \<Rightarrow> tm) \<Rightarrow> octet list \<Rightarrow> int \<Rightarrow> logFile \<times> file_history \<Rightarrow> (logFile \<times> file_history) res" where
  "LogFile_append io gmtime logline len = guarded (append_unlocked io gmtime logline len)"

definition LogFile_flush :: "stdio \<Rightarrow> logFile \<times> file_history \<Rightarrow> (logFile \<times> file_history) res" where
  "LogFile_flush io = guarded (\<lambda>(lf, h). case lf_file lf of None \<Rightarrow> Inl NullPointer | Some f \<Rightarrow> Inr (lf, File_flush io f h))"

section \<open>What reaches the files\<close>

fun call_bytes :: "file_call \<times> int \<Rightarrow> octet list" where
  "call_bytes (Fwrite fp d, r) = take (nat r) d"
| "call_bytes (c, r) = []"

definition log_written :: "file_history \<Rightarrow> octet list" where
  "log_written h = concat (map call_bytes h)"

fun call_opens :: "file_call \<times> int \<Rightarrow> string list" where
  "call_opens (Fopen n, r) = [n]"
| "call_opens (c, r) = []"

definition opened :: "file_history \<Rightarrow> string list" where
  "opened h = concat (map call_opens h)"

lemma log_written_simps [simp]:
  "log_written [] = []"
  "log_written (h @ h') = log_written h @ log_written h'"
  "log_written (x # h) = call_bytes x @ log_written h"
  by (simp_all add: log_written_def)

lemma opened_simps [simp]:
  "opened [] = []"
  "opened (h @ h') = opened h @ opened h'"
  "opened (x # h) = call_opens x @ opened h"
  by (simp_all add: opened_def)

text \<open>A C library that opens every file and takes at least one byte of every non-empty write.\<close>

definition io_writes :: "stdio \<Rightarrow> bool" where
  "io_writes io \<longleftrightarrow> (\<forall>h n. io h (Fopen n) \<noteq> 0) \<and> (\<forall>h fp d. d \<noteq> [] \<longrightarrow> 0 < io h (Fwrite fp d))"

lemmas io_defs = file_io_def do_fwrite_def File_new_def File_delete_def File_flush_def getLogFileName_def

lemma append_loop_written: "io_writes io \<Longrightarrow> log_written (File_append_loop io fp rest h) = log_written h @ rest"
proof (induction io fp rest h rule: File_append_loop.induct)
  case (1 io fp rest h)
  show ?case
  proof (cases "rest = []")
    case True
    then show ?thesis by (subst File_append_loop.simps) simp
  next
    case False
    obtain x h1 where w: "do_fwrite io fp rest h = (x, h1)" by (cases "do_fwrite io fp rest h")
    have pos: "0 < io h (Fwrite fp rest)" using "1.prems" False by (simp add: io_writes_def)
    have x: "x \<noteq> 0" "x \<le> length rest" "log_written h1 = log_written h @ take x rest"
      using w False pos by (auto simp: do_fwrite_def Let_def min_def split: if_splits)
    have "log_written (File_append_loop io fp (drop x rest) h1) = log_written h1 @ drop x rest"
      using 1(1) [OF False w [symmetric] x(1) "1.prems"] by simp
    with False w x show ?thesis by (subst File_append_loop.simps) simp
  qed
qed

lemma append_loop_opened: "opened (File_append_loop io fp rest h) = opened h"
proof (induction io fp rest h rule: File_append_loop.induct)
  case (1 io fp rest h)
  then show ?case
    by (subst File_append_loop.simps) (auto simp: do_fwrite_def file_io_def Let_def split: if_splits)
qed

lemma File_append_written:
  assumes "io_writes io" and "File_append io l f h = (f', h')"
  shows "log_written h' = log_written h @ l"
proof -
  obtain n h1 where w: "do_fwrite io (f_fp f) l h = (n, h1)" by (cases "do_fwrite io (f_fp f) l h")
  have "log_written h1 = log_written h @ take n l" using w by (auto simp: do_fwrite_def Let_def)
  with assms w show ?thesis by (auto simp: File_append_def append_loop_written)
qed

lemma File_append_opened: "File_append io l f h = (f', h') \<Longrightarrow> opened h' = opened h"
  by (auto simp: File_append_def do_fwrite_def Let_def append_loop_opened)

section \<open>Operations of a ready log file\<close>

definition lf_ready :: "logFile \<Rightarrow> bool" where
  "lf_ready lf \<longleftrightarrow> lf_file lf \<noteq> None"

lemma rollFile_ok:
  assumes "\<forall>h n. io h (Fopen n) \<noteq> 0" and "lf_file lf \<noteq> None \<or> lf_lastRoll lf < io h Time"
  shows "\<exists>lf' h'. rollFile io gm (lf, h) = Inr (lf', h') \<and> lf_ready lf' \<and> lf_mutex lf' = lf_mutex lf \<and>
    log_written h' = log_written h"
  using assms by (auto simp: rollFile_def io_defs Let_def lf_ready_def split: option.split)

lemma check_roll_ok:
  assumes "io_writes io" and "lf_ready lf"
  shows "\<exists>lf' h'. check_roll io gm f (lf, h) = Inr (lf', h') \<and> lf_ready lf' \<and> lf_mutex lf' = lf_mutex lf \<and>
    log_written h' = log_written h"
proof -
  have roll: "\<exists>lf' h'. rollFile io gm (lf1, h1) = Inr (lf', h') \<and> lf_ready lf' \<and> lf_mutex lf' = lf_mutex lf1 \<and>
      log_written h' = log_written h1" if "lf_ready lf1" for lf1 h1
    using rollFile_ok [of io lf1 h1 gm] assms(1) that by (simp add: io_writes_def lf_ready_def)
  have "lf_ready (lf\<lparr>lf_count := 0\<rparr>)" using assms(2) by (simp add: lf_ready_def)
  from roll [OF this, of "h @ [(Time, io h Time)]"] roll [OF assms(2), of h] assms(2)
  show ?thesis by (auto simp: check_roll_def file_io_def File_flush_def Let_def lf_ready_def)
qed

lemma append_unlocked_ok:
  assumes "io_writes io" and "lf_ready lf"
  shows "\<exists>lf' h'. append_unlocked io gm l (int (length l)) (lf, h) = Inr (lf', h') \<and> lf_ready lf' \<and>
    lf_mutex lf' = lf_mutex lf \<and> log_written h' = log_written h @ l"
proof -
  obtain f where f: "lf_file lf = Some f" using assms(2) by (auto simp: lf_ready_def)
  obtain f1 h1 where a: "File_append io l f h = (f1, h1)" by (cases "File_append io l f h")
  have "lf_ready (lf\<lparr>lf_file := Some f1\<rparr>)" by (simp add: lf_ready_def)
  from check_roll_ok [OF assms(1) this, of gm f1 h1] File_append_written [OF assms(1) a] f a
  show ?thesis by (simp add: append_unlocked_def)
qed

lemma LogFile_append_ok:
  assumes "io_writes io" and "lf_ready lf" and "lf_mutex lf \<noteq> Some True"
  shows "\<exists>lf' h'. LogFile_append io gm l (int (length l)) (lf, h) = Inr (lf', h') \<and> lf_ready lf' \<and>
    lf_mutex lf' = lf_mutex lf \<and> log_written h' = log_written h @ l"
proof (cases "lf_mutex lf")
  case None
  then show ?thesis using append_unlocked_ok [OF assms(1,2)] by (simp add: LogFile_append_def guarded_def)
next
  case (Some b)
  then have b: "\<not> b" using assms(3) by auto
  have "lf_ready (lf\<lparr>lf_mutex := Some True\<rparr>)" using assms(2) by (simp add: lf_ready_def)
  from append_unlocked_ok [OF assms(1) this] obtain lf' h' where
    "append_unlocked io gm l (int (length l)) (lf\<lparr>lf_mutex := Some True\<rparr>, h) = Inr (lf', h')" "lf_ready lf'"
    "log_written h' = log_written h @ l" by blast
  with Some b show ?thesis by (simp add: LogFile_append_def guarded_def lf_ready_def)
qed

lemma LogFile_appends:
  assumes "io_writes io" and "lf_ready lf" and "lf_mutex lf \<noteq> Some True"
  shows "\<exists>lf' h'. foldR (\<lambda>l. LogFile_append io gm l (int (length l))) lines (lf, h) = Inr (lf', h') \<and>
    lf_ready lf' \<and> lf_mutex lf' = lf_mutex lf \<and> log_written h' = log_written h @ concat lines"
  using assms
proof (induction lines arbitrary: lf h)
  case (Cons l lines)
  obtain lf1 h1 where a: "LogFile_append io gm l (int (length l)) (lf, h) = Inr (lf1, h1)" "lf_ready lf1"
      "lf_mutex lf1 = lf_mutex lf" "log_written h1 = log_written h @ l"
    using LogFile_append_ok [OF Cons.prems] by blast
  with Cons.IH [OF Cons.prems(1) a(2), of h1] Cons.prems(3) show ?case by auto
qed simp

section \<open>File names\<close>

definition name_at :: "(int \<Rightarrow> tm) \<Rightarrow> string \<Rightarrow> int \<Rightarrow> int \<Rightarrow> string" where
  "name_at gmtime base pid t = base @ strftime_name (gmtime t) @ snprintf 32 (''.'' @ fmt_d pid) @ ''.log''"

text \<open>The clock stays before the year 10000, where \<^verbatim>\<open>gmtime_r\<close> gives different times to different
  seconds; the process id does not change.\<close>

definition clock_io :: "stdio \<Rightarrow> (int \<Rightarrow> tm) \<Rightarrow> int \<Rightarrow> bool" where
  "clock_io io gmtime pid \<longleftrightarrow> (\<forall>h. io h Time < 253402300800) \<and> (\<forall>h. io h Getpid = pid) \<and>
     inj_on gmtime {0<..<253402300800} \<and> (\<forall>t. 0 < t \<longrightarrow> t < 253402300800 \<longrightarrow> tm_ok (gmtime t))"

lemma fmt_0d_eq: "0 \<le> a \<Longrightarrow> 0 \<le> b \<Longrightarrow> fmt_0d w a = fmt_0d w b \<Longrightarrow> a = b"
  by (metis base_value_fmt_0d eq_nat_nat_iff)

lemma length_fmt_year: "tm_ok t \<Longrightarrow> length (fmt_d (tm_year t + 1900)) = 4"
proof -
  assume t: "tm_ok t"
  then have "(1000 :: int) \<le> tm_year t + 1900" by (simp add: tm_ok_def)
  then have "(10 :: nat) ^ 3 \<le> nat (tm_year t + 1900)" by (simp add: nat_le_iff le_nat_iff)
  then have "3 < length (dec (nat (tm_year t + 1900)))" by (rule length_base_digits_ge [rotated]) simp
  moreover have "length (fmt_d (tm_year t + 1900)) \<le> 4" using t by (intro length_fmt_d_le) (simp_all add: tm_ok_def)
  ultimately show ?thesis using t by (simp add: fmt_d_def tm_ok_def)
qed

lemma strftime_name_inject:
  assumes "tm_ok a" and "tm_ok b" and "strftime_name a = strftime_name b"
  shows "a = b"
proof -
  have len: "length (fmt_0d 2 (tm_mon t + 1)) = 2" "length (fmt_0d 2 (tm_mday t)) = 2" "length (fmt_0d 2 (tm_hour t)) = 2"
      "length (fmt_0d 2 (tm_min t)) = 2" "length (fmt_0d 2 (tm_sec t)) = 2" if "tm_ok t" for t
    using that by (simp_all add: tm_ok_def length_fmt_0d)
  have "fmt_d (tm_year a + 1900) = fmt_d (tm_year b + 1900) \<and> fmt_0d 2 (tm_mon a + 1) = fmt_0d 2 (tm_mon b + 1) \<and>
      fmt_0d 2 (tm_mday a) = fmt_0d 2 (tm_mday b) \<and> fmt_0d 2 (tm_hour a) = fmt_0d 2 (tm_hour b) \<and>
      fmt_0d 2 (tm_min a) = fmt_0d 2 (tm_min b) \<and> fmt_0d 2 (tm_sec a) = fmt_0d 2 (tm_sec b)"
    using assms(3) by (simp add: strftime_name_def length_fmt_year assms(1,2) len)
  then have "tm_year a = tm_year b" "tm_mon a = tm_mon b" "tm_mday a = tm_mday b" "tm_hour a = tm_hour b"
      "tm_min a = tm_min b" "tm_sec a = tm_sec b"
    using assms(1,2) by (auto simp: tm_ok_def dest: fmt_0d_eq [rotated 2])
  then show ?thesis by simp
qed

lemma name_at_inject:
  assumes "clock_io io gm pid" and "0 < s" "s < 253402300800" "0 < t" "t < 253402300800"
    and "name_at gm base pid s = name_at gm base pid t"
  shows "s = t"
proof -
  have "strftime_name (gm s) = strftime_name (gm t)" using assms(6) by (simp add: name_at_def)
  then have "gm s = gm t" using assms(1-5) by (intro strftime_name_inject) (simp_all add: clock_io_def)
  then show ?thesis using assms(1-5) by (auto simp: clock_io_def dest: inj_onD)
qed

text \<open>Every file opened so far has the name of its second, and no name was used twice.\<close>

definition names_inv :: "(int \<Rightarrow> tm) \<Rightarrow> string \<Rightarrow> int \<Rightarrow> logFile \<times> file_history \<Rightarrow> bool" where
  "names_inv gm base pid = (\<lambda>(lf, h). lf_basename lf = base \<and> 0 \<le> lf_lastRoll lf \<and> lf_lastRoll lf < 253402300800 \<and>
     distinct (opened h) \<and> (\<forall>n \<in> set (opened h). \<exists>t. 0 < t \<and> t \<le> lf_lastRoll lf \<and> n = name_at gm base pid t))"

lemma rollFile_names:
  assumes io: "clock_io io gm pid" and inv: "names_inv gm base pid (lf, h)" and run: "rollFile io gm (lf, h) = Inr s"
  shows "names_inv gm base pid s"
proof -
  let ?now = "io h Time"
  let ?n = "name_at gm base pid ?now"
  have now: "?now < 253402300800" and pid: "io h' Getpid = pid" for h' using io by (simp_all add: clock_io_def)
  show ?thesis
  proof (cases "lf_lastRoll lf < ?now")
    case False
    with run inv show ?thesis by (auto simp: rollFile_def io_defs names_inv_def)
  next
    case True
    have fresh: "?n \<notin> set (opened h)"
    proof
      assume "?n \<in> set (opened h)"
      then obtain t where t: "0 < t" "t \<le> lf_lastRoll lf" "?n = name_at gm base pid t"
        using inv by (auto simp: names_inv_def)
      then have "?now = t" using True inv now by (intro name_at_inject [OF io]) (auto simp: names_inv_def)
      with t(2) True show False by simp
    qed
    obtain lf' h' where s: "s = (lf', h')" by (cases s)
    have "lf_basename lf' = base" "lf_lastRoll lf' = ?now" "opened h' = opened h @ [?n]"
      using run True inv s by (auto simp: rollFile_def io_defs Let_def names_inv_def name_at_def pid split: if_splits option.splits)
    moreover have "\<exists>t. 0 < t \<and> t \<le> ?now \<and> n = name_at gm base pid t" if "n \<in> insert ?n (set (opened h))" for n
    proof (cases "n = ?n")
      case False
      then have "n \<in> set (opened h)" using that by simp
      then obtain t where "0 < t" "t \<le> lf_lastRoll lf" "n = name_at gm base pid t"
        using inv unfolding names_inv_def by blast
      then show ?thesis using True by (intro exI [of _ t]) simp
    next
      case new: True
      show ?thesis using True inv new by (intro exI [of _ ?now]) (simp add: names_inv_def)
    qed
    ultimately show ?thesis using fresh inv now True s by (simp add: names_inv_def)
  qed
qed

lemma names_inv_frame:
  assumes "names_inv gm base pid (lf, h)" and "lf_basename lf' = lf_basename lf" "lf_lastRoll lf' = lf_lastRoll lf"
    and "opened h' = opened h"
  shows "names_inv gm base pid (lf', h')"
  using assms by (simp add: names_inv_def)

lemma check_roll_names:
  assumes io: "clock_io io gm pid" and inv: "names_inv gm base pid (lf, h)" and run: "check_roll io gm f (lf, h) = Inr s"
  shows "names_inv gm base pid s"
proof -
  have fr: "names_inv gm base pid (lf\<lparr>lf_count := c, lf_lastFlush := d\<rparr>, h @ h')" if "opened h' = []" for c d h'
    by (rule names_inv_frame [OF inv]) (simp_all add: that)
  have "names_inv gm base pid (lf\<lparr>lf_count := c\<rparr>, h @ h')" if "opened h' = []" for c h'
    using fr [OF that, of "lf_lastFlush lf" c] by simp
  from this [of "[]"] this [of "[(Time, io h Time)]"] fr [of "[]"] fr [of "[(Time, io h Time), c]" for c] inv run
  show ?thesis
    by (auto simp: check_roll_def file_io_def File_flush_def Let_def split: if_splits elim!: rollFile_names [OF io, rotated])
qed

lemma append_unlocked_names:
  assumes io: "clock_io io gm pid" and inv: "names_inv gm base pid (lf, h)"
    and run: "append_unlocked io gm l len (lf, h) = Inr s"
  shows "names_inv gm base pid s"
proof -
  obtain f f1 h1 where f: "lf_file lf = Some f" "File_append io (take (nat len) l) f h = (f1, h1)"
      "check_roll io gm f1 (lf\<lparr>lf_file := Some f1\<rparr>, h1) = Inr s"
    using run by (auto simp: append_unlocked_def split: option.splits if_splits prod.splits)
  have "names_inv gm base pid (lf\<lparr>lf_file := Some f1\<rparr>, h1)"
    by (rule names_inv_frame [OF inv]) (simp_all add: File_append_opened [OF f(2)])
  from check_roll_names [OF io this f(3)] show ?thesis .
qed

lemma guarded_names:
  assumes "names_inv gm base pid (lf, h)" and "guarded op (lf, h) = Inr s"
    and "\<And>lf h s. names_inv gm base pid (lf, h) \<Longrightarrow> op (lf, h) = Inr s \<Longrightarrow> names_inv gm base pid s"
  shows "names_inv gm base pid s"
proof (cases "lf_mutex lf")
  case None
  with assms show ?thesis by (simp add: guarded_def)
next
  case (Some b)
  with assms(2) obtain lf1 h1 where o: "op (lf\<lparr>lf_mutex := Some True\<rparr>, h) = Inr (lf1, h1)" "s = (lf1\<lparr>lf_mutex := Some False\<rparr>, h1)"
    by (cases b) (auto simp: guarded_def)
  have "names_inv gm base pid (lf\<lparr>lf_mutex := Some True\<rparr>, h)" by (rule names_inv_frame [OF assms(1)]) simp_all
  from assms(3) [OF this o(1)] have "names_inv gm base pid (lf1, h1)" .
  then show ?thesis unfolding o(2) by (rule names_inv_frame) simp_all
qed

datatype log_op = Append "octet list" | Flush

fun log_op_step :: "stdio \<Rightarrow> (int \<Rightarrow> tm) \<Rightarrow> log_op \<Rightarrow> logFile \<times> file_history \<Rightarrow> (logFile \<times> file_history) res" where
  "log_op_step io gmtime (Append l) = LogFile_append io gmtime l (int (length l))"
| "log_op_step io gmtime Flush = LogFile_flush io"

lemma log_op_names:
  assumes io: "clock_io io gm pid" and "names_inv gm base pid s" and "log_op_step io gm x s = Inr s'"
  shows "names_inv gm base pid s'"
proof -
  obtain lf h where s: "s = (lf, h)" by (cases s)
  show ?thesis
  proof (cases x)
    case (Append l)
    then have "guarded (append_unlocked io gm l (int (length l))) (lf, h) = Inr s'"
      using assms(3) by (simp add: s LogFile_append_def)
    from guarded_names [OF assms(2) [unfolded s] this append_unlocked_names [OF io]] show ?thesis .
  next
    case Flush
    have op: "names_inv gm base pid s2" if i: "names_inv gm base pid (l2, h2)" and
        o: "(case lf_file l2 of None \<Rightarrow> Inl NullPointer | Some f \<Rightarrow> Inr (l2, File_flush io f h2)) = (Inr s2 :: (logFile \<times> file_history) res)"
      for l2 h2 s2
    proof -
      obtain f where "s2 = (l2, File_flush io f h2)" using o by (auto split: option.splits)
      then show ?thesis by (simp add: names_inv_frame [OF i] File_flush_def file_io_def)
    qed
    show ?thesis
      using guarded_names [OF assms(2) [unfolded s] assms(3) [unfolded s Flush log_op_step.simps LogFile_flush_def]] op by simp
  qed
qed

lemma LogFile_new_names:
  assumes io: "clock_io io gm pid" and "LogFile_new io gm base n ts iv [] = Inr s"
  shows "names_inv gm base pid s"
  using assms(2) unfolding LogFile_new_def
  by (elim assertC_InrE) (rule rollFile_names [OF io], simp_all add: names_inv_def)

section \<open>When the clock is read\<close>

definition only_writes :: "int \<Rightarrow> file_history \<Rightarrow> bool" where
  "only_writes fp h \<longleftrightarrow> (\<forall>c \<in> fst ` set h. \<exists>d. c = Fwrite fp d)"

lemma only_writes_append [simp]: "only_writes fp (h @ h') \<longleftrightarrow> only_writes fp h \<and> only_writes fp h'"
  by (auto simp: only_writes_def)

lemma only_writes_simps [simp]: "only_writes fp []" "only_writes fp ((Fwrite fp d, r) # h) = only_writes fp h"
  by (auto simp: only_writes_def)

lemma do_fwrite_history: "do_fwrite io fp d h = (n, h') \<Longrightarrow> h' = h @ [(Fwrite fp d, int n)]"
  by (auto simp: do_fwrite_def Let_def)

lemma append_loop_only_writes:
  "io_writes io \<Longrightarrow> \<exists>new. File_append_loop io fp rest h = h @ new \<and> only_writes fp new"
proof (induction io fp rest h rule: File_append_loop.induct)
  case (1 io fp rest h)
  show ?case
  proof (cases "rest = []")
    case True
    then show ?thesis by (subst File_append_loop.simps) simp
  next
    case False
    obtain x h1 where w: "do_fwrite io fp rest h = (x, h1)" by (cases "do_fwrite io fp rest h")
    have "0 < io h (Fwrite fp rest)" using "1.prems" False by (simp add: io_writes_def)
    then have x: "x \<noteq> 0" using w False by (auto simp: do_fwrite_def Let_def min_def split: if_splits)
    from 1(1) [OF False w [symmetric] x "1.prems"] obtain new where
      "File_append_loop io fp (drop x rest) h1 = h1 @ new" "only_writes fp new" by blast
    with False w x do_fwrite_history [OF w] show ?thesis by (subst File_append_loop.simps) simp
  qed
qed

lemma File_append_only_writes:
  assumes "io_writes io"
  shows "\<exists>new. File_append io l f h = (f\<lparr>f_writtenBytes := sz_add (f_writtenBytes f) (length l)\<rparr>, h @ new) \<and>
    only_writes (f_fp f) new"
proof -
  obtain n h1 where w: "do_fwrite io (f_fp f) l h = (n, h1)" by (cases "do_fwrite io (f_fp f) l h")
  from append_loop_only_writes [OF assms, of "f_fp f" "drop n l" h1] do_fwrite_history [OF w] w
  show ?thesis by (auto simp: File_append_def)
qed

text \<open>The log file after \<open>k\<close> quiet appends.\<close>

definition quiet :: "logFile \<Rightarrow> nat \<Rightarrow> nat \<Rightarrow> logFile \<Rightarrow> bool" where
  "quiet lf k n lf' \<longleftrightarrow> (\<exists>f. lf_file lf = Some f \<and>
     lf' = lf\<lparr>lf_count := lf_count lf + int k, lf_file := Some (f\<lparr>f_writtenBytes := f_writtenBytes f + n\<rparr>)\<rparr>)"

lemma append_quiet:
  assumes "io_writes io" and f: "lf_file lf = Some f" and "lf_mutex lf \<noteq> Some True" and "lf_count lf \<le> kCheckTimeRoll"
    and n: "f_writtenBytes f + length l \<le> lf_rollSize lf" "lf_rollSize lf < size_t_mod"
  shows "\<exists>lf' new. LogFile_append io gm l (int (length l)) (lf, h) = Inr (lf', h @ new) \<and> only_writes (f_fp f) new \<and>
    quiet lf 1 (length l) lf'"
proof -
  obtain new where a: "File_append io l f h = (f\<lparr>f_writtenBytes := f_writtenBytes f + length l\<rparr>, h @ new)"
      "only_writes (f_fp f) new"
    using File_append_only_writes [OF assms(1), of l f h] n by (auto simp: sz_add_exact)
  let ?f = "f\<lparr>f_writtenBytes := f_writtenBytes f + length l\<rparr>"
  have "append_unlocked io gm l (int (length l)) (x, h) =
      Inr (x\<lparr>lf_count := lf_count x + 1, lf_file := Some ?f\<rparr>, h @ new)"
    if "lf_file x = Some f" "lf_count x = lf_count lf" "lf_rollSize x = lf_rollSize lf" for x
    using that a(1) n assms(4) by (simp add: append_unlocked_def check_roll_def)
  from this [of lf] this [of "lf\<lparr>lf_mutex := Some True\<rparr>"] show ?thesis
    using assms(3) f a(2) by (cases "lf_mutex lf") (auto simp: LogFile_append_def guarded_def quiet_def)
qed

lemma appends_quiet:
  assumes "io_writes io" and "lf_file lf = Some f" and "lf_mutex lf \<noteq> Some True"
    and "lf_count lf + int (length lines) \<le> kCheckTimeRoll + 1"
    and "f_writtenBytes f + length (concat lines) \<le> lf_rollSize lf" "lf_rollSize lf < size_t_mod"
  shows "\<exists>lf' new. foldR (\<lambda>l. LogFile_append io gm l (int (length l))) lines (lf, h) = Inr (lf', h @ new) \<and>
    only_writes (f_fp f) new \<and> quiet lf (length lines) (length (concat lines)) lf'"
  using assms
proof (induction lines arbitrary: lf f h)
  case Nil
  then show ?case by (auto simp: quiet_def)
next
  case (Cons l lines)
  obtain lf1 new where a: "LogFile_append io gm l (int (length l)) (lf, h) = Inr (lf1, h @ new)" "only_writes (f_fp f) new"
      "quiet lf 1 (length l) lf1"
    using append_quiet [OF Cons.prems(1,2,3), of l gm h] Cons.prems by auto
  let ?f = "f\<lparr>f_writtenBytes := f_writtenBytes f + length l\<rparr>"
  have lf1: "lf1 = lf\<lparr>lf_count := lf_count lf + 1, lf_file := Some ?f\<rparr>"
    using a(3) Cons.prems(2) by (auto simp: quiet_def)
  then have f1: "lf_file lf1 = Some ?f" by simp
  obtain lf2 new2 where b: "foldR (\<lambda>l. LogFile_append io gm l (int (length l))) lines (lf1, h @ new) = Inr (lf2, (h @ new) @ new2)"
      "only_writes (f_fp ?f) new2" "quiet lf1 (length lines) (length (concat lines)) lf2"
    using Cons.IH [OF Cons.prems(1) f1, of "h @ new"] Cons.prems lf1 by auto
  have "quiet lf (length (l # lines)) (length (concat (l # lines))) lf2"
    using b(3) lf1 Cons.prems(2) by (simp add: quiet_def add.assoc)
  then show ?case using a(1,2) b(1,2) by simp
qed

section \<open>Properties\<close>

text \<open>A C library that takes at most two bytes at a time and whose clock shows the length of the history.\<close>

definition sample_io :: "int \<Rightarrow> stdio" where
  "sample_io start h c = (case c of Fopen _ \<Rightarrow> 3 | Fwrite _ _ \<Rightarrow> 2 | Getpid \<Rightarrow> 7 | Time \<Rightarrow> start | _ \<Rightarrow> 0)"

text \<open>A calendar that is one-to-one on the modelled times.\<close>

definition sample_calendar :: "int \<Rightarrow> tm" where
  "sample_calendar t =
     (let a = t div 100; b = a div 100; c = b div 100; d = c div 100; e = d div 10 in
      \<lparr>tm_year = e - 900, tm_mon = d mod 10, tm_mday = c mod 100, tm_hour = b mod 100, tm_min = a mod 100, tm_sec = t mod 100\<rparr>)"

definition calendar_inverse :: "tm \<Rightarrow> int" where
  "calendar_inverse u = ((((10 * (tm_year u + 900) + tm_mon u) * 100 + tm_mday u) * 100 + tm_hour u) * 100 + tm_min u) * 100 + tm_sec u"

lemma sample_clock_io: "t < 253402300800 \<Longrightarrow> clock_io (sample_io t) sample_calendar 7"
proof -
  assume t: "t < 253402300800"
  have nest: "t div 10000 = t div 100 div 100" "t div 1000000 = t div 100 div 100 div 100"
      "t div 100000000 = t div 100 div 100 div 100 div 100" "t div 1000000000 = t div 100 div 100 div 100 div 100 div 10" for t :: int
    by (simp_all flip: div_mult2_eq)
  have "calendar_inverse (sample_calendar t) = t" for t
    by (simp add: calendar_inverse_def sample_calendar_def Let_def mult.commute [of _ 100])
  then have "inj_on sample_calendar {0<..<253402300800}" by (rule inj_on_inverseI)
  moreover have "tm_ok (sample_calendar t)" if "0 < t" "t < 253402300800" for t
  proof -
    have y: "t div 1000000000 \<le> 253" "0 \<le> t div 1000000000" using that by simp_all
    define e where "e = t div 100 div 100 div 100 div 100 div 10"
    have e: "1000 \<le> e - 900 + 1900" "e - 900 + 1900 \<le> 9999" using y by (simp_all add: e_def flip: nest)
    have m: "0 \<le> x mod 100" "x mod 100 < 100" "0 \<le> x mod 10" "x mod 10 < 12" for x :: int
      using pos_mod_bound [of 10 x] by simp_all
    show ?thesis unfolding tm_ok_def sample_calendar_def Let_def tm.select_convs e_def [symmetric] using e m by blast
  qed
  ultimately show ?thesis using t by (simp add: clock_io_def sample_io_def)
qed

lemma sample_io_writes: "io_writes (sample_io t)"
  by (simp add: io_writes_def sample_io_def)

text \<open>(C15) For a C library that opens every file and takes at least one byte of each write, every sequence of
  \<^verbatim>\<open>append\<close> calls on a log file with an open file succeeds, releases the mutex, and writes exactly the
  lines in order, however often the file is rolled over in between and however short the single
  writes are.\<close>

theorem LogFile_keeps_lines:
  assumes "io_writes io" and "lf_file lf \<noteq> None" and "lf_mutex lf \<noteq> Some True"
  shows "\<exists>lf' h'. foldR (\<lambda>l. LogFile_append io gm l (int (length l))) lines (lf, h) = Inr (lf', h') \<and>
    lf_file lf' \<noteq> None \<and> lf_mutex lf' = lf_mutex lf \<and> log_written h' = log_written h @ concat lines"
  using LogFile_appends [OF assms(1) _ assms(3), of gm lines h] assms(2) by (simp add: lf_ready_def)

definition sample_logFile :: logFile where
  "sample_logFile = \<lparr>lf_basename = ''x'', lf_rollSize = 4, lf_flushInterval = 3, lf_count = 0, lf_mutex = Some False,
     lf_startOfPeriod = 0, lf_lastRoll = 50, lf_lastFlush = 50, lf_file = Some \<lparr>f_fp = 3, f_writtenBytes = 0\<rparr>\<rparr>"

theorem LogFile_keeps_lines_witness:
  "\<exists>lf' h'. foldR (\<lambda>l. LogFile_append (sample_io 100) sample_calendar l (int (length l))) [''abc'', ''defgh''] (sample_logFile, []) = Inr (lf', h') \<and>
     lf_mutex lf' = Some False \<and> log_written h' = ''abcdefgh''"
  using LogFile_keeps_lines [OF sample_io_writes, of sample_logFile 100 sample_calendar "[''abc'', ''defgh'']" "[]"]
  by (auto simp: sample_logFile_def)

text \<open>(C35) Rolling over never reopens a file: while the process id stays the same and the clock shows times
  before the year 10000, in whatever order, all files that a log file opens during its life have
  different names, because it rolls only when its clock has moved beyond the second of the last roll.\<close>

theorem rolls_open_fresh_files:
  assumes "clock_io io gm pid" and "LogFile_new io gm base n ts iv [] = Inr s" and "foldR (log_op_step io gm) ops s = Inr (lf, h)"
  shows "distinct (opened h) \<and> (\<forall>f \<in> set (opened h). \<exists>t. 0 < t \<and> t \<le> lf_lastRoll lf \<and> f = name_at gm base pid t)"
proof -
  have "names_inv gm base pid (lf, h)"
    using foldR_invariant [OF assms(3), of "names_inv gm base pid"] LogFile_new_names [OF assms(1,2)]
      log_op_names [OF assms(1)] by blast
  then show ?thesis by (simp add: names_inv_def)
qed

theorem rolls_open_fresh_files_witness:
  "\<exists>s lf h. LogFile_new (sample_io 100) sample_calendar ''x'' 4 True 3 [] = Inr s \<and>
     foldR (log_op_step (sample_io 100) sample_calendar) [Append ''abcdef'', Flush] s = Inr (lf, h) \<and> distinct (opened h)"
proof -
  obtain s where s: "LogFile_new (sample_io 100) sample_calendar ''x'' 4 True 3 [] = Inr s" "lf_file (fst s) \<noteq> None"
      "lf_mutex (fst s) = Some False"
    by (simp add: LogFile_new_def rollFile_def io_defs sample_io_def Let_def)
  obtain lf1 h1 where a: "LogFile_append (sample_io 100) sample_calendar ''abcdef'' 6 s = Inr (lf1, h1)" "lf_file lf1 \<noteq> None"
      "lf_mutex lf1 = Some False"
    using LogFile_append_ok [OF sample_io_writes, of "fst s" 100 sample_calendar "''abcdef''" "snd s"] s(2,3)
    by (auto simp: lf_ready_def)
  obtain lf h where f: "LogFile_flush (sample_io 100) (lf1, h1) = Inr (lf, h)"
    using a(2,3) by (auto simp: LogFile_flush_def guarded_def)
  have "foldR (log_op_step (sample_io 100) sample_calendar) [Append ''abcdef'', Flush] s = Inr (lf, h)"
    using a(1) f by simp
  with s(1) rolls_open_fresh_files [OF sample_clock_io s(1) this] show ?thesis by auto
qed

text \<open>As long as the file stays within its size limit, the first 1025 appends after a check do nothing but
  write: the clock is not read, so neither a new day nor the flush interval has any effect before the
  1026th line.\<close>

theorem clock_checked_every_1026:
  assumes "io_writes io" and "lf_file lf = Some f" and "lf_mutex lf \<noteq> Some True"
    and "lf_count lf + int (length lines) \<le> 1025"
    and "f_writtenBytes f + length (concat lines) \<le> lf_rollSize lf" "lf_rollSize lf < size_t_mod"
  shows "\<exists>lf' new. foldR (\<lambda>l. LogFile_append io gm l (int (length l))) lines (lf, h) = Inr (lf', h @ new) \<and>
    (\<forall>c \<in> fst ` set new. \<exists>d. c = Fwrite (f_fp f) d) \<and> lf_lastFlush lf' = lf_lastFlush lf \<and>
    lf_count lf' = lf_count lf + int (length lines)"
  using appends_quiet [OF assms(1-3) _ assms(5,6), of gm h] assms(4)
  by (fastforce simp: kCheckTimeRoll_def only_writes_def quiet_def)

theorem clock_checked_every_1026_witness:
  "\<exists>lf' new. foldR (\<lambda>l. LogFile_append (sample_io 100) sample_calendar l (int (length l))) [''ab'', ''c''] (sample_logFile, []) = Inr (lf', new) \<and>
     lf_count lf' = 2 \<and> (\<forall>c \<in> fst ` set new. \<exists>d. c = Fwrite 3 d)"
  using clock_checked_every_1026 [OF sample_io_writes, of sample_logFile "\<lparr>f_fp = 3, f_writtenBytes = 0\<rparr>" "[''ab'', ''c'']" 100
      sample_calendar "[]"]
  by (auto simp: sample_logFile_def size_t_mod_def)

end
