(* ===== verification/Queue_Interface.thy ===== *)
theory Queue_Interface
  imports Prelude
begin

text \<open>
  What a client of the concurrent queues under src/thread relies on, as locales over an abstraction
  \<open>content\<close> of the queue to a list: a queue that can be filled, one that can be polled, one that can be
  waited on, and one that offers all three. A wait on an empty queue is the outcome \<open>WouldBlock\<close>: the
  caller sleeps and the state is unchanged until another thread pushes.
\<close>

datatype 'v queue_op = Push 'v | TryPop | WaitPop

text \<open>The queue operations on a list; each pop hands out at most one value.\<close>

fun queue_spec_step :: "'v queue_op \<Rightarrow> 'v list \<Rightarrow> ('v option list \<times> 'v list) res" where
  "queue_spec_step (Push x) c = Inr ([], c @ [x])"
| "queue_spec_step TryPop [] = Inr ([None], [])"
| "queue_spec_step TryPop (x # c) = Inr ([Some x], c)"
| "queue_spec_step WaitPop [] = Inl WouldBlock"
| "queue_spec_step WaitPop (x # c) = Inr ([Some x], c)"

text \<open>Runs that collect what the operations hand out.\<close>

fun run_out :: "('x \<Rightarrow> 's \<Rightarrow> ('o list \<times> 's) res) \<Rightarrow> 'x list \<Rightarrow> 's \<Rightarrow> ('o list \<times> 's) res" where
  "run_out step [] s = Inr ([], s)"
| "run_out step (x # xs) s =
     bindR (step x s) (\<lambda>(o1, s1). bindR (run_out step xs s1) (\<lambda>(o2, s2). Inr (o1 @ o2, s2)))"

definition queue_spec :: "'v queue_op list \<Rightarrow> 'v list \<Rightarrow> ('v option list \<times> 'v list) res" where
  "queue_spec = run_out queue_spec_step"

text \<open>What holds of a step holds of a run: if every step does what the step of a specification does to the
  abstraction of the state, faults included, so does every run.\<close>

lemma run_out_refines:
  assumes step: "\<And>x s. I s \<Longrightarrow> (case spec x (A s) of
      Inl e \<Rightarrow> step x s = Inl e
    | Inr (out, c) \<Rightarrow> \<exists>s'. step x s = Inr (out, s') \<and> I s' \<and> A s' = c)"
    and "I s"
  shows "case run_out spec xs (A s) of
      Inl e \<Rightarrow> run_out step xs s = Inl e
    | Inr (out, c) \<Rightarrow> \<exists>s'. run_out step xs s = Inr (out, s') \<and> I s' \<and> A s' = c"
  using assms(2)
proof (induction xs arbitrary: s)
  case Nil
  then show ?case by simp
next
  case (Cons x xs)
  show ?case
  proof (cases "spec x (A s)")
    case (Inl e)
    with step [OF Cons.prems, of x] show ?thesis by simp
  next
    case (Inr r)
    obtain o1 c1 where r: "r = (o1, c1)" by (cases r)
    with step [OF Cons.prems, of x] Inr obtain s1 where
      s1: "step x s = Inr (o1, s1)" "I s1" "A s1 = c1" by auto
    from Cons.IH [OF s1(2)] s1 Inr r show ?thesis
      by (cases "run_out spec xs c1") (auto split: prod.splits)
  qed
qed

text \<open>All the member functions of a queue that has both forms of each pop: by reference and by pointer. The
  outcome of \<open>Do_try\<close> is the returned bool with the value assigned through the reference, that of the other
  pops the value obtained. The parameter is what the waiting pop by pointer does on an empty queue.\<close>

datatype 'v overload_op = Do_push 'v | Do_try | Do_try_ptr | Do_wait | Do_wait_ptr | Do_empty

datatype 'v overload_out = Tried bool "'v option" | Got "'v option" | Is_empty bool

fun overload_spec :: "fault \<Rightarrow> 'v overload_op \<Rightarrow> 'v list \<Rightarrow> ('v overload_out list \<times> 'v list) res" where
  "overload_spec e (Do_push x) c = Inr ([], c @ [x])"
| "overload_spec e Do_try [] = Inr ([Tried False None], [])"
| "overload_spec e Do_try (x # c) = Inr ([Tried True (Some x)], c)"
| "overload_spec e Do_try_ptr [] = Inr ([Got None], [])"
| "overload_spec e Do_try_ptr (x # c) = Inr ([Got (Some x)], c)"
| "overload_spec e Do_wait [] = Inl WouldBlock"
| "overload_spec e Do_wait (x # c) = Inr ([Got (Some x)], c)"
| "overload_spec e Do_wait_ptr [] = Inl e"
| "overload_spec e Do_wait_ptr (x # c) = Inr ([Got (Some x)], c)"
| "overload_spec e Do_empty c = Inr ([Is_empty (c = [])], c)"

definition overload_step ::
    "('v \<Rightarrow> 's \<Rightarrow> 's res) \<Rightarrow> ('s \<Rightarrow> ((bool \<times> 'v option) \<times> 's) res) \<Rightarrow> ('s \<Rightarrow> ('v option \<times> 's) res) \<Rightarrow>
     ('s \<Rightarrow> ('v \<times> 's) res) \<Rightarrow> ('s \<Rightarrow> ('v option \<times> 's) res) \<Rightarrow> ('s \<Rightarrow> (bool \<times> 's) res) \<Rightarrow>
     'v overload_op \<Rightarrow> 's \<Rightarrow> ('v overload_out list \<times> 's) res" where
  "overload_step push try_pop try_pop_ptr wait_pop wait_pop_ptr is_empty x s = (case x of
       Do_push v \<Rightarrow> bindR (push v s) (\<lambda>s'. Inr ([], s'))
     | Do_try \<Rightarrow> bindR (try_pop s) (\<lambda>((r, v), s'). Inr ([Tried r v], s'))
     | Do_try_ptr \<Rightarrow> bindR (try_pop_ptr s) (\<lambda>(r, s'). Inr ([Got r], s'))
     | Do_wait \<Rightarrow> bindR (wait_pop s) (\<lambda>(v, s'). Inr ([Got (Some v)], s'))
     | Do_wait_ptr \<Rightarrow> bindR (wait_pop_ptr s) (\<lambda>(r, s'). Inr ([Got r], s'))
     | Do_empty \<Rightarrow> bindR (is_empty s) (\<lambda>(r, s'). Inr ([Is_empty r], s')))"

text \<open>A client step on a queue given by its operations.\<close>

definition queue_step ::
    "('v \<Rightarrow> 's \<Rightarrow> 's res) \<Rightarrow> ('s \<Rightarrow> ('v option \<times> 's) res) \<Rightarrow> ('s \<Rightarrow> ('v \<times> 's) res) \<Rightarrow>
     'v queue_op \<Rightarrow> 's \<Rightarrow> ('v option list \<times> 's) res" where
  "queue_step push try_pop wait_pop x s = (case x of
       Push v \<Rightarrow> bindR (push v s) (\<lambda>s'. Inr ([], s'))
     | TryPop \<Rightarrow> bindR (try_pop s) (\<lambda>(r, s'). Inr ([r], s'))
     | WaitPop \<Rightarrow> bindR (wait_pop s) (\<lambda>(r, s'). Inr ([Some r], s')))"

locale queue_base =
  fixes push :: "'v \<Rightarrow> 's \<Rightarrow> 's res"
    and content :: "'s \<Rightarrow> 'v list"
    and inv :: "'s \<Rightarrow> bool"
  assumes push_law: "inv s \<Longrightarrow> \<exists>s'. push x s = Inr s' \<and> inv s' \<and> content s' = content s @ [x]"
begin

lemma push_all: "inv s \<Longrightarrow> \<exists>s'. foldR push xs s = Inr s' \<and> inv s' \<and> content s' = content s @ xs"
proof (induction xs arbitrary: s)
  case (Cons x xs)
  obtain s1 where s1: "push x s = Inr s1" "inv s1" "content s1 = content s @ [x]"
    using push_law [OF Cons.prems] by blast
  from Cons.IH [OF s1(2)] s1 show ?case by auto
qed simp

end

locale try_queue = queue_base +
  fixes try_pop :: "'s \<Rightarrow> ('v option \<times> 's) res"
  assumes try_empty: "inv s \<Longrightarrow> content s = [] \<Longrightarrow> \<exists>s'. try_pop s = Inr (None, s') \<and> inv s' \<and> content s' = []"
    and try_front: "inv s \<Longrightarrow> content s = x # c \<Longrightarrow> \<exists>s'. try_pop s = Inr (Some x, s') \<and> inv s' \<and> content s' = c"

locale wait_queue = queue_base +
  fixes wait_pop :: "'s \<Rightarrow> ('v \<times> 's) res"
  assumes wait_empty: "inv s \<Longrightarrow> content s = [] \<Longrightarrow> wait_pop s = Inl WouldBlock"
    and wait_front: "inv s \<Longrightarrow> content s = x # c \<Longrightarrow> \<exists>s'. wait_pop s = Inr (x, s') \<and> inv s' \<and> content s' = c"
begin

text \<open>A consumer that takes as many values as were put in gets all of them in order.\<close>

lemma wait_all:
  "inv s \<Longrightarrow> content s = xs @ c \<Longrightarrow>
    \<exists>s'. run_out (\<lambda>_ s. bindR (wait_pop s) (\<lambda>(x, s'). Inr ([x], s'))) (replicate (length xs) ()) s = Inr (xs, s') \<and>
      inv s' \<and> content s' = c"
proof (induction xs arbitrary: s)
  case (Cons x xs)
  obtain s1 where s1: "wait_pop s = Inr (x, s1)" "inv s1" "content s1 = xs @ c"
    using wait_front [OF Cons.prems(1), of x "xs @ c"] Cons.prems(2) by auto
  from Cons.IH [OF s1(2,3)] s1(1) show ?case by auto
qed simp

lemma push_then_wait:
  assumes "inv s" and "content s = []"
  shows "\<exists>s1 s2. foldR push xs s = Inr s1 \<and>
    run_out (\<lambda>_ s. bindR (wait_pop s) (\<lambda>(x, s'). Inr ([x], s'))) (replicate (length xs) ()) s1 = Inr (xs, s2) \<and>
    wait_pop s2 = Inl WouldBlock"
proof -
  obtain s1 where s1: "foldR push xs s = Inr s1" "inv s1" "content s1 = xs"
    using push_all [OF assms(1), of xs] assms(2) by auto
  with wait_all [of s1 xs "[]"] wait_empty show ?thesis by fastforce
qed

end

locale full_queue = try_queue + wait_queue
begin

lemma queue_step_refines:
  assumes "inv s"
  shows "case queue_spec_step x (content s) of
      Inl e \<Rightarrow> queue_step push try_pop wait_pop x s = Inl e
    | Inr (out, c) \<Rightarrow> \<exists>s'. queue_step push try_pop wait_pop x s = Inr (out, s') \<and> inv s' \<and> content s' = c"
proof (cases x)
  case (Push v)
  with push_law [OF assms, of v] show ?thesis by (auto simp: queue_step_def)
next
  case TryPop
  with try_empty [OF assms] try_front [OF assms] show ?thesis
    by (cases "content s") (auto simp: queue_step_def)
next
  case WaitPop
  with wait_empty [OF assms] wait_front [OF assms] show ?thesis
    by (cases "content s") (auto simp: queue_step_def)
qed

lemma run_refines:
  assumes "inv s"
  shows "case queue_spec ops (content s) of
      Inl e \<Rightarrow> run_out (queue_step push try_pop wait_pop) ops s = Inl e
    | Inr (out, c) \<Rightarrow> \<exists>s'. run_out (queue_step push try_pop wait_pop) ops s = Inr (out, s') \<and> inv s' \<and> content s' = c"
  using run_out_refines [where I = inv and A = content and spec = queue_spec_step, OF queue_step_refines assms]
  by (simp add: queue_spec_def)

end

text \<open>A queue with both forms of each pop; the polling pop of \<open>full_queue\<close> is the one by pointer, its waiting
  pop the one by reference.\<close>

locale overload_queue = full_queue +
  fixes try_pop_ref :: "'b \<Rightarrow> ((bool \<times> 'a option) \<times> 'b) res"
    and wait_pop_ptr :: "'b \<Rightarrow> ('a option \<times> 'b) res"
    and is_empty :: "'b \<Rightarrow> (bool \<times> 'b) res"
    and empty_fault :: fault
  assumes try_ref_empty: "inv s \<Longrightarrow> content s = [] \<Longrightarrow> \<exists>s'. try_pop_ref s = Inr ((False, None), s') \<and> inv s' \<and> content s' = []"
    and try_ref_front: "inv s \<Longrightarrow> content s = x # c \<Longrightarrow> \<exists>s'. try_pop_ref s = Inr ((True, Some x), s') \<and> inv s' \<and> content s' = c"
    and wait_ptr_empty: "inv s \<Longrightarrow> content s = [] \<Longrightarrow> wait_pop_ptr s = Inl empty_fault"
    and wait_ptr_front: "inv s \<Longrightarrow> content s = x # c \<Longrightarrow> \<exists>s'. wait_pop_ptr s = Inr (Some x, s') \<and> inv s' \<and> content s' = c"
    and is_empty_law: "inv s \<Longrightarrow> \<exists>s'. is_empty s = Inr (content s = [], s') \<and> inv s' \<and> content s' = content s"
begin

lemma overload_step_refines:
  assumes inv: "inv s"
  shows "case overload_spec empty_fault x (content s) of
      Inl e \<Rightarrow> overload_step push try_pop_ref try_pop wait_pop wait_pop_ptr is_empty x s = Inl e
    | Inr (out, c) \<Rightarrow> \<exists>s'. overload_step push try_pop_ref try_pop wait_pop wait_pop_ptr is_empty x s = Inr (out, s') \<and>
        inv s' \<and> content s' = c"
proof (cases x)
  case (Do_push v)
  with push_law [OF inv, of v] show ?thesis by (auto simp: overload_step_def)
next
  case Do_try
  with try_ref_empty [OF inv] try_ref_front [OF inv] show ?thesis by (cases "content s") (auto simp: overload_step_def)
next
  case Do_try_ptr
  with try_empty [OF inv] try_front [OF inv] show ?thesis by (cases "content s") (auto simp: overload_step_def)
next
  case Do_wait
  with wait_empty [OF inv] wait_front [OF inv] show ?thesis by (cases "content s") (auto simp: overload_step_def)
next
  case Do_wait_ptr
  with wait_ptr_empty [OF inv] wait_ptr_front [OF inv] show ?thesis by (cases "content s") (auto simp: overload_step_def)
next
  case Do_empty
  with is_empty_law [OF inv] show ?thesis by (auto simp: overload_step_def)
qed

lemmas overload_run_refines = run_out_refines [where I = inv and A = content and spec = "overload_spec empty_fault", OF overload_step_refines]

end

end
