(* ===== verification/Thread_Queues.thy ===== *)
theory Thread_Queues
  imports Queue_Interface
begin

text \<open>
  The queues and the stack that hold one mutex during a whole operation: \<^verbatim>\<open>threadsafe_queue\<close> and
  \<^verbatim>\<open>threadsafer_queue\<close> (src/thread/threadsafe_queue.cc), \<^verbatim>\<open>BlockingQueue\<close> (BlockingQueue.cc),
  \<^verbatim>\<open>threadsafe_stack\<close> (threadsafe_stack.cc) and \<^verbatim>\<open>TaskQueue\<close> (src/reactor/taskQueue.cc). Each operation is one
  atomic step between locking and unlocking; locking a mutex that is held blocks. The interleaving of
  the steps inside an operation is the subject of \<open>Wait_Notify\<close> and \<open>Linked_Queue\<close>. A
  \<^verbatim>\<open>shared_ptr<T>\<close> is an option. The class templates are read with their evident spelling slips repaired
  (\<^verbatim>\<open>queue_.wait\<close> for \<^verbatim>\<open>cond_.wait\<close>, \<^verbatim>\<open>data\<close> and \<^verbatim>\<open>date_\<close> for \<^verbatim>\<open>data_\<close>).
\<close>

section \<open>A container under one mutex\<close>

record 'c guarded_container =
  gc_items :: 'c
  gc_locked :: bool

text \<open>\<^verbatim>\<open>std::lock_guard<std::mutex> lock(mutex_); body\<close>\<close>

definition with_lock :: "('c \<Rightarrow> ('r \<times> 'c) res) \<Rightarrow> 'c guarded_container \<Rightarrow> ('r \<times> 'c guarded_container) res" where
  "with_lock body s =
     (if gc_locked s then Inl WouldBlock
      else bindR (body (gc_items s)) (\<lambda>(r, c). Inr (r, s\<lparr>gc_items := c\<rparr>)))"

definition without_result :: "(unit \<times> 's) res \<Rightarrow> 's res" where
  "without_result m = bindR m (\<lambda>(_, s). Inr s)"

definition unlocked :: "'c guarded_container \<Rightarrow> bool" where
  "unlocked s \<longleftrightarrow> \<not> gc_locked s"

type_synonym 'v shared_ptr = "'v option"

text \<open>\<^verbatim>\<open>front()\<close> and \<^verbatim>\<open>pop()\<close> of an empty container are undefined.\<close>

definition take_front :: "'a list \<Rightarrow> ('a \<times> 'a list) res" where
  "take_front q = (case q of [] \<Rightarrow> Inl OutOfBounds | x # q' \<Rightarrow> Inr (x, q'))"

text \<open>\<^verbatim>\<open>cond_.wait(lock, pred)\<close> returns when the predicate holds; until then the caller sleeps.\<close>

definition cond_wait :: "bool \<Rightarrow> 'a res \<Rightarrow> 'a res" where
  "cond_wait p k = (if p then k else Inl WouldBlock)"

section \<open>threadsafe_queue\<close>

definition threadsafe_queue_copy :: "'v list guarded_container \<Rightarrow> 'v list guarded_container res" where
  "threadsafe_queue_copy other =
     bindR (with_lock (\<lambda>q. Inr (q, q)) other) (\<lambda>(q, _). Inr \<lparr>gc_items = q, gc_locked = False\<rparr>)"

definition threadsafe_queue_push :: "'v \<Rightarrow> 'v list guarded_container \<Rightarrow> 'v list guarded_container res" where
  "threadsafe_queue_push new_value s = without_result (with_lock (\<lambda>q. Inr ((), q @ [new_value])) s)"

definition threadsafe_queue_wait_and_pop :: "'v list guarded_container \<Rightarrow> ('v \<times> 'v list guarded_container) res" where
  "threadsafe_queue_wait_and_pop = with_lock (\<lambda>q. cond_wait (q \<noteq> []) (take_front q))"

text \<open>The overload that returns a pointer does not wait.\<close>

definition threadsafe_queue_wait_and_pop_ptr ::
    "'v list guarded_container \<Rightarrow> ('v shared_ptr \<times> 'v list guarded_container) res" where
  "threadsafe_queue_wait_and_pop_ptr = with_lock (\<lambda>q. bindR (take_front q) (\<lambda>(x, q'). Inr (Some x, q')))"

definition threadsafe_queue_try_pop :: "'v list guarded_container \<Rightarrow> ((bool \<times> 'v option) \<times> 'v list guarded_container) res" where
  "threadsafe_queue_try_pop = with_lock (\<lambda>q.
     if q = [] then Inr ((False, None), q) else bindR (take_front q) (\<lambda>(x, q'). Inr ((True, Some x), q')))"

definition threadsafe_queue_try_pop_ptr ::
    "'v list guarded_container \<Rightarrow> ('v shared_ptr \<times> 'v list guarded_container) res" where
  "threadsafe_queue_try_pop_ptr = with_lock (\<lambda>q.
     if q = [] then Inr (None, q) else bindR (take_front q) (\<lambda>(x, q'). Inr (Some x, q')))"

definition threadsafe_queue_empty :: "'v list guarded_container \<Rightarrow> (bool \<times> 'v list guarded_container) res" where
  "threadsafe_queue_empty = with_lock (\<lambda>q. Inr (q = [], q))"

section \<open>threadsafer_queue\<close>

text \<open>Dereferencing the null pointer is undefined.\<close>

definition deref_ptr :: "'v shared_ptr \<Rightarrow> 'v res" where
  "deref_ptr p = (case p of None \<Rightarrow> Inl NullPointer | Some v \<Rightarrow> Inr v)"

definition threadsafer_queue_new :: "'v shared_ptr list guarded_container" where
  "threadsafer_queue_new = \<lparr>gc_items = [], gc_locked = False\<rparr>"

definition threadsafer_queue_push :: "'v \<Rightarrow> 'v shared_ptr list guarded_container \<Rightarrow> 'v shared_ptr list guarded_container res" where
  "threadsafer_queue_push new_value s =
     (let data = Some new_value in without_result (with_lock (\<lambda>q. Inr ((), q @ [data])) s))"

definition threadsafer_queue_wait_and_pop ::
    "'v shared_ptr list guarded_container \<Rightarrow> ('v \<times> 'v shared_ptr list guarded_container) res" where
  "threadsafer_queue_wait_and_pop = with_lock (\<lambda>q. cond_wait (q \<noteq> [])
     (bindR (take_front q) (\<lambda>(p, q'). bindR (deref_ptr p) (\<lambda>v. Inr (v, q')))))"

definition threadsafer_queue_wait_and_pop_ptr ::
    "'v shared_ptr list guarded_container \<Rightarrow> ('v shared_ptr \<times> 'v shared_ptr list guarded_container) res" where
  "threadsafer_queue_wait_and_pop_ptr = with_lock (\<lambda>q. cond_wait (q \<noteq> []) (take_front q))"

definition threadsafer_queue_try_pop ::
    "'v shared_ptr list guarded_container \<Rightarrow> ((bool \<times> 'v option) \<times> 'v shared_ptr list guarded_container) res" where
  "threadsafer_queue_try_pop = with_lock (\<lambda>q.
     if q = [] then Inr ((False, None), q)
     else bindR (take_front q) (\<lambda>(p, q'). bindR (deref_ptr p) (\<lambda>v. Inr ((True, Some v), q'))))"

definition threadsafer_queue_try_pop_ptr ::
    "'v shared_ptr list guarded_container \<Rightarrow> ('v shared_ptr \<times> 'v shared_ptr list guarded_container) res" where
  "threadsafer_queue_try_pop_ptr = with_lock (\<lambda>q. if q = [] then Inr (None, q) else take_front q)"

definition threadsafer_queue_empty :: "'v shared_ptr list guarded_container \<Rightarrow> (bool \<times> 'v shared_ptr list guarded_container) res" where
  "threadsafer_queue_empty = with_lock (\<lambda>q. Inr (q = [], q))"

section \<open>BlockingQueue\<close>

definition BlockingQueue_new :: "'v shared_ptr list guarded_container" where
  "BlockingQueue_new = \<lparr>gc_items = [], gc_locked = False\<rparr>"

definition BlockingQueue_put :: "'v \<Rightarrow> 'v shared_ptr list guarded_container \<Rightarrow> 'v shared_ptr list guarded_container res" where
  "BlockingQueue_put x s =
     (let new_data = Some x in without_result (with_lock (\<lambda>q. Inr ((), q @ [new_data])) s))"

definition BlockingQueue_take ::
    "'v shared_ptr list guarded_container \<Rightarrow> ('v shared_ptr \<times> 'v shared_ptr list guarded_container) res" where
  "BlockingQueue_take = with_lock (\<lambda>q. cond_wait (q \<noteq> []) (assertC (q \<noteq> []) (take_front q)))"

definition BlockingQueue_size :: "'v shared_ptr list guarded_container \<Rightarrow> (nat \<times> 'v shared_ptr list guarded_container) res" where
  "BlockingQueue_size = with_lock (\<lambda>q. Inr (length q, q))"

section \<open>threadsafe_stack\<close>

text \<open>The stack's top is the head of the list.\<close>

definition threadsafe_stack_new :: "'v list guarded_container" where
  "threadsafe_stack_new = \<lparr>gc_items = [], gc_locked = False\<rparr>"

definition threadsafe_stack_copy :: "'v list guarded_container \<Rightarrow> 'v list guarded_container res" where
  "threadsafe_stack_copy other =
     bindR (with_lock (\<lambda>d. Inr (d, d)) other) (\<lambda>(d, _). Inr \<lparr>gc_items = d, gc_locked = False\<rparr>)"

definition threadsafe_stack_push :: "'v \<Rightarrow> 'v list guarded_container \<Rightarrow> 'v list guarded_container res" where
  "threadsafe_stack_push new_value s = without_result (with_lock (\<lambda>d. Inr ((), new_value # d)) s)"

definition threadsafe_stack_pop_ptr ::
    "'v list guarded_container \<Rightarrow> ('v shared_ptr \<times> 'v list guarded_container) res" where
  "threadsafe_stack_pop_ptr = with_lock (\<lambda>d.
     if d = [] then Inl EmptyStack else bindR (take_front d) (\<lambda>(x, d'). Inr (Some x, d')))"

definition threadsafe_stack_pop :: "'v list guarded_container \<Rightarrow> ('v \<times> 'v list guarded_container) res" where
  "threadsafe_stack_pop = with_lock (\<lambda>d. if d = [] then Inl EmptyStack else take_front d)"

definition threadsafe_stack_empty :: "'v list guarded_container \<Rightarrow> (bool \<times> 'v list guarded_container) res" where
  "threadsafe_stack_empty = with_lock (\<lambda>d. Inr (d = [], d))"

section \<open>TaskQueue\<close>

text \<open>\<^verbatim>\<open>put\<close> does not lock; \<^verbatim>\<open>take\<close> returns the newest task and leaves it where it is.\<close>

definition TaskQueue_new :: "'f list guarded_container" where
  "TaskQueue_new = \<lparr>gc_items = [], gc_locked = False\<rparr>"

definition TaskQueue_put :: "'f \<Rightarrow> 'f list guarded_container \<Rightarrow> 'f list guarded_container res" where
  "TaskQueue_put func s = Inr (s\<lparr>gc_items := gc_items s @ [func]\<rparr>)"

definition TaskQueue_take :: "'f list guarded_container \<Rightarrow> ('f \<times> 'f list guarded_container) res" where
  "TaskQueue_take = with_lock (\<lambda>q. cond_wait (q \<noteq> []) (if q = [] then Inl OutOfBounds else Inr (last q, q)))"

section \<open>The interfaces\<close>

lemmas container_defs = with_lock_def without_result_def unlocked_def take_front_def cond_wait_def deref_ptr_def

lemmas queue_defs = threadsafe_queue_push_def threadsafe_queue_wait_and_pop_def threadsafe_queue_try_pop_ptr_def
  threadsafe_queue_try_pop_def threadsafe_queue_wait_and_pop_ptr_def threadsafe_queue_empty_def

lemmas queuer_defs = threadsafer_queue_push_def threadsafer_queue_wait_and_pop_def threadsafer_queue_try_pop_ptr_def
  threadsafer_queue_try_pop_def threadsafer_queue_wait_and_pop_ptr_def threadsafer_queue_empty_def

text \<open>The queue of pointers holds no null pointer.\<close>

definition pointers_inv :: "'v shared_ptr list guarded_container \<Rightarrow> bool" where
  "pointers_inv s \<longleftrightarrow> unlocked s \<and> (\<forall>p \<in> set (gc_items s). p \<noteq> None)"

definition pointed :: "'v shared_ptr list guarded_container \<Rightarrow> 'v list" where
  "pointed s = map the (gc_items s)"

definition BlockingQueue_take_value :: "'v shared_ptr list guarded_container \<Rightarrow> ('v \<times> 'v shared_ptr list guarded_container) res" where
  "BlockingQueue_take_value s = bindR (BlockingQueue_take s) (\<lambda>(p, s'). bindR (deref_ptr p) (\<lambda>v. Inr (v, s')))"

interpretation tsq: overload_queue threadsafe_queue_push gc_items unlocked threadsafe_queue_try_pop_ptr
  threadsafe_queue_wait_and_pop threadsafe_queue_try_pop threadsafe_queue_wait_and_pop_ptr threadsafe_queue_empty OutOfBounds
  by unfold_locales (simp_all add: queue_defs container_defs)

interpretation tsrq: overload_queue threadsafer_queue_push pointed pointers_inv threadsafer_queue_try_pop_ptr
  threadsafer_queue_wait_and_pop threadsafer_queue_try_pop threadsafer_queue_wait_and_pop_ptr threadsafer_queue_empty WouldBlock
  by unfold_locales (auto simp: queuer_defs container_defs pointed_def pointers_inv_def Let_def split: option.splits)

interpretation blq: wait_queue BlockingQueue_put pointed pointers_inv BlockingQueue_take_value
  by unfold_locales
    (auto simp: BlockingQueue_put_def BlockingQueue_take_def BlockingQueue_take_value_def container_defs pointed_def
      pointers_inv_def Let_def split: option.splits)

lemma fresh_queues [simp]:
  "pointers_inv threadsafer_queue_new" "pointed threadsafer_queue_new = []"
  "pointers_inv BlockingQueue_new" "pointed BlockingQueue_new = []"
  by (simp_all add: threadsafer_queue_new_def BlockingQueue_new_def pointers_inv_def pointed_def unlocked_def)

section \<open>Every member function\<close>

definition threadsafe_queue_step ::
    "'v overload_op \<Rightarrow> 'v list guarded_container \<Rightarrow> ('v overload_out list \<times> 'v list guarded_container) res" where
  "threadsafe_queue_step = overload_step threadsafe_queue_push threadsafe_queue_try_pop threadsafe_queue_try_pop_ptr
     threadsafe_queue_wait_and_pop threadsafe_queue_wait_and_pop_ptr threadsafe_queue_empty"

definition threadsafer_queue_step ::
    "'v overload_op \<Rightarrow> 'v shared_ptr list guarded_container \<Rightarrow>
     ('v overload_out list \<times> 'v shared_ptr list guarded_container) res" where
  "threadsafer_queue_step = overload_step threadsafer_queue_push threadsafer_queue_try_pop threadsafer_queue_try_pop_ptr
     threadsafer_queue_wait_and_pop threadsafer_queue_wait_and_pop_ptr threadsafer_queue_empty"

section \<open>Properties\<close>

text \<open>(C23) \<^verbatim>\<open>threadsafe_queue\<close> and \<^verbatim>\<open>threadsafer_queue\<close> are first-in first-out queues: any sequence of their member
  functions (\<^verbatim>\<open>push\<close>, \<^verbatim>\<open>try_pop\<close> and \<^verbatim>\<open>wait_and_pop\<close> by reference and by pointer, \<^verbatim>\<open>empty\<close>) on an unlocked queue hands
  out exactly the values of the list specification and blocks exactly when it does, and the mutex is free again
  after every operation. The one deviation is \<^verbatim>\<open>threadsafe_queue::wait_and_pop()\<close>, which lacks the wait: a sequence
  that reaches it with an empty queue reads the front of an empty container where \<^verbatim>\<open>threadsafer_queue\<close> sleeps.\<close>

theorem queues_refine_fifo:
  assumes "unlocked s" and "pointers_inv t"
  shows "(case run_out (overload_spec OutOfBounds) ops (gc_items s) of
        Inl e \<Rightarrow> run_out threadsafe_queue_step ops s = Inl e
      | Inr (out, c) \<Rightarrow> \<exists>s'. run_out threadsafe_queue_step ops s = Inr (out, s') \<and> unlocked s' \<and> gc_items s' = c) \<and>
    (case run_out (overload_spec WouldBlock) ops (pointed t) of
        Inl e \<Rightarrow> run_out threadsafer_queue_step ops t = Inl e
      | Inr (out, c) \<Rightarrow> \<exists>t'. run_out threadsafer_queue_step ops t = Inr (out, t') \<and> pointers_inv t' \<and> pointed t' = c)"
  unfolding threadsafe_queue_step_def threadsafer_queue_step_def
  by (intro conjI tsq.overload_run_refines tsrq.overload_run_refines assms)

theorem queues_refine_fifo_witness:
  "run_out threadsafe_queue_step [Do_push 1, Do_push (2 :: nat), Do_wait, Do_empty, Do_try, Do_try_ptr, Do_wait_ptr]
      \<lparr>gc_items = [], gc_locked = False\<rparr> = Inl OutOfBounds \<and>
    run_out threadsafer_queue_step [Do_push 1, Do_push (2 :: nat), Do_wait, Do_empty, Do_try, Do_try_ptr, Do_wait_ptr]
      threadsafer_queue_new = Inl WouldBlock \<and>
    (\<exists>s'. run_out threadsafe_queue_step [Do_push 1, Do_push (2 :: nat), Do_wait_ptr, Do_empty, Do_try, Do_try_ptr]
      \<lparr>gc_items = [], gc_locked = False\<rparr> = Inr ([Got (Some 1), Is_empty False, Tried True (Some 2), Got None], s'))"
  using queues_refine_fifo [of "\<lparr>gc_items = [], gc_locked = False\<rparr>" threadsafer_queue_new
      "[Do_push 1, Do_push (2 :: nat), Do_wait, Do_empty, Do_try, Do_try_ptr, Do_wait_ptr]"]
    queues_refine_fifo [of "\<lparr>gc_items = [], gc_locked = False\<rparr>" threadsafer_queue_new
      "[Do_push 1, Do_push (2 :: nat), Do_wait_ptr, Do_empty, Do_try, Do_try_ptr]"]
  by (auto simp: unlocked_def)

text \<open>A \<^verbatim>\<open>BlockingQueue\<close> hands everything out in the order it was put in; a take beyond that blocks.\<close>

theorem BlockingQueue_in_order:
  "\<exists>s1 s2. foldR BlockingQueue_put xs BlockingQueue_new = Inr s1 \<and>
    run_out (\<lambda>_ s. bindR (BlockingQueue_take_value s) (\<lambda>(x, s'). Inr ([x], s'))) (replicate (length xs) ()) s1 = Inr (xs, s2) \<and>
    BlockingQueue_take_value s2 = Inl WouldBlock"
  by (rule blq.push_then_wait) simp_all

text \<open>The pointer overload of \<^verbatim>\<open>threadsafe_queue::wait_and_pop\<close> lacks the wait: on an empty queue it reads the
  front of an empty container, where the other overload blocks.\<close>

theorem wait_and_pop_ptr_does_not_wait:
  assumes "unlocked s" and "gc_items s = []"
  shows "threadsafe_queue_wait_and_pop_ptr s = Inl OutOfBounds \<and> threadsafe_queue_wait_and_pop s = Inl WouldBlock"
  using assms by (simp add: queue_defs container_defs)

text \<open>A \<^verbatim>\<open>threadsafe_stack\<close> hands out the values last-in first-out and throws when it is empty.\<close>

theorem stack_reverses:
  assumes "unlocked s"
  shows "\<exists>s1 s2. foldR threadsafe_stack_push xs s = Inr s1 \<and>
    run_out (\<lambda>_ s. bindR (threadsafe_stack_pop s) (\<lambda>(x, s'). Inr ([x], s'))) (replicate (length xs) ()) s1 = Inr (rev xs, s2) \<and>
    s2 = s \<and> (gc_items s = [] \<longrightarrow> threadsafe_stack_pop s2 = Inl EmptyStack)"
proof -
  have push: "foldR threadsafe_stack_push xs s = Inr (s\<lparr>gc_items := rev xs @ gc_items s\<rparr>)"
    if "unlocked s" for xs and s :: "'a list guarded_container"
    using that by (induction xs arbitrary: s) (simp_all add: threadsafe_stack_push_def container_defs)
  have pop: "run_out (\<lambda>_ s. bindR (threadsafe_stack_pop s) (\<lambda>(x, s'). Inr ([x], s'))) (replicate (length ys) ())
      (s\<lparr>gc_items := ys @ c\<rparr>) = Inr (ys, s\<lparr>gc_items := c\<rparr>)"
    if "unlocked s" for ys c and s :: "'a list guarded_container"
    using that by (induction ys) (simp_all add: threadsafe_stack_pop_def container_defs)
  from push [OF assms, of xs] pop [OF assms, of "rev xs" "gc_items s"] assms show ?thesis
    by (auto simp: threadsafe_stack_pop_def container_defs)
qed

text \<open>\<^verbatim>\<open>TaskQueue\<close> does not remove what it hands out: after some puts, every \<^verbatim>\<open>take\<close> returns the newest task.\<close>

theorem TaskQueue_take_repeats:
  assumes "unlocked s" and "gc_items s \<noteq> []"
  shows "run_out (\<lambda>_ s. bindR (TaskQueue_take s) (\<lambda>(x, s'). Inr ([x], s'))) (replicate n ()) s =
    Inr (replicate n (last (gc_items s)), s)"
  using assms by (induction n) (simp_all add: TaskQueue_take_def container_defs)

end
