(* ===== verification/Linked_Queue.thy ===== *)
theory Linked_Queue
  imports Wait_Notify
begin

text \<open>
  \<^verbatim>\<open>threadsafe_queue_version_2\<close> (src/thread/threadsafe_queue.cc): a linked queue with a dummy node at the
  tail and separate mutexes for its two ends, so that one producer and one consumer work at the same
  time. The nodes are a heap; each memory access of \<^verbatim>\<open>push\<close>, \<^verbatim>\<open>get_tail\<close>, \<^verbatim>\<open>try_pop_head\<close>, \<^verbatim>\<open>pop_head\<close> and
  \<^verbatim>\<open>try_pop\<close> is a step of its own, and the steps of any number of threads interleave freely. The members
  that the source spells in two ways (\<^verbatim>\<open>head\<close> and \<^verbatim>\<open>head_\<close>, \<^verbatim>\<open>tail\<close> and \<^verbatim>\<open>tail_\<close>) are one member each; moving a
  \<^verbatim>\<open>scoped_ptr\<close> leaves the null pointer behind. \<^verbatim>\<open>wait_and_pop\<close> differs from \<^verbatim>\<open>try_pop\<close> in what it does when the
  queue is empty: it sleeps, having released the mutex, and begins again. History variables record the
  values in the order in which pushes and pops take effect, and what each pop returns.
\<close>

section \<open>Model\<close>

record 'v node =
  nd_data :: "'v option"
  nd_next :: "nat option"

datatype pop_kind = Try_pop | Wait_pop

datatype 'v lq_pc =
    Q_idle
  | P_new 'v nat \<comment> \<open>\<^verbatim>\<open>new_data\<close> and the new node are allocated\<close>
  | P_locked 'v nat \<comment> \<open>holds \<^verbatim>\<open>tail_mutex_\<close>\<close>
  | P_data 'v nat \<comment> \<open>\<^verbatim>\<open>tail_->data\<close> is set\<close>
  | P_next 'v nat \<comment> \<open>\<^verbatim>\<open>tail_->next\<close> is set\<close>
  | P_notify \<comment> \<open>\<^verbatim>\<open>tail_mutex_\<close> is released, about to notify\<close>
  | T_locked pop_kind \<comment> \<open>holds \<^verbatim>\<open>head_mutex_\<close>\<close>
  | T_tail pop_kind nat \<comment> \<open>\<^verbatim>\<open>get_tail()\<close> has returned\<close>
  | W_drowsy \<comment> \<open>holds \<^verbatim>\<open>head_mutex_\<close>, the predicate of \<^verbatim>\<open>wait\<close> was false\<close>
  | W_asleep
  | W_woken \<comment> \<open>has to lock \<^verbatim>\<open>head_mutex_\<close> again\<close>
  | T_moved nat nat \<comment> \<open>in \<^verbatim>\<open>pop_head\<close>: \<^verbatim>\<open>head_\<close> is moved to \<^verbatim>\<open>old_head\<close>\<close>
  | T_done nat nat \<comment> \<open>\<^verbatim>\<open>head_\<close> is the next node\<close>
  | T_ret nat nat \<comment> \<open>the mutex is released, \<^verbatim>\<open>old_head\<close> is returned\<close>

record 'v lq =
  lq_heap :: "nat \<Rightarrow> 'v node option"
  lq_head :: "nat option"
  lq_tail :: nat
  lq_hlock :: "nat option"
  lq_tlock :: "nat option"
  lq_pc :: "nat \<Rightarrow> 'v lq_pc"
  lq_fresh :: nat
  lq_pushed :: "'v list"
  lq_popped :: "'v list"
  lq_returned :: "(nat \<times> 'v option) list"

definition new_node :: "'v node" where
  "new_node = \<lparr>nd_data = None, nd_next = None\<rparr>"

definition lq_start :: "'v lq" where
  "lq_start = \<lparr>lq_heap = [0 \<mapsto> new_node], lq_head = Some 0, lq_tail = 0, lq_hlock = None, lq_tlock = None,
     lq_pc = (\<lambda>_. Q_idle), lq_fresh = 1, lq_pushed = [], lq_popped = [], lq_returned = []\<rparr>"

definition lq_goto :: "nat \<Rightarrow> 'v lq_pc \<Rightarrow> 'v lq \<Rightarrow> 'v lq" where
  "lq_goto t p s = s\<lparr>lq_pc := (lq_pc s)(t := p)\<rparr>"

inductive lq_step :: "'v lq \<Rightarrow> 'v lq \<Rightarrow> bool" where
  p_new: "lq_pc s t = Q_idle \<Longrightarrow>
     lq_step s (lq_goto t (P_new x (lq_fresh s)) (s\<lparr>lq_heap := (lq_heap s)(lq_fresh s \<mapsto> new_node), lq_fresh := lq_fresh s + 1\<rparr>))"
| p_lock: "lq_pc s t = P_new x p \<Longrightarrow> lq_tlock s = None \<Longrightarrow>
     lq_step s (lq_goto t (P_locked x p) (s\<lparr>lq_tlock := Some t\<rparr>))"
| p_data: "lq_pc s t = P_locked x p \<Longrightarrow> lq_heap s (lq_tail s) = Some nd \<Longrightarrow>
     lq_step s (lq_goto t (P_data x p) (s\<lparr>lq_heap := (lq_heap s)(lq_tail s \<mapsto> nd\<lparr>nd_data := Some x\<rparr>)\<rparr>))"
| p_next: "lq_pc s t = P_data x p \<Longrightarrow> lq_heap s (lq_tail s) = Some nd \<Longrightarrow>
     lq_step s (lq_goto t (P_next x p) (s\<lparr>lq_heap := (lq_heap s)(lq_tail s \<mapsto> nd\<lparr>nd_next := Some p\<rparr>)\<rparr>))"
| p_tail: "lq_pc s t = P_next x p \<Longrightarrow>
     lq_step s (lq_goto t P_notify (s\<lparr>lq_tail := p, lq_tlock := None, lq_pushed := lq_pushed s @ [x]\<rparr>))"
| n_one: "lq_pc s t = P_notify \<Longrightarrow> lq_pc s u = W_asleep \<Longrightarrow> lq_step s (lq_goto t Q_idle (lq_goto u W_woken s))"
| n_none: "lq_pc s t = P_notify \<Longrightarrow> \<forall>u. lq_pc s u \<noteq> W_asleep \<Longrightarrow> lq_step s (lq_goto t Q_idle s)"
| t_lock: "lq_pc s t = Q_idle \<Longrightarrow> lq_hlock s = None \<Longrightarrow> lq_step s (lq_goto t (T_locked k) (s\<lparr>lq_hlock := Some t\<rparr>))"
| t_tail: "lq_pc s t = T_locked k \<Longrightarrow> lq_tlock s = None \<Longrightarrow> lq_step s (lq_goto t (T_tail k (lq_tail s)) s)"
| t_empty: "lq_pc s t = T_tail Try_pop q \<Longrightarrow> lq_head s = Some q \<Longrightarrow>
     lq_step s (lq_goto t Q_idle (s\<lparr>lq_hlock := None\<rparr>))"
| w_empty: "lq_pc s t = T_tail Wait_pop q \<Longrightarrow> lq_head s = Some q \<Longrightarrow> lq_step s (lq_goto t W_drowsy s)"
| w_sleep: "lq_pc s t = W_drowsy \<Longrightarrow> lq_step s (lq_goto t W_asleep (s\<lparr>lq_hlock := None\<rparr>))"
| w_spurious: "lq_pc s t = W_asleep \<Longrightarrow> lq_step s (lq_goto t W_woken s)"
| w_relock: "lq_pc s t = W_woken \<Longrightarrow> lq_hlock s = None \<Longrightarrow>
     lq_step s (lq_goto t (T_locked Wait_pop) (s\<lparr>lq_hlock := Some t\<rparr>))"
| t_move: "lq_pc s t = T_tail k q \<Longrightarrow> lq_head s = Some h \<Longrightarrow> h \<noteq> q \<Longrightarrow> lq_heap s h = Some nd \<Longrightarrow> nd_data nd = Some v \<Longrightarrow>
     lq_step s (lq_goto t (T_moved h (length (lq_popped s))) (s\<lparr>lq_head := None, lq_popped := lq_popped s @ [v]\<rparr>))"
| t_next: "lq_pc s t = T_moved h i \<Longrightarrow> lq_heap s h = Some nd \<Longrightarrow>
     lq_step s (lq_goto t (T_done h i) (s\<lparr>lq_head := nd_next nd, lq_heap := (lq_heap s)(h \<mapsto> nd\<lparr>nd_next := None\<rparr>)\<rparr>))"
| t_unlock: "lq_pc s t = T_done h i \<Longrightarrow> lq_step s (lq_goto t (T_ret h i) (s\<lparr>lq_hlock := None\<rparr>))"
| t_return: "lq_pc s t = T_ret h i \<Longrightarrow> lq_heap s h = Some nd \<Longrightarrow>
     lq_step s (lq_goto t Q_idle (s\<lparr>lq_heap := (lq_heap s)(h := None), lq_returned := lq_returned s @ [(i, nd_data nd)]\<rparr>))"

section \<open>The invariant\<close>

text \<open>The nodes from a pointer up to, and without, the dummy node.\<close>

fun chain :: "(nat \<Rightarrow> 'v node option) \<Rightarrow> nat option \<Rightarrow> nat list \<Rightarrow> nat \<Rightarrow> bool" where
  "chain h p [] q \<longleftrightarrow> p = Some q"
| "chain h p (n # ns) q \<longleftrightarrow> p = Some n \<and> (\<exists>nd. h n = Some nd \<and> chain h (nd_next nd) ns q)"

lemma chain_upd [simp]: "n \<notin> set ns \<Longrightarrow> chain (h(n := x)) p ns q = chain h p ns q"
  by (induction ns arbitrary: p) auto

lemma chain_append:
  "chain h p ns q \<Longrightarrow> h q = Some nd \<Longrightarrow> nd_next nd = Some r \<Longrightarrow> chain h p (ns @ [q]) r"
  by (induction ns arbitrary: p) auto

text \<open>The node a thread keeps for itself, the mutexes it holds and the pop it is about to return.\<close>

fun own_node :: "'v lq_pc \<Rightarrow> nat option" where
  "own_node (P_new x p) = Some p"
| "own_node (P_locked x p) = Some p"
| "own_node (P_data x p) = Some p"
| "own_node (P_next x p) = Some p"
| "own_node (T_moved h i) = Some h"
| "own_node (T_done h i) = Some h"
| "own_node (T_ret h i) = Some h"
| "own_node _ = None"

fun has_tail :: "'v lq_pc \<Rightarrow> bool" where
  "has_tail (P_locked x p) = True"
| "has_tail (P_data x p) = True"
| "has_tail (P_next x p) = True"
| "has_tail _ = False"

fun has_head :: "'v lq_pc \<Rightarrow> bool" where
  "has_head (T_locked k) = True"
| "has_head (T_tail k q) = True"
| "has_head W_drowsy = True"
| "has_head (T_moved h i) = True"
| "has_head (T_done h i) = True"
| "has_head _ = False"

fun ticket :: "'v lq_pc \<Rightarrow> nat option" where
  "ticket (T_moved h i) = Some i"
| "ticket (T_done h i) = Some i"
| "ticket (T_ret h i) = Some i"
| "ticket _ = None"

definition fresh_node :: "'v lq \<Rightarrow> nat \<Rightarrow> bool" where
  "fresh_node s p \<longleftrightarrow> lq_heap s p = Some new_node"

definition old_node :: "'v lq \<Rightarrow> nat \<Rightarrow> nat \<Rightarrow> bool" where
  "old_node s h i \<longleftrightarrow> (\<exists>nd. lq_heap s h = Some nd \<and> i < length (lq_popped s) \<and> nd_data nd = Some (lq_popped s ! i))"

text \<open>What each program counter says about the memory, when the queue consists of the nodes \<open>ns\<close>.\<close>

fun pc_ok :: "nat list \<Rightarrow> 'v lq \<Rightarrow> 'v lq_pc \<Rightarrow> bool" where
  "pc_ok ns s (P_new x p) \<longleftrightarrow> fresh_node s p"
| "pc_ok ns s (P_locked x p) \<longleftrightarrow> fresh_node s p"
| "pc_ok ns s (P_data x p) \<longleftrightarrow> fresh_node s p \<and> (\<exists>nd. lq_heap s (lq_tail s) = Some nd \<and> nd_data nd = Some x)"
| "pc_ok ns s (P_next x p) \<longleftrightarrow> fresh_node s p \<and>
     (\<exists>nd. lq_heap s (lq_tail s) = Some nd \<and> nd_data nd = Some x \<and> nd_next nd = Some p)"
| "pc_ok ns s (T_tail k q) \<longleftrightarrow> q \<in> set ns \<or> q = lq_tail s"
| "pc_ok ns s (T_moved h i) \<longleftrightarrow> old_node s h i \<and> lq_head s = None \<and>
     (\<exists>nd. lq_heap s h = Some nd \<and> chain (lq_heap s) (nd_next nd) ns (lq_tail s))"
| "pc_ok ns s (T_done h i) \<longleftrightarrow> old_node s h i"
| "pc_ok ns s (T_ret h i) \<longleftrightarrow> old_node s h i"
| "pc_ok ns s _ \<longleftrightarrow> True"

definition lq_locks :: "'v lq \<Rightarrow> bool" where
  "lq_locks s \<longleftrightarrow> excl has_head (lq_hlock s) (lq_pc s) \<and> excl has_tail (lq_tlock s) (lq_pc s)"

definition lq_private :: "nat list \<Rightarrow> 'v lq \<Rightarrow> bool" where
  "lq_private ns s \<longleftrightarrow> distinct (ns @ [lq_tail s]) \<and>
     (\<forall>t n. own_node (lq_pc s t) = Some n \<longrightarrow> n \<notin> set ns \<and> n \<noteq> lq_tail s) \<and>
     apart own_node (lq_pc s) \<and>
     (\<forall>n. lq_heap s n \<noteq> None \<longrightarrow> n < lq_fresh s)"

definition lq_tickets :: "'v lq \<Rightarrow> bool" where
  "lq_tickets s \<longleftrightarrow>
     apart ticket (lq_pc s) \<and>
     (\<forall>t i. ticket (lq_pc s t) = Some i \<longrightarrow> i < length (lq_popped s) \<and> i \<notin> fst ` set (lq_returned s)) \<and>
     distinct (map fst (lq_returned s)) \<and>
     (\<forall>(i, r) \<in> set (lq_returned s). i < length (lq_popped s) \<and> r = Some (lq_popped s ! i))"

definition node_data :: "(nat \<Rightarrow> 'v node option) \<Rightarrow> nat \<Rightarrow> 'v option" where
  "node_data h n = (case h n of None \<Rightarrow> None | Some nd \<Rightarrow> nd_data nd)"

lemma node_data_upd [simp]: "a \<notin> set ns \<Longrightarrow> map (node_data (h(a := x))) ns = map (node_data h) ns"
  by (auto simp: node_data_def)

definition lq_queue :: "nat list \<Rightarrow> 'v lq \<Rightarrow> bool" where
  "lq_queue ns s \<longleftrightarrow> lq_heap s (lq_tail s) \<noteq> None \<and> ((\<forall>t h i. lq_pc s t \<noteq> T_moved h i) \<longrightarrow> chain (lq_heap s) (lq_head s) ns (lq_tail s)) \<and>
     (\<exists>q. map (node_data (lq_heap s)) ns = map Some q \<and> lq_pushed s = lq_popped s @ q)"

definition lq_ok :: "nat list \<Rightarrow> 'v lq \<Rightarrow> bool" where
  "lq_ok ns s \<longleftrightarrow> lq_locks s \<and> lq_private ns s \<and> lq_tickets s \<and> lq_queue ns s \<and> (\<forall>t. pc_ok ns s (lq_pc s t))"

section \<open>Preservation\<close>

text \<open>The queue's nodes after a step.\<close>

lemma lq_locks_step: "lq_step s s' \<Longrightarrow> lq_locks s \<Longrightarrow> lq_locks s'"
  by (induction rule: lq_step.induct) (auto simp: lq_locks_def lq_goto_def excl_stay excl_acquire excl_release)

lemma lq_locks_stay:
  "lq_locks s \<Longrightarrow> has_head p = has_head (lq_pc s t) \<Longrightarrow> has_tail p = has_tail (lq_pc s t) \<Longrightarrow> lq_locks (lq_goto t p s)"
  by (simp add: lq_locks_def lq_goto_def excl_stay)

lemma lq_tickets_goto:
  assumes "lq_tickets s" and "ticket p = ticket (lq_pc s t) \<or> ticket p = None" and "lq_popped s' = lq_popped s"
    "lq_returned s' = lq_returned s" "lq_pc s' = lq_pc s"
  shows "lq_tickets (lq_goto t p s')"
proof -
  have "apart ticket (lq_pc s)" using assms(1) by (simp add: lq_tickets_def)
  then have "apart ticket ((lq_pc s)(t := p))" by (rule apart_keep) (rule assms(2))
  moreover have "i < length (lq_popped s) \<and> i \<notin> fst ` set (lq_returned s)" if "ticket (((lq_pc s)(t := p)) u) = Some i" for u i
  proof -
    have "\<exists>v. ticket (lq_pc s v) = Some i"
    proof (cases "u = t")
      case True
      then have "ticket (lq_pc s t) = Some i" using that assms(2) by auto
      then show ?thesis ..
    qed (use that in auto)
    then show ?thesis using assms(1) unfolding lq_tickets_def by blast
  qed
  ultimately show ?thesis using assms(1,3-5) by (simp add: lq_tickets_def lq_goto_def)
qed

lemma lq_tickets_step:
  assumes "lq_step s s'" and "lq_tickets s" and "\<And>t. pc_ok ns s (lq_pc s t)"
  shows "lq_tickets s'"
  using assms(1)
proof (cases rule: lq_step.cases)
  case (t_move t k q h nd v)
  have lt: "ticket (lq_pc s u) = Some i \<Longrightarrow> i < length (lq_popped s)" for u i
    using assms(2) by (simp add: lq_tickets_def)
  have "apart ticket ((lq_pc s)(t := T_moved h (length (lq_popped s))))"
    using assms(2) lt by (intro apart_new) (auto simp: lq_tickets_def)
  moreover have "length (lq_popped s) \<notin> fst ` set (lq_returned s)"
    using assms(2) by (fastforce simp: lq_tickets_def)
  ultimately show ?thesis
    using assms(2) t_move by (fastforce simp: lq_tickets_def lq_goto_def nth_append less_Suc_eq)
next
  case (t_return t h i nd)
  have "old_node s h i" using assms(3) [of t] t_return by simp
  then have nd: "nd_data nd = Some (lq_popped s ! i)" "i < length (lq_popped s)" using t_return by (auto simp: old_node_def)
  have other: "ticket (lq_pc s u) \<noteq> Some i" if "u \<noteq> t" for u
    using assms(2) t_return that by (auto simp: lq_tickets_def apart_def)
  have new: "i \<notin> fst ` set (lq_returned s)" using assms(2) t_return(2) unfolding lq_tickets_def by (metis ticket.simps(3))
  have "apart ticket ((lq_pc s)(t := Q_idle))" using assms(2) by (intro apart_keep) (simp_all add: lq_tickets_def)
  then show ?thesis using assms(2) t_return nd other new by (auto simp: lq_tickets_def lq_goto_def split: if_splits)
next
  case (n_one t u)
  have "lq_tickets (lq_goto u W_woken s)" using assms(2) by (intro lq_tickets_goto [of s]) simp_all
  then show ?thesis unfolding n_one(1) by (rule lq_tickets_goto) simp_all
qed (use assms(2) in \<open>auto intro!: lq_tickets_goto [of s]\<close>)

lemma pc_ok_other:
  assumes "pc_ok ns s q"
    and "\<And>n. own_node q = Some n \<Longrightarrow> lq_heap s' n = lq_heap s n"
    and "has_tail q \<Longrightarrow> lq_tail s' = lq_tail s \<and> lq_heap s' (lq_tail s) = lq_heap s (lq_tail s)"
    and "lq_popped s' = lq_popped s @ xs"
    and "has_head q \<Longrightarrow> lq_head s' = lq_head s \<and> set ns \<union> {lq_tail s} \<subseteq> set ns' \<union> {lq_tail s'}"
    and "has_head q \<Longrightarrow> (\<And>p. chain (lq_heap s) p ns (lq_tail s) \<Longrightarrow> chain (lq_heap s') p ns' (lq_tail s'))"
  shows "pc_ok ns' s' q"
  using assms by (cases q) (auto simp: fresh_node_def old_node_def nth_append)

lemma lq_private_keep:
  assumes "lq_private ns s" and "own_node p = own_node (lq_pc s t) \<or> own_node p = None"
    and "lq_pc s' = lq_pc s" "lq_tail s' = lq_tail s" "lq_fresh s' = lq_fresh s" "\<And>n. lq_heap s' n \<noteq> None \<Longrightarrow> lq_heap s n \<noteq> None"
  shows "lq_private ns (lq_goto t p s')"
proof -
  have "apart own_node (lq_pc s)" using assms(1) by (simp add: lq_private_def)
  then have "apart own_node ((lq_pc s)(t := p))" by (rule apart_keep) (rule assms(2))
  moreover have "n \<notin> set ns \<and> n \<noteq> lq_tail s" if "own_node (((lq_pc s)(t := p)) u) = Some n" for u n
  proof -
    have "\<exists>v. own_node (lq_pc s v) = Some n"
    proof (cases "u = t")
      case True
      then have "own_node (lq_pc s t) = Some n" using that assms(2) by auto
      then show ?thesis ..
    qed (use that in auto)
    then show ?thesis using assms(1) unfolding lq_private_def by blast
  qed
  moreover have "n < lq_fresh s" if "lq_heap s' n \<noteq> None" for n
    using assms(1) assms(6) [OF that] by (simp add: lq_private_def)
  ultimately show ?thesis using assms(1,3-5) by (simp add: lq_private_def lq_goto_def)
qed

text \<open>Steps that leave the memory and the ends of the queue as they are.\<close>

lemma lq_ok_still:
  assumes "lq_ok ns s" and "lq_locks (lq_goto t p s')" and "lq_tickets (lq_goto t p s')"
    and "own_node p = own_node (lq_pc s t) \<or> own_node p = None" and "pc_ok ns s p"
    and "\<And>h i. lq_pc s t \<noteq> T_moved h i" "\<And>h i. p \<noteq> T_moved h i"
    and "lq_heap s' = lq_heap s" "lq_head s' = lq_head s" "lq_tail s' = lq_tail s" "lq_pc s' = lq_pc s" "lq_fresh s' = lq_fresh s"
      "lq_pushed s' = lq_pushed s" "lq_popped s' = lq_popped s"
  shows "lq_ok ns (lq_goto t p s')"
proof -
  have "pc_ok ns (lq_goto t p s') q = pc_ok ns s q" for q
    by (cases q) (simp_all add: lq_goto_def fresh_node_def old_node_def assms(8-14))
  then have "\<forall>u. pc_ok ns (lq_goto t p s') (lq_pc (lq_goto t p s') u)"
    using assms(1,5,11) by (simp add: lq_ok_def lq_goto_def)
  moreover have "(\<forall>u h i. lq_pc (lq_goto t p s') u \<noteq> T_moved h i) \<longleftrightarrow> (\<forall>u h i. lq_pc s u \<noteq> T_moved h i)"
    using assms(6,7) by (simp add: lq_goto_def assms(11)) metis
  then have "lq_queue ns (lq_goto t p s')"
    using assms(1) by (simp add: lq_ok_def lq_queue_def) (simp add: lq_goto_def assms(8-14))
  moreover have "lq_private ns (lq_goto t p s')"
    using assms(1) by (intro lq_private_keep [of _ s]) (simp_all add: lq_ok_def assms(4,8-14))
  ultimately show ?thesis using assms(2,3) by (simp add: lq_ok_def)
qed

lemma lq_okD:
  assumes "lq_ok ns s"
  shows "lq_locks s" "lq_private ns s" "lq_tickets s" "lq_queue ns s" "pc_ok ns s (lq_pc s t)"
    and "has_head (lq_pc s t) \<Longrightarrow> has_head (lq_pc s u) \<Longrightarrow> t = u"
    and "has_tail (lq_pc s t) \<Longrightarrow> has_tail (lq_pc s u) \<Longrightarrow> t = u"
    and "own_node (lq_pc s t) = Some n \<Longrightarrow> own_node (lq_pc s u) = Some n \<Longrightarrow> t = u"
    and "own_node (lq_pc s t) = Some n \<Longrightarrow> n \<notin> set ns \<and> n \<noteq> lq_tail s"
    and "lq_tail s \<notin> set ns" "distinct ns"
  using assms excl_alone [of has_head "lq_hlock s" "lq_pc s"] excl_alone [of has_tail "lq_tlock s" "lq_pc s"]
  by (auto simp: lq_ok_def lq_locks_def lq_private_def apart_def)

lemma own_allocated: "pc_ok ns s q \<Longrightarrow> own_node q = Some n \<Longrightarrow> lq_heap s n \<noteq> None"
  by (cases q) (auto simp: fresh_node_def old_node_def)

lemma nodes_allocated: "lq_queue ns s \<Longrightarrow> n \<in> set ns \<or> n = lq_tail s \<Longrightarrow> lq_heap s n \<noteq> None"
proof -
  assume q: "lq_queue ns s" and n: "n \<in> set ns \<or> n = lq_tail s"
  then obtain xs where "map (node_data (lq_heap s)) ns = map Some xs"
    by (auto simp: lq_queue_def)
  then have "None \<notin> set (map (node_data (lq_heap s)) ns)" by simp
  then show ?thesis using q n by (force simp: lq_queue_def node_data_def)
qed

text \<open>Steps that change the memory or an end of the queue.\<close>

lemma lq_ok_change:
  assumes ok: "lq_ok ns s" and "lq_locks (lq_goto t p s1)" "lq_tickets (lq_goto t p s1)"
    and "lq_private ns' (lq_goto t p s1)" "lq_queue ns' (lq_goto t p s1)" "pc_ok ns' s1 p"
    and pcs: "lq_pc s1 = lq_pc s"
    and heap: "\<And>u n. u \<noteq> t \<Longrightarrow> own_node (lq_pc s u) = Some n \<Longrightarrow> lq_heap s1 n = lq_heap s n"
    and tails: "\<And>u. u \<noteq> t \<Longrightarrow> has_tail (lq_pc s u) \<Longrightarrow> lq_tail s1 = lq_tail s \<and> lq_heap s1 (lq_tail s) = lq_heap s (lq_tail s)"
    and popped: "lq_popped s1 = lq_popped s @ xs"
    and heads: "\<And>u. u \<noteq> t \<Longrightarrow> has_head (lq_pc s u) \<Longrightarrow> lq_head s1 = lq_head s \<and> set ns \<union> {lq_tail s} \<subseteq> set ns' \<union> {lq_tail s1} \<and>
      (\<forall>p. chain (lq_heap s) p ns (lq_tail s) \<longrightarrow> chain (lq_heap s1) p ns' (lq_tail s1))"
  shows "lq_ok ns' (lq_goto t p s1)"
proof -
  have still: "pc_ok ns' (lq_goto t p s1) q = pc_ok ns' s1 q" for q
    by (cases q) (simp_all add: lq_goto_def fresh_node_def old_node_def)
  have "pc_ok ns' s1 (lq_pc s u)" if "u \<noteq> t" for u
    by (rule pc_ok_other [OF lq_okD(5) [OF ok] heap [OF that] tails [OF that] popped]) (use heads [OF that] in auto)
  then have "\<forall>u. pc_ok ns' (lq_goto t p s1) (lq_pc (lq_goto t p s1) u)"
    unfolding still using assms(6) pcs by (simp add: lq_goto_def)
  with assms(2-5) show ?thesis by (simp add: lq_ok_def)
qed

lemma moved_goto:
  "(\<And>h i. p \<noteq> T_moved h i) \<Longrightarrow> (\<And>h i. lq_pc s t \<noteq> T_moved h i) \<Longrightarrow>
    (\<forall>u h i. lq_pc (lq_goto t p s) u \<noteq> T_moved h i) \<longleftrightarrow> (\<forall>u h i. lq_pc s u \<noteq> T_moved h i)"
  by (simp add: lq_goto_def) metis

lemma ok_p_new:
  assumes ok: "lq_ok ns s" and pc: "lq_pc s t = Q_idle"
    and s1: "s1 = s\<lparr>lq_heap := (lq_heap s)(lq_fresh s \<mapsto> new_node), lq_fresh := lq_fresh s + 1\<rparr>"
    and lt: "lq_locks (lq_goto t (P_new x (lq_fresh s)) s1)" "lq_tickets (lq_goto t (P_new x (lq_fresh s)) s1)"
  shows "lq_ok ns (lq_goto t (P_new x (lq_fresh s)) s1)"
proof -
  let ?a = "lq_fresh s"
  note D = lq_okD [OF ok]
  have lt_fresh: "lq_heap s n \<noteq> None \<Longrightarrow> n < ?a" for n using D(2) by (simp add: lq_private_def)
  have a: "?a \<notin> set ns" "?a \<noteq> lq_tail s" "own_node (lq_pc s u) \<noteq> Some ?a" for u
    using lt_fresh [of ?a] nodes_allocated [OF D(4)] own_allocated [OF D(5)] by auto
  have "apart own_node ((lq_pc s)(t := P_new x ?a))"
    using D(2) a(3) by (intro apart_new) (auto simp: lq_private_def)
  then have "lq_private ns (lq_goto t (P_new x ?a) s1)"
    using D(2) a lt_fresh by (auto simp: lq_private_def lq_goto_def s1 less_Suc_eq)
  moreover have "lq_queue ns (lq_goto t (P_new x ?a) s1)"
    using D(4) a pc unfolding lq_queue_def by (subst moved_goto) (auto simp: s1 lq_goto_def)
  ultimately show ?thesis
    using a by (intro lq_ok_change [OF ok lt, where xs = "[]"]) (auto simp: s1 fresh_node_def)
qed

lemma ok_p_data:
  assumes ok: "lq_ok ns s" and pc: "lq_pc s t = P_locked x p" and nd: "lq_heap s (lq_tail s) = Some nd"
    and s1: "s1 = s\<lparr>lq_heap := (lq_heap s)(lq_tail s \<mapsto> nd\<lparr>nd_data := Some x\<rparr>)\<rparr>"
    and lt: "lq_locks (lq_goto t (P_data x p) s1)" "lq_tickets (lq_goto t (P_data x p) s1)"
  shows "lq_ok ns (lq_goto t (P_data x p) s1)"
proof -
  note D = lq_okD [OF ok]
  have own: "own_node (lq_pc s u) \<noteq> Some (lq_tail s)" for u using D(9) by blast
  have p: "p \<noteq> lq_tail s" using own [of t] pc by simp
  have alone: "has_tail (lq_pc s u) \<Longrightarrow> u = t" for u using D(7) [of t u] pc by simp
  have "lq_private ns (lq_goto t (P_data x p) s1)"
    using D(2) by (rule lq_private_keep) (auto simp: pc s1 nd split: if_splits)
  moreover have "lq_queue ns (lq_goto t (P_data x p) s1)"
    using D(4,10) pc unfolding lq_queue_def by (subst moved_goto) (auto simp: s1 lq_goto_def)
  moreover have "pc_ok ns s1 (P_data x p)" using D(5) [of t] pc p by (simp add: s1 fresh_node_def)
  ultimately show ?thesis
    using own alone D(10) by (intro lq_ok_change [OF ok lt, where xs = "[]"]) (auto simp: s1)
qed

lemma ok_p_next:
  assumes ok: "lq_ok ns s" and pc: "lq_pc s t = P_data x p" and nd: "lq_heap s (lq_tail s) = Some nd"
    and s1: "s1 = s\<lparr>lq_heap := (lq_heap s)(lq_tail s \<mapsto> nd\<lparr>nd_next := Some p\<rparr>)\<rparr>"
    and lt: "lq_locks (lq_goto t (P_next x p) s1)" "lq_tickets (lq_goto t (P_next x p) s1)"
  shows "lq_ok ns (lq_goto t (P_next x p) s1)"
proof -
  note D = lq_okD [OF ok]
  have own: "own_node (lq_pc s u) \<noteq> Some (lq_tail s)" for u using D(9) by blast
  have p: "p \<noteq> lq_tail s" using own [of t] pc by simp
  have alone: "has_tail (lq_pc s u) \<Longrightarrow> u = t" for u using D(7) [of t u] pc by simp
  have "lq_private ns (lq_goto t (P_next x p) s1)"
    using D(2) by (rule lq_private_keep) (auto simp: pc s1 nd split: if_splits)
  moreover have "lq_queue ns (lq_goto t (P_next x p) s1)"
    using D(4,10) pc unfolding lq_queue_def by (subst moved_goto) (auto simp: s1 lq_goto_def)
  moreover have "pc_ok ns s1 (P_next x p)" using D(5) [of t] pc p nd by (simp add: s1 fresh_node_def)
  ultimately show ?thesis
    using own alone D(10) by (intro lq_ok_change [OF ok lt, where xs = "[]"]) (auto simp: s1)
qed

lemma ok_p_tail:
  assumes ok: "lq_ok ns s" and pc: "lq_pc s t = P_next x p"
    and s1: "s1 = s\<lparr>lq_tail := p, lq_tlock := None, lq_pushed := lq_pushed s @ [x]\<rparr>"
    and lt: "lq_locks (lq_goto t P_notify s1)" "lq_tickets (lq_goto t P_notify s1)"
  shows "lq_ok (ns @ [lq_tail s]) (lq_goto t P_notify s1)"
proof -
  note D = lq_okD [OF ok]
  obtain nd where nd: "lq_heap s (lq_tail s) = Some nd" "nd_data nd = Some x" "nd_next nd = Some p" and p: "lq_heap s p = Some new_node"
    using D(5) [of t] pc by (auto simp: fresh_node_def)
  have alone: "has_tail (lq_pc s u) \<Longrightarrow> u = t" for u using D(7) [of t u] pc by simp
  have pn: "p \<notin> set ns" "p \<noteq> lq_tail s" using D(9) [of t p] pc by simp_all
  have other: "own_node (lq_pc s u) \<noteq> Some p" if "u \<noteq> t" for u using D(8) [of t p u] pc that by auto
  have "apart own_node (lq_pc s)" using D(2) by (simp add: lq_private_def)
  then have "apart own_node ((lq_pc s)(t := P_notify))" by (rule apart_keep) simp
  moreover have "own_node (lq_pc s u) = Some n \<Longrightarrow> n \<notin> set ns \<and> n \<noteq> lq_tail s" for u n by (rule D(9))
  ultimately have "lq_private (ns @ [lq_tail s]) (lq_goto t P_notify s1)"
    using D(2) pn other by (auto simp: lq_private_def lq_goto_def s1 split: if_splits)
  moreover have "lq_queue (ns @ [lq_tail s]) (lq_goto t P_notify s1)"
  proof -
    obtain q where q: "map (node_data (lq_heap s)) ns = map Some q" "lq_pushed s = lq_popped s @ q"
      using D(4) by (auto simp: lq_queue_def)
    then have "map (node_data (lq_heap s)) (ns @ [lq_tail s]) = map Some (q @ [x]) \<and> lq_pushed s @ [x] = lq_popped s @ (q @ [x])"
      using nd by (simp add: node_data_def)
    moreover have "chain (lq_heap s) (lq_head s) ns (lq_tail s) \<Longrightarrow> chain (lq_heap s) (lq_head s) (ns @ [lq_tail s]) p"
      using nd by (blast intro: chain_append)
    ultimately show ?thesis using D(4) pc p unfolding lq_queue_def by (subst moved_goto) (auto simp: s1 lq_goto_def)
  qed
  moreover have "chain (lq_heap s) r (ns @ [lq_tail s]) p" if "chain (lq_heap s) r ns (lq_tail s)" for r
    using that nd by (blast intro: chain_append)
  ultimately show ?thesis
    using alone by (intro lq_ok_change [OF ok lt, where xs = "[]"]) (auto simp: s1)
qed

lemma head_not_tail:
  assumes ok: "lq_ok ns s" and pc: "lq_pc s t = T_tail k q" and h: "lq_head s = Some h" "h \<noteq> q"
  shows "\<exists>ns' nd. ns = h # ns' \<and> lq_heap s h = Some nd \<and> chain (lq_heap s) (nd_next nd) ns' (lq_tail s)"
proof -
  note D = lq_okD [OF ok]
  have "lq_pc s u \<noteq> T_moved h' i" for u h' i using D(6) [of t u] pc by (cases "lq_pc s u") auto
  then have c: "chain (lq_heap s) (Some h) ns (lq_tail s)" using D(4) h(1) by (auto simp: lq_queue_def)
  have "ns \<noteq> []"
  proof
    assume "ns = []"
    then show False using c D(5) [of t] pc h(2) by simp
  qed
  then show ?thesis using c by (cases ns) auto
qed

lemma pop_has_data:
  assumes ok: "lq_ok ns s" and pc: "lq_pc s t = T_tail k q" and h: "lq_head s \<noteq> Some q"
  shows "\<exists>h nd v. lq_head s = Some h \<and> lq_heap s h = Some nd \<and> nd_data nd = Some v"
proof -
  note D = lq_okD [OF ok]
  have "lq_pc s u \<noteq> T_moved h' i" for u h' i using D(6) [of t u] pc by (cases "lq_pc s u") auto
  then have "chain (lq_heap s) (lq_head s) ns (lq_tail s)" using D(4) by (auto simp: lq_queue_def)
  then obtain h' where h': "lq_head s = Some h'" by (cases ns) auto
  with h have "h' \<noteq> q" by simp
  from head_not_tail [OF ok pc h' this] obtain ns' nd where ns: "ns = h' # ns'" "lq_heap s h' = Some nd" by blast
  obtain xs where "map (node_data (lq_heap s)) ns = map Some xs" using D(4) by (auto simp: lq_queue_def)
  then have "\<exists>v. nd_data nd = Some v" using ns by (cases xs) (auto simp: node_data_def)
  with h' ns(2) show ?thesis by blast
qed

lemma ok_t_move:
  assumes ok: "lq_ok ns s" and pc: "lq_pc s t = T_tail k q" and h: "lq_head s = Some h" "h \<noteq> q"
    and nd: "lq_heap s h = Some nd" "nd_data nd = Some v"
    and s1: "s1 = s\<lparr>lq_head := None, lq_popped := lq_popped s @ [v]\<rparr>"
    and lt: "lq_locks (lq_goto t (T_moved h (length (lq_popped s))) s1)" "lq_tickets (lq_goto t (T_moved h (length (lq_popped s))) s1)"
  shows "lq_ok (tl ns) (lq_goto t (T_moved h (length (lq_popped s))) s1)"
proof -
  note D = lq_okD [OF ok]
  obtain ns' where ns: "ns = h # ns'" "chain (lq_heap s) (nd_next nd) ns' (lq_tail s)"
    using head_not_tail [OF ok pc h] nd(1) by auto
  have alone: "has_head (lq_pc s u) \<Longrightarrow> u = t" for u using D(6) [of t u] pc by simp
  have own: "own_node (lq_pc s u) \<noteq> Some h" for u using D(9) [of u h] ns(1) by auto
  have "apart own_node ((lq_pc s)(t := T_moved h (length (lq_popped s))))"
    using D(2) own by (intro apart_new) (auto simp: lq_private_def)
  then have "lq_private ns' (lq_goto t (T_moved h (length (lq_popped s))) s1)"
    using D(2) ns(1) by (auto simp: lq_private_def lq_goto_def s1)
  moreover have "lq_queue ns' (lq_goto t (T_moved h (length (lq_popped s))) s1)"
  proof -
    obtain xs where xs: "map (node_data (lq_heap s)) ns = map Some xs" "lq_pushed s = lq_popped s @ xs"
      using D(4) by (auto simp: lq_queue_def)
    then obtain ys where "xs = v # ys" "map (node_data (lq_heap s)) ns' = map Some ys"
      using ns(1) nd by (cases xs) (auto simp: node_data_def)
    then show ?thesis using xs D(4) by (auto simp: lq_queue_def s1 lq_goto_def)
  qed
  moreover have "pc_ok ns' s1 (T_moved h (length (lq_popped s)))"
    using nd ns(2) by (auto simp: old_node_def s1)
  ultimately show ?thesis
    using alone unfolding ns(1) list.sel by (intro lq_ok_change [OF ok lt, where xs = "[v]"]) (auto simp: s1)
qed

lemma ok_t_next:
  assumes ok: "lq_ok ns s" and pc: "lq_pc s t = T_moved h i" and nd: "lq_heap s h = Some nd"
    and s1: "s1 = s\<lparr>lq_head := nd_next nd, lq_heap := (lq_heap s)(h \<mapsto> nd\<lparr>nd_next := None\<rparr>)\<rparr>"
    and lt: "lq_locks (lq_goto t (T_done h i) s1)" "lq_tickets (lq_goto t (T_done h i) s1)"
  shows "lq_ok ns (lq_goto t (T_done h i) s1)"
proof -
  note D = lq_okD [OF ok]
  have alone: "has_head (lq_pc s u) \<Longrightarrow> u = t" for u using D(6) [of t u] pc by simp
  have other: "own_node (lq_pc s u) \<noteq> Some h" if "u \<noteq> t" for u using D(8) [of t h u] pc that by auto
  have hn: "h \<notin> set ns" "h \<noteq> lq_tail s" using D(9) [of t h] pc by simp_all
  have c: "chain (lq_heap s) (nd_next nd) ns (lq_tail s)" and old: "old_node s h i" using D(5) [of t] pc nd by auto
  have "lq_private ns (lq_goto t (T_done h i) s1)"
    using D(2) by (rule lq_private_keep) (auto simp: pc s1 nd split: if_splits)
  moreover have "lq_queue ns (lq_goto t (T_done h i) s1)"
    using D(4) hn c unfolding lq_queue_def by (auto simp: s1 lq_goto_def)
  moreover have "pc_ok ns s1 (T_done h i)" using old nd by (auto simp: old_node_def s1)
  ultimately show ?thesis
    using alone other hn by (intro lq_ok_change [OF ok lt, where xs = "[]"]) (auto simp: s1)
qed

lemma ok_t_return:
  assumes ok: "lq_ok ns s" and pc: "lq_pc s t = T_ret h i" and nd: "lq_heap s h = Some nd"
    and s1: "s1 = s\<lparr>lq_heap := (lq_heap s)(h := None), lq_returned := lq_returned s @ [(i, nd_data nd)]\<rparr>"
    and lt: "lq_locks (lq_goto t Q_idle s1)" "lq_tickets (lq_goto t Q_idle s1)"
  shows "lq_ok ns (lq_goto t Q_idle s1)"
proof -
  note D = lq_okD [OF ok]
  have other: "own_node (lq_pc s u) \<noteq> Some h" if "u \<noteq> t" for u using D(8) [of t h u] pc that by auto
  have hn: "h \<notin> set ns" "h \<noteq> lq_tail s" using D(9) [of t h] pc by simp_all
  have "lq_private ns (lq_goto t Q_idle s1)"
    using D(2) by (rule lq_private_keep) (auto simp: pc s1 nd split: if_splits)
  moreover have "lq_queue ns (lq_goto t Q_idle s1)"
    using D(4) hn pc unfolding lq_queue_def by (subst moved_goto) (auto simp: s1 lq_goto_def)
  ultimately show ?thesis
    using other hn by (intro lq_ok_change [OF ok lt, where xs = "[]"]) (auto simp: s1)
qed

lemma lq_ok_step:
  assumes "lq_ok ns s" and "lq_step s s'"
  shows "\<exists>ns'. lq_ok ns' s'"
proof -
  note lt = lq_locks_step [OF assms(2) lq_okD(1) [OF assms(1)]] lq_tickets_step [OF assms(2) lq_okD(3,5) [OF assms(1)]]
  from assms(2) show ?thesis
  proof (cases rule: lq_step.cases)
    case (t_tail t k)
    from t_tail(2-) have "lq_ok ns s'" using lt unfolding t_tail(1) by (intro lq_ok_still [OF assms(1)]) simp_all
    then show ?thesis ..
  next
    case (p_lock t x p)
    from p_lock(2-) have "lq_ok ns s'" using lt lq_okD(5) [OF assms(1), of t] unfolding p_lock(1) by (intro lq_ok_still [OF assms(1)]) simp_all
    then show ?thesis ..
  next
    case (t_unlock t h i)
    from t_unlock(2-) have "lq_ok ns s'" using lt lq_okD(5) [OF assms(1), of t] unfolding t_unlock(1) by (intro lq_ok_still [OF assms(1)]) simp_all
    then show ?thesis ..
  next
    case (t_lock t k)
    from t_lock(2-) have "lq_ok ns s'" using lt unfolding t_lock(1) by (intro lq_ok_still [OF assms(1)]) simp_all
    then show ?thesis ..
  next
    case (t_empty t q)
    from t_empty(2-) have "lq_ok ns s'" using lt unfolding t_empty(1) by (intro lq_ok_still [OF assms(1)]) simp_all
    then show ?thesis ..
  next
    case (n_none t)
    from n_none(2-) have "lq_ok ns s'" using lt unfolding n_none(1) by (intro lq_ok_still [OF assms(1)]) simp_all
    then show ?thesis ..
  next
    case (w_empty t q)
    from w_empty(2-) have "lq_ok ns s'" using lt unfolding w_empty(1) by (intro lq_ok_still [OF assms(1)]) simp_all
    then show ?thesis ..
  next
    case (w_sleep t)
    from w_sleep(2-) have "lq_ok ns s'" using lt unfolding w_sleep(1) by (intro lq_ok_still [OF assms(1)]) simp_all
    then show ?thesis ..
  next
    case (w_spurious t)
    from w_spurious(2-) have "lq_ok ns s'" using lt unfolding w_spurious(1) by (intro lq_ok_still [OF assms(1)]) simp_all
    then show ?thesis ..
  next
    case (w_relock t)
    from w_relock(2-) have "lq_ok ns s'" using lt unfolding w_relock(1) by (intro lq_ok_still [OF assms(1)]) simp_all
    then show ?thesis ..
  next
    case (n_one t u)
    have woken: "lq_ok ns (lq_goto u W_woken s)"
      using lt n_one(3) lq_okD(1,3) [OF assms(1)]
      by (intro lq_ok_still [OF assms(1)] lq_locks_stay) (simp_all add: lq_tickets_goto)
    have "lq_pc (lq_goto u W_woken s) t = P_notify" using n_one by (auto simp: lq_goto_def)
    then have "lq_ok ns s'" unfolding n_one(1) by (intro lq_ok_still [OF woken]) (use lt n_one(1) in simp_all)
    then show ?thesis ..
  next
    case (p_new t x)
    from p_new(2) lt have "lq_ok ns s'" unfolding p_new(1) by (intro ok_p_new [OF assms(1) _ refl])
    then show ?thesis ..
  next
    case (p_data t x p nd)
    from p_data(2-) lt have "lq_ok ns s'" unfolding p_data(1) by (intro ok_p_data [OF assms(1) _ _ refl])
    then show ?thesis ..
  next
    case (p_next t x p nd)
    from p_next(2-) lt have "lq_ok ns s'" unfolding p_next(1) by (intro ok_p_next [OF assms(1) _ _ refl])
    then show ?thesis ..
  next
    case (p_tail t x p)
    from p_tail(2-) lt have "lq_ok (ns @ [lq_tail s]) s'" unfolding p_tail(1) by (intro ok_p_tail [OF assms(1) _ refl])
    then show ?thesis ..
  next
    case (t_move t k q h nd v)
    from t_move(2-) lt have "lq_ok (tl ns) s'" unfolding t_move(1) by (intro ok_t_move [OF assms(1) _ _ _ _ _ refl])
    then show ?thesis ..
  next
    case (t_next t h i nd)
    from t_next(2-) lt have "lq_ok ns s'" unfolding t_next(1) by (intro ok_t_next [OF assms(1) _ _ refl])
    then show ?thesis ..
  next
    case (t_return t h i nd)
    from t_return(2-) lt have "lq_ok ns s'" unfolding t_return(1) by (intro ok_t_return [OF assms(1) _ _ refl])
    then show ?thesis ..
  qed
qed

lemma lq_ok_start: "lq_ok [] lq_start"
  by (simp add: lq_ok_def lq_start_def lq_locks_def excl_def lq_private_def apart_def lq_tickets_def lq_queue_def new_node_def)

lemma lq_ok_reach:
  assumes "reach lq_step lq_start s"
  obtains ns where "lq_ok ns s"
proof -
  have "\<exists>ns. lq_ok ns s"
    by (rule reach_invariant [where I = "\<lambda>s. \<exists>ns. lq_ok ns s", OF assms]) (use lq_ok_start lq_ok_step in blast)+
  then show ?thesis using that by blast
qed

section \<open>Properties\<close>

text \<open>The nodes a thread is about to read or to write through a pointer.\<close>

fun accesses :: "'v lq \<Rightarrow> 'v lq_pc \<Rightarrow> nat set" where
  "accesses s (P_locked x p) = {lq_tail s}"
| "accesses s (P_data x p) = {lq_tail s}"
| "accesses s (T_tail k q) = (if lq_head s = Some q then {} else {the (lq_head s)})"
| "accesses s (T_moved h i) = {h}"
| "accesses s (T_ret h i) = {h}"
| "accesses s _ = {}"

text \<open>(C6) The linked queue is linearizable and memory-safe: in every reachable interleaving of any number of
  pushes, \<^verbatim>\<open>try_pop\<close>s and \<^verbatim>\<open>wait_and_pop\<close>s, a mutex is held by at most one thread, the popped values are the
  first of the pushed ones, every returned pointer carries the value of its own pop and no pop returns
  twice, each pointer that is about to be followed points to a live node, and a pop that finds the queue
  nonempty finds a node with data.\<close>

theorem linked_queue_linearizable:
  assumes "reach lq_step lq_start s"
  shows "(\<exists>q. lq_pushed s = lq_popped s @ q) \<and>
    distinct (map fst (lq_returned s)) \<and>
    (\<forall>(i, r) \<in> set (lq_returned s). i < length (lq_popped s) \<and> r = Some (lq_popped s ! i)) \<and>
    (\<forall>t u. has_head (lq_pc s t) \<and> has_head (lq_pc s u) \<or> has_tail (lq_pc s t) \<and> has_tail (lq_pc s u) \<longrightarrow> t = u) \<and>
    (\<forall>t. \<forall>n \<in> accesses s (lq_pc s t). lq_heap s n \<noteq> None) \<and>
    (\<forall>t k q. lq_pc s t = T_tail k q \<and> lq_head s \<noteq> Some q \<longrightarrow>
      (\<exists>h nd v. lq_head s = Some h \<and> lq_heap s h = Some nd \<and> nd_data nd = Some v))"
proof -
  obtain ns where ok: "lq_ok ns s" by (rule lq_ok_reach [OF assms])
  note D = lq_okD [OF ok]
  have data: "\<exists>h nd v. lq_head s = Some h \<and> lq_heap s h = Some nd \<and> nd_data nd = Some v"
    if "lq_pc s t = T_tail k q" "lq_head s \<noteq> Some q" for t k q by (rule pop_has_data [OF ok that])
  have "lq_heap s n \<noteq> None" if "n \<in> accesses s (lq_pc s t)" for t n
    using that own_allocated [OF D(5), of t] nodes_allocated [OF D(4), of "lq_tail s"] data [of t]
    by (cases "lq_pc s t") (auto split: if_splits)
  moreover have "\<exists>q. lq_pushed s = lq_popped s @ q" using D(4) by (auto simp: lq_queue_def)
  moreover have "distinct (map fst (lq_returned s))"
    "\<forall>(i, r) \<in> set (lq_returned s). i < length (lq_popped s) \<and> r = Some (lq_popped s ! i)"
    using D(3) by (simp_all add: lq_tickets_def)
  ultimately show ?thesis using D(6,7) data by blast
qed

lemma push_and_pop_run:
  "\<exists>s. reach lq_step lq_start s \<and> lq_returned s = [(0, Some x)] \<and> lq_pushed s = [x]"
proof -
  note run = lq_start_def new_node_def lq_goto_def
  let ?s1 = "lq_goto 2 (P_new x 1) ((lq_start :: 'a lq)\<lparr>lq_heap := (lq_heap (lq_start :: 'a lq))(1 \<mapsto> new_node), lq_fresh := 2\<rparr>)"
  let ?s2 = "lq_goto 2 (P_locked x 1) (?s1\<lparr>lq_tlock := Some 2\<rparr>)"
  let ?s3 = "lq_goto 2 (P_data x 1) (?s2\<lparr>lq_heap := (lq_heap ?s2)(0 \<mapsto> \<lparr>nd_data = Some x, nd_next = None\<rparr>)\<rparr>)"
  let ?s4 = "lq_goto 2 (P_next x 1) (?s3\<lparr>lq_heap := (lq_heap ?s3)(0 \<mapsto> \<lparr>nd_data = Some x, nd_next = Some 1\<rparr>)\<rparr>)"
  let ?s5 = "lq_goto 2 P_notify (?s4\<lparr>lq_tail := 1, lq_tlock := None, lq_pushed := [x]\<rparr>)"
  let ?s6 = "lq_goto 2 Q_idle ?s5"
  let ?s7 = "lq_goto 1 (T_locked Try_pop) (?s6\<lparr>lq_hlock := Some 1\<rparr>)"
  let ?s8 = "lq_goto 1 (T_tail Try_pop 1) ?s7"
  let ?s9 = "lq_goto 1 (T_moved 0 0) (?s8\<lparr>lq_head := None, lq_popped := [x]\<rparr>)"
  let ?s10 = "lq_goto 1 (T_done 0 0) (?s9\<lparr>lq_head := Some 1, lq_heap := (lq_heap ?s9)(0 \<mapsto> \<lparr>nd_data = Some x, nd_next = None\<rparr>)\<rparr>)"
  let ?s11 = "lq_goto 1 (T_ret 0 0) (?s10\<lparr>lq_hlock := None\<rparr>)"
  let ?s12 = "lq_goto 1 Q_idle (?s11\<lparr>lq_heap := (lq_heap ?s11)(0 := None), lq_returned := [(0, Some x)]\<rparr>)"
  have "reach lq_step lq_start ?s1"
    by (rule reach_by [OF reach_refl], rule lq_step.p_new [where t = 2 and x = x]) (simp_all add: run)
  then have "reach lq_step lq_start ?s2"
    by - (erule reach_by, rule lq_step.p_lock [where t = 2], (simp add: run)+)
  then have "reach lq_step lq_start ?s3"
    by - (erule reach_by, rule lq_step.p_data [where t = 2], (simp add: run)+)
  then have "reach lq_step lq_start ?s4"
    by - (erule reach_by, rule lq_step.p_next [where t = 2], (simp add: run)+)
  then have "reach lq_step lq_start ?s5"
    by - (erule reach_by, rule lq_step.p_tail [where t = 2], (simp add: run)+)
  then have "reach lq_step lq_start ?s6"
    by - (erule reach_by, rule lq_step.n_none [where t = 2], (simp add: run)+)
  then have "reach lq_step lq_start ?s7"
    by - (erule reach_by, rule lq_step.t_lock [where t = 1 and k = Try_pop], (simp add: run)+)
  then have "reach lq_step lq_start ?s8"
    by - (erule reach_by, rule lq_step.t_tail [where t = 1], (simp add: run)+)
  then have "reach lq_step lq_start ?s9"
    by - (erule reach_by, rule lq_step.t_move [where t = 1], (simp add: run)+)
  then have "reach lq_step lq_start ?s10"
    by - (erule reach_by, rule lq_step.t_next [where t = 1], (simp add: run)+)
  then have "reach lq_step lq_start ?s11"
    by - (erule reach_by, rule lq_step.t_unlock [where t = 1], (simp add: run)+)
  then have "reach lq_step lq_start ?s12"
    by - (erule reach_by, rule lq_step.t_return [where t = 1], (simp add: run)+)
  moreover have "lq_returned ?s12 = [(0, Some x)]" "lq_pushed ?s12 = [x]" by (simp add: run, simp add: run)
  ultimately show ?thesis by - (rule exI, intro conjI, assumption+)
qed

text \<open>The notification of \<^verbatim>\<open>push\<close> can be lost: it is sent without \<^verbatim>\<open>head_mutex_\<close>, under which \<^verbatim>\<open>wait_and_pop\<close>
  evaluates its predicate, so there is a run in which the consumer sleeps next to a value of the queue
  and every other thread has finished.\<close>

theorem push_can_lose_wakeup:
  "\<exists>s. reach lq_step lq_start s \<and> lq_pc s 1 = W_asleep \<and> lq_pushed s = [x] \<and> lq_popped s = [] \<and> (\<forall>t. t \<noteq> 1 \<longrightarrow> lq_pc s t = Q_idle)"
proof -
  note run = lq_start_def new_node_def lq_goto_def
  let ?s1 = "lq_goto 1 (T_locked Wait_pop) ((lq_start :: 'a lq)\<lparr>lq_hlock := Some 1\<rparr>)"
  let ?s2 = "lq_goto 1 (T_tail Wait_pop 0) ?s1"
  let ?s3 = "lq_goto 1 W_drowsy ?s2"
  let ?s4 = "lq_goto 2 (P_new x 1) (?s3\<lparr>lq_heap := (lq_heap ?s3)(1 \<mapsto> new_node), lq_fresh := 2\<rparr>)"
  let ?s5 = "lq_goto 2 (P_locked x 1) (?s4\<lparr>lq_tlock := Some 2\<rparr>)"
  let ?s6 = "lq_goto 2 (P_data x 1) (?s5\<lparr>lq_heap := (lq_heap ?s5)(0 \<mapsto> \<lparr>nd_data = Some x, nd_next = None\<rparr>)\<rparr>)"
  let ?s7 = "lq_goto 2 (P_next x 1) (?s6\<lparr>lq_heap := (lq_heap ?s6)(0 \<mapsto> \<lparr>nd_data = Some x, nd_next = Some 1\<rparr>)\<rparr>)"
  let ?s8 = "lq_goto 2 P_notify (?s7\<lparr>lq_tail := 1, lq_tlock := None, lq_pushed := [x]\<rparr>)"
  let ?s9 = "lq_goto 2 Q_idle ?s8"
  let ?s10 = "lq_goto 1 W_asleep (?s9\<lparr>lq_hlock := None\<rparr>)"
  have "reach lq_step lq_start ?s1"
    by (rule reach_by [OF reach_refl], rule lq_step.t_lock [where t = 1 and k = Wait_pop]) (simp_all add: run)
  then have "reach lq_step lq_start ?s2"
    by - (erule reach_by, rule lq_step.t_tail [where t = 1], (simp add: run)+)
  then have "reach lq_step lq_start ?s3"
    by - (erule reach_by, rule lq_step.w_empty [where t = 1], (simp add: run)+)
  then have "reach lq_step lq_start ?s4"
    by - (erule reach_by, rule lq_step.p_new [where t = 2 and x = x], (simp add: run)+)
  then have "reach lq_step lq_start ?s5"
    by - (erule reach_by, rule lq_step.p_lock [where t = 2], (simp add: run)+)
  then have "reach lq_step lq_start ?s6"
    by - (erule reach_by, rule lq_step.p_data [where t = 2], (simp add: run)+)
  then have "reach lq_step lq_start ?s7"
    by - (erule reach_by, rule lq_step.p_next [where t = 2], (simp add: run)+)
  then have "reach lq_step lq_start ?s8"
    by - (erule reach_by, rule lq_step.p_tail [where t = 2], (simp add: run)+)
  then have "reach lq_step lq_start ?s9"
    by - (erule reach_by, rule lq_step.n_none [where t = 2], (simp add: run)+)
  then have "reach lq_step lq_start ?s10"
    by - (erule reach_by, rule lq_step.w_sleep [where t = 1], (simp add: run)+)
  moreover have "lq_pc ?s10 1 = W_asleep" "lq_pushed ?s10 = [x]" "lq_popped ?s10 = []" "\<forall>t. t \<noteq> 1 \<longrightarrow> lq_pc ?s10 t = Q_idle"
    by (simp add: run, simp add: run, simp add: run, simp add: run)
  ultimately show ?thesis by - (rule exI, intro conjI, assumption+)
qed

theorem linked_queue_linearizable_witness:
  "\<exists>s. reach lq_step lq_start s \<and> lq_returned s = [(0, Some (5 :: int))] \<and> lq_popped s ! 0 = 5"
proof -
  obtain s where s: "reach lq_step lq_start s" "lq_returned s = [(0, Some (5 :: int))]"
    using push_and_pop_run [of "5 :: int"] by (elim exE conjE)
  from linked_queue_linearizable [OF s(1), THEN conjunct2, THEN conjunct2, THEN conjunct1]
  have "lq_popped s ! 0 = 5" by (simp add: s(2))
  with s show ?thesis by (intro exI conjI)
qed

end
