(* ===== verification/Node_Queue.thy ===== *)
theory Node_Queue
  imports Linked_Queue Thread_Queues
begin

text \<open>
  \<^verbatim>\<open>threadsafe_queue_version_2\<close> as src/thread/threadsafe_queue_test.cc has it, with \<^verbatim>\<open>std::unique_ptr\<close> in place of
  \<^verbatim>\<open>scoped_ptr\<close>: every member function as one function on the heap of nodes, the two overloads that hand a
  value out by reference included, and the destructor, which deletes the nodes one inside the other. It is
  the queue a thread sees that is not interfered with; the interleavings are in \<open>Linked_Queue\<close>. A \<^verbatim>\<open>T\<close> is a
  value, so moving one out of a node leaves the node with the value (the program's \<^verbatim>\<open>T\<close> is \<^verbatim>\<open>int\<close>). The nodes of
  a queue that is in order are a chain from the head to the dummy; the queue implements \<open>full_queue\<close>.
\<close>

section \<open>Model\<close>

record 'v node_queue =
  nq_heap :: "nat \<Rightarrow> 'v node option"
  nq_head :: "nat option"
  nq_tail :: nat
  nq_head_locked :: bool
  nq_tail_locked :: bool
  nq_fresh :: nat \<comment> \<open>the address the next \<^verbatim>\<open>new\<close> returns\<close>

definition node_queue_new :: "'v node_queue" where
  "node_queue_new = \<lparr>nq_heap = [0 \<mapsto> new_node], nq_head = Some 0, nq_tail = 0,
     nq_head_locked = False, nq_tail_locked = False, nq_fresh = 1\<rparr>"

text \<open>The node behind a pointer.\<close>

definition node_at :: "nat option \<Rightarrow> 'v node_queue \<Rightarrow> (nat \<times> 'v node) res" where
  "node_at p s = (case p of None \<Rightarrow> Inl NullPointer
     | Some n \<Rightarrow> (case nq_heap s n of None \<Rightarrow> Inl UseAfterFree | Some nd \<Rightarrow> Inr (n, nd)))"

text \<open>The destructor of a \<^verbatim>\<open>unique_ptr<node>\<close>: a node goes after the nodes behind it. A walk of more steps than
  there have been nodes meets one of them again.\<close>

fun delete_nodes :: "nat \<Rightarrow> nat option \<Rightarrow> (nat \<Rightarrow> 'v node option) \<Rightarrow> (nat \<Rightarrow> 'v node option) res" where
  "delete_nodes k None h = Inr h"
| "delete_nodes 0 (Some n) h = Inl UseAfterFree"
| "delete_nodes (Suc k) (Some n) h = (case h n of None \<Rightarrow> Inl UseAfterFree
     | Some nd \<Rightarrow> bindR (delete_nodes k (nd_next nd) h) (\<lambda>h'. Inr (h'(n := None))))"

definition delete_ptr :: "nat option \<Rightarrow> 'v node_queue \<Rightarrow> 'v node_queue res" where
  "delete_ptr p s = bindR (delete_nodes (nq_fresh s) p (nq_heap s)) (\<lambda>h. Inr (s\<lparr>nq_heap := h\<rparr>))"

definition get_tail :: "'v node_queue \<Rightarrow> nat res" where
  "get_tail s = (if nq_tail_locked s then Inl WouldBlock else Inr (nq_tail s))"

definition pop_head :: "'v node_queue \<Rightarrow> (nat option \<times> 'v node_queue) res" where
  "pop_head s = (let old_head = nq_head s; s1 = s\<lparr>nq_head := None\<rparr> in
     bindR (node_at old_head s1) (\<lambda>(n, nd).
       Inr (old_head, s1\<lparr>nq_head := nd_next nd, nq_heap := (nq_heap s1)(n \<mapsto> nd\<lparr>nd_next := None\<rparr>)\<rparr>)))"

text \<open>Locking \<^verbatim>\<open>head_mutex_\<close>, and the end of the scope that holds it.\<close>

definition lock_head :: "'v node_queue \<Rightarrow> 'v node_queue res" where
  "lock_head s = (if nq_head_locked s then Inl WouldBlock else Inr (s\<lparr>nq_head_locked := True\<rparr>))"

definition unlock_head :: "'r \<times> 'v node_queue \<Rightarrow> ('r \<times> 'v node_queue) res" where
  "unlock_head r = Inr (fst r, (snd r)\<lparr>nq_head_locked := False\<rparr>)"

text \<open>\<^verbatim>\<open>value = std::move(*head_->data)\<close>\<close>

definition head_value :: "'v node_queue \<Rightarrow> 'v res" where
  "head_value s = bindR (node_at (nq_head s) s) (\<lambda>(n, nd). deref_ptr (nd_data nd))"

definition wait_for_data :: "'v node_queue \<Rightarrow> 'v node_queue res" where
  "wait_for_data s = bindR (lock_head s) (\<lambda>s1. bindR (get_tail s1) (\<lambda>t. cond_wait (nq_head s1 \<noteq> Some t) (Inr s1)))"

definition wait_pop_head :: "'v node_queue \<Rightarrow> (nat option \<times> 'v node_queue) res" where
  "wait_pop_head s = bindR (wait_for_data s) (\<lambda>s1. bindR (pop_head s1) unlock_head)"

definition wait_pop_head_value :: "'v node_queue \<Rightarrow> ((nat option \<times> 'v) \<times> 'v node_queue) res" where
  "wait_pop_head_value s = bindR (wait_for_data s) (\<lambda>s1. bindR (head_value s1) (\<lambda>v.
     bindR (pop_head s1) (\<lambda>(p, s2). unlock_head ((p, v), s2))))"

definition try_pop_head :: "'v node_queue \<Rightarrow> (nat option \<times> 'v node_queue) res" where
  "try_pop_head s = bindR (lock_head s) (\<lambda>s1. bindR (get_tail s1) (\<lambda>t.
     if nq_head s1 = Some t then unlock_head (None, s1) else bindR (pop_head s1) unlock_head))"

text \<open>The second component is what \<^verbatim>\<open>value\<close> is assigned, if it is.\<close>

definition try_pop_head_value :: "'v node_queue \<Rightarrow> ((nat option \<times> 'v option) \<times> 'v node_queue) res" where
  "try_pop_head_value s = bindR (lock_head s) (\<lambda>s1. bindR (get_tail s1) (\<lambda>t.
     if nq_head s1 = Some t then unlock_head ((None, None), s1)
     else bindR (head_value s1) (\<lambda>v. bindR (pop_head s1) (\<lambda>(p, s2). unlock_head ((p, Some v), s2)))))"

definition node_queue_wait_and_pop_ptr :: "'v node_queue \<Rightarrow> ('v shared_ptr \<times> 'v node_queue) res" where
  "node_queue_wait_and_pop_ptr s = bindR (wait_pop_head s) (\<lambda>(old_head, s1). bindR (node_at old_head s1) (\<lambda>(n, nd).
     bindR (delete_ptr old_head s1) (\<lambda>s2. Inr (nd_data nd, s2))))"

definition node_queue_push :: "'v \<Rightarrow> 'v node_queue \<Rightarrow> 'v node_queue res" where
  "node_queue_push new_value s = (let p = nq_fresh s;
       s1 = s\<lparr>nq_heap := (nq_heap s)(p \<mapsto> new_node), nq_fresh := p + 1\<rparr> in
     if nq_tail_locked s1 then Inl WouldBlock else
     bindR (node_at (Some (nq_tail s1)) s1) (\<lambda>(n, nd).
       bindR (delete_ptr (nd_next nd) (s1\<lparr>nq_heap := (nq_heap s1)(n \<mapsto> \<lparr>nd_data = Some new_value, nd_next = Some p\<rparr>)\<rparr>)) (\<lambda>s2.
         Inr (s2\<lparr>nq_tail := p\<rparr>))))"

definition node_queue_wait_and_pop :: "'v node_queue \<Rightarrow> ('v \<times> 'v node_queue) res" where
  "node_queue_wait_and_pop s = bindR (wait_pop_head_value s) (\<lambda>((old_head, v), s1).
     bindR (delete_ptr old_head s1) (\<lambda>s2. Inr (v, s2)))"

definition node_queue_try_pop :: "'v node_queue \<Rightarrow> ('v shared_ptr \<times> 'v node_queue) res" where
  "node_queue_try_pop s = bindR (try_pop_head s) (\<lambda>(old_head, s1).
     if old_head = None then Inr (None, s1)
     else bindR (node_at old_head s1) (\<lambda>(n, nd). bindR (delete_ptr old_head s1) (\<lambda>s2. Inr (nd_data nd, s2))))"

definition node_queue_empty :: "'v node_queue \<Rightarrow> (bool \<times> 'v node_queue) res" where
  "node_queue_empty s = bindR (lock_head s) (\<lambda>s1. bindR (get_tail s1) (\<lambda>t. unlock_head (nq_head s1 = Some t, s1)))"

definition node_queue_delete :: "'v node_queue \<Rightarrow> 'v node_queue res" where
  "node_queue_delete s = delete_ptr (nq_head s) s"

section \<open>The nodes of a queue\<close>

fun chain_nodes :: "nat \<Rightarrow> (nat \<Rightarrow> 'v node option) \<Rightarrow> nat option \<Rightarrow> nat \<Rightarrow> nat list" where
  "chain_nodes (Suc k) h (Some n) q = (if n = q then [] else n # chain_nodes k h (Option.bind (h n) nd_next) q)"
| "chain_nodes k h p q = []"

definition nq_nodes :: "'v node_queue \<Rightarrow> nat list" where
  "nq_nodes s = chain_nodes (nq_fresh s) (nq_heap s) (nq_head s) (nq_tail s)"

definition node_value :: "'v node_queue \<Rightarrow> nat \<Rightarrow> 'v option" where
  "node_value s n = Option.bind (nq_heap s n) nd_data"

definition nq_content :: "'v node_queue \<Rightarrow> 'v list" where
  "nq_content s = map (the \<circ> node_value s) (nq_nodes s)"

text \<open>A queue in order whose values are in the nodes \<open>ns\<close>.\<close>

definition nq_chain :: "nat list \<Rightarrow> 'v node_queue \<Rightarrow> bool" where
  "nq_chain ns s \<longleftrightarrow> chain (nq_heap s) (nq_head s) ns (nq_tail s) \<and> distinct (ns @ [nq_tail s]) \<and>
     nq_heap s (nq_tail s) = Some new_node \<and> dom (nq_heap s) = set (ns @ [nq_tail s]) \<and>
     (\<forall>n \<in> set (ns @ [nq_tail s]). n < nq_fresh s) \<and> (\<forall>n \<in> set ns. node_value s n \<noteq> None) \<and>
     \<not> nq_head_locked s \<and> \<not> nq_tail_locked s"

definition nq_inv :: "'v node_queue \<Rightarrow> bool" where
  "nq_inv s \<longleftrightarrow> nq_chain (nq_nodes s) s"

lemma chain_nodes_eq:
  "chain h p ns q \<Longrightarrow> q \<notin> set ns \<Longrightarrow> length ns < k \<Longrightarrow> chain_nodes k h p q = ns"
proof (induction ns arbitrary: p k)
  case Nil
  then show ?case by (cases k) simp_all
next
  case (Cons n ns)
  then obtain j where "k = Suc j" by (cases k) simp_all
  with Cons show ?case by auto
qed

lemma nodes_below: "distinct ns \<Longrightarrow> \<forall>n \<in> set ns. n < (k :: nat) \<Longrightarrow> length ns \<le> k"
  using card_mono [of "{..<k}" "set ns"] by (auto simp: distinct_card)

lemma nq_nodes_eq: "nq_chain ns s \<Longrightarrow> nq_nodes s = ns"
  using nodes_below [of "ns @ [nq_tail s]" "nq_fresh s"]
  by (auto simp: nq_chain_def nq_nodes_def intro!: chain_nodes_eq)

lemma nq_chain_inv: "nq_chain ns s \<Longrightarrow> nq_inv s \<and> nq_content s = map (the \<circ> node_value s) ns"
  using nq_nodes_eq [of ns s] by (simp add: nq_inv_def nq_content_def)

lemma nq_new: "nq_inv (node_queue_new :: 'v node_queue) \<and> nq_content (node_queue_new :: 'v node_queue) = []"
proof -
  have "nq_chain [] (node_queue_new :: 'v node_queue)" by (auto simp: nq_chain_def node_queue_new_def)
  from nq_chain_inv [OF this] show ?thesis by simp
qed

lemma nq_invE:
  assumes "nq_inv s"
  obtains ns where "nq_chain ns s" and "nq_content s = map (the \<circ> node_value s) ns"
  using assms by (auto simp: nq_inv_def nq_content_def)


section \<open>The operations on a queue in order\<close>

lemmas nq_defs = lock_head_def unlock_head_def get_tail_def pop_head_def head_value_def node_at_def
  cond_wait_def deref_ptr_def wait_for_data_def wait_pop_head_def wait_pop_head_value_def try_pop_head_def try_pop_head_value_def

text \<open>\<open>push\<close> turns the dummy into the last node of the chain and appends a new dummy.\<close>

lemma push_chain:
  assumes "nq_chain ns s"
  shows "\<exists>s'. node_queue_push v s = Inr s' \<and> nq_chain (ns @ [nq_tail s]) s' \<and>
    map (the \<circ> node_value s') (ns @ [nq_tail s]) = map (the \<circ> node_value s) ns @ [v]"
proof -
  define p q where "p = nq_fresh s" and "q = nq_tail s"
  define s' where "s' = s\<lparr>nq_heap := (nq_heap s)(p \<mapsto> new_node, q \<mapsto> \<lparr>nd_data = Some v, nd_next = Some p\<rparr>),
    nq_fresh := p + 1, nq_tail := p\<rparr>"
  note A = assms [unfolded nq_chain_def, folded p_def q_def]
  have new: "p \<noteq> q" "p \<notin> set ns" "q \<notin> set ns" "nq_heap s q = Some new_node" using A by auto
  have "node_queue_push v s = Inr s'"
    using A new by (simp add: node_queue_push_def Let_def node_at_def delete_ptr_def p_def q_def s'_def new_node_def)
  moreover have "chain (nq_heap s') (nq_head s) (ns @ [q]) p"
    using new A by (intro chain_append [where nd = "\<lparr>nd_data = Some v, nd_next = Some p\<rparr>"]) (simp_all add: s'_def)
  then have "nq_chain (ns @ [q]) s'"
    using A new unfolding nq_chain_def by (auto simp: s'_def node_value_def less_Suc_eq)
  moreover have "map (the \<circ> node_value s') (ns @ [q]) = map (the \<circ> node_value s) ns @ [v]"
    using new by (auto simp: s'_def node_value_def)
  ultimately show ?thesis unfolding q_def by blast
qed

text \<open>A queue without values, and the first node of one that has some.\<close>

lemma chain_empty: "nq_chain [] s \<Longrightarrow> nq_head s = Some (nq_tail s)"
  by (simp add: nq_chain_def)

lemma chain_front:
  assumes "nq_chain (n # ns) s"
  obtains nd v where "nq_head s = Some n" "n \<noteq> nq_tail s" "nq_heap s n = Some nd" "nd_data nd = Some v"
    "node_value s n = Some v" "0 < nq_fresh s"
proof -
  obtain nd where nd: "nq_heap s n = Some nd" using assms by (auto simp: nq_chain_def)
  moreover obtain v where "node_value s n = Some v" using assms by (auto simp: nq_chain_def)
  ultimately show ?thesis using assms that by (fastforce simp: nq_chain_def node_value_def)
qed

text \<open>The queue without its first node.\<close>

definition without_front :: "nat \<Rightarrow> 'v node \<Rightarrow> 'v node_queue \<Rightarrow> 'v node_queue" where
  "without_front n nd s = s\<lparr>nq_head := nd_next nd, nq_heap := (nq_heap s)(n := None)\<rparr>"

lemma without_front_chain:
  assumes "nq_chain (n # ns) s" and "nq_heap s n = Some nd"
  shows "nq_chain ns (without_front n nd s) \<and>
    map (the \<circ> node_value (without_front n nd s)) ns = map (the \<circ> node_value s) ns"
  using assms by (auto simp: nq_chain_def without_front_def node_value_def)

text \<open>What the three ways of popping do when there is something.\<close>

lemma popped_steps:
  assumes "nq_chain (n # ns) s" and "nq_heap s n = Some nd" and "nd_data nd = Some v"
  shows "node_queue_wait_and_pop s = Inr (v, without_front n nd s)"
    and "node_queue_wait_and_pop_ptr s = Inr (Some v, without_front n nd s)"
    and "node_queue_try_pop s = Inr (Some v, without_front n nd s)"
proof -
  obtain k where f: "nq_fresh s = Suc k" and h: "nq_head s = Some n" "n \<noteq> nq_tail s"
    using chain_front [OF assms(1)] by (metis gr0_implies_Suc)
  have un: "\<not> nq_head_locked s" "\<not> nq_tail_locked s" using assms(1) by (simp_all add: nq_chain_def)
  note run = nq_defs node_queue_wait_and_pop_def node_queue_wait_and_pop_ptr_def node_queue_try_pop_def
    delete_ptr_def Let_def without_front_def
  show "node_queue_wait_and_pop s = Inr (v, without_front n nd s)"
    "node_queue_wait_and_pop_ptr s = Inr (Some v, without_front n nd s)"
    "node_queue_try_pop s = Inr (Some v, without_front n nd s)"
    using f h un assms(2,3) by (simp_all add: run)
qed

section \<open>The interface\<close>

interpretation nq: full_queue node_queue_push nq_content nq_inv node_queue_try_pop node_queue_wait_and_pop
proof unfold_locales
  fix s :: "'v node_queue" and x
  assume "nq_inv s"
  then obtain ns where ns: "nq_chain ns s" "nq_content s = map (the \<circ> node_value s) ns" by (rule nq_invE)
  obtain s' where "node_queue_push x s = Inr s'" "nq_chain (ns @ [nq_tail s]) s'"
    "map (the \<circ> node_value s') (ns @ [nq_tail s]) = nq_content s @ [x]" using push_chain [OF ns(1), of x] ns(2) by auto
  with nq_chain_inv [of "ns @ [nq_tail s]" s']
  show "\<exists>s'. node_queue_push x s = Inr s' \<and> nq_inv s' \<and> nq_content s' = nq_content s @ [x]" by simp
next
  fix s :: "'v node_queue"
  assume inv: "nq_inv s" and none: "nq_content s = []"
  then have h: "nq_head s = Some (nq_tail s)" "\<not> nq_head_locked s" "\<not> nq_tail_locked s"
    using chain_empty [of s] by (auto simp: nq_inv_def nq_content_def nq_chain_def)
  then have "node_queue_try_pop s = Inr (None, s)"
    by (simp add: nq_defs node_queue_try_pop_def)
  then show "\<exists>s'. node_queue_try_pop s = Inr (None, s') \<and> nq_inv s' \<and> nq_content s' = []" using inv none by blast
  show "node_queue_wait_and_pop s = Inl WouldBlock" using h by (simp add: nq_defs node_queue_wait_and_pop_def)
next
  fix s :: "'v node_queue" and x c
  assume "nq_inv s" and c: "nq_content s = x # c"
  then obtain n ns where ns: "nq_chain (n # ns) s" "the (node_value s n) = x" "map (the \<circ> node_value s) ns = c"
    by (elim nq_invE) auto
  obtain nd where nd: "nq_heap s n = Some nd" "nd_data nd = Some x"
    using chain_front [OF ns(1)] ns(2) by (metis option.sel)
  note front = popped_steps [OF ns(1) nd] without_front_chain [OF ns(1) nd(1)]
  with nq_chain_inv [of ns "without_front n nd s"] ns(3)
  show "\<exists>s'. node_queue_try_pop s = Inr (Some x, s') \<and> nq_inv s' \<and> nq_content s' = c"
    "\<exists>s'. node_queue_wait_and_pop s = Inr (x, s') \<and> nq_inv s' \<and> nq_content s' = c" by simp_all
qed

text \<open>\<^verbatim>\<open>empty\<close> tells whether there is no value; the overload of \<^verbatim>\<open>try_pop_head\<close> that no public function calls agrees
  with \<^verbatim>\<open>try_pop\<close>.\<close>

lemma node_queue_empty_iff:
  assumes "nq_inv s"
  shows "node_queue_empty s = Inr (nq_content s = [], s)"
proof -
  obtain ns where ns: "nq_chain ns s" "nq_content s = map (the \<circ> node_value s) ns" using assms by (rule nq_invE)
  have "\<not> nq_head_locked s" "\<not> nq_tail_locked s" using ns(1) by (simp_all add: nq_chain_def)
  moreover have "nq_head s = Some (nq_tail s) \<longleftrightarrow> ns = []" using ns(1) by (cases ns) (auto simp: nq_chain_def)
  ultimately show ?thesis using ns(2) by (simp add: node_queue_empty_def nq_defs)
qed

lemma node_queue_wait_and_pop_ptr_agrees:
  assumes "nq_inv s"
  shows "node_queue_wait_and_pop_ptr s = bindR (node_queue_wait_and_pop s) (\<lambda>(v, s'). Inr (Some v, s'))"
proof -
  obtain ns where ns: "nq_chain ns s" using assms by (rule nq_invE)
  have un: "\<not> nq_head_locked s" "\<not> nq_tail_locked s" using ns(1) by (simp_all add: nq_chain_def)
  show ?thesis
  proof (cases ns)
    case Nil
    then show ?thesis using ns un chain_empty [of s]
      by (simp add: nq_defs node_queue_wait_and_pop_def node_queue_wait_and_pop_ptr_def)
  next
    case (Cons n ms)
    then have c: "nq_chain (n # ms) s" using ns by simp
    obtain nd v where "nq_heap s n = Some nd" "nd_data nd = Some v" using chain_front [OF c] by metis
    with popped_steps [OF c] show ?thesis by simp
  qed
qed

lemma try_pop_head_value_cases:
  assumes "nq_inv s"
  shows "\<exists>p s'. try_pop_head_value s = Inr ((p, case nq_content s of [] \<Rightarrow> None | v # _ \<Rightarrow> Some v), s') \<and>
    try_pop_head s = Inr (p, s')"
proof -
  obtain ns where ns: "nq_chain ns s" "nq_content s = map (the \<circ> node_value s) ns" using assms by (rule nq_invE)
  have un: "\<not> nq_head_locked s" "\<not> nq_tail_locked s" using ns(1) by (simp_all add: nq_chain_def)
  show ?thesis
  proof (cases ns)
    case Nil
    then show ?thesis using ns un chain_empty [of s] by (simp add: nq_defs)
  next
    case (Cons n ms)
    then obtain nd v where "nq_head s = Some n" "n \<noteq> nq_tail s" "nq_heap s n = Some nd" "nd_data nd = Some v"
      "node_value s n = Some v" using ns(1) chain_front [of n ms s] by metis
    then show ?thesis using ns(2) un Cons by (simp add: nq_defs Let_def)
  qed
qed

section \<open>The destructor\<close>

lemma delete_chain:
  "chain h p ns q \<Longrightarrow> h q = Some new_node \<Longrightarrow> length ns + 1 \<le> k \<Longrightarrow> delete_nodes k p h = Inr (\<lambda>n. if n \<in> set (ns @ [q]) then None else h n)"
proof (induction ns arbitrary: p k)
  case Nil
  then obtain j where "k = Suc j" by (cases k) simp_all
  with Nil show ?case by (cases j) (auto simp: new_node_def)
next
  case (Cons n ns)
  then obtain j where "k = Suc j" by (cases k) simp_all
  with Cons show ?case by (auto simp: fun_eq_iff)
qed

text \<open>The destructor of a queue in order deletes every node of the heap, each once.\<close>

theorem node_queue_delete_frees:
  assumes "nq_inv s"
  shows "\<exists>s'. node_queue_delete s = Inr s' \<and> nq_heap s' = (\<lambda>_. None)"
proof -
  obtain ns where ns: "nq_chain ns s" using assms by (rule nq_invE)
  then have d: "dom (nq_heap s) = set (ns @ [nq_tail s])" and len: "length ns + 1 \<le> nq_fresh s"
    using nodes_below [of "ns @ [nq_tail s]" "nq_fresh s"] by (simp_all add: nq_chain_def)
  have "delete_nodes (nq_fresh s) (nq_head s) (nq_heap s) = Inr (\<lambda>n. if n \<in> set (ns @ [nq_tail s]) then None else nq_heap s n)"
    using ns len by (intro delete_chain) (simp_all add: nq_chain_def)
  moreover have "(\<lambda>n. if n \<in> set (ns @ [nq_tail s]) then None else nq_heap s n) = (\<lambda>_. None)"
    using d by (auto simp: fun_eq_iff)
  ultimately show ?thesis by (simp add: node_queue_delete_def delete_ptr_def)
qed

text \<open>(C40) \<^verbatim>\<open>threadsafe_queue_version_2\<close> on its heap of nodes: any sequence of \<^verbatim>\<open>push\<close>, \<^verbatim>\<open>try_pop\<close> and \<^verbatim>\<open>wait_and_pop(T&)\<close> on
  a new queue hands out what the list specification does and blocks exactly when it does. In every queue so
  reached \<^verbatim>\<open>empty\<close> tells whether there is no value and changes nothing, \<^verbatim>\<open>wait_and_pop()\<close> does what \<^verbatim>\<open>wait_and_pop(T&)\<close>
  does, and the destructor deletes every node of the heap exactly once. No node is read after its deletion.\<close>

theorem node_queue_refines_fifo:
  fixes ops :: "'v queue_op list"
  shows "case queue_spec ops [] of
     Inl e \<Rightarrow> run_out (queue_step node_queue_push node_queue_try_pop node_queue_wait_and_pop) ops node_queue_new = Inl e
   | Inr (out, c) \<Rightarrow> \<exists>s s'. run_out (queue_step node_queue_push node_queue_try_pop node_queue_wait_and_pop) ops node_queue_new =
       Inr (out, s) \<and> nq_content s = c \<and> node_queue_empty s = Inr (c = [], s) \<and>
       node_queue_wait_and_pop_ptr s = bindR (node_queue_wait_and_pop s) (\<lambda>(v, s'). Inr (Some v, s')) \<and>
       node_queue_delete s = Inr s' \<and> nq_heap s' = (\<lambda>_. None)"
proof -
  obtain s0 :: "'v node_queue" where s0: "s0 = node_queue_new" by simp
  have "nq_inv s0" "nq_content s0 = []" using nq_new unfolding s0 by blast+
  from nq.run_refines [OF this(1), of ops] this(2)
  have run: "case queue_spec ops [] of
     Inl e \<Rightarrow> run_out (queue_step node_queue_push node_queue_try_pop node_queue_wait_and_pop) ops s0 = Inl e
   | Inr (out, c) \<Rightarrow> \<exists>s. run_out (queue_step node_queue_push node_queue_try_pop node_queue_wait_and_pop) ops s0 = Inr (out, s) \<and>
       nq_inv s \<and> nq_content s = c" by simp
  have "node_queue_empty s = Inr (nq_content s = [], s) \<and>
       node_queue_wait_and_pop_ptr s = bindR (node_queue_wait_and_pop s) (\<lambda>(v, s'). Inr (Some v, s')) \<and>
       (\<exists>s'. node_queue_delete s = Inr s' \<and> nq_heap s' = (\<lambda>_. None))" if "nq_inv s" for s :: "'v node_queue"
    using node_queue_empty_iff [OF that] node_queue_wait_and_pop_ptr_agrees [OF that] node_queue_delete_frees [OF that] by simp
  with run show ?thesis unfolding s0 [symmetric] by (fastforce split: sum.splits)
qed

end
