(* ===== verification/Node_Queue_Program.thy ===== *)
theory Node_Queue_Program
  imports Node_Queue Timestamps
begin

text \<open>
  The program of src/thread/threadsafe_queue_test.cc: one thread pushes the numbers below a bound into a
  linked queue with \<^verbatim>\<open>push\<close>, another takes as many with \<^verbatim>\<open>wait_and_pop\<close>, and \<^verbatim>\<open>main\<close> joins both and prints the
  time. The threads' calls are the steps of \<open>Linked_Queue\<close>; the bound is the parameter \<open>n\<close>, in the source ten
  million, and a loop variable, a \<open>nat\<close> here, counts to it and so fits an \<^verbatim>\<open>int\<close>. The consumer gets the numbers
  in order and a run can only get stuck in one way, with the consumer asleep and the producer gone; that
  way is open for every positive \<open>n\<close>, since \<^verbatim>\<open>push\<close> notifies without the mutex of the waiting thread.
\<close>

section \<open>Model\<close>

text \<open>Thread 1 runs \<^verbatim>\<open>work1\<close>, thread 2 \<^verbatim>\<open>work2\<close>; each has a loop variable \<^verbatim>\<open>i\<close>.\<close>

record node_main =
  nm_queue :: "nat lq"
  nm_i1 :: nat
  nm_i2 :: nat

definition node_main_start :: node_main where
  "node_main_start = \<lparr>nm_queue = lq_start, nm_i1 = 0, nm_i2 = 0\<rparr>"

text \<open>Inside \<^verbatim>\<open>push(x)\<close>, and inside \<^verbatim>\<open>wait_and_pop()\<close>.\<close>

fun in_push :: "'v \<Rightarrow> 'v lq_pc \<Rightarrow> bool" where
  "in_push i (P_new x p) = (x = i)"
| "in_push i (P_locked x p) = (x = i)"
| "in_push i (P_data x p) = (x = i)"
| "in_push i (P_next x p) = (x = i)"
| "in_push i P_notify = True"
| "in_push i _ = False"

fun in_pop :: "'v lq_pc \<Rightarrow> bool" where
  "in_pop (T_locked k) = (k = Wait_pop)"
| "in_pop (T_tail k q) = (k = Wait_pop)"
| "in_pop W_drowsy = True"
| "in_pop W_asleep = True"
| "in_pop W_woken = True"
| "in_pop (T_moved h i) = True"
| "in_pop (T_done h i) = True"
| "in_pop (T_ret h i) = True"
| "in_pop _ = False"

text \<open>A step of a thread is a step of the queue in which that thread moves on.\<close>

inductive node_work1 :: "nat \<Rightarrow> node_main \<Rightarrow> node_main \<Rightarrow> bool" for n where
  call_push: "nm_i1 s < n \<Longrightarrow> lq_pc (nm_queue s) 1 = Q_idle \<Longrightarrow> lq_step (nm_queue s) q \<Longrightarrow>
     in_push (nm_i1 s) (lq_pc q 1) \<Longrightarrow> node_work1 n s (s\<lparr>nm_queue := q\<rparr>)"
| go_push: "in_push x (lq_pc (nm_queue s) 1) \<Longrightarrow> lq_step (nm_queue s) q \<Longrightarrow>
     lq_pc q 1 \<noteq> lq_pc (nm_queue s) 1 \<Longrightarrow> in_push x (lq_pc q 1) \<Longrightarrow> node_work1 n s (s\<lparr>nm_queue := q\<rparr>)"
| end_push: "lq_pc (nm_queue s) 1 = P_notify \<Longrightarrow> lq_step (nm_queue s) q \<Longrightarrow>
     lq_pc q 1 = Q_idle \<Longrightarrow> node_work1 n s (s\<lparr>nm_queue := q, nm_i1 := nm_i1 s + 1\<rparr>)"

inductive node_work2 :: "nat \<Rightarrow> node_main \<Rightarrow> node_main \<Rightarrow> bool" for n where
  call_pop: "nm_i2 s < n \<Longrightarrow> lq_pc (nm_queue s) 2 = Q_idle \<Longrightarrow> lq_step (nm_queue s) q \<Longrightarrow>
     lq_pc q 2 = T_locked Wait_pop \<Longrightarrow> node_work2 n s (s\<lparr>nm_queue := q\<rparr>)"
| go_pop: "in_pop (lq_pc (nm_queue s) 2) \<Longrightarrow> lq_pc (nm_queue s) 2 \<noteq> W_asleep \<Longrightarrow> lq_step (nm_queue s) q \<Longrightarrow>
     lq_pc q 2 \<noteq> lq_pc (nm_queue s) 2 \<Longrightarrow> in_pop (lq_pc q 2) \<Longrightarrow> node_work2 n s (s\<lparr>nm_queue := q\<rparr>)"
| end_pop: "in_pop (lq_pc (nm_queue s) 2) \<Longrightarrow> lq_step (nm_queue s) q \<Longrightarrow>
     lq_pc q 2 = Q_idle \<Longrightarrow> node_work2 n s (s\<lparr>nm_queue := q, nm_i2 := nm_i2 s + 1\<rparr>)"

definition node_work :: "nat \<Rightarrow> node_main \<Rightarrow> node_main \<Rightarrow> bool" where
  "node_work n s t \<longleftrightarrow> node_work1 n s t \<or> node_work2 n s t"

definition node_spurious :: "node_main \<Rightarrow> node_main \<Rightarrow> bool" where
  "node_spurious s t \<longleftrightarrow> lq_pc (nm_queue s) 2 = W_asleep \<and> t = s\<lparr>nm_queue := lq_goto 2 W_woken (nm_queue s)\<rparr>"

definition node_main_step :: "nat \<Rightarrow> node_main \<Rightarrow> node_main \<Rightarrow> bool" where
  "node_main_step n s t \<longleftrightarrow> node_work n s t \<or> node_spurious s t"

text \<open>Both \<^verbatim>\<open>join\<close>s have returned.\<close>

definition node_joined :: "nat \<Rightarrow> node_main \<Rightarrow> bool" where
  "node_joined n s \<longleftrightarrow> lq_pc (nm_queue s) 1 = Q_idle \<and> \<not> nm_i1 s < n \<and> lq_pc (nm_queue s) 2 = Q_idle \<and> \<not> nm_i2 s < n"

text \<open>The seconds \<^verbatim>\<open>main\<close> prints.\<close>

definition node_main_cost :: "timestamp \<Rightarrow> timestamp \<Rightarrow> rat" where
  "node_main_cost began ended = timeDiffence ended began"

section \<open>What has gone through the queue\<close>

definition nm_at :: "nat \<Rightarrow> node_main \<Rightarrow> bool" where
  "nm_at n s \<longleftrightarrow> (\<forall>t. t \<noteq> 1 \<and> t \<noteq> 2 \<longrightarrow> lq_pc (nm_queue s) t = Q_idle) \<and>
     (lq_pc (nm_queue s) 1 = Q_idle \<or> in_push (nm_i1 s) (lq_pc (nm_queue s) 1) \<and> nm_i1 s < n) \<and> nm_i1 s \<le> n \<and>
     (lq_pc (nm_queue s) 2 = Q_idle \<or> in_pop (lq_pc (nm_queue s) 2) \<and> nm_i2 s < n) \<and> nm_i2 s \<le> n \<and>
     lq_pushed (nm_queue s) = [0..<nm_i1 s + of_bool (lq_pc (nm_queue s) 1 = P_notify)] \<and>
     lq_returned (nm_queue s) = map (\<lambda>i. (i, Some i)) [0..<nm_i2 s] \<and>
     ticket (lq_pc (nm_queue s) 2) \<in> {None, Some (nm_i2 s)} \<and>
     length (lq_popped (nm_queue s)) = nm_i2 s + of_bool (ticket (lq_pc (nm_queue s) 2) \<noteq> None)"

definition nm_inv :: "nat \<Rightarrow> node_main \<Rightarrow> bool" where
  "nm_inv n s \<longleftrightarrow> (\<exists>ns. lq_ok ns (nm_queue s)) \<and> nm_at n s"

lemmas nm_inv_defs = nm_inv_def nm_at_def

inductive_cases node_work1E: "node_work1 n s t"
inductive_cases node_work2E: "node_work2 n s t"

lemma node_work_lq: "node_main_step n s t \<Longrightarrow> lq_step (nm_queue s) (nm_queue t)"
  unfolding node_main_step_def node_work_def node_spurious_def
  by (auto elim: node_work1E node_work2E intro: lq_step.w_spurious)

lemma node_ok_step: "node_main_step n s t \<Longrightarrow> nm_inv n s \<Longrightarrow> \<exists>ns. lq_ok ns (nm_queue t)"
  using lq_ok_step [OF _ node_work_lq] by (auto simp: nm_inv_def)

lemma popped_upt: "nm_inv n s \<Longrightarrow> i < length (lq_popped (nm_queue s)) \<Longrightarrow> lq_popped (nm_queue s) ! i = i"
proof -
  assume inv: "nm_inv n s" and i: "i < length (lq_popped (nm_queue s))"
  then obtain ns where "lq_ok ns (nm_queue s)" by (auto simp: nm_inv_def)
  then obtain q where q: "lq_pushed (nm_queue s) = lq_popped (nm_queue s) @ q" by (auto simp: lq_ok_def lq_queue_def)
  have "lq_popped (nm_queue s) ! i = lq_pushed (nm_queue s) ! i" using i q by (simp add: nth_append)
  also have "\<dots> = i"
  proof -
    have "i < length (lq_pushed (nm_queue s))" using i q by simp
    then show ?thesis using inv by (simp add: nm_inv_defs)
  qed
  finally show ?thesis .
qed

text \<open>The node a pop returns holds the value of that pop.\<close>

lemma returned_value:
  assumes "nm_inv n s" and "lq_pc (nm_queue s) 2 = T_ret h i" and "lq_heap (nm_queue s) h = Some nd"
  shows "i = nm_i2 s \<and> nd_data nd = Some i"
proof -
  obtain ns where "lq_ok ns (nm_queue s)" using assms(1) by (auto simp: nm_inv_def)
  then have "pc_ok ns (nm_queue s) (T_ret h i)" using assms(2) unfolding lq_ok_def by metis
  then have "nd_data nd = Some (lq_popped (nm_queue s) ! i)" "i < length (lq_popped (nm_queue s))"
    using assms(3) by (auto simp: old_node_def)
  with popped_upt [OF assms(1)] assms(1,2) show ?thesis by (simp add: nm_inv_defs)
qed

lemma nm_inv_start: "nm_inv n node_main_start"
  using lq_ok_start by (auto simp: nm_inv_defs node_main_start_def lq_start_def)

text \<open>What a step does when it is the thread \<open>t\<close> that moves.\<close>

definition lq_move :: "nat \<Rightarrow> 'v lq \<Rightarrow> 'v lq \<Rightarrow> bool" where
  "lq_move t s s' \<longleftrightarrow> (case lq_pc s t of
       Q_idle \<Rightarrow> (\<exists>x. s' = lq_goto t (P_new x (lq_fresh s)) (s\<lparr>lq_heap := (lq_heap s)(lq_fresh s \<mapsto> new_node), lq_fresh := lq_fresh s + 1\<rparr>)) \<or>
         (\<exists>k. s' = lq_goto t (T_locked k) (s\<lparr>lq_hlock := Some t\<rparr>))
     | P_new x p \<Rightarrow> s' = lq_goto t (P_locked x p) (s\<lparr>lq_tlock := Some t\<rparr>)
     | P_locked x p \<Rightarrow> (\<exists>h. s' = lq_goto t (P_data x p) (s\<lparr>lq_heap := h\<rparr>))
     | P_data x p \<Rightarrow> (\<exists>h. s' = lq_goto t (P_next x p) (s\<lparr>lq_heap := h\<rparr>))
     | P_next x p \<Rightarrow> s' = lq_goto t P_notify (s\<lparr>lq_tail := p, lq_tlock := None, lq_pushed := lq_pushed s @ [x]\<rparr>)
     | P_notify \<Rightarrow> s' = lq_goto t Q_idle s \<or> (\<exists>u. lq_pc s u = W_asleep \<and> s' = lq_goto t Q_idle (lq_goto u W_woken s))
     | T_locked k \<Rightarrow> s' = lq_goto t (T_tail k (lq_tail s)) s
     | T_tail k q \<Rightarrow> k = Try_pop \<and> s' = lq_goto t Q_idle (s\<lparr>lq_hlock := None\<rparr>) \<or> k = Wait_pop \<and> s' = lq_goto t W_drowsy s \<or>
         (\<exists>h v. s' = lq_goto t (T_moved h (length (lq_popped s))) (s\<lparr>lq_head := None, lq_popped := lq_popped s @ [v]\<rparr>))
     | W_drowsy \<Rightarrow> s' = lq_goto t W_asleep (s\<lparr>lq_hlock := None\<rparr>)
     | W_asleep \<Rightarrow> True
     | W_woken \<Rightarrow> s' = lq_goto t (T_locked Wait_pop) (s\<lparr>lq_hlock := Some t\<rparr>)
     | T_moved h i \<Rightarrow> (\<exists>nx hp. s' = lq_goto t (T_done h i) (s\<lparr>lq_head := nx, lq_heap := hp\<rparr>))
     | T_done h i \<Rightarrow> s' = lq_goto t (T_ret h i) (s\<lparr>lq_hlock := None\<rparr>)
     | T_ret h i \<Rightarrow> (\<exists>nd. lq_heap s h = Some nd \<and>
         s' = lq_goto t Q_idle (s\<lparr>lq_heap := (lq_heap s)(h := None), lq_returned := lq_returned s @ [(i, nd_data nd)]\<rparr>)))"

lemma lq_step_move:
  assumes "lq_step s s'" and "lq_pc s' t \<noteq> lq_pc s t"
  shows "lq_move t s s'"
  using assms by (cases rule: lq_step.cases) (simp_all add: lq_move_def lq_goto_def split: if_splits; blast)+

lemma asleep_stays: "lq_step s s' \<Longrightarrow> lq_pc s t = W_asleep \<Longrightarrow> lq_pc s' t \<in> {W_asleep, W_woken}"
  by (induction rule: lq_step.induct) (auto simp: lq_goto_def)

lemma nm_at_push_move:
  assumes "lq_move 1 (nm_queue s) q" "in_push x (lq_pc (nm_queue s) 1)" "in_push x (lq_pc q 1)" "nm_at n s"
  shows "nm_at n (s\<lparr>nm_queue := q\<rparr>)"
  by (cases "lq_pc (nm_queue s) 1") (use assms in \<open>simp_all add: nm_at_def lq_move_def lq_goto_def, (elim exE disjE conjE, simp_all)+\<close>)

lemma nm_at_pop_move:
  assumes "lq_move 2 (nm_queue s) q" "in_pop (lq_pc (nm_queue s) 2)" "lq_pc (nm_queue s) 2 \<noteq> W_asleep"
    "in_pop (lq_pc q 2)" "nm_at n s"
  shows "nm_at n (s\<lparr>nm_queue := q\<rparr>)"
  by (cases "lq_pc (nm_queue s) 2") (use assms in \<open>simp_all add: nm_at_def lq_move_def lq_goto_def, (elim exE disjE conjE, simp_all)+\<close>)

lemma nm_at_work1:
  assumes "node_work1 n s t" and at: "nm_at n s"
  shows "nm_at n t"
  using assms(1)
proof cases
  case (call_push q)
  then have "lq_move 1 (nm_queue s) q" by (intro lq_step_move) auto
  then show ?thesis using at call_push by (auto simp: nm_at_def lq_move_def lq_goto_def)
next
  case (go_push x q)
  then have "lq_move 1 (nm_queue s) q" by (intro lq_step_move) auto
  from nm_at_push_move [OF this go_push(2,5) at] go_push(1) show ?thesis by simp
next
  case (end_push q)
  then have "lq_move 1 (nm_queue s) q" by (intro lq_step_move) auto
  then consider "q = lq_goto 1 Q_idle (nm_queue s)"
    | u where "lq_pc (nm_queue s) u = W_asleep" "q = lq_goto 1 Q_idle (lq_goto u W_woken (nm_queue s))"
    using end_push(2) by (auto simp: lq_move_def)
  then show ?thesis
  proof cases
    case 1
    then show ?thesis using at end_push(1,2) by (simp add: nm_at_def lq_goto_def)
  next
    case (2 u)
    then have "u = 2" using at end_push(2) by (cases "u = 1"; cases "u = 2") (simp_all add: nm_at_def)
    then show ?thesis using at end_push(1,2) 2 by (simp add: nm_at_def lq_goto_def)
  qed
qed

lemma nm_at_work2:
  assumes "node_work2 n s t" and inv: "nm_inv n s"
  shows "nm_at n t"
  using assms(1)
proof cases
  case (call_pop q)
  then have "lq_move 2 (nm_queue s) q" by (intro lq_step_move) auto
  then show ?thesis using inv call_pop by (auto simp: nm_inv_defs lq_move_def lq_goto_def)
next
  case (go_pop q)
  then have "lq_move 2 (nm_queue s) q" by (intro lq_step_move) auto
  from nm_at_pop_move [OF this go_pop(2,3,6)] inv go_pop(1) show ?thesis by (simp add: nm_inv_def)
next
  case (end_pop q)
  then have move: "lq_move 2 (nm_queue s) q" by (intro lq_step_move) auto
  have "lq_pc (nm_queue s) 2 \<noteq> W_asleep" using asleep_stays [OF end_pop(3), of 2] end_pop(4) by auto
  then obtain h i where pc: "lq_pc (nm_queue s) 2 = T_ret h i"
    using move end_pop(2,4) by (cases "lq_pc (nm_queue s) 2") (auto simp: lq_move_def lq_goto_def)
  with move returned_value [OF inv pc] inv end_pop(1) show ?thesis by (auto simp: nm_inv_defs lq_move_def lq_goto_def)
qed

lemma nm_at_spurious: "node_spurious s t \<Longrightarrow> nm_at n s \<Longrightarrow> nm_at n t"
  by (auto simp: nm_at_def lq_goto_def node_spurious_def)

lemma nm_inv_step: "nm_inv n s \<Longrightarrow> node_main_step n s t \<Longrightarrow> nm_inv n t"
  using node_ok_step [of n s t] nm_at_work1 [of n s t] nm_at_work2 [of n s t] nm_at_spurious [of s t n]
  unfolding nm_inv_def node_main_step_def node_work_def by blast

lemma nm_inv_reach: "reach (node_main_step n) node_main_start s \<Longrightarrow> nm_inv n s"
  by (erule reach_invariant) (auto intro: nm_inv_start nm_inv_step)

text \<open>In every interleaving the calls of \<^verbatim>\<open>wait_and_pop\<close> return 0, 1, 2 and so on.\<close>

lemma work2_gets_numbers:
  assumes "reach (node_main_step n) node_main_start s"
  shows "map snd (lq_returned (nm_queue s)) = map Some [0..<nm_i2 s] \<and> nm_i2 s \<le> n \<and>
    (node_joined n s \<longrightarrow> map snd (lq_returned (nm_queue s)) = map Some [0..<n] \<and> lq_popped (nm_queue s) = lq_pushed (nm_queue s))"
proof -
  have inv: "nm_inv n s" using assms by (rule nm_inv_reach)
  then obtain ns where "lq_ok ns (nm_queue s)" by (auto simp: nm_inv_def)
  then obtain q where q: "lq_pushed (nm_queue s) = lq_popped (nm_queue s) @ q" by (auto simp: lq_ok_def lq_queue_def)
  have "q = []" if "node_joined n s"
  proof -
    have "length (lq_pushed (nm_queue s)) = n" "length (lq_popped (nm_queue s)) = n"
      using inv that by (auto simp: nm_inv_defs node_joined_def)
    with q show ?thesis by simp
  qed
  then show ?thesis using inv q by (auto simp: nm_inv_defs node_joined_def comp_def)
qed

section \<open>How a run can get stuck\<close>

lemma pc_goto: "lq_pc (lq_goto t p s) t = p"
  by (simp add: lq_goto_def)

text \<open>The two mutexes are free when neither thread's program counter says otherwise.\<close>

lemma in_push_locks: "in_push x p \<Longrightarrow> \<not> has_head p"
  by (cases p) simp_all

lemma in_pop_locks: "in_pop p \<Longrightarrow> \<not> has_tail p"
  by (cases p) simp_all

lemma nm_others:
  assumes "nm_inv n s"
  shows "t \<noteq> 1 \<Longrightarrow> t \<noteq> 2 \<Longrightarrow> lq_pc (nm_queue s) t = Q_idle" and "\<not> has_head (lq_pc (nm_queue s) 1)"
    and "\<not> has_tail (lq_pc (nm_queue s) 2)"
  using assms in_push_locks [of "nm_i1 s" "lq_pc (nm_queue s) 1"] in_pop_locks [of "lq_pc (nm_queue s) 2"]
  unfolding nm_inv_defs by (blast, force, force)

lemma excl_free: "excl h own f \<Longrightarrow> \<forall>t. \<not> h (f t) \<Longrightarrow> own = None"
  by (cases own) (auto simp: excl_def)

lemma locks_free:
  assumes "nm_inv n s"
  shows "\<not> has_tail (lq_pc (nm_queue s) 1) \<Longrightarrow> lq_tlock (nm_queue s) = None"
    and "\<not> has_head (lq_pc (nm_queue s) 2) \<Longrightarrow> lq_hlock (nm_queue s) = None"
proof -
  let ?q = "nm_queue s"
  have ex: "excl has_head (lq_hlock ?q) (lq_pc ?q)" "excl has_tail (lq_tlock ?q) (lq_pc ?q)"
    using assms by (auto simp: nm_inv_def lq_ok_def lq_locks_def)
  note O = nm_others [OF assms]
  show "lq_tlock ?q = None" if a: "\<not> has_tail (lq_pc ?q 1)"
  proof -
    have "\<not> has_tail (lq_pc ?q t)" for t using O(1,3) a by (cases "t = 1"; cases "t = 2") simp_all
    then show ?thesis using excl_free [OF ex(2)] by blast
  qed
  show "lq_hlock ?q = None" if a: "\<not> has_head (lq_pc ?q 2)"
  proof -
    have "\<not> has_head (lq_pc ?q t)" for t using O(1,2) a by (cases "t = 1"; cases "t = 2") simp_all
    then show ?thesis using excl_free [OF ex(1)] by blast
  qed
qed

lemma nm_memory:
  assumes "nm_inv n s"
  shows "\<exists>nd. lq_heap (nm_queue s) (lq_tail (nm_queue s)) = Some nd"
    and "own_node (lq_pc (nm_queue s) t) = Some h \<Longrightarrow> \<exists>nd. lq_heap (nm_queue s) h = Some nd"
proof -
  obtain ns where ok: "lq_ok ns (nm_queue s)" using assms by (auto simp: nm_inv_def)
  show "\<exists>nd. lq_heap (nm_queue s) (lq_tail (nm_queue s)) = Some nd"
    using nodes_allocated [OF lq_okD(4) [OF ok]] by blast
  show "\<exists>nd. lq_heap (nm_queue s) h = Some nd" if "own_node (lq_pc (nm_queue s) t) = Some h"
    using own_allocated [OF lq_okD(5) [OF ok] that] by blast
qed

text \<open>The producer can always move.\<close>

lemma producer_moves:
  assumes inv: "nm_inv n s" and "lq_pc (nm_queue s) 1 \<noteq> Q_idle \<or> nm_i1 s < n"
  shows "\<exists>t. node_work1 n s t"
proof -
  let ?q = "nm_queue s"
  have go: "\<exists>t. node_work1 n s t" if "in_push x (lq_pc ?q 1)" "lq_step ?q (lq_goto 1 p q')" "p \<noteq> lq_pc ?q 1" "in_push x p" for x p q'
    using node_work1.go_push [OF that(1,2)] that(3,4) by (auto simp: pc_goto)
  obtain nd where nd: "lq_heap ?q (lq_tail ?q) = Some nd" using nm_memory(1) [OF inv] by blast
  show ?thesis
  proof (cases "lq_pc ?q 1")
    case Q_idle
    then have "nm_i1 s < n" using assms(2) by simp
    from node_work1.call_push [OF this Q_idle lq_step.p_new [OF Q_idle]] show ?thesis by (auto simp: pc_goto)
  next
    case (P_new x p)
    then have "lq_tlock ?q = None" using locks_free(1) [OF inv] by simp
    from go [OF _ lq_step.p_lock [OF P_new this]] P_new show ?thesis by simp
  next
    case (P_locked x p)
    from go [OF _ lq_step.p_data [OF P_locked nd]] P_locked show ?thesis by simp
  next
    case (P_data x p)
    from go [OF _ lq_step.p_next [OF P_data nd]] P_data show ?thesis by simp
  next
    case (P_next x p)
    from go [OF _ lq_step.p_tail [OF P_next]] P_next show ?thesis by simp
  next
    case P_notify
    show ?thesis
    proof (cases "\<exists>u. lq_pc ?q u = W_asleep")
      case True
      then obtain u where u: "lq_pc ?q u = W_asleep" by blast
      from node_work1.end_push [OF P_notify lq_step.n_one [OF P_notify u]] show ?thesis by (auto simp: pc_goto)
    next
      case False
      with node_work1.end_push [OF P_notify lq_step.n_none [OF P_notify]] show ?thesis by (auto simp: pc_goto)
    qed
  qed (use inv in \<open>simp_all add: nm_inv_defs\<close>)
qed

text \<open>The consumer can move when the producer is outside \<^verbatim>\<open>tail_mutex_\<close>, unless it is asleep.\<close>

lemma consumer_moves:
  assumes inv: "nm_inv n s" and "\<not> has_tail (lq_pc (nm_queue s) 1)"
    and "lq_pc (nm_queue s) 2 \<noteq> Q_idle \<or> nm_i2 s < n" and "lq_pc (nm_queue s) 2 \<noteq> W_asleep"
  shows "\<exists>t. node_work2 n s t"
proof -
  let ?q = "nm_queue s"
  obtain ns where ok: "lq_ok ns ?q" using inv by (auto simp: nm_inv_def)
  have pop: "lq_pc ?q 2 = Q_idle \<or> in_pop (lq_pc ?q 2)" using inv by (auto simp: nm_inv_defs)
  have go: "\<exists>t. node_work2 n s t" if "in_pop (lq_pc ?q 2)" "lq_step ?q (lq_goto 2 p q')" "p \<noteq> lq_pc ?q 2" "in_pop p" for p q'
    using node_work2.go_pop [OF that(1) assms(4) that(2)] that(3,4) by (auto simp: pc_goto)
  have tl: "lq_tlock ?q = None" using locks_free(1) [OF inv assms(2)] .
  note hl = locks_free(2) [OF inv]
  show ?thesis
  proof (cases "lq_pc ?q 2")
    case Q_idle
    then have "nm_i2 s < n" "lq_hlock ?q = None" using assms(3) hl by simp_all
    from node_work2.call_pop [OF this(1) Q_idle lq_step.t_lock [OF Q_idle this(2)]] show ?thesis by (auto simp: pc_goto)
  next
    case (T_locked k)
    from go [OF _ lq_step.t_tail [OF T_locked tl]] T_locked pop show ?thesis by simp
  next
    case (T_tail k q)
    then have k: "k = Wait_pop" using pop by simp
    show ?thesis
    proof (cases "lq_head ?q = Some q")
      case True
      from go [OF _ lq_step.w_empty [OF T_tail [unfolded k] True]] T_tail k show ?thesis by simp
    next
      case False
      from pop_has_data [OF ok T_tail this] obtain h nd v where
        h: "lq_head ?q = Some h" "lq_heap ?q h = Some nd" "nd_data nd = Some v" by blast
      with False have "h \<noteq> q" by simp
      from go [OF _ lq_step.t_move [OF T_tail h(1) this h(2,3)]] T_tail k show ?thesis by simp
    qed
  next
    case W_drowsy
    from go [OF _ lq_step.w_sleep [OF W_drowsy]] W_drowsy show ?thesis by simp
  next
    case W_woken
    then have "lq_hlock ?q = None" using hl by simp
    from go [OF _ lq_step.w_relock [OF W_woken this]] W_woken show ?thesis by simp
  next
    case (T_moved h i)
    then obtain nd where "lq_heap ?q h = Some nd" using nm_memory(2) [OF inv, of 2 h] by auto
    from go [OF _ lq_step.t_next [OF T_moved this]] T_moved show ?thesis by simp
  next
    case (T_done h i)
    from go [OF _ lq_step.t_unlock [OF T_done]] T_done show ?thesis by simp
  next
    case (T_ret h i)
    then obtain nd where "lq_heap ?q h = Some nd" using nm_memory(2) [OF inv, of 2 h] by auto
    from node_work2.end_pop [OF _ lq_step.t_return [OF T_ret this]] T_ret show ?thesis by (auto simp: pc_goto)
  qed (use pop assms(4) in simp_all)
qed

text \<open>So a run stops with both threads joined, or with the producer gone and the consumer asleep.\<close>

lemma node_main_stuck:
  assumes "reach (node_main_step n) node_main_start s" and "\<nexists>t. node_work n s t"
  shows "node_joined n s \<or> lq_pc (nm_queue s) 1 = Q_idle \<and> nm_i1 s = n \<and> lq_pc (nm_queue s) 2 = W_asleep"
proof -
  have inv: "nm_inv n s" using assms(1) by (rule nm_inv_reach)
  then have "nm_i1 s \<le> n" by (simp add: nm_inv_defs)
  moreover have "lq_pc (nm_queue s) 1 = Q_idle \<and> \<not> nm_i1 s < n"
    using producer_moves [OF inv] assms(2) unfolding node_work_def by blast
  ultimately have one: "lq_pc (nm_queue s) 1 = Q_idle" "nm_i1 s = n" by simp_all
  then have "lq_pc (nm_queue s) 2 = W_asleep \<or> lq_pc (nm_queue s) 2 = Q_idle \<and> \<not> nm_i2 s < n"
    using consumer_moves [OF inv] assms(2) one unfolding node_work_def by fastforce
  with one show ?thesis by (auto simp: node_joined_def)
qed

section \<open>The producer can leave the consumer asleep\<close>

text \<open>Between two rounds, when each thread has had \<open>k\<close> of them.\<close>

definition node_quiet :: "nat \<Rightarrow> node_main" where
  "node_quiet k = \<lparr>nm_queue = \<lparr>lq_heap = [k \<mapsto> new_node], lq_head = Some k, lq_tail = k, lq_hlock = None, lq_tlock = None,
       lq_pc = (\<lambda>_. Q_idle), lq_fresh = Suc k, lq_pushed = [0..<k], lq_popped = [0..<k],
       lq_returned = map (\<lambda>i. (i, Some i)) [0..<k]\<rparr>, nm_i1 = k, nm_i2 = k\<rparr>"

lemma node_quiet_0: "node_main_start = node_quiet 0"
  by (simp add: node_main_start_def node_quiet_def lq_start_def)

text \<open>Steps from given states to given states.\<close>

lemma run_call_push:
  "reach (node_main_step n) a s \<Longrightarrow> lq_step (nm_queue s) q \<Longrightarrow> nm_i1 s < n \<Longrightarrow> lq_pc (nm_queue s) 1 = Q_idle \<Longrightarrow>
    in_push (nm_i1 s) (lq_pc q 1) \<Longrightarrow> reach (node_main_step n) a (s\<lparr>nm_queue := q\<rparr>)"
  unfolding node_main_step_def [abs_def] node_work_def by (rule reach_step) (blast intro: node_work1.call_push)+

lemma run_push:
  "reach (node_main_step n) a s \<Longrightarrow> lq_step (nm_queue s) q \<Longrightarrow> in_push (nm_i1 s) (lq_pc (nm_queue s) 1) \<Longrightarrow>
    lq_pc q 1 \<noteq> lq_pc (nm_queue s) 1 \<Longrightarrow> in_push (nm_i1 s) (lq_pc q 1) \<Longrightarrow> reach (node_main_step n) a (s\<lparr>nm_queue := q\<rparr>)"
  unfolding node_main_step_def [abs_def] node_work_def by (rule reach_step) (blast intro: node_work1.go_push)+

lemma run_end_push:
  "reach (node_main_step n) a s \<Longrightarrow> lq_step (nm_queue s) q \<Longrightarrow> lq_pc (nm_queue s) 1 = P_notify \<Longrightarrow> lq_pc q 1 = Q_idle \<Longrightarrow>
    reach (node_main_step n) a (s\<lparr>nm_queue := q, nm_i1 := nm_i1 s + 1\<rparr>)"
  unfolding node_main_step_def [abs_def] node_work_def by (rule reach_step) (blast intro: node_work1.end_push)+

lemma run_call_pop:
  "reach (node_main_step n) a s \<Longrightarrow> lq_step (nm_queue s) q \<Longrightarrow> nm_i2 s < n \<Longrightarrow> lq_pc (nm_queue s) 2 = Q_idle \<Longrightarrow>
    lq_pc q 2 = T_locked Wait_pop \<Longrightarrow> reach (node_main_step n) a (s\<lparr>nm_queue := q\<rparr>)"
  unfolding node_main_step_def [abs_def] node_work_def by (rule reach_step) (blast intro: node_work2.call_pop)+

lemma run_pop:
  "reach (node_main_step n) a s \<Longrightarrow> lq_step (nm_queue s) q \<Longrightarrow> in_pop (lq_pc (nm_queue s) 2) \<Longrightarrow> lq_pc (nm_queue s) 2 \<noteq> W_asleep \<Longrightarrow>
    lq_pc q 2 \<noteq> lq_pc (nm_queue s) 2 \<Longrightarrow> in_pop (lq_pc q 2) \<Longrightarrow> reach (node_main_step n) a (s\<lparr>nm_queue := q\<rparr>)"
  unfolding node_main_step_def [abs_def] node_work_def by (rule reach_step) (blast intro: node_work2.go_pop)+

lemma run_end_pop:
  "reach (node_main_step n) a s \<Longrightarrow> lq_step (nm_queue s) q \<Longrightarrow> in_pop (lq_pc (nm_queue s) 2) \<Longrightarrow> lq_pc q 2 = Q_idle \<Longrightarrow>
    reach (node_main_step n) a (s\<lparr>nm_queue := q, nm_i2 := nm_i2 s + 1\<rparr>)"
  unfolding node_main_step_def [abs_def] node_work_def by (rule reach_step) (blast intro: node_work2.end_pop)+

text \<open>The producer pushes while the consumer's program counter is \<open>p\<close>.\<close>

definition node_pushed :: "nat \<Rightarrow> nat lq_pc \<Rightarrow> nat option \<Rightarrow> node_main" where
  "node_pushed k p hl = \<lparr>nm_queue = \<lparr>lq_heap = [k \<mapsto> \<lparr>nd_data = Some k, nd_next = Some (Suc k)\<rparr>, Suc k \<mapsto> new_node],
       lq_head = Some k, lq_tail = Suc k, lq_hlock = hl, lq_tlock = None, lq_pc = (\<lambda>_. Q_idle)(2 := p), lq_fresh = Suc (Suc k),
       lq_pushed = [0..<Suc k], lq_popped = [0..<k], lq_returned = map (\<lambda>i. (i, Some i)) [0..<k]\<rparr>, nm_i1 = Suc k, nm_i2 = k\<rparr>"

lemma push_round:
  assumes start: "reach (node_main_step n) a s" and "k < n" and "p \<noteq> W_asleep"
    and s: "s = (node_quiet k)\<lparr>nm_queue := lq_goto 2 p ((nm_queue (node_quiet k))\<lparr>lq_hlock := hl\<rparr>)\<rparr>"
  shows "reach (node_main_step n) a (node_pushed k p hl)"
proof -
  let ?q = "nm_queue s"
  let ?q1 = "lq_goto 1 (P_new k (Suc k)) (?q\<lparr>lq_heap := [k \<mapsto> new_node, Suc k \<mapsto> new_node], lq_fresh := Suc (Suc k)\<rparr>)"
  let ?q2 = "lq_goto 1 (P_locked k (Suc k)) (?q1\<lparr>lq_tlock := Some 1\<rparr>)"
  let ?q3 = "lq_goto 1 (P_data k (Suc k)) (?q2\<lparr>lq_heap := (lq_heap ?q2)(k \<mapsto> \<lparr>nd_data = Some k, nd_next = None\<rparr>)\<rparr>)"
  let ?q4 = "lq_goto 1 (P_next k (Suc k)) (?q3\<lparr>lq_heap := (lq_heap ?q3)(k \<mapsto> \<lparr>nd_data = Some k, nd_next = Some (Suc k)\<rparr>)\<rparr>)"
  let ?q5 = "lq_goto 1 P_notify (?q4\<lparr>lq_tail := Suc k, lq_tlock := None, lq_pushed := [0..<k] @ [k]\<rparr>)"
  note q = s node_quiet_def lq_goto_def
  have "lq_step ?q ?q1"
    using lq_step.p_new [of ?q 1 k] by (simp add: q)
  from run_call_push [OF start this] have "reach (node_main_step n) a (s\<lparr>nm_queue := ?q1\<rparr>)" using assms(2) by (simp add: q)
  moreover have "lq_step ?q1 ?q2" by (rule lq_step.p_lock) (simp_all add: q)
  ultimately have "reach (node_main_step n) a (s\<lparr>nm_queue := ?q2\<rparr>)" using run_push [of n a "s\<lparr>nm_queue := ?q1\<rparr>" ?q2] by (simp add: q)
  moreover have "lq_step ?q2 ?q3"
    using lq_step.p_data [of ?q2 1 k "Suc k" new_node] by (simp add: q new_node_def)
  ultimately have "reach (node_main_step n) a (s\<lparr>nm_queue := ?q3\<rparr>)" using run_push [of n a "s\<lparr>nm_queue := ?q2\<rparr>" ?q3] by (simp add: q)
  moreover have "lq_step ?q3 ?q4"
    using lq_step.p_next [of ?q3 1 k "Suc k" "\<lparr>nd_data = Some k, nd_next = None\<rparr>"] by (simp add: q)
  ultimately have "reach (node_main_step n) a (s\<lparr>nm_queue := ?q4\<rparr>)" using run_push [of n a "s\<lparr>nm_queue := ?q3\<rparr>" ?q4] by (simp add: q)
  moreover have "lq_step ?q4 ?q5" using lq_step.p_tail [of ?q4 1 k "Suc k"] by (simp add: q)
  ultimately have "reach (node_main_step n) a (s\<lparr>nm_queue := ?q5\<rparr>)" using run_push [of n a "s\<lparr>nm_queue := ?q4\<rparr>" ?q5] by (simp add: q)
  moreover have "lq_step ?q5 (lq_goto 1 Q_idle ?q5)"
    by (rule lq_step.n_none) (use assms(3) in \<open>simp_all add: q\<close>)
  ultimately have "reach (node_main_step n) a (s\<lparr>nm_queue := lq_goto 1 Q_idle ?q5, nm_i1 := Suc k\<rparr>)"
    using run_end_push [of n a "s\<lparr>nm_queue := ?q5\<rparr>" "lq_goto 1 Q_idle ?q5"] by (simp add: q)
  moreover have "s\<lparr>nm_queue := lq_goto 1 Q_idle ?q5, nm_i1 := Suc k\<rparr> = node_pushed k p hl"
    by (auto simp: q node_pushed_def fun_eq_iff)
  ultimately show ?thesis by simp
qed

text \<open>The consumer takes the one value there is.\<close>

lemma pop_round:
  assumes start: "reach (node_main_step n) a (node_pushed k Q_idle None)" and "k < n"
  shows "reach (node_main_step n) a (node_quiet (Suc k))"
proof -
  let ?s = "node_pushed k Q_idle None"
  let ?q = "nm_queue ?s"
  let ?nd = "\<lparr>nd_data = Some k, nd_next = Some (Suc k)\<rparr>"
  let ?q1 = "lq_goto 2 (T_locked Wait_pop) (?q\<lparr>lq_hlock := Some 2\<rparr>)"
  let ?q2 = "lq_goto 2 (T_tail Wait_pop (Suc k)) ?q1"
  let ?q3 = "lq_goto 2 (T_moved k k) (?q2\<lparr>lq_head := None, lq_popped := [0..<k] @ [k]\<rparr>)"
  let ?q4 = "lq_goto 2 (T_done k k) (?q3\<lparr>lq_head := Some (Suc k), lq_heap := (lq_heap ?q3)(k \<mapsto> ?nd\<lparr>nd_next := None\<rparr>)\<rparr>)"
  let ?q5 = "lq_goto 2 (T_ret k k) (?q4\<lparr>lq_hlock := None\<rparr>)"
  let ?q6 = "lq_goto 2 Q_idle (?q5\<lparr>lq_heap := (lq_heap ?q5)(k := None), lq_returned := lq_returned ?q @ [(k, Some k)]\<rparr>)"
  note q = node_pushed_def lq_goto_def
  have "lq_step ?q ?q1" by (rule lq_step.t_lock) (simp_all add: q)
  from run_call_pop [OF start this] have "reach (node_main_step n) a (?s\<lparr>nm_queue := ?q1\<rparr>)" using assms(2) by (simp add: q)
  moreover have "lq_step ?q1 ?q2" using lq_step.t_tail [of ?q1 2 Wait_pop] by (simp add: q)
  ultimately have "reach (node_main_step n) a (?s\<lparr>nm_queue := ?q2\<rparr>)" using run_pop [of n a "?s\<lparr>nm_queue := ?q1\<rparr>" ?q2] by (simp add: q)
  moreover have "lq_step ?q2 ?q3" using lq_step.t_move [of ?q2 2 Wait_pop "Suc k" k ?nd k] by (simp add: q)
  ultimately have "reach (node_main_step n) a (?s\<lparr>nm_queue := ?q3\<rparr>)" using run_pop [of n a "?s\<lparr>nm_queue := ?q2\<rparr>" ?q3] by (simp add: q)
  moreover have "lq_step ?q3 ?q4" using lq_step.t_next [of ?q3 2 k k ?nd] by (simp add: q)
  ultimately have "reach (node_main_step n) a (?s\<lparr>nm_queue := ?q4\<rparr>)" using run_pop [of n a "?s\<lparr>nm_queue := ?q3\<rparr>" ?q4] by (simp add: q)
  moreover have "lq_step ?q4 ?q5" by (rule lq_step.t_unlock) (simp add: q)
  ultimately have "reach (node_main_step n) a (?s\<lparr>nm_queue := ?q5\<rparr>)" using run_pop [of n a "?s\<lparr>nm_queue := ?q4\<rparr>" ?q5] by (simp add: q)
  moreover have "lq_step ?q5 ?q6" using lq_step.t_return [of ?q5 2 k k "?nd\<lparr>nd_next := None\<rparr>"] by (simp add: q)
  ultimately have "reach (node_main_step n) a (?s\<lparr>nm_queue := ?q6, nm_i2 := Suc k\<rparr>)"
    using run_end_pop [of n a "?s\<lparr>nm_queue := ?q5\<rparr>" ?q6] by (simp add: q)
  moreover have "?s\<lparr>nm_queue := ?q6, nm_i2 := Suc k\<rparr> = node_quiet (Suc k)"
    by (auto simp: q node_quiet_def fun_eq_iff)
  ultimately show ?thesis by simp
qed

lemma quiet_reached: "k \<le> n \<Longrightarrow> reach (node_main_step n) node_main_start (node_quiet k)"
proof (induction k)
  case 0
  then show ?case unfolding node_quiet_0 by (intro reach_refl)
next
  case (Suc k)
  then have r: "reach (node_main_step n) node_main_start (node_quiet k)" "k < n" by simp_all
  have "reach (node_main_step n) node_main_start (node_pushed k Q_idle None)"
    by (rule push_round [OF r]) (simp_all add: node_quiet_def lq_goto_def fun_upd_idem)
  then show ?case using r(2) by (rule pop_round)
qed

lemma asleep_stuck:
  assumes "lq_pc (nm_queue s) 1 = Q_idle" and "\<not> nm_i1 s < n" and "lq_pc (nm_queue s) 2 = W_asleep"
  shows "\<not> node_work n s t"
proof
  assume "node_work n s t"
  then have "node_work1 n s t \<or> node_work2 n s t" by (simp only: node_work_def)
  then show False
  proof
    assume "node_work1 n s t"
    then show False using assms(1,2) by cases simp_all
  next
    assume "node_work2 n s t"
    then show False
    proof cases
      case (end_pop q)
      then show False using asleep_stays [OF end_pop(3) assms(3)] by simp
    qed (use assms(3) in simp_all)
  qed
qed

text \<open>For every positive \<open>n\<close> a run stops with one value in the queue, the consumer asleep and the producer at its
  end: \<^verbatim>\<open>main\<close> waits in \<^verbatim>\<open>thread2.join()\<close>.\<close>

lemma node_main_can_hang:
  assumes "0 < n"
  shows "\<exists>s. reach (node_main_step n) node_main_start s \<and> (\<nexists>t. node_work n s t) \<and> \<not> node_joined n s \<and>
    lq_pushed (nm_queue s) = [0..<n] \<and> lq_popped (nm_queue s) = [0..<n - 1] \<and> lq_pc (nm_queue s) 2 = W_asleep"
proof -
  obtain k where k: "n = Suc k" using assms by (cases n) simp_all
  let ?s = "node_quiet k"
  let ?q = "nm_queue ?s"
  let ?q1 = "lq_goto 2 (T_locked Wait_pop) (?q\<lparr>lq_hlock := Some 2\<rparr>)"
  let ?q2 = "lq_goto 2 (T_tail Wait_pop k) ?q1"
  let ?q3 = "lq_goto 2 W_drowsy ?q2"
  let ?p = "node_pushed k W_drowsy (Some 2)"
  let ?q4 = "lq_goto 2 W_asleep ((nm_queue ?p)\<lparr>lq_hlock := None\<rparr>)"
  let ?fin = "?p\<lparr>nm_queue := ?q4\<rparr>"
  note q = node_quiet_def lq_goto_def
  note start = quiet_reached [of k n]
  have "lq_step ?q ?q1" by (rule lq_step.t_lock) (simp_all add: q)
  from run_call_pop [OF start this] have "reach (node_main_step n) node_main_start (?s\<lparr>nm_queue := ?q1\<rparr>)" using k by (simp add: q)
  moreover have "lq_step ?q1 ?q2" using lq_step.t_tail [of ?q1 2 Wait_pop] by (simp add: q)
  ultimately have "reach (node_main_step n) node_main_start (?s\<lparr>nm_queue := ?q2\<rparr>)"
    using run_pop [of n node_main_start "?s\<lparr>nm_queue := ?q1\<rparr>" ?q2] by (simp add: q)
  moreover have "lq_step ?q2 ?q3" using lq_step.w_empty [of ?q2 2 k] by (simp add: q)
  ultimately have "reach (node_main_step n) node_main_start (?s\<lparr>nm_queue := ?q3\<rparr>)"
    using run_pop [of n node_main_start "?s\<lparr>nm_queue := ?q2\<rparr>" ?q3] by (simp add: q)
  then have "reach (node_main_step n) node_main_start ?p" by (rule push_round) (simp_all add: k q)
  moreover have "lq_step (nm_queue ?p) ?q4" by (rule lq_step.w_sleep) (simp add: node_pushed_def)
  ultimately have r: "reach (node_main_step n) node_main_start ?fin"
    using run_pop [of n node_main_start ?p ?q4] by (simp add: node_pushed_def lq_goto_def)
  have at: "lq_pc (nm_queue ?fin) 1 = Q_idle" "lq_pc (nm_queue ?fin) 2 = W_asleep" "nm_i1 ?fin = n"
    by (simp_all add: node_pushed_def lq_goto_def k)
  then have "\<not> node_work n ?fin t" for t by (intro asleep_stuck) simp_all
  moreover have "lq_pushed (nm_queue ?fin) = [0..<n]" "lq_popped (nm_queue ?fin) = [0..<n - 1]"
    by (simp_all add: node_pushed_def lq_goto_def k)
  ultimately show ?thesis using r at by (intro exI [of _ ?fin] conjI) (simp_all add: node_joined_def)
qed

section \<open>Properties\<close>

text \<open>(C37) The program of threadsafe_queue_test.cc: in every interleaving the calls of \<^verbatim>\<open>wait_and_pop\<close> return 0, 1, 2
  and so on; a run that cannot go on has both threads joined or the producer at its end and the consumer asleep; and
  the second happens: for every positive \<open>n\<close> a run leaves the last number in the queue and \<^verbatim>\<open>main\<close> in
  \<^verbatim>\<open>thread2.join()\<close>.\<close>

theorem queue_test_outcomes:
  assumes "0 < n"
  shows "(\<forall>s. reach (node_main_step n) node_main_start s \<longrightarrow>
      map snd (lq_returned (nm_queue s)) = map Some [0..<nm_i2 s] \<and>
      (node_joined n s \<longrightarrow> lq_popped (nm_queue s) = lq_pushed (nm_queue s) \<and> nm_i2 s = n) \<and>
      ((\<nexists>t. node_work n s t) \<longrightarrow>
        node_joined n s \<or> lq_pc (nm_queue s) 1 = Q_idle \<and> nm_i1 s = n \<and> lq_pc (nm_queue s) 2 = W_asleep)) \<and>
    (\<exists>s. reach (node_main_step n) node_main_start s \<and> (\<nexists>t. node_work n s t) \<and> \<not> node_joined n s \<and>
      lq_pushed (nm_queue s) = [0..<n] \<and> lq_popped (nm_queue s) = [0..<n - 1] \<and> lq_pc (nm_queue s) 2 = W_asleep)"
proof (intro conjI allI impI)
  fix s
  assume r: "reach (node_main_step n) node_main_start s"
  show "map snd (lq_returned (nm_queue s)) = map Some [0..<nm_i2 s]" using work2_gets_numbers [OF r] by blast
  show "lq_popped (nm_queue s) = lq_pushed (nm_queue s)" if "node_joined n s" using work2_gets_numbers [OF r] that by blast
  show "nm_i2 s = n" if "node_joined n s" using work2_gets_numbers [OF r] that by (simp add: node_joined_def)
  show "node_joined n s \<or> lq_pc (nm_queue s) 1 = Q_idle \<and> nm_i1 s = n \<and> lq_pc (nm_queue s) 2 = W_asleep"
    if "\<nexists>t. node_work n s t" using r that by (rule node_main_stuck)
qed (rule node_main_can_hang [OF assms])

theorem queue_test_outcomes_witness:
  "\<exists>s. reach (node_main_step 10000000) node_main_start s \<and> (\<nexists>t. node_work 10000000 s t) \<and>
    lq_pushed (nm_queue s) = [0..<10000000] \<and> lq_pc (nm_queue s) 2 = W_asleep"
proof -
  have "0 < (10000000 :: nat)" by simp
  from queue_test_outcomes [OF this, THEN conjunct2] show ?thesis by blast
qed

end
