(* ===== verification/Thread_Experiments.thy ===== *)
theory Thread_Experiments
  imports Wait_Notify Timestamps
begin

text \<open>
  Four small programs of src/thread/test, each of two threads (1 and 2) that \<^verbatim>\<open>main\<close> joins: a counter under a
  mutex (static_count.cc), an atomic counter (Atomic_test.cc), two threads that each store one variable and
  read the other's (out_of_order_test.cc), and \<^verbatim>\<open>pthread_once\<close> with a routine that does not return
  (thread_once_test.cc). Each is a step relation whose steps are the accesses to what the threads share.
\<close>

lemma sint_of_nat_small: "n < 2 ^ (LENGTH('a::len) - 1) \<Longrightarrow> sint (of_nat n :: 'a word) = int n"
proof -
  assume "n < 2 ^ (LENGTH('a) - 1)"
  then have "int n < 2 ^ (LENGTH('a) - 1)" by (metis of_nat_less_iff of_nat_numeral of_nat_power)
  moreover have "- (2 ^ (LENGTH('a) - 1)) \<le> int n" by (rule order_trans [of _ 0]) simp_all
  ultimately have "sint (word_of_int (int n) :: 'a word) = int n"
    unfolding sint_sbintrunc' by (intro signed_take_bit_int_eq_self)
  then show ?thesis by simp
qed

section \<open>A counter under a mutex\<close>

text \<open>\<^verbatim>\<open>++ counter_\<close> reads and writes in steps of their own.\<close>

datatype counter_pc = C_out | C_locked | C_read "64 word" | C_written

record counter_main =
  cm_counter :: "64 word"
  cm_owner :: "nat option"
  cm_pc :: "nat \<Rightarrow> counter_pc"
  cm_i :: "nat \<Rightarrow> nat"

definition counter_main_start :: counter_main where
  "counter_main_start = \<lparr>cm_counter = 0, cm_owner = None, cm_pc = (\<lambda>_. C_out), cm_i = (\<lambda>_. 0)\<rparr>"

definition at_pc :: "nat \<Rightarrow> counter_pc \<Rightarrow> counter_main \<Rightarrow> counter_main" where
  "at_pc t p s = s\<lparr>cm_pc := (cm_pc s)(t := p)\<rparr>"

inductive Counter_add :: "nat \<Rightarrow> counter_main \<Rightarrow> counter_main \<Rightarrow> bool" for t where
  add_lock: "cm_pc s t = C_out \<Longrightarrow> cm_owner s = None \<Longrightarrow> Counter_add t s (at_pc t C_locked (s\<lparr>cm_owner := Some t\<rparr>))"
| add_read: "cm_pc s t = C_locked \<Longrightarrow> Counter_add t s (at_pc t (C_read (cm_counter s)) s)"
| add_write: "cm_pc s t = C_read v \<Longrightarrow> Counter_add t s (at_pc t C_written (s\<lparr>cm_counter := v + 1\<rparr>))"
| add_unlock: "cm_pc s t = C_written \<Longrightarrow>
     Counter_add t s (at_pc t C_out (s\<lparr>cm_owner := None, cm_i := (cm_i s)(t := cm_i s t + 1)\<rparr>))"

text \<open>The loop of \<^verbatim>\<open>work\<close>, \<open>n\<close> times; the source has a thousand million.\<close>

definition counter_work :: "nat \<Rightarrow> counter_main \<Rightarrow> counter_main \<Rightarrow> bool" where
  "counter_work n s s' \<longleftrightarrow> (\<exists>t \<in> {1, 2}. (cm_pc s t = C_out \<longrightarrow> cm_i s t < n) \<and> Counter_add t s s')"

definition counter_joined :: "nat \<Rightarrow> counter_main \<Rightarrow> bool" where
  "counter_joined n s \<longleftrightarrow> (\<forall>t \<in> {1, 2}. cm_pc s t = C_out \<and> \<not> cm_i s t < n)"

definition written :: "counter_pc \<Rightarrow> nat" where
  "written p = of_bool (p = C_written)"

definition inside :: "counter_pc \<Rightarrow> bool" where
  "inside p \<longleftrightarrow> p \<noteq> C_out"

definition counter_inv :: "nat \<Rightarrow> counter_main \<Rightarrow> bool" where
  "counter_inv n s \<longleftrightarrow> excl inside (cm_owner s) (cm_pc s) \<and> (\<forall>t. cm_i s t \<le> n) \<and>
     (\<forall>t. t \<noteq> 1 \<and> t \<noteq> 2 \<longrightarrow> cm_pc s t = C_out) \<and> (\<forall>t. cm_pc s t \<noteq> C_out \<longrightarrow> cm_i s t < n) \<and>
     (\<forall>t v. cm_pc s t = C_read v \<longrightarrow> v = cm_counter s) \<and>
     cm_counter s = of_nat (cm_i s 1 + cm_i s 2 + written (cm_pc s 1) + written (cm_pc s 2))"

lemma counter_inv_start: "counter_inv n counter_main_start"
  by (simp add: counter_inv_def counter_main_start_def excl_def inside_def written_def)

lemma counter_excl_step:
  assumes "Counter_add t s s'" and "excl inside (cm_owner s) (cm_pc s)"
  shows "excl inside (cm_owner s') (cm_pc s')"
  using assms by cases (auto simp: at_pc_def inside_def excl_stay excl_acquire excl_release)

lemma counter_alone: "excl inside (cm_owner s) (cm_pc s) \<Longrightarrow> cm_pc s t \<noteq> C_out \<Longrightarrow> u \<noteq> t \<Longrightarrow> cm_pc s u = C_out"
  by (auto simp: excl_def inside_def)

lemma counter_inv_step:
  assumes "counter_inv n s" and "counter_work n s s'"
  shows "counter_inv n s'"
proof -
  obtain t where t: "t = 1 \<or> t = 2" "cm_pc s t = C_out \<longrightarrow> cm_i s t < n" and add: "Counter_add t s s'"
    using assms(2) by (auto simp: counter_work_def)
  have ex: "excl inside (cm_owner s) (cm_pc s)" using assms(1) by (simp add: counter_inv_def)
  have ex': "excl inside (cm_owner s') (cm_pc s')" by (rule counter_excl_step [OF add ex])
  note other = counter_alone [OF ex, of t]
  from add show ?thesis
  proof cases
    case add_lock
    then show ?thesis using assms(1) t ex' by (auto simp: counter_inv_def at_pc_def written_def)
  next
    case add_read
    then show ?thesis using assms(1) t ex' by (auto simp: counter_inv_def at_pc_def written_def)
  next
    case (add_write v)
    have alone: "cm_pc s u = C_out" if "u \<noteq> t" for u using other [of u] add_write that by simp
    then have "\<forall>u w. u \<noteq> t \<longrightarrow> cm_pc s u \<noteq> C_read w" "t = 1 \<longrightarrow> cm_pc s 2 = C_out" "t = 2 \<longrightarrow> cm_pc s 1 = C_out" by simp_all
    then show ?thesis using assms(1) t ex' add_write by (auto simp: counter_inv_def at_pc_def written_def)
  next
    case add_unlock
    then have "Suc (cm_i s t) \<le> n" using assms(1) by (auto simp: counter_inv_def Suc_le_eq)
    then show ?thesis using assms(1) t ex' add_unlock by (auto simp: counter_inv_def at_pc_def written_def)
  qed
qed

text \<open>Every step brings the end nearer, and one is possible until both threads are at it.\<close>

fun add_rank :: "counter_pc \<Rightarrow> nat" where
  "add_rank C_out = 0"
| "add_rank C_locked = 1"
| "add_rank (C_read v) = 2"
| "add_rank C_written = 3"

definition counter_rank :: "nat \<Rightarrow> counter_main \<Rightarrow> nat" where
  "counter_rank n s = (4 * (n - cm_i s 1) - add_rank (cm_pc s 1)) + (4 * (n - cm_i s 2) - add_rank (cm_pc s 2))"

lemma counter_rank_step:
  assumes "counter_inv n s" and "counter_work n s s'"
  shows "counter_rank n s' < counter_rank n s"
proof -
  obtain t where t: "t = 1 \<or> t = 2" "cm_pc s t = C_out \<longrightarrow> cm_i s t < n" and add: "Counter_add t s s'"
    using assms(2) by (auto simp: counter_work_def)
  have "cm_i s t < n" using assms(1) t by (auto simp: counter_inv_def)
  from add show ?thesis using \<open>cm_i s t < n\<close> t(1) by cases (auto simp: counter_rank_def at_pc_def)
qed

lemma counter_progress:
  assumes "counter_inv n s" and "\<not> counter_joined n s"
  shows "\<exists>s'. counter_work n s s'"
proof -
  have ex: "excl inside (cm_owner s) (cm_pc s)" using assms(1) by (simp add: counter_inv_def)
  show ?thesis
  proof (cases "\<exists>t \<in> {1, 2}. cm_pc s t \<noteq> C_out")
    case True
    then obtain t where t: "t \<in> {1, 2}" "cm_pc s t \<noteq> C_out" by blast
    then have "\<exists>s'. Counter_add t s s'" by (cases "cm_pc s t") (auto intro: Counter_add.intros)
    then show ?thesis using t unfolding counter_work_def by blast
  next
    case False
    then obtain t where t: "t \<in> {1, 2}" "cm_i s t < n" using assms(2) by (auto simp: counter_joined_def)
    have "\<not> inside (cm_pc s u)" for u using False assms(1) by (cases "u = 1"; cases "u = 2") (simp_all add: inside_def counter_inv_def)
    then have "cm_owner s = None" using ex by (cases "cm_owner s") (auto simp: excl_def)
    then have "Counter_add t s (at_pc t C_locked (s\<lparr>cm_owner := Some t\<rparr>))" using False t by (intro add_lock) auto
    then show ?thesis using t unfolding counter_work_def by blast
  qed
qed

text \<open>No addition is lost: any interleaving ends after at most \<open>8 n\<close> steps, and then the counter is \<open>2 n\<close>.\<close>

theorem counter_counts_all:
  assumes "counted_run (counter_work n) (\<lambda>_ _. False) m k counter_main_start s" and "2 * n < 2 ^ 63"
  shows "m \<le> 8 * n \<and> (counter_joined n s \<longrightarrow> sint (cm_counter s) = 2 * int n) \<and>
    (\<not> counter_joined n s \<longrightarrow> (\<exists>s'. counter_work n s s'))"
proof -
  have "counter_inv n s \<and> m + counter_rank n s \<le> counter_rank n counter_main_start + 4 * k"
    by (rule counted_run_bound [where I = "counter_inv n", OF assms(1) counter_inv_start])
      (auto intro: counter_inv_step counter_rank_step)
  moreover have "k = 0" using assms(1) by (induction rule: counted_run.induct) auto
  moreover have "counter_rank n counter_main_start = 8 * n" by (simp add: counter_rank_def counter_main_start_def)
  ultimately have inv: "counter_inv n s" and m: "m \<le> 8 * n" by simp_all
  have "sint (cm_counter s) = 2 * int n" if j: "counter_joined n s"
  proof -
    have "cm_i s 1 = n" "cm_i s 2 = n" "cm_pc s 1 = C_out" "cm_pc s 2 = C_out"
      using inv j by (auto simp: counter_inv_def counter_joined_def intro: antisym)
    then have "cm_counter s = of_nat (n + n)" using inv by (simp add: counter_inv_def written_def)
    then show ?thesis using assms(2) sint_of_nat_small [of "n + n", where 'a = 64] by simp
  qed
  then show ?thesis using m counter_progress [OF inv] by blast
qed

section \<open>An atomic counter\<close>

text \<open>\<^verbatim>\<open>AtomicInt64\<close> of Atomic_test.cc: \<^verbatim>\<open>increment\<close> is one step, and \<^verbatim>\<open>getnum\<close> narrows the number to an \<^verbatim>\<open>int\<close>.\<close>

record atomic_main =
  am_num :: "64 word"
  am_i :: "nat \<Rightarrow> nat"

definition atomic_main_start :: atomic_main where
  "atomic_main_start = \<lparr>am_num = 0, am_i = (\<lambda>_. 0)\<rparr>"

definition AtomicInt64_increment :: "64 word \<Rightarrow> 64 word" where
  "AtomicInt64_increment num = num + 1"

definition AtomicInt64_getnum :: "64 word \<Rightarrow> 32 word" where
  "AtomicInt64_getnum num = ucast num"

definition atomic_work :: "nat \<Rightarrow> atomic_main \<Rightarrow> atomic_main \<Rightarrow> bool" where
  "atomic_work n s s' \<longleftrightarrow> (\<exists>t \<in> {1, 2}. am_i s t < n \<and>
     s' = s\<lparr>am_num := AtomicInt64_increment (am_num s), am_i := (am_i s)(t := am_i s t + 1)\<rparr>)"

definition atomic_joined :: "nat \<Rightarrow> atomic_main \<Rightarrow> bool" where
  "atomic_joined n s \<longleftrightarrow> (\<forall>t \<in> {1, 2}. \<not> am_i s t < n)"

text \<open>The number and the seconds \<^verbatim>\<open>main\<close> prints.\<close>

definition atomic_main_prints :: "timestamp \<Rightarrow> timestamp \<Rightarrow> atomic_main \<Rightarrow> int \<times> rat" where
  "atomic_main_prints began ended s = (sint (AtomicInt64_getnum (am_num s)), timeDiffence began ended)"

text \<open>With both threads joined the program prints \<open>2 n\<close> where that is an \<^verbatim>\<open>int\<close>, as for the source's thousand million;
  the time it prints is never positive, because the arguments of \<^verbatim>\<open>timeDiffence\<close> are in the wrong order.\<close>

theorem atomic_counts_all:
  assumes "reach (atomic_work n) atomic_main_start s" and "atomic_joined n s" and "2 * n < 2 ^ 31" and "began \<le> ended"
  shows "fst (atomic_main_prints began ended s) = 2 * int n \<and> snd (atomic_main_prints began ended s) \<le> 0"
proof -
  have "am_num s = of_nat (am_i s 1 + am_i s 2) \<and> (\<forall>t. am_i s t \<le> n)"
    by (rule reach_invariant [OF assms(1)]) (auto simp: atomic_main_start_def atomic_work_def AtomicInt64_increment_def)
  moreover from this have "am_i s 1 = n" "am_i s 2 = n" using assms(2) by (auto simp: atomic_joined_def intro: antisym)
  ultimately have "am_num s = of_nat (n + n)" by simp
  then have "AtomicInt64_getnum (am_num s) = of_nat (n + n)"
    by (simp only: AtomicInt64_getnum_def) (rule bit_word_eqI, auto simp: bit_simps)
  then have "fst (atomic_main_prints began ended s) = int (n + n)"
    using assms(3) sint_of_nat_small [of "n + n", where 'a = 32] by (simp add: atomic_main_prints_def)
  moreover have "snd (atomic_main_prints began ended s) \<le> 0"
    using assms(4)
    by (simp add: atomic_main_prints_def timeDiffence_def Let_def kMicroSecondPerSecond_def less_eq_timestamp_def c_div_nonpos)
  ultimately show ?thesis by simp
qed

section \<open>A store and a load\<close>

text \<open>Thread 1 stores \<^verbatim>\<open>x\<close> and reads \<^verbatim>\<open>y\<close>, thread 2 the other way round. The variables are plain \<^verbatim>\<open>int\<close>s, so that C++
  promises nothing; the machines the program is about either order all accesses, or (\<open>buffered\<close>, as x86 does)
  keep a store in a buffer of the processor until some later moment.\<close>

datatype order_pc = O_start | O_stored | O_done bool \<comment> \<open>whether it has printed its line\<close>

record order_main =
  om_memory :: "nat \<Rightarrow> int" \<comment> \<open>the variable each thread stores to\<close>
  om_pending :: "nat \<Rightarrow> bool" \<comment> \<open>whether that store is in the buffer\<close>
  om_pc :: "nat \<Rightarrow> order_pc"

definition order_main_start :: order_main where
  "order_main_start = \<lparr>om_memory = (\<lambda>_. 0), om_pending = (\<lambda>_. False), om_pc = (\<lambda>_. O_start)\<rparr>"

definition other_thread :: "nat \<Rightarrow> nat" where
  "other_thread t = 3 - t"

definition order_store :: "bool \<Rightarrow> nat \<Rightarrow> order_main \<Rightarrow> order_main" where
  "order_store buffered t s = (if buffered then s\<lparr>om_pending := (om_pending s)(t := True), om_pc := (om_pc s)(t := O_stored)\<rparr>
     else s\<lparr>om_memory := (om_memory s)(t := 1), om_pc := (om_pc s)(t := O_stored)\<rparr>)"

definition order_load :: "nat \<Rightarrow> order_main \<Rightarrow> order_main" where
  "order_load t s = s\<lparr>om_pc := (om_pc s)(t := O_done (om_memory s (other_thread t) = 0))\<rparr>"

definition order_drain :: "nat \<Rightarrow> order_main \<Rightarrow> order_main" where
  "order_drain t s = s\<lparr>om_memory := (om_memory s)(t := 1), om_pending := (om_pending s)(t := False)\<rparr>"

definition order_step :: "bool \<Rightarrow> order_main \<Rightarrow> order_main \<Rightarrow> bool" where
  "order_step buffered s s' \<longleftrightarrow> (\<exists>t \<in> {1, 2}.
     om_pc s t = O_start \<and> s' = order_store buffered t s \<or>
     om_pc s t = O_stored \<and> s' = order_load t s \<or>
     om_pending s t \<and> s' = order_drain t s)"

definition both_print :: "order_main \<Rightarrow> bool" where
  "both_print s \<longleftrightarrow> om_pc s 1 = O_done True \<and> om_pc s 2 = O_done True"

lemmas order_defs = order_step_def order_store_def order_load_def order_drain_def other_thread_def

text \<open>With ordered accesses at most one thread prints; with store buffers both can.\<close>

theorem out_of_order_outcomes:
  "(reach (order_step False) order_main_start s \<longrightarrow> \<not> both_print s) \<and>
   (\<exists>s. reach (order_step True) order_main_start s \<and> both_print s)"
proof
  let ?I = "\<lambda>s. (\<forall>t. \<not> om_pending s t) \<and> (\<forall>t. om_pc s t \<noteq> O_start \<longrightarrow> om_memory s t = 1) \<and> \<not> both_print s"
  have "?I s" if "reach (order_step False) order_main_start s"
    by (rule reach_invariant [OF that])
      (simp add: order_main_start_def both_print_def, auto simp: order_defs both_print_def split: if_splits)
  then show "reach (order_step False) order_main_start s \<longrightarrow> \<not> both_print s" by blast
next
  let ?s1 = "order_store True 1 order_main_start"
  let ?s2 = "order_store True 2 ?s1"
  let ?s3 = "order_load 1 ?s2"
  let ?s4 = "order_load 2 ?s3"
  have "order_step True order_main_start ?s1" "order_step True ?s1 ?s2" "order_step True ?s2 ?s3" "order_step True ?s3 ?s4"
    unfolding order_step_def by (auto simp: order_defs order_main_start_def)
  then have "reach (order_step True) order_main_start ?s4" by (meson reach.intros)
  moreover have "both_print ?s4" by (simp add: both_print_def order_defs order_main_start_def)
  ultimately show "\<exists>s. reach (order_step True) order_main_start s \<and> both_print s" by blast
qed

section \<open>pthread_once with a routine that does not return\<close>

text \<open>\<open>cond\<close> is the condition of the loop in \<^verbatim>\<open>worker_1\<close>: an omitted one, as in the source, is true.\<close>

datatype once_pc =
    W_begin
  | W_call \<comment> \<open>about to call \<^verbatim>\<open>pthread_once\<close>\<close>
  | W_worker \<comment> \<open>in \<^verbatim>\<open>worker_1\<close>, at its first line\<close>
  | W_loop
  | W_tail \<comment> \<open>behind the loop\<close>
  | W_blocked \<comment> \<open>waits in \<^verbatim>\<open>pthread_once\<close> for the thread that runs the routine\<close>
  | W_return \<comment> \<open>\<^verbatim>\<open>pthread_once\<close> has returned\<close>
  | W_finished

datatype once_line = Work_begin | Worker_begin | Worker_end | Work_end

datatype once_control = Once_init | Once_running | Once_complete

record once_main =
  on_control :: once_control
  on_pc :: "nat \<Rightarrow> once_pc"
  on_out :: "once_line list"

definition once_main_start :: once_main where
  "once_main_start = \<lparr>on_control = Once_init, on_pc = (\<lambda>_. W_begin), on_out = []\<rparr>"

definition once_goto :: "nat \<Rightarrow> once_pc \<Rightarrow> once_line list \<Rightarrow> once_main \<Rightarrow> once_main" where
  "once_goto t p out s = s\<lparr>on_pc := (on_pc s)(t := p), on_out := on_out s @ out\<rparr>"

fun worker_1 :: "bool \<Rightarrow> nat \<Rightarrow> once_pc \<Rightarrow> once_main \<Rightarrow> once_main option" where
  "worker_1 cond t W_worker s = Some (once_goto t W_loop [Worker_begin] s)"
| "worker_1 cond t W_loop s = Some (once_goto t (if cond then W_loop else W_tail) [] s)"
| "worker_1 cond t W_tail s = Some (once_goto t W_return [Worker_end] (s\<lparr>on_control := Once_complete\<rparr>))"
| "worker_1 cond t _ s = None"

fun work_once :: "bool \<Rightarrow> nat \<Rightarrow> once_pc \<Rightarrow> once_main \<Rightarrow> once_main option" where
  "work_once cond t W_begin s = Some (once_goto t W_call [Work_begin] s)"
| "work_once cond t W_call s = Some (case on_control s of
       Once_init \<Rightarrow> once_goto t W_worker [] (s\<lparr>on_control := Once_running\<rparr>)
     | Once_running \<Rightarrow> once_goto t W_blocked [] s
     | Once_complete \<Rightarrow> once_goto t W_return [] s)"
| "work_once cond t W_blocked s = (if on_control s = Once_complete then Some (once_goto t W_return [] s) else None)"
| "work_once cond t W_return s = Some (once_goto t W_finished [Work_end] s)"
| "work_once cond t W_finished s = None"
| "work_once cond t p s = worker_1 cond t p s"

definition once_step :: "bool \<Rightarrow> once_main \<Rightarrow> once_main \<Rightarrow> bool" where
  "once_step cond s s' \<longleftrightarrow> (\<exists>t \<in> {1, 2}. work_once cond t (on_pc s t) s = Some s')"

definition once_joined :: "once_main \<Rightarrow> bool" where
  "once_joined s \<longleftrightarrow> on_pc s 1 = W_finished \<and> on_pc s 2 = W_finished"

text \<open>What holds of the two threads while the routine runs, and cannot stop to run.\<close>

definition once_inv :: "once_main \<Rightarrow> bool" where
  "once_inv s \<longleftrightarrow> on_control s \<noteq> Once_complete \<and> set (on_out s) \<subseteq> {Work_begin, Worker_begin} \<and>
     (\<forall>t. on_pc s t \<in> {W_begin, W_call, W_worker, W_loop, W_blocked}) \<and>
     (on_control s = Once_init \<longrightarrow> Worker_begin \<notin> set (on_out s) \<and> (\<forall>t. on_pc s t \<in> {W_begin, W_call})) \<and>
     (on_control s = Once_running \<longrightarrow> (\<exists>t \<in> {1, 2}. on_pc s t \<in> {W_worker, W_loop} \<and>
       (\<forall>u. u \<noteq> t \<longrightarrow> on_pc s u \<in> {W_begin, W_call, W_blocked}) \<and>
       count_list (on_out s) Worker_begin = of_bool (on_pc s t = W_loop)))"

lemma once_runner:
  assumes "once_inv s" and "on_control s = Once_running"
  obtains r where "r \<in> {1, 2}" and "on_pc s r \<in> {W_worker, W_loop}"
    and "\<And>u. u \<noteq> r \<Longrightarrow> on_pc s u \<in> {W_begin, W_call, W_blocked}"
    and "count_list (on_out s) Worker_begin = of_bool (on_pc s r = W_loop)"
  using assms unfolding once_inv_def by blast

lemma once_inv_start: "once_inv once_main_start"
  by (simp add: once_inv_def once_main_start_def)

lemma once_inv_step:
  assumes "once_inv s" and "once_step True s s'"
  shows "once_inv s'"
proof -
  obtain t where t: "t \<in> {1, 2}" and step: "work_once True t (on_pc s t) s = Some s'"
    using assms(2) by (auto simp: once_step_def)
  have pc: "on_pc s t \<in> {W_begin, W_call, W_worker, W_loop, W_blocked}" using assms(1) by (simp add: once_inv_def)
  show ?thesis
  proof (cases "on_control s")
    case Once_init
    then have all: "\<And>u. on_pc s u \<in> {W_begin, W_call}" and out: "set (on_out s) \<subseteq> {Work_begin, Worker_begin}"
      "Worker_begin \<notin> set (on_out s)" using assms(1) by (simp_all add: once_inv_def)
    consider "on_pc s t = W_begin" | "on_pc s t = W_call" using all [of t] by blast
    then show ?thesis
    proof cases
      case 1
      then have "s' = once_goto t W_call [Work_begin] s" using step by simp
      then show ?thesis using all out Once_init by (auto simp: once_inv_def once_goto_def)
    next
      case 2
      then have s': "s' = once_goto t W_worker [] (s\<lparr>on_control := Once_running\<rparr>)" using step Once_init by simp
      have "count_list (on_out s) Worker_begin = 0" using out(2) by (simp add: count_list_0_iff)
      then show ?thesis unfolding once_inv_def
        using all out(1) t by (auto simp: s' once_goto_def intro!: bexI [of _ t])
    qed
  next
    case Once_running
    then obtain r where r: "r \<in> {1, 2}" "on_pc s r \<in> {W_worker, W_loop}"
      "\<And>u. u \<noteq> r \<Longrightarrow> on_pc s u \<in> {W_begin, W_call, W_blocked}"
      "count_list (on_out s) Worker_begin = of_bool (on_pc s r = W_loop)" using once_runner [OF assms(1)] by metis
    have old: "set (on_out s) \<subseteq> {Work_begin, Worker_begin}"
      "\<And>u. on_pc s u \<in> {W_begin, W_call, W_worker, W_loop, W_blocked}" using assms(1) by (simp_all add: once_inv_def)
    consider p out where "t \<noteq> r" "s' = once_goto t p out s" "p \<in> {W_call, W_blocked}" "set out \<subseteq> {Work_begin}"
      | out where "t = r" "s' = once_goto t W_loop out s" "out = (if on_pc s r = W_loop then [] else [Worker_begin])"
      using pc r(2) r(3) [of t] Once_running step by (cases "on_pc s t"; cases "t = r") auto
    then have "on_control s' = Once_running" "set (on_out s') \<subseteq> {Work_begin, Worker_begin}"
      "\<forall>u. on_pc s' u \<in> {W_begin, W_call, W_worker, W_loop, W_blocked}" "on_pc s' r \<in> {W_worker, W_loop}"
      "\<forall>u. u \<noteq> r \<longrightarrow> on_pc s' u \<in> {W_begin, W_call, W_blocked}"
      "count_list (on_out s') Worker_begin = of_bool (on_pc s' r = W_loop)"
      using r(2-4) old Once_running count_list_0_iff [of _ Worker_begin]
      by (cases; auto simp: once_goto_def count_list_append)+
    then show ?thesis using r(1) unfolding once_inv_def by auto
  next
    case Once_complete
    then show ?thesis using assms(1) by (simp add: once_inv_def)
  qed
qed

text \<open>The program never ends: in every interleaving \<^verbatim>\<open>worker_1\<close> begins at most once and no thread passes
  \<^verbatim>\<open>pthread_once\<close>, so that neither \<^verbatim>\<open>end\<close> line is printed and no \<^verbatim>\<open>join\<close> returns, and some thread can always move.\<close>

theorem thread_once_never_ends:
  assumes "reach (once_step True) once_main_start s"
  shows "Work_end \<notin> set (on_out s) \<and> Worker_end \<notin> set (on_out s) \<and> count_list (on_out s) Worker_begin \<le> 1 \<and>
    on_pc s t \<noteq> W_finished \<and> \<not> once_joined s \<and> (\<exists>s'. once_step True s s')"
proof -
  have inv: "once_inv s" by (rule reach_invariant [where I = once_inv, OF assms once_inv_start once_inv_step])
  then have "on_pc s u \<in> {W_begin, W_call, W_worker, W_loop, W_blocked}" for u by (simp add: once_inv_def)
  then have "on_pc s t \<noteq> W_finished" "\<not> once_joined s" unfolding once_joined_def
    by (metis empty_iff insert_iff once_pc.distinct)+
  moreover from inv have out: "set (on_out s) \<subseteq> {Work_begin, Worker_begin}"
    by (simp add: once_inv_def)
  moreover have "count_list (on_out s) Worker_begin \<le> 1 \<and> (\<exists>s'. once_step True s s')"
  proof (cases "on_control s")
    case Once_init
    then have "Worker_begin \<notin> set (on_out s)" "on_pc s 1 \<in> {W_begin, W_call}" using inv by (simp_all add: once_inv_def)
    then show ?thesis unfolding once_step_def by (auto simp: count_list_0_iff)
  next
    case Once_running
    then obtain r where r: "r \<in> {1, 2}" "on_pc s r \<in> {W_worker, W_loop}"
      "count_list (on_out s) Worker_begin = of_bool (on_pc s r = W_loop)" using once_runner [OF inv] by metis
    then show ?thesis unfolding once_step_def by (intro conjI) (simp, auto)
  next
    case Once_complete
    then show ?thesis using inv by (simp add: once_inv_def)
  qed
  ultimately show ?thesis by auto
qed

end
