(* ===== verification/Lookup_Table.thy ===== *)
theory Lookup_Table
  imports Prelude
begin

text \<open>
  \<^verbatim>\<open>threadsafe_lookup_table\<close> (src/thread/threadsafe_lookup_table.cc): a vector of buckets, each a list of
  key-value pairs under its own shared mutex. An operation works on one bucket under that bucket's lock,
  so it is one atomic step. The hash function is a parameter, a \<^verbatim>\<open>size_t\<close> for each key; it stands for the
  function object \<^verbatim>\<open>hasher_\<close>. The class is read as if its spelling slips were repaired (\<^verbatim>\<open>find_entry_for\<close> returns
  a const iterator from a const member). \<^verbatim>\<open>remove_mapping\<close> calls a member that \<^verbatim>\<open>bucket_type\<close> does not have and
  cannot be instantiated, so it has no model. The interface of a concurrent dictionary is the locale
  \<open>dictionary\<close>; the table, and \<^verbatim>\<open>threadsafe_unordered_map\<close> from the same file, are interpretations of it.
\<close>

section \<open>The interface\<close>

locale dictionary_writer =
  fixes add :: "'k \<Rightarrow> 'v \<Rightarrow> 's \<Rightarrow> 's res"
    and content :: "'s \<Rightarrow> 'k \<rightharpoonup> 'v"
    and inv :: "'s \<Rightarrow> bool"
  assumes add_law: "inv s \<Longrightarrow> \<exists>s'. add k v s = Inr s' \<and> inv s' \<and> content s' = (content s)(k \<mapsto> v)"
begin

lemma add_all:
  "inv s \<Longrightarrow> \<exists>s'. foldR (\<lambda>(k, v). add k v) kvs s = Inr s' \<and> inv s' \<and> content s' = content s ++ map_of (rev kvs)"
proof (induction kvs arbitrary: s)
  case (Cons kv kvs)
  obtain k v where kv: "kv = (k, v)" by (cases kv)
  obtain s1 where s1: "add k v s = Inr s1" "inv s1" "content s1 = (content s)(k \<mapsto> v)"
    using add_law [OF Cons.prems] by blast
  have "content s ++ map_of (rev (kv # kvs)) = (content s)(k \<mapsto> v) ++ map_of (rev kvs)"
    by (rule ext) (simp add: kv map_add_def split: option.split)
  with Cons.IH [OF s1(2)] s1 kv show ?case by (simp del: fun_upd_apply)
qed simp

end

locale dictionary = dictionary_writer +
  fixes lookup :: "'s \<Rightarrow> 'k \<Rightarrow> 'v \<Rightarrow> 'v res"
  assumes lookup_law: "inv s \<Longrightarrow> lookup s k d = Inr (case content s k of None \<Rightarrow> d | Some v \<Rightarrow> v)"
begin

lemma last_added_is_found:
  assumes "inv s"
  shows "\<exists>s'. foldR (\<lambda>(k, v). add k v) kvs s = Inr s' \<and> inv s' \<and>
    (\<forall>k d. lookup s' k d = Inr (case (content s ++ map_of (rev kvs)) k of None \<Rightarrow> d | Some v \<Rightarrow> v))"
proof -
  obtain s' where s': "foldR (\<lambda>(k, v). add k v) kvs s = Inr s'" "inv s'" "content s' = content s ++ map_of (rev kvs)"
    using add_all [OF assms] by blast
  then show ?thesis by (intro exI [of _ s']) (simp add: lookup_law)
qed

text \<open>Updates of different keys commute, as far as lookups can tell.\<close>

lemma adds_commute:
  assumes "inv s" and "k \<noteq> l"
  shows "\<exists>s1 s2. bindR (add k v s) (add l w) = Inr s1 \<and> bindR (add l w s) (add k v) = Inr s2 \<and>
    (\<forall>x d. lookup s1 x d = lookup s2 x d)"
proof -
  obtain a where a: "add k v s = Inr a" "inv a" "content a = (content s)(k \<mapsto> v)" using add_law [OF assms(1)] by blast
  obtain b where b: "add l w s = Inr b" "inv b" "content b = (content s)(l \<mapsto> w)" using add_law [OF assms(1)] by blast
  obtain s1 where s1: "add l w a = Inr s1" "inv s1" "content s1 = (content a)(l \<mapsto> w)" using add_law [OF a(2)] by blast
  obtain s2 where s2: "add k v b = Inr s2" "inv s2" "content s2 = (content b)(k \<mapsto> v)" using add_law [OF b(2)] by blast
  have "content s1 = content s2" using s1(3) s2(3) a(3) b(3) assms(2) by (simp add: fun_upd_twist)
  then show ?thesis using a(1) b(1) s1(1,2) s2(1,2) by (simp add: lookup_law)
qed

end

section \<open>A bucket\<close>

type_synonym ('k, 'v) bucket_type = "('k \<times> 'v) list"

text \<open>\<^verbatim>\<open>std::find_if\<close>: the position of the first entry with the key, \<^verbatim>\<open>end()\<close> if there is none.\<close>

fun find_entry_for :: "'k \<Rightarrow> ('k, 'v) bucket_type \<Rightarrow> nat" where
  "find_entry_for key [] = 0"
| "find_entry_for key (item # data) = (if fst item = key then 0 else Suc (find_entry_for key data))"

definition bucket_value_for :: "'k \<Rightarrow> 'v \<Rightarrow> ('k, 'v) bucket_type \<Rightarrow> 'v" where
  "bucket_value_for key default_value data =
     (let found_entry = find_entry_for key data
      in if found_entry = length data then default_value else snd (data ! found_entry))"

definition bucket_add_or_update :: "'k \<Rightarrow> 'v \<Rightarrow> ('k, 'v) bucket_type \<Rightarrow> ('k, 'v) bucket_type" where
  "bucket_add_or_update key val data =
     (let found_entry = find_entry_for key data
      in if found_entry = length data then data @ [(key, val)]
         else data[found_entry := (fst (data ! found_entry), val)])"

section \<open>The table\<close>

record ('k, 'v) lookup_table =
  buckets :: "('k, 'v) bucket_type option list" \<comment> \<open>a \<^verbatim>\<open>scoped_ptr\<close> each\<close>
  hasher :: "'k \<Rightarrow> 64 word"

text \<open>
  The constructor. The initialiser \<^verbatim>\<open>hasher_(hasher_)\<close> copies the member from itself and not from the
  parameter: the parameter \<open>self\<close> is what that copy yields. The loop allocates every bucket.
\<close>

definition lookup_table_ctor :: "32 word \<Rightarrow> ('k \<Rightarrow> 64 word) \<Rightarrow> ('k \<Rightarrow> 64 word) \<Rightarrow> ('k, 'v) lookup_table" where
  "lookup_table_ctor num_bukets hash self =
     fold (\<lambda>i t. t\<lparr>buckets := (buckets t)[i := Some []]\<rparr>) [0..<unat num_bukets]
       \<lparr>buckets = replicate (unat num_bukets) None, hasher = self\<rparr>"

definition get_bucket :: "'k \<Rightarrow> ('k, 'v) lookup_table \<Rightarrow> nat res" where
  "get_bucket key t =
     (if length (buckets t) = 0 then Inl DivisionByZero
      else let bucket_index = unat (hasher t key mod of_nat (length (buckets t)))
        in if buckets t ! bucket_index = None then Inl AssertFailed else Inr bucket_index)"

definition table_value_for :: "('k, 'v) lookup_table \<Rightarrow> 'k \<Rightarrow> 'v \<Rightarrow> 'v res" where
  "table_value_for t key default_value =
     bindR (get_bucket key t) (\<lambda>i. Inr (bucket_value_for key default_value (the (buckets t ! i))))"

definition table_add_or_update :: "'k \<Rightarrow> 'v \<Rightarrow> ('k, 'v) lookup_table \<Rightarrow> ('k, 'v) lookup_table res" where
  "table_add_or_update key val t =
     bindR (get_bucket key t)
       (\<lambda>i. Inr (t\<lparr>buckets := (buckets t)[i := Some (bucket_add_or_update key val (the (buckets t ! i)))]\<rparr>))"

text \<open>
  \<^verbatim>\<open>threadsafe_unordered_map\<close>: \<^verbatim>\<open>operator[]\<close> inserts the value-initialised value for a missing key; the
  reference it returns is written after the lock is gone. Its \<^verbatim>\<open>value_for\<close> does not compile.
\<close>

definition unordered_map_subscript :: "'v \<Rightarrow> 'k \<Rightarrow> ('k \<rightharpoonup> 'v) \<Rightarrow> ('v \<times> ('k \<rightharpoonup> 'v))" where
  "unordered_map_subscript zero key m = (case m key of Some v \<Rightarrow> (v, m) | None \<Rightarrow> (zero, m(key \<mapsto> zero)))"

section \<open>Lemmas\<close>

lemma find_entry_bound: "find_entry_for k data \<le> length data"
  by (induction data) auto

lemma find_entry_end: "find_entry_for k data = length data \<longleftrightarrow> map_of data k = None"
  by (induction data) auto

lemma find_entry_found:
  "map_of data k = Some v \<Longrightarrow> find_entry_for k data < length data \<and> data ! find_entry_for k data = (k, v)"
  by (induction data) auto

lemma bucket_value_for_map: "bucket_value_for k d data = (case map_of data k of None \<Rightarrow> d | Some v \<Rightarrow> v)"
  using find_entry_end [of k data] find_entry_found [of data k]
  by (auto simp: bucket_value_for_def Let_def split: option.split)

lemma map_of_upd_index:
  "map_of data k = Some v \<Longrightarrow> map_of (data[find_entry_for k data := (k, w)]) = (map_of data)(k \<mapsto> w)"
  by (induction data) (auto simp: fun_upd_twist)

lemma map_fst_upd:
  "i < length data \<Longrightarrow> fst (data ! i) = k \<Longrightarrow> map fst (data[i := (k, w)]) = map fst data"
  by (simp add: map_update list_update_same_conv)

lemma bucket_add_or_update_map: "map_of (bucket_add_or_update k v data) = (map_of data)(k \<mapsto> v)"
proof (cases "map_of data k")
  case None
  then show ?thesis using find_entry_end [of k data]
    by (auto simp: bucket_add_or_update_def map_add_def fun_eq_iff split: option.split)
next
  case (Some w)
  then show ?thesis using find_entry_end [of k data] find_entry_found [OF Some] map_of_upd_index [OF Some]
    by (simp add: bucket_add_or_update_def)
qed

lemma bucket_add_or_update_keys:
  "map fst (bucket_add_or_update k v data) = (if k \<in> fst ` set data then map fst data else map fst data @ [k])"
proof (cases "map_of data k")
  case None
  then show ?thesis using find_entry_end [of k data] by (auto simp: bucket_add_or_update_def map_of_eq_None_iff)
next
  case (Some w)
  then have "k \<in> fst ` set data" by (metis map_of_eq_None_iff option.distinct(1))
  then show ?thesis using find_entry_end [of k data] find_entry_found [OF Some] Some
    by (simp add: bucket_add_or_update_def map_fst_upd)
qed

definition bucket_index :: "('k, 'v) lookup_table \<Rightarrow> 'k \<Rightarrow> nat" where
  "bucket_index t k = unat (hasher t k) mod length (buckets t)"

definition table_content :: "('k, 'v) lookup_table \<Rightarrow> 'k \<rightharpoonup> 'v" where
  "table_content t k = map_of (the (buckets t ! bucket_index t k)) k"

text \<open>Every bucket exists, holds each key once, and only keys that hash to it.\<close>

definition table_ok :: "('k, 'v) lookup_table \<Rightarrow> bool" where
  "table_ok t \<longleftrightarrow> 0 < length (buckets t) \<and> length (buckets t) < 2 ^ 32 \<and>
     (\<forall>i < length (buckets t). \<exists>data. buckets t ! i = Some data \<and> distinct (map fst data) \<and>
        (\<forall>k \<in> fst ` set data. bucket_index t k = i))"

lemma bucket_index_word:
  assumes "table_ok t"
  shows "unat (hasher t k mod of_nat (length (buckets t))) = bucket_index t k"
proof -
  have "length (buckets t) < 2 ^ 64" using assms by (simp add: table_ok_def)
  then have "unat (of_nat (length (buckets t)) :: 64 word) = length (buckets t)"
    by (simp add: unat_of_nat)
  then show ?thesis by (simp add: unat_mod_distrib bucket_index_def)
qed

lemma get_bucket_ok:
  assumes "table_ok t"
  shows "\<exists>data. get_bucket k t = Inr (bucket_index t k) \<and> bucket_index t k < length (buckets t) \<and>
    buckets t ! bucket_index t k = Some data \<and> distinct (map fst data) \<and>
    (\<forall>l \<in> fst ` set data. bucket_index t l = bucket_index t k)"
proof -
  have lt: "bucket_index t k < length (buckets t)" using assms by (simp add: table_ok_def bucket_index_def)
  then obtain data where data: "buckets t ! bucket_index t k = Some data" "distinct (map fst data)"
    "\<forall>l \<in> fst ` set data. bucket_index t l = bucket_index t k" using assms unfolding table_ok_def by blast
  have "get_bucket k t = Inr (bucket_index t k)"
    using assms data(1) by (simp add: get_bucket_def Let_def bucket_index_word [OF assms] table_ok_def)
  with lt data show ?thesis by blast
qed

lemma table_add_law:
  assumes "table_ok t"
  shows "\<exists>t'. table_add_or_update k v t = Inr t' \<and> table_ok t' \<and> table_content t' = (table_content t)(k \<mapsto> v)"
proof -
  obtain data where g: "get_bucket k t = Inr (bucket_index t k)" and lt: "bucket_index t k < length (buckets t)"
    and data: "buckets t ! bucket_index t k = Some data" "distinct (map fst data)"
      "\<forall>l \<in> fst ` set data. bucket_index t l = bucket_index t k"
    using get_bucket_ok [OF assms, of k] by blast
  let ?d = "bucket_add_or_update k v data"
  let ?t = "t\<lparr>buckets := (buckets t)[bucket_index t k := Some ?d]\<rparr>"
  have idx: "bucket_index ?t l = bucket_index t l" for l by (simp add: bucket_index_def)
  have keys: "distinct (map fst ?d)" "\<And>l. l \<in> fst ` set ?d \<Longrightarrow> bucket_index t l = bucket_index t k"
  proof -
    show "distinct (map fst ?d)" using data(2) by (auto simp: bucket_add_or_update_keys)
    have "fst ` set ?d = insert k (fst ` set data)"
      using arg_cong [OF bucket_add_or_update_keys [of k v data], of set] by (auto split: if_splits)
    then show "bucket_index t l = bucket_index t k" if "l \<in> fst ` set ?d" for l using data(3) that by auto
  qed
  have "\<exists>data. buckets ?t ! i = Some data \<and> distinct (map fst data) \<and> (\<forall>k \<in> fst ` set data. bucket_index t k = i)"
    if "i < length (buckets t)" for i
    using assms keys that unfolding table_ok_def by (cases "i = bucket_index t k") simp_all
  then have "table_ok ?t" using assms unfolding table_ok_def idx by simp
  moreover have "table_content ?t = (table_content t)(k \<mapsto> v)"
    using lt data(1) by (auto simp: table_content_def idx nth_list_update bucket_add_or_update_map fun_eq_iff)
  ultimately show ?thesis using g data(1) by (simp add: table_add_or_update_def)
qed

lemma table_value_for_law:
  assumes "table_ok t"
  shows "table_value_for t k d = Inr (case table_content t k of None \<Rightarrow> d | Some v \<Rightarrow> v)"
  using get_bucket_ok [OF assms, of k]
  by (auto simp: table_value_for_def table_content_def bucket_value_for_map)

interpretation lt: dictionary table_add_or_update table_content table_ok table_value_for
  by unfold_locales (auto simp: table_add_law table_value_for_law)

interpretation um: dictionary_writer "\<lambda>k v m. Inr ((snd (unordered_map_subscript zero k m))(k \<mapsto> v))" "\<lambda>m. m" "\<lambda>_. True"
  by unfold_locales (auto simp: unordered_map_subscript_def split: option.split)

section \<open>Properties\<close>

lemma lookup_table_ctor_buckets:
  "lookup_table_ctor n h self = \<lparr>buckets = replicate (unat n) (Some []), hasher = self\<rparr>"
proof -
  have "fold (\<lambda>i t. t\<lparr>buckets := (buckets t)[i := Some []]\<rparr>) [0..<m] \<lparr>buckets = replicate k None, hasher = self\<rparr> =
      \<lparr>buckets = replicate m (Some []) @ replicate (k - m) None, hasher = self\<rparr>" if "m \<le> k" for m k
    using that
  proof (induction m)
    case (Suc m)
    then obtain j where "k - m = Suc j" "k - Suc m = j" by (metis Suc_diff_Suc Suc_le_eq)
    with Suc show ?case by (simp add: list_update_append replicate_app_Cons_same)
  qed simp
  from this [of "unat n" "unat n"] show ?thesis by (simp add: lookup_table_ctor_def)
qed

lemma table_ok_ctor: "0 < n \<Longrightarrow> table_ok (lookup_table_ctor n h self)"
  using unsigned_less [of n] by (simp add: lookup_table_ctor_buckets table_ok_def bucket_index_def unat_gt_0 word_gt_0)

lemma table_content_ctor: "0 < n \<Longrightarrow> table_content (lookup_table_ctor n h self) = Map.empty"
  by (rule ext) (simp add: lookup_table_ctor_buckets table_content_def bucket_index_def unat_gt_0 word_gt_0)

text \<open>The entries of all buckets, counted.\<close>

definition entry_count :: "('k, 'v) lookup_table \<Rightarrow> nat" where
  "entry_count t = (\<Sum>b \<leftarrow> buckets t. length (the b))"

lemma entry_count_card:
  assumes "table_ok t"
  shows "entry_count t = card (dom (table_content t))"
proof -
  let ?n = "length (buckets t)" and ?K = "\<lambda>i. fst ` set (the (buckets t ! i))"
  have ok: "distinct (map fst (the (buckets t ! i))) \<and> (\<forall>k \<in> ?K i. bucket_index t k = i)" if "i < ?n" for i
    using assms that unfolding table_ok_def by fastforce
  have "length (the (buckets t ! i)) = card (?K i)" if "i < ?n" for i
    using ok [OF that] distinct_card [of "map fst (the (buckets t ! i))"] by simp
  then have "entry_count t = (\<Sum>i < ?n. card (?K i))"
    by (simp add: entry_count_def sum_list_sum_nth atLeast0LessThan)
  also have "\<dots> = card (\<Union>i < ?n. ?K i)"
  proof (rule card_UN_disjoint [symmetric])
    have "?K i \<inter> ?K j = {}" if "i < ?n" "j < ?n" "i \<noteq> j" for i j
      using ok [OF that(1)] ok [OF that(2)] that(3) by (metis disjoint_iff)
    then show "\<forall>i \<in> {..< ?n}. \<forall>j \<in> {..< ?n}. i \<noteq> j \<longrightarrow> ?K i \<inter> ?K j = {}" by blast
  qed simp_all
  also have "(\<Union>i < ?n. ?K i) = dom (table_content t)"
  proof (rule set_eqI)
    fix k
    have lt: "bucket_index t k < ?n" using assms by (simp add: table_ok_def bucket_index_def)
    have "i = bucket_index t k" if "i < ?n" "k \<in> ?K i" for i using ok [OF that(1)] that(2) by metis
    then have "(\<exists>i < ?n. k \<in> ?K i) = (k \<in> ?K (bucket_index t k))" using lt by metis
    then have "k \<in> (\<Union>i < ?n. ?K i) \<longleftrightarrow> k \<in> ?K (bucket_index t k)" by (simp only: UN_iff Bex_def lessThan_iff)
    also have "\<dots> \<longleftrightarrow> table_content t k \<noteq> None" unfolding table_content_def map_of_eq_None_iff by simp
    finally show "k \<in> (\<Union>i < ?n. ?K i) \<longleftrightarrow> k \<in> dom (table_content t)" unfolding domIff .
  qed
  finally show ?thesis .
qed

text \<open>(C24) The lookup table is a map for every hash function: after any sequence of \<^verbatim>\<open>add_or_update_mapping\<close>s on a
  new table with at least one bucket, \<^verbatim>\<open>value_for\<close> returns the value last stored for the key, or the default;
  every key occupies one entry, so that the table has as many entries as there are keys; and no bucket is
  out of range. A table made with no buckets divides by zero in every operation.\<close>

theorem lookup_table_is_a_map:
  "(0 < n \<longrightarrow> (\<exists>t. foldR (\<lambda>(k, v). table_add_or_update k v) kvs (lookup_table_ctor n h self) = Inr t \<and>
      (\<forall>k d. table_value_for t k d = Inr (case map_of (rev kvs) k of None \<Rightarrow> d | Some v \<Rightarrow> v)) \<and>
      entry_count t = card (fst ` set kvs))) \<and>
   table_value_for (lookup_table_ctor 0 h self) k d = Inl DivisionByZero \<and>
   table_add_or_update k v (lookup_table_ctor 0 h self) = Inl DivisionByZero"
proof (intro conjI impI)
  assume n: "0 < n"
  obtain t where t: "foldR (\<lambda>(k, v). table_add_or_update k v) kvs (lookup_table_ctor n h self) = Inr t" "table_ok t"
    "table_content t = map_of (rev kvs)"
    using lt.add_all [OF table_ok_ctor [OF n], of kvs h self] by (auto simp: table_content_ctor [OF n])
  then show "\<exists>t. foldR (\<lambda>(k, v). table_add_or_update k v) kvs (lookup_table_ctor n h self) = Inr t \<and>
      (\<forall>k d. table_value_for t k d = Inr (case map_of (rev kvs) k of None \<Rightarrow> d | Some v \<Rightarrow> v)) \<and>
      entry_count t = card (fst ` set kvs)"
    by (intro exI [of _ t]) (simp add: lt.lookup_law entry_count_card dom_map_of_conv_image_fst)
qed (simp_all add: table_value_for_def table_add_or_update_def get_bucket_def lookup_table_ctor_buckets)

text \<open>Keys 1 and 20 share a bucket of the default table.\<close>

theorem lookup_table_is_a_map_witness:
  "\<exists>t. foldR (\<lambda>(k, v). table_add_or_update k v) [(1, 10), (20, 11), (1, 12)] (lookup_table_ctor 19 of_nat of_nat) = Inr t \<and>
     table_value_for t (1 :: nat) 0 = Inr (12 :: int) \<and> table_value_for t 20 0 = Inr 11 \<and>
     table_value_for t 2 7 = Inr 7 \<and> entry_count t = 2"
  using lookup_table_is_a_map [of 19 "[(1 :: nat, 10 :: int), (20, 11), (1, 12)]" of_nat of_nat, THEN conjunct1]
  by (auto simp: card_insert_if)

end
