(* ===== verification/Queue_Programs.thy ===== *)
theory Queue_Programs
  imports Wait_Notify Lookup_Table Timestamps
begin

text \<open>
  The two programs that exercise the containers of src/thread: the \<^verbatim>\<open>main\<close> of BlockingQueue.cc, in which one
  thread puts numbers into a queue and another takes as many, and that of threadsafe_lookup_table.cc, in
  which one thread stores the identity in a table while another looks keys up. The threads' calls are
  the steps of \<open>Wait_Notify\<close> and of \<open>Lookup_Table\<close>. The number of rounds is the parameter \<open>n\<close>, in the source
  ten million and a hundred million; a loop variable, a \<open>nat\<close> here, counts to it and so fits an \<^verbatim>\<open>int\<close>.
\<close>

section \<open>The program of BlockingQueue.cc\<close>

text \<open>Thread 1 runs \<^verbatim>\<open>work1\<close>, thread 2 \<^verbatim>\<open>work2\<close>; each has a loop variable \<^verbatim>\<open>i\<close>.\<close>

record queue_main =
  qm_queue :: "nat wn"
  qm_i1 :: nat
  qm_i2 :: nat

definition queue_main_start :: queue_main where
  "queue_main_start = \<lparr>qm_queue = wn_start, qm_i1 = 0, qm_i2 = 0\<rparr>"

text \<open>A step of a thread is a step of the queue's protocol in which that thread moves on.\<close>

inductive queue_work1 :: "nat \<Rightarrow> queue_main \<Rightarrow> queue_main \<Rightarrow> bool" for n where
  call_put: "qm_i1 s < n \<Longrightarrow> wn_pc (qm_queue s) 1 = Idle \<Longrightarrow> BlockingQueue_step (qm_queue s) q \<Longrightarrow>
     wn_pc q 1 = Pushing (qm_i1 s) \<Longrightarrow> queue_work1 n s (s\<lparr>qm_queue := q\<rparr>)"
| in_put: "wn_pc (qm_queue s) 1 = Pushing x \<Longrightarrow> BlockingQueue_step (qm_queue s) q \<Longrightarrow>
     wn_pc q 1 = Pushed \<Longrightarrow> queue_work1 n s (s\<lparr>qm_queue := q\<rparr>)"
| end_put: "wn_pc (qm_queue s) 1 = Pushed \<Longrightarrow> BlockingQueue_step (qm_queue s) q \<Longrightarrow>
     wn_pc q 1 = Idle \<Longrightarrow> queue_work1 n s (s\<lparr>qm_queue := q, qm_i1 := qm_i1 s + 1\<rparr>)"

inductive queue_work2 :: "nat \<Rightarrow> queue_main \<Rightarrow> queue_main \<Rightarrow> bool" for n where
  call_take: "qm_i2 s < n \<Longrightarrow> wn_pc (qm_queue s) 2 = Idle \<Longrightarrow> BlockingQueue_step (qm_queue s) q \<Longrightarrow>
     wn_pc q 2 = Checking \<Longrightarrow> queue_work2 n s (s\<lparr>qm_queue := q\<rparr>)"
| in_take: "(wn_pc (qm_queue s) 2, wn_pc q 2) \<in> {(Checking, Drowsy), (Drowsy, Asleep), (Woken, Checking)} \<Longrightarrow>
     BlockingQueue_step (qm_queue s) q \<Longrightarrow> queue_work2 n s (s\<lparr>qm_queue := q\<rparr>)"
| end_take: "wn_pc (qm_queue s) 2 = Checking \<Longrightarrow> BlockingQueue_step (qm_queue s) q \<Longrightarrow>
     wn_pc q 2 = Idle \<Longrightarrow> queue_work2 n s (s\<lparr>qm_queue := q, qm_i2 := qm_i2 s + 1\<rparr>)"

definition queue_work :: "nat \<Rightarrow> queue_main \<Rightarrow> queue_main \<Rightarrow> bool" where
  "queue_work n s t \<longleftrightarrow> queue_work1 n s t \<or> queue_work2 n s t"

definition queue_spurious :: "queue_main \<Rightarrow> queue_main \<Rightarrow> bool" where
  "queue_spurious s t \<longleftrightarrow> wn_pc (qm_queue s) 2 = Asleep \<and> t = s\<lparr>qm_queue := goto 2 Woken (qm_queue s)\<rparr>"

text \<open>Both \<^verbatim>\<open>join\<close>s have returned.\<close>

definition queue_joined :: "nat \<Rightarrow> queue_main \<Rightarrow> bool" where
  "queue_joined n s \<longleftrightarrow> wn_pc (qm_queue s) 1 = Idle \<and> \<not> qm_i1 s < n \<and> wn_pc (qm_queue s) 2 = Idle \<and> \<not> qm_i2 s < n"

text \<open>The seconds \<^verbatim>\<open>main\<close> prints.\<close>

definition queue_main_cost :: "timestamp \<Rightarrow> timestamp \<Rightarrow> rat" where
  "queue_main_cost began ended = timeDiffence ended began"

section \<open>The queue of two threads\<close>

inductive_cases queue_work1E: "queue_work1 n s t"
inductive_cases queue_work2E: "queue_work2 n s t"

lemma queue_spurious_step: "queue_spurious s t \<Longrightarrow> BlockingQueue_step (qm_queue s) (qm_queue t)"
  by (auto simp: queue_spurious_def BlockingQueue_step_def intro: wn_step.spurious)

text \<open>The state of the queue after a step, from the program counters of the thread that moves.\<close>

lemma step_put_lock:
  "BlockingQueue_step s s' \<Longrightarrow> wn_pc s 1 = Idle \<Longrightarrow> wn_pc s' 1 = Pushing x \<Longrightarrow>
    s' = goto 1 (Pushing x) (set_owner (Some 1) s)"
  unfolding BlockingQueue_step_def by (erule wn_stepE) (auto simp: wn_updates split: if_splits)

lemma step_put_push:
  "BlockingQueue_step s s' \<Longrightarrow> wn_pc s 1 = Pushing x \<Longrightarrow> wn_pc s' 1 = Pushed \<Longrightarrow>
    s' = goto 1 Pushed (set_owner None (push_item x s))"
  unfolding BlockingQueue_step_def by (erule wn_stepE) (auto simp: wn_updates split: if_splits)

lemma step_notify:
  "BlockingQueue_step s s' \<Longrightarrow> wn_pc s 1 = Pushed \<Longrightarrow> wn_pc s' 1 = Idle \<Longrightarrow>
    (\<exists>u. wn_pc s u = Asleep \<and> s' = goto 1 Idle (goto u Woken s)) \<or>
    (\<forall>u. wn_pc s u \<noteq> Asleep) \<and> s' = goto 1 Idle s"
  unfolding BlockingQueue_step_def by (erule wn_stepE) (auto simp: wn_updates split: if_splits)

lemma step_take_lock:
  "BlockingQueue_step s s' \<Longrightarrow> wn_pc s 2 \<in> {Idle, Woken} \<Longrightarrow> wn_pc s' 2 = Checking \<Longrightarrow>
    s' = goto 2 Checking (set_owner (Some 2) s)"
  unfolding BlockingQueue_step_def by (erule wn_stepE) (auto simp: wn_updates split: if_splits)

lemma step_take_check:
  "BlockingQueue_step s s' \<Longrightarrow> wn_pc s 2 = Checking \<Longrightarrow> wn_pc s' 2 = Drowsy \<Longrightarrow>
    wn_queue s = [] \<and> s' = goto 2 Drowsy s"
  unfolding BlockingQueue_step_def by (erule wn_stepE) (auto simp: wn_updates split: if_splits)

lemma step_take_sleep:
  "BlockingQueue_step s s' \<Longrightarrow> wn_pc s 2 = Drowsy \<Longrightarrow> wn_pc s' 2 = Asleep \<Longrightarrow>
    s' = goto 2 Asleep (set_owner None s)"
  unfolding BlockingQueue_step_def by (erule wn_stepE) (auto simp: wn_updates split: if_splits)

lemma step_take_item:
  "BlockingQueue_step s s' \<Longrightarrow> wn_pc s 2 = Checking \<Longrightarrow> wn_pc s' 2 = Idle \<Longrightarrow>
    wn_queue s \<noteq> [] \<and> s' = goto 2 Idle (set_owner None (take_item hd tl s))"
  unfolding BlockingQueue_step_def by (erule wn_stepE) (auto simp: wn_updates split: if_splits)

lemmas queue_moves = step_put_lock step_put_push step_notify step_take_lock step_take_check step_take_sleep step_take_item

lemma queue_work_step: "queue_work n s t \<Longrightarrow> BlockingQueue_step (qm_queue s) (qm_queue t)"
  unfolding queue_work_def by (auto elim: queue_work1E queue_work2E)

text \<open>Where the two threads are, and what has gone through the queue.\<close>

definition qm_inv :: "nat \<Rightarrow> queue_main \<Rightarrow> bool" where
  "qm_inv n s \<longleftrightarrow> wn_inv (qm_queue s) \<and>
     (\<forall>t. t \<noteq> 1 \<and> t \<noteq> 2 \<longrightarrow> wn_pc (qm_queue s) t = Idle) \<and>
     wn_pc (qm_queue s) 1 \<in> {Idle, Pushing (qm_i1 s), Pushed} \<and>
     wn_pc (qm_queue s) 2 \<in> {Idle, Checking, Drowsy, Asleep, Woken} \<and>
     (wn_pc (qm_queue s) 1 \<noteq> Idle \<longrightarrow> qm_i1 s < n) \<and> qm_i1 s \<le> n \<and>
     (wn_pc (qm_queue s) 2 \<noteq> Idle \<longrightarrow> qm_i2 s < n) \<and> qm_i2 s \<le> n \<and>
     wn_put (qm_queue s) = [0..<qm_i1 s + of_bool (wn_pc (qm_queue s) 1 = Pushed)] \<and>
     length (wn_taken (qm_queue s)) = qm_i2 s"

lemma qm_inv_start: "qm_inv n queue_main_start"
  using wn_inv_start by (simp add: qm_inv_def queue_main_start_def wn_start_def)

lemma qm_invD:
  assumes "qm_inv n s"
  shows "wn_inv (qm_queue s)" "length (wn_taken (qm_queue s)) = qm_i2 s"
    "wn_put (qm_queue s) = [0..<qm_i1 s + of_bool (wn_pc (qm_queue s) 1 = Pushed)]"
  using assms unfolding qm_inv_def by blast+

lemma qm_log:
  assumes "qm_inv n s"
  shows "wn_taken (qm_queue s) = [0..<qm_i2 s]"
    "qm_i2 s + length (wn_queue (qm_queue s)) = qm_i1 s + of_bool (wn_pc (qm_queue s) 1 = Pushed)"
proof -
  define p where "p = qm_i1 s + of_bool (wn_pc (qm_queue s) 1 = Pushed)"
  have put: "[0..<p] = wn_taken (qm_queue s) @ wn_queue (qm_queue s)"
    using qm_invD(1,3) [OF assms] by (simp only: wn_inv_def p_def)
  have all: "qm_i2 s + length (wn_queue (qm_queue s)) = p"
    using arg_cong [OF put, of length] qm_invD(2) [OF assms] by simp
  then show "qm_i2 s + length (wn_queue (qm_queue s)) = qm_i1 s + of_bool (wn_pc (qm_queue s) 1 = Pushed)"
    by (simp only: p_def)
  show "wn_taken (qm_queue s) = [0..<qm_i2 s]"
    using arg_cong [OF put, of "take (qm_i2 s)"] all qm_invD(2) [OF assms] by (simp add: take_upt)
qed

text \<open>The moves of the two threads.\<close>

abbreviation with_queue :: "queue_main \<Rightarrow> nat wn \<Rightarrow> queue_main" where
  "with_queue s q \<equiv> s\<lparr>qm_queue := q\<rparr>"

lemma queue_work1_cases:
  assumes "queue_work1 n s t" and inv: "qm_inv n s"
  obtains "wn_pc (qm_queue s) 1 = Idle" "qm_i1 s < n"
      "t = with_queue s (goto 1 (Pushing (qm_i1 s)) (set_owner (Some 1) (qm_queue s)))"
    | "wn_pc (qm_queue s) 1 = Pushing (qm_i1 s)"
      "t = with_queue s (goto 1 Pushed (set_owner None (push_item (qm_i1 s) (qm_queue s))))"
    | "wn_pc (qm_queue s) 1 = Pushed" "wn_pc (qm_queue s) 2 = Asleep"
      "t = with_queue s (goto 1 Idle (goto 2 Woken (qm_queue s)))\<lparr>qm_i1 := qm_i1 s + 1\<rparr>"
    | "wn_pc (qm_queue s) 1 = Pushed" "t = with_queue s (goto 1 Idle (qm_queue s))\<lparr>qm_i1 := qm_i1 s + 1\<rparr>"
  using assms(1)
proof cases
  case (call_put q)
  with step_put_lock [OF call_put(4,3,5)] that(1) show ?thesis by simp
next
  case (in_put x q)
  then have "x = qm_i1 s" using inv by (auto simp: qm_inv_def)
  with step_put_push [OF in_put(3,2,4)] in_put that(2) show ?thesis by simp
next
  case (end_put q)
  consider u where "wn_pc (qm_queue s) u = Asleep" "q = goto 1 Idle (goto u Woken (qm_queue s))"
    | "q = goto 1 Idle (qm_queue s)" using step_notify [OF end_put(3,2,4)] by blast
  then show ?thesis
  proof cases
    case (1 u)
    then have "u = 2" using inv end_put(2) by (cases "u = 1"; cases "u = 2") (simp_all add: qm_inv_def)
    then show ?thesis using 1 end_put(1,2) that(3) by simp
  next
    case 2
    then show ?thesis using end_put(1,2) that(4) by simp
  qed
qed

lemma queue_work2_cases:
  assumes "queue_work2 n s t"
  obtains "wn_pc (qm_queue s) 2 = Idle" "qm_i2 s < n" "t = with_queue s (goto 2 Checking (set_owner (Some 2) (qm_queue s)))"
    | "wn_pc (qm_queue s) 2 = Checking" "t = with_queue s (goto 2 Drowsy (qm_queue s))"
    | "wn_pc (qm_queue s) 2 = Drowsy" "t = with_queue s (goto 2 Asleep (set_owner None (qm_queue s)))"
    | "wn_pc (qm_queue s) 2 = Woken" "t = with_queue s (goto 2 Checking (set_owner (Some 2) (qm_queue s)))"
    | "wn_pc (qm_queue s) 2 = Checking"
      "t = with_queue s (goto 2 Idle (set_owner None (take_item hd tl (qm_queue s))))\<lparr>qm_i2 := qm_i2 s + 1\<rparr>"
  using assms
proof cases
  case (call_take q)
  with step_take_lock [OF call_take(4)] that(1) show ?thesis by simp
next
  case (in_take q)
  with step_take_lock [OF in_take(3)] step_take_check [OF in_take(3)] step_take_sleep [OF in_take(3)] that(2,3,4)
  show ?thesis by auto
next
  case (end_take q)
  with step_take_item [OF end_take(3)] that(5) show ?thesis by simp
qed

lemma wn_inv_work: "queue_work n s t \<Longrightarrow> qm_inv n s \<Longrightarrow> wn_inv (qm_queue t)"
  using queue_work_step [of n s t] wn_inv_step by (auto simp: qm_inv_def)

lemma qm_inv_work1:
  assumes "queue_work1 n s t" and "qm_inv n s"
  shows "qm_inv n t"
proof -
  have wn: "wn_inv (qm_queue t)" using assms by (intro wn_inv_work) (simp_all add: queue_work_def)
  show ?thesis by (rule queue_work1_cases [OF assms]) (use assms(2) wn in \<open>simp_all add: qm_inv_def wn_updates\<close>)
qed

lemma qm_inv_work2:
  assumes "queue_work2 n s t" and "qm_inv n s"
  shows "qm_inv n t"
proof -
  have wn: "wn_inv (qm_queue t)" using assms by (intro wn_inv_work) (simp_all add: queue_work_def)
  show ?thesis by (rule queue_work2_cases [OF assms(1)]) (use assms(2) wn in \<open>simp_all add: qm_inv_def wn_updates\<close>)
qed

lemma qm_inv_spurious: "queue_spurious s t \<Longrightarrow> qm_inv n s \<Longrightarrow> qm_inv n t"
  using wn_inv_step [of "qm_queue s" "qm_queue t"] queue_spurious_step [of s t]
  by (auto simp: qm_inv_def wn_updates queue_spurious_def)

lemma qm_inv_work: "qm_inv n s \<Longrightarrow> queue_work n s t \<Longrightarrow> qm_inv n t"
  unfolding queue_work_def using qm_inv_work1 qm_inv_work2 by blast

section \<open>Every run ends, with everything taken\<close>

fun put_rank :: "nat pc \<Rightarrow> nat" where
  "put_rank (Pushing x) = 1"
| "put_rank Pushed = 2"
| "put_rank _ = 0"

fun take_rank :: "nat pc \<Rightarrow> nat" where
  "take_rank Idle = 3"
| "take_rank Woken = 3"
| "take_rank Checking = 2"
| "take_rank Drowsy = 1"
| "take_rank _ = 0"

text \<open>A notification can raise the rank of the consumer from 0 to 3, so a round of the producer weighs 6.\<close>

definition qm_rank :: "nat \<Rightarrow> queue_main \<Rightarrow> nat" where
  "qm_rank n s = 6 * (n - qm_i1 s) - put_rank (wn_pc (qm_queue s) 1) + 2 * (n - qm_i2 s) + take_rank (wn_pc (qm_queue s) 2)"

lemma rounds_left: "i < n \<Longrightarrow> \<exists>d. n - i = Suc d \<and> n - Suc i = d"
  by (rule exI [of _ "n - Suc i"]) simp

lemma qm_rank_work1:
  assumes "queue_work1 n s t" and "qm_inv n s"
  shows "qm_rank n t < qm_rank n s"
  by (rule queue_work1_cases [OF assms])
    (use assms(2) rounds_left [of "qm_i1 s" n] in \<open>auto simp: qm_inv_def qm_rank_def wn_updates\<close>)

lemma qm_rank_work2:
  assumes "queue_work2 n s t" and "qm_inv n s"
  shows "qm_rank n t < qm_rank n s"
  by (rule queue_work2_cases [OF assms(1)])
    (use assms(2) rounds_left [of "qm_i2 s" n] in \<open>auto simp: qm_inv_def qm_rank_def wn_updates\<close>)

lemma qm_rank_spurious: "queue_spurious s t \<Longrightarrow> qm_rank n t \<le> qm_rank n s + 3"
  by (auto simp: queue_spurious_def qm_rank_def wn_updates)

definition queue_main_run :: "nat \<Rightarrow> nat \<Rightarrow> nat \<Rightarrow> queue_main \<Rightarrow> bool" where
  "queue_main_run n m k s \<longleftrightarrow> counted_run (queue_work n) queue_spurious m k queue_main_start s"

lemma queue_main_run_bound:
  assumes "queue_main_run n m k s"
  shows "qm_inv n s \<and> m + qm_rank n s \<le> 8 * n + 3 + 4 * k"
proof -
  have "qm_inv n s \<and> m + qm_rank n s \<le> qm_rank n queue_main_start + 4 * k"
    using assms unfolding queue_main_run_def
    by (rule counted_run_bound [where I = "qm_inv n", OF _ qm_inv_start])
      (auto simp: queue_work_def intro: qm_inv_work1 qm_inv_work2 qm_rank_work1 qm_rank_work2 qm_inv_spurious qm_rank_spurious)
  moreover have "qm_rank n queue_main_start = 8 * n + 3"
    by (simp add: qm_rank_def queue_main_start_def wn_start_def)
  ultimately show ?thesis by simp
qed

lemma goto_same: "wn_pc (goto t p s) t = p"
  by (simp add: goto_def)

text \<open>The producer can move unless it waits for the mutex; so can the consumer unless it waits or sleeps.\<close>

lemma work1_moves:
  assumes "wn_pc (qm_queue s) 1 \<noteq> Idle \<or> qm_i1 s < n \<and> wn_owner (qm_queue s) = None" and "qm_inv n s"
  shows "\<exists>t. queue_work1 n s t"
proof -
  let ?q = "qm_queue s"
  consider "wn_pc ?q 1 = Idle" "qm_i1 s < n" "wn_owner ?q = None" | "wn_pc ?q 1 = Pushing (qm_i1 s)"
    | u where "wn_pc ?q 1 = Pushed" "wn_pc ?q u = Asleep" | "wn_pc ?q 1 = Pushed" "\<forall>u. wn_pc ?q u \<noteq> Asleep"
    using assms by (auto simp: qm_inv_def)
  then show ?thesis
  proof cases
    case 1
    have "BlockingQueue_step ?q (goto 1 (Pushing (qm_i1 s)) (set_owner (Some 1) ?q))"
      unfolding BlockingQueue_step_def by (rule wn_step.put_lock [OF TrueI 1(1,3)])
    from call_put [OF 1(2,1) this] show ?thesis by (auto simp: goto_same)
  next
    case 2
    have "BlockingQueue_step ?q (goto 1 Pushed (set_owner None (push_item (qm_i1 s) ?q)))"
      unfolding BlockingQueue_step_def by (rule wn_step.put_push [OF 2])
    from in_put [OF 2 this] show ?thesis by (auto simp: goto_same)
  next
    case (3 u)
    then have "BlockingQueue_step ?q (goto 1 Idle (goto u Woken ?q))"
      unfolding BlockingQueue_step_def by (rule wn_step.notify_one)
    from end_put [OF 3(1) this] show ?thesis by (auto simp: goto_same)
  next
    case 4
    then have "BlockingQueue_step ?q (goto 1 Idle ?q)"
      unfolding BlockingQueue_step_def by (rule wn_step.notify_none)
    from end_put [OF 4(1) this] show ?thesis by (auto simp: goto_same)
  qed
qed

lemma work2_moves:
  assumes "wn_pc (qm_queue s) 2 \<in> {Checking, Drowsy} \<or>
      (wn_pc (qm_queue s) 2 = Woken \<or> wn_pc (qm_queue s) 2 = Idle \<and> qm_i2 s < n) \<and> wn_owner (qm_queue s) = None"
  shows "\<exists>t. queue_work2 n s t"
proof -
  let ?q = "qm_queue s"
  consider "wn_pc ?q 2 = Idle" "qm_i2 s < n" "wn_owner ?q = None" | "wn_pc ?q 2 = Woken" "wn_owner ?q = None"
    | "wn_pc ?q 2 = Drowsy" | "wn_pc ?q 2 = Checking" "wn_queue ?q = []" | "wn_pc ?q 2 = Checking" "wn_queue ?q \<noteq> []"
    using assms by auto
  then show ?thesis
  proof cases
    case 1
    have "BlockingQueue_step ?q (goto 2 Checking (set_owner (Some 2) ?q))"
      unfolding BlockingQueue_step_def by (rule wn_step.take_lock [OF 1(1,3)])
    from call_take [OF 1(2,1) this] show ?thesis by (auto simp: goto_same)
  next
    case 2
    then have "BlockingQueue_step ?q (goto 2 Checking (set_owner (Some 2) ?q))"
      unfolding BlockingQueue_step_def by (rule wn_step.take_relock)
    from in_take [OF _ this] 2 show ?thesis by (auto simp: goto_same)
  next
    case 3
    then have "BlockingQueue_step ?q (goto 2 Asleep (set_owner None ?q))"
      unfolding BlockingQueue_step_def by (rule wn_step.take_sleep)
    from in_take [OF _ this] 3 show ?thesis by (auto simp: goto_same)
  next
    case 4
    then have "BlockingQueue_step ?q (goto 2 Drowsy ?q)"
      unfolding BlockingQueue_step_def by (rule wn_step.take_check)
    from in_take [OF _ this] 4 show ?thesis by (auto simp: goto_same)
  next
    case 5
    then have "BlockingQueue_step ?q (goto 2 Idle (set_owner None (take_item hd tl ?q)))"
      unfolding BlockingQueue_step_def by (rule wn_step.take_item)
    from end_take [OF 5(1) this] show ?thesis by (auto simp: goto_same)
  qed
qed

lemma queue_main_progress:
  assumes inv: "qm_inv n s" and "\<not> queue_joined n s"
  shows "\<exists>t. queue_work n s t"
proof (rule ccontr)
  let ?q = "qm_queue s"
  assume stuck: "\<nexists>t. queue_work n s t"
  then have p1: "wn_pc ?q 1 = Idle" and p2: "wn_pc ?q 2 \<in> {Idle, Asleep, Woken}"
    using work1_moves [OF _ inv] work2_moves [of s n] inv unfolding queue_work_def qm_inv_def by blast+
  have "\<not> holds_lock (wn_pc ?q t)" for t
    using inv p1 p2 by (cases "t = 1"; cases "t = 2") (auto simp: qm_inv_def)
  then have free: "wn_owner ?q = None" using inv by (auto simp: qm_inv_def wn_inv_def exclusive_def excl_def)
  then have i1: "qm_i1 s = n" and asleep: "wn_pc ?q 2 = Idle \<longrightarrow> \<not> qm_i2 s < n" "wn_pc ?q 2 \<noteq> Woken"
    using stuck work1_moves [OF _ inv] work2_moves [of s n] inv unfolding queue_work_def qm_inv_def
    by (auto simp: order.order_iff_strict)
  then have sleeps: "wn_pc ?q 2 = Asleep" using p1 p2 assms(2) by (auto simp: queue_joined_def)
  have "wn_pc ?q t \<in> {Idle, Asleep}" for t
    using inv p1 sleeps by (cases "t = 1"; cases "t = 2") (simp_all add: qm_inv_def)
  then have "awake ?q = {}" by (auto simp: awake_def) (metis insertE pc.distinct singletonD)+
  then have "wn_queue ?q = []" using inv sleeps by (auto simp: qm_inv_def wn_inv_def)
  then have "qm_i2 s = n" using qm_log(2) [OF inv] p1 i1 by simp
  then show False using inv sleeps by (simp add: qm_inv_def)
qed

text \<open>Without further spurious wake-ups, any run can be continued until both threads are joined.\<close>

lemma queue_main_completes:
  "queue_main_run n m k s \<Longrightarrow> \<exists>m' t. m \<le> m' \<and> queue_main_run n m' k t \<and> queue_joined n t"
proof (induction "qm_rank n s" arbitrary: m s rule: less_induct)
  case less
  show ?case
  proof (cases "queue_joined n s")
    case False
    have inv: "qm_inv n s" using queue_main_run_bound [OF less.prems] by simp
    obtain t where t: "queue_work n s t" using queue_main_progress [OF inv False] by blast
    then have "qm_rank n t < qm_rank n s" using inv qm_rank_work1 qm_rank_work2 by (auto simp: queue_work_def)
    moreover have "queue_main_run n (Suc m) k t"
      using less.prems t unfolding queue_main_run_def by (rule run_step)
    ultimately show ?thesis using less.hyps [of t "Suc m"] Suc_leD by blast
  qed (use less.prems in auto)
qed

section \<open>The program of threadsafe_lookup_table.cc\<close>

text \<open>\<^verbatim>\<open>threadsafe_lookup_table<int, int> lookup_table\<close>, the loop variables, and what \<^verbatim>\<open>work2\<close> has been returned.\<close>

record table_main =
  tm_table :: "(int, int) lookup_table"
  tm_i1 :: nat
  tm_i2 :: nat
  tm_found :: "int list"

definition table_main_start :: "(int \<Rightarrow> 64 word) \<Rightarrow> (int \<Rightarrow> 64 word) \<Rightarrow> table_main" where
  "table_main_start hash self =
     \<lparr>tm_table = lookup_table_ctor 19 hash self, tm_i1 = 0, tm_i2 = 0, tm_found = []\<rparr>"

definition table_work1 :: "table_main \<Rightarrow> table_main res" where
  "table_work1 s = bindR (table_add_or_update (int (tm_i1 s)) (int (tm_i1 s)) (tm_table s)) (\<lambda>t.
     Inr (s\<lparr>tm_table := t, tm_i1 := tm_i1 s + 1\<rparr>))"

definition table_work2 :: "table_main \<Rightarrow> table_main res" where
  "table_work2 s = bindR (table_value_for (tm_table s) (int (tm_i2 s)) (int (tm_i2 s))) (\<lambda>v.
     Inr (s\<lparr>tm_i2 := tm_i2 s + 1, tm_found := tm_found s @ [v]\<rparr>))"

text \<open>A schedule says whose round comes next; a thread whose loop is over stays where it is.\<close>

definition table_round :: "nat \<Rightarrow> bool \<Rightarrow> table_main \<Rightarrow> table_main res" where
  "table_round n first s =
     (if first then if tm_i1 s < n then table_work1 s else Inr s
      else if tm_i2 s < n then table_work2 s else Inr s)"

definition table_main_cost :: "timestamp \<Rightarrow> timestamp \<Rightarrow> rat" where
  "table_main_cost began ended = timeDiffence began ended"

definition tm_inv :: "table_main \<Rightarrow> bool" where
  "tm_inv s \<longleftrightarrow> table_ok (tm_table s) \<and>
     (\<forall>k. table_content (tm_table s) k = (if 0 \<le> k \<and> k < int (tm_i1 s) then Some k else None)) \<and>
     tm_found s = map int [0..<tm_i2 s]"

lemma table_round_inv:
  assumes "tm_inv s"
  shows "\<exists>t. table_round n first s = Inr t \<and> tm_inv t \<and>
    tm_i1 t = tm_i1 s + of_bool (first \<and> tm_i1 s < n) \<and> tm_i2 t = tm_i2 s + of_bool (\<not> first \<and> tm_i2 s < n)"
proof (cases first)
  case True
  have "table_ok (tm_table s)" using assms by (simp add: tm_inv_def)
  from lt.add_law [OF this, of "int (tm_i1 s)" "int (tm_i1 s)"] True assms show ?thesis
    by (auto simp: table_round_def table_work1_def tm_inv_def)
next
  case False
  have "table_ok (tm_table s)" using assms by (simp add: tm_inv_def)
  from lt.lookup_law [OF this, of "int (tm_i2 s)" "int (tm_i2 s)"] False assms show ?thesis
    by (auto simp: table_round_def table_work2_def tm_inv_def)
qed

lemma table_rounds_inv:
  assumes "tm_inv s"
  shows "\<exists>t. foldR (table_round n) schedule s = Inr t \<and> tm_inv t \<and>
    tm_i1 t = tm_i1 s + min (n - tm_i1 s) (count_list schedule True) \<and>
    tm_i2 t = tm_i2 s + min (n - tm_i2 s) (count_list schedule False)"
  using assms
proof (induction schedule arbitrary: s)
  case (Cons first schedule)
  obtain t where t: "table_round n first s = Inr t" "tm_inv t"
    "tm_i1 t = tm_i1 s + of_bool (first \<and> tm_i1 s < n)" "tm_i2 t = tm_i2 s + of_bool (\<not> first \<and> tm_i2 s < n)"
    using table_round_inv [OF Cons.prems, of n first] by blast
  from Cons.IH [OF t(2)] t show ?case by (cases first) auto
qed simp

section \<open>Properties\<close>

text \<open>(C12) The program of BlockingQueue.cc ends. In every reachable interleaving of the two threads: what \<^verbatim>\<open>take\<close>
  has returned are the numbers from 0 in order; until both threads are joined one of them can move without
  a spurious wake-up, so there is no deadlock; a run with \<open>k\<close> spurious wake-ups has at most
  \<open>8 * n + 3 + 4 * k\<close> steps for \<open>n\<close> rounds; and when both are joined every number has been taken and the
  queue is empty.\<close>

theorem BlockingQueue_main_ends:
  assumes "queue_main_run n m k s"
  shows "wn_taken (qm_queue s) = [0..<qm_i2 s] \<and>
    (\<not> queue_joined n s \<longrightarrow> (\<exists>t. queue_work1 n s t \<or> queue_work2 n s t)) \<and>
    m \<le> 8 * n + 3 + 4 * k \<and>
    (queue_joined n s \<longrightarrow> wn_taken (qm_queue s) = [0..<n] \<and> wn_queue (qm_queue s) = [])"
proof -
  have inv: "qm_inv n s" and bound: "m \<le> 8 * n + 3 + 4 * k" using queue_main_run_bound [OF assms] by simp_all
  have "qm_i2 s = n \<and> wn_queue (qm_queue s) = []" if "queue_joined n s"
  proof -
    have "qm_i1 s = n" "qm_i2 s = n" "wn_pc (qm_queue s) 1 = Idle"
      using that inv by (auto simp: queue_joined_def qm_inv_def)
    then show ?thesis using qm_log(2) [OF inv] by simp
  qed
  with qm_log(1) [OF inv] bound queue_main_progress [OF inv] show ?thesis unfolding queue_work_def by simp
qed

theorem BlockingQueue_main_ends_witness:
  "\<exists>m s. queue_main_run 3 m 0 s \<and> queue_joined 3 s \<and> wn_taken (qm_queue s) = [0, 1, 2] \<and> m \<le> 27"
proof -
  have "queue_main_run 3 0 0 queue_main_start" by (simp add: queue_main_run_def run_none)
  then obtain m s where "queue_main_run 3 m 0 s" "queue_joined 3 s" using queue_main_completes by blast
  moreover have "[0..<3] = [0, 1, 2 :: nat]" by (simp add: upt_rec)
  ultimately show ?thesis using BlockingQueue_main_ends [of 3 m 0 s] by auto
qed

text \<open>(C36) The program of threadsafe_lookup_table.cc does not fail under any schedule of its two threads, and each
  \<^verbatim>\<open>value_for(i, i)\<close> of \<^verbatim>\<open>work2\<close> returns \<open>i\<close>, whether or not \<^verbatim>\<open>work1\<close> has stored \<open>i\<close> yet. It subtracts the time of
  its end from that of its start: unless the clock goes back it never reports a positive cost.\<close>

theorem lookup_table_main_finds_keys:
  "(\<exists>t. foldR (table_round n) schedule (table_main_start hash self) = Inr t \<and>
     tm_found t = map int [0..<min n (count_list schedule False)] \<and>
     (\<forall>k d. table_value_for (tm_table t) k d =
       Inr (if 0 \<le> k \<and> k < int (min n (count_list schedule True)) then k else d))) \<and>
   (began \<le> ended \<longrightarrow> table_main_cost began ended \<le> 0 \<and> queue_main_cost began ended \<ge> 0)"
proof (intro conjI impI)
  have "tm_inv (table_main_start hash self)"
    by (simp add: tm_inv_def table_main_start_def table_ok_ctor table_content_ctor)
  from table_rounds_inv [OF this, of n schedule] obtain t where
    t: "foldR (table_round n) schedule (table_main_start hash self) = Inr t" "tm_inv t"
      "tm_i1 t = min n (count_list schedule True)" "tm_i2 t = min n (count_list schedule False)"
    by (auto simp: table_main_start_def)
  then show "\<exists>t. foldR (table_round n) schedule (table_main_start hash self) = Inr t \<and>
     tm_found t = map int [0..<min n (count_list schedule False)] \<and>
     (\<forall>k d. table_value_for (tm_table t) k d =
       Inr (if 0 \<le> k \<and> k < int (min n (count_list schedule True)) then k else d))"
    by (intro exI [of _ t]) (auto simp: tm_inv_def lt.lookup_law)
  assume le: "began \<le> ended"
  then show "table_main_cost began ended \<le> 0"
    by (simp add: table_main_cost_def timeDiffence_def Let_def kMicroSecondPerSecond_def less_eq_timestamp_def c_div_nonpos)
  from le show "queue_main_cost began ended \<ge> 0"
    by (simp add: queue_main_cost_def timeDiffence_def Let_def c_div_nonneg kMicroSecondPerSecond_def less_eq_timestamp_def)
qed

text \<open>Thread 2 looks up 0 before it is stored and 1 after.\<close>

theorem lookup_table_main_finds_keys_witness:
  "\<exists>t. foldR (table_round 2) [False, True, True, False] (table_main_start of_int of_int) = Inr t \<and> tm_found t = [0, 1] \<and>
     table_main_cost (Timestamp 0) (Timestamp 3000000) \<le> 0"
  using lookup_table_main_finds_keys [of 2 "[False, True, True, False]" of_int of_int "Timestamp 0" "Timestamp 3000000"]
  by (auto simp: upt_rec less_eq_timestamp_def)

end
