(* ===== verification/Loop_Programs.thy ===== *)
theory Loop_Programs
  imports Connection_Close
begin

text \<open>
  Small programs on top of the loop (src/reactor/test2.cc to test4.cc): a timer descriptor served by a bare
  channel, timers, and tasks given to the loop of another thread. What a program prints is kept in
  \<open>out_lines\<close>, without times and the numbers of processes and threads; a line that holds nothing else is left out. A \<^verbatim>\<open>main\<close> is modelled up to its call of
  \<^verbatim>\<open>loop()\<close>; its callbacks are numbered in the order in which they appear.
\<close>

section \<open>Iterations of a loop\<close>

text \<open>What an iteration without events does to the loop, and to the history.\<close>

definition idle_loop :: "timestamp \<Rightarrow> eventLoop \<Rightarrow> eventLoop" where
  "idle_loop now lp = lp\<lparr>el_epollReturnTime := now, el_channellist := [], el_calling := False, el_pending := []\<rparr>"

definition poll_call :: "eventLoop \<Rightarrow> syscall" where
  "poll_call lp = Sys_epoll_wait (ep_epfd (el_epoller lp)) (ep_evsize (el_epoller lp)) kPollTimeMs"

definition after_poll :: "kernel \<Rightarrow> eventLoop \<Rightarrow> history \<Rightarrow> history" where
  "after_poll os lp h = (let h1 = h @ [(poll_call lp, os h (poll_call lp))] in
     h1 @ [(Sys_gettimeofday, os h1 Sys_gettimeofday)])"

definition poll_time :: "kernel \<Rightarrow> eventLoop \<Rightarrow> history \<Rightarrow> timestamp" where
  "poll_time os lp h = (let r = snd (last (after_poll os lp h)) in timestamp_of_timeval (sr_ret r) (sr_usec r))"

lemma idle_loop_simps [simp]:
  "el_quit (idle_loop now lp) = el_quit lp" "el_threadId (idle_loop now lp) = el_threadId lp"
  "el_epoller (idle_loop now lp) = el_epoller lp" "el_pending (idle_loop now lp) = []"
  "poll_call (idle_loop now lp) = poll_call lp" "after_poll os (idle_loop now lp) h = after_poll os lp h"
  by (simp_all add: idle_loop_def poll_call_def after_poll_def)

lemma upd_loop_cong: "loops w l = Some lp \<Longrightarrow> f lp = g lp \<Longrightarrow> upd_loop f l w = upd_loop g l w"
  by (simp add: upd_loop_def upd_def)

text \<open>An iteration in which \<^verbatim>\<open>epoll_wait\<close> times out changes nothing but the history and the time of the poll.\<close>

lemma loop_body_idle:
  assumes lp: "loops w l = Some lp" "el_threadId lp = cur" "el_pending lp = []"
    and idle: "sr_ret (os (trace w) (poll_call lp)) \<le> 0"
  shows "loop_body os rc rt cur l w =
    Inr ((upd_loop (idle_loop (poll_time os lp (trace w))) l w)\<lparr>trace := after_poll os lp (trace w)\<rparr>)"
proof -
  let ?t = "poll_time os lp (trace w)" and ?h = "after_poll os lp (trace w)"
  let ?f = "end_calling \<circ> swap_pending \<circ> (\<lambda>lp. lp\<lparr>el_epollReturnTime := ?t, el_channellist := []\<rparr>) \<circ> (\<lambda>lp. lp\<lparr>el_channellist := []\<rparr>)"
  have "loop_body os rc rt cur l w = Inr (upd_loop ?f l (w\<lparr>trace := ?h\<rparr>))"
    using assms
    by (simp add: loop_body_def Epoller_epoll_def assertInLoopThread_def isInLoopThread_def Timestamp_now_def
        doPendingFunctions_def after_poll_def poll_call_def poll_time_def Let_def upd_loop_upd_loop upd_loop_trace o_assoc)
  also have "upd_loop ?f l (w\<lparr>trace := ?h\<rparr>) = upd_loop (idle_loop ?t) l (w\<lparr>trace := ?h\<rparr>)"
    by (rule upd_loop_cong [where lp = lp]) (use lp in \<open>simp_all add: idle_loop_def end_calling_def swap_pending_def\<close>)
  finally show ?thesis by (simp add: upd_loop_trace)
qed

text \<open>An iteration in which \<^verbatim>\<open>epoll_wait\<close> reports one descriptor.\<close>

definition polled :: "kernel \<Rightarrow> eventLoop \<Rightarrow> ptr \<Rightarrow> ptr \<Rightarrow> 32 word \<Rightarrow> 'z reactor_scheme \<Rightarrow> 'z reactor_scheme" where
  "polled os lp l c ev w =
     upd_loop (\<lambda>lp'. lp'\<lparr>el_epollReturnTime := poll_time os lp (trace w), el_channellist := [c]\<rparr>) l
       (upd_chan (set_revents ev) c (w\<lparr>trace := after_poll os lp (trace w)\<rparr>))"

lemma loop_body_event:
  assumes lp: "loops w l = Some lp" "el_threadId lp = cur" "1 < ep_evsize (el_epoller lp)"
    and ev: "sr_ret (os (trace w) (poll_call lp)) = 1" "sr_events (os (trace w) (poll_call lp)) = [(fd, ev)]"
    and c: "ep_channels (el_epoller lp) fd = Some c" "chans w c = Some ch"
  shows "loop_body os rc rt cur l w =
    bindR (Channel_handleEvent rc (poll_time os lp (trace w)) c (polled os lp l c ev w)) (doPendingFunctions rt l)"
proof -
  let ?t = "poll_time os lp (trace w)" and ?h = "after_poll os lp (trace w)"
  let ?clear = "\<lambda>lp. lp\<lparr>el_channellist := []\<rparr>" and ?set = "\<lambda>lp. lp\<lparr>el_epollReturnTime := ?t, el_channellist := [c]\<rparr>"
  have "Epoller_epoll os cur l kPollTimeMs [] (upd_loop ?clear l w) =
      Inr (?t, [c], upd_chan (set_revents ev) c ((upd_loop ?clear l w)\<lparr>trace := ?h\<rparr>))"
    using assms
    by (simp add: Epoller_epoll_def assertInLoopThread_def isInLoopThread_def Timestamp_now_def fillActiveChannels_def
        after_poll_def poll_call_def poll_time_def Let_def)
  moreover have "upd_loop ?set l (upd_chan (set_revents ev) c ((upd_loop ?clear l w)\<lparr>trace := ?h\<rparr>)) = polled os lp l c ev w"
    using lp(1) by (simp add: polled_def upd_loop_def upd_chan_def upd_def)
  ultimately show ?thesis by (simp add: loop_body_def bindR_assoc)
qed

lemma after_poll_idle [simp]: "after_poll os (idle_loop now lp) = after_poll os lp"
  by (rule ext) simp

text \<open>The history of a loop whose \<open>k\<close> polls time out.\<close>

definition polls :: "kernel \<Rightarrow> eventLoop \<Rightarrow> nat \<Rightarrow> history \<Rightarrow> history" where
  "polls os lp k = (after_poll os lp ^^ k)"

lemma polls_simps [simp]:
  "polls os lp 0 h = h" "polls os lp (Suc k) h = polls os lp k (after_poll os lp h)" "polls os (idle_loop now lp) = polls os lp"
  by (simp_all add: polls_def funpow_swap1 fun_eq_iff)

lemma polls_add: "polls os lp k (after_poll os lp h) = after_poll os lp (polls os lp k h)"
  by (simp add: polls_def funpow_swap1)

lemma while_done: "loops w l = Some lp \<Longrightarrow> el_quit lp \<Longrightarrow> while_not_quit body l w = Some (Inr w)"
  by (simp add: while_not_quit.simps)

section \<open>What programs print\<close>

record program = net +
  out_lines :: "string list"
  out_count :: int

definition say :: "string \<Rightarrow> 'z program_scheme \<Rightarrow> 'z program_scheme" where
  "say line w = w\<lparr>out_lines := out_lines w @ [line]\<rparr>"

lemma say_simps [simp]:
  "out_lines (say s w) = out_lines w @ [s]" "loops (say s w) = loops w" "chans (say s w) = chans w" "trace (say s w) = trace w"
  "timers (say s w) = timers w" "nextptr (say s w) = nextptr w" "out_count (say s w) = out_count w" "conns (say s w) = conns w"
  by (simp_all add: say_def)

lemma out_lines_frame [simp]:
  "out_lines (upd_loop f l w) = out_lines w" "out_lines (upd_chan g c w) = out_lines w"
  "out_count (upd_loop f l w) = out_count w" "out_count (upd_chan g c w) = out_count w"
  "loops (w\<lparr>out_count := n\<rparr>) = loops w" "out_lines (w\<lparr>out_count := n\<rparr>) = out_lines w"
  by (simp_all add: upd_loop_def upd_chan_def)

section \<open>test2.cc: a timer descriptor\<close>

definition test2_timeout :: "kernel \<Rightarrow> tid \<Rightarrow> ptr \<Rightarrow> 'z program_scheme \<Rightarrow> 'z program_scheme res" where
  "test2_timeout os cur l w = EventLoop_quit os cur l (say ''Timeout!'' w)"

text \<open>The result is the loop, the channel and the descriptor.\<close>

definition test2_main :: "kernel \<Rightarrow> tid \<Rightarrow> 'z program_scheme \<Rightarrow> ((ptr \<times> ptr \<times> int) \<times> 'z program_scheme) res" where
  "test2_main os cur w =
     bindR (EventLoop_new os cur (say ''started'' (snd (Timestamp_now os w)))) (\<lambda>(l, w1).
     case createtimerfd os w1 of (timerfd, w2) \<Rightarrow>
     case Channel_new l timerfd True w2 of (c, w3) \<Rightarrow>
     bindR (enableReading os cur c (upd_chan (\<lambda>ch. ch\<lparr>ch_readCallback := Some (User_cb 0)\<rparr>) c w3)) (\<lambda>w4.
     Inr ((l, c, timerfd), snd (do_sys os (Sys_timerfd_settime timerfd \<lparr>tv_sec = 5, tv_nsec = 0\<rparr>) w4))))"

text \<open>The channel is the only one whose events matter; its other callbacks are empty.\<close>

definition serves_timeout :: "tid \<Rightarrow> ptr \<Rightarrow> ptr \<Rightarrow> int \<Rightarrow> eventLoop \<Rightarrow> 'z reactor_scheme \<Rightarrow> bool" where
  "serves_timeout cur l c fd lp w \<longleftrightarrow> loops w l = Some lp \<and> el_threadId lp = cur \<and> el_pending lp = [] \<and> \<not> el_quit lp \<and>
     1 < ep_evsize (el_epoller lp) \<and> ep_channels (el_epoller lp) fd = Some c \<and>
     (\<exists>ch. chans w c = Some ch \<and> ch_readCallback ch = Some (User_cb 0) \<and> ch_writeCallback ch = None \<and>
       ch_errorCallback ch = None \<and> ch_closeCallback ch = None)"

definition run_test2 ::
    "sockaddr_in \<Rightarrow> (32 word \<Rightarrow> string) \<Rightarrow> (rat \<Rightarrow> rat) \<Rightarrow> 'z program_scheme callbacks \<Rightarrow> kernel \<Rightarrow> tid \<Rightarrow> ptr \<Rightarrow> timestamp \<Rightarrow> callback \<Rightarrow>
     'z program_scheme \<Rightarrow> 'z program_scheme res" where
  "run_test2 garbage ntop rnd ub os cur l = run_callback garbage ntop rnd ub (\<lambda>_. test2_timeout os cur l) os cur"

lemma quit_in_thread:
  "loops w l = Some lp \<Longrightarrow> el_threadId lp = cur \<Longrightarrow> EventLoop_quit os cur l w = Inr (upd_loop (set_quit True) l w)"
  by (simp add: EventLoop_quit_def isInLoopThread_def Let_def)

lemma test2_event:
  assumes w: "serves_timeout cur l c fd lp w"
    and ev: "sr_ret (os (trace w) (poll_call lp)) = 1" "sr_events (os (trace w) (poll_call lp)) = [(fd, ev)]" "has_flag ev EPOLLIN"
  shows "\<exists>w' lp'. loop_body os (run_test2 garbage ntop rnd ub os cur l) rt cur l w = Inr w' \<and>
    loops w' l = Some lp' \<and> el_quit lp' \<and> trace w' = after_poll os lp (trace w) \<and> out_lines w' = out_lines w @ [''Timeout!'']"
proof -
  obtain ch where lp: "loops w l = Some lp" "el_threadId lp = cur" "1 < ep_evsize (el_epoller lp)" "el_pending lp = []"
    and c: "ep_channels (el_epoller lp) fd = Some c" "chans w c = Some ch"
    and cb: "ch_readCallback ch = Some (User_cb 0)" "ch_writeCallback ch = None" "ch_errorCallback ch = None" "ch_closeCallback ch = None"
    using w by (auto simp: serves_timeout_def)
  let ?w1 = "upd_chan (set_handling True) c (polled os lp l c ev w)"
  have p: "chans (polled os lp l c ev w) c = Some (set_revents ev ch)" using c by (simp add: polled_def)
  have w1: "chans ?w1 c = Some (set_handling True (set_revents ev ch))"
    "loops ?w1 l = Some (lp\<lparr>el_epollReturnTime := poll_time os lp (trace w), el_channellist := [c]\<rparr>)"
    "trace ?w1 = after_poll os lp (trace w)" "out_lines ?w1 = out_lines w"
    using lp c by (simp_all add: polled_def)
  let ?w2 = "upd_loop (set_quit True) l (say ''Timeout!'' ?w1)"
  have quit: "test2_timeout os cur l ?w1 = Inr ?w2"
    unfolding test2_timeout_def
    by (rule quit_in_thread [where lp = "lp\<lparr>el_epollReturnTime := poll_time os lp (trace w), el_channellist := [c]\<rparr>"])
      (use w1(2) lp in simp_all)
  have "Channel_handleEvent (run_test2 garbage ntop rnd ub os cur l) t c (polled os lp l c ev w) =
      Inr (upd_chan (set_handling False) c ?w2)" for t
    using cb p quit has_flag_read [OF ev(3)] ev(3)
    by (simp add: Channel_handleEvent_def Let_def fire_def run_test2_def run_callback_def set_handling_def set_revents_def)
  then show ?thesis
    unfolding loop_body_event [where os = os and w = w and lp = lp, OF lp(1-3) ev(1,2) c] using w1 lp
    by (simp add: doPendingFunctions_def)
qed

lemma serves_timeout_idle:
  "serves_timeout cur l c fd lp w \<Longrightarrow>
    serves_timeout cur l c fd (idle_loop t lp) ((upd_loop (idle_loop t) l w)\<lparr>trace := h\<rparr>)"
  by (auto simp: serves_timeout_def)

lemma test2_waits:
  assumes "serves_timeout cur l c fd lp w"
    and "\<And>k. k < n \<Longrightarrow> sr_ret (os (polls os lp k (trace w)) (poll_call lp)) \<le> 0"
    and "sr_ret (os (polls os lp n (trace w)) (poll_call lp)) = 1"
      "sr_events (os (polls os lp n (trace w)) (poll_call lp)) = [(fd, ev)]" "has_flag ev EPOLLIN"
  shows "\<exists>w' lp'. while_not_quit (loop_body os (run_test2 garbage ntop rnd ub os cur l) rt cur l) l w = Some (Inr w') \<and>
    loops w' l = Some lp' \<and> el_quit lp' \<and> trace w' = polls os lp (Suc n) (trace w) \<and> out_lines w' = out_lines w @ [''Timeout!'']"
  using assms
proof (induction n arbitrary: w lp)
  case 0
  obtain w' lp' where w': "loop_body os (run_test2 garbage ntop rnd ub os cur l) rt cur l w = Inr w'" "loops w' l = Some lp'" "el_quit lp'"
    "trace w' = after_poll os lp (trace w)" "out_lines w' = out_lines w @ [''Timeout!'']"
    using test2_event [OF 0(1), of os ev] 0(3-5) unfolding polls_simps by blast
  moreover have "loops w l = Some lp" "\<not> el_quit lp" using 0(1) by (auto simp: serves_timeout_def)
  ultimately show ?case by (simp add: while_not_quit.simps)
next
  case (Suc n)
  let ?t = "poll_time os lp (trace w)" and ?h = "after_poll os lp (trace w)"
  let ?w = "(upd_loop (idle_loop ?t) l w)\<lparr>trace := ?h\<rparr>"
  have lp: "loops w l = Some lp" "el_threadId lp = cur" "el_pending lp = []" "\<not> el_quit lp"
    using Suc.prems(1) by (auto simp: serves_timeout_def)
  have idle: "sr_ret (os (trace w) (poll_call lp)) \<le> 0" using Suc.prems(2) [of 0] by simp
  have polls: "sr_ret (os (polls os (idle_loop ?t lp) k (trace ?w)) (poll_call (idle_loop ?t lp))) \<le> 0" if "k < n" for k
    using Suc.prems(2) [of "Suc k"] that by simp
  have "\<exists>w' lp'. while_not_quit (loop_body os (run_test2 garbage ntop rnd ub os cur l) rt cur l) l ?w = Some (Inr w') \<and>
    loops w' l = Some lp' \<and> el_quit lp' \<and> trace w' = polls os (idle_loop ?t lp) (Suc n) (trace ?w) \<and>
    out_lines w' = out_lines ?w @ [''Timeout!'']"
    by (rule Suc.IH [OF serves_timeout_idle [OF Suc.prems(1)] polls]) (use Suc.prems(3-5) in simp_all)
  then show ?case
    using lp loop_body_idle [where os = os and w = w and lp = lp, OF lp(1-3) idle] by (simp add: while_not_quit.simps [of _ l w])
qed

text \<open>The program test2.cc ends. However often \<^verbatim>\<open>epoll_wait\<close> times out before, in the iteration in which the timer
  descriptor is reported the channel's read callback runs, prints once and asks the loop to quit, and
  \<^verbatim>\<open>loop()\<close> returns after that iteration, having made no system calls but the polls.\<close>

theorem test2_loop_returns:
  assumes w: "serves_timeout cur l c fd lp w"
    and idle: "\<And>k. k < n \<Longrightarrow> sr_ret (os (polls os lp k (trace w)) (poll_call lp)) \<le> 0"
    and ev: "sr_ret (os (polls os lp n (trace w)) (poll_call lp)) = 1"
      "sr_events (os (polls os lp n (trace w)) (poll_call lp)) = [(fd, ev)]" "has_flag ev EPOLLIN"
  shows "\<exists>w' lp'. EventLoop_loop os (run_test2 garbage ntop rnd ub os cur l) rt cur l w = Some (Inr w') \<and>
    loops w' l = Some lp' \<and> el_quit lp' \<and> \<not> el_looping lp' \<and> trace w' = polls os lp (Suc n) (trace w) \<and>
    out_lines w' = out_lines w @ [''Timeout!'']"
proof -
  let ?lp = "set_quit False (set_looping True lp)" and ?w = "upd_loop (set_quit False \<circ> set_looping True) l w"
  have lp: "loops w l = Some lp" "el_threadId lp = cur" using w by (auto simp: serves_timeout_def)
  have w': "serves_timeout cur l c fd ?lp ?w" using w by (auto simp: serves_timeout_def)
  have "poll_call ?lp = poll_call lp" by (simp add: poll_call_def)
  then have p: "poll_call ?lp = poll_call lp" "after_poll os ?lp = after_poll os lp" by (simp_all add: after_poll_def fun_eq_iff)
  then have "polls os ?lp = polls os lp" by (intro ext) (simp only: polls_def)
  note p = p this
  show ?thesis
    using test2_waits [OF w', of n os ev] idle ev lp
    by (fastforce simp: EventLoop_loop_def assertInLoopThread_def isInLoopThread_def p)
qed

text \<open>A loop at address 0 in thread 7 with one channel, at address \<open>c\<close>.\<close>

definition program_world :: "ptr \<Rightarrow> channel \<Rightarrow> program" where
  "program_world c ch = net.extend (reactor.extend
     (world0\<lparr>chans := [c \<mapsto> ch], nextptr := 40, loops := [0 \<mapsto> set_channel (ch_fd ch) (Some c) loop0]\<rparr>)
     \<lparr>conns = (\<lambda>_. None), acceptors = (\<lambda>_. None), connectors = (\<lambda>_. None), servers = (\<lambda>_. None),
      clients = (\<lambda>_. None), elthreads = (\<lambda>_. None)\<rparr>) \<lparr>out_lines = [], out_count = 0\<rparr>"

lemma program_world_simps:
  "chans (program_world c ch) c = Some ch" "loops (program_world c ch) 0 = Some (set_channel (ch_fd ch) (Some c) loop0)"
  "trace (program_world c ch) = []" "out_lines (program_world c ch) = []" "nextptr (program_world c ch) = 40"
  by (simp_all add: program_world_def reactor.defs net.defs world0_def)

definition no_callbacks :: "program callbacks" where
  "no_callbacks = \<lparr>on_connection = (\<lambda>_ _ _. Inl BadFunctionCall), on_message = (\<lambda>_ _ _ _. Inl BadFunctionCall),
     on_write_complete = (\<lambda>_ _ _. Inl BadFunctionCall), on_close = (\<lambda>_ _ _. Inl BadFunctionCall)\<rparr>"

definition late_kernel :: kernel where
  "late_kernel h c = (case c of Sys_epoll_wait _ _ _ \<Rightarrow> if length h < 4 then answer 0 [] else answer 1 [(9, EPOLLIN)] | _ \<Rightarrow> answer 0 [])"

lemma length_polls: "length (polls os lp k h) = length h + 2 * k"
  by (induction k arbitrary: h) (simp_all add: after_poll_def Let_def)

theorem test2_loop_returns_witness:
  "\<exists>w'. EventLoop_loop late_kernel (run_test2 no_addr (\<lambda>_. []) id no_callbacks late_kernel 7 0) (\<lambda>_. Inr) 7 0
       (program_world 6 ((Channel_init 0 9 True)\<lparr>ch_readCallback := Some (User_cb 0)\<rparr>)) = Some (Inr w') \<and>
     out_lines w' = [''Timeout!'']"
proof -
  let ?ch = "(Channel_init 0 9 True)\<lparr>ch_readCallback := Some (User_cb 0)\<rparr>"
  let ?lp = "set_channel 9 (Some 6) loop0"
  have w: "serves_timeout 7 0 6 9 ?lp (program_world 6 ?ch)"
    using program_world_simps [of 6 ?ch] by (simp add: serves_timeout_def loop0_def set_channel_def Channel_init_def)
  have poll: "late_kernel h (poll_call ?lp) = (if length h < 4 then answer 0 [] else answer 1 [(9, EPOLLIN)])" for h
    by (simp add: late_kernel_def poll_call_def)
  have "has_flag EPOLLIN EPOLLIN" by (simp add: has_flag_def epoll_flags)
  then show ?thesis
    using test2_loop_returns [OF w, of 2 late_kernel EPOLLIN no_addr "\<lambda>_. []" id no_callbacks "\<lambda>_. Inr"]
    by (auto simp: poll length_polls program_world_simps answer_def)
qed

section \<open>test3.cc: timers\<close>

text \<open>\<^verbatim>\<open>cnt\<close> is \<open>out_count\<close>.\<close>

definition test3_print :: "kernel \<Rightarrow> tid \<Rightarrow> ptr \<Rightarrow> string \<Rightarrow> 'z program_scheme \<Rightarrow> 'z program_scheme res" where
  "test3_print os cur l msg w =
     (let w1 = (say msg (snd (Timestamp_now os w)))\<lparr>out_count := out_count w + 1\<rparr> in
      if out_count w1 = 20 then EventLoop_quit os cur l w1 else Inr w1)"

text \<open>The messages bound into the timers' callbacks.\<close>

definition test3_messages :: "string list" where
  "test3_messages = [''once1'', ''once1.5'', ''once2.5'', ''once3.5'', ''every3'']"

definition test3_task :: "kernel \<Rightarrow> tid \<Rightarrow> ptr \<Rightarrow> nat \<Rightarrow> 'z program_scheme \<Rightarrow> 'z program_scheme res" where
  "test3_task os cur l n = test3_print os cur l (test3_messages ! n)"

definition test3_main :: "(rat \<Rightarrow> rat) \<Rightarrow> kernel \<Rightarrow> tid \<Rightarrow> 'z program_scheme \<Rightarrow> (ptr \<times> 'z program_scheme) res" where
  "test3_main rnd os cur w =
     bindR (EventLoop_new os cur w) (\<lambda>(l, w1).
     bindR (test3_print os cur l ''main'' w1) (\<lambda>w2.
     bindR (runAfter rnd os cur l 1 (UserTask 0) w2) (\<lambda>(_, w3).
     bindR (runAfter rnd os cur l (3 / 2) (UserTask 1) w3) (\<lambda>(_, w4).
     bindR (runAfter rnd os cur l (5 / 2) (UserTask 2) w4) (\<lambda>(_, w5).
     bindR (runAfter rnd os cur l (7 / 2) (UserTask 3) w5) (\<lambda>(_, w6).
     bindR (runEvery rnd os cur l 3 (UserTask 4) w6) (\<lambda>(_, w7). Inr (l, w7))))))))"

text \<open>The callbacks count together: after \<^verbatim>\<open>main\<close> has printed once, the loop is asked to quit by the nineteenth
  timer callback, whichever timers it comes from, and by no earlier one.\<close>

theorem test3_quits_at_20:
  assumes "loops w l = Some lp" "el_threadId lp = cur" and "\<not> el_quit lp" "out_count w = 1"
  shows "\<exists>w' lp'. foldR (test3_task os cur l) ns w = Inr w' \<and> loops w' l = Some lp' \<and> el_threadId lp' = cur \<and>
    out_count w' = 1 + int (length ns) \<and> out_lines w' = out_lines w @ map ((!) test3_messages) ns \<and>
    (el_quit lp' \<longleftrightarrow> 19 \<le> length ns)"
proof (induction ns rule: rev_induct)
  case Nil
  then show ?case using assms by simp
next
  case (snoc n ns)
  then obtain w' lp' where w': "foldR (test3_task os cur l) ns w = Inr w'" "loops w' l = Some lp'" "el_threadId lp' = cur"
    "out_count w' = 1 + int (length ns)" "out_lines w' = out_lines w @ map ((!) test3_messages) ns" "el_quit lp' \<longleftrightarrow> 19 \<le> length ns"
    by blast
  let ?w0 = "snd (Timestamp_now os w')"
  let ?w1 = "(say (test3_messages ! n) ?w0)\<lparr>out_count := out_count w' + 1\<rparr>"
  have w0: "loops ?w0 = loops w'" "out_lines ?w0 = out_lines w'" by (simp_all add: Timestamp_now_def)
  have l1: "loops ?w1 l = Some lp'" using w'(2) w0 by simp
  show ?case
  proof (cases "length ns = 18")
    case True
    then have "test3_task os cur l n w' = Inr (upd_loop (set_quit True) l ?w1)"
      using w'(4) quit_in_thread [OF l1 w'(3), of os] by (simp add: test3_task_def test3_print_def Let_def)
    then show ?thesis using w' True w0 by (simp add: foldR_append)
  next
    case False
    then have "test3_task os cur l n w' = Inr ?w1"
      using w'(4) by (simp add: test3_task_def test3_print_def Let_def)
    then show ?thesis using w' False w0 by (auto simp: foldR_append)
  qed
qed

section \<open>test4.cc: tasks for the loop of another thread\<close>

definition runInThread :: "'z program_scheme \<Rightarrow> 'z program_scheme res" where
  "runInThread w = Inr (say ''runInThread()'' w)"

definition test4_start :: "kernel \<Rightarrow> 'z program_scheme \<Rightarrow> (ptr \<times> 'z program_scheme) res" where
  "test4_start os w = (case EventLoopThread_new w of (t, w1) \<Rightarrow> EventLoopThread_startLoop os t w1)"

text \<open>What \<^verbatim>\<open>main\<close> does with the loop it has been given, between its pauses.\<close>

definition test4_main :: "(rat \<Rightarrow> rat) \<Rightarrow> kernel \<Rightarrow> tid \<Rightarrow> ptr \<Rightarrow> 'z program_scheme \<Rightarrow> 'z program_scheme res" where
  "test4_main rnd os cur l w =
     bindR (runInLoop os (\<lambda>_. runInThread) cur l (UserTask 0) w) (\<lambda>w1.
     bindR (runAfter rnd os cur l 2 (UserTask 0) w1) (\<lambda>(_, w2).
     bindR (EventLoop_quit os cur l w2) (\<lambda>w3. Inr (say ''exit main().'' w3))))"

definition test4_iteration ::
    "sockaddr_in \<Rightarrow> (32 word \<Rightarrow> string) \<Rightarrow> (rat \<Rightarrow> rat) \<Rightarrow> 'z program_scheme callbacks \<Rightarrow> kernel \<Rightarrow> tid \<Rightarrow> ptr \<Rightarrow>
     'z program_scheme \<Rightarrow> 'z program_scheme res" where
  "test4_iteration garbage ntop rnd ub os = program_iteration garbage ntop rnd ub (\<lambda>_. runInThread) os"

text \<open>A loop that polls in the thread \<open>lt\<close>, without timers and tasks, watching its eventfd.\<close>

definition polling :: "tid \<Rightarrow> ptr \<Rightarrow> eventLoop \<Rightarrow> 'z reactor_scheme \<Rightarrow> bool" where
  "polling lt l lp w \<longleftrightarrow> loops w l = Some lp \<and> el_threadId lp = lt \<and> el_pending lp = [] \<and> \<not> el_calling lp \<and>
     tq_timerlist (el_timerqueue lp) = [] \<and> 1 < ep_evsize (el_epoller lp) \<and>
     ep_channels (el_epoller lp) (el_wakeupfd lp) = Some (el_wakeupchannel lp) \<and>
     (\<exists>ch. chans w (el_wakeupchannel lp) = Some ch \<and> ch_readCallback ch = Some (EventLoop_handleRead_cb l) \<and>
       ch_writeCallback ch = None \<and> ch_errorCallback ch = None \<and> ch_closeCallback ch = None)"

text \<open>An eventfd that has been written is readable.\<close>

definition eventfd_wakes :: "kernel \<Rightarrow> eventLoop \<Rightarrow> bool" where
  "eventfd_wakes os lp \<longleftrightarrow> (\<forall>h r. let a = os (h @ [(Sys_write (el_wakeupfd lp) one_bytes, r)]) (poll_call lp) in
     sr_ret a = 1 \<and> sr_events a = [(el_wakeupfd lp, EPOLLIN)])"

definition clock_read :: "kernel \<Rightarrow> history \<Rightarrow> history" where
  "clock_read os h = h @ [(Sys_gettimeofday, os h Sys_gettimeofday)]"

definition fd_written :: "kernel \<Rightarrow> int \<Rightarrow> history \<Rightarrow> history" where
  "fd_written os fd h = h @ [(Sys_write fd one_bytes, os h (Sys_write fd one_bytes))]"

lemma test4_main_result:
  assumes w: "polling lt l lp w" and cur: "cur \<noteq> lt"
  shows "\<exists>w3 ti. test4_main rnd os cur l w = Inr w3 \<and> trace w3 = fd_written os (el_wakeupfd lp) (clock_read os (trace w)) \<and>
    loops w3 l = Some (set_quit True (push_pending (AddTimerInLoop l (nextptr w)) (push_pending (UserTask 0) lp))) \<and>
    chans w3 = chans w \<and> timers w3 (nextptr w) = Some ti \<and> ti_callback ti = UserTask 0 \<and> out_lines w3 = out_lines w @ [''exit main().'']"
proof -
  have lp: "loops w l = Some lp" "el_threadId lp \<noteq> cur" "\<not> el_calling lp"
    using w cur by (auto simp: polling_def)
  let ?w1 = "upd_loop (push_pending (UserTask 0)) l w"
  have "runInLoop os (\<lambda>_. runInThread) cur l (UserTask 0) w = Inr ?w1"
    using lp by (simp add: runInLoop_foreign queueInLoop_eq)
  then show ?thesis using lp
    by (simp add: test4_main_def runAfter_def runAt_def Timestamp_now_def addTimer_def Timer_new_def incrementAndGet_def
        runInLoop_foreign queueInLoop_eq EventLoop_quit_def wakeup_def isInLoopThread_def Let_def fd_written_def clock_read_def
        addAndGet_def getAndAdd_def)
qed

text \<open>The loop's iteration after a wake-up reads the eventfd and then runs the pending tasks.\<close>

lemma wakeup_iteration:
  assumes lp: "loops w l = Some lp" "el_threadId lp = cur" "1 < ep_evsize (el_epoller lp)"
    and c: "ep_channels (el_epoller lp) (el_wakeupfd lp) = Some c" "chans w c = Some ch"
    and cb: "ch_readCallback ch = Some (EventLoop_handleRead_cb l)" "ch_writeCallback ch = None" "ch_errorCallback ch = None"
      "ch_closeCallback ch = None"
    and ev: "sr_ret (os (trace w) (poll_call lp)) = 1" "sr_events (os (trace w) (poll_call lp)) = [(el_wakeupfd lp, EPOLLIN)]"
  shows "\<exists>w1. program_iteration garbage ntop rnd ub user_task os cur l w = doPendingFunctions (run_task rnd ub user_task os cur) l w1 \<and>
    loops w1 l = Some (lp\<lparr>el_epollReturnTime := poll_time os lp (trace w), el_channellist := [c]\<rparr>) \<and>
    timers w1 = timers w \<and> reactor.more w1 = reactor.more w"
proof -
  let ?w0 = "polled os lp l c EPOLLIN w" and ?c = "Sys_read (el_wakeupfd lp) 8"
  let ?w1 = "upd_chan (set_handling True) c ?w0"
  let ?w2 = "?w1\<lparr>trace := trace ?w1 @ [(?c, os (trace ?w1) ?c)]\<rparr>"
  let ?lp = "lp\<lparr>el_epollReturnTime := poll_time os lp (trace w), el_channellist := [c]\<rparr>"
  have p: "chans ?w0 c = Some (set_revents EPOLLIN ch)" "loops ?w0 l = Some ?lp" "timers ?w0 = timers w" "reactor.more ?w0 = reactor.more w"
    using lp c by (simp_all add: polled_def)
  have read: "EventLoop_handleRead os l ?w1 = Inr ?w2" using p(2) by (simp add: EventLoop_handleRead_def)
  have flags: "has_flag EPOLLIN (EPOLLIN OR EPOLLPRI OR EPOLLRDHUP)" "has_flag EPOLLIN EPOLLIN" "\<not> has_flag EPOLLIN EPOLLOUT"
    by (simp_all add: has_flag_def epoll_flags)
  have "Channel_handleEvent (run_callback garbage ntop rnd ub user_task os cur) t c ?w0 = Inr (upd_chan (set_handling False) c ?w2)" for t
    using cb p(1) read flags
    by (simp add: Channel_handleEvent_def Let_def fire_def run_callback_def set_handling_def set_revents_def)
  then have "program_iteration garbage ntop rnd ub user_task os cur l w =
      doPendingFunctions (run_task rnd ub user_task os cur) l (upd_chan (set_handling False) c ?w2)"
    unfolding program_iteration_def loop_body_event [where os = os and w = w and lp = lp, OF lp ev c] by simp
  then show ?thesis using p by (intro exI [of _ "upd_chan (set_handling False) c ?w2"]) simp
qed

lemma addTimer_first:
  assumes "loops w l = Some lp" "el_threadId lp = cur" "tq_timerlist (el_timerqueue lp) = []" "timers w t = Some ti"
  shows "\<exists>w'. addTimerInLoop os cur l t w = Inr w' \<and> loops w' l = Some (set_timerlist [(ti_expiration ti, t)] lp) \<and>
    reactor.more w' = reactor.more w"
  using assms
  by (simp add: addTimerInLoop_def TimerQueue_insert_def assertInLoopThread_def isInLoopThread_def resetTimerfd_def
      howMachTimeFromNow_def Timestamp_now_def Let_def)

lemma out_lines_more: "reactor.more w = reactor.more v \<Longrightarrow> out_lines w = out_lines v"
  by (cases w; cases v) simp

text \<open>In test4.cc, whose pauses are shorter than a poll, a task given to the loop of another thread
  is not run when it is given: \<^verbatim>\<open>runInLoop\<close> and   \<^verbatim>\<open>runAfter\<close>
  write nothing to the eventfd, only \<^verbatim>\<open>quit()\<close> does. The wake-up by
  \<^verbatim>\<open>quit()\<close> then runs the task   and arms the timer, and the loop returns before the
  timer can fire: the program prints the line of   \<^verbatim>\<open>runInThread\<close> once, after
  \<^verbatim>\<open>main\<close> has finished, and not twice.\<close>

theorem test4_prints_once:
  assumes w: "polling lt l lp w" and cur: "cur \<noteq> lt" and os: "eventfd_wakes os lp"
  shows "\<exists>w3 w4 lp4 e. test4_main rnd os cur l w = Inr w3 \<and>
    trace w3 = fd_written os (el_wakeupfd lp) (clock_read os (trace w)) \<and> out_lines w3 = out_lines w @ [''exit main().''] \<and>
    test4_iteration garbage ntop rnd ub os lt l w3 = Inr w4 \<and> loops w4 l = Some lp4 \<and>
    while_not_quit (test4_iteration garbage ntop rnd ub os lt l) l w4 = Some (Inr w4) \<and>
    out_lines w4 = out_lines w @ [''exit main().'', ''runInThread()''] \<and>
    tq_timerlist (el_timerqueue lp4) = [(e, nextptr w)] \<and> el_pending lp4 = []"
proof -
  obtain w3 ti where w3: "test4_main rnd os cur l w = Inr w3" "trace w3 = fd_written os (el_wakeupfd lp) (clock_read os (trace w))"
    "loops w3 l = Some (set_quit True (push_pending (AddTimerInLoop l (nextptr w)) (push_pending (UserTask 0) lp)))"
    "chans w3 = chans w" "timers w3 (nextptr w) = Some ti" "out_lines w3 = out_lines w @ [''exit main().'']"
    using test4_main_result [OF w cur, of rnd os] by blast
  let ?lp = "set_quit True (push_pending (AddTimerInLoop l (nextptr w)) (push_pending (UserTask 0) lp))"
  obtain ch where lp: "el_threadId lp = lt" "1 < ep_evsize (el_epoller lp)" "el_pending lp = []" "tq_timerlist (el_timerqueue lp) = []"
    and c: "ep_channels (el_epoller lp) (el_wakeupfd lp) = Some (el_wakeupchannel lp)" "chans w (el_wakeupchannel lp) = Some ch"
    and cb: "ch_readCallback ch = Some (EventLoop_handleRead_cb l)" "ch_writeCallback ch = None" "ch_errorCallback ch = None"
      "ch_closeCallback ch = None"
    using w by (auto simp: polling_def)
  have call: "poll_call ?lp = poll_call lp" by (simp add: poll_call_def)
  have ev: "sr_ret (os (trace w3) (poll_call ?lp)) = 1" "sr_events (os (trace w3) (poll_call ?lp)) = [(el_wakeupfd ?lp, EPOLLIN)]"
    using os w3(2) by (simp_all add: eventfd_wakes_def fd_written_def call Let_def)
  have lp3: "el_threadId ?lp = lt" "1 < ep_evsize (el_epoller ?lp)"
    "ep_channels (el_epoller ?lp) (el_wakeupfd ?lp) = Some (el_wakeupchannel lp)" "chans w3 (el_wakeupchannel lp) = Some ch"
    using lp c w3(4) by simp_all
  obtain w5 where w5: "test4_iteration garbage ntop rnd ub os lt l w3 = doPendingFunctions (run_task rnd ub (\<lambda>_. runInThread) os lt) l w5"
    "loops w5 l = Some (?lp\<lparr>el_epollReturnTime := poll_time os ?lp (trace w3), el_channellist := [el_wakeupchannel lp]\<rparr>)"
    "timers w5 = timers w3" "reactor.more w5 = reactor.more w3"
    using wakeup_iteration [where os = os and w = w3 and lp = ?lp, OF w3(3) lp3 cb ev, of garbage ntop rnd ub "\<lambda>_. runInThread"]
    unfolding test4_iteration_def by blast
  let ?lp5 = "?lp\<lparr>el_epollReturnTime := poll_time os ?lp (trace w3), el_channellist := [el_wakeupchannel lp]\<rparr>"
  let ?w6 = "say ''runInThread()'' (upd_loop swap_pending l w5)"
  have w6: "loops ?w6 l = Some (swap_pending ?lp5)" "el_threadId (swap_pending ?lp5) = lt" "timers ?w6 (nextptr w) = Some ti"
    "tq_timerlist (el_timerqueue (swap_pending ?lp5)) = []" "el_pending ?lp5 = [UserTask 0, AddTimerInLoop l (nextptr w)]"
    using w5(2,3) w3(5) lp by (simp_all add: swap_pending_def set_quit_def)
  obtain w7 where w7: "addTimerInLoop os lt l (nextptr w) ?w6 = Inr w7"
    "loops w7 l = Some (set_timerlist [(ti_expiration ti, nextptr w)] (swap_pending ?lp5))" "reactor.more w7 = reactor.more ?w6"
    using addTimer_first [OF w6(1,2,4,3), of os] by blast
  let ?w4 = "upd_loop end_calling l w7"
  have run: "test4_iteration garbage ntop rnd ub os lt l w3 = Inr ?w4"
    unfolding w5(1) using w5(2) w6(5) w7(1,2) by (simp add: doPendingFunctions_def run_task_def runInThread_def)
  have "out_lines ?w4 = out_lines w @ [''exit main().'', ''runInThread()'']"
    using out_lines_more [OF w7(3)] out_lines_more [OF w5(4)] w3(6) by simp
  moreover obtain lp4 where lp4: "loops ?w4 l = Some lp4" "el_quit lp4" "tq_timerlist (el_timerqueue lp4) = [(ti_expiration ti, nextptr w)]"
    "el_pending lp4 = []"
    using w7(2) by (simp add: end_calling_def set_timerlist_def swap_pending_def)
  moreover have "while_not_quit (test4_iteration garbage ntop rnd ub os lt l) l ?w4 = Some (Inr ?w4)"
    by (rule while_done [OF lp4(1,2)])
  ultimately show ?thesis using w3(1,2,6) run
    by (intro exI [of _ w3] exI [of _ ?w4] exI [of _ lp4] exI [of _ "ti_expiration ti"]) simp
qed

definition waking_kernel :: kernel where
  "waking_kernel h c = (case c of Sys_epoll_wait _ _ _ \<Rightarrow> answer 1 [(3, EPOLLIN)] | _ \<Rightarrow> answer 0 [])"

theorem test4_prints_once_witness:
  "\<exists>w3 w4. test4_main id waking_kernel 8 0
       (program_world 2 ((Channel_init 0 3 False)\<lparr>ch_readCallback := Some (EventLoop_handleRead_cb 0)\<rparr>)) = Inr w3 \<and>
     test4_iteration no_addr (\<lambda>_. []) id no_callbacks waking_kernel 7 0 w3 = Inr w4 \<and>
     out_lines w3 = [''exit main().''] \<and> out_lines w4 = [''exit main().'', ''runInThread()'']"
proof -
  let ?ch = "(Channel_init 0 3 False)\<lparr>ch_readCallback := Some (EventLoop_handleRead_cb 0)\<rparr>"
  let ?lp = "set_channel 3 (Some 2) loop0"
  have w: "polling 7 0 ?lp (program_world 2 ?ch)"
    using program_world_simps [of 2 ?ch] by (simp add: polling_def loop0_def set_channel_def Channel_init_def)
  have os: "eventfd_wakes waking_kernel ?lp"
    by (simp add: eventfd_wakes_def waking_kernel_def poll_call_def answer_def set_channel_def loop0_def Let_def)
  from test4_prints_once [OF w _ os, of 8 id no_addr "\<lambda>_. []" no_callbacks] show ?thesis
    by (auto simp: program_world_simps)
qed

end
