(* ===== verification/Net_Programs.thy ===== *)
theory Net_Programs
  imports Loop_Programs
begin

text \<open>
  The small programs with sockets (src/reactor/test5.cc to test8.cc): an acceptor that greets and closes, a
  connector that stops the loop, an echo client that disconnects after three seconds and an echo server
  with a choice of io threads. Printed lines leave out the numbers of processes and threads, and times.
\<close>

section \<open>test5.cc: an acceptor\<close>

definition greeting :: "byte list" where
  "greeting = ''How are you?'' @ [CHR 0x0A]"

definition test5_newConnection :: "(32 word \<Rightarrow> string) \<Rightarrow> kernel \<Rightarrow> int \<Rightarrow> sockaddr_in \<Rightarrow> 'z program_scheme \<Rightarrow> 'z program_scheme res" where
  "test5_newConnection ntop os sockfd peerAddr w =
     (let w1 = say (''newConnection(): accepted a new connection from '' @ InetAddress_toHostPort ntop peerAddr) w in
      Inr (closefd os sockfd (snd (do_sys os (Sys_write sockfd greeting) w1))))"

text \<open>The callback has no owner; 0 stands for it.\<close>

definition test5_main :: "kernel \<Rightarrow> tid \<Rightarrow> 'z program_scheme \<Rightarrow> (ptr \<times> 'z program_scheme) res" where
  "test5_main os cur w =
     bindR (EventLoop_new os cur w) (\<lambda>(l, w1).
     case Acceptor_new os l (InetAddress_port 9981) w1 of (a, w2) \<Rightarrow>
     bindR (Acceptor_listen os cur a (Acceptor_setNewConnectionCallBack 0 a w2)) (\<lambda>w3. Inr (l, w3)))"

definition test5_readable :: "(32 word \<Rightarrow> string) \<Rightarrow> kernel \<Rightarrow> tid \<Rightarrow> ptr \<Rightarrow> 'z program_scheme \<Rightarrow> 'z program_scheme res" where
  "test5_readable ntop os cur a = Acceptor_handleRead (\<lambda>_. test5_newConnection ntop os) os cur a"

text \<open>The system calls of one event: a descriptor that was accepted is greeted and closed.\<close>

definition greet_one :: "kernel \<Rightarrow> int \<Rightarrow> history \<Rightarrow> history" where
  "greet_one os listenfd h =
     (let r = os h (Sys_accept4 listenfd); fd = sr_ret r;
          h1 = h @ [(Sys_accept4 listenfd, r)];
          h2 = h1 @ [(Sys_write fd greeting, os h1 (Sys_write fd greeting))] in
      if fd < 0 then h1 else h2 @ [(Sys_close fd, os h2 (Sys_close fd))])"

fun accepted_fds :: "history \<Rightarrow> int list" where
  "accepted_fds [] = []"
| "accepted_fds ((Sys_accept4 _, r) # h) = (if sr_ret r < 0 then [] else [sr_ret r]) @ accepted_fds h"
| "accepted_fds (_ # h) = accepted_fds h"

fun closed_fds :: "history \<Rightarrow> int list" where
  "closed_fds [] = []"
| "closed_fds ((Sys_close fd, _) # h) = fd # closed_fds h"
| "closed_fds (_ # h) = closed_fds h"

lemma accepted_append [simp]: "accepted_fds (h @ h') = accepted_fds h @ accepted_fds h'"
  by (induction h rule: accepted_fds.induct) simp_all

lemma closed_append [simp]: "closed_fds (h @ h') = closed_fds h @ closed_fds h'"
  by (induction h rule: closed_fds.induct) simp_all

lemma test5_readable_result:
  assumes "acceptors w a = Some ac" "ac_newConnectionCallback ac = Some n" "loops w (ac_loop ac) = Some lp" "el_threadId lp = cur"
  shows "\<exists>w'. test5_readable ntop os cur a w = Inr w' \<and> trace w' = greet_one os (ac_sockfd ac) (trace w) \<and>
    acceptors w' = acceptors w \<and> loops w' = loops w \<and>
    length (out_lines w') = length (out_lines w) + of_bool (0 \<le> sr_ret (os (trace w) (Sys_accept4 (ac_sockfd ac))))"
  using assms
  by (auto simp: test5_readable_def Acceptor_handleRead_def assertInLoopThread_def isInLoopThread_def sockets_defs
      test5_newConnection_def greet_one_def say_def Let_def)

lemma greet_one_fds:
  "closed_fds h = accepted_fds h \<Longrightarrow> closed_fds (greet_one os fd h) = accepted_fds (greet_one os fd h)"
  "length (accepted_fds (greet_one os fd h)) = length (accepted_fds h) + of_bool (0 \<le> sr_ret (os h (Sys_accept4 fd)))"
  by (simp_all add: greet_one_def Let_def)

text \<open>The acceptor program leaks no descriptor: whatever the kernel answers, after any number of events on the
  listening socket the descriptors closed are the descriptors accepted, in the same order, each greeted
  right before, and one line has been printed for each.\<close>

theorem test5_closes_what_it_accepts:
  assumes "acceptors w a = Some ac" "ac_newConnectionCallback ac = Some k" "loops w (ac_loop ac) = Some lp" "el_threadId lp = cur"
    and "closed_fds (trace w) = accepted_fds (trace w)" "length (out_lines w) = length (accepted_fds (trace w))"
  shows "\<exists>w'. iterate n (test5_readable ntop os cur a) w = Inr w' \<and> trace w' = (greet_one os (ac_sockfd ac) ^^ n) (trace w) \<and>
    closed_fds (trace w') = accepted_fds (trace w') \<and> length (out_lines w') = length (accepted_fds (trace w'))"
  using assms
proof (induction n arbitrary: w)
  case (Suc n)
  obtain w1 where w1: "test5_readable ntop os cur a w = Inr w1" "trace w1 = greet_one os (ac_sockfd ac) (trace w)"
    "acceptors w1 = acceptors w" "loops w1 = loops w"
    "length (out_lines w1) = length (out_lines w) + of_bool (0 \<le> sr_ret (os (trace w) (Sys_accept4 (ac_sockfd ac))))"
    using test5_readable_result [OF Suc.prems(1-4), of ntop os] by blast
  have fds: "closed_fds (trace w1) = accepted_fds (trace w1)" "length (out_lines w1) = length (accepted_fds (trace w1))"
    using Suc.prems(5,6) greet_one_fds w1(2,5) by simp_all
  have ac: "acceptors w1 a = Some ac" "loops w1 (ac_loop ac) = Some lp" using Suc.prems w1(3,4) by simp_all
  from Suc.IH [OF ac(1) Suc.prems(2) ac(2) Suc.prems(4) fds] w1(1,2) show ?case by (simp add: funpow_swap1)
qed simp

section \<open>test6.cc: a connector\<close>

definition test6_connectCallback :: "kernel \<Rightarrow> tid \<Rightarrow> ptr \<Rightarrow> int \<Rightarrow> 'z program_scheme \<Rightarrow> 'z program_scheme res" where
  "test6_connectCallback os cur l sockfd w = EventLoop_quit os cur l (say ''connected.'' w)"

definition test6_main ::
    "(rat \<Rightarrow> rat) \<Rightarrow> (string \<Rightarrow> 32 word option) \<Rightarrow> kernel \<Rightarrow> tid \<Rightarrow> 'z program_scheme \<Rightarrow> (ptr \<times> 'z program_scheme) res" where
  "test6_main rnd pton os cur w =
     bindR (EventLoop_new os cur w) (\<lambda>(l, w1).
     case Connector_new l (InetAddress_ip pton ''127.0.0.1'' 55555) w1 of (k, w2) \<Rightarrow>
     bindR (Connector_start rnd os cur k (Connector_setNewConnectionCallBack 0 k w2)) (\<lambda>w3. Inr (l, w3)))"

definition test6_writable :: "(rat \<Rightarrow> rat) \<Rightarrow> kernel \<Rightarrow> tid \<Rightarrow> ptr \<Rightarrow> ptr \<Rightarrow> 'z program_scheme \<Rightarrow> 'z program_scheme res" where
  "test6_writable rnd os cur l k = Connector_handleWrite rnd (\<lambda>_. test6_connectCallback os cur l) os cur k"

text \<open>The kernel reports no error for the socket, and other addresses for its two ends.\<close>

definition connects :: "kernel \<Rightarrow> bool" where
  "connects os \<longleftrightarrow> (\<forall>h fd. sr_ret (os h (Sys_getsockopt_error fd)) = 0 \<and> sr_optval (os h (Sys_getsockopt_error fd)) = 0) \<and>
     (\<forall>h h' fd. sr_ret (os h (Sys_getsockname fd)) = 0 \<and> sr_ret (os h' (Sys_getpeername fd)) = 0 \<and>
       sin_port (sr_addr (os h (Sys_getsockname fd))) \<noteq> sin_port (sr_addr (os h' (Sys_getpeername fd))))"

lemma removeAndReset_live:
  assumes co: "connectors w k = Some co" "co_channel co = Some p"
    and live: "channel_live cur p ch lp w" "ch_loop ch = co_loop co" and os: "epoll_ctl_ok os"
  shows "\<exists>w'. removeAndResetChannel os cur k w = Inr (ch_fd ch, w') \<and> reactor.more w' = reactor.more w \<and>
    loops w' (co_loop co) = Some (push_pending (ResetChannel k) (set_channel (ch_fd ch) None lp))"
proof -
  let ?l = "co_loop co" and ?ch = "set_events kNoneEvent ch" and ?lp2 = "set_channel (ch_fd ch) None lp"
  let ?w1 = "sys_after os (Sys_epoll_mod (ep_epfd (el_epoller lp)) (ch_fd ch) kNoneEvent) (upd_chan (set_events kNoneEvent) p w)"
  have lp: "loops w ?l = Some lp" "el_threadId lp = cur" using live by (simp_all add: channel_live_def)
  have live1: "channel_live cur p ?ch lp ?w1" using live by (simp add: channel_live_def)
  let ?w2 = "after_remove os p ?ch lp ?w1"
  have w2: "loops ?w2 ?l = Some ?lp2" "chans ?w2 p = Some (set_registered False ?ch)" "reactor.more ?w2 = reactor.more w"
    using os lp live by (simp_all add: after_remove_def Let_def epoll_ctl_ok_def sys_after_def channel_live_def)
  have rem: "EventLoop_removeChannel os cur ?l p ?w1 = Inr ?w2"
    using removeChannel_live [OF live1, of os] live(2) by simp
  let ?w3 = "sys_after os (Sys_write (el_wakeupfd ?lp2) one_bytes) (upd_loop (push_pending (ResetChannel k)) ?l ?w2)"
  have que: "queueInLoop os cur ?l (ResetChannel k) ?w2 = Inr ?w3"
    by (rule queueInLoop_live [OF w2(1)]) (simp add: lp(2))
  have "removeAndResetChannel os cur k w = Inr (ch_fd ch, ?w3)"
    unfolding removeAndResetChannel_def using co disableAll_live [OF live(1), of os] rem w2(2) que by simp
  moreover have "reactor.more ?w3 = reactor.more w" using w2(3) by (simp add: sys_after_def)
  moreover have "loops ?w3 ?l = Some (push_pending (ResetChannel k) ?lp2)" using w2(1) by simp
  ultimately show ?thesis by blast
qed

text \<open>When the connection is established the connector unregisters its channel, queues its deletion, and calls the
  callback, which prints and asks the loop to quit; the socket is handed to the callback, which keeps it open.\<close>

theorem test6_quits_when_connected:
  assumes co: "connectors w k = Some co" "co_state co = Connector_kConnecting" "co_channel co = Some p" "co_connect co"
      "co_newConnectionCallback co = Some n"
    and live: "channel_live cur p ch lp w" "ch_loop ch = co_loop co" and os: "connects os" "epoll_ctl_ok os"
  shows "\<exists>w' lp'. test6_writable rnd os cur (co_loop co) k w = Inr w' \<and> out_lines w' = out_lines w @ [''connected.''] \<and>
    loops w' (co_loop co) = Some lp' \<and> el_quit lp' \<and> el_pending lp' = el_pending lp @ [ResetChannel k] \<and>
    map_option co_state (connectors w' k) = Some Connector_kConnected \<and> ep_channels (el_epoller lp') (ch_fd ch) = None"
proof -
  let ?l = "co_loop co" and ?lp = "push_pending (ResetChannel k) (set_channel (ch_fd ch) None lp)"
  obtain w1 where w1: "removeAndResetChannel os cur k w = Inr (ch_fd ch, w1)" "reactor.more w1 = reactor.more w" "loops w1 ?l = Some ?lp"
    using removeAndReset_live [OF co(1,3) live os(2)] by blast
  obtain h where err: "getSocketError os (ch_fd ch) w1 = (0, w1\<lparr>trace := h\<rparr>)"
    using os(1) by (auto simp: connects_def getSocketError_def)
  obtain h' where self: "isSelfConnect os (ch_fd ch) (w1\<lparr>trace := h\<rparr>) = (False, w1\<lparr>trace := h'\<rparr>)"
    using os(1) by (auto simp: connects_def isSelfConnect_def getLocalAddr_def getPeerAddr_def)
  let ?w4 = "upd_connector (Connector_setState Connector_kConnected) k (w1\<lparr>trace := h'\<rparr>)"
  have more: "connectors w1 = connectors w" "out_lines w1 = out_lines w" using w1(2) by (cases w; cases w1; simp)+
  have l4: "loops (say ''connected.'' ?w4) ?l = Some ?lp" "el_threadId ?lp = cur"
    using w1(3) live by (simp_all add: upd_connector_def channel_live_def)
  have run: "test6_writable rnd os cur ?l k w = Inr (upd_loop (set_quit True) ?l (say ''connected.'' ?w4))"
    using co w1(1) err self quit_in_thread [OF l4, of os]
    by (simp add: test6_writable_def Connector_handleWrite_def test6_connectCallback_def call_fun_def)
  have "connectors (say ''connected.'' ?w4) = (connectors w)(k \<mapsto> Connector_setState Connector_kConnected co)"
    using co(1) more(1) by (simp add: say_def upd_connector_def upd_def)
  then show ?thesis using run l4(1) more(2)
    by (simp add: upd_connector_def Connector_setState_def set_channel_def)
qed

section \<open>test7.cc and test8.cc: an echo client and an echo server that print\<close>

definition print_onConnection :: "(32 word \<Rightarrow> string) \<Rightarrow> ptr \<Rightarrow> 'z program_scheme \<Rightarrow> 'z program_scheme res" where
  "print_onConnection ntop c w =
     bindR (deref (conns w) c) (\<lambda>tc.
     Inr (say (if connected tc
       then ''onConnection(): new connection ['' @ tc_name tc @ ''] from '' @ InetAddress_toHostPort ntop (tc_peerAddr tc)
       else ''onConnection(): connection ['' @ tc_name tc @ ''] is down'') w))"

definition print_onMessage :: "kernel \<Rightarrow> tid \<Rightarrow> ptr \<Rightarrow> timestamp \<Rightarrow> 'z program_scheme \<Rightarrow> 'z program_scheme res" where
  "print_onMessage os cur c receiveTime w =
     bindR (deref (conns w) c) (\<lambda>tc.
     let w1 = say (''onMessage(): received '' @ fmt_d (int (readableBytes (tc_inputBuffer tc))) @ '' bytes from connection ['' @
       tc_name tc @ '']'') w in
     bindR (retrieveAsString (tc_inputBuffer tc)) (\<lambda>(msg, buf).
     TcpConnection_send os cur c msg (upd_conn (\<lambda>tc. tc\<lparr>tc_inputBuffer := buf\<rparr>) c w1)))"

definition print_callbacks :: "(32 word \<Rightarrow> string) \<Rightarrow> (rat \<Rightarrow> rat) \<Rightarrow> kernel \<Rightarrow> tid \<Rightarrow> 'z program_scheme callbacks" where
  "print_callbacks ntop rnd os cur = \<lparr>on_connection = (\<lambda>_. print_onConnection ntop), on_message = (\<lambda>_. print_onMessage os cur),
     on_write_complete = (\<lambda>_ _ _. Inl BadFunctionCall), on_close = close_dispatch rnd os cur\<rparr>"

definition test7_timeout :: "kernel \<Rightarrow> tid \<Rightarrow> ptr \<Rightarrow> 'z program_scheme \<Rightarrow> 'z program_scheme res" where
  "test7_timeout os cur cl w = TcpClient_disconnect os cur cl w"

definition test7_main ::
    "(rat \<Rightarrow> rat) \<Rightarrow> (string \<Rightarrow> 32 word option) \<Rightarrow> kernel \<Rightarrow> tid \<Rightarrow> 'z program_scheme \<Rightarrow> (ptr \<times> ptr \<times> 'z program_scheme) res" where
  "test7_main rnd pton os cur w =
     (let serverAddr = InetAddress_ip pton ''106.13.3.180'' 9981 in
      bindR (EventLoop_new os cur w) (\<lambda>(l, w1).
      case TcpClient_new l serverAddr w1 of (cl, w2) \<Rightarrow>
      let w3 = TcpClient_setMessageCallback 1 cl (TcpClient_setConnectionCallback 0 cl w2) in
      bindR (TcpClient_connect rnd os cur cl w3) (\<lambda>w4.
      bindR (runAfter rnd os cur l 3 (UserTask cl) w4) (\<lambda>(_, w5). Inr (l, cl, w5)))))"

text \<open>The argument of test8, if there is one, is the number \<^verbatim>\<open>atoi\<close> reads.\<close>

definition test8_main :: "(32 word \<Rightarrow> string) \<Rightarrow> kernel \<Rightarrow> tid \<Rightarrow> int option \<Rightarrow> 'z program_scheme \<Rightarrow> (ptr \<times> 'z program_scheme) res" where
  "test8_main ntop os cur threads w =
     bindR (EventLoop_new os cur w) (\<lambda>(l, w1).
     case TcpServer_new ntop os l (InetAddress_port 9981) w1 of (s, w2) \<Rightarrow>
     let w3 = TcpServer_setMessageCallBack 1 s (TcpServer_setConnectionCallBack 0 s w2) in
     bindR (case threads of None \<Rightarrow> Inr w3 | Some n \<Rightarrow> TcpServer_setThreadNum n s w3) (\<lambda>w4.
     bindR (TcpServer_start os cur s w4) (\<lambda>w5. Inr (l, w5))))"

text \<open>The events a connection of either program gets.\<close>

definition print_event ::
    "sockaddr_in \<Rightarrow> (32 word \<Rightarrow> string) \<Rightarrow> (rat \<Rightarrow> rat) \<Rightarrow> (nat \<Rightarrow> 'z program_scheme \<Rightarrow> 'z program_scheme res) \<Rightarrow> kernel \<Rightarrow> tid \<Rightarrow> ptr \<Rightarrow>
     conn_event \<Rightarrow> 'z program_scheme \<Rightarrow> 'z program_scheme res" where
  "print_event garbage ntop rnd user_task os cur c e w =
     (let run = run_callback garbage ntop rnd (print_callbacks ntop rnd os cur) user_task os cur in
      case e of
        Readable t \<Rightarrow> run t (TcpConnection_handleRead_cb c) w
      | Writable \<Rightarrow> run Timestamp_new (TcpConnection_handleWrite_cb c) w)"

interpretation lines: output_view "out_lines :: 'z program_scheme \<Rightarrow> _"
  by unfold_locales (simp_all add: upd_chan_def upd_loop_def upd_conn_def)

lemma same_reactor_say [simp]: "same_reactor w (say s w)"
  by (simp add: same_reactor_def)

lemma out_lines_with_input [simp]:
  "out_lines (with_input c b w) = out_lines w" "out_lines (w\<lparr>trace := h\<rparr>) = out_lines w"
  by (simp_all add: with_input_def upd_conn_def)

text \<open>Everything received has been sent back or waits to be, and one line has been printed for each read after the first \<open>n\<close>.\<close>

definition printing :: "tid \<Rightarrow> ptr \<Rightarrow> nat \<Rightarrow> nat \<Rightarrow> 'z program_scheme \<Rightarrow> bool" where
  "printing cur c n m w \<longleftrightarrow> echoing cur c [] m w \<and>
     (\<exists>tc. conns w c = Some tc \<and> length (out_lines w) = n + reads_of (tc_sockfd tc) (trace w))"

lemma printing_readable:
  assumes p: "printing cur c n (k + m) w" and io: "read_ok k os" "k \<le> vector_max"
  shows "\<exists>w'. TcpConnection_handleRead (print_callbacks ntop rnd os cur) os cur c t w = Inr w' \<and> printing cur c n m w'"
proof -
  obtain tc where echo: "echoing cur c [] (k + m) w" and tc: "conns w c = Some tc"
    and n: "length (out_lines w) = n + reads_of (tc_sockfd tc) (trace w)"
    using p by (auto simp: printing_def)
  show ?thesis
    using echo io
  proof (cases rule: readable_cases)
    case (idle b h w')
    have "conns w' c = Some (tc\<lparr>tc_inputBuffer := b\<rparr>)" "out_lines w' = out_lines w" "trace w' = h"
      using idle(2) tc by simp_all
    then have "printing cur c n m w'" using idle(3,5) n by (auto simp: printing_def)
    then show ?thesis using idle(1) by blast
  next
    case (message tc' f d b b' h w')
    have tc': "tc' = tc\<lparr>tc_inputBuffer := b\<rparr>" and w': "out_lines w' = out_lines w" "trace w' = h"
      using message(2,3) tc by simp_all
    define line where "line = ''onMessage(): received '' @ fmt_d (int (length d)) @ '' bytes from connection ['' @ tc_name tc' @ '']''"
    let ?w2 = "with_input c b' (say line w')"
    have "?w2 = say line (with_input c b' w')" by (simp add: with_input_def say_def upd_conn_def)
    then have "ready_to_send cur c [] m d ?w2" using message(7) same_reactor_invs(4) [OF same_reactor_say] by metis
    then obtain w3 where w3: "TcpConnection_send os cur c d ?w2 = Inr w3" "echoing cur c [] m w3"
      using echoing_send by blast
    have run: "TcpConnection_handleRead (print_callbacks ntop rnd os cur) os cur c t w = Inr w3"
      using message(1,3-6) w3(1) by (simp add: print_callbacks_def print_onMessage_def Let_def with_input_def line_def)
    have v: "in_frame c ?w2 w3" "reads_of fd (trace w3) = reads_of fd (trace ?w2)" for fd
      using send_frame [OF w3(1)] read_count.view_send [OF w3(1)] by blast+
    obtain tc3 where tc3: "conns w3 c = Some tc3" "tc_sockfd tc3 = tc_sockfd tc"
      using v(1) message(3) tc' by (auto simp: in_frame_def in_view_def)
    have "length (out_lines w3) = length (out_lines w) + 1" using lines.view_send [OF w3(1)] w' by simp
    moreover have "reads_of (tc_sockfd tc) (trace w3) = reads_of (tc_sockfd tc) (trace w) + 1"
      using v(2) message(9) w' tc' by simp
    ultimately have "printing cur c n m w3" unfolding printing_def using w3(2) tc3 n by auto
    then show ?thesis using run by blast
  qed
qed

lemma printing_writable:
  assumes p: "printing cur c n (k + m) w" and "write_ok os"
  shows "\<exists>w'. TcpConnection_handleWrite os cur c w = Inr w' \<and> printing cur c n m w'"
proof -
  obtain w' where w': "TcpConnection_handleWrite os cur c w = Inr w'" "echoing cur c [] m w'"
    using echo_writable [of cur c "[]" k m w os] p assms(2) by (auto simp: printing_def)
  have "out_lines w' = out_lines w" "in_frame c w w'" "reads_of fd (trace w') = reads_of fd (trace w)" for fd
    using lines.view_handleWrite [OF w'(1)] handleWrite_frame [OF w'(1)] read_count.view_handleWrite [OF w'(1)] by blast+
  then have "printing cur c n m w'" using p w'(2) by (auto simp: printing_def in_frame_def in_view_def)
  with w'(1) show ?thesis by blast
qed

text \<open>The connections of test7 and test8 send back what they receive, whatever the order of events and however
  the kernel cuts the bytes, and print one line for each read that delivers bytes.\<close>

theorem print_programs_echo:
  assumes "printing cur c n (length es * k + m) w" and "read_ok k os" "write_ok os" "k \<le> vector_max"
  shows "\<exists>w'. foldR (print_event garbage ntop rnd user_task os cur c) es w = Inr w' \<and> printing cur c n m w'"
  using assms(1)
proof (induction es arbitrary: w)
  case (Cons e es)
  have w: "printing cur c n (k + (length es * k + m)) w" using Cons.prems by (simp add: add.assoc)
  have "\<exists>w1. print_event garbage ntop rnd user_task os cur c e w = Inr w1 \<and> printing cur c n (length es * k + m) w1"
  proof (cases e)
    case (Readable t)
    with printing_readable [OF w assms(2,4)] show ?thesis by (simp add: print_event_def run_callback_def Let_def)
  next
    case Writable
    with printing_writable [OF w assms(3)] show ?thesis by (simp add: print_event_def run_callback_def Let_def)
  qed
  then show ?case using Cons.IH by auto
qed simp

text \<open>The timeout of test7 half-closes an idle connection, leaves one with unsent bytes to \<^verbatim>\<open>handleWrite\<close>, and stops
  no connection attempt: without a connection it only clears a flag of the client.\<close>

theorem test7_timeout_disconnects:
  assumes cl: "clients w cl = Some x"
  shows "cl_connection x = None \<Longrightarrow> test7_timeout os cur cl w = Inr (upd_client (\<lambda>x. x\<lparr>cl_connect := False\<rparr>) cl w)"
    and "cl_connection x = Some c \<Longrightarrow> conns w c = Some tc \<Longrightarrow> tc_state tc = kConnected \<Longrightarrow>
      loops w (tc_loop tc) = Some lp \<Longrightarrow> el_threadId lp = cur \<Longrightarrow> chans w (tc_channel tc) = Some ch \<Longrightarrow>
      \<exists>w'. test7_timeout os cur cl w = Inr w' \<and> conns w' = (conns w)(c \<mapsto> setState kDisconnecting tc) \<and>
        trace w' = trace w @ (if isWriting ch then [] else [(Sys_shutdown (tc_sockfd tc), os (trace w) (Sys_shutdown (tc_sockfd tc)))])"
proof -
  show "cl_connection x = None \<Longrightarrow> test7_timeout os cur cl w = Inr (upd_client (\<lambda>x. x\<lparr>cl_connect := False\<rparr>) cl w)"
    using cl by (simp add: test7_timeout_def TcpClient_disconnect_def Let_def)
  assume c: "cl_connection x = Some c" "conns w c = Some tc" "tc_state tc = kConnected" "loops w (tc_loop tc) = Some lp"
    "el_threadId lp = cur" "chans w (tc_channel tc) = Some ch"
  let ?w1 = "upd_client (\<lambda>x. x\<lparr>cl_connect := False\<rparr>) cl w"
  have w1: "conns ?w1 = conns w" "loops ?w1 = loops w" "chans ?w1 = chans w" "trace ?w1 = trace w" by (simp_all add: upd_client_def)
  have "test7_timeout os cur cl w = shutdownInLoop os cur c (upd_conn (setState kDisconnecting) c ?w1)"
    using cl c w1 by (simp add: test7_timeout_def TcpClient_disconnect_def TcpConnection_shutdown_def runInLoop_def isInLoopThread_def Let_def)
  then show "\<exists>w'. test7_timeout os cur cl w = Inr w' \<and> conns w' = (conns w)(c \<mapsto> setState kDisconnecting tc) \<and>
      trace w' = trace w @ (if isWriting ch then [] else [(Sys_shutdown (tc_sockfd tc), os (trace w) (Sys_shutdown (tc_sockfd tc)))])"
    using c w1 by (auto simp: shutdownInLoop_def assertInLoopThread_def isInLoopThread_def sockets_defs setState_def upd_def)
qed

end
