(* ===== verification/Loop_Construction.thy ===== *)
theory Loop_Construction
  imports Loop_Programs
begin

text \<open>
  The constructor and the destructor of \<^verbatim>\<open>EventLoop\<close> (src/reactor/EventLoop.cc), with those of \<^verbatim>\<open>Epoller\<close>,
  \<^verbatim>\<open>TimerQueue\<close> and the two channels they own: where the states come from that the other theories start with,
  and that nothing is left of them. The program src/reactor/test1.cc makes two loops in two threads.
\<close>

section \<open>The constructor of EventLoop\<close>

text \<open>The descriptors the kernel gives out: of the eventfd, the epoll instance and the timer.\<close>

definition new_fds :: "kernel \<Rightarrow> history \<Rightarrow> int \<times> int \<times> int" where
  "new_fds os h =
     (let a = os h Sys_eventfd; h1 = h @ [(Sys_eventfd, a)];
          b = os h1 Sys_epoll_create; h2 = h1 @ [(Sys_epoll_create, b)] in
      (sr_ret a, sr_ret b, sr_ret (os h2 Sys_timerfd_create)))"

definition new_loop :: "tid \<Rightarrow> int \<times> int \<times> int \<Rightarrow> ptr \<Rightarrow> eventLoop" where
  "new_loop cur fds l = (case fds of (efd, epfd, tfd) \<Rightarrow>
     \<lparr>el_looping = False, el_quit = False, el_calling = False, el_wakeupfd = efd, el_threadId = cur,
      el_epollReturnTime = Timestamp_new,
      el_epoller = \<lparr>ep_epfd = epfd, ep_channels = [tfd \<mapsto> l + 1, efd \<mapsto> l + 2], ep_evsize = kInitEventListSize\<rparr>,
      el_timerqueue = \<lparr>tq_timerfd = tfd, tq_timerfdchannel = l + 1, tq_timerlist = []\<rparr>,
      el_wakeupchannel = l + 2, el_channellist = [], el_pending = []\<rparr>)"

definition new_channel :: "ptr \<Rightarrow> int \<Rightarrow> callback \<Rightarrow> channel" where
  "new_channel l fd cb = (listening (Channel_init l fd False))\<lparr>ch_readCallback := Some cb\<rparr>"

text \<open>The system calls of the constructor.\<close>

definition new_calls :: "int \<times> int \<times> int \<Rightarrow> history \<Rightarrow> bool" where
  "new_calls fds h \<longleftrightarrow> (case fds of (efd, epfd, tfd) \<Rightarrow>
     \<exists>a b t r1 r2. sr_ret a = efd \<and> sr_ret t = tfd \<and> h = [(Sys_eventfd, a), (Sys_epoll_create, b), (Sys_timerfd_create, t),
       (Sys_epoll_add epfd tfd kReadEvent, r1), (Sys_epoll_add epfd efd kReadEvent, r2)])"

text \<open>The loop is put at the first free address, its channels behind it.\<close>

lemma EventLoop_new_state:
  assumes fds: "new_fds os (trace w) = (efd, epfd, tfd)" "0 \<le> efd" "tfd \<noteq> efd" and os: "epoll_ctl_ok os"
  shows "\<exists>h. new_calls (efd, epfd, tfd) h \<and>
    EventLoop_new os cur w = (if thisThreadEventLoop w cur \<noteq> None then Inl FatalLog else Inr (nextptr w, w\<lparr>trace := trace w @ h, nextptr := nextptr w + 3,
    loops := (loops w)(nextptr w \<mapsto> new_loop cur (efd, epfd, tfd) (nextptr w)),
    chans := (chans w)(nextptr w + 1 \<mapsto> new_channel (nextptr w) tfd (TimerQueue_handleRead_cb (nextptr w)),
      nextptr w + 2 \<mapsto> new_channel (nextptr w) efd (EventLoop_handleRead_cb (nextptr w))),
    thisThreadEventLoop := (thisThreadEventLoop w)(cur \<mapsto> nextptr w)\<rparr>))"
proof -
  let ?l = "nextptr w"
  let ?lp0 = "\<lparr>el_looping = False, el_quit = False, el_calling = False, el_wakeupfd = efd, el_threadId = cur,
      el_epollReturnTime = Timestamp_new, el_epoller = \<lparr>ep_epfd = epfd, ep_channels = (\<lambda>_. None), ep_evsize = kInitEventListSize\<rparr>,
      el_timerqueue = \<lparr>tq_timerfd = tfd, tq_timerfdchannel = ?l + 1, tq_timerlist = []\<rparr>,
      el_wakeupchannel = 0, el_channellist = [], el_pending = []\<rparr>"
  let ?ch1 = "(Channel_init ?l tfd False)\<lparr>ch_readCallback := Some (TimerQueue_handleRead_cb ?l)\<rparr>"
  obtain a b t where abt: "a = os (trace w) Sys_eventfd" "b = os (trace w @ [(Sys_eventfd, a)]) Sys_epoll_create"
    "t = os (trace w @ [(Sys_eventfd, a), (Sys_epoll_create, b)]) Sys_timerfd_create" by blast
  define h0 where "h0 = trace w @ [(Sys_eventfd, a), (Sys_epoll_create, b)]"
  have ret: "sr_ret a = efd" "sr_ret b = epfd" "sr_ret t = tfd" "t = os h0 Sys_timerfd_create"
    using fds(1) abt by (simp_all add: new_fds_def Let_def h0_def)
  have h0: "eventfd_create os w = Inr (efd, w\<lparr>trace := trace w @ [(Sys_eventfd, os (trace w) Sys_eventfd)]\<rparr>)"
    "Epoller_new os (w\<lparr>trace := trace w @ [(Sys_eventfd, os (trace w) Sys_eventfd)]\<rparr>) =
      (\<lparr>ep_epfd = epfd, ep_channels = (\<lambda>_. None), ep_evsize = kInitEventListSize\<rparr>, w\<lparr>trace := h0\<rparr>)"
    "os h0 Sys_timerfd_create = t"
    using fds(2) ret abt by (simp_all add: eventfd_create_def Epoller_new_def h0_def)
  let ?w1 = "w\<lparr>trace := h0 @ [(Sys_timerfd_create, t)], nextptr := ?l + 2,
    loops := (loops w)(?l \<mapsto> ?lp0), chans := (chans w)(?l + 1 \<mapsto> ?ch1)\<rparr>"
  have w1: "chans ?w1 (?l + 1) = Some ?ch1" "loops ?w1 (ch_loop ?ch1) = Some ?lp0" by (simp_all add: Channel_init_def)
  obtain r1 where "enableReading os cur (?l + 1) ?w1 = Inr ((upd_chan listening (?l + 1) (upd_loop (set_channel tfd (Some (?l + 1))) ?l ?w1))
      \<lparr>trace := (h0 @ [(Sys_timerfd_create, t)]) @ [(Sys_epoll_add epfd tfd kReadEvent, r1)]\<rparr>)"
    using enableReading_new [OF w1(1) _ _ w1(2) _ _ os] by (auto simp: Channel_init_def read_mask_def)
  then obtain h1 where h1: "enableReading os cur (?l + 1) ?w1 =
      Inr ((upd_chan listening (?l + 1) (upd_loop (set_channel tfd (Some (?l + 1))) ?l ?w1))\<lparr>trace := h1\<rparr>)"
    "h1 = h0 @ [(Sys_timerfd_create, t), (Sys_epoll_add epfd tfd kReadEvent, r1)]" by simp
  let ?lp1 = "(set_channel tfd (Some (?l + 1)) ?lp0)\<lparr>el_wakeupchannel := ?l + 2\<rparr>"
  let ?ch2 = "(Channel_init ?l efd False)\<lparr>ch_readCallback := Some (EventLoop_handleRead_cb ?l)\<rparr>"
  let ?w2 = "w\<lparr>trace := h1, nextptr := ?l + 3, loops := (loops w)(?l \<mapsto> ?lp1),
    chans := (chans w)(?l + 1 \<mapsto> listening ?ch1, ?l + 2 \<mapsto> ?ch2), thisThreadEventLoop := (thisThreadEventLoop w)(cur \<mapsto> ?l)\<rparr>"
  have w2: "chans ?w2 (?l + 2) = Some ?ch2" "loops ?w2 (ch_loop ?ch2) = Some ?lp1" by (simp_all add: Channel_init_def)
  obtain h2 r2 where h2: "enableReading os cur (?l + 2) ?w2 =
      Inr ((upd_chan listening (?l + 2) (upd_loop (set_channel efd (Some (?l + 2))) ?l ?w2))\<lparr>trace := h2\<rparr>)"
    and "h2 = h1 @ [(Sys_epoll_add epfd efd kReadEvent, r2)]"
    using enableReading_new [OF w2(1) _ _ w2(2) _ _ os] fds(3) by (auto simp: Channel_init_def set_channel_def read_mask_def)
  then obtain h where h: "h2 = trace w @ h" "new_calls (efd, epfd, tfd) h"
    using h1(2) ret by (simp add: h0_def new_calls_def)
  let ?w0 = "w\<lparr>trace := h0, nextptr := ?l + 1,
    loops := (loops w)(?l \<mapsto> ?lp0\<lparr>el_timerqueue := \<lparr>tq_timerfd = 0, tq_timerfdchannel = 0, tq_timerlist = []\<rparr>\<rparr>)\<rparr>"
  let ?w3 = "(upd_chan listening (?l + 1) (upd_loop (set_channel tfd (Some (?l + 1))) ?l ?w1))\<lparr>trace := h1\<rparr>"
  have "TimerQueue_new os cur ?l ?w0 = enableReading os cur (?l + 1) ?w1"
    using h0(3) ret by (cases w) (simp add: TimerQueue_new_def createtimerfd_def Channel_new_def upd_chan_def upd_loop_def upd_def Let_def)
  then obtain w3 where tq: "TimerQueue_new os cur ?l ?w0 = Inr w3" and w3: "w3 = ?w3" using h1(1) by simp
  obtain c v where ch: "Channel_new ?l efd False w3 = (c, v)" "c = ?l + 2" "v = snd (Channel_new ?l efd False w3)"
    by (simp add: Channel_new_def w3 upd_chan_def upd_loop_def)
  let ?w4 = "upd_loop (\<lambda>lp. lp\<lparr>el_wakeupchannel := c\<rparr>) ?l v"
  let ?w5 = "upd_chan (\<lambda>ch. ch\<lparr>ch_readCallback := Some (EventLoop_handleRead_cb ?l)\<rparr>) c
      (?w4\<lparr>thisThreadEventLoop := (thisThreadEventLoop ?w4)(cur \<mapsto> ?l)\<rparr>)"
  have w5: "thisThreadEventLoop ?w4 cur = thisThreadEventLoop w cur" "?w5 = ?w2" unfolding ch(2,3) w3
    by (cases w; simp add: Channel_new_def upd_chan_def upd_loop_def upd_def)+
  let ?w6 = "(upd_chan listening (?l + 2) (upd_loop (set_channel efd (Some (?l + 2))) ?l ?w2))\<lparr>trace := h2\<rparr>"
  have "enableReading os cur c ?w5 = Inr ?w6" unfolding w5(2) unfolding ch(2) by (rule h2)
  moreover have "EventLoop_new os cur w =
      (if thisThreadEventLoop w cur \<noteq> None then Inl FatalLog else bindR (enableReading os cur c ?w5) (\<lambda>w9. Inr (?l, w9)))"
    using h0(1,2) tq ch(1) w5(1) by (simp add: EventLoop_new_def Let_def)
  ultimately have "EventLoop_new os cur w = (if thisThreadEventLoop w cur \<noteq> None then Inl FatalLog else Inr (?l, ?w6))" by (simp only: bindR_simps)
  moreover have "set_channel efd (Some (?l + 2)) ?lp1 = new_loop cur (efd, epfd, tfd) ?l"
    by (simp add: new_loop_def set_channel_def)
  moreover have "listening ?ch1 = new_channel ?l tfd (TimerQueue_handleRead_cb ?l)" "listening ?ch2 = new_channel ?l efd (EventLoop_handleRead_cb ?l)"
    by (simp_all add: new_channel_def listening_def Channel_init_def set_registered_def set_events_def read_mask_def)
  ultimately show ?thesis using h(2) unfolding h(1)
    by (intro exI [of _ h]) (cases w; simp add: upd_chan_def upd_loop_def upd_def)
qed

text \<open>There is nothing yet at the addresses that will be given out.\<close>

definition fresh_store :: "'z reactor_scheme \<Rightarrow> bool" where
  "fresh_store w \<longleftrightarrow> (\<forall>p \<ge> nextptr w. chans w p = None \<and> loops w p = None \<and> timers w p = None) \<and>
     (\<forall>p ch. chans w p = Some ch \<longrightarrow> ch_loop ch < nextptr w)"

definition fds_ok :: "kernel \<Rightarrow> history \<Rightarrow> bool" where
  "fds_ok os h \<longleftrightarrow> (case new_fds os h of (efd, epfd, tfd) \<Rightarrow> 0 \<le> efd \<and> tfd \<noteq> efd)"

lemma new_loop_simps [simp]:
  "el_threadId (new_loop cur fds l) = cur" "el_pending (new_loop cur fds l) = []" "\<not> el_quit (new_loop cur fds l)"
  "\<not> el_looping (new_loop cur fds l)" "\<not> el_calling (new_loop cur fds l)"
  "tq_timerlist (el_timerqueue (new_loop cur fds l)) = []" "el_wakeupchannel (new_loop cur fds l) = l + 2"
  "ep_evsize (el_epoller (new_loop cur fds l)) = kInitEventListSize"
  "el_wakeupfd (new_loop cur fds l) = fst fds" "tq_timerfd (el_timerqueue (new_loop cur fds l)) = snd (snd fds)"
  "tq_timerfdchannel (el_timerqueue (new_loop cur fds l)) = l + 1"
  "ep_channels (el_epoller (new_loop cur fds l)) = [snd (snd fds) \<mapsto> l + 1, fst fds \<mapsto> l + 2]"
  by (simp_all add: new_loop_def split: prod.split)

lemma new_channel_simps [simp]:
  "ch_loop (new_channel l fd cb) = l" "ch_fd (new_channel l fd cb) = fd" "ch_registered (new_channel l fd cb)"
  "\<not> ch_eventHandling (new_channel l fd cb)" "ch_readCallback (new_channel l fd cb) = Some cb"
  "ch_writeCallback (new_channel l fd cb) = None" "ch_errorCallback (new_channel l fd cb) = None"
  "ch_closeCallback (new_channel l fd cb) = None" "ch_events (new_channel l fd cb) = kReadEvent"
  by (simp_all add: new_channel_def listening_def Channel_init_def set_registered_def set_events_def read_mask_def)

lemma epoll_inv_new_loop:
  assumes "epoll_inv w" "t \<noteq> e" "c1 \<noteq> c2"
    and lk: "\<And>l' fd. ep_lookup w' l' fd = (if l' = l then [t \<mapsto> c1, e \<mapsto> c2] fd else ep_lookup w l' fd)"
    and cr: "\<And>c. chan_reg w' c = (if c = c2 then Some (e, l, True) else if c = c1 then Some (t, l, True) else chan_reg w c)"
    and old: "chan_reg w c1 = None" "chan_reg w c2 = None" "\<And>c fd b. chan_reg w c \<noteq> Some (fd, l, b)"
  shows "epoll_inv w'"
  unfolding epoll_inv_def
proof (intro allI)
  fix l' fd c
  have "ep_lookup w l' fd = Some c \<longleftrightarrow> chan_reg w c = Some (fd, l', True)" using assms(1) by (simp add: epoll_inv_def)
  then show "ep_lookup w' l' fd = Some c \<longleftrightarrow> chan_reg w' c = Some (fd, l', True)"
    using assms(2,3) old by (cases "l' = l") (auto simp: lk cr)
qed

text \<open>(C17) A new \<^verbatim>\<open>EventLoop\<close> is ready to poll: it belongs to the thread that made it, watches its eventfd and its timerfd
  through two registered channels with the right callbacks, has no timers and no tasks, and the agreement
  of channels and channel maps is kept. A second loop in the same thread ends the program.\<close>

theorem EventLoop_new_ready:
  assumes os: "epoll_ctl_ok os" "fds_ok os (trace w)" and fresh: "fresh_store w"
  shows "if thisThreadEventLoop w cur \<noteq> None then EventLoop_new os cur w = Inl FatalLog
    else \<exists>w' lp. EventLoop_new os cur w = Inr (nextptr w, w') \<and> polling cur (nextptr w) lp w' \<and> \<not> el_quit lp \<and>
      tq_inv (nextptr w) w' \<and> ep_channels (el_epoller lp) (tq_timerfd (el_timerqueue lp)) = Some (nextptr w + 1) \<and>
      map_option ch_readCallback (chans w' (nextptr w + 1)) = Some (Some (TimerQueue_handleRead_cb (nextptr w))) \<and>
      thisThreadEventLoop w' = (thisThreadEventLoop w)(cur \<mapsto> nextptr w) \<and> fresh_store w' \<and>
      (epoll_inv w \<longrightarrow> epoll_inv w') \<and> reactor.more w' = reactor.more w"
proof -
  let ?l = "nextptr w"
  obtain efd epfd tfd where fds: "new_fds os (trace w) = (efd, epfd, tfd)" "0 \<le> efd" "tfd \<noteq> efd"
    using os(2) by (auto simp: fds_ok_def)
  let ?lp = "new_loop cur (efd, epfd, tfd) ?l"
  let ?ch1 = "new_channel ?l tfd (TimerQueue_handleRead_cb ?l)" and ?ch2 = "new_channel ?l efd (EventLoop_handleRead_cb ?l)"
  obtain h0 where "new_calls (efd, epfd, tfd) h0"
    "EventLoop_new os cur w = (if thisThreadEventLoop w cur \<noteq> None then Inl FatalLog else Inr (?l, w\<lparr>trace := trace w @ h0, nextptr := ?l + 3,
    loops := (loops w)(?l \<mapsto> ?lp), chans := (chans w)(?l + 1 \<mapsto> ?ch1, ?l + 2 \<mapsto> ?ch2),
    thisThreadEventLoop := (thisThreadEventLoop w)(cur \<mapsto> ?l)\<rparr>))"
    using EventLoop_new_state [OF fds os(1), of cur] by blast
  then obtain h where new: "EventLoop_new os cur w = (if thisThreadEventLoop w cur \<noteq> None then Inl FatalLog else Inr (?l, w\<lparr>trace := h, nextptr := ?l + 3,
    loops := (loops w)(?l \<mapsto> ?lp), chans := (chans w)(?l + 1 \<mapsto> ?ch1, ?l + 2 \<mapsto> ?ch2),
    thisThreadEventLoop := (thisThreadEventLoop w)(cur \<mapsto> ?l)\<rparr>))" (is "_ = (if _ then _ else Inr (_, ?w'))")
    by blast
  have polling: "polling cur ?l ?lp ?w'" by (simp add: polling_def kInitEventListSize_def)
  have tq: "tq_inv ?l ?w'" by (simp add: tq_inv_def tq_list_def timers_ok_def)
  have fresh': "fresh_store ?w'" using fresh by (fastforce simp: fresh_store_def)
  have inv: "epoll_inv ?w'" if "epoll_inv w"
  proof -
    define w' where "w' = ?w'"
    have lk: "ep_lookup w' l fd = (if l = ?l then [tfd \<mapsto> ?l + 1, efd \<mapsto> ?l + 2] fd else ep_lookup w l fd)" for l fd
      by (simp add: ep_lookup_def w'_def)
    have cr: "chan_reg w' c = (if c = ?l + 2 then Some (efd, ?l, True) else if c = ?l + 1 then Some (tfd, ?l, True) else chan_reg w c)" for c
      by (simp add: chan_reg_def w'_def)
    have old: "chan_reg w (?l + 1) = None" "chan_reg w (?l + 2) = None" using fresh by (simp_all add: fresh_store_def chan_reg_def)
    have "chan_reg w c \<noteq> Some (fd, ?l, b)" for c fd b using fresh by (fastforce simp: fresh_store_def chan_reg_def)
    then have "epoll_inv w'" using epoll_inv_new_loop [OF that fds(3) _ lk cr old] by simp
    then show ?thesis unfolding w'_def .
  qed
  show ?thesis
  proof (cases "thisThreadEventLoop w cur")
    case None
    have "ep_channels (el_epoller ?lp) (tq_timerfd (el_timerqueue ?lp)) = Some (?l + 1)" using fds(3) by simp
    moreover have "map_option ch_readCallback (chans ?w' (?l + 1)) = Some (Some (TimerQueue_handleRead_cb ?l))" by simp
    moreover have "EventLoop_new os cur w = Inr (?l, ?w')" using new None by simp
    moreover have "thisThreadEventLoop ?w' = (thisThreadEventLoop w)(cur \<mapsto> ?l)" "reactor.more ?w' = reactor.more w" by simp_all
    ultimately show ?thesis using polling tq fresh' inv new_loop_simps(3)
      by (simp only: None simp_thms if_False) blast
  qed (use new in simp)
qed

definition fd_kernel :: kernel where
  "fd_kernel h c = (case c of Sys_eventfd \<Rightarrow> answer 3 [] | Sys_epoll_create \<Rightarrow> answer 4 [] | Sys_timerfd_create \<Rightarrow> answer 5 []
     | _ \<Rightarrow> answer 0 [])"

definition empty_world :: reactor where
  "empty_world = \<lparr>trace = [], chans = (\<lambda>_. None), loops = (\<lambda>_. None), timers = (\<lambda>_. None), nextptr = 0, numCreated = 0,
     thisThreadEventLoop = (\<lambda>_. None)\<rparr>"

lemma fd_kernel_ok: "epoll_ctl_ok fd_kernel" "fds_ok fd_kernel h" "new_fds fd_kernel h = (3, 4, 5)"
  by (simp_all add: epoll_ctl_ok_def fds_ok_def new_fds_def fd_kernel_def answer_def Let_def)

theorem EventLoop_new_ready_witness:
  "\<exists>w' lp. EventLoop_new fd_kernel 7 empty_world = Inr (0, w') \<and> polling 7 0 lp w' \<and> epoll_inv w'"
proof -
  have "fresh_store empty_world" "epoll_inv empty_world" "thisThreadEventLoop empty_world 7 = None" "nextptr empty_world = 0"
    by (simp_all add: fresh_store_def empty_world_def epoll_inv_def ep_lookup_def chan_reg_def)
  with EventLoop_new_ready [OF fd_kernel_ok(1,2), of empty_world 7] show ?thesis by auto
qed

section \<open>The destructor\<close>

text \<open>A loop that is made and destroyed leaves no objects behind, but its epoll descriptor stays open: the destructor
  closes the eventfd and the timerfd, and that of \<^verbatim>\<open>Epoller\<close> is empty.\<close>

theorem EventLoop_leaks_epoll_fd:
  assumes os: "epoll_ctl_ok os" "fds_ok os (trace w)" and fresh: "fresh_store w" and first: "thisThreadEventLoop w cur = None"
  shows "\<exists>w1 w2. EventLoop_new os cur w = Inr (nextptr w, w1) \<and> EventLoop_delete os cur (nextptr w) w1 = Inr w2 \<and>
    chans w2 = chans w \<and> loops w2 = loops w \<and> timers w2 = timers w \<and> thisThreadEventLoop w2 = thisThreadEventLoop w \<and>
    (case new_fds os (trace w) of (efd, epfd, tfd) \<Rightarrow> map fst (drop (length (trace w1)) (trace w2)) = [Sys_close efd, Sys_close tfd])"
proof -
  let ?l = "nextptr w"
  obtain efd epfd tfd where fds: "new_fds os (trace w) = (efd, epfd, tfd)" "0 \<le> efd" "tfd \<noteq> efd"
    using os(2) by (auto simp: fds_ok_def)
  let ?lp = "new_loop cur (efd, epfd, tfd) ?l"
  let ?ch1 = "new_channel ?l tfd (TimerQueue_handleRead_cb ?l)" and ?ch2 = "new_channel ?l efd (EventLoop_handleRead_cb ?l)"
  obtain h where new: "EventLoop_new os cur w = Inr (?l, w\<lparr>trace := h, nextptr := ?l + 3,
    loops := (loops w)(?l \<mapsto> ?lp), chans := (chans w)(?l + 1 \<mapsto> ?ch1, ?l + 2 \<mapsto> ?ch2),
    thisThreadEventLoop := (thisThreadEventLoop w)(cur \<mapsto> ?l)\<rparr>)" (is "_ = Inr (_, ?w1)")
    using EventLoop_new_state [OF fds os(1), of cur] first by auto
  have gone: "(chans w)(?l + 1 := None, ?l + 2 := None) = chans w" "(loops w)(?l := None) = loops w"
    "(thisThreadEventLoop w)(cur := None) = thisThreadEventLoop w"
    using fresh first by (auto simp: fresh_store_def fun_eq_iff)
  let ?c1 = "Sys_close efd" and ?c2 = "Sys_close tfd"
  let ?h1 = "h @ [(?c1, os h ?c1)]"
  let ?w2 = "w\<lparr>trace := ?h1 @ [(?c2, os ?h1 ?c2)], nextptr := ?l + 3\<rparr>"
  have "EventLoop_delete os cur ?l ?w1 = Inr (?w2\<lparr>loops := (loops w)(?l := None),
      chans := (chans w)(?l + 1 := None, ?l + 2 := None), thisThreadEventLoop := (thisThreadEventLoop w)(cur := None)\<rparr>)"
    by (cases w) (simp add: EventLoop_delete_def TimerQueue_delete_def Channel_delete_def Let_def fun_upd_twist)
  then have del: "EventLoop_delete os cur ?l ?w1 = Inr ?w2" unfolding gone by (cases w) simp
  show ?thesis unfolding fds(1) by (intro exI conjI, rule new, rule del) simp_all
qed

section \<open>test1.cc: a loop in each of two threads\<close>

definition test1_threadFunc :: "kernel \<Rightarrow> tid \<Rightarrow> 'z reactor_scheme \<Rightarrow> (ptr \<times> 'z reactor_scheme) res" where
  "test1_threadFunc os cur w = EventLoop_new os cur w"

definition test1_main :: "kernel \<Rightarrow> tid \<Rightarrow> tid \<Rightarrow> 'z reactor_scheme \<Rightarrow> (ptr \<times> ptr \<times> 'z reactor_scheme) res" where
  "test1_main os main_tid thread_tid w =
     bindR (EventLoop_new os main_tid w) (\<lambda>(l, w1).
     bindR (test1_threadFunc os thread_tid w1) (\<lambda>(l', w2). Inr (l, l', w2)))"

text \<open>Both loops are ready to poll, each in its own thread.\<close>

theorem test1_two_loops:
  assumes os: "epoll_ctl_ok os" "\<And>h. fds_ok os h" and fresh: "fresh_store w" and "main_tid \<noteq> thread_tid"
    and "thisThreadEventLoop w main_tid = None" "thisThreadEventLoop w thread_tid = None"
  shows "\<exists>l l' lp lp' w'. test1_main os main_tid thread_tid w = Inr (l, l', w') \<and> l \<noteq> l' \<and>
    polling main_tid l lp w' \<and> polling thread_tid l' lp' w' \<and>
    thisThreadEventLoop w' main_tid = Some l \<and> thisThreadEventLoop w' thread_tid = Some l'"
proof -
  obtain efd epfd tfd where fds: "new_fds os (trace w) = (efd, epfd, tfd)" "0 \<le> efd" "tfd \<noteq> efd"
    using os(2) [of "trace w"] by (auto simp: fds_ok_def)
  obtain w1 where w1: "EventLoop_new os main_tid w = Inr (nextptr w, w1)" "nextptr w1 = nextptr w + 3"
    "loops w1 = (loops w)(nextptr w \<mapsto> new_loop main_tid (efd, epfd, tfd) (nextptr w))"
    "chans w1 = (chans w)(nextptr w + 1 \<mapsto> new_channel (nextptr w) tfd (TimerQueue_handleRead_cb (nextptr w)),
      nextptr w + 2 \<mapsto> new_channel (nextptr w) efd (EventLoop_handleRead_cb (nextptr w)))"
    "thisThreadEventLoop w1 = (thisThreadEventLoop w)(main_tid \<mapsto> nextptr w)"
    using EventLoop_new_state [OF fds os(1), of main_tid] assms(5) by auto
  obtain efd' epfd' tfd' where fds': "new_fds os (trace w1) = (efd', epfd', tfd')" "0 \<le> efd'" "tfd' \<noteq> efd'"
    using os(2) [of "trace w1"] by (auto simp: fds_ok_def)
  let ?l = "nextptr w1"
  obtain w2 where w2: "EventLoop_new os thread_tid w1 = Inr (?l, w2)"
    "loops w2 = (loops w1)(?l \<mapsto> new_loop thread_tid (efd', epfd', tfd') ?l)"
    "chans w2 = (chans w1)(?l + 1 \<mapsto> new_channel ?l tfd' (TimerQueue_handleRead_cb ?l),
      ?l + 2 \<mapsto> new_channel ?l efd' (EventLoop_handleRead_cb ?l))"
    "thisThreadEventLoop w2 = (thisThreadEventLoop w1)(thread_tid \<mapsto> ?l)"
    using EventLoop_new_state [OF fds' os(1), of thread_tid] w1(5) assms(4,6) by auto
  have "polling main_tid (nextptr w) (new_loop main_tid (efd, epfd, tfd) (nextptr w)) w2"
    "polling thread_tid ?l (new_loop thread_tid (efd', epfd', tfd') ?l) w2"
    using w1(2-4) w2(2,3) by (simp_all add: polling_def kInitEventListSize_def)
  then show ?thesis using w1(1,2,5) w2(1,4) assms(4)
    by (intro exI [of _ "nextptr w"] exI [of _ ?l] exI) (auto simp: test1_main_def test1_threadFunc_def)
qed

section \<open>test2.cc from its start to its end\<close>

text \<open>The kernel gives out descriptors that are not in use, and \<^verbatim>\<open>epoll_wait\<close> times out \<open>n\<close> times before it reports the
  timer that was armed last.\<close>

definition creates_fd :: "syscall \<Rightarrow> bool" where
  "creates_fd c = (c \<in> {Sys_eventfd, Sys_timerfd_create})"

definition distinct_fds :: "kernel \<Rightarrow> bool" where
  "distinct_fds os \<longleftrightarrow> (\<forall>h. 0 \<le> sr_ret (os h Sys_eventfd)) \<and>
     (\<forall>h c c' r. creates_fd c \<and> creates_fd c' \<and> (c', r) \<in> set h \<longrightarrow> sr_ret (os h c) \<noteq> sr_ret r)"

fun is_wait :: "syscall \<times> sysres \<Rightarrow> bool" where
  "is_wait (Sys_epoll_wait _ _ _, _) = True"
| "is_wait _ = False"

definition waits :: "history \<Rightarrow> nat" where
  "waits h = length (filter is_wait h)"

fun armed_timer :: "int \<Rightarrow> history \<Rightarrow> int" where
  "armed_timer fd [] = fd"
| "armed_timer fd ((Sys_timerfd_settime fd' _, _) # h) = armed_timer fd' h"
| "armed_timer fd (_ # h) = armed_timer fd h"

definition reports_timer_after :: "kernel \<Rightarrow> nat \<Rightarrow> bool" where
  "reports_timer_after os n \<longleftrightarrow> (\<forall>h epfd sz. let r = os h (Sys_epoll_wait epfd sz kPollTimeMs) in
     (waits h < n \<longrightarrow> sr_ret r \<le> 0) \<and> (waits h = n \<longrightarrow> sr_ret r = 1 \<and> sr_events r = [(armed_timer 0 h, EPOLLIN)]))"

lemma waits_simps [simp]: "waits [] = 0" "waits (h @ h') = waits h + waits h'" "waits (x # h) = (if is_wait x then 1 else 0) + waits h"
  by (simp_all add: waits_def)

lemma armed_append [simp]: "armed_timer fd (h @ h') = armed_timer (armed_timer fd h) h'"
  by (induction fd h rule: armed_timer.induct) simp_all

lemma polls_waits: "waits (polls os lp k h) = waits h + k \<and> armed_timer fd (polls os lp k h) = armed_timer fd h"
  by (induction k arbitrary: h) (simp_all add: after_poll_def poll_call_def Let_def)

lemma distinct_fds_ok: "distinct_fds os \<Longrightarrow> fds_ok os h"
proof -
  assume d: "distinct_fds os"
  let ?a = "os h Sys_eventfd" and ?h = "h @ [(Sys_eventfd, os h Sys_eventfd)]"
  let ?h2 = "?h @ [(Sys_epoll_create, os ?h Sys_epoll_create)]"
  have "(Sys_eventfd, ?a) \<in> set ?h2" by simp
  then have "sr_ret (os ?h2 Sys_timerfd_create) \<noteq> sr_ret ?a" using d unfolding distinct_fds_def creates_fd_def by blast
  then show ?thesis using d by (simp add: fds_ok_def new_fds_def Let_def distinct_fds_def)
qed

lemma test2_main_serves:
  assumes os: "epoll_ctl_ok os" "distinct_fds os" and fresh: "fresh_store w" and first: "thisThreadEventLoop w cur = None"
  shows "\<exists>l c fd lp w'. test2_main os cur w = Inr ((l, c, fd), w') \<and> serves_timeout cur l c fd lp w' \<and>
    armed_timer 0 (trace w') = fd \<and> waits (trace w') = waits (trace w) \<and> out_lines w' = out_lines w @ [''started'']"
proof -
  let ?l = "nextptr w" and ?c = "nextptr w + 3"
  define w0 where "w0 = say ''started'' (snd (Timestamp_now os w))"
  have w0: "loops w0 = loops w" "chans w0 = chans w" "nextptr w0 = nextptr w" "thisThreadEventLoop w0 = thisThreadEventLoop w"
    "waits (trace w0) = waits (trace w)" "out_lines w0 = out_lines w @ [''started'']"
    by (simp_all add: w0_def Timestamp_now_def say_def)
  obtain efd epfd tfd where fds: "new_fds os (trace w0) = (efd, epfd, tfd)" "0 \<le> efd" "tfd \<noteq> efd"
    using distinct_fds_ok [OF os(2), of "trace w0"] by (auto simp: fds_ok_def)
  obtain h w1 where h: "new_calls (efd, epfd, tfd) h" and new: "EventLoop_new os cur w0 = Inr (?l, w1)"
    and w1: "trace w1 = trace w0 @ h" "nextptr w1 = ?c" "loops w1 = (loops w)(?l \<mapsto> new_loop cur (efd, epfd, tfd) ?l)"
      "out_lines w1 = out_lines w @ [''started'']"
    using EventLoop_new_state [OF fds os(1), of cur] first w0 by auto
  define fd where "fd = sr_ret (os (trace w1) Sys_timerfd_create)"
  have "\<exists>a t. (Sys_eventfd, a) \<in> set h \<and> sr_ret a = efd \<and> (Sys_timerfd_create, t) \<in> set h \<and> sr_ret t = tfd"
    using h by (force simp: new_calls_def)
  then obtain a t where at: "(Sys_eventfd, a) \<in> set (trace w1)" "sr_ret a = efd" "(Sys_timerfd_create, t) \<in> set (trace w1)" "sr_ret t = tfd"
    using w1(1) by auto
  have d: "\<forall>h c c' r. creates_fd c \<and> creates_fd c' \<and> (c', r) \<in> set h \<longrightarrow> sr_ret (os h c) \<noteq> sr_ret r"
    using os(2) unfolding distinct_fds_def by blast
  have fd: "fd \<noteq> efd" "fd \<noteq> tfd"
    using d [rule_format, of Sys_timerfd_create Sys_eventfd a "trace w1"] d [rule_format, of Sys_timerfd_create Sys_timerfd_create t "trace w1"] at
    by (auto simp: fd_def creates_fd_def)
  let ?ch = "(Channel_init ?l fd True)\<lparr>ch_readCallback := Some (User_cb 0)\<rparr>"
  let ?h1 = "trace w1 @ [(Sys_timerfd_create, os (trace w1) Sys_timerfd_create)]"
  let ?w2 = "w1\<lparr>trace := ?h1, chans := (chans w1)(?c \<mapsto> ?ch), nextptr := ?c + 1\<rparr>"
  let ?lp = "new_loop cur (efd, epfd, tfd) ?l"
  have w2: "chans ?w2 ?c = Some ?ch" "loops ?w2 (ch_loop ?ch) = Some ?lp" using w1(3) by (simp_all add: Channel_init_def)
  obtain r where er: "enableReading os cur ?c ?w2 = Inr ((upd_chan listening ?c (upd_loop (set_channel fd (Some ?c)) ?l ?w2))\<lparr>trace :=
      ?h1 @ [(Sys_epoll_add (ep_epfd (el_epoller ?lp)) fd (read_mask ?ch), r)]\<rparr>)" (is "_ = Inr ?w3")
    using enableReading_new [OF w2(1) _ _ w2(2) _ _ os(1)] fd by (auto simp: Channel_init_def)
  have "upd_chan (\<lambda>ch. ch\<lparr>ch_readCallback := Some (User_cb 0)\<rparr>) ?c (snd (Channel_new ?l fd True (w1\<lparr>trace := ?h1\<rparr>))) = ?w2"
    using w1(2) by (cases w1) (simp add: Channel_new_def upd_chan_def upd_def)
  then have main: "test2_main os cur w = Inr ((?l, ?c, fd), snd (do_sys os (Sys_timerfd_settime fd \<lparr>tv_sec = 5, tv_nsec = 0\<rparr>) ?w3))"
    using new er w1(2) by (simp add: test2_main_def w0_def createtimerfd_def fd_def Channel_new_def)
  let ?w4 = "snd (do_sys os (Sys_timerfd_settime fd \<lparr>tv_sec = 5, tv_nsec = 0\<rparr>) ?w3)"
  have "serves_timeout cur ?l ?c fd (set_channel fd (Some ?c) ?lp) ?w4"
    using w1(3) by (simp add: serves_timeout_def kInitEventListSize_def listening_def Channel_init_def set_channel_def
        set_registered_def set_events_def)
  moreover have "armed_timer 0 (trace ?w4) = fd" by simp
  moreover have "waits (trace ?w4) = waits (trace w)" using h w1(1) w0(5) by (auto simp: new_calls_def)
  moreover have "out_lines ?w4 = out_lines w @ [''started'']" using w1(4) by simp
  ultimately show ?thesis using main by blast
qed

text \<open>(C13) The program test2.cc runs from its start to its end, whatever the store holds besides: it makes its loop and its
  channel and arms the timer, \<^verbatim>\<open>loop()\<close> waits until the kernel reports the timer, however often \<^verbatim>\<open>epoll_wait\<close>
  times out before, and returns in the iteration in which it has been reported, with both lines printed.\<close>

theorem test2_runs_to_its_end:
  assumes os: "epoll_ctl_ok os" "distinct_fds os" "reports_timer_after os n" and w: "fresh_store w" "thisThreadEventLoop w cur = None"
    and start: "waits (trace w) = 0"
  shows "\<exists>l c fd w1 w2. test2_main os cur w = Inr ((l, c, fd), w1) \<and>
    EventLoop_loop os (run_test2 garbage ntop rnd ub os cur l) rt cur l w1 = Some (Inr w2) \<and>
    out_lines w2 = out_lines w @ [''started'', ''Timeout!''] \<and> waits (trace w2) = n + 1"
proof -
  obtain l c fd lp w1 where main: "test2_main os cur w = Inr ((l, c, fd), w1)" "serves_timeout cur l c fd lp w1"
    "armed_timer 0 (trace w1) = fd" "waits (trace w1) = 0" "out_lines w1 = out_lines w @ [''started'']"
    using test2_main_serves [OF os(1,2) w] start by auto
  have polls: "waits (polls os lp k (trace w1)) = k" "armed_timer 0 (polls os lp k (trace w1)) = fd" for k
    using polls_waits [of os lp k "trace w1"] main(3,4) by simp_all
  have idle: "sr_ret (os (polls os lp k (trace w1)) (poll_call lp)) \<le> 0" if "k < n" for k
    using os(3) polls that by (simp add: reports_timer_after_def poll_call_def Let_def)
  have ev: "sr_ret (os (polls os lp n (trace w1)) (poll_call lp)) = 1"
    "sr_events (os (polls os lp n (trace w1)) (poll_call lp)) = [(fd, EPOLLIN)]" "has_flag EPOLLIN EPOLLIN"
    using os(3) polls by (simp_all add: reports_timer_after_def poll_call_def Let_def has_flag_def epoll_flags)
  obtain w2 where w2: "EventLoop_loop os (run_test2 garbage ntop rnd ub os cur l) rt cur l w1 = Some (Inr w2)"
    "trace w2 = polls os lp (Suc n) (trace w1)" "out_lines w2 = out_lines w1 @ [''Timeout!'']"
    using test2_loop_returns [where os = os and w = w1 and lp = lp, OF main(2) idle ev] by blast
  have "waits (trace w2) = n + 1" using polls(1) [of "Suc n"] w2(2) by simp
  then show ?thesis using main(1,5) w2(1,3) by auto
qed

definition timer_kernel :: "nat \<Rightarrow> kernel" where
  "timer_kernel n h c = (case c of
     Sys_epoll_wait _ _ _ \<Rightarrow> if waits h < n then answer 0 [] else answer 1 [(armed_timer 0 h, EPOLLIN)]
   | Sys_eventfd \<Rightarrow> answer (Max (insert 3 (sr_ret ` snd ` set h)) + 1) []
   | Sys_timerfd_create \<Rightarrow> answer (Max (insert 3 (sr_ret ` snd ` set h)) + 1) []
   | _ \<Rightarrow> answer 0 [])"

lemma timer_kernel_ok: "epoll_ctl_ok (timer_kernel n)" "distinct_fds (timer_kernel n)" "reports_timer_after (timer_kernel n) n"
proof -
  have le: "x \<le> Max (insert 3 (sr_ret ` snd ` set h))" if "x \<in> insert 3 (sr_ret ` snd ` set h)" for x and h :: history
    using that by (intro Max_ge) simp_all
  have new: "sr_ret (timer_kernel n h c) = Max (insert 3 (sr_ret ` snd ` set h)) + 1" if "creates_fd c" for h c
    using that by (auto simp: creates_fd_def timer_kernel_def answer_def)
  have "0 \<le> sr_ret (timer_kernel n h Sys_eventfd)" for h
  proof -
    have "3 \<le> Max (insert 3 (sr_ret ` snd ` set h))" by (rule le) simp
    moreover have "sr_ret (timer_kernel n h Sys_eventfd) = Max (insert 3 (sr_ret ` snd ` set h)) + 1"
      by (rule new) (simp add: creates_fd_def)
    ultimately show ?thesis by linarith
  qed
  moreover have "sr_ret (timer_kernel n h c) \<noteq> sr_ret r" if "creates_fd c" "(c', r) \<in> set h" for h c c' r
  proof -
    have "sr_ret r \<le> Max (insert 3 (sr_ret ` snd ` set h))" by (rule le) (use that(2) in force)
    then show ?thesis using new [OF that(1), of h] by linarith
  qed
  ultimately show "distinct_fds (timer_kernel n)" unfolding distinct_fds_def by blast
  show "epoll_ctl_ok (timer_kernel n)" by (simp add: epoll_ctl_ok_def timer_kernel_def answer_def)
  show "reports_timer_after (timer_kernel n) n" by (simp add: reports_timer_after_def timer_kernel_def answer_def Let_def)
qed

theorem test2_runs_to_its_end_witness:
  "\<exists>l c fd w1 w2. test2_main (timer_kernel 5) 7 (program_world 0 (Channel_init 0 0 False)\<lparr>loops := (\<lambda>_. None), chans := (\<lambda>_. None),
       timers := (\<lambda>_. None), thisThreadEventLoop := (\<lambda>_. None)\<rparr>) = Inr ((l, c, fd), w1) \<and>
     EventLoop_loop (timer_kernel 5) (run_test2 no_addr (\<lambda>_. []) id no_callbacks (timer_kernel 5) 7 l) (\<lambda>_. Inr) 7 l w1 = Some (Inr w2) \<and>
     out_lines w2 = [''started'', ''Timeout!''] \<and> waits (trace w2) = 6"
proof -
  let ?w = "program_world 0 (Channel_init 0 0 False)\<lparr>loops := (\<lambda>_. None), chans := (\<lambda>_. None), timers := (\<lambda>_. None), thisThreadEventLoop := (\<lambda>_. None)\<rparr>"
  have w: "fresh_store ?w" "thisThreadEventLoop ?w 7 = None" "waits (trace ?w) = 0" "out_lines ?w = []"
    by (simp_all add: fresh_store_def program_world_simps)
  from test2_runs_to_its_end [OF timer_kernel_ok [of 5] w(1-3), where garbage = no_addr and ntop = "\<lambda>_. []" and rnd = id and
      ub = no_callbacks and rt = "\<lambda>_. Inr"] w(4)
  show ?thesis by auto
qed

end
