(* ===== verification/Io_Frame.thy ===== *)
theory Io_Frame
  imports Echo_Server
begin

text \<open>
  What reading, sending and draining on one connection leave alone: exactly the buffers of the connection and
  the interest mask of its channel change, and the system calls concern its descriptor. So the other
  connections of a loop keep their invariants.
\<close>

section \<open>System calls on one descriptor\<close>

text \<open>The descriptors that the program has got from the kernel, and those it has registered with \<^verbatim>\<open>epoll\<close>.\<close>

fun makes_fd :: "syscall \<Rightarrow> bool" where
  "makes_fd Sys_eventfd = True"
| "makes_fd Sys_epoll_create = True"
| "makes_fd Sys_timerfd_create = True"
| "makes_fd Sys_socket = True"
| "makes_fd (Sys_accept4 fd) = True"
| "makes_fd _ = False"

definition made_fds :: "history \<Rightarrow> int set" where
  "made_fds h = {sr_ret r | c r. (c, r) \<in> set h \<and> makes_fd c \<and> 0 \<le> sr_ret r}"

definition watched_fds :: "history \<Rightarrow> int set" where
  "watched_fds h = {fd. \<exists>e ev r. (Sys_epoll_add e fd ev, r) \<in> set h}"

lemma made_fds_simps [simp]:
  "made_fds [] = {}" "made_fds (h @ h') = made_fds h \<union> made_fds h'"
  "made_fds ((c, r) # h) = (if makes_fd c \<and> 0 \<le> sr_ret r then {sr_ret r} else {}) \<union> made_fds h"
  by (auto simp: made_fds_def)

lemma watched_fds_simps [simp]:
  "watched_fds [] = {}" "watched_fds (h @ h') = watched_fds h \<union> watched_fds h'"
  "watched_fds ((c, r) # h) = (case c of Sys_epoll_add e fd ev \<Rightarrow> {fd} | _ \<Rightarrow> {}) \<union> watched_fds h"
  by (auto simp: watched_fds_def split: syscall.splits)

definition plain_calls :: "history \<Rightarrow> bool" where
  "plain_calls h \<longleftrightarrow> made_fds h = {} \<and> watched_fds h = {}"

text \<open>No bytes went in or out through the descriptor, and it was not shut.\<close>

definition unused :: "int \<Rightarrow> history \<Rightarrow> bool" where
  "unused fd h \<longleftrightarrow> written fd h = [] \<and> received fd h = [] \<and> \<not> was_shut fd h"

definition only_on :: "int \<Rightarrow> history \<Rightarrow> bool" where
  "only_on fd h \<longleftrightarrow> plain_calls h \<and> (\<forall>fd'. fd' \<noteq> fd \<longrightarrow> unused fd' h)"

lemma calls_append [simp]:
  "plain_calls (h @ h') \<longleftrightarrow> plain_calls h \<and> plain_calls h'"
  "unused fd (h @ h') \<longleftrightarrow> unused fd h \<and> unused fd h'"
  "only_on fd (h @ h') \<longleftrightarrow> only_on fd h \<and> only_on fd h'"
  by (auto simp: plain_calls_def unused_def only_on_def)

lemma calls_Nil [simp]: "plain_calls []" "unused fd []" "only_on fd []"
  by (simp_all add: plain_calls_def unused_def only_on_def)

lemma only_on_single [simp]:
  "only_on fd [(Sys_write fd d, r)]" "only_on fd [(Sys_readv fd n, r)]" "only_on fd [(Sys_epoll_mod e fd' ev, r)]"
  "only_on fd [(Sys_getsockopt_error fd', r)]"
  by (simp_all add: only_on_def plain_calls_def unused_def)

section \<open>Input and output of one connection\<close>

text \<open>A connected connection whose channel is registered; the application has no write-complete callback.\<close>

definition io_ok :: "ptr \<Rightarrow> 'z net_scheme \<Rightarrow> bool" where
  "io_ok c w \<longleftrightarrow> (\<exists>tc ch. conns w c = Some tc \<and> chans w (tc_channel tc) = Some ch \<and> ch_registered ch \<and>
     ch_fd ch = tc_sockfd tc \<and> tc_writeCompleteCallback tc = None \<and> tc_state tc = kConnected)"

definition io_state :: "ptr \<Rightarrow> tcpConnection \<Rightarrow> channel \<Rightarrow> Buffer \<times> Buffer \<Rightarrow> 32 word \<Rightarrow> history \<Rightarrow> 'z net_scheme \<Rightarrow> 'z net_scheme" where
  "io_state c tc ch b ev h w = w\<lparr>trace := trace w @ h,
     conns := (conns w)(c \<mapsto> tc\<lparr>tc_inputBuffer := fst b, tc_outputBuffer := snd b\<rparr>),
     chans := (chans w)(tc_channel tc \<mapsto> set_events ev ch)\<rparr>"

definition touches :: "ptr \<Rightarrow> 'z net_scheme \<Rightarrow> 'z net_scheme \<Rightarrow> bool" where
  "touches c w w' \<longleftrightarrow> (\<exists>tc ch b ev h. conns w c = Some tc \<and> chans w (tc_channel tc) = Some ch \<and> only_on (tc_sockfd tc) h \<and>
     w' = io_state c tc ch b ev h w)"

lemma io_state_io:
  "io_state c (tc\<lparr>tc_inputBuffer := fst b, tc_outputBuffer := snd b\<rparr>) (set_events ev ch) b' ev' h' (io_state c tc ch b ev h w) =
    io_state c tc ch b' ev' (h @ h') w"
  by (cases w) (simp add: io_state_def set_events_def)

lemma touches_trans:
  assumes "touches c w w1" "touches c w1 w2"
  shows "touches c w w2"
proof -
  obtain tc ch b ev h where 1: "conns w c = Some tc" "chans w (tc_channel tc) = Some ch" "only_on (tc_sockfd tc) h"
    and w1: "w1 = io_state c tc ch b ev h w"
    using assms(1) by (auto simp: touches_def)
  obtain b' ev' h' where "only_on (tc_sockfd tc) h'" "w2 = io_state c (tc\<lparr>tc_inputBuffer := fst b, tc_outputBuffer := snd b\<rparr>) (set_events ev ch) b' ev' h' w1"
    using assms(2) 1 by (auto simp: touches_def w1) (auto simp: io_state_def)
  then show ?thesis using 1 unfolding w1 io_state_io touches_def by (metis calls_append(3))
qed

lemma io_ok_touches:
  assumes "touches c w w'" "io_ok c w"
  shows "io_ok c w'"
  using assms by (auto simp: touches_def io_ok_def io_state_def)

lemma io_state_same:
  assumes "conns w c = Some tc" "chans w (tc_channel tc) = Some ch"
  shows "io_state c tc ch (tc_inputBuffer tc, tc_outputBuffer tc) (ch_events ch) h w = w\<lparr>trace := trace w @ h\<rparr>"
proof -
  have "set_events (ch_events ch) ch = ch" by (simp add: set_events_def)
  moreover have "(conns w)(c \<mapsto> tc) = conns w" "(chans w)(tc_channel tc \<mapsto> ch) = chans w" using assms by (auto simp: fun_eq_iff)
  ultimately show ?thesis by (cases w) (simp add: io_state_def)
qed

lemma touches_refl: "io_ok c w \<Longrightarrow> touches c w w"
proof -
  assume "io_ok c w"
  then obtain tc ch where 1: "conns w c = Some tc" "chans w (tc_channel tc) = Some ch" by (auto simp: io_ok_def)
  from io_state_same [OF this, of "[]"] have "w = io_state c tc ch (tc_inputBuffer tc, tc_outputBuffer tc) (ch_events ch) [] w" by simp
  with 1 show ?thesis unfolding touches_def using calls_Nil(3) by blast
qed

lemma touches_call:
  assumes "io_ok c w" "conns w c = Some tc" "only_on (tc_sockfd tc) h"
  shows "touches c w (w\<lparr>trace := trace w @ h\<rparr>)"
proof -
  obtain ch where ch: "chans w (tc_channel tc) = Some ch" using assms by (auto simp: io_ok_def)
  show ?thesis using assms(2,3) ch unfolding touches_def io_state_same [OF assms(2) ch, symmetric] by blast
qed

lemma touches_buffer:
  assumes "io_ok c w"
  shows "touches c w (upd_conn (\<lambda>tc. tc\<lparr>tc_outputBuffer := b\<rparr>) c w)" "touches c w (with_input c b w)"
proof -
  obtain tc ch where 1: "conns w c = Some tc" "chans w (tc_channel tc) = Some ch" using assms by (auto simp: io_ok_def)
  then have ch: "(chans w)(tc_channel tc \<mapsto> ch) = chans w" "set_events (ch_events ch) ch = ch" by (auto simp: fun_eq_iff set_events_def)
  have "upd_conn (\<lambda>tc. tc\<lparr>tc_outputBuffer := b\<rparr>) c w = io_state c tc ch (tc_inputBuffer tc, b) (ch_events ch) [] w"
    "with_input c b w = io_state c tc ch (b, tc_outputBuffer tc) (ch_events ch) [] w"
    using 1(1) ch by (cases w; simp add: io_state_def upd_conn_def upd_def with_input_def)+
  then show "touches c w (upd_conn (\<lambda>tc. tc\<lparr>tc_outputBuffer := b\<rparr>) c w)" "touches c w (with_input c b w)"
    using 1 calls_Nil(3) unfolding touches_def by blast+
qed

lemma Channel_update_mod:
  assumes up: "Channel_update os cur p w = Inr w'" and ch: "chans w p = Some ch" "ch_registered ch"
  shows "\<exists>e r. w' = w\<lparr>trace := trace w @ [(Sys_epoll_mod e (ch_fd ch) (ch_events ch), r)]\<rparr>"
  using up
proof (rule Channel_update_InrE)
  fix ch' lp assume "chans w p = Some ch'" and w': "w' = after_update os p ch' lp w"
  then have "ch' = ch" using ch(1) by simp
  then have "w' = w\<lparr>trace := trace w @ [(Sys_epoll_mod (ep_epfd (el_epoller lp)) (ch_fd ch) (ch_events ch),
      os (trace w) (Sys_epoll_mod (ep_epfd (el_epoller lp)) (ch_fd ch) (ch_events ch)))]\<rparr>"
    using w' ch(2) by (simp add: after_update_def Let_def)
  then show ?thesis by blast
qed

lemma touches_writing:
  assumes io: "io_ok c w" and tc: "conns w c = Some tc"
    and run: "enableWriting os cur (tc_channel tc) w = Inr w' \<or> disableWriting os cur (tc_channel tc) w = Inr w'"
  shows "touches c w w'"
proof -
  obtain ch where ch: "chans w (tc_channel tc) = Some ch" "ch_registered ch" using io tc by (auto simp: io_ok_def)
  obtain ev where up: "Channel_update os cur (tc_channel tc) (upd_chan (set_events ev) (tc_channel tc) w) = Inr w'"
    using run ch by (auto simp: enableWriting_def disableWriting_def Let_def)
  obtain e r where "w' = (upd_chan (set_events ev) (tc_channel tc) w)\<lparr>trace := trace w @ [(Sys_epoll_mod e (ch_fd ch) ev, r)]\<rparr>"
    using Channel_update_mod [OF up, of "set_events ev ch"] ch by auto
  moreover have "(conns w)(c \<mapsto> tc) = conns w" using tc by (auto simp: fun_eq_iff)
  ultimately have "w' = io_state c tc ch (tc_inputBuffer tc, tc_outputBuffer tc) ev [(Sys_epoll_mod e (ch_fd ch) ev, r)] w"
    using ch(1) by (cases w) (simp add: io_state_def upd_chan_def upd_def)
  then show ?thesis using tc ch(1) only_on_single(3) unfolding touches_def by blast
qed

section \<open>The operations\<close>

lemma touches_step: "io_ok c w \<Longrightarrow> touches c w w1 \<Longrightarrow> (io_ok c w1 \<Longrightarrow> touches c w1 w2) \<Longrightarrow> touches c w w2"
  using io_ok_touches touches_trans by blast

lemma io_okE:
  assumes "io_ok c w"
  obtains tc ch where "conns w c = Some tc" "chans w (tc_channel tc) = Some ch" "ch_registered ch"
    "ch_fd ch = tc_sockfd tc" "tc_writeCompleteCallback tc = None" "tc_state tc = kConnected"
  using assms by (auto simp: io_ok_def)

lemma touches_direct_write:
  assumes io: "io_ok c w" and run: "direct_write os cur c m w = Inr (n, w')"
  shows "touches c w w'"
  using io
proof (rule io_okE)
  fix tc ch assume tc: "conns w c = Some tc" "chans w (tc_channel tc) = Some ch" "ch_fd ch = tc_sockfd tc" "tc_writeCompleteCallback tc = None"
  then have "w' = w \<or> (\<exists>r. w' = w\<lparr>trace := trace w @ [(Sys_write (tc_sockfd tc) m, r)]\<rparr>)"
    using run by (auto simp: direct_write_def split: if_splits)
  then show ?thesis using touches_refl [OF io] touches_call [OF io tc(1)] by auto
qed

lemma touches_sendInLoop:
  assumes io: "io_ok c w" and run: "sendInLoop os cur c m w = Inr w'"
  shows "touches c w w'"
proof -
  obtain n w1 where dw: "direct_write os cur c m w = Inr (n, w1)"
    and rest: "(if nat n < length m
     then bindR (deref (conns w1) c) (\<lambda>tc1.
       bindR (Buffer_append (drop (nat n) m) (tc_outputBuffer tc1)) (\<lambda>b.
       let w2 = upd_conn (\<lambda>tc. tc\<lparr>tc_outputBuffer := b\<rparr>) c w1 in
       bindR (deref (chans w2) (tc_channel tc1)) (\<lambda>ch.
       if \<not> isWriting ch then enableWriting os cur (tc_channel tc1) w2 else Inr w2)))
     else Inr w1) = Inr w'"
    using run by (auto simp: sendInLoop_def assertC_def split: if_splits)
  note t1 = touches_direct_write [OF io dw]
  show ?thesis
  proof (cases "nat n < length m")
    case True
    then obtain tc1 b ch where tc1: "conns w1 c = Some tc1"
      and w': "(if \<not> isWriting ch then enableWriting os cur (tc_channel tc1) (upd_conn (\<lambda>tc. tc\<lparr>tc_outputBuffer := b\<rparr>) c w1)
        else Inr (upd_conn (\<lambda>tc. tc\<lparr>tc_outputBuffer := b\<rparr>) c w1)) = Inr w'"
      using rest by (auto simp: Let_def)
    let ?w2 = "upd_conn (\<lambda>tc. tc\<lparr>tc_outputBuffer := b\<rparr>) c w1"
    show ?thesis
    proof (rule touches_step [OF io t1])
      assume io1: "io_ok c w1"
      show "touches c w1 w'"
      proof (rule touches_step [OF io1 touches_buffer(1) [OF io1, of b]])
        assume io2: "io_ok c ?w2"
        have tc2: "conns ?w2 c = Some (tc1\<lparr>tc_outputBuffer := b\<rparr>)" using tc1 by simp
        show "touches c ?w2 w'" using w' touches_writing [OF io2 tc2] touches_refl [OF io2] by (auto split: if_splits)
      qed
    qed
  qed (use rest t1 in simp)
qed

lemma touches_send:
  assumes io: "io_ok c w" and run: "TcpConnection_send os cur c m w = Inr w'"
    and thr: "\<And>tc. conns w c = Some tc \<Longrightarrow> loop_view (tc_loop tc) w = Some (cur, wk)"
  shows "touches c w w'"
  using io
proof (rule io_okE)
  fix tc ch assume "conns w c = Some tc" "tc_state tc = kConnected"
  with run thr have "sendInLoop os cur c m w = Inr w'"
    by (auto simp: TcpConnection_send_def loop_view_Some isInLoopThread_def)
  then show ?thesis by (rule touches_sendInLoop [OF io])
qed

lemma touches_handleWrite:
  assumes io: "io_ok c w" and run: "TcpConnection_handleWrite os cur c w = Inr w'"
  shows "touches c w w'"
  using io
proof (rule io_okE)
  fix tc ch assume tc: "conns w c = Some tc" "chans w (tc_channel tc) = Some ch" "ch_fd ch = tc_sockfd tc"
    "tc_writeCompleteCallback tc = None" "tc_state tc = kConnected"
  let ?w1 = "\<lambda>d r. w\<lparr>trace := trace w @ [(Sys_write (tc_sockfd tc) d, r)]\<rparr>"
  have w1: "touches c w (?w1 d r)" for d r by (rule touches_call [OF io tc(1)]) simp
  have w2: "touches c w (upd_conn (\<lambda>tc. tc\<lparr>tc_outputBuffer := b\<rparr>) c (?w1 d r))" for b d r
    by (rule touches_step [OF io w1]) (rule touches_buffer)
  consider "w' = w" | d r where "w' = ?w1 d r" | d r b where "w' = upd_conn (\<lambda>tc. tc\<lparr>tc_outputBuffer := b\<rparr>) c (?w1 d r)"
    | d r b where "disableWriting os cur (tc_channel tc) (upd_conn (\<lambda>tc. tc\<lparr>tc_outputBuffer := b\<rparr>) c (?w1 d r)) = Inr w'"
    using run tc by (auto simp: TcpConnection_handleWrite_def Let_def split: if_splits)
  then show ?thesis
  proof cases
    case 4
    show ?thesis
    proof (rule touches_step [OF io w2])
      assume io2: "io_ok c (upd_conn (\<lambda>tc. tc\<lparr>tc_outputBuffer := b\<rparr>) c (?w1 d r))"
      show "touches c (upd_conn (\<lambda>tc. tc\<lparr>tc_outputBuffer := b\<rparr>) c (?w1 d r)) w'"
        by (rule touches_writing [where tc = "tc\<lparr>tc_outputBuffer := b\<rparr>" and os = os and cur = cur, OF io2]) (use tc(1) 4 in simp_all)
    qed
  qed (use touches_refl [OF io] w1 w2 in simp_all)
qed

text \<open>The read handler, with a message callback that sends back what it takes, when the stream has not ended.\<close>

lemma touches_handleRead:
  assumes io: "io_ok c w" and run: "TcpConnection_handleRead ub os cur c t w = Inr w'"
    and msg: "\<And>f. on_message ub f c t = EchoServer_onMessage os cur c t"
    and thr: "\<And>tc. conns w c = Some tc \<Longrightarrow> loop_view (tc_loop tc) w = Some (cur, wk)" and read: "read_ok k os"
  shows "touches c w w'"
  using io
proof (rule io_okE)
  fix tc ch assume tc: "conns w c = Some tc" "chans w (tc_channel tc) = Some ch" "ch_fd ch = tc_sockfd tc"
  let ?call = "Sys_readv (tc_sockfd tc) (writableBytes (tc_inputBuffer tc) + extrabuf_size)"
  let ?r = "os (trace w) ?call" and ?w1 = "w\<lparr>trace := trace w @ [(?call, os (trace w) ?call)]\<rparr>"
  obtain n e b where rf: "readFd (sr_ret ?r) (sr_errno ?r) (sr_data ?r) (tc_inputBuffer tc) = Inr (n, e, b)"
    and rest: "(let w2 = upd_conn (\<lambda>tc. tc\<lparr>tc_inputBuffer := b\<rparr>) c ?w1 in
     if 0 < n then call_fun (tc_messageCallback tc) (\<lambda>f. on_message ub f c t) w2
     else if n = 0 then TcpConnection_handleClose ub os cur c w2
     else TcpConnection_handleError os c w2) = Inr w'"
    using run tc by (auto simp: TcpConnection_handleRead_def)
  have n: "n \<noteq> 0" using rf read by (auto simp: readFd_def read_ok_def Let_def split: if_splits)
  let ?w2 = "with_input c b ?w1"
  have w1: "touches c w ?w1" by (rule touches_call [OF io tc(1)]) simp
  have w2: "touches c w ?w2" by (rule touches_step [OF io w1]) (rule touches_buffer)
  show ?thesis
  proof (rule touches_step [OF io w2])
    assume io2: "io_ok c ?w2"
    have tc2: "conns ?w2 c = Some (tc\<lparr>tc_inputBuffer := b\<rparr>)" "chans ?w2 = chans w" "loops ?w2 = loops w" using tc(1) by simp_all
    show "touches c ?w2 w'"
    proof (cases "0 < n")
      case True
      then obtain d b' where send: "TcpConnection_send os cur c d (with_input c b' ?w2) = Inr w'"
        using rest tc2 by (auto simp: call_fun_def msg EchoServer_onMessage_def with_input_def Let_def split: option.splits)
      have "touches c (with_input c b' ?w2) w'" if "io_ok c (with_input c b' ?w2)"
        by (rule touches_send [OF that send, of wk]) (use thr tc in \<open>auto simp: loop_view_def\<close>)
      then show ?thesis by (rule touches_step [OF io2 touches_buffer(2) [OF io2]])
    next
      case False
      then obtain r where "w' = ?w2\<lparr>trace := trace ?w2 @ [(Sys_getsockopt_error (tc_sockfd tc), r)]\<rparr>"
        using rest n tc tc2 by (auto simp: Let_def TcpConnection_handleError_def getSocketError_def with_input_def)
      then show ?thesis using touches_call [OF io2 tc2(1)] by simp
    qed
  qed
qed

end
