(* ===== verification/Server_State.thy ===== *)
theory Server_State
  imports Loop_Construction Net_Programs Io_Frame
begin

text \<open>
  The state of a server of the kind of the echo server while its loop runs (src/example/echo.cc, pingpong_server.cc
  on src/reactor): the laws of the kernel, the invariant \<open>serving\<close> of the loop, the acceptor, the server and all
  connections, and the steps that keep it whatever the application does: calls, marks on channels, a touch of one
  connection, a new connection, a poll. Theory \<open>Server_Run\<close> adds the callbacks.
\<close>

section \<open>What the kernel promises\<close>

text \<open>A call that makes a descriptor returns one that is not in use; the server closes none while its clients stay
  connected. The descriptors of the loop and of the listening socket are made. \<^verbatim>\<open>epoll_wait\<close> reports at most \<open>n\<close>
  events and no more than there is room for, only about registered descriptors, and only that they are readable or
  writable.\<close>

definition io_masks :: "32 word set" where
  "io_masks = {0, EPOLLIN, EPOLLOUT, EPOLLIN OR EPOLLOUT}"

definition fresh_fds :: "kernel \<Rightarrow> bool" where
  "fresh_fds os \<longleftrightarrow> (\<forall>h c. makes_fd c \<longrightarrow> sr_ret (os h c) \<notin> made_fds h) \<and>
     (\<forall>h. 0 \<le> sr_ret (os h Sys_eventfd) \<and> 0 \<le> sr_ret (os h Sys_timerfd_create) \<and> 0 \<le> sr_ret (os h Sys_socket))"

definition reports_io :: "nat \<Rightarrow> kernel \<Rightarrow> bool" where
  "reports_io n os \<longleftrightarrow> (\<forall>h e sz t. let r = os h (Sys_epoll_wait e sz t) in 0 < sr_ret r \<longrightarrow>
     nat (sr_ret r) \<le> min n sz \<and> (\<forall>(fd, ev) \<in> set (sr_events r). fd \<in> watched_fds h \<and> ev \<in> io_masks))"

definition server_kernel :: "nat \<Rightarrow> nat \<Rightarrow> kernel \<Rightarrow> bool" where
  "server_kernel n k os \<longleftrightarrow> epoll_ctl_ok os \<and> fresh_fds os \<and> reports_io n os \<and> read_ok k os \<and> write_ok os"

section \<open>The invariant\<close>

text \<open>A client's connection echoes, and its channel has the connection's handlers.\<close>

definition client :: "tid \<Rightarrow> ptr \<Rightarrow> nat \<Rightarrow> 'z net_scheme \<Rightarrow> ptr \<Rightarrow> bool" where
  "client cur l m w c \<longleftrightarrow> echoing cur c [] m w \<and> (\<exists>tc ch. conns w c = Some tc \<and> tc_loop tc = l \<and>
     tc_writeCompleteCallback tc = None \<and> tc_sockfd tc \<in> made_fds (trace w) \<and>
     chans w (tc_channel tc) = Some ch \<and> ch_fd ch = tc_sockfd tc \<and> ch_loop ch = l \<and> ch_registered ch \<and>
     ch_readCallback ch = Some (TcpConnection_handleRead_cb c) \<and> ch_writeCallback ch = Some (TcpConnection_handleWrite_cb c))"

text \<open>The channels of the loop itself and of the acceptor only have a read handler.\<close>

definition own_channel :: "ptr \<Rightarrow> ptr \<Rightarrow> channel \<Rightarrow> bool" where
  "own_channel l a ch \<longleftrightarrow> ch_writeCallback ch = None \<and> ch_readCallback ch \<in>
     {Some (EventLoop_handleRead_cb l), Some (TimerQueue_handleRead_cb l), Some (Acceptor_handleRead_cb a)}"

definition loop_serves :: "tid \<Rightarrow> eventLoop \<Rightarrow> history \<Rightarrow> bool" where
  "loop_serves cur lp h \<longleftrightarrow> el_threadId lp = cur \<and> el_pending lp = [] \<and> \<not> el_quit lp \<and>
     tq_timerlist (el_timerqueue lp) = [] \<and> el_wakeupfd lp \<in> made_fds h \<and>
     watched_fds h \<subseteq> dom (ep_channels (el_epoller lp)) \<and> dom (ep_channels (el_epoller lp)) \<subseteq> made_fds h"

definition server_ready :: "ptr \<Rightarrow> ptr \<Rightarrow> ptr \<Rightarrow> 'z net_scheme \<Rightarrow> bool" where
  "server_ready l a s w \<longleftrightarrow> (\<exists>ac sv. acceptors w a = Some ac \<and> ac_loop ac = l \<and> ac_newConnectionCallback ac = Some s \<and>
     servers w s = Some sv \<and> sv_loop sv = l \<and> tp_loops (sv_threadPool sv) = [] \<and> tp_baseLoop (sv_threadPool sv) = l \<and>
     sv_connectionCallback sv \<noteq> None \<and> sv_messageCallback sv \<noteq> None)"

text \<open>The calls so far: a descriptor that was not made was not used, and each one accepted belongs to a connection.\<close>

definition calls_ok :: "'z net_scheme \<Rightarrow> bool" where
  "calls_ok w \<longleftrightarrow> (\<forall>fd. fd \<notin> made_fds (trace w) \<longrightarrow> unused fd (trace w)) \<and>
     (\<forall>fd \<in> set (accepted_fds (trace w)). \<exists>c tc. conns w c = Some tc \<and> tc_sockfd tc = fd)"

definition chans_ok :: "ptr \<Rightarrow> ptr \<Rightarrow> 'z net_scheme \<Rightarrow> bool" where
  "chans_ok l a w \<longleftrightarrow> (\<forall>p ch. chans w p = Some ch \<longrightarrow> p < nextptr w \<and> ch_revents ch \<in> io_masks \<and>
     (own_channel l a ch \<or> (\<exists>c tc. conns w c = Some tc \<and> tc_channel tc = p)))"

definition serving :: "tid \<Rightarrow> ptr \<Rightarrow> ptr \<Rightarrow> ptr \<Rightarrow> nat \<Rightarrow> 'z net_scheme \<Rightarrow> bool" where
  "serving cur l a s m w \<longleftrightarrow> epoll_inv w \<and> server_ready l a s w \<and> calls_ok w \<and> chans_ok l a w \<and>
     (\<exists>lp. loops w l = Some lp \<and> loop_serves cur lp (trace w)) \<and>
     (\<forall>c tc. conns w c = Some tc \<longrightarrow> c < nextptr w \<and> client cur l m w c)"

lemma servingI:
  "epoll_inv w \<Longrightarrow> server_ready l a s w \<Longrightarrow> calls_ok w \<Longrightarrow> chans_ok l a w \<Longrightarrow> loops w l = Some lp \<Longrightarrow>
   loop_serves cur lp (trace w) \<Longrightarrow> (\<And>c tc. conns w c = Some tc \<Longrightarrow> c < nextptr w \<and> client cur l m w c) \<Longrightarrow>
   serving cur l a s m w"
  unfolding serving_def by blast

section \<open>Frames\<close>

lemma plain_accepted: "plain_calls h \<Longrightarrow> accepted_fds h = []"
proof -
  have "set (accepted_fds h) \<subseteq> made_fds h" by (induction h rule: accepted_fds.induct) auto
  then show "plain_calls h \<Longrightarrow> accepted_fds h = []" by (simp add: plain_calls_def)
qed

text \<open>What a poll and the start and end of an event change of a channel.\<close>

definition same_use :: "channel \<Rightarrow> channel \<Rightarrow> bool" where
  "same_use ch ch' \<longleftrightarrow> (\<exists>ev v. ch' = ch\<lparr>ch_revents := ev, ch_eventHandling := v\<rparr>)"

lemma same_useD:
  assumes "same_use ch ch'"
  shows "ch_fd ch' = ch_fd ch" "ch_loop ch' = ch_loop ch" "ch_registered ch' = ch_registered ch" "ch_events ch' = ch_events ch"
    "ch_readCallback ch' = ch_readCallback ch" "ch_writeCallback ch' = ch_writeCallback ch"
    "ch_closeCallback ch' = ch_closeCallback ch" "ch_errorCallback ch' = ch_errorCallback ch"
  using assms by (auto simp: same_use_def)

lemma same_use_steps [simp]: "same_use ch ch" "same_use ch (set_revents ev ch)" "same_use ch (set_handling v ch)"
proof -
  have "ch = ch\<lparr>ch_revents := ch_revents ch, ch_eventHandling := ch_eventHandling ch\<rparr>"
    "set_revents ev ch = ch\<lparr>ch_revents := ev, ch_eventHandling := ch_eventHandling ch\<rparr>"
    "set_handling v ch = ch\<lparr>ch_revents := ch_revents ch, ch_eventHandling := v\<rparr>"
    by (simp_all add: set_revents_def set_handling_def)
  then show "same_use ch ch" "same_use ch (set_revents ev ch)" "same_use ch (set_handling v ch)"
    unfolding same_use_def by blast+
qed

lemma echoing_frame:
  assumes e: "echoing cur c pre m w" and tc: "conns w c = Some tc" "conns w' c = Some tc"
    and ch: "chan_ev (tc_channel tc) w' = chan_ev (tc_channel tc) w"
      "map_option ch_registered (chans w' (tc_channel tc)) = map_option ch_registered (chans w (tc_channel tc))"
    and lp: "loop_view (tc_loop tc) w' = loop_view (tc_loop tc) w" and inv: "epoll_inv w'"
    and h: "trace w' = trace w @ h" "unused (tc_sockfd tc) h"
  shows "echoing cur c pre m w'"
proof -
  have "conn_stream c w' = conn_stream c w" using tc h by (simp add: conn_stream_def unused_def)
  moreover have "run_inv cur c kConnected w'"
    using e tc ch(1) lp h by (auto simp: echoing_def run_inv_def conn_ok_def unused_def)
  moreover have "live m c w'" using e tc ch(2) inv by (force simp: echoing_def live_def)
  ultimately show ?thesis using e tc h by (auto simp: echoing_def unused_def)
qed

lemma client_frame:
  assumes cl: "client cur l m w c" and tc: "conns w c = Some tc" "conns w' c = Some tc"
    and ch: "\<And>ch. chans w (tc_channel tc) = Some ch \<Longrightarrow> \<exists>ch'. chans w' (tc_channel tc) = Some ch' \<and> same_use ch ch'"
    and lp: "loop_view l w' = loop_view l w" and inv: "epoll_inv w'"
    and h: "trace w' = trace w @ h" "unused (tc_sockfd tc) h"
  shows "client cur l m w' c"
proof -
  obtain x where x: "chans w (tc_channel tc) = Some x" "ch_fd x = tc_sockfd tc" "ch_loop x = l" "ch_registered x"
      "ch_readCallback x = Some (TcpConnection_handleRead_cb c)" "ch_writeCallback x = Some (TcpConnection_handleWrite_cb c)"
    and t: "tc_loop tc = l" "tc_writeCompleteCallback tc = None" "tc_sockfd tc \<in> made_fds (trace w)"
    using cl tc(1) by (auto simp: client_def)
  obtain y where y: "chans w' (tc_channel tc) = Some y" "same_use x y" using ch [OF x(1)] by blast
  note d = same_useD [OF y(2)]
  have "echoing cur c [] m w'"
    using cl t x y d by (intro echoing_frame [OF _ tc _ _ _ inv h]) (simp_all add: client_def chan_ev_def lp)
  then show ?thesis unfolding client_def using tc(2) t x y(1) d h(1) by auto
qed

text \<open>A step that only polls, marks channels and makes calls that concern no client.\<close>

lemma serving_frame:
  assumes S: "serving cur l a s m w"
    and eq: "conns w' = conns w" "acceptors w' = acceptors w" "servers w' = servers w" "nextptr w' = nextptr w"
    and lp: "loops w l = Some lp" "loops w' = (loops w)(l \<mapsto> lp')" "el_threadId lp' = el_threadId lp" "el_pending lp' = []"
      "el_quit lp' = el_quit lp" "tq_timerlist (el_timerqueue lp') = []" "el_wakeupfd lp' = el_wakeupfd lp"
      "ep_channels (el_epoller lp') = ep_channels (el_epoller lp)"
    and ch: "\<And>p. rel_option (\<lambda>ch ch'. same_use ch ch' \<and> ch_revents ch' \<in> io_masks) (chans w p) (chans w' p)"
    and h: "trace w' = trace w @ h" "plain_calls h" "\<And>fd. unused fd h"
  shows "serving cur l a s m w'"
proof -
  have ch1: "\<exists>ch'. chans w' p = Some ch' \<and> same_use ch ch'" if "chans w p = Some ch" for p ch
    using ch [of p] that by (cases "chans w' p") auto
  have ch2: "\<exists>ch. chans w p = Some ch \<and> same_use ch ch' \<and> ch_revents ch' \<in> io_masks" if "chans w' p = Some ch'" for p ch'
    using ch [of p] that by (cases "chans w p") auto
  have view: "loop_view l w' = loop_view l w" using lp by (simp add: loop_view_def)
  have lk: "ep_lookup w' = ep_lookup w" using lp(1,2,8) by (intro ext) (simp add: ep_lookup_def)
  have cr: "chan_reg w' = chan_reg w"
  proof
    fix p show "chan_reg w' p = chan_reg w p"
      using ch [of p] by (cases "chans w p"; cases "chans w' p") (auto simp: chan_reg_def dest: same_useD)
  qed
  have inv: "epoll_inv w'" using S lk cr by (simp add: serving_def epoll_inv_def)
  have io: "made_fds h = {}" "watched_fds h = {}" "accepted_fds h = []" using h(2) plain_accepted by (simp_all add: plain_calls_def)
  show ?thesis
  proof (rule servingI [OF inv])
    show "server_ready l a s w'" using S eq by (simp add: serving_def server_ready_def)
    show "calls_ok w'" using S eq h io by (simp add: serving_def calls_ok_def)
    show "loops w' l = Some lp'" using lp(2) by simp
    show "loop_serves cur lp' (trace w')" using S lp h io by (auto simp: serving_def loop_serves_def)
    show "chans_ok l a w'"
      unfolding chans_ok_def
    proof (intro allI impI)
      fix p ch' assume "chans w' p = Some ch'"
      then obtain x where x: "chans w p = Some x" "same_use x ch'" "ch_revents ch' \<in> io_masks" using ch2 by blast
      moreover have "own_channel l a ch' = own_channel l a x" using same_useD [OF x(2)] by (simp add: own_channel_def)
      ultimately show "p < nextptr w' \<and> ch_revents ch' \<in> io_masks \<and>
          (own_channel l a ch' \<or> (\<exists>c tc. conns w' c = Some tc \<and> tc_channel tc = p))"
        using S eq by (auto simp: serving_def chans_ok_def)
    qed
    show "c < nextptr w' \<and> client cur l m w' c" if "conns w' c = Some tc" for c tc
      using that S eq client_frame [OF _ _ that ch1 view inv h(1,3)] by (auto simp: serving_def)
  qed
qed

text \<open>What every handler leaves of the channels there were.\<close>

definition chan_role :: "ptr \<Rightarrow> 'z reactor_scheme \<Rightarrow> (bool \<times> 32 word \<times> callback option list) option" where
  "chan_role p w = map_option (\<lambda>ch. (ch_registered ch, ch_revents ch,
     [ch_readCallback ch, ch_writeCallback ch, ch_closeCallback ch, ch_errorCallback ch])) (chans w p)"

definition keeps :: "'z reactor_scheme \<Rightarrow> 'z reactor_scheme \<Rightarrow> bool" where
  "keeps w w' \<longleftrightarrow> (\<forall>p. chans w p \<noteq> None \<longrightarrow> chan_role p w' = chan_role p w)"

lemma keeps_trans: "keeps w w1 \<Longrightarrow> keeps w1 w2 \<Longrightarrow> keeps w w2"
proof -
  assume k: "keeps w w1" "keeps w1 w2"
  have "chans w1 p \<noteq> None" if "chans w p \<noteq> None" for p using k(1) that by (force simp: keeps_def chan_role_def)
  then show "keeps w w2" using k by (simp add: keeps_def)
qed

lemma keeps_same: "chans w' = chans w \<Longrightarrow> keeps w w'"
  by (simp add: keeps_def chan_role_def)

lemma keeps_refl [simp]: "keeps w w"
  by (rule keeps_same) simp

lemma keepsD:
  assumes "keeps w w'" "chans w p = Some ch"
  obtains ch' where "chans w' p = Some ch'" "ch_registered ch' = ch_registered ch" "ch_revents ch' = ch_revents ch"
    "ch_readCallback ch' = ch_readCallback ch" "ch_writeCallback ch' = ch_writeCallback ch"
    "ch_closeCallback ch' = ch_closeCallback ch" "ch_errorCallback ch' = ch_errorCallback ch"
  using assms by (force simp: keeps_def chan_role_def)

lemma echoing_mono: "echoing cur c pre m' w \<Longrightarrow> m \<le> m' \<Longrightarrow> echoing cur c pre m w"
  by (auto simp: echoing_def live_def Buffer_room_def)

lemma serving_mono: "serving cur l a s m' w \<Longrightarrow> m \<le> m' \<Longrightarrow> serving cur l a s m w"
  by (auto simp: serving_def client_def intro: echoing_mono)

lemma servingD:
  assumes "serving cur l a s m w" "conns w c = Some tc"
  shows "echoing cur c [] m w" "c < nextptr w" "client cur l m w c" "io_ok c w" "tc_loop tc = l"
    "\<exists>wk. \<forall>tc. conns w c = Some tc \<longrightarrow> loop_view (tc_loop tc) w = Some (cur, wk)"
proof -
  have cl: "client cur l m w c" and "c < nextptr w" using assms by (simp_all add: serving_def)
  then show "client cur l m w c" "c < nextptr w" "echoing cur c [] m w" "tc_loop tc = l"
    using assms(2) by (auto simp: client_def)
  then show "io_ok c w" using assms(2) by (auto simp: client_def echoing_def run_inv_def io_ok_def)
  show "\<exists>wk. \<forall>tc. conns w c = Some tc \<longrightarrow> loop_view (tc_loop tc) w = Some (cur, wk)"
    using cl assms(2) by (auto simp: client_def echoing_def run_inv_def)
qed

lemma clients_apart:
  assumes S: "serving cur l a s m w" and tc: "conns w c = Some tc" "conns w c' = Some tc'" "c \<noteq> c'"
  shows "tc_channel tc \<noteq> tc_channel tc'" "tc_sockfd tc \<noteq> tc_sockfd tc'"
proof -
  obtain ch where ch: "chans w (tc_channel tc) = Some ch" "ch_readCallback ch = Some (TcpConnection_handleRead_cb c)"
      "chan_reg w (tc_channel tc) = Some (tc_sockfd tc, l, True)"
    using servingD(3) [OF S tc(1)] tc(1) by (auto simp: client_def chan_reg_def)
  obtain ch' where ch': "chans w (tc_channel tc') = Some ch'" "ch_readCallback ch' = Some (TcpConnection_handleRead_cb c')"
      "chan_reg w (tc_channel tc') = Some (tc_sockfd tc', l, True)"
    using servingD(3) [OF S tc(2)] tc(2) by (auto simp: client_def chan_reg_def)
  show apart: "tc_channel tc \<noteq> tc_channel tc'" using ch(1,2) ch'(1,2) tc(3) by auto
  have "epoll_inv w" using S by (simp add: serving_def)
  then have "ep_lookup w l (tc_sockfd tc) = Some (tc_channel tc)" "ep_lookup w l (tc_sockfd tc') = Some (tc_channel tc')"
    using ch(3) ch'(3) by (simp_all add: epoll_inv_def)
  then show "tc_sockfd tc \<noteq> tc_sockfd tc'" using apart by auto
qed

text \<open>A step on one connection that keeps it echoing.\<close>

lemma serving_touch:
  assumes S: "serving cur l a s m' w" and m: "m \<le> m'" and t: "touches c w w'" and e: "echoing cur c [] m w'"
  shows "serving cur l a s m w' \<and> keeps w w'"
proof -
  obtain tc ch b ev h where tc: "conns w c = Some tc" "chans w (tc_channel tc) = Some ch" and h: "only_on (tc_sockfd tc) h"
    and w': "w' = io_state c tc ch b ev h w"
    using t by (auto simp: touches_def)
  have f: "conns w' = (conns w)(c \<mapsto> tc\<lparr>tc_inputBuffer := fst b, tc_outputBuffer := snd b\<rparr>)"
    "chans w' = (chans w)(tc_channel tc \<mapsto> set_events ev ch)" "trace w' = trace w @ h"
    "loops w' = loops w" "acceptors w' = acceptors w" "servers w' = servers w" "nextptr w' = nextptr w"
    by (simp_all add: w' io_state_def)
  have io: "made_fds h = {}" "watched_fds h = {}" "accepted_fds h = []" "\<And>fd. fd \<noteq> tc_sockfd tc \<Longrightarrow> unused fd h"
    using h plain_accepted by (simp_all add: only_on_def plain_calls_def)
  have inv: "epoll_inv w'" using e by (simp add: echoing_def live_def)
  note me = servingD [OF S tc(1)]
  have "tc_sockfd tc \<in> made_fds (trace w)" using me(3) tc(1) by (simp add: client_def)
  then have used: "unused fd h" if "fd \<notin> made_fds (trace w)" for fd using that io(4) by metis
  have kept: "\<exists>x. conns w' c' = Some x \<and> tc_sockfd x = tc_sockfd tc' \<and> tc_channel x = tc_channel tc'" if "conns w c' = Some tc'" for c' tc'
    using that f(1) tc(1) by (cases "c' = c") auto
  have calls: "calls_ok w'"
  proof -
    have "\<exists>c tc. conns w' c = Some tc \<and> tc_sockfd tc = fd" if "fd \<in> set (accepted_fds (trace w))" for fd
      using S that kept unfolding serving_def calls_ok_def by metis
    then show ?thesis using S used f(3) io(1,3) by (simp add: serving_def calls_ok_def)
  qed
  have self: "client cur l m w' c" using me(3) tc e f io unfolding client_def by (auto simp: set_events_def)
  have other: "client cur l m w' c'" if "conns w c' = Some tc'" "c' \<noteq> c" for c' tc'
  proof -
    note ap = clients_apart [OF S that(1) tc(1) that(2)]
    have "client cur l m w c'" using servingD(3) [OF S that(1)] m by (auto simp: client_def intro: echoing_mono)
    then show ?thesis
      by (rule client_frame [where tc = tc' and h = h]) (use that ap f io inv in \<open>auto simp: loop_view_def\<close>)
  qed
  have "serving cur l a s m w'"
  proof -
    obtain lp where lp: "loops w l = Some lp" "loop_serves cur lp (trace w)" using S by (auto simp: serving_def)
    show ?thesis
    proof (rule servingI [OF inv _ calls])
      show "server_ready l a s w'" using S f by (simp add: serving_def server_ready_def)
      show "loops w' l = Some lp" using lp f by simp
      show "loop_serves cur lp (trace w')" using lp(2) io(1,2) f by (simp add: loop_serves_def)
      show "c' < nextptr w' \<and> client cur l m w' c'" if "conns w' c' = Some tc'" for c' tc'
        using self other that f S me(2) by (cases "c' = c") (auto simp: serving_def)
      show "chans_ok l a w'"
        unfolding chans_ok_def
      proof (intro allI impI)
        fix p x assume x: "chans w' p = Some x"
        then obtain y where y: "chans w p = Some y" "ch_revents x = ch_revents y" "own_channel l a x = own_channel l a y"
          using f(2) tc(2) by (cases "p = tc_channel tc") (auto simp: own_channel_def set_events_def)
        have "\<exists>c tc. conns w' c = Some tc \<and> tc_channel tc = p" if "conns w c' = Some tc'" "tc_channel tc' = p" for c' tc'
          using that kept by blast
        moreover have "p < nextptr w \<and> ch_revents y \<in> io_masks \<and> (own_channel l a y \<or> (\<exists>c tc. conns w c = Some tc \<and> tc_channel tc = p))"
          using S y(1) by (simp add: serving_def chans_ok_def)
        ultimately show "p < nextptr w' \<and> ch_revents x \<in> io_masks \<and> (own_channel l a x \<or> (\<exists>c tc. conns w' c = Some tc \<and> tc_channel tc = p))"
          unfolding y(2,3) f(7) by blast
      qed
    qed
  qed
  moreover have "keeps w w'" using f(2) tc(2) by (auto simp: keeps_def chan_role_def set_events_def)
  ultimately show ?thesis by blast
qed

lemma serving_calls:
  assumes S: "serving cur l a s m w" and h: "plain_calls h" "\<And>fd. unused fd h"
  shows "serving cur l a s m (w\<lparr>trace := trace w @ h\<rparr>)"
proof -
  obtain lp where lp: "loops w l = Some lp" "loop_serves cur lp (trace w)" using S by (auto simp: serving_def)
  have ch: "rel_option (\<lambda>ch ch'. same_use ch ch' \<and> ch_revents ch' \<in> io_masks) (chans w p) (chans w p)" for p
    using S by (cases "chans w p") (auto simp: serving_def chans_ok_def)
  show ?thesis
    by (rule serving_frame [OF S _ _ _ _ lp(1), of _ lp h]) (use lp h ch in \<open>auto simp: loop_serves_def fun_eq_iff\<close>)
qed

section \<open>A new connection\<close>

lemma epoll_inv_add:
  assumes "epoll_inv w" "ep_lookup w l fd = None" "chan_reg w p = None"
    and lk: "\<And>l' fd'. ep_lookup w' l' fd' = (if l' = l \<and> fd' = fd then Some p else ep_lookup w l' fd')"
    and cr: "\<And>c. chan_reg w' c = (if c = p then Some (fd, l, True) else chan_reg w c)"
  shows "epoll_inv w'"
  unfolding epoll_inv_def
proof (intro allI)
  fix l' fd' c
  have "ep_lookup w l' fd' = Some c \<longleftrightarrow> chan_reg w c = Some (fd', l', True)" using assms(1) by (simp add: epoll_inv_def)
  then show "ep_lookup w' l' fd' = Some c \<longleftrightarrow> chan_reg w' c = Some (fd', l', True)" using assms(2,3) by (auto simp: lk cr)
qed

lemma new_echoing:
  assumes tc: "conns w c = Some (accepted_conn garbage s sv fd p addr b)" and b: "Buffer_new = Inr b" "m + 1032 \<le> vector_max"
    and sv: "sv_loop sv = l" "sv_messageCallback sv \<noteq> None"
    and ch: "chans w p = Some (conn_channel l fd c)" and lp: "loop_view l w = Some (cur, wk)" "wk \<noteq> fd"
    and inv: "epoll_inv w" and un: "unused fd (trace w)"
  shows "echoing cur c [] m w"
proof -
  let ?tc = "accepted_conn garbage s sv fd p addr b"
  have t: "tc_loop ?tc = l" "tc_state ?tc = kConnected" "tc_sockfd ?tc = fd" "tc_channel ?tc = p" "tc_inputBuffer ?tc = b"
      "tc_outputBuffer ?tc = b" "tc_messageCallback ?tc \<noteq> None"
    using sv by (simp_all add: accepted_conn_def)
  have buf: "Buffer_inv b" "Buffer_content b = []" "Buffer_room m b"
    using b Buffer_new_ok by (auto simp: Buffer_new_value Buffer_room_def)
  have quiet: "\<not> was_shut fd (trace w)" "written fd (trace w) = []" "received fd (trace w) = []" using un by (simp_all add: unused_def)
  have ev: "kReadEvent AND kWriteEvent = 0" by (simp add: kReadEvent_def kWriteEvent_def epoll_flags)
  have "conn_ok c w"
    by (rule conn_okI [OF tc]) (use t ch lp buf ev in \<open>simp_all add: chan_ev_def\<close>)
  then have "run_inv cur c kConnected w" using tc t lp quiet by (auto simp: run_inv_def)
  moreover have "live m c w" by (rule liveI [OF inv tc, of "conn_channel l fd c"]) (use t ch buf in simp_all)
  moreover have "conn_stream c w = []" using tc t buf quiet by (simp add: conn_stream_eq)
  ultimately show ?thesis unfolding echoing_def using tc t buf quiet by simp
qed

lemma serving_new:
  assumes S: "serving cur l a s m w" and lp: "loops w l = Some lp" and sv: "servers w s = Some sv"
    and p: "p = nextptr w" and fd: "0 \<le> fd" "fd \<notin> made_fds (trace w)" "sr_ret r = fd"
    and b: "Buffer_new = Inr b" "m + 1032 \<le> vector_max"
    and w': "conns w' = (conns w)(p + 1 \<mapsto> accepted_conn garbage s sv fd p addr b)"
      "chans w' = (chans w)(p \<mapsto> conn_channel l fd (p + 1))" "loops w' = (loops w)(l \<mapsto> set_channel fd (Some p) lp)"
      "nextptr w' = p + 2" "acceptors w' = acceptors w" "servers w' = (servers w)(s \<mapsto> count_conn (p + 1) sv)"
    and tr: "trace w' = trace w @ h" and h: "h = [(Sys_accept4 lfd, r), (Sys_getsockname fd, r1), (Sys_epoll_add e fd kReadEvent, r2)]"
  shows "serving cur l a s m w' \<and> keeps w w'"
proof -
  have ls: "loop_serves cur lp (trace w)" and inv: "epoll_inv w" using S lp by (auto simp: serving_def)
  have noch: "chans w p = None" using S p unfolding serving_def chans_ok_def by (cases "chans w p") auto
  have noconn: "conns w (p + 1) = None" using S p unfolding serving_def by (cases "conns w (p + 1)") auto
  have nofd: "ep_channels (el_epoller lp) fd = None" using ls fd(2) by (auto simp: loop_serves_def)
  have io: "made_fds h = {fd}" "watched_fds h = {fd}" "accepted_fds h = [fd]" "unused fd' h" for fd'
    using fd by (simp_all add: h unused_def written_def was_shut_def)
  have view: "loop_view l' w' = loop_view l' w" for l' using lp w'(3) by (simp add: loop_view_def)
  have "epoll_inv w'"
  proof (rule epoll_inv_add [OF inv])
    show "ep_lookup w l fd = None" "chan_reg w p = None" using lp nofd noch by (simp_all add: ep_lookup_def chan_reg_def)
    show "ep_lookup w' l' fd' = (if l' = l \<and> fd' = fd then Some p else ep_lookup w l' fd')" for l' fd'
      using lp w'(3) by (simp add: ep_lookup_def)
    show "chan_reg w' c = (if c = p then Some (fd, l, True) else chan_reg w c)" for c using w'(2) by (simp add: chan_reg_def)
  qed
  note inv' = this
  have svl: "sv_loop sv = l" "sv_messageCallback sv \<noteq> None" using S sv by (auto simp: serving_def server_ready_def)
  have wk: "loop_view l w' = Some (cur, el_wakeupfd lp)" "el_wakeupfd lp \<noteq> fd"
    using view lp ls fd(2) by (auto simp: loop_view_def loop_serves_def)
  have c1: "conns w' (p + 1) = Some (accepted_conn garbage s sv fd p addr b)" "chans w' p = Some (conn_channel l fd (p + 1))"
    using w'(1,2) by simp_all
  have "unused fd (trace w')" using S fd(2) io(4) tr by (simp add: serving_def calls_ok_def)
  from new_echoing [OF c1(1) b svl c1(2) wk inv' this] have new: "client cur l m w' (p + 1)"
    using c1 svl tr io(1) by (simp add: client_def accepted_conn_def)
  have old: "client cur l m w' c" if "conns w c = Some tc" for c tc
  proof (rule client_frame [OF servingD(3) [OF S that] that _ _ view inv' tr io(4)])
    show "conns w' c = Some tc" using that noconn w'(1) by auto
    show "\<exists>ch'. chans w' (tc_channel tc) = Some ch' \<and> same_use ch ch'" if "chans w (tc_channel tc) = Some ch" for ch
      using that noch w'(2) by (cases "tc_channel tc = p") auto
  qed
  have kept: "conns w' c = Some tc" if "conns w c = Some tc" for c tc using that noconn w'(1) by auto
  have "serving cur l a s m w'"
  proof (rule servingI [OF inv'])
    show "server_ready l a s w'" using S sv w'(5,6) by (auto simp: serving_def server_ready_def count_conn_def)
    show "loops w' l = Some (set_channel fd (Some p) lp)" using w'(3) by simp
    show "loop_serves cur (set_channel fd (Some p) lp) (trace w')"
      using ls io(1,2) tr by (auto simp: loop_serves_def set_channel_def)
    show "calls_ok w'"
      unfolding calls_ok_def
    proof (intro conjI allI impI ballI)
      fix fd' assume "fd' \<notin> made_fds (trace w')"
      then show "unused fd' (trace w')" using S io tr by (simp add: serving_def calls_ok_def)
    next
      fix fd' assume "fd' \<in> set (accepted_fds (trace w'))"
      then consider "fd' = fd" | "fd' \<in> set (accepted_fds (trace w))" using io(3) tr by auto
      then show "\<exists>c tc. conns w' c = Some tc \<and> tc_sockfd tc = fd'"
      proof cases
        case 1 then show ?thesis using c1(1) by (force simp: accepted_conn_def)
      next
        case 2 then show ?thesis using S kept unfolding serving_def calls_ok_def by metis
      qed
    qed
    show "chans_ok l a w'"
      unfolding chans_ok_def
    proof (intro allI impI)
      fix q x assume x: "chans w' q = Some x"
      show "q < nextptr w' \<and> ch_revents x \<in> io_masks \<and> (own_channel l a x \<or> (\<exists>c tc. conns w' c = Some tc \<and> tc_channel tc = q))"
      proof (cases "q = p")
        case True
        then show ?thesis using x c1 w'(4) by (force simp: io_masks_def accepted_conn_def)
      next
        case False
        then have "chans w q = Some x" using x w'(2) by simp
        then have "q < nextptr w \<and> ch_revents x \<in> io_masks \<and> (own_channel l a x \<or> (\<exists>c tc. conns w c = Some tc \<and> tc_channel tc = q))"
          using S by (simp add: serving_def chans_ok_def)
        then show ?thesis using kept w'(4) p by fastforce
      qed
    qed
    show "c < nextptr w' \<and> client cur l m w' c" if "conns w' c = Some tc" for c tc
    proof (cases "c = p + 1")
      case False
      then have "conns w c = Some tc" using that w'(1) by simp
      then show ?thesis using old servingD(2) [OF S] w'(4) p by fastforce
    qed (use new w'(4) in simp)
  qed
  moreover have "keeps w w'" using noch w'(2) by (auto simp: keeps_def chan_role_def)
  ultimately show ?thesis by blast
qed

section \<open>Marks on channels and the poll\<close>

lemma serving_mark:
  assumes S: "serving cur l a s m w" and f: "\<And>ch. same_use ch (f ch) \<and> (ch_revents ch \<in> io_masks \<longrightarrow> ch_revents (f ch) \<in> io_masks)"
  shows "serving cur l a s m (upd_chan f p w)"
proof -
  obtain lp where lp: "loops w l = Some lp" "loop_serves cur lp (trace w)" using S by (auto simp: serving_def)
  have ch: "rel_option (\<lambda>ch ch'. same_use ch ch' \<and> ch_revents ch' \<in> io_masks) (chans w q) (chans (upd_chan f p w) q)" for q
  proof (cases "chans w q")
    case (Some ch)
    then have "ch_revents ch \<in> io_masks" using S by (simp add: serving_def chans_ok_def)
    then show ?thesis using Some f by (cases "q = p") simp_all
  qed (cases "q = p"; simp)
  have net: "conns (upd_chan f p w) = conns w" "acceptors (upd_chan f p w) = acceptors w" "servers (upd_chan f p w) = servers w"
    by (simp_all add: upd_chan_def)
  show ?thesis
    by (rule serving_frame [OF S net _ lp(1), of lp "[]"]) (use lp ch in \<open>auto simp: loop_serves_def fun_eq_iff\<close>)
qed

lemma io_flags:
  assumes "ev \<in> io_masks"
  shows "\<not> has_flag ev EPOLLRDHUP" "\<not> has_flag ev EPOLLERR"
  using assms by (auto simp: io_masks_def has_flag_def epoll_flags)

lemma keeps_handling: "keeps w (upd_chan (set_handling v) p w)"
proof -
  have "chan_role q (upd_chan (set_handling v) p w) = chan_role q w" for q
    by (cases "q = p"; cases "chans w q") (simp_all add: chan_role_def set_handling_def)
  then show ?thesis by (simp add: keeps_def)
qed

lemma serving_loop:
  assumes S: "serving cur l a s m w"
    and g: "\<And>lp. el_threadId (g lp) = el_threadId lp" "\<And>lp. el_pending lp = [] \<Longrightarrow> el_pending (g lp) = []" "\<And>lp. el_quit (g lp) = el_quit lp"
      "\<And>lp. el_timerqueue (g lp) = el_timerqueue lp" "\<And>lp. el_wakeupfd (g lp) = el_wakeupfd lp"
      "\<And>lp. ep_channels (el_epoller (g lp)) = ep_channels (el_epoller lp)"
  shows "serving cur l a s m (upd_loop g l w)"
proof -
  obtain lp where lp: "loops w l = Some lp" "loop_serves cur lp (trace w)" using S by (auto simp: serving_def)
  have ch: "rel_option (\<lambda>ch ch'. same_use ch ch' \<and> ch_revents ch' \<in> io_masks) (chans w p) (chans w p)" for p
    using S by (cases "chans w p") (auto simp: serving_def chans_ok_def)
  have net: "conns (upd_loop g l w) = conns w" "acceptors (upd_loop g l w) = acceptors w" "servers (upd_loop g l w) = servers w"
    by (simp_all add: upd_loop_def)
  show ?thesis
    by (rule serving_frame [OF S net _ lp(1), of "g lp" "[]"]) (use lp ch g in \<open>auto simp: loop_serves_def upd_def\<close>)
qed

lemma serving_deliver:
  assumes "serving cur l a s m w" "\<And>e. e \<in> set evs \<Longrightarrow> snd e \<in> io_masks"
  shows "serving cur l a s m (fold (deliver f) evs w)"
  using assms
proof (induction evs arbitrary: w)
  case (Cons e evs)
  have "serving cur l a s m (deliver f e w)"
    unfolding deliver_def by (rule serving_mark [OF Cons.prems(1)]) (use Cons.prems(2) in simp)
  then show ?case using Cons by simp
qed simp

lemma chans_deliver: "chans (fold (deliver f) evs w) p = None \<longleftrightarrow> chans w p = None"
  by (induction evs arbitrary: w) (simp_all add: deliver_def)

lemma if_both: "Q x \<Longrightarrow> Q y \<Longrightarrow> Q (if b then x else y)"
  by simp

lemma poll_serves:
  assumes S: "serving cur l a s m w" and os: "reports_io n os"
  shows "\<exists>now ps w'. Epoller_epoll os cur l t [] w = Inr (now, ps, w') \<and> serving cur l a s m w' \<and>
    length ps \<le> n \<and> (\<forall>p \<in> set ps. chans w' p \<noteq> None)"
proof -
  obtain lp where lp: "loops w l = Some lp" "loop_serves cur lp (trace w)" using S by (auto simp: serving_def)
  let ?ep = "el_epoller lp" and ?call = "Sys_epoll_wait (ep_epfd (el_epoller lp)) (ep_evsize (el_epoller lp)) t"
  let ?r = "os (trace w) ?call"
  let ?g = "(Sys_gettimeofday, os (trace w @ [(?call, ?r)]) Sys_gettimeofday)"
  let ?w2 = "w\<lparr>trace := trace w @ [(?call, ?r), ?g]\<rparr>"
  obtain now where now: "Timestamp_now os (w\<lparr>trace := trace w @ [(?call, ?r)]\<rparr>) = (now, ?w2)" by (simp add: Timestamp_now_def)
  have unused: "unused fd [(?call, ?r), ?g]" for fd by (simp add: unused_def written_def was_shut_def)
  have S2: "serving cur l a s m ?w2" by (rule serving_calls [OF S _ unused]) (simp add: plain_calls_def)
  have thr: "assertInLoopThread cur l w = Inr ()" using lp by (simp add: assertInLoopThread_def isInLoopThread_def loop_serves_def)
  show ?thesis
  proof (cases "0 < sr_ret ?r")
    case False
    then have "Epoller_epoll os cur l t [] w = Inr (now, [], ?w2)" using thr lp now by (simp add: Epoller_epoll_def)
    then show ?thesis using S2 by auto
  next
    case True
    let ?evs = "take (nat (sr_ret ?r)) (sr_events ?r)" and ?f = "ep_channels ?ep"
    have rep: "nat (sr_ret ?r) \<le> min n (ep_evsize ?ep)" "\<forall>(fd, ev) \<in> set (sr_events ?r). fd \<in> watched_fds (trace w) \<and> ev \<in> io_masks"
      using os True unfolding reports_io_def Let_def by blast+
    have r: "nat (sr_ret ?r) \<le> n" "nat (sr_ret ?r) \<le> ep_evsize ?ep"
      "\<And>e. e \<in> set (sr_events ?r) \<Longrightarrow> fst e \<in> watched_fds (trace w) \<and> snd e \<in> io_masks"
      using rep by fastforce+
    have evs: "e \<in> set ?evs \<Longrightarrow> fst e \<in> watched_fds (trace w) \<and> snd e \<in> io_masks" for e using r(3) by (meson in_set_takeD)
    have reg: "\<exists>p. ?f (fst e) = Some p \<and> chans w p \<noteq> None" if "e \<in> set ?evs" for e
    proof -
      have "fst e \<in> dom ?f" using evs [OF that] lp(2) by (auto simp: loop_serves_def)
      then obtain p where p: "?f (fst e) = Some p" by auto
      then have "ep_lookup w l (fst e) = Some p" using lp(1) by (simp add: ep_lookup_def)
      then have "chan_reg w p = Some (fst e, l, True)" using S by (simp add: serving_def epoll_inv_def)
      then show ?thesis using p by (auto simp: chan_reg_def)
    qed
    let ?ps = "map (\<lambda>e. the (?f (fst e))) ?evs" and ?w3 = "fold (deliver ?f) ?evs ?w2"
    have fill: "fillActiveChannels l (nat (sr_ret ?r)) (sr_events ?r) [] ?w2 = Inr (?ps, ?w3)"
      using fill_loop_delivers [of ?w2 l lp ?f ?evs "[]"] lp(1) r(2) reg by (simp add: fillActiveChannels_def)
    have S3: "serving cur l a s m ?w3" using serving_deliver [OF S2, of ?evs ?f] evs by blast
    let ?grow = "\<lambda>lp. lp\<lparr>el_epoller := (el_epoller lp)\<lparr>ep_evsize := ep_evsize (el_epoller lp) * 2\<rparr>\<rparr>"
    have "Epoller_epoll os cur l t [] w = Inr (now, ?ps, if nat (sr_ret ?r) = ep_evsize ?ep then upd_loop ?grow l ?w3 else ?w3)"
      using thr lp now True fill by (simp add: Epoller_epoll_def)
    moreover have "serving cur l a s m (if nat (sr_ret ?r) = ep_evsize ?ep then upd_loop ?grow l ?w3 else ?w3)"
      by (rule if_both [where Q = "serving cur l a s m", OF serving_loop [OF S3] S3]) simp_all
    moreover have "\<forall>p \<in> set ?ps. chans (if nat (sr_ret ?r) = ep_evsize ?ep then upd_loop ?grow l ?w3 else ?w3) p \<noteq> None"
    proof
      fix p assume "p \<in> set ?ps"
      then obtain e where e: "e \<in> set ?evs" "p = the (?f (fst e))" by auto
      obtain p' where "?f (fst e) = Some p'" "chans w p' \<noteq> None" using reg [OF e(1)] by blast
      then have c: "chans ?w3 p \<noteq> None" using e(2) by (simp add: chans_deliver)
      show "chans (if nat (sr_ret ?r) = ep_evsize ?ep then upd_loop ?grow l ?w3 else ?w3) p \<noteq> None"
        by (rule if_both [where Q = "\<lambda>w. chans w p \<noteq> None"]) (use c in simp_all)
    qed
    moreover have "length ?ps \<le> n" using r(1) by simp
    ultimately show ?thesis by blast
  qed
qed

end
