(* ===== verification/Server_Run.thy ===== *)
theory Server_Run
  imports Server_State
begin

text \<open>
  Servers that send back what they receive, from the start of their \<^verbatim>\<open>main\<close> (src/example/EchoMain.cc, pingpong_server.cc)
  through any number of iterations of their loop, with any number of clients: the constructors, the poll, the
  dispatcher, the acceptor, the server, the connections and the application's callbacks, all composed. What the
  application has to do is a locale, which both programs interpret.
\<close>

section \<open>The handlers\<close>

definition app_cb ::
    "((rat \<Rightarrow> rat) \<Rightarrow> kernel \<Rightarrow> tid \<Rightarrow> 'z net_scheme callbacks) \<Rightarrow> sockaddr_in \<Rightarrow> (32 word \<Rightarrow> string) \<Rightarrow> (rat \<Rightarrow> rat) \<Rightarrow> kernel \<Rightarrow> tid \<Rightarrow>
     timestamp \<Rightarrow> callback \<Rightarrow> 'z net_scheme \<Rightarrow> 'z net_scheme res" where
  "app_cb app garbage ntop rnd os cur = run_callback garbage ntop rnd (app rnd os cur) (\<lambda>_. Inr) os cur"

definition goes_on :: "tid \<Rightarrow> ptr \<Rightarrow> ptr \<Rightarrow> ptr \<Rightarrow> nat \<Rightarrow> 'z net_scheme \<Rightarrow> 'z net_scheme res \<Rightarrow> bool" where
  "goes_on cur l a s m w r \<longleftrightarrow> (\<exists>w'. r = Inr w' \<and> serving cur l a s m w' \<and> keeps w w')"

text \<open>Room for what \<open>n\<close> events may bring and for a new connection's buffers.\<close>

definition room_for :: "nat \<Rightarrow> bool" where
  "room_for m \<longleftrightarrow> m + 1032 \<le> vector_max"

text \<open>The descriptor belongs to an established connection that has sent back what it received, or still holds it.\<close>

definition echoed :: "'z net_scheme \<Rightarrow> int \<Rightarrow> bool" where
  "echoed w fd \<longleftrightarrow> (\<exists>c tc. conns w c = Some tc \<and> tc_sockfd tc = fd \<and> connected tc \<and>
     written fd (trace w) @ Buffer_content (tc_outputBuffer tc) = received fd (trace w) \<and>
     Buffer_content (tc_inputBuffer tc) = [])"

text \<open>An application that sends back each message, and whose connection callback only makes calls that make or
  register no descriptor and neither read nor write.\<close>

locale sending_back =
  fixes app :: "(rat \<Rightarrow> rat) \<Rightarrow> kernel \<Rightarrow> tid \<Rightarrow> 'z net_scheme callbacks"
  assumes on_message: "on_message (app rnd os cur) f c t = EchoServer_onMessage os cur c t"
    and on_connection: "conns w c \<noteq> None \<Longrightarrow> \<exists>h. on_connection (app rnd os cur) f c w = Inr (w\<lparr>trace := trace w @ h\<rparr>) \<and>
      plain_calls h \<and> (\<forall>fd. unused fd h)"
begin

lemma client_reads:
  assumes S: "serving cur l a s (k + m) w" and c: "conns w c = Some tc" and os: "read_ok k os" and k: "k \<le> vector_max"
  shows "goes_on cur l a s m w (app_cb app garbage ntop rnd os cur t (TcpConnection_handleRead_cb c) w)"
proof -
  obtain w' where w': "TcpConnection_handleRead (app rnd os cur) os cur c t w = Inr w'" "echoing cur c [] m w'"
    using message_readable [OF servingD(1) [OF S c] os k on_message] by blast
  obtain wk where wk: "\<And>tc. conns w c = Some tc \<Longrightarrow> loop_view (tc_loop tc) w = Some (cur, wk)" using servingD(6) [OF S c] by blast
  have "touches c w w'" by (rule touches_handleRead [OF servingD(4) [OF S c] w'(1) on_message wk os])
  from serving_touch [OF S _ this w'(2)] w'(1) show ?thesis
    by (simp add: goes_on_def app_cb_def run_callback_def)
qed

lemma client_writes:
  assumes S: "serving cur l a s m w" and c: "conns w c = Some tc" and os: "write_ok os"
  shows "goes_on cur l a s m w (app_cb app garbage ntop rnd os cur t (TcpConnection_handleWrite_cb c) w)"
proof -
  have "echoing cur c [] (0 + m) w" using servingD(1) [OF S c] by simp
  then obtain w' where w': "TcpConnection_handleWrite os cur c w = Inr w'" "echoing cur c [] m w'"
    using echo_writable [OF _ os] by blast
  have "touches c w w'" by (rule touches_handleWrite [OF servingD(4) [OF S c] w'(1)])
  from serving_touch [OF S _ this w'(2)] w'(1) show ?thesis
    by (simp add: goes_on_def app_cb_def run_callback_def)
qed

lemma loop_woken:
  assumes S: "serving cur l a s m w"
  shows "goes_on cur l a s m w (app_cb app garbage ntop rnd os cur t (EventLoop_handleRead_cb l) w)"
proof -
  obtain lp where lp: "loops w l = Some lp" using S by (auto simp: serving_def)
  let ?c = "Sys_read (el_wakeupfd lp) 8"
  let ?w' = "w\<lparr>trace := trace w @ [(?c, os (trace w) ?c)]\<rparr>"
  have "serving cur l a s m ?w'"
    by (rule serving_calls [OF S]) (simp_all add: plain_calls_def unused_def)
  then show ?thesis
    using lp keeps_same [of ?w' w] by (simp add: goes_on_def app_cb_def run_callback_def EventLoop_handleRead_def)
qed

lemma timers_checked:
  assumes S: "serving cur l a s m w"
  shows "goes_on cur l a s m w (app_cb app garbage ntop rnd os cur t (TimerQueue_handleRead_cb l) w)"
proof -
  obtain lp where lp: "loops w l = Some lp" "loop_serves cur lp (trace w)" using S by (auto simp: serving_def)
  let ?c = "Sys_read (tq_timerfd (el_timerqueue lp)) 8" and ?g = "(Sys_gettimeofday, os (trace w) Sys_gettimeofday)"
  let ?h = "[?g, (?c, os (trace w @ [?g]) ?c)]"
  let ?w' = "w\<lparr>trace := trace w @ ?h\<rparr>"
  have id: "upd_loop (set_timerlist []) l ?w' = ?w'"
    using lp by (cases w) (auto simp: upd_loop_def upd_def fun_eq_iff set_timerlist_def loop_serves_def)
  have unused: "unused fd ?h" for fd by (simp add: unused_def written_def was_shut_def)
  have "TimerQueue_handleRead rnd os rt cur l w = Inr ?w'" for rt
    using lp id by (simp add: TimerQueue_handleRead_def assertInLoopThread_def isInLoopThread_def Timestamp_now_def readTimerfd_def
      getexpiration_def TimerQueue_reset_def loop_serves_def valid_def Timestamp_new_def Let_def)
  moreover have "serving cur l a s m ?w'"
    by (rule serving_calls [OF S _ unused]) (simp add: plain_calls_def)
  ultimately show ?thesis
    using keeps_same [of ?w' w] by (simp add: goes_on_def app_cb_def run_callback_def)
qed

lemma acceptor_accepts:
  assumes S: "serving cur l a s m w" and os: "epoll_ctl_ok os" "fresh_fds os" and m: "m + 1032 \<le> vector_max"
  shows "goes_on cur l a s m w (app_cb app garbage ntop rnd os cur t (Acceptor_handleRead_cb a) w)"
proof -
  obtain lp where lp: "loops w l = Some lp" "loop_serves cur lp (trace w)" using S by (auto simp: serving_def)
  obtain ac sv where ac: "acceptors w a = Some ac" "ac_loop ac = l" "ac_newConnectionCallback ac = Some s"
    and sv: "servers w s = Some sv" "sv_loop sv = l" "tp_loops (sv_threadPool sv) = []" "tp_baseLoop (sv_threadPool sv) = l"
      "sv_connectionCallback sv \<noteq> None"
    using S by (auto simp: serving_def server_ready_def)
  let ?ub = "app rnd os cur" and ?call = "Sys_accept4 (ac_sockfd ac)"
  let ?r = "os (trace w) ?call" and ?w1 = "w\<lparr>trace := trace w @ [(?call, os (trace w) ?call)]\<rparr>"
  obtain addr where run: "app_cb app garbage ntop rnd os cur t (Acceptor_handleRead_cb a) w =
      (if 0 \<le> sr_ret ?r then TcpServer_newConnection garbage ?ub os cur s (sr_ret ?r) addr ?w1 else Inr ?w1)"
    using ac lp by (cases "0 \<le> sr_ret ?r") (simp_all add: app_cb_def run_callback_def Acceptor_handleRead_def
      Socket_accept_def socketops_accept_def assertInLoopThread_def isInLoopThread_def loop_serves_def)
  show ?thesis
  proof (cases "0 \<le> sr_ret ?r")
    case False
    have "serving cur l a s m ?w1" by (rule serving_calls [OF S]) (use False in \<open>simp_all add: plain_calls_def unused_def\<close>)
    then show ?thesis using run False keeps_same [of ?w1 w] by (simp add: goes_on_def)
  next
    case True
    let ?fd = "sr_ret ?r" and ?c = "nextptr w + 1"
    obtain b where b: "Buffer_new = Inr b" using Buffer_new_ok by blast
    obtain f where f: "sv_connectionCallback sv = Some f" using sv(5) by auto
    have fresh: "?fd \<notin> made_fds (trace w)" using os(2) by (simp add: fresh_fds_def)
    then have "ep_channels (el_epoller lp) ?fd = None" using lp(2) by (auto simp: loop_serves_def)
    then obtain addr' r1 r2 w2 where
      new: "TcpServer_newConnection garbage ?ub os cur s ?fd addr ?w1 = call_fun (sv_connectionCallback sv) (\<lambda>f. on_connection ?ub f ?c) w2"
      and w2: "w2 = ?w1\<lparr>trace := trace ?w1 @ [(Sys_getsockname ?fd, r1), (Sys_epoll_add (ep_epfd (el_epoller lp)) ?fd kReadEvent, r2)],
           nextptr := nextptr w + 2, chans := (chans w)(nextptr w \<mapsto> conn_channel l ?fd ?c),
           loops := (loops w)(l \<mapsto> set_channel ?fd (Some (nextptr w)) lp),
           conns := (conns w)(?c \<mapsto> accepted_conn garbage s sv ?fd (nextptr w) addr' b),
           servers := (servers w)(s \<mapsto> count_conn ?c sv)\<rparr>"
      using newConnection_state [of ?w1 s sv lp cur ?fd os b garbage ?ub addr] sv lp os(1) b by (auto simp: loop_serves_def)
    have S2: "serving cur l a s m w2 \<and> keeps w w2"
      by (rule serving_new [OF S lp(1) sv(1) refl True fresh refl b m]) (simp_all add: w2)
    obtain h where h: "on_connection ?ub f ?c w2 = Inr (w2\<lparr>trace := trace w2 @ h\<rparr>)" "plain_calls h" "\<And>fd. unused fd h"
      using on_connection [of w2 ?c rnd os cur f] by (auto simp: w2)
    let ?w3 = "w2\<lparr>trace := trace w2 @ h\<rparr>"
    have "serving cur l a s m ?w3" by (rule serving_calls [OF _ h(2,3)]) (use S2 in simp)
    moreover have "keeps w ?w3" using S2 keeps_trans [OF _ keeps_same [of ?w3 w2]] by simp
    ultimately show ?thesis using run True new h(1) by (simp add: goes_on_def f call_fun_def)
  qed
qed

lemma stage_read:
  assumes S: "serving cur l a s (k + m) w" and ch: "chans w p = Some ch" and os: "server_kernel n k os" and m: "room_for (k + m)"
  shows "goes_on cur l a s m w (if b then fire (app_cb app garbage ntop rnd os cur t) (ch_readCallback ch) w else Inr w)"
proof -
  have weaker: "goes_on cur l a s m w r" if "goes_on cur l a s (k + m) w r" for r
    using that serving_mono [of cur l a s "k + m" _ m] by (auto simp: goes_on_def)
  have here: "goes_on cur l a s m w (Inr w)" by (rule weaker) (use S in \<open>simp add: goes_on_def\<close>)
  have k: "k \<le> vector_max" "k + m + 1032 \<le> vector_max" using m by (simp_all add: room_for_def)
  have os': "epoll_ctl_ok os" "fresh_fds os" "read_ok k os" using os by (simp_all add: server_kernel_def)
  have "own_channel l a ch \<or> (\<exists>c tc. conns w c = Some tc \<and> tc_channel tc = p)" using S ch by (simp add: serving_def chans_ok_def)
  then have "goes_on cur l a s m w (fire (app_cb app garbage ntop rnd os cur t) (ch_readCallback ch) w)"
  proof
    assume "own_channel l a ch"
    then consider "ch_readCallback ch = Some (EventLoop_handleRead_cb l)" | "ch_readCallback ch = Some (TimerQueue_handleRead_cb l)"
      | "ch_readCallback ch = Some (Acceptor_handleRead_cb a)" by (auto simp: own_channel_def)
    then show ?thesis
      by cases (simp_all add: fire_def weaker loop_woken [OF S] timers_checked [OF S] acceptor_accepts [OF S os'(1,2) k(2)])
  next
    assume "\<exists>c tc. conns w c = Some tc \<and> tc_channel tc = p"
    then obtain c tc where c: "conns w c = Some tc" "tc_channel tc = p" by blast
    then have "ch_readCallback ch = Some (TcpConnection_handleRead_cb c)" using servingD(3) [OF S c(1)] ch by (simp add: client_def)
    then show ?thesis using client_reads [OF S c(1) os'(3) k(1)] by (simp add: fire_def)
  qed
  then show ?thesis using here by simp
qed

lemma stage_write:
  assumes S: "serving cur l a s m w" and ch: "chans w p = Some ch" and os: "server_kernel n k os"
  shows "goes_on cur l a s m w (if b then fire (app_cb app garbage ntop rnd os cur t) (ch_writeCallback ch) w else Inr w)"
proof -
  have here: "goes_on cur l a s m w (Inr w)" using S by (simp add: goes_on_def)
  have "own_channel l a ch \<or> (\<exists>c tc. conns w c = Some tc \<and> tc_channel tc = p)" using S ch by (simp add: serving_def chans_ok_def)
  then have "goes_on cur l a s m w (fire (app_cb app garbage ntop rnd os cur t) (ch_writeCallback ch) w)"
  proof
    assume "own_channel l a ch"
    then show ?thesis using here by (simp add: fire_def own_channel_def)
  next
    assume "\<exists>c tc. conns w c = Some tc \<and> tc_channel tc = p"
    then obtain c tc where c: "conns w c = Some tc" "tc_channel tc = p" by blast
    then have "ch_writeCallback ch = Some (TcpConnection_handleWrite_cb c)" using servingD(3) [OF S c(1)] ch by (simp add: client_def)
    then show ?thesis using client_writes [OF S c(1)] os by (simp add: fire_def server_kernel_def)
  qed
  then show ?thesis using here by simp
qed

lemma event_handled:
  assumes S: "serving cur l a s (k + m) w" and ch: "chans w p = Some ch" and os: "server_kernel n k os" and m: "room_for (k + m)"
  shows "goes_on cur l a s m w (Channel_handleEvent (app_cb app garbage ntop rnd os cur) t p w)"
proof -
  let ?run = "app_cb app garbage ntop rnd os cur t" and ?w1 = "upd_chan (set_handling True) p w" and ?ch = "set_handling True ch"
  have S1: "serving cur l a s (k + m) ?w1" by (rule serving_mark [OF S]) simp
  have ch1: "chans ?w1 p = Some ?ch" using ch by simp
  have "ch_revents ?ch \<in> io_masks" using S ch by (simp add: serving_def chans_ok_def)
  note ev = io_flags [OF this]
  obtain w4 where w4: "(if has_flag (ch_revents ?ch) (EPOLLIN OR EPOLLPRI OR EPOLLRDHUP) then fire ?run (ch_readCallback ?ch) ?w1 else Inr ?w1) = Inr w4"
      "serving cur l a s m w4" "keeps ?w1 w4"
    using stage_read [OF S1 ch1 os m] unfolding goes_on_def by blast
  obtain ch4 where ch4: "chans w4 p = Some ch4" by (rule keepsD [OF w4(3) ch1])
  obtain w5 where w5: "(if has_flag (ch_revents ch4) EPOLLOUT then fire ?run (ch_writeCallback ch4) w4 else Inr w4) = Inr w5"
      "serving cur l a s m w5" "keeps w4 w5"
    using stage_write [OF w4(2) ch4 os] unfolding goes_on_def by blast
  obtain ch5 where ch5: "chans w5 p = Some ch5" by (rule keepsD [OF w5(3) ch4])
  let ?w' = "upd_chan (set_handling False) p w5"
  have "Channel_handleEvent (app_cb app garbage ntop rnd os cur) t p w = Inr ?w'"
    using ch1 ev w4(1) ch4 w5(1) ch5 by (simp add: Channel_handleEvent_def ch Let_def)
  moreover have "serving cur l a s m ?w'" by (rule serving_mark [OF w5(2)]) simp
  moreover have "keeps w ?w'" using keeps_handling w4(3) w5(3) keeps_trans by blast
  ultimately show ?thesis by (simp add: goes_on_def)
qed

lemma events_handled:
  assumes "serving cur l a s (length ps * k + m) w" and "\<And>p. p \<in> set ps \<Longrightarrow> chans w p \<noteq> None"
    and os: "server_kernel n k os" and m: "room_for (length ps * k + m)"
  shows "goes_on cur l a s m w (foldR (Channel_handleEvent (app_cb app garbage ntop rnd os cur) t) ps w)"
  using assms(1,2) m
proof (induction ps arbitrary: w)
  case Nil
  then show ?case by (simp add: goes_on_def)
next
  case (Cons p ps)
  obtain ch where ch: "chans w p = Some ch" using Cons.prems(2) by (auto simp: fun_eq_iff)
  have S: "serving cur l a s (k + (length ps * k + m)) w" and r: "room_for (k + (length ps * k + m))" "room_for (length ps * k + m)"
    using Cons.prems by (simp_all add: add.assoc room_for_def)
  obtain w1 where w1: "Channel_handleEvent (app_cb app garbage ntop rnd os cur) t p w = Inr w1"
      "serving cur l a s (length ps * k + m) w1" "keeps w w1"
    using event_handled [OF S ch os r(1)] unfolding goes_on_def by blast
  have "chans w1 q \<noteq> None" if q: "q \<in> set ps" for q
  proof -
    obtain x where "chans w q = Some x" using Cons.prems(2) q by fastforce
    then show ?thesis using keepsD [OF w1(3)] by (metis option.distinct(1))
  qed
  from Cons.IH [OF w1(2) this r(2)] obtain w2 where "foldR (Channel_handleEvent (app_cb app garbage ntop rnd os cur) t) ps w1 = Inr w2"
      "serving cur l a s m w2" "keeps w1 w2"
    unfolding goes_on_def by blast
  then show ?case using w1 keeps_trans unfolding goes_on_def by fastforce
qed

lemma iteration_serves:
  assumes S: "serving cur l a s (n * k + m) w" and os: "server_kernel n k os" and m: "room_for (n * k + m)"
  shows "\<exists>w'. program_iteration garbage ntop rnd (app rnd os cur) (\<lambda>_. Inr) os cur l w = Inr w' \<and> serving cur l a s m w'"
proof -
  let ?w0 = "upd_loop (\<lambda>lp. lp\<lparr>el_channellist := []\<rparr>) l w"
  have S0: "serving cur l a s (n * k + m) ?w0" by (rule serving_loop [OF S]) simp_all
  obtain now ps w1 where poll: "Epoller_epoll os cur l kPollTimeMs [] ?w0 = Inr (now, ps, w1)"
    and w1: "serving cur l a s (n * k + m) w1" "length ps \<le> n" "\<And>p. p \<in> set ps \<Longrightarrow> chans w1 p \<noteq> None"
    using poll_serves [OF S0, of n os kPollTimeMs] os by (auto simp: server_kernel_def)
  let ?w2 = "upd_loop (\<lambda>lp. lp\<lparr>el_epollReturnTime := now, el_channellist := ps\<rparr>) l w1"
  have le: "length ps * k + m \<le> n * k + m" using w1(2) by simp
  have S2: "serving cur l a s (length ps * k + m) ?w2"
    by (rule serving_mono [OF serving_loop [OF w1(1)] le]) simp_all
  have "room_for (length ps * k + m)" using m le unfolding room_for_def by linarith
  from events_handled [OF S2 _ os this, of garbage ntop rnd now] w1(3) obtain w3 where
    w3: "foldR (Channel_handleEvent (app_cb app garbage ntop rnd os cur) now) ps ?w2 = Inr w3" "serving cur l a s m w3"
    unfolding goes_on_def by auto
  obtain lp where lp: "loops w3 l = Some lp" "el_pending lp = []" using w3(2) by (auto simp: serving_def loop_serves_def)
  let ?w4 = "upd_loop end_calling l (upd_loop swap_pending l w3)"
  have "doPendingFunctions rt l w3 = Inr ?w4" for rt using lp by (simp add: doPendingFunctions_def)
  moreover have "serving cur l a s m ?w4"
    by (intro serving_loop [OF serving_loop [OF w3(2)]]) (simp_all add: end_calling_def swap_pending_def)
  ultimately show ?thesis
    using poll w3(1) by (simp add: program_iteration_def loop_body_def app_cb_def)
qed

lemma iterations_serve:
  assumes "serving cur l a s (j * (n * k)) w" and os: "server_kernel n k os" and "room_for (j * (n * k))"
  shows "\<exists>w'. iterate j (program_iteration garbage ntop rnd (app rnd os cur) (\<lambda>_. Inr) os cur l) w = Inr w' \<and>
    serving cur l a s 0 w'"
  using assms(1,3)
proof (induction j arbitrary: w)
  case (Suc j)
  have "serving cur l a s (n * k + j * (n * k)) w" "room_for (n * k + j * (n * k))" using Suc.prems by simp_all
  from iteration_serves [OF this(1) os this(2), of garbage ntop rnd] obtain w1 where
    w1: "program_iteration garbage ntop rnd (app rnd os cur) (\<lambda>_. Inr) os cur l w = Inr w1" "serving cur l a s (j * (n * k)) w1"
    by blast
  have "room_for (j * (n * k))" using Suc.prems(2) by (simp add: room_for_def)
  from Suc.IH [OF w1(2) this] w1(1) show ?case by auto
qed (auto simp: serving_def)

lemma serves_clients:
  assumes "serving cur l a s (j * (n * k)) w" and "server_kernel n k os" and "room_for (j * (n * k))"
  shows "\<exists>w'. iterate j (program_iteration garbage ntop rnd (app rnd os cur) (\<lambda>_. Inr) os cur l) w = Inr w' \<and>
    (\<forall>fd \<in> set (accepted_fds (trace w')). echoed w' fd)"
proof -
  obtain w' where w': "iterate j (program_iteration garbage ntop rnd (app rnd os cur) (\<lambda>_. Inr) os cur l) w = Inr w'"
    and S: "serving cur l a s 0 w'"
    using iterations_serve [OF assms, of garbage ntop rnd] by blast
  have "echoed w' fd" if fd: "fd \<in> set (accepted_fds (trace w'))" for fd
  proof -
    obtain c tc where c: "conns w' c = Some tc" "tc_sockfd tc = fd" using S fd by (auto simp: serving_def calls_ok_def)
    show ?thesis unfolding echoed_def using servingD(1) [OF S c(1)] c conn_stream_eq [OF c(1)]
      by (intro exI [of _ c] exI [of _ tc]) (auto simp: echoing_def run_inv_def connected_def)
  qed
  with w' show ?thesis by blast
qed

end

section \<open>The start of the program\<close>

lemma TcpServer_start_state:
  assumes sv: "servers w s = Some sv" "\<not> sv_started sv" "sv_threadPool sv = EventLoopThreadPool_new l" "sv_loop sv = l" "sv_acceptor sv = a"
    and ac: "acceptors w a = Some ac" "\<not> ac_listenning ac" "ac_loop ac = l" "ac_channel ac = p"
    and ch: "chans w p = Some ch" "ch_events ch = 0" "\<not> ch_registered ch" "\<not> ch_enableet ch" "ch_loop ch = l"
    and lp: "loops w l = Some lp" "el_threadId lp = cur" "ep_channels (el_epoller lp) (ch_fd ch) = None" and os: "epoll_ctl_ok os"
  shows "\<exists>r1 r2. TcpServer_start os cur s w = Inr (w\<lparr>
    trace := trace w @ [(Sys_epoll_add (ep_epfd (el_epoller lp)) (ch_fd ch) kReadEvent, r1), (Sys_listen (ac_sockfd ac), r2)],
    chans := (chans w)(p \<mapsto> listening ch), loops := (loops w)(l \<mapsto> set_channel (ch_fd ch) (Some p) lp),
    acceptors := (acceptors w)(a \<mapsto> ac\<lparr>ac_listenning := True\<rparr>),
    servers := (servers w)(s \<mapsto> sv\<lparr>sv_started := True, sv_threadPool := (EventLoopThreadPool_new l)\<lparr>tp_started := True\<rparr>\<rparr>)\<rparr>)"
proof -
  let ?tp = "(EventLoopThreadPool_new l)\<lparr>tp_started := True\<rparr>"
  let ?w1 = "w\<lparr>servers := (servers w)(s \<mapsto> sv\<lparr>sv_started := True, sv_threadPool := ?tp\<rparr>)\<rparr>"
  have thr: "assertInLoopThread cur l v = Inr ()" if "loops v = loops w" for v :: "'a net_scheme"
    using that lp by (simp add: assertInLoopThread_def isInLoopThread_def)
  have pool: "Pool_start os cur (sv_threadPool sv) w = Inr (?tp, w)"
    using sv(3) thr [of w] by (simp add: Pool_start_def EventLoopThreadPool_new_def)
  have up: "upd_server (\<lambda>sv. sv\<lparr>sv_started := True, sv_threadPool := ?tp\<rparr>) s w = ?w1"
    using sv(1) by (cases w) (simp add: upd_server_def upd_def)
  have w1: "chans ?w1 p = Some ch" "loops ?w1 (ch_loop ch) = Some lp" using ch lp by simp_all
  let ?add = "Sys_epoll_add (ep_epfd (el_epoller lp)) (ch_fd ch) kReadEvent"
  let ?w2 = "upd_chan listening p (upd_loop (set_channel (ch_fd ch) (Some p)) l ?w1)"
  obtain r where en: "enableReading os cur p ?w1 = Inr (?w2\<lparr>trace := trace w @ [(?add, r)]\<rparr>)"
    using enableReading_new [OF w1(1) ch(2,3) w1(2) lp(2,3) os] ch(4,5) by (auto simp: read_mask_def)
  let ?w3 = "upd_acceptor (\<lambda>ac. ac\<lparr>ac_listenning := True\<rparr>) a (?w2\<lparr>trace := trace w @ [(?add, r)]\<rparr>)"
  have listen: "Acceptor_listen os cur a ?w1 = Inr (?w3\<lparr>trace := trace ?w3 @ [(Sys_listen (ac_sockfd ac),
      os (trace ?w3) (Sys_listen (ac_sockfd ac)))]\<rparr>)"
    using ac thr [of ?w1] en by (simp add: Acceptor_listen_def listenOrDie_def)
  have run: "TcpServer_start os cur s w = Acceptor_listen os cur a ?w1"
    using sv pool up ac lp by (simp add: TcpServer_start_def runInLoop_in_thread)
  have eq: "?w3\<lparr>trace := trace ?w3 @ [(Sys_listen (ac_sockfd ac), r2)]\<rparr> = w\<lparr>
      trace := trace w @ [(?add, r), (Sys_listen (ac_sockfd ac), r2)],
      chans := (chans w)(p \<mapsto> listening ch), loops := (loops w)(l \<mapsto> set_channel (ch_fd ch) (Some p) lp),
      acceptors := (acceptors w)(a \<mapsto> ac\<lparr>ac_listenning := True\<rparr>),
      servers := (servers w)(s \<mapsto> sv\<lparr>sv_started := True, sv_threadPool := ?tp\<rparr>)\<rparr>" for r2
    using ac(1) ch(1) lp(1) by (cases w) (simp add: upd_acceptor_def upd_chan_def upd_loop_def upd_def)
  show ?thesis by (intro exI, rule trans [OF run], rule trans [OF listen], simp only: eq)
qed

text \<open>The objects that the constructors of the server and its acceptor make.\<close>

definition listen_channel :: "ptr \<Rightarrow> int \<Rightarrow> ptr \<Rightarrow> channel" where
  "listen_channel l fd a = (Channel_init l fd False)\<lparr>ch_readCallback := Some (Acceptor_handleRead_cb a)\<rparr>"

definition fresh_acceptor :: "ptr \<Rightarrow> int \<Rightarrow> ptr \<Rightarrow> ptr \<Rightarrow> acceptor" where
  "fresh_acceptor l fd p s = \<lparr>ac_loop = l, ac_sockfd = fd, ac_channel = p, ac_newConnectionCallback = Some s, ac_listenning = False\<rparr>"

definition fresh_server :: "ptr \<Rightarrow> string \<Rightarrow> ptr \<Rightarrow> tcpServer" where
  "fresh_server l name a = \<lparr>sv_loop = l, sv_started = False, sv_nextConnfd = 1, sv_name = name, sv_acceptor = a,
     sv_threadPool = EventLoopThreadPool_new l, sv_connectionCallback = Some 0, sv_messageCallback = Some 1,
     sv_connections = (\<lambda>_. None)\<rparr>"

lemma EchoServer_new_state:
  "\<exists>r r1 r2. r = os (trace w) Sys_socket \<and> EchoServer_new ntop os l addr w = (nextptr w + 2, w\<lparr>
     trace := trace w @ [(Sys_socket, r), (Sys_setsockopt_reuseaddr (sr_ret r) 1, r1), (Sys_bind (sr_ret r) addr, r2)],
     nextptr := nextptr w + 3, chans := (chans w)(nextptr w \<mapsto> listen_channel l (sr_ret r) (nextptr w + 1)),
     acceptors := (acceptors w)(nextptr w + 1 \<mapsto> fresh_acceptor l (sr_ret r) (nextptr w) (nextptr w + 2)),
     servers := (servers w)(nextptr w + 2 \<mapsto> fresh_server l (InetAddress_toHostPort ntop addr) (nextptr w + 1))\<rparr>)"
  by (cases w) (simp add: EchoServer_new_def TcpServer_new_def Acceptor_new_def createNonblockingOrDie_def Channel_new_def Let_def
    setReuseAddr_def bindAddress_def bindOrDie_def upd_chan_def upd_def Acceptor_setNewConnectionCallBack_def upd_acceptor_def
    TcpServer_setMessageCallBack_def TcpServer_setConnectionCallBack_def upd_server_def listen_channel_def fresh_acceptor_def fresh_server_def)

text \<open>A process that has made no objects and no system calls.\<close>

definition at_start :: "tid \<Rightarrow> 'z net_scheme \<Rightarrow> bool" where
  "at_start cur w \<longleftrightarrow> trace w = [] \<and> chans w = (\<lambda>_. None) \<and> loops w = (\<lambda>_. None) \<and> conns w = (\<lambda>_. None) \<and>
     thisThreadEventLoop w cur = None"

lemma three_channels:
  assumes ch: "chans w = [p1 \<mapsto> ch1, p2 \<mapsto> ch2, p3 \<mapsto> ch3]" "p1 \<noteq> p2" "p1 \<noteq> p3" "p2 \<noteq> p3"
    and reg: "ch_registered ch1" "ch_registered ch2" "ch_registered ch3" "ch_loop ch1 = l" "ch_loop ch2 = l" "ch_loop ch3 = l"
    and fd: "ch_fd ch1 \<noteq> ch_fd ch2" "ch_fd ch1 \<noteq> ch_fd ch3" "ch_fd ch2 \<noteq> ch_fd ch3"
    and lp: "loops w = [l \<mapsto> lp]" "ep_channels (el_epoller lp) = [ch_fd ch1 \<mapsto> p1, ch_fd ch2 \<mapsto> p2, ch_fd ch3 \<mapsto> p3]"
  shows "epoll_inv w"
  unfolding epoll_inv_def
proof (intro allI)
  fix l' fd c
  have "ep_lookup w l' fd = (if l' = l then [ch_fd ch1 \<mapsto> p1, ch_fd ch2 \<mapsto> p2, ch_fd ch3 \<mapsto> p3] fd else None)"
    using lp by (simp add: ep_lookup_def)
  moreover have "chan_reg w c = [p1 \<mapsto> (ch_fd ch1, l, True), p2 \<mapsto> (ch_fd ch2, l, True), p3 \<mapsto> (ch_fd ch3, l, True)] c"
    using ch reg by (simp add: chan_reg_def)
  ultimately show "ep_lookup w l' fd = Some c \<longleftrightarrow> chan_reg w c = Some (fd, l', True)" using ch(2-4) fd by auto
qed

lemma new_fds_fresh:
  assumes "fresh_fds os" "new_fds os h = (efd, epfd, tfd)"
  shows "0 \<le> efd" "0 \<le> tfd" "tfd \<noteq> efd"
proof -
  let ?h1 = "h @ [(Sys_eventfd, os h Sys_eventfd)]"
  let ?h2 = "?h1 @ [(Sys_epoll_create, os ?h1 Sys_epoll_create)]"
  have fds: "efd = sr_ret (os h Sys_eventfd)" "tfd = sr_ret (os ?h2 Sys_timerfd_create)" using assms(2) by (auto simp: new_fds_def Let_def)
  show pos: "0 \<le> efd" "0 \<le> tfd" using assms(1) by (simp_all add: fds fresh_fds_def)
  have "makes_fd Sys_timerfd_create" by simp
  then have "tfd \<notin> made_fds ?h2" using assms(1) unfolding fds(2) fresh_fds_def by blast
  then show "tfd \<noteq> efd" using pos(1) by (auto simp: fds(1))
qed

lemma new_channel_revents: "ch_revents (new_channel l fd cb) = 0"
  by (simp add: new_channel_def listening_def Channel_init_def set_registered_def set_events_def)

text \<open>Both programs do this before they call \<^verbatim>\<open>loop()\<close>, with their listening address.\<close>

definition server_main :: "(32 word \<Rightarrow> string) \<Rightarrow> kernel \<Rightarrow> tid \<Rightarrow> sockaddr_in \<Rightarrow> 'z net_scheme \<Rightarrow> (ptr \<times> 'z net_scheme) res" where
  "server_main ntop os cur addr w =
     bindR (EventLoop_new os cur w) (\<lambda>(l, w1).
     case EchoServer_new ntop os l addr w1 of (s, w2) \<Rightarrow>
     bindR (EchoServer_start os cur s w2) (\<lambda>w3. Inr (l, w3)))"

lemma mains:
  "echo_main ntop os cur w = server_main ntop os cur (InetAddress_port 9981) w"
  "threads \<le> 1 \<Longrightarrow> pingpong_server_main ntop pton os cur ip port threads w =
    server_main ntop os cur (InetAddress_ip pton ip (word_of_int port)) w"
  by (simp_all add: echo_main_def pingpong_server_main_def server_main_def EchoServer_new_def EchoServer_start_def Let_def split_def)

lemma server_main_serves:
  assumes w: "at_start cur w" and os: "epoll_ctl_ok os" "fresh_fds os"
  shows "\<exists>l a s w'. server_main ntop os cur addr w = Inr (l, w') \<and> serving cur l a s m w'"
proof -
  let ?l = "nextptr w"
  obtain efd epfd tfd where new: "new_fds os (trace w) = (efd, epfd, tfd)" using prod_cases3 by blast
  note pos = new_fds_fresh [OF os(2) new]
  let ?lp = "new_loop cur (efd, epfd, tfd) ?l" and ?ch1 = "new_channel ?l tfd (TimerQueue_handleRead_cb ?l)"
    and ?ch2 = "new_channel ?l efd (EventLoop_handleRead_cb ?l)"
  obtain h where h: "new_calls (efd, epfd, tfd) h" and loop: "EventLoop_new os cur w = Inr (?l, w\<lparr>trace := h, nextptr := ?l + 3,
      loops := [?l \<mapsto> ?lp], chans := [?l + 1 \<mapsto> ?ch1, ?l + 2 \<mapsto> ?ch2],
      thisThreadEventLoop := (thisThreadEventLoop w)(cur \<mapsto> ?l)\<rparr>)" (is "_ = Inr (_, ?w1)")
    using EventLoop_new_state [OF new pos(1,3) os(1), of cur] w by (auto simp: at_start_def)
  have pr: "trace ?w1 = h" "nextptr ?w1 = ?l + 3" "chans ?w1 = [?l + 1 \<mapsto> ?ch1, ?l + 2 \<mapsto> ?ch2]" "acceptors ?w1 = acceptors w"
    "servers ?w1 = servers w" "?l + 3 + 1 = ?l + 4" "?l + 3 + 2 = ?l + 5" "?l + 3 + 3 = ?l + 6" by simp_all
  obtain lfd r r1 r2 where r: "sr_ret r = lfd" "r = os h Sys_socket"
    and srv: "EchoServer_new ntop os ?l addr ?w1 = (?l + 5, ?w1\<lparr>
      trace := h @ [(Sys_socket, r), (Sys_setsockopt_reuseaddr lfd 1, r1), (Sys_bind lfd addr, r2)], nextptr := ?l + 6,
      chans := [?l + 1 \<mapsto> ?ch1, ?l + 2 \<mapsto> ?ch2, ?l + 3 \<mapsto> listen_channel ?l lfd (?l + 4)],
      acceptors := (acceptors w)(?l + 4 \<mapsto> fresh_acceptor ?l lfd (?l + 3) (?l + 5)),
      servers := (servers w)(?l + 5 \<mapsto> fresh_server ?l (InetAddress_toHostPort ntop addr) (?l + 4))\<rparr>)" (is "_ = (_, ?w2)")
    using EchoServer_new_state [of os ?w1 ntop ?l addr, unfolded pr] by blast
  have made: "efd \<in> made_fds h" "tfd \<in> made_fds h" "watched_fds h = {tfd, efd}" "accepted_fds h = []" "unused fd h" for fd
    using h pos by (auto simp: new_calls_def unused_def written_def was_shut_def)
  have "makes_fd Sys_socket" by simp
  then have lfd: "0 \<le> lfd" "lfd \<noteq> efd" "lfd \<noteq> tfd"
    using os(2) made(1,2) unfolding r(1) [symmetric] r(2) fresh_fds_def by metis+
  let ?sv = "fresh_server ?l (InetAddress_toHostPort ntop addr) (?l + 4)" and ?ac = "fresh_acceptor ?l lfd (?l + 3) (?l + 5)"
    and ?lc = "listen_channel ?l lfd (?l + 4)"
  have parts: "servers ?w2 (?l + 5) = Some ?sv" "\<not> sv_started ?sv" "sv_threadPool ?sv = EventLoopThreadPool_new ?l" "sv_loop ?sv = ?l"
      "sv_acceptor ?sv = ?l + 4" "acceptors ?w2 (?l + 4) = Some ?ac" "\<not> ac_listenning ?ac" "ac_loop ?ac = ?l" "ac_channel ?ac = ?l + 3"
      "chans ?w2 (?l + 3) = Some ?lc" "ch_events ?lc = 0" "\<not> ch_registered ?lc" "\<not> ch_enableet ?lc" "ch_loop ?lc = ?l"
      "loops ?w2 ?l = Some ?lp" "el_threadId ?lp = cur" "ep_channels (el_epoller ?lp) (ch_fd ?lc) = None"
    using lfd(2,3) by (simp_all add: fresh_server_def fresh_acceptor_def listen_channel_def Channel_init_def)
  obtain q1 q2 sv' where start: "EchoServer_start os cur (?l + 5) ?w2 = Inr (?w2\<lparr>
      trace := trace ?w2 @ [(Sys_epoll_add (ep_epfd (el_epoller ?lp)) lfd kReadEvent, q1), (Sys_listen lfd, q2)],
      chans := (chans ?w2)(?l + 3 \<mapsto> listening ?lc), loops := (loops ?w2)(?l \<mapsto> set_channel lfd (Some (?l + 3)) ?lp),
      acceptors := (acceptors ?w2)(?l + 4 \<mapsto> ?ac\<lparr>ac_listenning := True\<rparr>),
      servers := (servers ?w2)(?l + 5 \<mapsto> ?sv\<lparr>sv_started := True, sv_threadPool := (EventLoopThreadPool_new ?l)\<lparr>tp_started := True\<rparr>\<rparr>)\<rparr>)"
      (is "_ = Inr ?w3")
    using TcpServer_start_state [OF parts os(1)] by (auto simp: EchoServer_start_def listen_channel_def fresh_acceptor_def Channel_init_def)
  have run: "server_main ntop os cur addr w = Inr (?l, ?w3)" using loop srv start by (simp add: server_main_def)
  have f: "conns ?w3 = (\<lambda>_. None)" "nextptr ?w3 = ?l + 6" "loops ?w3 = [?l \<mapsto> set_channel lfd (Some (?l + 3)) ?lp]"
      "chans ?w3 = [?l + 1 \<mapsto> ?ch1, ?l + 2 \<mapsto> ?ch2, ?l + 3 \<mapsto> listening ?lc]"
    using w by (simp_all add: at_start_def)
  have lc: "ch_fd (listening ?lc) = lfd" "ch_loop (listening ?lc) = ?l" "ch_registered (listening ?lc)" "ch_revents (listening ?lc) = 0"
      "ch_readCallback (listening ?lc) = Some (Acceptor_handleRead_cb (?l + 4))" "ch_writeCallback (listening ?lc) = None"
    by (simp_all add: listening_def listen_channel_def Channel_init_def set_registered_def set_events_def)
  define g where "g = [(Sys_socket, r), (Sys_setsockopt_reuseaddr lfd 1, r1), (Sys_bind lfd addr, r2),
      (Sys_epoll_add (ep_epfd (el_epoller ?lp)) lfd kReadEvent, q1), (Sys_listen lfd, q2)]"
  have g: "trace ?w3 = h @ g" "made_fds g = {lfd}" "watched_fds g = {lfd}" "accepted_fds g = []" "unused fd g" for fd
    using r(1) lfd(1) by (simp_all add: g_def unused_def written_def was_shut_def)
  have inv: "epoll_inv ?w3"
    by (rule three_channels [OF f(4) _ _ _ _ _ _ _ _ _ _ _ _ f(3)]) (use lfd pos(3) lc in simp_all)
  have "serving cur ?l (?l + 4) (?l + 5) m ?w3"
  proof (rule servingI [OF inv])
    show "server_ready ?l (?l + 4) (?l + 5) ?w3"
      by (simp add: server_ready_def fresh_acceptor_def fresh_server_def EventLoopThreadPool_new_def)
    show "calls_ok ?w3" using made(4,5) g by (simp add: calls_ok_def)
    show "chans_ok ?l (?l + 4) ?w3"
      using lc by (auto simp: chans_ok_def f(2,4) own_channel_def io_masks_def new_channel_revents split: if_splits)
    show "loops ?w3 ?l = Some (set_channel lfd (Some (?l + 3)) ?lp)" unfolding f(3) by simp
    show "loop_serves cur (set_channel lfd (Some (?l + 3)) ?lp) (trace ?w3)"
      unfolding g(1) using made g(2,3) by (auto simp: loop_serves_def set_channel_def)
    show "c < nextptr ?w3 \<and> client cur ?l m ?w3 c" if "conns ?w3 c = Some tc" for c tc using that unfolding f(1) by simp
  qed
  with run show ?thesis by blast
qed

section \<open>The programs\<close>

interpretation echo_app: sending_back echo_callbacks
proof unfold_locales
  fix rnd os cur f c and w :: "'a net_scheme"
  assume "conns w c \<noteq> None"
  then show "\<exists>h. on_connection (echo_callbacks rnd os cur) f c w = Inr (w\<lparr>trace := trace w @ h\<rparr>) \<and> plain_calls h \<and> (\<forall>fd. unused fd h)"
    by (intro exI [of _ "[]"]) (auto simp: echo_callbacks_def EchoServer_onConnection_def)
qed (simp add: echo_callbacks_def)

interpretation pingpong_app: sending_back pingpong_server_callbacks
proof unfold_locales
  fix rnd os cur f c and w :: "'a net_scheme"
  assume "conns w c \<noteq> None"
  then obtain tc where tc: "conns w c = Some tc" by auto
  let ?q = "Sys_setsockopt_nodelay (tc_sockfd tc) 1"
  show "\<exists>h. on_connection (pingpong_server_callbacks rnd os cur) f c w = Inr (w\<lparr>trace := trace w @ h\<rparr>) \<and> plain_calls h \<and> (\<forall>fd. unused fd h)"
    using tc by (intro exI [of _ "[(?q, os (trace w) ?q)]"]) (simp add: pingpong_server_callbacks_def pingpong_onConnection_def
      TcpConnection_setTcpNoDelay_def Socket_setTcpNoDelay_def plain_calls_def unused_def)
qed (simp add: pingpong_server_callbacks_def pingpong_onMessage_eq)

text \<open>(C1) The echo server works, from its \<^verbatim>\<open>main\<close> on: for every kernel that keeps the laws of \<open>Server_State\<close>, \<^verbatim>\<open>main\<close>
  reaches the loop, and any number of iterations of the loop succeed, however many clients connect and in whatever
  order their events come, as long as there is room for what they send. After them every descriptor that was
  accepted belongs to an established connection whose bytes written, followed by those waiting in its output
  buffer, are exactly the bytes received from that client, in order.\<close>

theorem echo_server_serves:
  assumes "at_start cur w" and os: "server_kernel n k os" and "j * (n * k) + 1032 \<le> vector_max"
  shows "\<exists>l w0 w'. echo_main ntop os cur w = Inr (l, w0) \<and>
    iterate j (program_iteration garbage ntop rnd (echo_callbacks rnd os cur) (\<lambda>_. Inr) os cur l) w0 = Inr w' \<and>
    (\<forall>fd \<in> set (accepted_fds (trace w')). echoed w' fd)"
proof -
  have "epoll_ctl_ok os" "fresh_fds os" "room_for (j * (n * k))" using assms by (simp_all add: server_kernel_def room_for_def)
  from server_main_serves [OF assms(1) this(1,2)] echo_app.serves_clients [OF _ os this(3)] show ?thesis
    unfolding mains(1) by blast
qed

text \<open>The same holds of the ping-pong server with at most one thread; with more, its first connection ends it
  (\<open>io_threads_abort\<close>).\<close>

theorem pingpong_server_serves:
  assumes "at_start cur w" and os: "server_kernel n k os" and "j * (n * k) + 1032 \<le> vector_max" and threads: "threads \<le> 1"
  shows "\<exists>l w0 w'. pingpong_server_main ntop pton os cur ip port threads w = Inr (l, w0) \<and>
    iterate j (program_iteration garbage ntop rnd (pingpong_server_callbacks rnd os cur) (\<lambda>_. Inr) os cur l) w0 = Inr w' \<and>
    (\<forall>fd \<in> set (accepted_fds (trace w')). echoed w' fd)"
proof -
  have "epoll_ctl_ok os" "fresh_fds os" "room_for (j * (n * k))" using assms by (simp_all add: server_kernel_def room_for_def)
  from server_main_serves [OF assms(1) this(1,2)] pingpong_app.serves_clients [OF _ os this(3)] show ?thesis
    unfolding mains(2) [OF threads] by blast
qed

text \<open>A kernel that numbers descriptors upwards, reports the descriptor registered last as readable and writable, and
  delivers three bytes at a time; a process that has just been started.\<close>

definition next_fd :: "history \<Rightarrow> int" where
  "next_fd h = 1 + foldr (\<lambda>x n. max (sr_ret (snd x)) n) h 2"

fun last_watched :: "history \<Rightarrow> int option" where
  "last_watched [] = None"
| "last_watched (x # h) = (case last_watched h of Some fd \<Rightarrow> Some fd
     | None \<Rightarrow> (case fst x of Sys_epoll_add e fd ev \<Rightarrow> Some fd | _ \<Rightarrow> None))"

definition serving_kernel :: kernel where
  "serving_kernel h c = (case c of
       Sys_epoll_wait e sz t \<Rightarrow> (case last_watched h of None \<Rightarrow> answer 0 []
         | Some fd \<Rightarrow> if 0 < sz then answer 1 [(fd, EPOLLIN OR EPOLLOUT)] else answer 0 [])
     | Sys_readv _ _ \<Rightarrow> (answer 3 [])\<lparr>sr_data := ''abc''\<rparr>
     | Sys_write _ d \<Rightarrow> answer (int (length d)) []
     | _ \<Rightarrow> if makes_fd c then answer (next_fd h) [] else answer 0 [])"

definition start_net :: net where
  "start_net = \<lparr>trace = [], chans = (\<lambda>_. None), loops = (\<lambda>_. None), timers = (\<lambda>_. None), nextptr = 0, numCreated = 0,
     thisThreadEventLoop = (\<lambda>_. None), conns = (\<lambda>_. None), acceptors = (\<lambda>_. None), connectors = (\<lambda>_. None),
     servers = (\<lambda>_. None), clients = (\<lambda>_. None), elthreads = (\<lambda>_. None)\<rparr>"

lemma next_fd_fresh: "next_fd h \<notin> made_fds h" "0 \<le> next_fd h"
proof -
  have "\<forall>x \<in> set h. sr_ret (snd x) < next_fd h" by (induction h) (auto simp: next_fd_def)
  then show "next_fd h \<notin> made_fds h" by (fastforce simp: made_fds_def)
  have "2 < next_fd h" by (induction h) (auto simp: next_fd_def)
  then show "0 \<le> next_fd h" by simp
qed

lemma last_watched_in: "last_watched h = Some fd \<Longrightarrow> fd \<in> watched_fds h"
proof (induction h)
  case (Cons x h)
  then show ?case by (cases x; cases "fst x") (auto split: option.splits)
qed simp

lemma serving_kernel_ok: "server_kernel 1 3 serving_kernel"
proof -
  have make: "sr_ret (serving_kernel h c) = next_fd h" if "makes_fd c" for h c
    using that by (cases c) (simp_all add: serving_kernel_def answer_def)
  have "fresh_fds serving_kernel" using next_fd_fresh by (simp add: fresh_fds_def make)
  moreover have "reports_io 1 serving_kernel"
    by (auto simp: reports_io_def serving_kernel_def answer_def io_masks_def last_watched_in Let_def split: option.splits)
  moreover have "epoll_ctl_ok serving_kernel" "read_ok 3 serving_kernel" "write_ok serving_kernel"
    by (simp_all add: epoll_ctl_ok_def read_ok_def write_ok_def serving_kernel_def answer_def)
  ultimately show ?thesis by (simp add: server_kernel_def)
qed

theorem echo_server_serves_witness:
  "\<exists>l w0 w'. echo_main (\<lambda>_. []) serving_kernel 7 start_net = Inr (l, w0) \<and>
     iterate 4 (program_iteration no_addr (\<lambda>_. []) (\<lambda>x. x) (echo_callbacks (\<lambda>x. x) serving_kernel 7) (\<lambda>_. Inr) serving_kernel 7 l) w0 = Inr w' \<and>
     (\<forall>fd \<in> set (accepted_fds (trace w')). echoed w' fd)"
proof -
  have "at_start 7 start_net" "4 * (1 * 3) + 1032 \<le> vector_max" by (simp_all add: at_start_def start_net_def vector_max_def)
  from echo_server_serves [OF this(1) serving_kernel_ok this(2)] show ?thesis .
qed

end
