(* ===== verification/Timer_Program.thy ===== *)
theory Timer_Program
  imports Loop_Programs
begin

text \<open>
  The program src/example/Timer_test.cc, which means to find out how many periodic timers a loop can serve in
  time: a one-shot timer calls \<^verbatim>\<open>addTimer\<close>, which adds a hundred thousand periodic timers if it is on time and
  otherwise reports their number and quits. Floating-point literals are rounded by \<open>rnd\<close>.
\<close>

record timer_program = net +
  tp_launchTime :: "timestamp option"
  tp_numoftimer :: int

definition tp_interval :: "(rat \<Rightarrow> rat) \<Rightarrow> rat" where
  "tp_interval rnd = rnd (1 / 10000)"

definition tp_diff :: "(rat \<Rightarrow> rat) \<Rightarrow> rat" where
  "tp_diff rnd = rnd (1 / 1000)"

text \<open>\<^verbatim>\<open>launchTime\<close> is a static variable of the function: it is initialised by the first call. The task number 1 stands
  for \<^verbatim>\<open>timeout\<close>, which does nothing, and 0 for \<^verbatim>\<open>addTimer\<close>.\<close>

definition tp_runEvery :: "(rat \<Rightarrow> rat) \<Rightarrow> kernel \<Rightarrow> tid \<Rightarrow> ptr \<Rightarrow> 'z timer_program_scheme \<Rightarrow> 'z timer_program_scheme res" where
  "tp_runEvery rnd os cur l w = bindR (runEvery rnd os cur l (tp_interval rnd) (UserTask 1) w) (\<lambda>(_, w1). Inr w1)"

definition tp_launch :: "(rat \<Rightarrow> rat) \<Rightarrow> kernel \<Rightarrow> 'z timer_program_scheme \<Rightarrow> timestamp \<times> 'z timer_program_scheme" where
  "tp_launch rnd os w =
     (case (case tp_launchTime w of None \<Rightarrow> Timestamp_now os w | Some t \<Rightarrow> (t, w)) of (t, w1) \<Rightarrow>
      let t' = addTime rnd t (tp_interval rnd) in (t', w1\<lparr>tp_launchTime := Some t'\<rparr>))"

definition tp_addTimer :: "(rat \<Rightarrow> rat) \<Rightarrow> kernel \<Rightarrow> tid \<Rightarrow> ptr \<Rightarrow> 'z timer_program_scheme \<Rightarrow> 'z timer_program_scheme res" where
  "tp_addTimer rnd os cur l w =
     (case tp_launch rnd os w of (launch, w1) \<Rightarrow>
      case Timestamp_now os w1 of (now, w2) \<Rightarrow>
      if of_int (microSecondsSinceEpoch now - microSecondsSinceEpoch launch) \<le> tp_diff rnd
      then bindR (iterate 100000 (tp_runEvery rnd os cur l) w2) (\<lambda>w3. Inr (w3\<lparr>tp_numoftimer := tp_numoftimer w3 + 100000\<rparr>))
      else EventLoop_quit os cur l w2)"

definition tp_task :: "(rat \<Rightarrow> rat) \<Rightarrow> kernel \<Rightarrow> tid \<Rightarrow> ptr \<Rightarrow> nat \<Rightarrow> 'z timer_program_scheme \<Rightarrow> 'z timer_program_scheme res" where
  "tp_task rnd os cur l n = (if n = 0 then tp_addTimer rnd os cur l else Inr)"

definition tp_main :: "(rat \<Rightarrow> rat) \<Rightarrow> kernel \<Rightarrow> tid \<Rightarrow> 'z timer_program_scheme \<Rightarrow> (ptr \<times> 'z timer_program_scheme) res" where
  "tp_main rnd os cur w =
     bindR (EventLoop_new os cur w) (\<lambda>(l, w1).
     bindR (runAfter rnd os cur l (tp_interval rnd) (UserTask 0) w1) (\<lambda>(_, w2). Inr (l, w2)))"

text \<open>A loop in its own thread whose timers are in order and older than the next object.\<close>

definition tp_ready :: "tid \<Rightarrow> ptr \<Rightarrow> 'z reactor_scheme \<Rightarrow> bool" where
  "tp_ready cur l w \<longleftrightarrow> tq_inv l w \<and> (\<forall>p \<in> snd ` set (tq_list l w). p < nextptr w) \<and>
     (\<exists>lp. loops w l = Some lp \<and> el_threadId lp = cur \<and> \<not> el_quit lp)"

lemma addTimerInLoop_state:
  assumes "tq_inv l w" "loops w l = Some lp" "el_threadId lp = cur" "timers w t = Some ti" "t \<notin> snd ` set (tq_list l w)"
  shows "\<exists>h. addTimerInLoop os cur l t w =
    Inr ((upd_loop (set_timerlist (insort (ti_expiration ti, t) (tq_list l w))) l w)\<lparr>trace := h\<rparr>)"
proof -
  let ?w1 = "upd_loop (set_timerlist (insort (ti_expiration ti, t) (tq_list l w))) l w"
  have "addTimerInLoop os cur l t w =
      (if tq_list l w = [] \<or> ti_expiration ti < fst (hd (tq_list l w))
       then Inr (resetTimerfd os (tq_timerfd (el_timerqueue lp)) (ti_expiration ti) ?w1) else Inr ?w1)"
    using TimerQueue_insert_ok [OF assms(1,4,5)] assms(2-4) by (simp add: addTimerInLoop_def assertInLoopThread_def isInLoopThread_def)
  moreover obtain h where "resetTimerfd os (tq_timerfd (el_timerqueue lp)) (ti_expiration ti) ?w1 = ?w1\<lparr>trace := h\<rparr>"
    using resetTimerfd_state(1) by blast
  moreover have "?w1 = ?w1\<lparr>trace := trace ?w1\<rparr>" by simp
  ultimately show ?thesis by metis
qed

lemma runEvery_ready:
  assumes r: "tp_ready cur l w" and p: "nextptr w < UINTPTR_MAX"
  shows "\<exists>id w'. runEvery rnd os cur l i cb w = Inr (id, w') \<and> tp_ready cur l w' \<and> nextptr w' = nextptr w + 1 \<and>
    length (tq_list l w') = length (tq_list l w) + 1 \<and> reactor.more w' = reactor.more w"
proof -
  obtain lp where lp: "loops w l = Some lp" "el_threadId lp = cur" "\<not> el_quit lp" and inv: "tq_inv l w"
    and old: "\<And>p. p \<in> snd ` set (tq_list l w) \<Longrightarrow> p < nextptr w"
    using r by (auto simp: tp_ready_def)
  obtain h now where now: "Timestamp_now os w = (now, w\<lparr>trace := h\<rparr>)" by (simp add: Timestamp_now_def)
  let ?e = "addTime rnd now i"
  obtain t w1 ti where new: "Timer_new cb ?e i (w\<lparr>trace := h\<rparr>) = (t, w1)" "t = nextptr w" "nextptr w1 = nextptr w + 1"
    "timers w1 = (timers w)(t \<mapsto> ti)" "ti_expiration ti = ?e" "loops w1 = loops w" "reactor.more w1 = reactor.more w"
    by (simp add: Timer_new_def split: prod.splits)
  have list1: "tq_list l w1 = tq_list l w" using new(6) by (simp add: tq_list_def)
  have t: "t \<notin> snd ` set (tq_list l w)" "t < UINTPTR_MAX" using old [of t] new(2) p by auto
  have inv1: "tq_inv l w1"
    using inv timers_ok_other [OF _ t(1), of "timers w" "Some ti"] new(4,6) list1 by (simp add: tq_inv_def)
  have t1: "timers w1 t = Some ti" "t \<notin> snd ` set (tq_list l w1)" "loops w1 l = Some lp" using new t(1) lp(1) list1 by simp_all
  obtain h' where add: "addTimerInLoop os cur l t w1 =
      Inr ((upd_loop (set_timerlist (insort (?e, t) (tq_list l w1))) l w1)\<lparr>trace := h'\<rparr>)"
    using addTimerInLoop_state [OF inv1 t1(3) lp(2) t1(1,2), of os] new(5) by auto
  let ?w2 = "(upd_loop (set_timerlist (insort (?e, t) (tq_list l w1))) l w1)\<lparr>trace := h'\<rparr>"
  have l2: "tq_list l ?w2 = insort (?e, t) (tq_list l w)" "loops ?w2 l = Some (set_timerlist (insort (?e, t) (tq_list l w)) lp)"
    using t1(3) list1 by (simp_all add: tq_list_def)
  have "tq_inv l ?w2" using tq_inv_insert [OF inv1 t1(1,2) t(2)] new(5) by simp
  moreover have "p < nextptr ?w2" if "p \<in> snd ` set (tq_list l ?w2)" for p
  proof -
    have "p = t \<or> p \<in> snd ` set (tq_list l w)" using that unfolding l2(1) by (force simp: set_insort_key)
    then show ?thesis using old [of p] new(2,3) by (elim disjE) (simp_all add: less_Suc_eq)
  qed
  moreover have "\<exists>lp. loops ?w2 l = Some lp \<and> el_threadId lp = cur \<and> \<not> el_quit lp" using t1(3) lp by simp
  ultimately have "tp_ready cur l ?w2" unfolding tp_ready_def by blast
  moreover have "runEvery rnd os cur l i cb w = Inr ((t, ti_sequence ti), ?w2)"
    using now new(1) add t1 lp(2) by (simp add: runEvery_def addTimer_def runInLoop_def isInLoopThread_def)
  moreover have "reactor.more ?w2 = reactor.more w" "nextptr ?w2 = nextptr w + 1" using new(3,7) by simp_all
  ultimately show ?thesis using l2(1) by (intro exI [of _ "(t, ti_sequence ti)"] exI [of _ ?w2]) simp
qed

lemma runEvery_many:
  assumes "tp_ready cur l w" and "nextptr w + n < UINTPTR_MAX"
  shows "\<exists>w'. iterate n (tp_runEvery rnd os cur l) w = Inr w' \<and> tp_ready cur l w' \<and>
    length (tq_list l w') = length (tq_list l w) + n \<and> reactor.more w' = reactor.more w"
  using assms
proof (induction n arbitrary: w)
  case (Suc n)
  obtain w1 where w1: "tp_runEvery rnd os cur l w = Inr w1" "tp_ready cur l w1" "nextptr w1 = nextptr w + 1"
    "length (tq_list l w1) = length (tq_list l w) + 1" "reactor.more w1 = reactor.more w"
    using runEvery_ready [OF Suc.prems(1), of rnd os "tp_interval rnd" "UserTask 1"] Suc.prems(2) by (auto simp: tp_runEvery_def)
  with Suc.IH [OF w1(2)] Suc.prems(2) show ?case by auto
qed auto

text \<open>Whether the call of \<^verbatim>\<open>addTimer\<close> is on time: the times are in microseconds, so any delay counts.\<close>

definition on_time :: "(rat \<Rightarrow> rat) \<Rightarrow> kernel \<Rightarrow> 'z timer_program_scheme \<Rightarrow> bool" where
  "on_time rnd os w = (case tp_launch rnd os w of (launch, w1) \<Rightarrow>
     of_int (microSecondsSinceEpoch (fst (Timestamp_now os w1)) - microSecondsSinceEpoch launch) \<le> tp_diff rnd)"

lemma tp_launch_state:
  "\<exists>h. snd (Timestamp_now os (snd (tp_launch rnd os w))) = w\<lparr>trace := h, tp_launchTime := Some (fst (tp_launch rnd os w))\<rparr>"
proof (cases "tp_launchTime w")
  case (Some t)
  then show ?thesis by (cases w) (simp add: tp_launch_def Timestamp_now_def Let_def)
next
  case None
  then show ?thesis by (cases w) (simp add: tp_launch_def Timestamp_now_def Let_def)
qed

lemma timer_program_fields:
  "tq_list l (w\<lparr>trace := h, tp_launchTime := x\<rparr>) = tq_list l w" "tp_ready cur l (w\<lparr>trace := h, tp_launchTime := x\<rparr>) = tp_ready cur l w"
  "tq_list l (w\<lparr>tp_numoftimer := n\<rparr>) = tq_list l w" "tq_list l (upd_loop (set_quit True) l w) = tq_list l w"
  by (simp_all add: tq_list_def tp_ready_def tq_inv_def set_quit_def split: option.split)

lemma timeouts_do_nothing [simp]: "foldR (tp_task rnd os cur l) (replicate k (Suc 0)) w = Inr w"
  by (induction k arbitrary: w) (simp_all add: tp_task_def)

text \<open>The program measures nothing. Its one-shot timer calls \<^verbatim>\<open>addTimer\<close> once; if that call is on time there are a hundred
  thousand timers and nothing ever asks the loop to quit, and if it is late by a microsecond the program
  reports zero timers.\<close>

theorem Timer_test_outcome:
  assumes r: "tp_ready cur l w" and p: "nextptr w + 100000 < UINTPTR_MAX" and n: "tp_numoftimer w = 0"
  shows "\<exists>w' lp'. foldR (tp_task rnd os cur l) (0 # replicate k 1) w = Inr w' \<and> loops w' l = Some lp' \<and>
    (if on_time rnd os w
     then \<not> el_quit lp' \<and> tp_numoftimer w' = 100000 \<and> length (tq_list l w') = length (tq_list l w) + 100000
     else el_quit lp' \<and> tp_numoftimer w' = 0 \<and> tq_list l w' = tq_list l w)"
proof -
  obtain launch w1 where l1: "tp_launch rnd os w = (launch, w1)" by (cases "tp_launch rnd os w")
  obtain now w2 where l2: "Timestamp_now os w1 = (now, w2)" by (cases "Timestamp_now os w1")
  obtain h where w2: "w2 = w\<lparr>trace := h, tp_launchTime := Some launch\<rparr>" using tp_launch_state [of os rnd w] l1 l2 by auto
  have r2: "tp_ready cur l w2" "tq_list l w2 = tq_list l w" "tp_numoftimer w2 = 0" "nextptr w2 + 100000 < UINTPTR_MAX"
    using r p n unfolding w2 timer_program_fields by simp_all
  show ?thesis
  proof (cases "on_time rnd os w")
    case True
    obtain w3 where w3: "iterate 100000 (tp_runEvery rnd os cur l) w2 = Inr w3" "tp_ready cur l w3"
      "length (tq_list l w3) = length (tq_list l w) + 100000" "reactor.more w3 = reactor.more w2"
      using runEvery_many [OF r2(1,4), of rnd os] r2(2) by auto
    have run: "tp_addTimer rnd os cur l w = Inr (w3\<lparr>tp_numoftimer := tp_numoftimer w3 + 100000\<rparr>)"
      using True l1 l2 w3(1) by (simp add: tp_addTimer_def on_time_def del: iterate.simps)
    have "tp_numoftimer w3 = 0" using w3(4) r2(3) by (cases w3; cases w2) simp
    moreover obtain lp where "loops w3 l = Some lp" "\<not> el_quit lp" using w3(2) by (auto simp: tp_ready_def)
    ultimately show ?thesis using run w3(3) True by (simp add: tp_task_def timer_program_fields)
  next
    case False
    obtain lp where lp: "loops w2 l = Some lp" "el_threadId lp = cur" using r2(1) by (auto simp: tp_ready_def)
    have run: "tp_addTimer rnd os cur l w = Inr (upd_loop (set_quit True) l w2)"
      using False l1 l2 quit_in_thread [OF lp] by (simp add: tp_addTimer_def on_time_def)
    have "tp_numoftimer (upd_loop (set_quit True) l w2) = 0" using r2(3) by (simp add: upd_loop_def)
    then show ?thesis using run lp r2(2) False by (simp add: tp_task_def timer_program_fields)
  qed
qed

end
