(* ===== verification/Log_Programs.thy ===== *)
theory Log_Programs
  imports Log_File
begin

text \<open>
  \<^verbatim>\<open>Logger\<close> and an output function together. \<^verbatim>\<open>setOutput\<close> names a function that gets every finished line; the
  contract of such a sink is a locale, interpreted on the sinks of src/logging/LogFile_test.cc (a log file)
  and src/logging/Logging_test.cc (a counter, an open file or a log file). The programs are modelled with
  their loops; what they print about the time they took is left out.
\<close>

section \<open>Statements whose lines go to a sink\<close>

fun deliver_event :: "(octet list \<Rightarrow> 's \<Rightarrow> 's res) \<Rightarrow> ('s \<Rightarrow> 's res) \<Rightarrow> log_event \<Rightarrow> 's \<Rightarrow> 's res" where
  "deliver_event out flush (User_output _ msg) s = out msg s"
| "deliver_event out flush (User_flush _) s = flush s"
| "deliver_event out flush _ s = Inr s"

text \<open>A log statement, and then the calls of the user's functions it has made at its end.\<close>

record log_line =
  ll_kind :: statement
  ll_file :: string
  ll_line :: "32 word"
  ll_items :: "log_item list"
  ll_env :: log_env

definition LOG_to :: "(octet list \<Rightarrow> 's \<Rightarrow> 's res) \<Rightarrow> ('s \<Rightarrow> 's res) \<Rightarrow> log_line \<Rightarrow> logging \<times> 's \<Rightarrow> (logging \<times> 's) res" where
  "LOG_to out flush l = (\<lambda>(st, s).
     bindR (LOG (ll_kind l) (ll_file l) (ll_line l) (ll_items l) (ll_env l) st) (\<lambda>st'.
     bindR (foldR (deliver_event out flush) (drop (length (lg_events st)) (lg_events st')) s) (\<lambda>s'. Inr (st', s'))))"

definition ll_text :: "log_line \<Rightarrow> string" where
  "ll_text l = line_text (ll_env l) (ll_kind l) (ll_items l) (ll_file l) (ll_line l)"

text \<open>A statement that is enabled, does not abort and runs in a documented environment.\<close>

definition ll_ok :: "(int \<Rightarrow> tm) \<Rightarrow> logLevel \<Rightarrow> log_line \<Rightarrow> bool" where
  "ll_ok gm level l \<longleftrightarrow> env_ok (ll_env l) \<and> le_gmtime (ll_env l) = gm \<and>
     items_ok (ll_env l) (ll_kind l) (ll_items l) (ll_file l) \<and> level \<le> statement_level (ll_kind l) \<and>
     statement_level (ll_kind l) \<noteq> FATAL"

definition sends_to :: "nat \<Rightarrow> (int \<Rightarrow> tm) \<Rightarrow> logLevel \<Rightarrow> logging \<Rightarrow> bool" where
  "sends_to f gm level st \<longleftrightarrow> cache_ok gm st \<and> lg_output st = Some f \<and> lg_level st = level"

lemma LOG_to_ok:
  assumes "sends_to f gm level st" "ll_ok gm level l"
  shows "\<exists>st'. sends_to f gm level st' \<and>
    LOG_to out flush l (st, s) = bindR (out (ll_text l) s) (\<lambda>s'. Inr (st', s'))"
proof -
  have env: "clock_ok (ll_env l)" "0 \<le> le_tid (ll_env l)" "le_tid (ll_env l) < 1000000"
    and en: "enabled (ll_kind l) st" and c: "cache_ok (le_gmtime (ll_env l)) st"
    and it: "items_ok (ll_env l) (ll_kind l) (ll_items l) (ll_file l)"
    using assms by (simp_all add: ll_ok_def sends_to_def env_ok_def enabled_def)
  obtain st' where st': "log_statement (log_level_ctor (ll_kind l) (ll_file l) (ll_line l)) (ll_items l) (ll_env l) st = Inr st'"
    "cache_ok (le_gmtime (ll_env l)) st'" "lg_level st' = lg_level st" "lg_output st' = lg_output st"
    "lg_events st' = lg_events st @ emitted st (statement_level (ll_kind l)) (ll_text l)"
    using log_statement_ok [OF env(1) c env(2,3) it] unfolding ll_text_def by blast
  have "emitted st (statement_level (ll_kind l)) (ll_text l) = [User_output f (ll_text l)]"
    using assms by (simp add: emitted_def sends_to_def ll_ok_def)
  then have "LOG_to out flush l (st, s) = bindR (out (ll_text l) s) (\<lambda>s'. Inr (st', s'))"
    using st' en by (simp add: LOG_to_def LOG_eq bindR_assoc)
  moreover have "sends_to f gm level st'" using st' assms by (simp add: sends_to_def ll_ok_def)
  ultimately show ?thesis by blast
qed

text \<open>The contract of an output function: it succeeds, and what can be seen of it changes by \<open>eff\<close>.\<close>

locale log_sink =
  fixes out :: "octet list \<Rightarrow> 's \<Rightarrow> 's res"
    and ok :: "'s \<Rightarrow> bool"
    and view :: "'s \<Rightarrow> 'v"
    and eff :: "octet list \<Rightarrow> 'v \<Rightarrow> 'v"
  assumes out_ok: "ok s \<Longrightarrow> \<exists>s'. out msg s = Inr s' \<and> ok s' \<and> view s' = eff msg (view s)"
begin

lemma lines_reach_sink:
  assumes "sends_to f gm level st" "list_all (ll_ok gm level) ls" "ok s"
  shows "\<exists>st' s'. foldR (LOG_to out flush) ls (st, s) = Inr (st', s') \<and> sends_to f gm level st' \<and> ok s' \<and>
    view s' = fold eff (map ll_text ls) (view s)"
  using assms
proof (induction ls arbitrary: st s)
  case (Cons l ls)
  obtain st1 where st1: "sends_to f gm level st1"
    "LOG_to out flush l (st, s) = bindR (out (ll_text l) s) (\<lambda>s'. Inr (st1, s'))"
    using LOG_to_ok [OF Cons.prems(1), of l out flush s] Cons.prems(2) by auto
  obtain s1 where s1: "out (ll_text l) s = Inr s1" "ok s1" "view s1 = eff (ll_text l) (view s)"
    using out_ok [OF Cons.prems(3)] by blast
  from Cons.IH [OF st1(1) _ s1(2)] Cons.prems(2) st1(2) s1(1,3) show ?case by auto
qed auto

end

lemma fold_append: "fold (\<lambda>m v. v @ m) ms v = v @ concat ms"
  by (induction ms arbitrary: v) simp_all

section \<open>LogFile_test.cc\<close>

definition outputFunc :: "stdio \<Rightarrow> (int \<Rightarrow> tm) \<Rightarrow> octet list \<Rightarrow> logFile \<times> file_history \<Rightarrow> (logFile \<times> file_history) res" where
  "outputFunc io gm msg = LogFile_append io gm msg (int (length msg))"

definition flushFunc :: "stdio \<Rightarrow> logFile \<times> file_history \<Rightarrow> (logFile \<times> file_history) res" where
  "flushFunc io = LogFile_flush io"

definition test_line :: string where
  "test_line = ''1234567890 abcdefghijklmnopqrstuvwxyz ABCDEFGHIJKLMNOPQRSTUVWXYZ''"

text \<open>The environment of the \<open>i\<close>-th statement is \<open>env_of i\<close>. A path of 256 characters or more fills \<^verbatim>\<open>name\<close> without its
  terminating zero. The destructor of the global \<^verbatim>\<open>g_logFile\<close> runs after \<^verbatim>\<open>main\<close>.\<close>

definition test_statement :: "(nat \<Rightarrow> log_env) \<Rightarrow> nat \<Rightarrow> log_line" where
  "test_statement env_of i = \<lparr>ll_kind = Info, ll_file = ''LogFile_test.cc'', ll_line = 28, ll_items = [StdString test_line],
     ll_env = env_of i\<rparr>"

definition LogFile_test_main :: "stdio \<Rightarrow> (int \<Rightarrow> tm) \<Rightarrow> string \<Rightarrow> bool \<Rightarrow> (nat \<Rightarrow> log_env) \<Rightarrow> file_history \<Rightarrow> file_history res" where
  "LogFile_test_main io gm argv0 env_set env_of h =
     (if 256 \<le> length argv0 then Inl OutOfBounds
      else bindR (LogFile_new io gm (basename argv0) (256 * 1024) False 3 h) (\<lambda>s.
        let st = setFlush 0 (setOutput 0 (logging_start env_set)) in
        bindR (foldR (LOG_to (outputFunc io gm) (flushFunc io)) (map (test_statement env_of) [0..<10000]) (st, s)) (\<lambda>(_, lf, h1).
        Inr (LogFile_delete io lf h1))))"

definition file_sink_ok :: "stdio \<Rightarrow> logFile \<times> file_history \<Rightarrow> bool" where
  "file_sink_ok io s \<longleftrightarrow> io_writes io \<and> lf_ready (fst s) \<and> lf_mutex (fst s) \<noteq> Some True"

interpretation file_sink: log_sink "outputFunc io gm" "file_sink_ok io" "log_written \<circ> snd" "\<lambda>msg v. v @ msg"
proof unfold_locales
  fix s msg assume "file_sink_ok io s"
  then show "\<exists>s'. outputFunc io gm msg s = Inr s' \<and> file_sink_ok io s' \<and> (log_written \<circ> snd) s' = (log_written \<circ> snd) s @ msg"
    using LogFile_append_ok [of io "fst s" gm msg "snd s"] by (cases s) (auto simp: file_sink_ok_def outputFunc_def)
qed

lemma basename_no_slash: "CHR ''/'' \<notin> set (basename f)"
  by (auto simp: basename_def dest: set_takeWhileD)

text \<open>The text of a statement of the program.\<close>

definition test_text :: "log_env \<Rightarrow> string" where
  "test_text env = header_text env INFO @ test_line @ ''-LogFile_test.cc:28\<newline>''"

lemma test_statement_text:
  assumes "env_ok (env_of i)"
  shows "ll_text (test_statement env_of i) = test_text (env_of i)"
proof -
  have b: "basename ''LogFile_test.cc'' = ''LogFile_test.cc''" by (simp add: basename_def)
  have d: "fmt_d 28 = ''28''"
    by (simp add: fmt_d_def base_digits.simps digit_char_def)
  have len: "length (header_text (env_of i) (statement_level Info)) = 47"
    using assms by (intro length_header) (simp_all add: env_ok_def)
  have items: "list_all item_ok ([StdString test_line] @ trailer_items ''LogFile_test.cc'' 28)"
    using trailer_ok [of "''LogFile_test.cc''" 28] by (simp add: test_line_def)
  have "length (header_text (env_of i) (statement_level Info)) +
      sum_list (map item_room ([StdString test_line] @ trailer_items ''LogFile_test.cc'' 28)) \<le> kMinBufferSize"
    unfolding len by (simp add: trailer_items_def b test_line_def kMinBufferSize_def c_str_def)
  from put_spec_all [OF this items] show ?thesis
    by (simp add: ll_text_def test_statement_def line_text_def test_text_def trailer_items_def b d c_str_def)
qed

lemma test_statement_ok:
  "env_ok (env_of i) \<Longrightarrow> le_gmtime (env_of i) = gm \<Longrightarrow> level \<le> INFO \<Longrightarrow> ll_ok gm level (test_statement env_of i)"
  by (simp add: ll_ok_def test_statement_def items_ok_def test_line_def)

text \<open>(C16) Logger and LogFile composed: in LogFile_test.cc the ten thousand lines are in the log files when the program
  has ended, each complete with header and trailer, in order and nothing between them, over all roll-overs
  and short writes, whatever the clock shows and wherever the seconds change.\<close>

theorem LogFile_test_stores_lines:
  assumes io: "io_writes io" "0 < io h Time" and argv: "length argv0 < 256"
    and env: "\<And>i. env_ok (env_of i) \<and> le_gmtime (env_of i) = gmtime"
  shows "\<exists>h'. LogFile_test_main io gm argv0 env_set env_of h = Inr h' \<and>
    log_written h' = log_written h @ concat (map (\<lambda>i. test_text (env_of i)) [0..<10000])"
proof -
  let ?lf = "\<lparr>lf_basename = basename argv0, lf_rollSize = 256 * 1024, lf_flushInterval = 3, lf_count = 0,
    lf_mutex = None, lf_startOfPeriod = 0, lf_lastRoll = 0, lf_lastFlush = 0, lf_file = None\<rparr>"
  let ?st = "setFlush 0 (setOutput 0 (logging_start env_set))"
  obtain lf0 h0 where new: "LogFile_new io gm (basename argv0) (256 * 1024) False 3 h = Inr (lf0, h0)" "lf_ready lf0"
    "lf_mutex lf0 = None" "log_written h0 = log_written h"
    using rollFile_ok [of io ?lf h gm] io basename_no_slash by (auto simp: LogFile_new_def io_writes_def)
  have st: "sends_to 0 gmtime (initLogLevel env_set) ?st"
    by (simp add: sends_to_def cache_ok_def logging_start_def setOutput_def setFlush_def)
  have ok: "list_all (ll_ok gmtime (initLogLevel env_set)) (map (test_statement env_of) [0..<10000])"
    using env test_statement_ok by (simp add: list_all_iff initLogLevel_def less_eq_logLevel_def)
  obtain st' lf' h' where run: "foldR (LOG_to (outputFunc io gm) (flushFunc io)) (map (test_statement env_of) [0..<10000])
      (?st, (lf0, h0)) = Inr (st', (lf', h'))" "log_written h' = log_written h0 @ concat (map ll_text (map (test_statement env_of) [0..<10000]))"
    using file_sink.lines_reach_sink [OF st ok, of io "(lf0, h0)" gm "flushFunc io"] new io
    by (auto simp: file_sink_ok_def fold_append simp del: map_map)
  have "ll_text \<circ> test_statement env_of = (\<lambda>i. test_text (env_of i))"
    using env test_statement_text by (simp add: fun_eq_iff)
  moreover have "log_written (LogFile_delete io lf' h') = log_written h'"
    by (simp add: LogFile_delete_def File_delete_def file_io_def split: option.split)
  ultimately show ?thesis using new run argv by (simp add: LogFile_test_main_def Let_def)
qed

theorem LogFile_test_stores_lines_witness:
  "\<exists>h'. LogFile_test_main (sample_io 100) sample_calendar ''./test'' False (\<lambda>_. sample_env 4242) [] = Inr h' \<and>
     log_written h' = log_written [] @ concat (map (\<lambda>i. test_text (sample_env 4242)) [0..<10000])"
proof (rule LogFile_test_stores_lines)
  show "io_writes (sample_io 100)" by (rule sample_io_writes)
  show "0 < sample_io 100 [] Time" "length ''./test'' < 256" by (simp_all add: sample_io_def)
  show "\<And>i. env_ok (sample_env 4242) \<and> le_gmtime (sample_env 4242) = (\<lambda>_. sample_tm)"
    using sample_env_ok(2) by (simp add: sample_env_def)
qed

section \<open>Logging_test.cc\<close>

record log_bench =
  g_total :: "64 word"
  g_file :: int
  g_logFile :: "logFile option"
  bench_calls :: file_history

definition dummyOutput :: "stdio \<Rightarrow> (int \<Rightarrow> tm) \<Rightarrow> octet list \<Rightarrow> log_bench \<Rightarrow> log_bench res" where
  "dummyOutput io gm msg b =
     (let b1 = b\<lparr>g_total := g_total b + of_nat (length msg)\<rparr> in
      if g_file b1 \<noteq> 0 then Inr (b1\<lparr>bench_calls := snd (do_fwrite io (g_file b1) msg (bench_calls b1))\<rparr>)
      else case g_logFile b1 of None \<Rightarrow> Inr b1
        | Some lf \<Rightarrow> bindR (LogFile_append io gm msg (int (length msg)) (lf, bench_calls b1)) (\<lambda>(lf1, h).
            Inr (b1\<lparr>g_logFile := Some lf1, bench_calls := h\<rparr>)))"

text \<open>\<^verbatim>\<open>setFlush\<close> is not called. The loop variable is printed as the last item; \<^verbatim>\<open>batch\<close> is a million.\<close>

definition bench_statement :: "(nat \<Rightarrow> log_env) \<Rightarrow> nat \<Rightarrow> log_line" where
  "bench_statement env_of i = \<lparr>ll_kind = Info, ll_file = ''Logging_test.cc'', ll_line = 33,
     ll_items = [CString ''Hello 0123456789'', CString '' abcdefghijklmnopqrstuvwxyz '', StdString '' '', SignedInt (of_nat i)],
     ll_env = env_of i\<rparr>"

definition batch :: nat where
  "batch = 1000000"

definition run_bench :: "stdio \<Rightarrow> (int \<Rightarrow> tm) \<Rightarrow> (nat \<Rightarrow> log_env) \<Rightarrow> logging \<times> log_bench \<Rightarrow> (logging \<times> log_bench) res" where
  "run_bench io gm env_of = (\<lambda>(st, b).
     foldR (LOG_to (dummyOutput io gm) Inr) (map (bench_statement env_of) [0..<batch]) (setOutput 1 st, b\<lparr>g_total := 0\<rparr>))"

text \<open>The log file, if there is one, is in order.\<close>

definition bench_ok :: "stdio \<Rightarrow> log_bench \<Rightarrow> bool" where
  "bench_ok io b \<longleftrightarrow> io_writes io \<and> (\<forall>lf. g_logFile b = Some lf \<longrightarrow> lf_ready lf \<and> lf_mutex lf \<noteq> Some True)"

definition to_logFile :: "log_bench \<Rightarrow> bool" where
  "to_logFile b \<longleftrightarrow> g_file b = 0 \<and> g_logFile b \<noteq> None"

lemma dummyOutput_ok:
  assumes "bench_ok io b"
  shows "\<exists>b'. dummyOutput io gm msg b = Inr b' \<and> bench_ok io b' \<and> to_logFile b' = to_logFile b \<and>
    g_total b' = g_total b + of_nat (length msg) \<and>
    (to_logFile b \<longrightarrow> log_written (bench_calls b') = log_written (bench_calls b) @ msg)"
proof (cases "to_logFile b")
  case True
  then obtain lf where lf: "g_logFile b = Some lf" "g_file b = 0" by (auto simp: to_logFile_def)
  then have ok: "io_writes io" "lf_ready lf" "lf_mutex lf \<noteq> Some True" using assms by (simp_all add: bench_ok_def)
  show ?thesis
    using LogFile_append_ok [OF ok, of gm msg "bench_calls b"] lf ok by (auto simp: dummyOutput_def bench_ok_def to_logFile_def Let_def)
next
  case False
  then show ?thesis using assms by (auto simp: dummyOutput_def bench_ok_def to_logFile_def Let_def split: option.splits)
qed

interpretation bench_total: log_sink "dummyOutput io gm" "bench_ok io" g_total "\<lambda>msg t. t + of_nat (length msg)"
  by unfold_locales (meson dummyOutput_ok)

interpretation bench_file: log_sink "dummyOutput io gm" "\<lambda>b. bench_ok io b \<and> to_logFile b" "log_written \<circ> bench_calls" "\<lambda>msg v. v @ msg"
proof unfold_locales
  fix b msg assume "bench_ok io b \<and> to_logFile b"
  then show "\<exists>b'. dummyOutput io gm msg b = Inr b' \<and> (bench_ok io b' \<and> to_logFile b') \<and>
      (log_written \<circ> bench_calls) b' = (log_written \<circ> bench_calls) b @ msg"
    using dummyOutput_ok [of io b gm msg] by auto
qed

lemma fold_add_lengths: "fold (\<lambda>msg t. t + of_nat (length msg)) ms t = t + (of_nat (length (concat ms)) :: 64 word)"
  by (induction ms arbitrary: t) simp_all

text \<open>A benchmark run counts every byte of its lines, whatever its sink is, and with a log file as the sink the file
  gets just these bytes.\<close>

theorem bench_counts_bytes:
  assumes ok: "bench_ok io b" and st: "cache_ok gmtime st" "lg_level st \<le> INFO"
    and env: "\<And>i. env_ok (env_of i) \<and> le_gmtime (env_of i) = gmtime"
  shows "\<exists>st' b'. run_bench io gm env_of (st, b) = Inr (st', b') \<and>
    g_total b' = of_nat (length (concat (map (\<lambda>i. ll_text (bench_statement env_of i)) [0..<batch]))) \<and>
    (to_logFile b \<longrightarrow> log_written (bench_calls b') =
      log_written (bench_calls b) @ concat (map (\<lambda>i. ll_text (bench_statement env_of i)) [0..<batch]))"
proof -
  let ?b = "b\<lparr>g_total := 0\<rparr>" and ?ls = "map (bench_statement env_of) [0..<batch]"
  have s: "sends_to 1 gmtime (lg_level st) (setOutput 1 st)"
    using st by (simp add: sends_to_def cache_ok_def setOutput_def)
  have b: "bench_ok io ?b" "to_logFile ?b = to_logFile b" using ok by (simp_all add: bench_ok_def to_logFile_def)
  have ls: "list_all (ll_ok gmtime (lg_level st)) ?ls"
    using env st(2) by (simp add: list_all_iff ll_ok_def bench_statement_def items_ok_def c_str_def)
  have m: "map ll_text ?ls = map (\<lambda>i. ll_text (bench_statement env_of i)) [0..<batch]" by simp
  obtain st' b' where run: "run_bench io gm env_of (st, b) = Inr (st', b')" "g_total b' = of_nat (length (concat (map ll_text ?ls)))"
    using bench_total.lines_reach_sink [OF s ls b(1), of gm Inr] by (auto simp: run_bench_def fold_add_lengths simp del: map_map)
  moreover have "log_written (bench_calls b') = log_written (bench_calls b) @ concat (map ll_text ?ls)" if "to_logFile b"
    using bench_file.lines_reach_sink [OF s ls, of io ?b gm Inr] run(1) b that
    by (auto simp: run_bench_def fold_append simp del: map_map)
  ultimately show ?thesis unfolding m by blast
qed

end
