(* ===== verification/Stream_Tests.thy ===== *)
theory Stream_Tests
  imports Log_Stream
begin

text \<open>
  The unit tests of src/logging/LoggingStream_test.cc, run on the model. A test case is a list of insertions,
  resets and checks; running it gives the results of its checks. The cases on \<^verbatim>\<open>double\<close> and \<^verbatim>\<open>Fmt\<close> test the
  formatting of the C library, which is a parameter, and are left out.
\<close>

datatype test_step = Put log_item | Reset | Check string

fun run_checks :: "test_step list \<Rightarrow> fixedBuffer \<Rightarrow> bool list res" where
  "run_checks [] b = Inr []"
| "run_checks (Put it # r) b = bindR (put it b) (run_checks r)"
| "run_checks (Reset # r) b = run_checks r (FixedBuffer_reset b)"
| "run_checks (Check s # r) b = bindR (run_checks r b) (\<lambda>l. Inr ((FixedBuffer_tostring b = s) # l))"

text \<open>What the checks give on the text alone.\<close>

fun spec_checks :: "test_step list \<Rightarrow> string \<Rightarrow> bool list" where
  "spec_checks [] t = []"
| "spec_checks (Put it # r) t = spec_checks r (put_spec 4000 it t)"
| "spec_checks (Reset # r) t = spec_checks r []"
| "spec_checks (Check s # r) t = (t = s) # spec_checks r t"

fun step_ok :: "test_step \<Rightarrow> bool" where
  "step_ok (Put it) = item_ok it"
| "step_ok _ = True"

lemma run_checks_spec:
  assumes "fb_inv b" "length (fb_data b) = 4000" "list_all step_ok steps"
  shows "run_checks steps b = Inr (spec_checks steps (FixedBuffer_tostring b))"
  using assms
proof (induction steps b rule: run_checks.induct)
  case (2 it r b)
  obtain b' where b': "put it b = Inr b'" "fb_inv b'" "length (fb_data b') = 4000"
    "FixedBuffer_tostring b' = put_spec 4000 it (FixedBuffer_tostring b)"
    using puts_refine [of b "[it]"] 2(2-) by (auto simp: bindR_def split: sum.splits)
  with 2 show ?case by simp
next
  case (3 r b)
  have "fb_inv (FixedBuffer_reset b)" "FixedBuffer_tostring (FixedBuffer_reset b) = []" "length (fb_data (FixedBuffer_reset b)) = 4000"
    using 3(2,3) by (simp_all add: FixedBuffer_reset_def fb_inv_def FixedBuffer_tostring_def)
  with 3 show ?case by simp
qed simp_all

section \<open>The test cases\<close>

definition TestLoggingStreamBooleans :: "test_step list" where
  "TestLoggingStreamBooleans = [Check '''', Put (Bool True), Check ''1'', Put (Char CHR 0x0A), Check ''1\<newline>'', Put (Bool False), Check ''1\<newline>0'']"

definition testLogStreamIntegers :: "test_step list" where
  "testLogStreamIntegers = [Check '''', Put (SignedInt 1), Check ''1'', Put (SignedInt 0), Check ''10'', Put (SignedInt (- 1)), Check ''10-1'',
     Reset, Put (SignedInt 0), Put (CString '' ''), Put (SignedInt 123), Put (Char CHR ''x''), Put (SignedInt 0x64), Check ''0 123x100'']"

text \<open>\<^verbatim>\<open>std::numeric_limits\<close> of a \<open>w\<close>-bit type; the one of \<^verbatim>\<open>unsigned int16_t\<close> is read as the one of \<^verbatim>\<open>uint16_t\<close>.\<close>

definition testLogStreamIntegerLimits :: "test_step list" where
  "testLogStreamIntegerLimits = [Put (SignedInt (- 2147483647)), Check ''-2147483647'',
     Put (SignedInt (- 2147483648)), Check ''-2147483647-2147483648'',
     Put (Char CHR '' ''), Put (SignedInt 2147483647), Check ''-2147483647-2147483648 2147483647'', Reset,
     Put (Short (- 32768)), Check ''-32768'', Reset,
     Put (UnsignedShort 0), Check ''0'', Reset,
     Put (UnsignedShort 65535), Check ''0'', Reset,
     Put (SignedInt (- 2147483648)), Check ''-2147483648'', Reset,
     Put (SignedInt 2147483647), Check ''2147483647'', Reset,
     Put (UnsignedInt 0), Check ''0'', Reset,
     Put (UnsignedInt 4294967295), Check ''4294967295'', Reset,
     Put (Long (- 9223372036854775808)), Check ''-9223372036854775808'', Reset,
     Put (Long 9223372036854775807), Check ''9223372036854775807'', Reset,
     Put (UnsignedLong 0), Check ''0'', Reset,
     Put (UnsignedLong 18446744073709551615), Check ''18446744073709551615'', Reset,
     Put (Short 0), Put (SignedInt 0), Put (Long 0), Check ''000'']"

definition testLogStreamVoid :: "test_step list" where
  "testLogStreamVoid = [Put (Pointer 0), Check ''0x0'', Reset, Put (Pointer 8888), Check ''0x22b8'', Reset]"

lemmas test_cases = TestLoggingStreamBooleans_def testLogStreamIntegers_def testLogStreamIntegerLimits_def testLogStreamVoid_def

lemma test_items: "list_all step_ok (TestLoggingStreamBooleans @ testLogStreamIntegers @ testLogStreamIntegerLimits @ testLogStreamVoid)"
  by (simp add: test_cases c_str_def)

lemma number_texts:
  "dec 0 = ''0''" "dec 1 = ''1''" "dec (Suc 0) = ''1''" "dec 123 = ''123''" "dec 100 = ''100''" "dec 32768 = ''32768''" "dec 65535 = ''65535''"
  "dec 2147483647 = ''2147483647''" "dec 2147483648 = ''2147483648''" "dec 4294967295 = ''4294967295''"
  "dec 9223372036854775808 = ''9223372036854775808''" "dec 9223372036854775807 = ''9223372036854775807''"
  "dec 18446744073709551615 = ''18446744073709551615''" "base_digits 16 0 = ''0''" "base_digits 16 8888 = ''22b8''"
  by (simp_all add: base_digits.simps digit_char_def)

lemma spec_results:
  "spec_checks TestLoggingStreamBooleans [] = replicate 4 True"
  "spec_checks testLogStreamIntegers [] = replicate 5 True"
  "spec_checks testLogStreamIntegerLimits [] = replicate 5 True @ [False] @ replicate 9 True"
  "spec_checks testLogStreamVoid [] = replicate 2 True"
  by (simp_all add: test_cases put_spec_def number_texts c_str_def fmt_d_def) (simp_all add: eval_nat_numeral)

text \<open>The checks of these test cases hold for any contents of the uninitialised buffer, with one exception: the sixth
  check on the limits expects 0 for the largest unsigned 16-bit number.\<close>

theorem LoggingStream_tests_pass:
  assumes "length memory = kMinBufferSize"
  shows "run_checks TestLoggingStreamBooleans (LoggingStream_new memory) = Inr (replicate 4 True)"
    and "run_checks testLogStreamIntegers (LoggingStream_new memory) = Inr (replicate 5 True)"
    and "run_checks testLogStreamIntegerLimits (LoggingStream_new memory) = Inr (replicate 5 True @ [False] @ replicate 9 True)"
    and "run_checks testLogStreamVoid (LoggingStream_new memory) = Inr (replicate 2 True)"
proof -
  have "fb_inv (LoggingStream_new memory)" "length (fb_data (LoggingStream_new memory)) = 4000"
    "FixedBuffer_tostring (LoggingStream_new memory) = []"
    using assms by (simp_all add: LoggingStream_new_def FixedBuffer_bzero_def FixedBuffer_new_def fb_inv_def
        FixedBuffer_tostring_def kMinBufferSize_def)
  note run = run_checks_spec [OF this(1,2), unfolded this(3)]
  show "run_checks TestLoggingStreamBooleans (LoggingStream_new memory) = Inr (replicate 4 True)"
    "run_checks testLogStreamIntegers (LoggingStream_new memory) = Inr (replicate 5 True)"
    "run_checks testLogStreamIntegerLimits (LoggingStream_new memory) = Inr (replicate 5 True @ [False] @ replicate 9 True)"
    "run_checks testLogStreamVoid (LoggingStream_new memory) = Inr (replicate 2 True)"
    using run test_items spec_results by simp_all
qed

end
