(* ===== verification/Shared_Ptr.thy ===== *)
theory Shared_Ptr
  imports Prelude
begin

text \<open>
  The reference-counted pointer of src/thread/test/shared_ptr_test.cc. Objects and counters live in two maps
  from addresses, variables of type \<^verbatim>\<open>SharedPtr\<close> have names. The specification knows no counters: it says
  which object each variable refers to, and objects are numbered in the order of their creation.
\<close>

section \<open>SharedPtr\<close>

record sharedPtr =
  sp_ptr :: "nat option"
  sp_pCount :: "nat option"

record sp_world =
  sp_objs :: "nat set"
  sp_counts :: "nat \<rightharpoonup> int"
  sp_nextobj :: nat
  sp_nextcount :: nat
  sp_vars :: "nat \<rightharpoonup> sharedPtr"

text \<open>The argument \<^verbatim>\<open>Destory\<close> of the template.\<close>

datatype destory = Fclose | Free | Delete

definition run_destory :: "destory \<Rightarrow> sharedPtr \<Rightarrow> sp_world \<Rightarrow> (sharedPtr \<times> sp_world) res" where
  "run_destory d sp w = (case sp_ptr sp of
     None \<Rightarrow> if d = Fclose then Inl NullPointer else Inr (sp, w)
   | Some p \<Rightarrow> if p \<notin> sp_objs w then Inl UseAfterFree
       else Inr (if d = Fclose then sp else sp\<lparr>sp_ptr := None\<rparr>, w\<lparr>sp_objs := sp_objs w - {p}\<rparr>))"

text \<open>\<^verbatim>\<open>GetRef\<close> gives the address of the counter and what it holds.\<close>

definition GetRef :: "sharedPtr \<Rightarrow> sp_world \<Rightarrow> (nat \<times> int) res" where
  "GetRef sp w = (case sp_pCount sp of None \<Rightarrow> Inl NullPointer | Some c \<Rightarrow>
     (case sp_counts w c of None \<Rightarrow> Inl UseAfterFree | Some n \<Rightarrow> Inr (c, n)))"

definition add_ref :: "int \<Rightarrow> sharedPtr \<Rightarrow> sp_world \<Rightarrow> (int \<times> sp_world) res" where
  "add_ref i sp w = bindR (GetRef sp w) (\<lambda>(c, n). Inr (n + i, w\<lparr>sp_counts := (sp_counts w)(c \<mapsto> n + i)\<rparr>))"

definition SharedPtr_ctor :: "nat option \<Rightarrow> sp_world \<Rightarrow> sharedPtr \<times> sp_world" where
  "SharedPtr_ctor raw w = (case raw of
     None \<Rightarrow> (\<lparr>sp_ptr = None, sp_pCount = None\<rparr>, w)
   | Some p \<Rightarrow> (\<lparr>sp_ptr = Some p, sp_pCount = Some (sp_nextcount w)\<rparr>,
       w\<lparr>sp_counts := (sp_counts w)(sp_nextcount w \<mapsto> 1), sp_nextcount := sp_nextcount w + 1\<rparr>))"

definition SharedPtr_Release :: "destory \<Rightarrow> sharedPtr \<Rightarrow> sp_world \<Rightarrow> (sharedPtr \<times> sp_world) res" where
  "SharedPtr_Release d sp w =
     (if sp_ptr sp = None then Inr (sp, w)
      else bindR (add_ref (- 1) sp w) (\<lambda>(n, w1).
        if n = 0
        then bindR (run_destory d sp w1) (\<lambda>(sp1, w2).
          bindR (GetRef sp1 w2) (\<lambda>(c, _).
          Inr (sp1\<lparr>sp_pCount := None\<rparr>, w2\<lparr>sp_counts := (sp_counts w2)(c := None)\<rparr>)))
        else Inr (sp, w1)))"

text \<open>The parameter of the copy constructor and of \<^verbatim>\<open>operator=\<close> is a \<^verbatim>\<open>SharedPtr<T>\<close>, whose deleter is \<^verbatim>\<open>Delete\<close>. With
  another deleter they take pointers of a different class, and copies of the own class are made by the
  constructor and the operator of the compiler, which copy the members.\<close>

definition SharedPtr_copy :: "destory \<Rightarrow> sharedPtr \<Rightarrow> sp_world \<Rightarrow> (sharedPtr \<times> sp_world) res" where
  "SharedPtr_copy d sp w =
     (if d = Delete \<and> sp_ptr sp \<noteq> None then bindR (add_ref 1 sp w) (\<lambda>(_, w1). Inr (sp, w1)) else Inr (sp, w))"

definition SharedPtr_assign :: "destory \<Rightarrow> bool \<Rightarrow> sharedPtr \<Rightarrow> sharedPtr \<Rightarrow> sp_world \<Rightarrow> (sharedPtr \<times> sp_world) res" where
  "SharedPtr_assign d same this sp w =
     (if d \<noteq> Delete then Inr (sp, w)
      else if same then Inr (this, w)
      else bindR (SharedPtr_Release d this w) (\<lambda>(_, w1).
        bindR (add_ref 1 sp w1) (\<lambda>(_, w2). Inr (sp, w2))))"

definition SharedPtr_dtor :: "destory \<Rightarrow> sharedPtr \<Rightarrow> sp_world \<Rightarrow> sp_world res" where
  "SharedPtr_dtor d sp w = bindR (SharedPtr_Release d sp w) (\<lambda>(_, w1). Inr w1)"

section \<open>Programs with SharedPtr variables\<close>

text \<open>Declarations of variables (empty, with \<^verbatim>\<open>new T\<close>, as a copy), assignments and ends of scopes.\<close>

datatype sp_op = Sp_null nat | Sp_make nat | Sp_copy nat nat | Sp_assign nat nat | Sp_end nat

definition set_var :: "nat \<Rightarrow> sharedPtr option \<Rightarrow> sp_world \<Rightarrow> sp_world" where
  "set_var x v w = w\<lparr>sp_vars := (sp_vars w)(x := v)\<rparr>"

definition sp_var :: "nat \<Rightarrow> sp_world \<Rightarrow> sharedPtr" where
  "sp_var x w = the (sp_vars w x)"

fun sp_step :: "destory \<Rightarrow> sp_op \<Rightarrow> sp_world \<Rightarrow> sp_world res" where
  "sp_step d (Sp_null x) w = (case SharedPtr_ctor None w of (sp, w1) \<Rightarrow> Inr (set_var x (Some sp) w1))"
| "sp_step d (Sp_make x) w =
     (let p = sp_nextobj w in
      case SharedPtr_ctor (Some p) (w\<lparr>sp_objs := insert p (sp_objs w), sp_nextobj := p + 1\<rparr>) of (sp, w1) \<Rightarrow>
      Inr (set_var x (Some sp) w1))"
| "sp_step d (Sp_copy x y) w = bindR (SharedPtr_copy d (sp_var y w) w) (\<lambda>(sp, w1). Inr (set_var x (Some sp) w1))"
| "sp_step d (Sp_assign x y) w =
     bindR (SharedPtr_assign d (x = y) (sp_var x w) (sp_var y w) w) (\<lambda>(sp, w1). Inr (set_var x (Some sp) w1))"
| "sp_step d (Sp_end x) w = bindR (SharedPtr_dtor d (sp_var x w) w) (\<lambda>w1. Inr (set_var x None w1))"

definition sp_start :: sp_world where
  "sp_start = \<lparr>sp_objs = {}, sp_counts = Map.empty, sp_nextobj = 0, sp_nextcount = 0, sp_vars = Map.empty\<rparr>"

text \<open>The language admits only programs that declare their variables once and before use.\<close>

fun scoped :: "nat set \<Rightarrow> sp_op list \<Rightarrow> bool" where
  "scoped V [] = True"
| "scoped V (Sp_null x # ops) = (x \<notin> V \<and> scoped (insert x V) ops)"
| "scoped V (Sp_make x # ops) = (x \<notin> V \<and> scoped (insert x V) ops)"
| "scoped V (Sp_copy x y # ops) = (x \<notin> V \<and> y \<in> V \<and> scoped (insert x V) ops)"
| "scoped V (Sp_assign x y # ops) = (x \<in> V \<and> y \<in> V \<and> scoped V ops)"
| "scoped V (Sp_end x # ops) = (x \<in> V \<and> scoped (V - {x}) ops)"

text \<open>The specification: the object of each variable, and the number of objects made. Assigning an empty pointer
  to another variable is the only operation that fails.\<close>

type_synonym sp_spec = "(nat \<rightharpoonup> nat option) \<times> nat"

fun sp_spec_step :: "sp_op \<Rightarrow> sp_spec \<Rightarrow> sp_spec res" where
  "sp_spec_step (Sp_null x) (V, n) = Inr (V(x \<mapsto> None), n)"
| "sp_spec_step (Sp_make x) (V, n) = Inr (V(x \<mapsto> Some n), n + 1)"
| "sp_spec_step (Sp_copy x y) (V, n) = Inr (V(x := V y), n)"
| "sp_spec_step (Sp_assign x y) (V, n) =
     (if x = y then Inr (V, n) else if V y = Some None then Inl NullPointer else Inr (V(x := V y), n))"
| "sp_spec_step (Sp_end x) (V, n) = Inr (V(x := None), n)"

definition sharers :: "nat \<Rightarrow> (nat \<rightharpoonup> nat option) \<Rightarrow> nat set" where
  "sharers p V = {x. V x = Some (Some p)}"

definition referenced :: "(nat \<rightharpoonup> nat option) \<Rightarrow> nat set" where
  "referenced V = {p. sharers p V \<noteq> {}}"

section \<open>The simulation\<close>

text \<open>\<open>f\<close> gives the counter of each object.\<close>

definition member :: "(nat \<Rightarrow> nat) \<Rightarrow> nat option \<Rightarrow> sharedPtr" where
  "member f q = \<lparr>sp_ptr = q, sp_pCount = map_option f q\<rparr>"

definition sp_rel :: "(nat \<Rightarrow> nat) \<Rightarrow> sp_spec \<Rightarrow> sp_world \<Rightarrow> bool" where
  "sp_rel f s w \<longleftrightarrow> (case s of (V, n) \<Rightarrow>
     finite (dom V) \<and> sp_vars w = (\<lambda>x. map_option (member f) (V x)) \<and> inj_on f (referenced V) \<and>
     sp_objs w = referenced V \<and> sp_nextobj w = n \<and> referenced V \<subseteq> {..<n} \<and>
     dom (sp_counts w) = f ` referenced V \<and> f ` referenced V \<subseteq> {..<sp_nextcount w} \<and>
     (\<forall>p\<in>referenced V. sp_counts w (f p) = Some (int (card (sharers p V)))))"

lemma member_simps [simp]: "sp_ptr (member f q) = q" "sp_pCount (member f q) = map_option f q"
  by (simp_all add: member_def)

lemma set_var_simps [simp]:
  "sp_objs (set_var x v w) = sp_objs w" "sp_counts (set_var x v w) = sp_counts w" "sp_nextobj (set_var x v w) = sp_nextobj w"
  "sp_nextcount (set_var x v w) = sp_nextcount w" "sp_vars (set_var x v w) = (sp_vars w)(x := v)"
  by (simp_all add: set_var_def)

lemma sharers_upd: "sharers p (V(x := v)) = (if v = Some (Some p) then insert x (sharers p V) else sharers p V - {x})"
  by (auto simp: sharers_def)

lemma finite_sharers: "finite (dom V) \<Longrightarrow> finite (sharers p V)"
  by (rule finite_subset [of _ "dom V"]) (auto simp: sharers_def)

lemma referenced_fresh:
  assumes "V x = None"
  shows "sharers q (V(x \<mapsto> None)) = sharers q V"
    "sharers q (V(x \<mapsto> Some p)) = (if p = q then insert x (sharers q V) else sharers q V)" "x \<notin> sharers q V"
    "referenced (V(x \<mapsto> None)) = referenced V" "referenced (V(x \<mapsto> Some p)) = insert p (referenced V)"
proof -
  show sh: "sharers q (V(x \<mapsto> None)) = sharers q V" "x \<notin> sharers q V"
    "sharers q (V(x \<mapsto> Some p)) = (if p = q then insert x (sharers q V) else sharers q V)" for q
    using assms by (auto simp: sharers_def)
  show "referenced (V(x \<mapsto> None)) = referenced V" "referenced (V(x \<mapsto> Some p)) = insert p (referenced V)"
    by (auto simp: referenced_def sh)
qed

lemma sp_var_rel: "sp_rel f (V, n) w \<Longrightarrow> V x = Some q \<Longrightarrow> sp_var x w = member f q"
  by (simp add: sp_rel_def sp_var_def)

lemma referencedI: "V x = Some (Some p) \<Longrightarrow> p \<in> referenced V"
  by (auto simp: referenced_def sharers_def)

text \<open>A variable comes to share the object of another one.\<close>

lemma rel_share:
  assumes r: "sp_rel f (V, n) w" and x: "V x = None" and y: "V y = Some (Some p)"
  shows "\<exists>w'. add_ref 1 (member f (Some p)) w = Inr (int (card (sharers p V)) + 1, w') \<and>
    sp_rel f (V(x \<mapsto> Some p), n) (set_var x (Some (member f (Some p))) w')"
proof -
  have p: "p \<in> referenced V" using y by (rule referencedI)
  then have c: "sp_counts w (f p) = Some (int (card (sharers p V)))" and fin: "finite (sharers p V)"
    using r finite_sharers by (auto simp: sp_rel_def)
  let ?w = "w\<lparr>sp_counts := (sp_counts w)(f p \<mapsto> int (card (sharers p V)) + 1)\<rparr>"
  have "add_ref 1 (member f (Some p)) w = Inr (int (card (sharers p V)) + 1, ?w)" using c by (simp add: add_ref_def GetRef_def)
  moreover have "f q \<noteq> f p" if "q \<in> referenced V" "q \<noteq> p" for q using r that p by (auto simp: sp_rel_def inj_on_def)
  ultimately show ?thesis using r p x fin
    by (auto simp: sp_rel_def referenced_fresh insert_absorb fun_eq_iff)
qed

text \<open>A variable gives up its object: the others keep theirs, and the last one deletes it with its counter.\<close>

lemma rel_release:
  assumes r: "sp_rel f (V, n) w" and x: "V x = Some q"
  shows "\<exists>sp w'. SharedPtr_Release Delete (member f q) w = Inr (sp, w') \<and> sp_vars w' = sp_vars w \<and>
    sp_rel f (V(x := None), n) (set_var x None w')"
proof (cases q)
  case None
  then have "sharers p (V(x := None)) = sharers p V" for p using x by (auto simp: sharers_def)
  then have "sp_rel f (V(x := None), n) (set_var x None w)" using r by (auto simp: sp_rel_def referenced_def)
  then show ?thesis using None by (simp add: SharedPtr_Release_def)
next
  case (Some p)
  have V: "V x = Some (Some p)" using x Some by simp
  have p: "p \<in> referenced V" "p \<in> sp_objs w" using r referencedI [of V x p, OF V] by (auto simp: sp_rel_def)
  have xs: "x \<in> sharers p V" "finite (sharers p V)" using V r by (auto simp: sharers_def sp_rel_def finite_sharers [unfolded sharers_def])
  have c: "sp_counts w (f p) = Some (int (card (sharers p V)))" using r p by (simp add: sp_rel_def)
  let ?V = "V(x := None)"
  have sh: "sharers p' ?V = (if p' = p then sharers p V - {x} else sharers p' V)" for p' using V by (auto simp: sharers_def)
  have inj: "f p' \<noteq> f p" if "p' \<in> referenced V" "p' \<noteq> p" for p' using r that p by (auto simp: sp_rel_def inj_on_def)
  let ?n = "int (card (sharers p V)) - 1"
  let ?w1 = "w\<lparr>sp_counts := (sp_counts w)(f p \<mapsto> ?n)\<rparr>"
  have add: "add_ref (- 1) (member f (Some p)) w = Inr (?n, ?w1)" using c by (simp add: add_ref_def GetRef_def)
  have n: "?n = int (card (sharers p V - {x}))"
    using xs by (metis card_Suc_Diff1 add_diff_cancel_left' of_nat_Suc)
  show ?thesis
  proof (cases "sharers p V = {x}")
    case True
    let ?w2 = "?w1\<lparr>sp_objs := sp_objs w - {p}, sp_counts := (sp_counts w)(f p := None)\<rparr>"
    have ref: "referenced ?V = referenced V - {p}" using True sh by (auto simp: referenced_def)
    have "SharedPtr_Release Delete (member f q) w = Inr (\<lparr>sp_ptr = None, sp_pCount = None\<rparr>, ?w2)"
      using Some add n True p by (simp add: SharedPtr_Release_def run_destory_def GetRef_def member_def)
    moreover have "sp_rel f (?V, n) (set_var x None ?w2)"
      using r p inj by (auto simp: sp_rel_def ref sh fun_eq_iff inj_on_diff)
    ultimately show ?thesis by (intro exI conjI) auto
  next
    case False
    then have ne: "sharers p V - {x} \<noteq> {}" using xs by blast
    then have pos: "?n \<noteq> 0" using n xs(2) by (metis card_eq_0_iff finite_Diff of_nat_eq_0_iff)
    have ref: "referenced ?V = referenced V" using ne sh p by (auto simp: referenced_def)
    have "SharedPtr_Release Delete (member f q) w = Inr (member f q, ?w1)"
      using Some add pos by (simp add: SharedPtr_Release_def)
    moreover have "sp_rel f (?V, n) (set_var x None ?w1)"
      using r p inj n by (auto simp: sp_rel_def ref sh fun_eq_iff)
    ultimately show ?thesis by (intro exI conjI) auto
  qed
qed

lemma rel_make:
  assumes r: "sp_rel f (V, n) w" and x: "V x = None"
  shows "\<exists>f' w'. sp_step Delete (Sp_make x) w = Inr w' \<and> sp_rel f' (V(x \<mapsto> Some n), n + 1) w'"
proof -
  let ?c = "sp_nextcount w" and ?f = "f(n := sp_nextcount w)"
  let ?w = "w\<lparr>sp_objs := insert n (sp_objs w), sp_nextobj := n + 1, sp_counts := (sp_counts w)(?c \<mapsto> 1), sp_nextcount := ?c + 1\<rparr>"
  let ?w' = "set_var x (Some (member ?f (Some n))) ?w"
  have n: "n \<notin> referenced V" "sharers n V = {}" using r by (auto simp: sp_rel_def referenced_def)
  have c: "?c \<notin> f ` referenced V" using r by (auto simp: sp_rel_def)
  have "sp_step Delete (Sp_make x) w = Inr ?w'"
    using r by (simp add: SharedPtr_ctor_def member_def sp_rel_def Let_def)
  moreover have mem: "map_option (member ?f) (V y) = map_option (member f) (V y)" for y
    using n by (cases "V y"; cases "the (V y)") (auto simp: member_def sharers_def)
  note fresh = referenced_fresh(2,5) [where V = V, OF x]
  have img: "?f ` referenced V = f ` referenced V" using n by (intro image_cong) auto
  have old: "?f p = f p" "f p \<noteq> ?c" if "p \<in> referenced V" for p
    using that n c by (auto intro: rev_image_eqI)
  have "sp_rel ?f (V(x \<mapsto> Some n), n + 1) ?w'"
    unfolding sp_rel_def prod.case fresh(2) image_insert img
  proof (intro conjI)
    show "inj_on ?f (insert n (referenced V))" using r n old by (auto simp: sp_rel_def inj_on_def)
    show "\<forall>p\<in>insert n (referenced V). sp_counts ?w' (?f p) = Some (int (card (sharers p (V(x \<mapsto> Some n)))))"
      using r n old by (simp add: sp_rel_def fresh)
    show "insert (?f n) (f ` referenced V) \<subseteq> {..<sp_nextcount ?w'}" using r by (auto simp: sp_rel_def)
    show "insert n (referenced V) \<subseteq> {..<n + 1}" using r by (auto simp: sp_rel_def)
  qed (use r mem in \<open>simp_all add: sp_rel_def fun_eq_iff\<close>)
  ultimately show ?thesis by blast
qed

text \<open>One operation: the model and the specification succeed with related results, or both fail in the same way.\<close>

lemma sp_step_simulates:
  assumes r: "sp_rel f (V, n) w" and sc: "scoped (dom V) (op # ops)"
  shows "case sp_spec_step op (V, n) of Inl e \<Rightarrow> sp_step Delete op w = Inl e
    | Inr s \<Rightarrow> (\<exists>f' w'. sp_step Delete op w = Inr w' \<and> sp_rel f' s w') \<and> scoped (dom (fst s)) ops"
proof (cases op)
  case (Sp_null x)
  then have x: "V x = None" and sc': "scoped (insert x (dom V)) ops" using sc by auto
  have "sp_rel f (V(x \<mapsto> None), n) (set_var x (Some (member f None)) w)"
    using r x unfolding sp_rel_def by (auto simp: referenced_fresh fun_eq_iff)
  then show ?thesis using Sp_null sc' by (auto simp: SharedPtr_ctor_def member_def)
next
  case (Sp_make x)
  then have "V x = None" "scoped (insert x (dom V)) ops" using sc by auto
  then show ?thesis using rel_make [OF r] Sp_make by simp
next
  case (Sp_copy x y)
  then obtain q where x: "V x = None" and y: "V y = Some q" and sc': "scoped (insert x (dom V)) ops" using sc by auto
  have "\<exists>w'. sp_step Delete op w = Inr w' \<and> sp_rel f (V(x \<mapsto> q), n) w'"
  proof (cases q)
    case None
    have "sp_rel f (V(x \<mapsto> None), n) (set_var x (Some (member f None)) w)"
      using r x unfolding sp_rel_def by (auto simp: referenced_fresh fun_eq_iff)
    then show ?thesis using Sp_copy None sp_var_rel [OF r y] by (simp add: SharedPtr_copy_def)
  next
    case (Some p)
    then show ?thesis using rel_share [OF r x, of y p] y Sp_copy sp_var_rel [OF r y] by (auto simp: SharedPtr_copy_def)
  qed
  then show ?thesis using Sp_copy y sc' by auto
next
  case (Sp_assign x y)
  then obtain q q' where x: "V x = Some q" and y: "V y = Some q'" and sc': "scoped (dom V) ops" using sc by auto
  note vars = sp_var_rel [OF r x] sp_var_rel [OF r y]
  show ?thesis
  proof (cases "x = y")
    case True
    then have "sp_step Delete op w = Inr w"
      using Sp_assign vars x r by (simp add: SharedPtr_assign_def set_var_def sp_rel_def fun_upd_idem)
    then show ?thesis using True Sp_assign sc' r by auto
  next
    case False
    obtain sp w1 where rel: "SharedPtr_Release Delete (member f q) w = Inr (sp, w1)"
      and r1: "sp_rel f (V(x := None), n) (set_var x None w1)" using rel_release [OF r x] by blast
    show ?thesis
    proof (cases q')
      case None
      then have "sp_step Delete op w = Inl NullPointer"
        using Sp_assign vars rel False by (simp add: SharedPtr_assign_def add_ref_def GetRef_def)
      then show ?thesis using Sp_assign False y None by simp
    next
      case (Some p)
      obtain w2 where add: "add_ref 1 (member f (Some p)) (set_var x None w1) = Inr (int (card (sharers p (V(x := None)))) + 1, w2)"
        and r2: "sp_rel f ((V(x := None))(x \<mapsto> Some p), n) (set_var x (Some (member f (Some p))) w2)"
        using rel_share [OF r1, of x y p] y Some False by auto
      obtain w3 i where w3: "add_ref 1 (member f (Some p)) w1 = Inr (i, w3)" "w2 = set_var x None w3"
        using add by (auto simp: add_ref_def GetRef_def set_var_def split: option.splits)
      have "sp_step Delete op w = Inr (set_var x (Some (member f (Some p))) w3)"
        using Sp_assign vars rel False Some w3 by (simp add: SharedPtr_assign_def)
      moreover have "set_var x (Some (member f (Some p))) w3 = set_var x (Some (member f (Some p))) w2"
        using w3(2) by (simp add: set_var_def)
      moreover have "dom (V(x := V y)) = dom V" using x y by auto
      ultimately show ?thesis using r2 Sp_assign False y Some sc' by auto
    qed
  qed
next
  case (Sp_end x)
  then obtain q where x: "V x = Some q" and sc': "scoped (dom V - {x}) ops" using sc by auto
  then show ?thesis using rel_release [OF r x] Sp_end sp_var_rel [OF r x] by (auto simp: SharedPtr_dtor_def)
qed

lemma sp_run_simulates:
  assumes "sp_rel f s w" "scoped (dom (fst s)) ops"
  shows "case foldR sp_spec_step ops s of Inl e \<Rightarrow> foldR (sp_step Delete) ops w = Inl e
    | Inr s' \<Rightarrow> \<exists>f' w'. foldR (sp_step Delete) ops w = Inr w' \<and> sp_rel f' s' w'"
  using assms
proof (induction ops arbitrary: f s w)
  case (Cons op ops)
  obtain V n where s: "s = (V, n)" by (cases s)
  have step: "case sp_spec_step op s of Inl e \<Rightarrow> sp_step Delete op w = Inl e
    | Inr s \<Rightarrow> (\<exists>f' w'. sp_step Delete op w = Inr w' \<and> sp_rel f' s w') \<and> scoped (dom (fst s)) ops"
    using sp_step_simulates [of f V n w op ops] Cons.prems s by simp
  show ?case
  proof (cases "sp_spec_step op s")
    case (Inr s1)
    then obtain f1 w1 where "sp_step Delete op w = Inr w1" "sp_rel f1 s1 w1" "scoped (dom (fst s1)) ops" using step by auto
    with Cons.IH [of f1 s1 w1] Inr show ?thesis by (cases "foldR sp_spec_step ops s1") auto
  qed (use step in simp)
qed auto

text \<open>(C18) A program with \<^verbatim>\<open>SharedPtr\<close> variables behaves as if variables referred to objects without counters: it fails
  only where an empty pointer is assigned to another variable (a null counter is then followed), never by
  touching what has been deleted. After any operations exactly the objects that some variable refers to
  exist, the counter of each holds the number of these variables, and there is no other counter.\<close>

theorem SharedPtr_refines:
  assumes "scoped {} ops"
  shows "case foldR sp_spec_step ops (Map.empty, 0) of
      Inl e \<Rightarrow> e = NullPointer \<and> foldR (sp_step Delete) ops sp_start = Inl e
    | Inr s \<Rightarrow> \<exists>w V. V = fst s \<and> foldR (sp_step Delete) ops sp_start = Inr w \<and> (\<lambda>x. map_option sp_ptr (sp_vars w x)) = V \<and>
        sp_objs w = referenced V \<and> (\<exists>f. inj_on f (referenced V) \<and> dom (sp_counts w) = f ` referenced V \<and>
          (\<forall>p\<in>referenced V. sp_counts w (f p) = Some (int (card (sharers p V)))))"
proof -
  have "referenced Map.empty = {}" by (simp add: referenced_def sharers_def)
  then have "sp_rel id (Map.empty, 0) sp_start" by (simp add: sp_rel_def sp_start_def)
  note run = sp_run_simulates [OF this, of ops]
  have fail: "foldR sp_spec_step xs s = Inl e \<Longrightarrow> e = NullPointer" for xs s e
  proof (induction xs arbitrary: s)
    case (Cons x xs)
    have "sp_spec_step x s = Inl e \<Longrightarrow> e = NullPointer" by (cases "(x, s)" rule: sp_spec_step.cases) (auto split: if_splits)
    then show ?case using Cons by (cases "sp_spec_step x s") auto
  qed simp
  show ?thesis
  proof (cases "foldR sp_spec_step ops (Map.empty, 0)")
    case (Inl e)
    then show ?thesis using run assms fail by simp
  next
    case (Inr s)
    obtain V n where s: "s = (V, n)" by (cases s)
    obtain f w where w: "foldR (sp_step Delete) ops sp_start = Inr w" "sp_rel f (V, n) w" using run assms Inr s by auto
    then have "(\<lambda>x. map_option sp_ptr (sp_vars w x)) = V" by (auto simp: sp_rel_def option.map_comp o_def option.map_ident)
    then show ?thesis using w Inr s by (auto simp: sp_rel_def)
  qed
qed

theorem SharedPtr_refines_witness:
  "scoped {} [Sp_make 1, Sp_copy 2 1, Sp_make 3, Sp_assign 1 3, Sp_end 2] \<and>
   (\<exists>w. foldR (sp_step Delete) [Sp_make 1, Sp_copy 2 1, Sp_make 3, Sp_assign 1 3, Sp_end 2] sp_start = Inr w \<and> sp_objs w = {1})"
proof -
  have "referenced ([1 \<mapsto> Some 0, 2 \<mapsto> Some 0, 3 \<mapsto> Some 1, 1 \<mapsto> Some 1](2 := None)) = {1}"
    by (auto simp: referenced_def sharers_def split: if_splits)
  with SharedPtr_refines [of "[Sp_make 1, Sp_copy 2 1, Sp_make 3, Sp_assign 1 3, Sp_end 2]"] show ?thesis by auto
qed

text \<open>With another deleter the class cannot be copied: the copy does not count, so the end of the second of two
  variables follows a counter that the end of the first has deleted.\<close>

theorem copied_file_closed_twice:
  "d \<noteq> Delete \<Longrightarrow> foldR (sp_step d) [Sp_make 1, Sp_copy 2 1, Sp_end 2, Sp_end 1] sp_start = Inl UseAfterFree"
  by (cases d) (simp_all add: SharedPtr_ctor_def SharedPtr_copy_def SharedPtr_dtor_def SharedPtr_Release_def add_ref_def GetRef_def
    run_destory_def sp_var_def sp_start_def set_var_def)

end
