(* ===== verification/Hierarchical_Mutex.thy ===== *)
theory Hierarchical_Mutex
  imports Wait_Notify
begin

text \<open>
  \<^verbatim>\<open>hierarchical_mutex\<close> (src/thread/hieraarchical_mutex.cc): mutexes with a level, which a thread may lock only
  in the order of falling levels. Mutexes and threads are numbered; \<open>level\<close> gives the constant
  \<^verbatim>\<open>hierarchy_value\<close> of each mutex. \<^verbatim>\<open>previous_hierarchy_value\<close> is written only by the owner of
  \<^verbatim>\<open>internal_mutex\<close> and \<^verbatim>\<open>this_thread_hierarchy_value\<close> is thread-local, so that taking the internal mutex and
  the update of the two values are one step. A call that throws leaves the state as it is. Unlocking a
  \<^verbatim>\<open>std::mutex\<close> that the caller does not own is undefined, the fault \<open>NotOwner\<close>.
\<close>

section \<open>Model\<close>

record hm =
  hm_owner :: "nat \<Rightarrow> nat option" \<comment> \<open>of each \<^verbatim>\<open>internal_mutex\<close>\<close>
  hm_previous :: "nat \<Rightarrow> 64 word" \<comment> \<open>of each mutex\<close>
  hm_this :: "nat \<Rightarrow> 64 word" \<comment> \<open>of each thread\<close>
  hm_waits :: "nat \<Rightarrow> nat option" \<comment> \<open>the mutex whose \<^verbatim>\<open>internal_mutex.lock()\<close> a thread is in\<close>

definition ULONG_MAX :: "64 word" where
  "ULONG_MAX = - 1"

definition hm_start :: hm where
  "hm_start = \<lparr>hm_owner = (\<lambda>_. None), hm_previous = (\<lambda>_. 0), hm_this = (\<lambda>_. ULONG_MAX), hm_waits = (\<lambda>_. None)\<rparr>"

definition check_for_hierarchy_violation :: "(nat \<Rightarrow> 64 word) \<Rightarrow> nat \<Rightarrow> nat \<Rightarrow> hm \<Rightarrow> unit res" where
  "check_for_hierarchy_violation level t m s =
     (if hm_this s t \<le> level m then Inl (LogicError ''mutex hierachy violated'') else Inr ())"

definition update_hierarchy_value :: "(nat \<Rightarrow> 64 word) \<Rightarrow> nat \<Rightarrow> nat \<Rightarrow> hm \<Rightarrow> hm" where
  "update_hierarchy_value level t m s =
     (let s1 = s\<lparr>hm_previous := (hm_previous s)(m := hm_this s t)\<rparr>
      in s1\<lparr>hm_this := (hm_this s1)(t := level m)\<rparr>)"

text \<open>\<^verbatim>\<open>lock\<close> in two parts, around the point where the caller may have to wait.\<close>

definition hm_lock_enter :: "(nat \<Rightarrow> 64 word) \<Rightarrow> nat \<Rightarrow> nat \<Rightarrow> hm \<Rightarrow> hm res" where
  "hm_lock_enter level t m s =
     bindR (check_for_hierarchy_violation level t m s) (\<lambda>_. Inr (s\<lparr>hm_waits := (hm_waits s)(t := Some m)\<rparr>))"

definition hm_lock_acquire :: "(nat \<Rightarrow> 64 word) \<Rightarrow> nat \<Rightarrow> nat \<Rightarrow> hm \<Rightarrow> hm res" where
  "hm_lock_acquire level t m s =
     (if hm_owner s m \<noteq> None then Inl WouldBlock
      else Inr (update_hierarchy_value level t m
        (s\<lparr>hm_waits := (hm_waits s)(t := None), hm_owner := (hm_owner s)(m := Some t)\<rparr>)))"

definition hm_unlock :: "(nat \<Rightarrow> 64 word) \<Rightarrow> nat \<Rightarrow> nat \<Rightarrow> hm \<Rightarrow> hm res" where
  "hm_unlock level t m s =
     (if hm_this s t \<noteq> level m then Inl (LogicError ''mutex hiercrchy violated'')
      else let s1 = s\<lparr>hm_this := (hm_this s)(t := hm_previous s m)\<rparr>
        in if hm_owner s1 m \<noteq> Some t then Inl NotOwner
           else Inr (s1\<lparr>hm_owner := (hm_owner s1)(m := None)\<rparr>))"

definition hm_try_lock :: "(nat \<Rightarrow> 64 word) \<Rightarrow> nat \<Rightarrow> nat \<Rightarrow> hm \<Rightarrow> (bool \<times> hm) res" where
  "hm_try_lock level t m s =
     bindR (check_for_hierarchy_violation level t m s)
       (\<lambda>_. if hm_owner s m \<noteq> None then Inr (False, s)
            else Inr (True, update_hierarchy_value level t m (s\<lparr>hm_owner := (hm_owner s)(m := Some t)\<rparr>)))"

text \<open>Any number of threads; a thread inside \<^verbatim>\<open>internal_mutex.lock()\<close> does nothing else.\<close>

inductive hm_step :: "(nat \<Rightarrow> 64 word) \<Rightarrow> hm \<Rightarrow> hm \<Rightarrow> bool" for level :: "nat \<Rightarrow> 64 word" where
  lock_enter: "hm_waits s t = None \<Longrightarrow> hm_lock_enter level t m s = Inr s' \<Longrightarrow> hm_step level s s'"
| lock_acquire: "hm_waits s t = Some m \<Longrightarrow> hm_lock_acquire level t m s = Inr s' \<Longrightarrow> hm_step level s s'"
| try_lock: "hm_waits s t = None \<Longrightarrow> hm_try_lock level t m s = Inr (b, s') \<Longrightarrow> hm_step level s s'"
| unlock: "hm_waits s t = None \<Longrightarrow> hm_unlock level t m s = Inr s' \<Longrightarrow> hm_step level s s'"

section \<open>The stack of locks of a thread\<close>

text \<open>
  The mutexes a thread holds, the last one first: the thread's value is the level of the first, each
  mutex remembers the value before it, and before the last one there was none.
\<close>

fun lock_stack :: "(nat \<Rightarrow> 64 word) \<Rightarrow> (nat \<Rightarrow> 64 word) \<Rightarrow> 64 word \<Rightarrow> nat list \<Rightarrow> bool" where
  "lock_stack level prev v [] \<longleftrightarrow> v = ULONG_MAX"
| "lock_stack level prev v (m # ms) \<longleftrightarrow> v = level m \<and> level m < prev m \<and> lock_stack level prev (prev m) ms"

definition hm_ok :: "(nat \<Rightarrow> 64 word) \<Rightarrow> hm \<Rightarrow> bool" where
  "hm_ok level s \<longleftrightarrow>
     (\<forall>t. \<exists>ms. lock_stack level (hm_previous s) (hm_this s t) ms \<and> (\<forall>m. hm_owner s m = Some t \<longleftrightarrow> m \<in> set ms)) \<and>
     (\<forall>t m. hm_waits s t = Some m \<longrightarrow> level m < hm_this s t)"

lemma lock_stack_le: "lock_stack level prev v ms \<Longrightarrow> m \<in> set ms \<Longrightarrow> v \<le> level m"
  by (induction ms arbitrary: v) (auto intro: order.trans order.strict_implies_order)

lemma lock_stack_upd: "m \<notin> set ms \<Longrightarrow> lock_stack level (prev(m := x)) v ms = lock_stack level prev v ms"
  by (induction ms arbitrary: v) auto

lemma lock_stack_top:
  assumes "lock_stack level prev v ms" and "m \<in> set ms" and "v = level m"
  obtains ms' where "ms = m # ms'" "lock_stack level prev (prev m) ms'" "m \<notin> set ms'"
proof -
  obtain m0 ms' where ms: "ms = m0 # ms'" using assms(2) by (cases ms) auto
  have "m \<notin> set ms'"
  proof
    assume "m \<in> set ms'"
    then have "prev m0 \<le> level m" using assms(1) ms lock_stack_le by auto
    then show False using assms(1,3) ms by (auto simp: not_less [symmetric])
  qed
  then show ?thesis using assms(1,2) ms that by auto
qed

lemma hm_ok_stack:
  "hm_ok level s \<Longrightarrow>
    \<exists>ms. lock_stack level (hm_previous s) (hm_this s t) ms \<and> (\<forall>m. hm_owner s m = Some t \<longleftrightarrow> m \<in> set ms)"
  by (simp add: hm_ok_def)

lemma hm_ok_held: "hm_ok level s \<Longrightarrow> hm_owner s m = Some t \<Longrightarrow> hm_this s t \<le> level m"
  using hm_ok_stack [of level s t] by (auto intro: lock_stack_le)

lemma hm_ok_update:
  assumes ok: "hm_ok level s" and free: "hm_owner s m = None" and lt: "level m < hm_this s t"
    and "hm_waits s' = hm_waits s \<or> hm_waits s' = (hm_waits s)(t := None)" and idle: "hm_waits s' t = None"
    and s': "hm_owner s' = (hm_owner s)(m := Some t)" "hm_previous s' = (hm_previous s)(m := hm_this s t)"
      "hm_this s' = (hm_this s)(t := level m)"
  shows "hm_ok level s'"
  unfolding hm_ok_def
proof (intro conjI allI impI)
  fix u
  obtain ms where ms: "lock_stack level (hm_previous s) (hm_this s u) ms" "\<forall>m. hm_owner s m = Some u \<longleftrightarrow> m \<in> set ms"
    using hm_ok_stack [OF ok, of u] by blast
  have "m \<notin> set ms" using ms(2) [rule_format, of m] free by simp
  then show "\<exists>ms. lock_stack level (hm_previous s') (hm_this s' u) ms \<and> (\<forall>m. hm_owner s' m = Some u \<longleftrightarrow> m \<in> set ms)"
    using ms lt by (intro exI [of _ "if u = t then m # ms else ms"]) (auto simp: s' lock_stack_upd)
next
  fix u n
  assume "hm_waits s' u = Some n"
  then have "hm_waits s u = Some n" "u \<noteq> t" using assms(4) idle by (auto split: if_splits)
  then show "level n < hm_this s' u" using ok by (simp add: hm_ok_def s')
qed

lemma hm_ok_unlock:
  assumes ok: "hm_ok level s" and idle: "hm_waits s t = None" and "hm_unlock level t m s = Inr s'"
  shows "hm_ok level s'"
proof -
  have eq: "hm_this s t = level m" and own: "hm_owner s m = Some t"
    and s': "s' = s\<lparr>hm_this := (hm_this s)(t := hm_previous s m), hm_owner := (hm_owner s)(m := None)\<rparr>"
    using assms(3) by (auto simp: hm_unlock_def Let_def split: if_splits)
  show ?thesis
    unfolding hm_ok_def
  proof (intro conjI allI impI)
    fix u
    obtain ms where ms: "lock_stack level (hm_previous s) (hm_this s u) ms" "\<forall>m. hm_owner s m = Some u \<longleftrightarrow> m \<in> set ms"
      using hm_ok_stack [OF ok, of u] by blast
    show "\<exists>ms. lock_stack level (hm_previous s') (hm_this s' u) ms \<and> (\<forall>m. hm_owner s' m = Some u \<longleftrightarrow> m \<in> set ms)"
    proof (cases "u = t")
      case True
      obtain ms' where "ms = m # ms'" "lock_stack level (hm_previous s) (hm_previous s m) ms'" "m \<notin> set ms'"
        by (rule lock_stack_top [OF ms(1), of m]) (use ms(2) [rule_format, of m] own eq True in auto)
      then show ?thesis using ms(2) True by (intro exI [of _ ms']) (auto simp: s')
    next
      case False
      then have "m \<notin> set ms" using ms(2) own by force
      then show ?thesis using ms False by (intro exI [of _ ms]) (auto simp: s')
    qed
  next
    fix u n
    assume "hm_waits s' u = Some n"
    then show "level n < hm_this s' u" using ok idle by (auto simp: hm_ok_def s')
  qed
qed

lemma hm_ok_step:
  assumes "hm_ok level s" and "hm_step level s s'"
  shows "hm_ok level s'"
  using assms(2)
proof (cases rule: hm_step.cases)
  case (lock_enter t m)
  then have "level m < hm_this s t" "s' = s\<lparr>hm_waits := (hm_waits s)(t := Some m)\<rparr>"
    by (auto simp: hm_lock_enter_def check_for_hierarchy_violation_def split: if_splits)
  then show ?thesis using assms(1) by (auto simp: hm_ok_def)
next
  case (lock_acquire t m)
  then have "level m < hm_this s t" using assms(1) by (simp add: hm_ok_def)
  with lock_acquire show ?thesis
    by (intro hm_ok_update [OF assms(1), of m t])
      (auto simp: hm_lock_acquire_def update_hierarchy_value_def Let_def split: if_splits)
next
  case (try_lock t m b)
  then have lt: "level m < hm_this s t"
    by (auto simp: hm_try_lock_def check_for_hierarchy_violation_def split: if_splits)
  show ?thesis
  proof (cases "hm_owner s m")
    case None
    with try_lock lt show ?thesis
      by (intro hm_ok_update [OF assms(1) None lt])
        (auto simp: hm_try_lock_def update_hierarchy_value_def Let_def split: if_splits)
  next
    case (Some u)
    with try_lock lt assms(1) show ?thesis by (auto simp: hm_try_lock_def)
  qed
next
  case (unlock t m)
  then show ?thesis by (rule hm_ok_unlock [OF assms(1)])
qed

lemma hm_ok_start: "hm_ok level hm_start"
proof -
  have "\<exists>ms. lock_stack level (\<lambda>_. 0) ULONG_MAX ms \<and> set ms = {}" by (rule exI [of _ "[]"]) simp
  then show ?thesis by (auto simp: hm_ok_def hm_start_def)
qed

lemma hm_ok_reach: "reach (hm_step level) hm_start s \<Longrightarrow> hm_ok level s"
  by (rule reach_invariant [where I = "hm_ok level", OF _ hm_ok_start hm_ok_step])

section \<open>Properties\<close>

definition waits_for :: "hm \<Rightarrow> (nat \<times> nat) set" where
  "waits_for s = {(t, u). \<exists>m. hm_waits s t = Some m \<and> hm_owner s m = Some u}"

lemma waits_for_falls:
  assumes "hm_ok level s" and "(t, u) \<in> waits_for s"
  shows "hm_this s u < hm_this s t"
proof -
  obtain m where m: "hm_waits s t = Some m" "hm_owner s m = Some u" using assms(2) by (auto simp: waits_for_def)
  have "hm_this s u \<le> level m" by (rule hm_ok_held [OF assms(1) m(2)])
  also have "level m < hm_this s t" using assms(1) m(1) by (simp add: hm_ok_def)
  finally show ?thesis .
qed

text \<open>(C8) Hierarchical mutexes cannot deadlock: in every reachable state of any number of threads and mutexes,
  nobody waits in a circle; if a thread waits, then some waiting thread waits for a mutex that is free or
  whose owner is running; a thread that locks a mutex it already holds gets an exception instead; and when
  the mutexes have different levels, the check of \<^verbatim>\<open>unlock\<close> admits only the owner.\<close>

theorem hierarchical_mutex_no_deadlock:
  assumes "reach (hm_step level) hm_start s"
  shows "acyclic (waits_for s) \<and>
    ((\<exists>t m. hm_waits s t = Some m) \<longrightarrow>
      (\<exists>t m. hm_waits s t = Some m \<and> (hm_owner s m = None \<or> (\<exists>u. hm_owner s m = Some u \<and> hm_waits s u = None)))) \<and>
    (\<forall>t m. hm_owner s m = Some t \<longrightarrow>
      hm_lock_enter level t m s = Inl (LogicError ''mutex hierachy violated'') \<and>
      hm_try_lock level t m s = Inl (LogicError ''mutex hierachy violated'')) \<and>
    (inj level \<longrightarrow> (\<forall>t m. level m \<noteq> ULONG_MAX \<longrightarrow> hm_unlock level t m s \<noteq> Inl NotOwner))"
proof (intro conjI allI impI)
  have ok: "hm_ok level s" by (rule hm_ok_reach [OF assms])
  have falls: "(u, t) \<in> measure (unat \<circ> hm_this s)" if "(t, u) \<in> waits_for s" for t u
    using waits_for_falls [OF ok that] by (simp add: word_less_nat_alt)
  then have "waits_for s \<subseteq> (measure (unat \<circ> hm_this s))\<inverse>" by auto
  moreover have "acyclic ((measure (unat \<circ> hm_this s))\<inverse>)"
    unfolding acyclic_converse by (rule wf_acyclic [OF wf_measure])
  ultimately show "acyclic (waits_for s)" using acyclic_subset by blast
  show "\<exists>t m. hm_waits s t = Some m \<and> (hm_owner s m = None \<or> (\<exists>u. hm_owner s m = Some u \<and> hm_waits s u = None))"
    if "\<exists>t m. hm_waits s t = Some m"
  proof -
    from that obtain k where "hm_waits s k \<noteq> None" by auto
    from ex_has_least_nat [of "\<lambda>t. hm_waits s t \<noteq> None", OF this, of "\<lambda>t. unat (hm_this s t)"]
    obtain t where t: "hm_waits s t \<noteq> None" "\<And>u. hm_waits s u \<noteq> None \<Longrightarrow> unat (hm_this s t) \<le> unat (hm_this s u)"
      by blast
    then obtain m where m: "hm_waits s t = Some m" by blast
    have "hm_waits s u = None" if "hm_owner s m = Some u" for u
    proof -
      have "hm_this s u < hm_this s t" using m that by (intro waits_for_falls [OF ok]) (auto simp: waits_for_def)
      then show ?thesis using t(2) [of u] by (cases "hm_waits s u") (auto simp: word_less_nat_alt)
    qed
    with m show ?thesis by (cases "hm_owner s m") auto
  qed
  show "hm_lock_enter level t m s = Inl (LogicError ''mutex hierachy violated'')"
    "hm_try_lock level t m s = Inl (LogicError ''mutex hierachy violated'')" if "hm_owner s m = Some t" for t m
    using hm_ok_held [OF ok that]
    by (simp_all add: hm_lock_enter_def hm_try_lock_def check_for_hierarchy_violation_def)
  show "hm_unlock level t m s \<noteq> Inl NotOwner" if inj: "inj level" and max: "level m \<noteq> ULONG_MAX" for t m
  proof
    assume "hm_unlock level t m s = Inl NotOwner"
    then have u: "hm_this s t = level m" "hm_owner s m \<noteq> Some t" by (auto simp: hm_unlock_def Let_def split: if_splits)
    obtain ms where ms: "lock_stack level (hm_previous s) (hm_this s t) ms" "\<forall>m. hm_owner s m = Some t \<longleftrightarrow> m \<in> set ms"
      using hm_ok_stack [OF ok, of t] by blast
    then obtain m' ms' where "ms = m' # ms'" using u(1) max by (cases ms) auto
    then have "level m' = level m" "hm_owner s m' = Some t" using ms u(1) by auto
    then show False using u(2) inj by (simp add: inj_eq)
  qed
qed

text \<open>Thread 1 holds the mutex of level 100 and locks that of level 50, which thread 2 holds.\<close>

theorem hierarchical_mutex_no_deadlock_witness:
  "\<exists>s. reach (hm_step (\<lambda>m. if m = 0 then 100 else 50)) hm_start s \<and> waits_for s = {(1, 2)} \<and> acyclic (waits_for s)"
proof -
  let ?level = "\<lambda>m :: nat. if m = 0 then 100 else (50 :: 64 word)"
  note run = hm_start_def ULONG_MAX_def hm_try_lock_def hm_lock_enter_def check_for_hierarchy_violation_def
    update_hierarchy_value_def word_le_nat_alt unsigned_minus_1_eq_mask mask_eq_exp_minus_1
  let ?s1 = "snd (projr (hm_try_lock ?level 1 0 hm_start))"
  let ?s2 = "snd (projr (hm_try_lock ?level 2 1 ?s1))"
  let ?s3 = "projr (hm_lock_enter ?level 1 1 ?s2)"
  have "reach (hm_step ?level) hm_start ?s1"
    by (rule reach_step [OF reach_refl], rule hm_step.try_lock [where t = 1 and m = 0 and b = True]) (simp_all add: run)
  then have "reach (hm_step ?level) hm_start ?s2"
    by - (erule reach_step, rule hm_step.try_lock [where t = 2 and m = 1 and b = True], simp_all add: run)
  then have r: "reach (hm_step ?level) hm_start ?s3"
    by - (erule reach_step, rule hm_step.lock_enter [where t = 1 and m = 1], simp_all add: run)
  have "waits_for ?s3 = {(1, 2)}" by (auto simp: waits_for_def run split: if_splits)
  with r hierarchical_mutex_no_deadlock [OF r, THEN conjunct1] show ?thesis by (intro exI conjI)
qed

end
