(* ===== verification/Mutex_Lock.thy ===== *)
theory Mutex_Lock
  imports Wait_Notify
begin

text \<open>
  \<^verbatim>\<open>MutexLock\<close> (src/thread/Mutex.h): a pthread mutex that remembers its holder. \<^verbatim>\<open>lock\<close> and \<^verbatim>\<open>unlock\<close> are two
  steps each, because \<^verbatim>\<open>holder_\<close> is written after the mutex is taken and before it is released, and any thread
  may read it in between. A thread is named by its number, which is not 0. \<^verbatim>\<open>MutexLockGuard\<close> initialises its
  reference with itself (\<^verbatim>\<open>mutex_(mutex_)\<close>), which is undefined, and has no model.
\<close>

section \<open>Model\<close>

datatype ml_pc =
    Outside
  | Taken \<comment> \<open>in \<^verbatim>\<open>lock\<close>, after \<^verbatim>\<open>pthread_mutex_lock\<close>\<close>
  | Inside \<comment> \<open>between \<^verbatim>\<open>lock\<close> and \<^verbatim>\<open>unlock\<close>\<close>
  | Leaving \<comment> \<open>in \<^verbatim>\<open>unlock\<close>, before \<^verbatim>\<open>pthread_mutex_unlock\<close>\<close>

record ml =
  ml_owner :: "nat option" \<comment> \<open>of \<^verbatim>\<open>mutex_\<close>\<close>
  ml_holder :: nat
  ml_pc :: "nat \<Rightarrow> ml_pc"

definition MutexLock_ctor :: ml where
  "MutexLock_ctor = \<lparr>ml_owner = None, ml_holder = 0, ml_pc = (\<lambda>_. Outside)\<rparr>"

definition MutexLock_dtor :: "ml \<Rightarrow> unit res" where
  "MutexLock_dtor s = assertC (ml_holder s = 0) (Inr ())"

definition isLockedByThisThread :: "nat \<Rightarrow> ml \<Rightarrow> bool" where
  "isLockedByThisThread t s = (ml_holder s = t)"

definition assertLocked :: "nat \<Rightarrow> ml \<Rightarrow> unit res" where
  "assertLocked t s = assertC (isLockedByThisThread t s) (Inr ())"

definition ml_goto :: "nat \<Rightarrow> ml_pc \<Rightarrow> ml \<Rightarrow> ml" where
  "ml_goto t p s = s\<lparr>ml_pc := (ml_pc s)(t := p)\<rparr>"

inductive ml_step :: "ml \<Rightarrow> ml \<Rightarrow> bool" where
  take: "t \<noteq> 0 \<Longrightarrow> ml_pc s t = Outside \<Longrightarrow> ml_owner s = None \<Longrightarrow> ml_step s (ml_goto t Taken (s\<lparr>ml_owner := Some t\<rparr>))"
| set_holder: "ml_pc s t = Taken \<Longrightarrow> ml_step s (ml_goto t Inside (s\<lparr>ml_holder := t\<rparr>))"
| clear_holder: "ml_pc s t = Inside \<Longrightarrow> ml_step s (ml_goto t Leaving (s\<lparr>ml_holder := 0\<rparr>))"
| release: "ml_pc s t = Leaving \<Longrightarrow> ml_step s (ml_goto t Outside (s\<lparr>ml_owner := None\<rparr>))"

section \<open>The invariant\<close>

definition ml_ok :: "ml \<Rightarrow> bool" where
  "ml_ok s \<longleftrightarrow> (case ml_owner s of
       None \<Rightarrow> ml_holder s = 0 \<and> (\<forall>u. ml_pc s u = Outside)
     | Some t \<Rightarrow> t \<noteq> 0 \<and> ml_pc s t \<noteq> Outside \<and> (\<forall>u. ml_pc s u \<noteq> Outside \<longrightarrow> u = t) \<and>
         ml_holder s = (if ml_pc s t = Inside then t else 0))"

lemma ml_ok_ctor: "ml_ok MutexLock_ctor"
  by (simp add: ml_ok_def MutexLock_ctor_def)

lemma ml_ok_alone: "ml_ok s \<Longrightarrow> ml_pc s t \<noteq> Outside \<Longrightarrow> ml_owner s = Some t"
  by (cases "ml_owner s") (auto simp: ml_ok_def)

lemma ml_ok_step:
  assumes "ml_ok s" and "ml_step s s'"
  shows "ml_ok s'"
  using assms(2)
proof (cases rule: ml_step.cases)
  case (take t)
  then show ?thesis using assms(1) by (simp add: ml_ok_def ml_goto_def)
next
  case (set_holder t)
  then show ?thesis using assms(1) ml_ok_alone [OF assms(1), of t] by (simp add: ml_ok_def ml_goto_def)
next
  case (clear_holder t)
  then show ?thesis using assms(1) ml_ok_alone [OF assms(1), of t] by (simp add: ml_ok_def ml_goto_def)
next
  case (release t)
  then show ?thesis using assms(1) ml_ok_alone [OF assms(1), of t] by (auto simp: ml_ok_def ml_goto_def)
qed

lemma ml_ok_reach: "reach ml_step MutexLock_ctor s \<Longrightarrow> ml_ok s"
  by (rule reach_invariant [where I = ml_ok, OF _ ml_ok_ctor ml_ok_step])

section \<open>Properties\<close>

text \<open>(C39) \<^verbatim>\<open>holder_\<close> can be trusted by the thread that asks, although it is read without the mutex: in every
  interleaving at most one thread is between taking and releasing the mutex; for a thread outside of
  \<^verbatim>\<open>lock\<close> and \<^verbatim>\<open>unlock\<close>, \<^verbatim>\<open>isLockedByThisThread\<close> says whether it holds the mutex; and the assertion of the destructor
  holds exactly when no thread is inside.\<close>

theorem MutexLock_holder_sound:
  assumes "reach ml_step MutexLock_ctor s"
  shows "(\<forall>t u. ml_pc s t \<noteq> Outside \<and> ml_pc s u \<noteq> Outside \<longrightarrow> t = u) \<and>
    (\<forall>t. t \<noteq> 0 \<and> ml_pc s t \<in> {Outside, Inside} \<longrightarrow> isLockedByThisThread t s = (ml_owner s = Some t)) \<and>
    (\<forall>t. t \<noteq> 0 \<longrightarrow> okR (assertLocked t s) = (ml_pc s t = Inside)) \<and>
    (okR (MutexLock_dtor s) \<longleftrightarrow> (\<forall>t. ml_pc s t \<noteq> Inside))"
proof -
  have ok: "ml_ok s" by (rule ml_ok_reach [OF assms])
  have own: "ml_owner s = Some t \<longleftrightarrow> ml_pc s t \<noteq> Outside" for t
    using ok ml_ok_alone [OF ok, of t] by (auto simp: ml_ok_def)
  have inside: "ml_pc s t = Inside \<longleftrightarrow> ml_holder s = t \<and> t \<noteq> 0" for t
  proof (cases "ml_owner s")
    case None
    then show ?thesis using ok by (auto simp: ml_ok_def)
  next
    case (Some u)
    then have u: "ml_holder s = (if ml_pc s u = Inside then u else 0)" "u \<noteq> 0" using ok by (simp_all add: ml_ok_def)
    have "ml_pc s t = Outside" if "t \<noteq> u" using own [of t] Some that by simp
    with u show ?thesis by (cases "t = u") auto
  qed
  have "isLockedByThisThread t s = (ml_owner s = Some t)" if "t \<noteq> 0" "ml_pc s t \<in> {Outside, Inside}" for t
    using inside [of t] own [of t] that by (auto simp: isLockedByThisThread_def)
  moreover have "t = u" if "ml_pc s t \<noteq> Outside" "ml_pc s u \<noteq> Outside" for t u
    using own [of t] own [of u] that by simp
  moreover have "okR (MutexLock_dtor s) \<longleftrightarrow> (\<forall>t. ml_pc s t \<noteq> Inside)"
    using inside by (auto simp: MutexLock_dtor_def assertC_def)
  moreover have "okR (assertLocked t s) = (ml_pc s t = Inside)" if "t \<noteq> 0" for t
    using inside [of t] that by (auto simp: assertLocked_def isLockedByThisThread_def assertC_def)
  ultimately show ?thesis by blast
qed

theorem MutexLock_holder_sound_witness:
  "\<exists>s. reach ml_step MutexLock_ctor s \<and> ml_pc s 7 = Inside \<and> isLockedByThisThread 7 s \<and> \<not> isLockedByThisThread 8 s"
proof -
  let ?s1 = "ml_goto 7 Taken (MutexLock_ctor\<lparr>ml_owner := Some 7\<rparr>)"
  let ?s2 = "ml_goto 7 Inside (?s1\<lparr>ml_holder := 7\<rparr>)"
  have "reach ml_step MutexLock_ctor ?s1"
    by (rule reach_step [OF reach_refl], rule ml_step.take) (simp_all add: MutexLock_ctor_def)
  then have r: "reach ml_step MutexLock_ctor ?s2"
    by - (erule reach_step, rule ml_step.set_holder, simp add: ml_goto_def)
  have pc: "ml_pc ?s2 7 = Inside" "ml_pc ?s2 8 = Outside" "ml_owner ?s2 = Some 7"
    by (simp_all add: ml_goto_def MutexLock_ctor_def)
  with MutexLock_holder_sound [OF r, THEN conjunct2, THEN conjunct1, rule_format, of 7]
    MutexLock_holder_sound [OF r, THEN conjunct2, THEN conjunct1, rule_format, of 8]
  have "isLockedByThisThread 7 ?s2 \<and> \<not> isLockedByThisThread 8 ?s2" by simp
  with r pc(1) show ?thesis by (intro exI [of _ ?s2]) simp
qed

end
