(* ===== verification/Threads.thy ===== *)
theory Threads
  imports Atomic Wait_Notify
begin

text \<open>
  \<^verbatim>\<open>Thread\<close>, \<^verbatim>\<open>ThreadData\<close> and \<^verbatim>\<open>CurrentThread\<close> (src/thread/Thread.cc, Thread.h) and \<^verbatim>\<open>thread_guared\<close>
  (thread_guard.cc). The world holds the \<^verbatim>\<open>Thread\<close> objects by address, the threads of the system by
  \<^verbatim>\<open>pthread_t\<close>, and the cells that \<^verbatim>\<open>shared_ptr<pid_t> tid_\<close> and the \<^verbatim>\<open>weak_ptr\<close> of a \<^verbatim>\<open>ThreadData\<close> share; a
  cell lives as long as its \<^verbatim>\<open>Thread\<close> object. The number \<^verbatim>\<open>gettid()\<close> gives to a thread is a parameter,
  a function of its \<^verbatim>\<open>pthread_t\<close>, and so is the success of \<^verbatim>\<open>pthread_create\<close>. Joining or detaching a thread
  that is not joinable is undefined, the fault \<open>NotOwner\<close>.
\<close>

section \<open>Model\<close>

record 'f thread_obj =
  th_started :: bool
  th_joined :: bool
  th_pthreadId :: nat
  th_tid :: nat \<comment> \<open>the cell of \<^verbatim>\<open>tid_\<close>\<close>
  th_func :: 'f
  th_name :: string

datatype phase = Created | Running | Finished

datatype joinability = Joinable | Joined | Detached

record 'f pthread =
  pt_func :: 'f \<comment> \<open>\<^verbatim>\<open>ThreadData::func_\<close>\<close>
  pt_name :: string
  pt_wkTid :: nat
  pt_phase :: phase
  pt_join :: joinability
  pt_cachedTid :: int \<comment> \<open>\<^verbatim>\<open>t_cachedTid\<close>\<close>
  pt_threadName :: string \<comment> \<open>\<^verbatim>\<open>t_threadName\<close>\<close>

record 'f thread_world =
  tw_objs :: "nat \<Rightarrow> 'f thread_obj option"
  tw_cells :: "nat \<Rightarrow> int option"
  tw_pthreads :: "nat \<Rightarrow> 'f pthread option"
  tw_fresh :: nat \<comment> \<open>next cell\<close>
  tw_nextId :: nat \<comment> \<open>next \<^verbatim>\<open>pthread_t\<close>\<close>
  tw_numCreated :: "32 word"

definition thread_world_start :: "'f thread_world" where
  "thread_world_start = \<lparr>tw_objs = Map.empty, tw_cells = Map.empty, tw_pthreads = Map.empty, tw_fresh = 0, tw_nextId = 1,
     tw_numCreated = atomic_new\<rparr>"

definition CurrentThread_tid :: "int \<Rightarrow> int \<Rightarrow> int \<times> int" where
  "CurrentThread_tid gettid cached = (let cached' = if cached = 0 then gettid else cached in (cached', cached'))"

definition isMainThread :: "int \<Rightarrow> int \<Rightarrow> int \<Rightarrow> bool" where
  "isMainThread getpid gettid cached = (fst (CurrentThread_tid gettid cached) = getpid)"

text \<open>\<^verbatim>\<open>afterFork\<close>: the cached number and the name of the only thread of the child.\<close>

definition afterFork :: "int \<Rightarrow> int \<times> string" where
  "afterFork gettid = (gettid, ''main'')"

definition Thread_ctor :: "nat \<Rightarrow> 'f \<Rightarrow> string \<Rightarrow> 'f thread_world \<Rightarrow> 'f thread_world" where
  "Thread_ctor a func n w =
     w\<lparr>tw_objs := (tw_objs w)(a \<mapsto> \<lparr>th_started = False, th_joined = False, th_pthreadId = 0, th_tid = tw_fresh w,
          th_func = func, th_name = n\<rparr>),
       tw_cells := (tw_cells w)(tw_fresh w \<mapsto> 0), tw_fresh := tw_fresh w + 1,
       tw_numCreated := increment (tw_numCreated w)\<rparr>"

definition with_thread :: "nat \<Rightarrow> ('f thread_obj \<Rightarrow> 'f thread_world res) \<Rightarrow> 'f thread_world \<Rightarrow> 'f thread_world res" where
  "with_thread a body w = (case tw_objs w a of None \<Rightarrow> Inl UseAfterFree | Some ob \<Rightarrow> body ob)"

text \<open>\<^verbatim>\<open>pthread_create\<close> either fails, or starts \<^verbatim>\<open>startThread\<close> on the new \<^verbatim>\<open>ThreadData\<close>.\<close>

definition Thread_start :: "bool \<Rightarrow> nat \<Rightarrow> 'f thread_world \<Rightarrow> 'f thread_world res" where
  "Thread_start create_ok a w = with_thread a (\<lambda>ob. assertC (\<not> th_started ob)
     (if \<not> create_ok then Inl Aborted
      else Inr (w\<lparr>tw_objs := (tw_objs w)(a \<mapsto> ob\<lparr>th_started := True, th_pthreadId := tw_nextId w\<rparr>),
          tw_pthreads := (tw_pthreads w)(tw_nextId w \<mapsto>
            \<lparr>pt_func = th_func ob, pt_name = th_name ob, pt_wkTid = th_tid ob, pt_phase = Created, pt_join = Joinable,
              pt_cachedTid = 0, pt_threadName = ''unknown''\<rparr>),
          tw_nextId := tw_nextId w + 1\<rparr>))) w"

definition set_join :: "joinability \<Rightarrow> nat \<Rightarrow> 'f thread_world \<Rightarrow> 'f thread_world res" where
  "set_join j i w = (case tw_pthreads w i of
       None \<Rightarrow> Inl NotOwner
     | Some p \<Rightarrow> if pt_join p \<noteq> Joinable then Inl NotOwner
         else if j = Joined \<and> pt_phase p \<noteq> Finished then Inl WouldBlock
         else Inr (w\<lparr>tw_pthreads := (tw_pthreads w)(i \<mapsto> p\<lparr>pt_join := j\<rparr>)\<rparr>))"

definition Thread_join :: "nat \<Rightarrow> 'f thread_world \<Rightarrow> 'f thread_world res" where
  "Thread_join a w = with_thread a (\<lambda>ob. assertC (th_started ob) (assertC (\<not> th_joined ob)
     (set_join Joined (th_pthreadId ob) (w\<lparr>tw_objs := (tw_objs w)(a \<mapsto> ob\<lparr>th_joined := True\<rparr>)\<rparr>)))) w"

definition Thread_dtor :: "nat \<Rightarrow> 'f thread_world \<Rightarrow> 'f thread_world res" where
  "Thread_dtor a w = with_thread a (\<lambda>ob.
     bindR (if th_started ob \<and> \<not> th_joined ob then set_join Detached (th_pthreadId ob) w else Inr w)
       (\<lambda>w. Inr (w\<lparr>tw_objs := (tw_objs w)(a := None), tw_cells := (tw_cells w)(th_tid ob := None)\<rparr>))) w"

definition Thread_get_tid :: "nat \<Rightarrow> 'f thread_world \<Rightarrow> int res" where
  "Thread_get_tid a w = (case tw_objs w a of None \<Rightarrow> Inl UseAfterFree
     | Some ob \<Rightarrow> (case tw_cells w (th_tid ob) of None \<Rightarrow> Inl UseAfterFree | Some x \<Rightarrow> Inr x))"

text \<open>\<^verbatim>\<open>runInThread\<close> up to the call of \<^verbatim>\<open>func_\<close>, and from its return.\<close>

definition runInThread_enter :: "(nat \<Rightarrow> int) \<Rightarrow> nat \<Rightarrow> 'f thread_world \<Rightarrow> 'f thread_world" where
  "runInThread_enter gettid i w = (case tw_pthreads w i of
       Some p \<Rightarrow> if pt_phase p \<noteq> Created then w
         else let (tid, cached) = CurrentThread_tid (gettid i) (pt_cachedTid p)
           in w\<lparr>tw_cells := (if tw_cells w (pt_wkTid p) = None then tw_cells w else (tw_cells w)(pt_wkTid p \<mapsto> tid)),
                tw_pthreads := (tw_pthreads w)(i \<mapsto> p\<lparr>pt_phase := Running, pt_cachedTid := cached,
                  pt_threadName := (if pt_name p = [] then ''jiangboThread'' else pt_name p)\<rparr>)\<rparr>
     | None \<Rightarrow> w)"

definition runInThread_leave :: "nat \<Rightarrow> 'f thread_world \<Rightarrow> 'f thread_world" where
  "runInThread_leave i w = (case tw_pthreads w i of
       Some p \<Rightarrow> if pt_phase p \<noteq> Running then w
         else w\<lparr>tw_pthreads := (tw_pthreads w)(i \<mapsto> p\<lparr>pt_phase := Finished, pt_threadName := ''finished''\<rparr>)\<rparr>
     | None \<Rightarrow> w)"

datatype 'f thread_call =
    New nat 'f string
  | Start bool nat
  | Join nat
  | Delete nat
  | Enter nat
  | Leave nat

text \<open>A client constructs an object only where none lives.\<close>

fun thread_op :: "(nat \<Rightarrow> int) \<Rightarrow> 'f thread_call \<Rightarrow> 'f thread_world \<Rightarrow> 'f thread_world res" where
  "thread_op gettid (New a f n) w = (if tw_objs w a = None then Inr (Thread_ctor a f n w) else Inl LengthError)"
| "thread_op gettid (Start ok a) w = Thread_start ok a w"
| "thread_op gettid (Join a) w = Thread_join a w"
| "thread_op gettid (Delete a) w = Thread_dtor a w"
| "thread_op gettid (Enter i) w = Inr (runInThread_enter gettid i w)"
| "thread_op gettid (Leave i) w = Inr (runInThread_leave i w)"

text \<open>\<^verbatim>\<open>~thread_guared\<close> joins the thread it refers to unless that has been done.\<close>

definition thread_guared_dtor :: "nat \<Rightarrow> 'f thread_world \<Rightarrow> 'f thread_world res" where
  "thread_guared_dtor i w = (case tw_pthreads w i of
       Some p \<Rightarrow> if pt_join p = Joinable then set_join Joined i w else Inr w
     | None \<Rightarrow> Inr w)"

section \<open>The invariant\<close>

definition phase_tid :: "(nat \<Rightarrow> int) \<Rightarrow> nat \<Rightarrow> phase \<Rightarrow> int" where
  "phase_tid gettid i p = (if p = Created then 0 else gettid i)"

text \<open>What an object says of the system: its thread is joined exactly if the object knows, and its number is known.\<close>

definition obj_ok :: "(nat \<Rightarrow> int) \<Rightarrow> 'f thread_world \<Rightarrow> 'f thread_obj \<Rightarrow> bool" where
  "obj_ok gettid w ob \<longleftrightarrow> th_tid ob < tw_fresh w \<and>
     (if th_started ob
      then th_pthreadId ob < tw_nextId w \<and>
        (\<exists>p. tw_pthreads w (th_pthreadId ob) = Some p \<and> pt_wkTid p = th_tid ob \<and>
          pt_join p = (if th_joined ob then Joined else Joinable) \<and>
          tw_cells w (th_tid ob) = Some (phase_tid gettid (th_pthreadId ob) (pt_phase p)))
      else \<not> th_joined ob \<and> tw_cells w (th_tid ob) = Some 0)"

text \<open>What a thread says of the objects: the object with its cell is its own, and lives while it is joinable.\<close>

definition pt_ok :: "'f thread_world \<Rightarrow> nat \<Rightarrow> 'f pthread \<Rightarrow> bool" where
  "pt_ok w i p \<longleftrightarrow> i < tw_nextId w \<and> pt_wkTid p < tw_fresh w \<and> (pt_phase p = Created \<longrightarrow> pt_cachedTid p = 0) \<and>
     (pt_join p = Joined \<longrightarrow> pt_phase p = Finished) \<and>
     (\<forall>a ob. tw_objs w a = Some ob \<and> th_tid ob = pt_wkTid p \<longrightarrow> th_started ob \<and> th_pthreadId ob = i) \<and>
     (pt_join p = Joinable \<longrightarrow> (\<exists>a ob. tw_objs w a = Some ob \<and> th_tid ob = pt_wkTid p \<and> \<not> th_joined ob))"

definition cells_apart :: "'f thread_world \<Rightarrow> bool" where
  "cells_apart w \<longleftrightarrow> (\<forall>a b ob ob'. tw_objs w a = Some ob \<and> tw_objs w b = Some ob' \<and> th_tid ob = th_tid ob' \<longrightarrow> a = b)"

definition thread_ok :: "(nat \<Rightarrow> int) \<Rightarrow> 'f thread_world \<Rightarrow> bool" where
  "thread_ok gettid w \<longleftrightarrow> (\<forall>a ob. tw_objs w a = Some ob \<longrightarrow> obj_ok gettid w ob) \<and>
     (\<forall>i p. tw_pthreads w i = Some p \<longrightarrow> pt_ok w i p) \<and> cells_apart w"

lemma thread_okI:
  assumes "\<And>a ob. tw_objs w a = Some ob \<Longrightarrow> obj_ok gettid w ob"
    and "\<And>i p. tw_pthreads w i = Some p \<Longrightarrow> pt_ok w i p" and "cells_apart w"
  shows "thread_ok gettid w"
  using assms by (simp add: thread_ok_def)

lemma thread_okD:
  assumes "thread_ok gettid w"
  shows "tw_objs w a = Some ob \<Longrightarrow> obj_ok gettid w ob"
    and "tw_pthreads w i = Some p \<Longrightarrow> pt_ok w i p" and "cells_apart w"
    and "tw_objs w a = Some ob \<Longrightarrow> tw_objs w b = Some ob' \<Longrightarrow> th_tid ob = th_tid ob' \<Longrightarrow> a = b"
  using assms unfolding thread_ok_def cells_apart_def by blast+

lemma thread_ok_start: "thread_ok gettid thread_world_start"
  by (simp add: thread_ok_def thread_world_start_def cells_apart_def)

text \<open>A thread is not affected by what happens to other objects.\<close>

lemma pt_ok_change:
  assumes "pt_ok w i p" and "tw_nextId w \<le> tw_nextId w'" and "tw_fresh w \<le> tw_fresh w'"
    and "\<And>b ob. th_tid ob = pt_wkTid p \<Longrightarrow> (tw_objs w' b = Some ob) = (tw_objs w b = Some ob)"
  shows "pt_ok w' i p"
proof -
  have "\<exists>b ob. tw_objs w' b = Some ob \<and> th_tid ob = pt_wkTid p \<and> \<not> th_joined ob" if "pt_join p = Joinable"
    using assms(1) that unfolding pt_ok_def by (metis assms(4))
  moreover have "th_started ob \<and> th_pthreadId ob = i" if "tw_objs w' b = Some ob" "th_tid ob = pt_wkTid p" for b ob
    using assms(1) that unfolding pt_ok_def by (metis assms(4))
  ultimately show ?thesis using assms(1-3) by (auto simp: pt_ok_def)
qed

lemma thread_ok_ctor:
  assumes "thread_ok gettid w" and "tw_objs w a = None"
  shows "thread_ok gettid (Thread_ctor a f n w)"
proof (rule thread_okI)
  note D = thread_okD [OF assms(1)]
  have tid: "th_tid ob < tw_fresh w" if "tw_objs w b = Some ob" for b ob using D(1) [OF that] by (simp add: obj_ok_def)
  show "obj_ok gettid (Thread_ctor a f n w) ob" if "tw_objs (Thread_ctor a f n w) b = Some ob" for b ob
  proof (cases "b = a")
    case False
    then have "tw_objs w b = Some ob" using that by (simp add: Thread_ctor_def)
    from D(1) [OF this] show ?thesis by (auto simp: obj_ok_def Thread_ctor_def)
  qed (use that in \<open>auto simp: obj_ok_def Thread_ctor_def\<close>)
  show "pt_ok (Thread_ctor a f n w) i p" if "tw_pthreads (Thread_ctor a f n w) i = Some p" for i p
  proof -
    have "pt_ok w i p" using that by (intro D(2)) (simp add: Thread_ctor_def)
    then show ?thesis
      by (rule pt_ok_change) (use assms(2) \<open>pt_ok w i p\<close> in \<open>auto simp: Thread_ctor_def pt_ok_def\<close>)
  qed
  show "cells_apart (Thread_ctor a f n w)"
    using D(3) tid by (fastforce simp: cells_apart_def Thread_ctor_def)
qed

lemma started_tid:
  assumes "thread_ok gettid w" and "tw_objs w a = Some ob" and "th_started ob"
  obtains p where "tw_pthreads w (th_pthreadId ob) = Some p" "pt_wkTid p = th_tid ob"
    "pt_join p = (if th_joined ob then Joined else Joinable)"
    "tw_cells w (th_tid ob) = Some (phase_tid gettid (th_pthreadId ob) (pt_phase p))"
  using thread_okD(1) [OF assms(1,2)] assms(3) by (auto simp: obj_ok_def)

lemma thread_ok_Start:
  assumes "thread_ok gettid w" and "Thread_start c a w = Inr w'"
  shows "thread_ok gettid w'"
proof -
  note D = thread_okD [OF assms(1)]
  obtain ob where ob: "tw_objs w a = Some ob" "\<not> th_started ob" and w': "w' = w\<lparr>tw_objs := (tw_objs w)(a \<mapsto> ob\<lparr>th_started := True, th_pthreadId := tw_nextId w\<rparr>),
          tw_pthreads := (tw_pthreads w)(tw_nextId w \<mapsto>
            \<lparr>pt_func = th_func ob, pt_name = th_name ob, pt_wkTid = th_tid ob, pt_phase = Created, pt_join = Joinable,
              pt_cachedTid = 0, pt_threadName = ''unknown''\<rparr>),
          tw_nextId := tw_nextId w + 1\<rparr>"
    using assms(2) by (auto simp: Thread_start_def with_thread_def assertC_eq_Inr split: option.splits if_splits)
  have fresh: "tw_pthreads w (tw_nextId w) = None"
    using D(2) [of "tw_nextId w"] by (cases "tw_pthreads w (tw_nextId w)") (auto simp: pt_ok_def)
  have o: "th_tid ob < tw_fresh w" "\<not> th_joined ob" "tw_cells w (th_tid ob) = Some 0"
    using D(1) [OF ob(1)] ob(2) by (simp_all add: obj_ok_def)
  have apart: "th_tid ob' \<noteq> th_tid ob" if "tw_objs w b = Some ob'" "b \<noteq> a" for b ob'
    using D(4) [OF that(1) ob(1)] that(2) by blast
  show ?thesis
  proof (rule thread_okI)
    show "obj_ok gettid w' ob'" if "tw_objs w' b = Some ob'" for b ob'
    proof (cases "b = a")
      case False
      then have b: "tw_objs w b = Some ob'" using that by (simp add: w')
      from D(1) [OF this] show ?thesis using fresh by (auto simp: obj_ok_def w' split: if_splits)
    qed (use that o in \<open>auto simp: w' obj_ok_def phase_tid_def\<close>)
    show "pt_ok w' i p" if "tw_pthreads w' i = Some p" for i p
    proof (cases "i = tw_nextId w")
      case True
      then show ?thesis using that o apart by (auto simp: w' pt_ok_def)
    next
      case False
      then have "pt_ok w i p" using that by (intro D(2)) (simp add: w')
      then have "pt_wkTid p \<noteq> th_tid ob" using ob by (auto simp: pt_ok_def)
      then show ?thesis using ob(1) by (intro pt_ok_change [OF \<open>pt_ok w i p\<close>]) (auto simp: w')
    qed
    show "cells_apart w'" using D(3) ob(1) by (fastforce simp: cells_apart_def w' split: if_splits)
  qed
qed

lemma set_join_eq_Inr:
  "set_join j i w = Inr w' \<longleftrightarrow> (\<exists>p. tw_pthreads w i = Some p \<and> pt_join p = Joinable \<and> (j = Joined \<longrightarrow> pt_phase p = Finished) \<and>
     w' = w\<lparr>tw_pthreads := (tw_pthreads w)(i \<mapsto> p\<lparr>pt_join := j\<rparr>)\<rparr>)"
  by (auto simp: set_join_def split: option.splits)

lemma other_thread:
  assumes "thread_ok gettid w" and "tw_objs w a = Some ob" and "tw_objs w b = Some ob'" and "a \<noteq> b"
    and "th_started ob" and "th_started ob'"
  shows "th_pthreadId ob \<noteq> th_pthreadId ob'"
proof
  assume "th_pthreadId ob = th_pthreadId ob'"
  then have "th_tid ob = th_tid ob'"
    using started_tid [OF assms(1,2,5)] started_tid [OF assms(1,3,6)] by (metis option.inject)
  then show False using thread_okD(4) [OF assms(1-3)] assms(4) by blast
qed

lemma thread_ok_Join:
  assumes "thread_ok gettid w" and "Thread_join a w = Inr w'"
  shows "thread_ok gettid w'"
proof -
  note D = thread_okD [OF assms(1)]
  obtain ob p where ob: "tw_objs w a = Some ob" "th_started ob" "\<not> th_joined ob"
    and p: "tw_pthreads w (th_pthreadId ob) = Some p" "pt_join p = Joinable" "pt_phase p = Finished"
    and w': "w' = w\<lparr>tw_objs := (tw_objs w)(a \<mapsto> ob\<lparr>th_joined := True\<rparr>),
      tw_pthreads := (tw_pthreads w)(th_pthreadId ob \<mapsto> p\<lparr>pt_join := Joined\<rparr>)\<rparr>"
    using assms(2) by (auto simp: Thread_join_def with_thread_def assertC_eq_Inr set_join_eq_Inr split: option.splits)
  show ?thesis
  proof (rule thread_okI)
    show "obj_ok gettid w' ob'" if "tw_objs w' b = Some ob'" for b ob'
    proof (cases "b = a")
      case False
      then have b: "tw_objs w b = Some ob'" using that by (simp add: w')
      have "th_started ob' \<Longrightarrow> th_pthreadId ob' \<noteq> th_pthreadId ob"
        using other_thread [OF assms(1) b ob(1) False _ ob(2)] by blast
      with D(1) [OF b] show ?thesis by (auto simp: obj_ok_def w')
    qed (use that D(1) [OF ob(1)] ob p in \<open>auto simp: w' obj_ok_def\<close>)
    show "pt_ok w' i q" if "tw_pthreads w' i = Some q" for i q
    proof (cases "i = th_pthreadId ob")
      case True
      then show ?thesis using that D(2) [OF p(1)] ob(1,2) p(3) by (auto simp: w' pt_ok_def)
    next
      case False
      then have "pt_ok w i q" using that by (intro D(2)) (simp add: w')
      then have "pt_wkTid q \<noteq> th_tid ob" using ob False by (auto simp: pt_ok_def)
      then show ?thesis using ob(1) by (intro pt_ok_change [OF \<open>pt_ok w i q\<close>]) (auto simp: w')
    qed
    show "cells_apart w'" using D(3) ob(1) by (fastforce simp: cells_apart_def w' split: if_splits)
  qed
qed

lemma thread_ok_remove:
  assumes "thread_ok gettid w" and ob: "tw_objs w a = Some ob"
    and same: "\<And>i. \<not> th_started ob \<or> i \<noteq> th_pthreadId ob \<Longrightarrow> pts i = tw_pthreads w i"
    and own: "\<And>p. th_started ob \<Longrightarrow> tw_pthreads w (th_pthreadId ob) = Some p \<Longrightarrow>
      \<exists>j. pts (th_pthreadId ob) = Some (p\<lparr>pt_join := j\<rparr>) \<and> j \<noteq> Joinable \<and> (j = Joined \<longrightarrow> pt_phase p = Finished)"
  shows "thread_ok gettid (w\<lparr>tw_objs := (tw_objs w)(a := None), tw_cells := (tw_cells w)(th_tid ob := None), tw_pthreads := pts\<rparr>)"
    (is "thread_ok _ ?w")
proof (rule thread_okI)
  note D = thread_okD [OF assms(1)]
  show "obj_ok gettid ?w ob'" if "tw_objs ?w b = Some ob'" for b ob'
  proof -
    have b: "tw_objs w b = Some ob'" "b \<noteq> a" using that by (auto split: if_splits)
    then have "th_tid ob' \<noteq> th_tid ob" using D(4) [OF b(1) ob] by blast
    moreover have "pts (th_pthreadId ob') = tw_pthreads w (th_pthreadId ob')" if "th_started ob'"
      using same other_thread [OF assms(1) b(1) ob b(2) that] by metis
    ultimately show ?thesis using D(1) [OF b(1)] by (auto simp: obj_ok_def)
  qed
  show "cells_apart ?w" using D(3) by (auto simp: cells_apart_def split: if_splits)
  show "pt_ok ?w i p" if "tw_pthreads ?w i = Some p" for i p
  proof (cases "th_started ob \<and> i = th_pthreadId ob")
    case True
    then obtain q where q: "tw_pthreads w i = Some q" "pt_wkTid q = th_tid ob" using started_tid [OF assms(1) ob] by blast
    with own [of q] True obtain j where "pts i = Some (q\<lparr>pt_join := j\<rparr>)" and j: "j \<noteq> Joinable" "j = Joined \<longrightarrow> pt_phase q = Finished" by blast
    with that have p: "p = q\<lparr>pt_join := j\<rparr>" by simp
    show ?thesis using D(2) [OF q(1)] j unfolding p by (auto simp: pt_ok_def split: if_splits)
  next
    case False
    then have i: "tw_pthreads w i = Some p" using that same by auto
    then have "pt_wkTid p \<noteq> th_tid ob" using D(2) [OF i] ob False by (auto simp: pt_ok_def)
    then show ?thesis using ob by (intro pt_ok_change [OF D(2) [OF i]]) auto
  qed
qed

lemma thread_ok_Delete:
  assumes "thread_ok gettid w" and "Thread_dtor a w = Inr w'"
  shows "thread_ok gettid w'"
proof -
  obtain ob where ob: "tw_objs w a = Some ob" using assms(2) by (auto simp: Thread_dtor_def with_thread_def split: option.splits)
  show ?thesis
  proof (cases "th_started ob \<and> \<not> th_joined ob")
    case True
    then obtain p where p: "tw_pthreads w (th_pthreadId ob) = Some p"
      "w' = w\<lparr>tw_objs := (tw_objs w)(a := None), tw_cells := (tw_cells w)(th_tid ob := None),
         tw_pthreads := (tw_pthreads w)(th_pthreadId ob \<mapsto> p\<lparr>pt_join := Detached\<rparr>)\<rparr>"
      using assms(2) ob by (auto simp: Thread_dtor_def with_thread_def bindR_eq_Inr set_join_eq_Inr)
    show ?thesis unfolding p(2) by (rule thread_ok_remove [OF assms(1) ob]) (use p(1) True in auto)
  next
    case False
    then have "w' = w\<lparr>tw_objs := (tw_objs w)(a := None), tw_cells := (tw_cells w)(th_tid ob := None), tw_pthreads := tw_pthreads w\<rparr>"
      using assms(2) ob by (auto simp: Thread_dtor_def with_thread_def)
    moreover have "\<exists>j. tw_pthreads w (th_pthreadId ob) = Some (p\<lparr>pt_join := j\<rparr>) \<and> j \<noteq> Joinable \<and> (j = Joined \<longrightarrow> pt_phase p = Finished)"
      if started: "th_started ob" and thr: "tw_pthreads w (th_pthreadId ob) = Some p" for p
    proof (rule exI [of _ "pt_join p"])
      obtain q where "tw_pthreads w (th_pthreadId ob) = Some q" "pt_join q = Joined"
        by (rule started_tid [OF assms(1) ob started]) (use started False in auto)
      with thr thread_okD(2) [OF assms(1) thr]
      show "tw_pthreads w (th_pthreadId ob) = Some (p\<lparr>pt_join := pt_join p\<rparr>) \<and> pt_join p \<noteq> Joinable \<and>
          (pt_join p = Joined \<longrightarrow> pt_phase p = Finished)"
        by (simp add: pt_ok_def)
    qed
    ultimately show ?thesis using thread_ok_remove [OF assms(1) ob, of "tw_pthreads w"] by simp
  qed
qed

text \<open>What a running thread does to the world.\<close>

lemma thread_ok_run:
  assumes "thread_ok gettid w" and i: "tw_pthreads w i = Some p"
    and p': "pt_wkTid p' = pt_wkTid p" "pt_join p' = pt_join p" "pt_phase p' \<noteq> Created" "pt_phase p \<noteq> Finished"
    and cells: "\<And>c. c \<noteq> pt_wkTid p \<Longrightarrow> cells c = tw_cells w c"
      "tw_cells w (pt_wkTid p) = Some (phase_tid gettid i (pt_phase p)) \<Longrightarrow> cells (pt_wkTid p) = Some (gettid i)"
  shows "thread_ok gettid (w\<lparr>tw_cells := cells, tw_pthreads := (tw_pthreads w)(i \<mapsto> p')\<rparr>)" (is "thread_ok _ ?w")
proof (rule thread_okI)
  note D = thread_okD [OF assms(1)]
  show "obj_ok gettid ?w ob" if "tw_objs ?w a = Some ob" for a ob
  proof -
    have a: "tw_objs w a = Some ob" using that by simp
    show ?thesis
    proof (cases "th_tid ob = pt_wkTid p")
      case True
      then have "th_started ob" "th_pthreadId ob = i" using D(2) [OF i] a by (auto simp: pt_ok_def)
      then show ?thesis using D(1) [OF a] True i p' cells(2) by (auto simp: obj_ok_def phase_tid_def)
    next
      case False
      then show ?thesis using D(1) [OF a] i by (auto simp: obj_ok_def cells)
    qed
  qed
  show "pt_ok ?w j q" if "tw_pthreads ?w j = Some q" for j q
  proof (cases "j = i")
    case True
    then show ?thesis using that D(2) [OF i] p' by (auto simp: pt_ok_def)
  next
    case False
    then have "pt_ok w j q" using that by (intro D(2)) simp
    then show ?thesis by (rule pt_ok_change) simp_all
  qed
  show "cells_apart ?w" using D(3) by (simp add: cells_apart_def)
qed

lemma thread_ok_Enter:
  assumes "thread_ok gettid w"
  shows "thread_ok gettid (runInThread_enter gettid i w)"
proof (cases "\<exists>p. tw_pthreads w i = Some p \<and> pt_phase p = Created")
  case True
  then obtain p where p: "tw_pthreads w i = Some p" "pt_phase p = Created" by blast
  then have "pt_cachedTid p = 0" using thread_okD(2) [OF assms p(1)] by (simp add: pt_ok_def)
  let ?cells = "if tw_cells w (pt_wkTid p) = None then tw_cells w else (tw_cells w)(pt_wkTid p \<mapsto> gettid i)"
  let ?p = "p\<lparr>pt_phase := Running, pt_cachedTid := gettid i,
    pt_threadName := (if pt_name p = [] then ''jiangboThread'' else pt_name p)\<rparr>"
  have "runInThread_enter gettid i w = w\<lparr>tw_cells := ?cells, tw_pthreads := (tw_pthreads w)(i \<mapsto> ?p)\<rparr>"
    using p \<open>pt_cachedTid p = 0\<close> by (simp add: runInThread_enter_def CurrentThread_tid_def Let_def)
  moreover have "thread_ok gettid (w\<lparr>tw_cells := ?cells, tw_pthreads := (tw_pthreads w)(i \<mapsto> ?p)\<rparr>)"
    by (rule thread_ok_run [OF assms p(1)]) (simp_all add: p(2))
  ultimately show ?thesis by simp
qed (use assms in \<open>auto simp: runInThread_enter_def split: option.split\<close>)

lemma thread_ok_Leave:
  assumes "thread_ok gettid w"
  shows "thread_ok gettid (runInThread_leave i w)"
proof (cases "\<exists>p. tw_pthreads w i = Some p \<and> pt_phase p = Running")
  case True
  then obtain p where p: "tw_pthreads w i = Some p" "pt_phase p = Running" by blast
  then show ?thesis using thread_ok_run [OF assms p(1), where cells = "tw_cells w"]
    by (simp add: runInThread_leave_def phase_tid_def)
qed (use assms in \<open>auto simp: runInThread_leave_def split: option.split\<close>)

lemma thread_ok_op: "thread_ok gettid w \<Longrightarrow> thread_op gettid x w = Inr w' \<Longrightarrow> thread_ok gettid w'"
  by (cases x) (auto split: if_splits
      intro: thread_ok_ctor thread_ok_Start thread_ok_Join thread_ok_Delete thread_ok_Enter thread_ok_Leave)

lemma thread_ok_run_ops: "foldR (thread_op gettid) ops thread_world_start = Inr w \<Longrightarrow> thread_ok gettid w"
  by (rule foldR_invariant [where I = "thread_ok gettid", OF _ thread_ok_start thread_ok_op])

lemma set_join_owned:
  assumes "thread_ok gettid w" and "tw_objs w a = Some ob" and "th_started ob" and "\<not> th_joined ob"
    and "tw_pthreads w' = tw_pthreads w"
  shows "set_join j (th_pthreadId ob) w' \<noteq> Inl NotOwner"
proof -
  obtain p where "tw_pthreads w (th_pthreadId ob) = Some p" "pt_join p = Joinable"
    by (rule started_tid [OF assms(1-3)]) (use assms(4) in auto)
  then show ?thesis using assms(5) by (simp add: set_join_def)
qed

lemma thread_op_owner:
  assumes "thread_ok gettid w"
  shows "thread_op gettid x w \<noteq> Inl NotOwner"
proof (cases x)
  case (Join a)
  then show ?thesis using set_join_owned [OF assms, of a]
    by (auto simp: Thread_join_def with_thread_def assertC_def split: option.split)
next
  case (Delete a)
  then show ?thesis using set_join_owned [OF assms, of a _ w Detached]
    by (auto simp: Thread_dtor_def with_thread_def bindR_def split: option.split sum.split)
qed (auto simp: Thread_start_def with_thread_def assertC_def split: option.split)

fun is_New :: "'f thread_call \<Rightarrow> bool" where
  "is_New (New a f n) = True"
| "is_New _ = False"

lemma numCreated_op:
  "thread_op gettid x w = Inr w' \<Longrightarrow> tw_numCreated w' = tw_numCreated w + (if is_New x then 1 else 0)"
  by (cases x) (auto simp: Thread_ctor_def Thread_start_def Thread_join_def Thread_dtor_def with_thread_def set_join_eq_Inr
      runInThread_enter_def runInThread_leave_def increment_def Let_def res_simps split: option.splits if_splits prod.splits)

lemma numCreated_run:
  "foldR (thread_op gettid) ops w = Inr w' \<Longrightarrow> tw_numCreated w' = tw_numCreated w + of_nat (length (filter is_New ops))"
  by (induction ops arbitrary: w) (auto dest!: numCreated_op)

section \<open>Properties\<close>

text \<open>(C20) The life of a \<^verbatim>\<open>Thread\<close> object: after any sequence of constructions, starts, joins, destructions and
  steps of the threads themselves, no call joins or detaches a thread that is not joinable, so each thread
  is joined or detached at most once; every thread that is still joinable has a live object that was
  started and not joined, so none is left behind once the objects are gone; a joined object's thread has
  finished and \<^verbatim>\<open>tid()\<close> is the number the system gave it; and \<^verbatim>\<open>numCreated\<close> counts the objects modulo
  \<open>2 ^ 32\<close>.\<close>

theorem Thread_lifecycle:
  assumes "foldR (thread_op gettid) ops thread_world_start = Inr w"
  shows "(\<forall>x. thread_op gettid x w \<noteq> Inl NotOwner) \<and>
    (\<forall>i p. tw_pthreads w i = Some p \<and> pt_join p = Joinable \<longrightarrow>
      (\<exists>a ob. tw_objs w a = Some ob \<and> th_started ob \<and> \<not> th_joined ob \<and> th_pthreadId ob = i)) \<and>
    (\<forall>a ob. tw_objs w a = Some ob \<and> th_joined ob \<longrightarrow>
      Thread_get_tid a w = Inr (gettid (th_pthreadId ob)) \<and>
      (\<exists>p. tw_pthreads w (th_pthreadId ob) = Some p \<and> pt_phase p = Finished)) \<and>
    tw_numCreated w = of_nat (length (filter is_New ops))"
proof (intro conjI allI impI)
  have ok: "thread_ok gettid w" by (rule thread_ok_run_ops [OF assms])
  note D = thread_okD [OF ok]
  show "thread_op gettid x w \<noteq> Inl NotOwner" for x by (rule thread_op_owner [OF ok])
  show "\<exists>a ob. tw_objs w a = Some ob \<and> th_started ob \<and> \<not> th_joined ob \<and> th_pthreadId ob = i"
    if "tw_pthreads w i = Some p \<and> pt_join p = Joinable" for i p
    using D(2) [of i p] that by (auto simp: pt_ok_def)
  fix a ob
  assume a: "tw_objs w a = Some ob \<and> th_joined ob"
  then have "th_started ob" using D(1) [of a ob] by (auto simp: obj_ok_def split: if_splits)
  then obtain p where p: "tw_pthreads w (th_pthreadId ob) = Some p" "pt_join p = Joined"
    "tw_cells w (th_tid ob) = Some (phase_tid gettid (th_pthreadId ob) (pt_phase p))"
    by (rule started_tid [OF ok conjunct1 [OF a]]) (use a in auto)
  moreover have "pt_phase p = Finished" using D(2) [OF p(1)] p(2) by (simp add: pt_ok_def)
  ultimately show "Thread_get_tid a w = Inr (gettid (th_pthreadId ob))"
    "\<exists>p. tw_pthreads w (th_pthreadId ob) = Some p \<and> pt_phase p = Finished"
    using a by (auto simp: Thread_get_tid_def phase_tid_def)
next
  show "tw_numCreated w = of_nat (length (filter is_New ops))"
    using numCreated_run [OF assms] by (simp add: thread_world_start_def atomic_new_def)
qed

text \<open>Two threads: one is joined, the other detached by the destructor.\<close>

theorem Thread_lifecycle_witness:
  "\<exists>w. foldR (thread_op (\<lambda>i. 1000 + int i))
      [New 0 True ''a'', New 1 False [], Start True 0, Start True 1, Enter 1, Enter 2, Leave 1, Join 0, Delete 1] thread_world_start = Inr w \<and>
     Thread_get_tid 0 w = Inr 1001 \<and> tw_numCreated w = 2 \<and> (\<forall>x. thread_op (\<lambda>i. 1000 + int i) x w \<noteq> Inl NotOwner)"
proof -
  let ?ops = "[New 0 True ''a'', New 1 False [], Start True 0, Start True 1, Enter 1, Enter 2, Leave 1, Join 0, Delete 1]"
  note run = thread_world_start_def Thread_ctor_def Thread_start_def Thread_join_def Thread_dtor_def with_thread_def set_join_def
    runInThread_enter_def runInThread_leave_def CurrentThread_tid_def Thread_get_tid_def
  obtain w where w: "foldR (thread_op (\<lambda>i. 1000 + int i)) ?ops thread_world_start = Inr w" "Thread_get_tid 0 w = Inr 1001"
    by (simp add: run)
  with Thread_lifecycle [OF w(1)] show ?thesis by (intro exI [of _ w]) simp
qed

end
