(* ===== verification/Thread_Pool.thy ===== *)
theory Thread_Pool
  imports Wait_Notify
begin

text \<open>
  \<^verbatim>\<open>threadpool\<close> (src/thread/thread_pool.cc): a queue of tasks under one mutex and a condition variable, and
  worker threads that run \<^verbatim>\<open>threadFunc\<close>. What happens while \<^verbatim>\<open>mutex_\<close> is held is one step; \<^verbatim>\<open>running_\<close> is read
  and written without it. A functor is an option, \<open>None\<close> the empty \<^verbatim>\<open>boost::function\<close>, whose call throws. The
  history variables record the tasks that were queued, taken and run. The controlling thread is the one
  that calls \<^verbatim>\<open>start\<close>, \<^verbatim>\<open>push\<close> and \<^verbatim>\<open>stop\<close>.
\<close>

section \<open>Model\<close>

type_synonym 'f task_fn = "'f option"

datatype 'f worker_pc =
    W_none \<comment> \<open>no such thread\<close>
  | W_loop \<comment> \<open>about to test \<^verbatim>\<open>running_\<close>\<close>
  | W_take \<comment> \<open>in \<^verbatim>\<open>take\<close>, about to lock\<close>
  | W_wait \<comment> \<open>asleep in \<^verbatim>\<open>cond_.wait\<close>\<close>
  | W_got "'f task_fn" \<comment> \<open>\<^verbatim>\<open>take\<close> has returned\<close>
  | W_exit
  | W_joined

datatype control_pc = C_free | C_joining nat

record 'f pool =
  pool_running :: bool
  pool_threadsNum :: int
  pool_threads :: nat \<comment> \<open>the size of \<^verbatim>\<open>threads_\<close>\<close>
  pool_tasks :: "'f task_fn list"
  pool_pc :: "nat \<Rightarrow> 'f worker_pc"
  pool_control :: control_pc
  pool_pushed :: "'f task_fn list"
  pool_taken :: "'f task_fn list"
  pool_ran :: "'f list"

definition threadpool :: "'f pool" where
  "threadpool = \<lparr>pool_running = False, pool_threadsNum = 0, pool_threads = 0, pool_tasks = [], pool_pc = (\<lambda>_. W_none),
     pool_control = C_free, pool_pushed = [], pool_taken = [], pool_ran = []\<rparr>"

definition pool_goto :: "nat \<Rightarrow> 'f worker_pc \<Rightarrow> 'f pool \<Rightarrow> 'f pool" where
  "pool_goto i p s = s\<lparr>pool_pc := (pool_pc s)(i := p)\<rparr>"

definition setThreadsnum :: "int \<Rightarrow> 'f pool \<Rightarrow> 'f pool" where
  "setThreadsnum Threadsnum s = s\<lparr>pool_threadsNum := Threadsnum\<rparr>"

definition add_thread :: "'f pool \<Rightarrow> 'f pool" where
  "add_thread s = pool_goto (pool_threads s) W_loop (s\<lparr>pool_threads := Suc (pool_threads s)\<rparr>)"

definition pool_start :: "'f pool \<Rightarrow> 'f pool res" where
  "pool_start s = assertC (\<not> pool_running s)
     (Inr ((add_thread ^^ nat (pool_threadsNum s)) (s\<lparr>pool_running := True\<rparr>)))"

text \<open>\<^verbatim>\<open>notify_one\<close> wakes some sleeping worker, if there is one.\<close>

definition can_wake :: "nat option \<Rightarrow> 'f pool \<Rightarrow> bool" where
  "can_wake w s = (case w of None \<Rightarrow> \<forall>i. pool_pc s i \<noteq> W_wait | Some i \<Rightarrow> pool_pc s i = W_wait)"

definition wake_one :: "nat option \<Rightarrow> 'f pool \<Rightarrow> 'f pool" where
  "wake_one w s = (case w of None \<Rightarrow> s | Some i \<Rightarrow> pool_goto i W_take s)"

definition call_functor :: "'f task_fn \<Rightarrow> 'f pool \<Rightarrow> 'f pool res" where
  "call_functor f s = (case f of None \<Rightarrow> Inl BadFunctionCall | Some g \<Rightarrow> Inr (s\<lparr>pool_ran := pool_ran s @ [g]\<rparr>))"

definition pool_push :: "'f task_fn \<Rightarrow> nat option \<Rightarrow> 'f pool \<Rightarrow> 'f pool res" where
  "pool_push cb w s =
     (if pool_threads s = 0 then call_functor cb s
      else Inr (wake_one w (s\<lparr>pool_tasks := pool_tasks s @ [cb], pool_pushed := pool_pushed s @ [cb]\<rparr>)))"

text \<open>\<^verbatim>\<open>stop\<close> up to the joins, and the join of one thread after another.\<close>

definition pool_stop :: "'f pool \<Rightarrow> 'f pool res" where
  "pool_stop s = assertC (pool_running s) (Inr (s\<lparr>pool_running := False, pool_control := C_joining 0\<rparr>))"

definition pool_join :: "nat \<Rightarrow> 'f pool \<Rightarrow> 'f pool res" where
  "pool_join i s =
     (if i = pool_threads s then Inr (s\<lparr>pool_control := C_free\<rparr>)
      else case pool_pc s i of
        W_exit \<Rightarrow> Inr (pool_goto i W_joined (s\<lparr>pool_control := C_joining (Suc i)\<rparr>))
      | W_joined \<Rightarrow> Inl SystemError
      | _ \<Rightarrow> Inl WouldBlock)"

text \<open>The parts of \<^verbatim>\<open>threadFunc\<close> of worker \<open>i\<close>.\<close>

definition worker_loop :: "nat \<Rightarrow> 'f pool \<Rightarrow> 'f pool" where
  "worker_loop i s = pool_goto i (if pool_running s then W_take else W_exit) s"

definition worker_take :: "nat \<Rightarrow> 'f pool \<Rightarrow> 'f pool" where
  "worker_take i s =
     (if pool_tasks s = [] \<and> pool_running s then pool_goto i W_wait s
      else case pool_tasks s of
        [] \<Rightarrow> pool_goto i (W_got None) s
      | task # rest \<Rightarrow> pool_goto i (W_got task) (s\<lparr>pool_tasks := rest, pool_taken := pool_taken s @ [task]\<rparr>))"

definition worker_run :: "nat \<Rightarrow> 'f task_fn \<Rightarrow> 'f pool \<Rightarrow> 'f pool res" where
  "worker_run i task s = bindR (if task = None then call_functor task s else Inr s) (\<lambda>s. Inr (pool_goto i W_loop s))"

inductive pool_step :: "bool \<Rightarrow> 'f pool \<Rightarrow> 'f pool \<Rightarrow> bool" for spurious_wakeups :: bool where
  set_num: "pool_control s = C_free \<Longrightarrow> pool_step spurious_wakeups s (setThreadsnum n s)"
| start: "pool_control s = C_free \<Longrightarrow> pool_start s = Inr s' \<Longrightarrow> pool_step spurious_wakeups s s'"
| push: "pool_control s = C_free \<Longrightarrow> can_wake w s \<Longrightarrow> pool_push cb w s = Inr s' \<Longrightarrow> pool_step spurious_wakeups s s'"
| stop: "pool_control s = C_free \<Longrightarrow> pool_stop s = Inr s' \<Longrightarrow> pool_step spurious_wakeups s s'"
| join: "pool_control s = C_joining i \<Longrightarrow> pool_join i s = Inr s' \<Longrightarrow> pool_step spurious_wakeups s s'"
| loop: "pool_pc s i = W_loop \<Longrightarrow> pool_step spurious_wakeups s (worker_loop i s)"
| take: "pool_pc s i = W_take \<Longrightarrow> pool_step spurious_wakeups s (worker_take i s)"
| run: "pool_pc s i = W_got task \<Longrightarrow> worker_run i task s = Inr s' \<Longrightarrow> pool_step spurious_wakeups s s'"
| wake: "spurious_wakeups \<Longrightarrow> pool_pc s i = W_wait \<Longrightarrow> pool_step spurious_wakeups s (pool_goto i W_take s)"

section \<open>Lemmas\<close>

lemma pool_goto_sel [simp]:
  "pool_running (pool_goto i p s) = pool_running s" "pool_threads (pool_goto i p s) = pool_threads s"
  "pool_tasks (pool_goto i p s) = pool_tasks s" "pool_pushed (pool_goto i p s) = pool_pushed s"
  "pool_taken (pool_goto i p s) = pool_taken s" "pool_ran (pool_goto i p s) = pool_ran s"
  "pool_control (pool_goto i p s) = pool_control s" "pool_pc (pool_goto i p s) = (pool_pc s)(i := p)"
  "pool_threadsNum (pool_goto i p s) = pool_threadsNum s"
  by (simp_all add: pool_goto_def)

lemma add_threads_sel:
  "pool_threads ((add_thread ^^ n) s) = pool_threads s + n \<and> pool_tasks ((add_thread ^^ n) s) = pool_tasks s \<and>
   pool_pushed ((add_thread ^^ n) s) = pool_pushed s \<and> pool_taken ((add_thread ^^ n) s) = pool_taken s \<and>
   pool_ran ((add_thread ^^ n) s) = pool_ran s \<and> pool_running ((add_thread ^^ n) s) = pool_running s"
  by (induction n) (simp_all add: add_thread_def)

text \<open>What is taken has been pushed, in order and once.\<close>

lemma pool_queue_step:
  "pool_step sp s s' \<Longrightarrow> pool_pushed s = pool_taken s @ pool_tasks s \<Longrightarrow> pool_pushed s' = pool_taken s' @ pool_tasks s'"
  by (erule pool_step.cases)
    (auto simp: setThreadsnum_def pool_start_def pool_push_def wake_one_def call_functor_def pool_stop_def pool_join_def
      worker_loop_def worker_take_def worker_run_def add_threads_sel res_simps
      split: if_splits option.splits list.splits worker_pc.splits)

lemma pool_ran_step:
  "pool_step sp s s' \<Longrightarrow> 0 < pool_threads s \<Longrightarrow> pool_ran s' = pool_ran s \<and> 0 < pool_threads s'"
  by (erule pool_step.cases)
    (auto simp: setThreadsnum_def pool_start_def pool_push_def wake_one_def call_functor_def pool_stop_def pool_join_def
      worker_loop_def worker_take_def worker_run_def add_threads_sel res_simps
      split: if_splits option.splits list.splits worker_pc.splits)

lemma pool_ran_reach:
  assumes "reach (pool_step sp) s s'" and "0 < pool_threads s"
  shows "pool_ran s' = pool_ran s \<and> 0 < pool_threads s'"
proof (rule reach_invariant [OF assms(1), where I = "\<lambda>x. pool_ran x = pool_ran s \<and> 0 < pool_threads x"])
  show "pool_ran v = pool_ran s \<and> 0 < pool_threads v"
    if "pool_ran u = pool_ran s \<and> 0 < pool_threads u" "pool_step sp u v" for u v
    using pool_ran_step [OF that(2)] that(1) by simp
qed (use assms(2) in simp)

lemma pool_queue_reach:
  assumes "reach (pool_step sp) (threadpool :: 'f pool) s"
  shows "pool_pushed s = pool_taken s @ pool_tasks s"
proof (rule reach_invariant [OF assms])
  show "pool_pushed (threadpool :: 'f pool) = pool_taken threadpool @ pool_tasks threadpool"
    by (simp add: threadpool_def)
qed (rule pool_queue_step)

text \<open>A pool with one worker that has nothing to do.\<close>

definition idle_pool :: "'f pool" where
  "idle_pool = threadpool\<lparr>pool_threadsNum := 1, pool_running := True, pool_threads := 1, pool_pc := (\<lambda>_. W_none)(0 := W_wait)\<rparr>"

lemma idle_pool_reach: "reach (pool_step sp) threadpool (idle_pool :: 'f pool)"
proof -
  let ?s1 = "setThreadsnum 1 (threadpool :: 'f pool)" and ?s2 = "add_thread ((threadpool :: 'f pool)\<lparr>pool_threadsNum := 1, pool_running := True\<rparr>)"
  let ?s3 = "worker_loop 0 ?s2"
  note run = threadpool_def setThreadsnum_def add_thread_def worker_loop_def worker_take_def pool_goto_def
  have "reach (pool_step sp) threadpool ?s1"
    by (rule reach_step [OF reach_refl], rule pool_step.set_num) (simp add: threadpool_def)
  then have "reach (pool_step sp) threadpool ?s2"
    by - (erule reach_step, rule pool_step.start, simp_all add: run pool_start_def)
  then have "reach (pool_step sp) threadpool ?s3"
    by - (erule reach_step, rule pool_step.loop, simp add: run)
  then have "reach (pool_step sp) threadpool (worker_take 0 ?s3)"
    by - (erule reach_step, rule pool_step.take, simp add: run)
  moreover have "worker_take 0 ?s3 = idle_pool" by (simp add: run idle_pool_def)
  ultimately show ?thesis by simp
qed

text \<open>\<^verbatim>\<open>stop\<close> while the worker is asleep: it waits for the worker, which nobody wakes.\<close>

definition stopping_pool :: "'f pool" where
  "stopping_pool = idle_pool\<lparr>pool_running := False, pool_control := C_joining 0\<rparr>"

lemma stopping_pool_stop: "pool_stop idle_pool = Inr stopping_pool"
  by (simp add: pool_stop_def stopping_pool_def idle_pool_def)

lemma stopping_pool_stuck: "\<not> pool_step False stopping_pool s"
  by (auto elim!: pool_step.cases simp: stopping_pool_def idle_pool_def threadpool_def pool_join_def split: if_splits)

lemma stopping_pool_crash:
  "\<exists>s. reach (pool_step True) stopping_pool s \<and> pool_pc s 0 = W_got None \<and> worker_run 0 None s = Inl BadFunctionCall"
proof -
  let ?s1 = "pool_goto 0 W_take (stopping_pool :: 'f pool)"
  note run = stopping_pool_def idle_pool_def threadpool_def
  have "reach (pool_step True) stopping_pool ?s1"
    by (rule reach_step [OF reach_refl], rule pool_step.wake) (simp_all add: run)
  then have r: "reach (pool_step True) stopping_pool (worker_take 0 ?s1)"
    by - (erule reach_step, rule pool_step.take, simp add: run)
  have "pool_pc (worker_take 0 ?s1) 0 = W_got None" by (simp add: worker_take_def run)
  then show ?thesis using r by (intro exI conjI) (assumption+, simp add: worker_run_def call_functor_def)
qed

section \<open>Properties\<close>

text \<open>(C38) A thread pool takes the pushed tasks in order and each at most once, but no worker ever runs one: the test
  in \<^verbatim>\<open>threadFunc\<close> is inverted, so that from the first thread on nothing is run in any interleaving. \<^verbatim>\<open>stop\<close>
  does not notify: if the only worker sleeps, then \<^verbatim>\<open>stop\<close> and the worker are stuck for good, and if the
  worker wakes by itself it calls an empty functor, which ends the program. Destroying a pool that was
  never started fails an assertion.\<close>

theorem threadpool_never_runs_tasks:
  "(\<forall>s s'. reach (pool_step sp) (threadpool :: 'f pool) s \<and> reach (pool_step sp) s s' \<longrightarrow>
      pool_pushed s' = pool_taken s' @ pool_tasks s' \<and> (0 < pool_threads s \<longrightarrow> pool_ran s' = pool_ran s)) \<and>
   (\<exists>s s1. reach (pool_step False) (threadpool :: 'f pool) s \<and> pool_stop s = Inr s1 \<and>
      (\<forall>s2. \<not> pool_step False s1 s2) \<and>
      (\<exists>s3. reach (pool_step True) s1 s3 \<and> pool_pc s3 0 = W_got None \<and> worker_run 0 None s3 = Inl BadFunctionCall)) \<and>
   pool_stop (threadpool :: 'f pool) = Inl AssertFailed"
proof (intro conjI allI impI)
  fix s s' :: "'f pool"
  assume r: "reach (pool_step sp) threadpool s \<and> reach (pool_step sp) s s'"
  then have "reach (pool_step sp) threadpool s'" by (elim conjE) (rule reach_trans)
  then show "pool_pushed s' = pool_taken s' @ pool_tasks s'" by (rule pool_queue_reach)
  show "pool_ran s' = pool_ran s" if "0 < pool_threads s" by (rule pool_ran_reach [OF conjunct2 [OF r] that, THEN conjunct1])
next
  show "\<exists>s s1. reach (pool_step False) (threadpool :: 'f pool) s \<and> pool_stop s = Inr s1 \<and>
      (\<forall>s2. \<not> pool_step False s1 s2) \<and>
      (\<exists>s3. reach (pool_step True) s1 s3 \<and> pool_pc s3 0 = W_got None \<and> worker_run 0 None s3 = Inl BadFunctionCall)"
    by (rule exI [of _ idle_pool], rule exI [of _ stopping_pool],
        intro conjI allI idle_pool_reach stopping_pool_stop stopping_pool_stuck stopping_pool_crash)
qed (simp add: pool_stop_def threadpool_def)

text \<open>A task for the idle worker: it is taken and lost.\<close>

theorem threadpool_never_runs_tasks_witness:
  "\<exists>s. reach (pool_step False) threadpool s \<and> pool_taken s = [Some (5 :: int)] \<and> pool_pc s 0 = W_loop \<and> pool_ran s = []"
proof -
  let ?s1 = "wake_one (Some 0) ((idle_pool :: int pool)\<lparr>pool_tasks := [Some 5], pool_pushed := [Some 5]\<rparr>)"
  let ?s2 = "worker_take 0 ?s1"
  let ?s3 = "pool_goto 0 W_loop ?s2"
  note run = idle_pool_def threadpool_def wake_one_def worker_take_def worker_run_def
  have "reach (pool_step False) idle_pool ?s1"
    by (rule reach_step [OF reach_refl], rule pool_step.push [where w = "Some 0" and cb = "Some 5"])
      (simp_all add: run pool_push_def can_wake_def)
  then have "reach (pool_step False) idle_pool ?s2"
    by - (erule reach_step, rule pool_step.take, simp add: run)
  then have r: "reach (pool_step False) idle_pool ?s3"
    by - (erule reach_step, rule pool_step.run [where i = 0 and task = "Some 5"], simp_all add: run)
  from threadpool_never_runs_tasks [THEN conjunct1, rule_format, OF conjI, OF idle_pool_reach r]
  have "pool_pushed ?s3 = pool_taken ?s3 @ pool_tasks ?s3" "pool_ran ?s3 = pool_ran (idle_pool :: int pool)"
    by (auto simp: idle_pool_def)
  moreover have "pool_ran (idle_pool :: int pool) = []" "pool_pc ?s3 0 = W_loop" "pool_taken ?s3 = [Some 5]"
    by (simp_all add: run)
  ultimately show ?thesis using reach_trans [OF r idle_pool_reach] by (intro exI [of _ ?s3]) simp
qed

end
