(* ===== verification/Spec2Isabelle.thy ===== *)
theory Spec2Isabelle
  imports Tcp_Server Loop_Thread Echo_Server Connection_Close Pingpong_Client Pingpong_Bench Log_File Thread_Queues Linked_Queue Node_Queue_Program Thread_Experiments Lookup_Table Queue_Programs Net_Programs Loop_Construction Server_Run Timer_Program Log_Programs Stream_Tests Shared_Ptr Hierarchical_Mutex Mutex_Lock Threads Thread_Pool
begin

text \<open>
  A model of LearnForCpp: a reactor-style network library in C++ (src/reactor), with its time stamps
  (src/timestamp), its logging (src/logging), its threads and concurrent containers (src/thread), and
  the echo and ping-pong programs built on it (src/example).

  \<^bold>\<open>The program.\<close> An \<^verbatim>\<open>EventLoop\<close> belongs to one thread. Its \<^verbatim>\<open>Epoller\<close> waits for events of file descriptors;
  each descriptor is served by a \<^verbatim>\<open>Channel\<close>, which calls the handler that fits the event. A loop also runs
  tasks that other threads queue (waking it through an eventfd) and timers (a \<^verbatim>\<open>TimerQueue\<close> on a timerfd).
  \<^verbatim>\<open>Acceptor\<close> and \<^verbatim>\<open>Connector\<close> make sockets, \<^verbatim>\<open>TcpConnection\<close> moves bytes between a socket and two \<^verbatim>\<open>Buffer\<close>s,
  \<^verbatim>\<open>TcpServer\<close> and \<^verbatim>\<open>TcpClient\<close> own connections and hand them to the loops of an \<^verbatim>\<open>EventLoopThreadPool\<close>. A log
  statement formats a line into a \<^verbatim>\<open>LoggingStream\<close>, and a \<^verbatim>\<open>LogFile\<close> stores lines. The containers, mutexes and
  the thread pool under src/thread stand on their own.

  \<^bold>\<open>Conventions.\<close> A class is a \<open>record\<close> with the members of the source, a function of the source a
  definition of the same name (with the class as a prefix where names repeat). Objects reached through
  pointers live in maps from addresses to records. An operation that can end the program has the type
  \<open>'a res = fault + 'a\<close> (theory \<open>Prelude\<close>): a failed assertion, a fatal log line, a thrown exception, an
  access outside an array or to a deleted object is a value of \<open>fault\<close>, and so is \<open>WouldBlock\<close>, a call that
  does not return. The make files do not define \<^verbatim>\<open>NDEBUG\<close>, so assertions are active. \<^verbatim>\<open>size_t\<close> wraps modulo
  \<open>2 ^ 64\<close>, event masks, ports, hashes and counters are words, times are integers with \<open>in_int64\<close> where
  the width matters.

  \<^bold>\<open>Parameters.\<close> What lies outside the repository is an argument: \<open>os\<close>, the kernel, gives the answer to a
  system call from the history of earlier calls, so a theorem for all \<open>os\<close> covers every behaviour of the
  system; \<open>io\<close> does the same for the calls of the C library on log files; \<open>ntop\<close>, \<open>pton\<close> and the broken-down
  time are the conversions of the C library; \<open>rnd\<close> is the rounding of floating-point numbers; \<open>garbage\<close> is
  what an uninitialised member holds; \<open>ub\<close> and \<open>user_task\<close> are the callbacks of the application, which
  \<open>Echo_Server\<close> instantiates; \<open>gettid\<close> numbers the threads; the hash function of the lookup table is
  arbitrary. Hypotheses about them are documented behaviour only: \<open>write_ok\<close> and \<open>read_ok\<close> say that the
  kernel reports no more bytes than it was given or has delivered, \<open>fresh_fds\<close> that a new descriptor is not in use,
  \<open>reports_io\<close> that \<^verbatim>\<open>epoll_wait\<close> reports registered descriptors only, and as many as there is room for.

  \<^bold>\<open>Theories, and what their lemmas show.\<close>
  \<^item> \<open>Prelude\<close>: outcomes, machine sizes, C division, parts of arrays.
  \<^item> \<open>Stream_Interface\<close>, \<open>Byte_Buffer\<close> (Buffer.h, Buffer.cc): the contract of a byte stream as a locale, its
    interpretation by \<^verbatim>\<open>Buffer\<close>, the invariant through every sequence of operations up to the first call whose
    precondition is violated, \<^verbatim>\<open>readFd\<close> and \<^verbatim>\<open>shrink\<close>.
  \<^item> \<open>Decimal\<close>, \<open>Timestamps\<close> (TimeStamp.h, TimeStamp.cc), \<open>Inet_Address\<close> (InetAddress.h/.cc and the byte order
    functions of Socketops.h): printed forms and what can be read back from them.
  \<^item> \<open>Reactor_State\<close>, \<open>Event_Dispatch\<close> (Channel, Epoller), \<open>Event_Loop\<close> (EventLoop.cc), \<open>Timer_Queue\<close> (Timer,
    TimerQueue): the channel map, the registered channels and the kernel's interest list agree after any
    operations; a poll returns the channels of the reported descriptors with their masks; tasks run once and in
    order; when a task of another thread wakes the loop; timers are kept in order and rescheduled. \<^verbatim>\<open>loop()\<close> is a
    \<open>partial_function\<close> whose runs \<open>Server_Run\<close> and \<open>Loop_Programs\<close> follow.
  \<^item> \<open>Sockets\<close> (Socketops.cc, Socket), \<open>Tcp_Connection\<close>, \<open>Connecting\<close> (Acceptor, Connector), \<open>Tcp_Server\<close>
    (EventLoopThread, EventLoopThreadPool, TcpServer, TcpClient, and \<open>run_task\<close> and \<open>run_callback\<close>, which give
    every queued task and handler its meaning): a connection refines a byte stream and its operations do
    not fail; outcomes of connecting; hand-out of connections.
  \<^item> \<open>Loop_Thread\<close> (EventLoopThread): its two threads as a step relation; \<^verbatim>\<open>startLoop\<close> returns the loop the new
    thread has published, within a number of steps, and the destructor never completes.
  \<^item> \<open>Output_Frame\<close>: what the output operations of a connection leave alone, as a locale that the clients of
    connections interpret on what they keep.
  \<^item> \<open>Echo_Server\<close> (echo.cc, EchoMain.cc, pingpong_server.cc): kernel, dispatcher, connection, buffers and user code composed;
    \<open>Connection_Close\<close>: the end of a connection across all classes, from the peer's close to the destructor;
    \<open>Pingpong_Client\<close> (pingpong_client.cc): what a session sends and counts, and the totals;
    \<open>Pingpong_Bench\<close> (pingpong_bench.cc): why it never measures anything.
  \<^item> \<open>Io_Frame\<close>, \<open>Server_State\<close>, \<open>Server_Run\<close>: the echo server and the ping-pong server as whole programs, from the start
    of \<^verbatim>\<open>main\<close> through any number of iterations of the loop and with any number of clients: what input and output on
    one connection leave alone, the invariant of a serving process, the callbacks of an application as a locale with
    an interpretation for each program, and the theorem that every client gets back what it sent.
  \<^item> \<open>Log_Stream\<close> (LoggingStream), \<open>Logger\<close> (Logging), \<open>Log_File\<close> (LogFile): number formatting against a
    reference, items appended as a whole or not at all, the layout of a line, the fate of fatal lines, and
    log files that keep every line across roll-overs and short writes.
  \<^item> \<open>Atomic\<close> (Atomic.h), \<open>Threads\<close> (Thread.h, Thread.cc, thread_guard.cc), \<open>Mutex_Lock\<close> (Mutex.h): the life of a
    thread and its object, the holder of a mutex.
  \<^item> \<open>Queue_Interface\<close>, \<open>Thread_Queues\<close> (threadsafe_queue.cc, BlockingQueue.cc, threadsafe_stack.cc,
    taskQueue.cc): the interfaces of the queues as locales and their interpretations, all member functions
    with their overloads included. An operation under one mutex is one step here.
  \<^item> \<open>Wait_Notify\<close>, \<open>Linked_Queue\<close>, \<open>Hierarchical_Mutex\<close>, \<open>Thread_Pool\<close>: step relations in which the
    accesses of any number of threads interleave, with invariants by rule induction: no lost wake-ups,
    a linearizable and memory-safe two-lock queue, no deadlock, and what the pool does with its tasks.
  \<^item> \<open>Node_Queue\<close>, \<open>Node_Queue_Program\<close> (threadsafe_queue_test.cc): the linked queue of \<^verbatim>\<open>unique_ptr\<close>s function by function
    on a heap of nodes, as an interpretation of the queue interface and with a destructor that frees every node; and its
    program, two threads on \<open>Linked_Queue\<close>, which hands the numbers over in order and can hang at its end.
  \<^item> \<open>Thread_Experiments\<close> (static_count.cc, Atomic_test.cc, out_of_order_test.cc, thread_once_test.cc of
    src/thread/test): what these programs of two threads print, in every interleaving.
  \<^item> \<open>Lookup_Table\<close> (threadsafe_lookup_table.cc): the interface of a dictionary as a locale and its
    interpretation by the hash table.
  \<^item> \<open>Queue_Programs\<close> (the \<^verbatim>\<open>main\<close>s of BlockingQueue.cc and threadsafe_lookup_table.cc): the producer and the
    consumer finish within a number of steps, and lookups agree under every schedule.
  \<^item> \<open>Loop_Programs\<close>, \<open>Net_Programs\<close> (test2.cc to test8.cc of src/reactor): when the programs on timers, tasks of
    another thread, an acceptor, a connector and printing echo connections end, and what they print.
  \<^item> \<open>Loop_Construction\<close> (constructor and destructor of \<^verbatim>\<open>EventLoop\<close>, test1.cc): a new loop satisfies what the other
    theories ask of a loop, and what a destroyed one leaves open. \<open>Timer_Program\<close> (Timer_test.cc): why it does
    not measure.
  \<^item> \<open>Log_Programs\<close> (LogFile_test.cc, Logging_test.cc): the contract of an output function as a locale, and what
    reaches its implementations; \<open>Stream_Tests\<close> (LoggingStream_test.cc): the unit tests, run on the model.
  \<^item> \<open>Shared_Ptr\<close> (shared_ptr_test.cc): a counted pointer against a specification without counters.

  \<^bold>\<open>Fuel and bounds.\<close> Only \<open>delete_nodes\<close> of \<open>Node_Queue\<close> counts its steps: a chain of distinct nodes is no
  longer than the number of nodes there have been, so the count suffices (lemma \<open>delete_chain\<close>). Theorems that an operation succeeds ask for room in the
  buffers (\<open>Buffer_room\<close>, \<open>live\<close>, \<open>room_for\<close>): below \<open>vector_max\<close> the code cannot meet \<^verbatim>\<open>std::length_error\<close>.

  \<^bold>\<open>Not modelled.\<close> Reference counts of \<^verbatim>\<open>shared_ptr\<close> (an object is deleted by an explicit operation);
  the effect of log lines below \<open>FATAL\<close> inside the reactor; data races on plain members other than
  those in the step relations; \<^verbatim>\<open>MutexLockGuard\<close>, whose reference is bound to itself, \<^verbatim>\<open>remove_mapping\<close> of the lookup table and
  \<^verbatim>\<open>value_for\<close> of \<^verbatim>\<open>threadsafe_unordered_map\<close>, which do not compile; the text of doubles; thread_param.cc and
  the programs of src/thread/test that only print what the standard library does (thread_local_test.cpp,
  const_shared_ptr_test.cc, enable_sherad_from_this_test.cpp), shared_ptr_for_rw.cpp, which does not compile, and the reading of command lines. The templates of src/thread that
  do not compile as they stand are read with their spelling slips repaired.
\<close>

end
